(* ===== verification/Prelude.thy ===== *)
theory Prelude
  imports Main "HOL-Library.Word" "HOL-Library.Signed_Division"
begin

text \<open>
  Shared vocabulary of the development.

  \<^item> Types: a Go byte is an 8-bit word, \<open>[]byte\<close> a list of them, a Go string a list of
    characters (one per byte). The sized integers \<open>int\<close> and \<open>int64\<close> are modelled by \<open>int\<close>;
    unsigned values on which wrap-around or bit patterns matter are words of their width.
  \<^item> Failures: \<open>LOG_ERROR\<close>, \<open>LOG_FATAL\<close> and \<open>LOG_ASSERT\<close> raise (\<open>duplicacy_log.go\<close>),
    and an out-of-range index or a nil dereference panics. Both are values of
    type \<open>exn\<close>, on the left of a sum. The Go \<open>error\<close> values that a function returns are
    values of type \<open>goerror\<close>.
  \<^item> The fragments of Go's standard library that the code uses: \<open>strings\<close> (prefix, suffix,
    replacement, trimming, case), \<open>strconv\<close> (decimal and hexadecimal integers),
    \<open>encoding/hex\<close> and \<open>encoding/binary\<close> (little endian), with their round trips.
\<close>

unbundle bit_operations_syntax

named_theorems go_simps \<open>unfolding rules of small library functions\<close>
named_theorems go_roundtrip \<open>decoding after encoding\<close>

section \<open>Types and failures\<close>

type_synonym byte = "8 word"
type_synonym bytes = "byte list"

datatype exn =
    LogError string     \<comment> \<open>LOG_ERROR with the given log id\<close>
  | LogFatal string     \<comment> \<open>LOG_FATAL with the given log id\<close>
  | LogAssert string    \<comment> \<open>LOG_ASSERT with the given log id\<close>
  | Panic string        \<comment> \<open>a Go runtime panic\<close>

type_synonym 'a res = "exn + 'a"

datatype goerror =
    EOF
  | UnexpectedEOF
  | GoErr string        \<comment> \<open>an \<open>errors.New\<close> or \<open>fmt.Errorf\<close> value; the string is its leading text\<close>

text \<open>Sequencing of steps that may fail: the first failure is the result.\<close>

definition bind_res :: "'e + 'a \<Rightarrow> ('a \<Rightarrow> 'e + 'b) \<Rightarrow> 'e + 'b" where
  "bind_res m f = (case m of Inl e \<Rightarrow> Inl e | Inr x \<Rightarrow> f x)"

lemma bind_res_simps [simp]: "bind_res (Inl e) f = Inl e" "bind_res (Inr x) f = f x"
  by (simp_all add: bind_res_def)

lemma bind_res_Inr_iff: "bind_res m f = Inr y \<longleftrightarrow> (\<exists>x. m = Inr x \<and> f x = Inr y)"
  by (cases m) auto

lemma bind_resE:
  assumes "bind_res m f = Inr y" obtains x where "m = Inr x" "f x = Inr y"
  using assms by (cases m) auto

lemma bind_res_Inl_iff: "bind_res m f = Inl e \<longleftrightarrow> m = Inl e \<or> (\<exists>x. m = Inr x \<and> f x = Inl e)"
  by (cases m) auto

lemma bind_res_case_iff:
  "bind_res m (case_sum f g) = Inr y \<longleftrightarrow>
     (\<exists>a. m = Inr (Inl a) \<and> f a = Inr y) \<or> (\<exists>b. m = Inr (Inr b) \<and> g b = Inr y)"
proof (cases m)
  case (Inr r)
  then show ?thesis by (cases r) auto
qed simp

fun run_steps :: "('s \<Rightarrow> 'e + 's) list \<Rightarrow> 's \<Rightarrow> 'e + 's" where
  "run_steps [] s = Inr s"
| "run_steps (f # fs) s = bind_res (f s) (run_steps fs)"

text \<open>Reading a slice at an index: out of range is a runtime panic.\<close>

definition index_slice :: "'a list \<Rightarrow> int \<Rightarrow> 'a res" where
  "index_slice xs i =
     (if 0 \<le> i \<and> i < int (length xs) then Inr (xs ! nat i) else Inl (Panic ''index out of range''))"

lemma index_slice_Inr [simp]:
  "0 \<le> i \<Longrightarrow> i < int (length xs) \<Longrightarrow> index_slice xs i = Inr (xs ! nat i)"
  by (simp add: index_slice_def)

lemma index_slice_cases:
  assumes "index_slice xs i = r"
  obtains (ok) "0 \<le> i" "i < int (length xs)" "r = Inr (xs ! nat i)"
    | (panic) "i < 0 \<or> int (length xs) \<le> i" "r = Inl (Panic ''index out of range'')"
  using assms by (cases "0 \<le> i \<and> i < int (length xs)") (auto simp: index_slice_def)

text \<open>The slice expression \<open>xs[i:j]\<close>.\<close>

definition slice :: "'a list \<Rightarrow> nat \<Rightarrow> nat \<Rightarrow> 'a list res" where
  "slice xs i j =
     (if i \<le> j \<and> j \<le> length xs then Inr (take (j - i) (drop i xs))
      else Inl (Panic ''slice bounds out of range''))"

lemma slice_Inr [simp]: "i \<le> j \<Longrightarrow> j \<le> length xs \<Longrightarrow> slice xs i j = Inr (take (j - i) (drop i xs))"
  by (simp add: slice_def)

text \<open>The division of Go truncates; on natural numbers this is the usual one.\<close>

lemma sdiv_nonneg: "0 \<le> (a :: int) \<Longrightarrow> 0 < b \<Longrightarrow> a sdiv b = a div b"
  by (cases "a = 0") (simp_all add: signed_divide_int_def)

section \<open>The strings package\<close>

definition HasPrefix :: "string \<Rightarrow> string \<Rightarrow> bool" where
  "HasPrefix s p = (take (length p) s = p)"

definition HasSuffix :: "string \<Rightarrow> string \<Rightarrow> bool" where
  "HasSuffix s p = (length p \<le> length s \<and> drop (length s - length p) s = p)"

fun Contains :: "string \<Rightarrow> string \<Rightarrow> bool" where
  "Contains [] p = (p = [])"
| "Contains (c # s) p = (HasPrefix (c # s) p \<or> Contains s p)"

text \<open>\<open>strings.Replace(s, old, "", -1)\<close> for a non-empty \<open>old\<close>: non-overlapping occurrences
  are removed from the left.\<close>

function remove_all :: "string \<Rightarrow> string \<Rightarrow> string" where
  "remove_all s old =
     (if s = [] \<or> old = [] then s
      else if HasPrefix s old then remove_all (drop (length old) s) old
      else hd s # remove_all (tl s) old)"
  by pat_completeness auto
termination
  by (relation "measure (\<lambda>(s, old). length s)") auto

declare remove_all.simps [simp del]

definition is_space :: "char \<Rightarrow> bool" where
  "is_space c = (c \<in> {CHR '' '', CHR 0x09, CHR 0x0A, CHR 0x0B, CHR 0x0C, CHR 0x0D})"

definition TrimSpace :: "string \<Rightarrow> string" where
  "TrimSpace s = rev (dropWhile is_space (rev (dropWhile is_space s)))"

definition lower_char :: "char \<Rightarrow> char" where
  "lower_char c =
     (let n = of_char c :: nat in if 65 \<le> n \<and> n \<le> 90 then char_of (n + 32) else c)"

definition upper_char :: "char \<Rightarrow> char" where
  "upper_char c =
     (let n = of_char c :: nat in if 97 \<le> n \<and> n \<le> 122 then char_of (n - 32) else c)"

definition ToLower :: "string \<Rightarrow> string" where
  "ToLower s = map lower_char s"

definition ToUpper :: "string \<Rightarrow> string" where
  "ToUpper s = map upper_char s"

lemma HasPrefix_append [simp]: "HasPrefix (p @ s) p"
  by (simp add: HasPrefix_def)

lemma HasPrefix_iff: "HasPrefix s p \<longleftrightarrow> (\<exists>t. s = p @ t)"
  by (metis HasPrefix_def append_eq_conv_conj)

lemma HasSuffix_append [simp]: "HasSuffix (s @ p) p"
  by (simp add: HasSuffix_def)

lemma HasSuffix_iff: "HasSuffix s p \<longleftrightarrow> (\<exists>t. s = t @ p)"
proof
  assume "HasSuffix s p"
  then have "s = take (length s - length p) s @ p"
    by (metis HasSuffix_def append_take_drop_id)
  then show "\<exists>t. s = t @ p" by blast
qed auto

lemma remove_all_Nil [simp]: "remove_all [] old = []"
  by (simp add: remove_all.simps)

lemma remove_all_single:
  "remove_all s [c] = filter (\<lambda>x. x \<noteq> c) s"
proof (induction s)
  case (Cons x s)
  then show ?case
    by (subst remove_all.simps) (auto simp: HasPrefix_def)
qed simp

section \<open>Decimal and hexadecimal numbers\<close>

definition digit_char :: "nat \<Rightarrow> char" where
  "digit_char d = char_of (48 + d)"

definition is_digit :: "char \<Rightarrow> bool" where
  "is_digit c = (48 \<le> (of_char c :: nat) \<and> (of_char c :: nat) \<le> 57)"

definition digit_val :: "char \<Rightarrow> nat" where
  "digit_val c = (of_char c :: nat) - 48"

fun show_nat :: "nat \<Rightarrow> string" where
  "show_nat n = (if n < 10 then [digit_char n] else show_nat (n div 10) @ [digit_char (n mod 10)])"

declare show_nat.simps [simp del]

definition show_int :: "int \<Rightarrow> string" where
  "show_int i = (if i < 0 then CHR ''-'' # show_nat (nat (- i)) else show_nat (nat i))"

definition digits_val :: "string \<Rightarrow> nat" where
  "digits_val s = foldl (\<lambda>a c. 10 * a + digit_val c) 0 s"

definition max_int64 :: int where
  "max_int64 = 9223372036854775807"

text \<open>\<open>strconv.Atoi\<close> on a string of digits whose error is ignored: the value, or the largest
  \<open>int\<close> when it is out of range.\<close>

definition Atoi_digits :: "string \<Rightarrow> int" where
  "Atoi_digits s = min (int (digits_val s)) max_int64"

lemma of_char_digit: "d < 10 \<Longrightarrow> (of_char (digit_char d) :: nat) = 48 + d"
  by (simp add: digit_char_def)

lemma is_digit_digit_char [simp]: "d < 10 \<Longrightarrow> is_digit (digit_char d)"
  by (simp add: is_digit_def of_char_digit)

lemma digit_val_digit_char [simp]: "d < 10 \<Longrightarrow> digit_val (digit_char d) = d"
  by (simp add: digit_val_def of_char_digit)

lemma show_nat_nonempty [simp]: "show_nat n \<noteq> []"
  by (subst show_nat.simps) simp

lemma show_nat_digits: "\<forall>c \<in> set (show_nat n). is_digit c"
proof (induction n rule: show_nat.induct)
  case (1 n)
  then show ?case by (cases "n < 10") (auto simp: show_nat.simps [of n])
qed

lemma digits_val_snoc: "digits_val (s @ [c]) = 10 * digits_val s + digit_val c"
  by (simp add: digits_val_def)

lemma digits_val_show_nat [simp, go_roundtrip]: "digits_val (show_nat n) = n"
proof (induction n rule: show_nat.induct)
  case (1 n)
  show ?case
  proof (cases "n < 10")
    case True
    then show ?thesis by (simp add: show_nat.simps [of n] digits_val_def)
  next
    case False
    with "1.IH" show ?thesis by (simp add: show_nat.simps [of n] digits_val_snoc)
  qed
qed

lemma Atoi_show_nat [go_roundtrip]: "int n \<le> max_int64 \<Longrightarrow> Atoi_digits (show_nat n) = int n"
  by (simp add: Atoi_digits_def)

definition hex_digit :: "nat \<Rightarrow> char" where
  "hex_digit d = char_of (if d < 10 then 48 + d else 87 + d)"

definition hex_val :: "char \<Rightarrow> nat option" where
  "hex_val c = (let n = of_char c :: nat in
     if 48 \<le> n \<and> n \<le> 57 then Some (n - 48)
     else if 97 \<le> n \<and> n \<le> 102 then Some (n - 87)
     else if 65 \<le> n \<and> n \<le> 70 then Some (n - 55) else None)"

lemma hex_val_hex_digit [simp, go_roundtrip]: "d < 16 \<Longrightarrow> hex_val (hex_digit d) = Some d"
  by (simp add: hex_val_def hex_digit_def Let_def)

text \<open>\<open>strconv.FormatInt(n, 16)\<close> for a non-negative \<open>n\<close> and \<open>strconv.ParseUint(s, 16, w)\<close>.\<close>

fun show_hex :: "nat \<Rightarrow> string" where
  "show_hex n = (if n < 16 then [hex_digit n] else show_hex (n div 16) @ [hex_digit (n mod 16)])"

declare show_hex.simps [simp del]

fun parse_hex_acc :: "nat \<Rightarrow> string \<Rightarrow> nat option" where
  "parse_hex_acc a [] = Some a"
| "parse_hex_acc a (c # s) =
     (case hex_val c of None \<Rightarrow> None | Some d \<Rightarrow> parse_hex_acc (16 * a + d) s)"

definition ParseUint16 :: "nat \<Rightarrow> string \<Rightarrow> goerror + nat" where
  "ParseUint16 width s =
     (if s = [] then Inl (GoErr ''invalid syntax'')
      else case parse_hex_acc 0 s of
        None \<Rightarrow> Inl (GoErr ''invalid syntax'')
      | Some n \<Rightarrow> if n < 2 ^ width then Inr n else Inl (GoErr ''value out of range''))"

lemma parse_hex_acc_append:
  "parse_hex_acc a (s @ t) =
     (case parse_hex_acc a s of None \<Rightarrow> None | Some b \<Rightarrow> parse_hex_acc b t)"
  by (induction s arbitrary: a) (auto split: option.splits)

lemma parse_hex_show_hex [simp, go_roundtrip]: "parse_hex_acc 0 (show_hex n) = Some n"
proof (induction n rule: show_hex.induct)
  case (1 n)
  then show ?case
    by (cases "n < 16") (auto simp: show_hex.simps [of n] parse_hex_acc_append)
qed

lemma show_hex_nonempty [simp]: "show_hex n \<noteq> []"
  by (subst show_hex.simps) simp

lemma ParseUint16_show_hex [go_roundtrip]: "n < 2 ^ w \<Longrightarrow> ParseUint16 w (show_hex n) = Inr n"
  by (simp add: ParseUint16_def)

lemma hex_digit_not_slash: "d < 16 \<Longrightarrow> hex_digit d \<noteq> CHR ''/''"
proof -
  assume "d < 16"
  then have "(of_char (hex_digit d) :: nat) \<noteq> of_char (CHR ''/'')"
    by (simp add: hex_digit_def)
  then show ?thesis by metis
qed

lemma show_hex_no_slash: "CHR ''/'' \<notin> set (show_hex n)"
proof (induction n rule: show_hex.induct)
  case (1 n)
  show ?case
  proof (cases "n < 16")
    case True
    then show ?thesis using hex_digit_not_slash [of n] by (auto simp: show_hex.simps [of n])
  next
    case False
    have "hex_digit (n mod 16) \<noteq> CHR ''/''" by (rule hex_digit_not_slash) simp
    with False "1.IH" show ?thesis by (auto simp: show_hex.simps [of n])
  qed
qed

section \<open>encoding/hex\<close>

fun hex_encode :: "bytes \<Rightarrow> string" where
  "hex_encode [] = []"
| "hex_encode (b # bs) =
     hex_digit (unat b div 16) # hex_digit (unat b mod 16) # hex_encode bs"

fun hex_decode :: "string \<Rightarrow> bytes option" where
  "hex_decode [] = Some []"
| "hex_decode [c] = None"
| "hex_decode (c # d # s) =
     (case (hex_val c, hex_val d) of
        (Some x, Some y) \<Rightarrow> map_option (\<lambda>bs. of_nat (16 * x + y) # bs) (hex_decode s)
      | _ \<Rightarrow> None)"

lemma unat_byte_less: "unat (b :: byte) < 256"
  by (rule order_less_le_trans [OF unsigned_less]) simp

lemma hex_decode_encode [simp, go_roundtrip]: "hex_decode (hex_encode bs) = Some bs"
proof (induction bs)
  case (Cons b bs)
  have "unat b div 16 < 16" using unat_byte_less [of b] by simp
  moreover have "unat b mod 16 < 16" by simp
  moreover have "16 * (unat b div 16) + unat b mod 16 = unat b" by simp
  ultimately show ?case using Cons by simp
qed simp

lemma hex_encode_inj [simp]: "hex_encode a = hex_encode b \<longleftrightarrow> a = b"
  by (metis hex_decode_encode option.inject)

lemma length_hex_encode [simp]: "length (hex_encode bs) = 2 * length bs"
  by (induction bs) auto

section \<open>encoding/binary, little endian\<close>

fun le_bytes :: "nat \<Rightarrow> nat \<Rightarrow> bytes" where
  "le_bytes 0 n = []"
| "le_bytes (Suc k) n = of_nat (n mod 256) # le_bytes k (n div 256)"

fun le_nat :: "bytes \<Rightarrow> nat" where
  "le_nat [] = 0"
| "le_nat (b # bs) = unat b + 256 * le_nat bs"

lemma length_le_bytes [simp]: "length (le_bytes k n) = k"
  by (induction k arbitrary: n) auto

lemma unat_of_nat_byte: "unat (of_nat (n mod 256) :: byte) = n mod 256"
  by (simp add: unat_of_nat)

lemma le_nat_le_bytes [go_roundtrip]: "le_nat (le_bytes k n) = n mod 256 ^ k"
proof (induction k arbitrary: n)
  case (Suc k)
  have "n mod (256 * 256 ^ k) = n mod 256 + 256 * (n div 256 mod 256 ^ k)"
    by (simp add: mod_mult2_eq)
  with Suc show ?case by (simp add: unat_of_nat_byte)
qed simp

lemma le_nat_le_bytes_id: "n < 256 ^ k \<Longrightarrow> le_nat (le_bytes k n) = n"
  by (simp add: le_nat_le_bytes)

section \<open>Bytes of strings\<close>

definition string_bytes :: "string \<Rightarrow> bytes" where
  "string_bytes s = map of_char s"

lemma string_bytes_inj: "string_bytes s = string_bytes t \<Longrightarrow> s = t"
proof -
  have "inj (of_char :: char \<Rightarrow> byte)"
  proof (rule injI)
    fix c d :: char
    assume "(of_char c :: byte) = of_char d"
    then have "unat (of_nat (of_char c) :: byte) = unat (of_nat (of_char d) :: byte)"
      by (simp only: of_nat_of_char)
    then have "(of_char c :: nat) mod 256 = of_char d mod 256"
      by (simp only: unat_of_nat) simp
    then show "c = d" by simp
  qed
  then show "string_bytes s = string_bytes t \<Longrightarrow> s = t"
    by (simp add: string_bytes_def inj_map_eq_map)
qed

end
