(* ===== verification/Wildcard.thy ===== *)
theory Wildcard
  imports Prelude
begin

text \<open>
  The wildcard matcher of \<open>duplicacy_utils.go\<close>, with which filters are matched against paths.

  \<open>matchPattern\<close> is a loop over two indices that remembers the last wildcard and the position
  its match starts at, and backtracks there on a mismatch. It is modelled as written, with a
  fuel argument in place of the unbounded \<open>for\<close>; \<open>matchPattern_total\<close> shows that the fuel the
  wrapper passes is always enough. The reference is \<open>glob\<close>, the usual recursive meaning of
  \<open>*\<close> and \<open>?\<close>. The two agree on every pattern without two consecutive stars and every text
  free of stars and of NUL bytes (\<open>matchPattern_glob\<close>); outside of that they differ.
\<close>

section \<open>Model of the loop\<close>

text \<open>The inner \<open>for\<close>: the first index from \<open>t\<close> on at which \<open>tx\<close> has the byte \<open>w\<close>, where
  \<open>w\<close> is \<open>?\<close> for any byte; the length of \<open>tx\<close> if there is none.\<close>

function scan_text :: "string \<Rightarrow> char \<Rightarrow> nat \<Rightarrow> nat" where
  "scan_text tx w t =
     (if t < length tx \<and> tx ! t \<noteq> w \<and> w \<noteq> CHR ''?'' then scan_text tx w (Suc t) else t)"
  by pat_completeness auto
termination
  by (relation "measure (\<lambda>(tx, w, t). length tx - t)") auto

declare scan_text.simps [simp del]

text \<open>One unit of fuel per iteration of the outer \<open>for\<close>; \<open>None\<close> is running out of it.\<close>

fun match_loop :: "nat \<Rightarrow> string \<Rightarrow> string \<Rightarrow> nat \<Rightarrow> nat \<Rightarrow> nat \<Rightarrow> nat \<Rightarrow> bool option" where
  "match_loop 0 tx pattern t p afterLastWildcard afterLastMatched = None"
| "match_loop (Suc fuel) tx pattern t p afterLastWildcard afterLastMatched =
     (if length tx \<le> t then
        if length pattern \<le> p then Some True
        else if pattern ! p = CHR ''*''
          then match_loop fuel tx pattern t (Suc p) afterLastWildcard afterLastMatched
        else Some False
      else
        let w = (if p < length pattern then pattern ! p else CHR 0x00) in
        if tx ! t \<noteq> w then
          if w = CHR ''?'' then
            match_loop fuel tx pattern (Suc t) (Suc p) afterLastWildcard afterLastMatched
          else if w = CHR ''*'' then
            if length pattern \<le> Suc p then Some True
            else let t' = scan_text tx (pattern ! Suc p) t in
              if length tx \<le> t' then Some False
              else match_loop fuel tx pattern (Suc t') (Suc (Suc p)) (Suc p) t'
          else if 0 < afterLastWildcard then
            let t' = scan_text tx (pattern ! afterLastWildcard) (Suc afterLastMatched) in
              if length tx \<le> t' then Some False
              else match_loop fuel tx pattern (Suc t') (Suc afterLastWildcard) afterLastWildcard t'
          else Some False
        else match_loop fuel tx pattern (Suc t) (Suc p) afterLastWildcard afterLastMatched)"

definition match_fuel :: "string \<Rightarrow> string \<Rightarrow> nat" where
  "match_fuel tx pattern =
     Suc ((length tx + 1) * (length tx + length pattern + 1) + length tx + length pattern)"

definition matchPattern :: "string \<Rightarrow> string \<Rightarrow> bool option" where
  "matchPattern tx pattern = match_loop (match_fuel tx pattern) tx pattern 0 0 0 0"

section \<open>The loop ends\<close>

lemma scan_text_ge: "t \<le> scan_text tx w t"
proof (induction tx w t rule: scan_text.induct)
  case (1 tx w t)
  then show ?case
    by (cases "t < length tx \<and> tx ! t \<noteq> w \<and> w \<noteq> CHR ''?''")
       (auto simp: scan_text.simps [of tx w t])
qed

lemma scan_text_hit:
  "scan_text tx w t < length tx \<Longrightarrow> tx ! scan_text tx w t = w \<or> w = CHR ''?''"
proof (induction tx w t rule: scan_text.induct)
  case (1 tx w t)
  then show ?case
    by (cases "t < length tx \<and> tx ! t \<noteq> w \<and> w \<noteq> CHR ''?''")
       (auto simp: scan_text.simps [of tx w t])
qed

lemma scan_text_skip:
  "t \<le> k \<Longrightarrow> k < scan_text tx w t \<Longrightarrow> k < length tx \<Longrightarrow> tx ! k \<noteq> w \<and> w \<noteq> CHR ''?''"
proof (induction tx w t rule: scan_text.induct)
  case (1 tx w t)
  show ?case
  proof (cases "t < length tx \<and> tx ! t \<noteq> w \<and> w \<noteq> CHR ''?''")
    case True
    with 1 show ?thesis
      by (cases "t = k") (auto simp: scan_text.simps [of tx w t])
  next
    case False
    with "1.prems" show ?thesis by (simp add: scan_text.simps [of tx w t] split: if_splits)
  qed
qed

text \<open>What every iteration decreases, given that the loop never stands before the position
  it would backtrack to.\<close>

definition match_measure :: "string \<Rightarrow> string \<Rightarrow> nat \<Rightarrow> nat \<Rightarrow> nat \<Rightarrow> nat" where
  "match_measure tx pattern t p am =
     (length tx - am) * (length tx + length pattern + 1) + (length tx - t) + (length pattern - p)"

lemma match_measure_step:
  assumes "t < length tx" and "am \<le> am'" and "t < t'" and "p \<le> p'"
  shows "match_measure tx pattern t' p' am' < match_measure tx pattern t p am"
proof -
  have "(length tx - am') * (length tx + length pattern + 1)
      \<le> (length tx - am) * (length tx + length pattern + 1)"
    using assms(2) by (intro mult_right_mono) auto
  moreover have "length tx - t' < length tx - t" and "length pattern - p' \<le> length pattern - p"
    using assms by auto
  ultimately show ?thesis unfolding match_measure_def by linarith
qed

lemma match_measure_backtrack:
  assumes "am < am'" and "am' < length tx"
  shows "match_measure tx pattern t' p' am' < match_measure tx pattern t p am"
proof -
  define K where "K = length tx + length pattern + 1"
  have "(length tx - am') * K + K = (length tx - am' + 1) * K"
    by (simp add: algebra_simps)
  also have "\<dots> \<le> (length tx - am) * K"
    using assms by (intro mult_right_mono) auto
  finally have "(length tx - am') * K + K \<le> (length tx - am) * K" .
  moreover have "(length tx - t') + (length pattern - p') < K"
    by (simp add: K_def)
  ultimately show ?thesis
    unfolding match_measure_def K_def [symmetric] by linarith
qed

lemma match_loop_total:
  "am \<le> t \<Longrightarrow> match_measure tx pattern t p am < fuel \<Longrightarrow>
   \<exists>b. match_loop fuel tx pattern t p aw am = Some b"
proof (induction fuel arbitrary: t p aw am)
  case (Suc fuel)
  let ?w = "if p < length pattern then pattern ! p else CHR 0x00"
  show ?case
  proof (cases "length tx \<le> t")
    case True
    show ?thesis
    proof (cases "p < length pattern \<and> pattern ! p = CHR ''*''")
      case star: True
      then have "match_measure tx pattern t (Suc p) am < match_measure tx pattern t p am"
        unfolding match_measure_def by (intro add_strict_left_mono) auto
      with Suc.prems have "match_measure tx pattern t (Suc p) am < fuel" by simp
      from Suc.IH [OF Suc.prems(1) this] True star show ?thesis by auto
    qed (use True in auto)
  next
    case False
    then have t: "t < length tx" by simp
    have next_ok: "\<exists>b. match_loop fuel tx pattern (Suc t) (Suc p) aw am = Some b"
      using match_measure_step [OF t order_refl, of "Suc t" p "Suc p" pattern am] Suc
      by auto
    have star_ok: "\<exists>b. match_loop fuel tx pattern (Suc t') (Suc (Suc p)) (Suc p) t' = Some b"
      if "t' = scan_text tx (pattern ! Suc p) t" for t'
      using match_measure_step [OF t, of am t' "Suc t'" p "Suc (Suc p)" pattern]
        scan_text_ge [of t tx "pattern ! Suc p"] Suc that by auto
    have back_ok: "\<exists>b. match_loop fuel tx pattern (Suc t') (Suc aw) aw t' = Some b"
      if "t' = scan_text tx (pattern ! aw) (Suc am)" "t' < length tx" for t'
      using match_measure_backtrack [of am t' tx pattern "Suc t'" "Suc aw" t p]
        scan_text_ge [of "Suc am" tx "pattern ! aw"] Suc that by auto
    show ?thesis
      using t next_ok star_ok back_ok by (auto simp: Let_def not_le)
  qed
qed simp

text \<open>The matcher always returns: the fuel the wrapper passes, one more than
  \<open>(n+1) * (n+m+1) + n + m\<close> for a text of length \<open>n\<close> and a pattern of length \<open>m\<close>, bounds the
  number of iterations of the loop on every text and every pattern.\<close>

theorem matchPattern_total: "\<exists>b. matchPattern tx pattern = Some b"
  unfolding matchPattern_def
  by (rule match_loop_total) (simp_all add: match_measure_def match_fuel_def)

section \<open>The reference meaning\<close>

fun glob :: "string \<Rightarrow> string \<Rightarrow> bool" where
  "glob tx [] = (tx = [])"
| "glob [] (x # p) = (x = CHR ''*'' \<and> glob [] p)"
| "glob (c # t) (x # p) =
     (if x = CHR ''*'' then glob (c # t) p \<or> glob t (x # p)
      else (x = CHR ''?'' \<or> c = x) \<and> glob t p)"

lemma glob_star_drop:
  "glob s (CHR ''*'' # p) \<longleftrightarrow> (\<exists>k \<le> length s. glob (drop k s) p)"
proof (induction s)
  case (Cons c s)
  have "(\<exists>k \<le> length (c # s). glob (drop k (c # s)) p)
      \<longleftrightarrow> glob (c # s) p \<or> (\<exists>k \<le> length s. glob (drop k s) p)"
    by (metis Suc_le_mono drop0 drop_Suc_Cons le0 length_Cons not0_implies_Suc)
  with Cons show ?case by simp
qed simp

lemma glob_star_all [simp]: "glob s [CHR ''*'']"
  by (induction s) auto

lemma glob_stars: "glob [] p \<longleftrightarrow> (\<forall>c \<in> set p. c = CHR ''*'')"
  by (induction p) auto

text \<open>A match needs at least one text byte per pattern byte that is not a star.\<close>

lemma glob_length: "glob s p \<Longrightarrow> length (filter (\<lambda>c. c \<noteq> CHR ''*'') p) \<le> length s"
  by (induction s p rule: glob.induct) (auto split: if_splits)

text \<open>A literal segment, matched byte by byte at position \<open>k\<close> of the text.\<close>

definition seg_at :: "string \<Rightarrow> nat \<Rightarrow> string \<Rightarrow> nat \<Rightarrow> nat \<Rightarrow> bool" where
  "seg_at tx k pattern a n \<longleftrightarrow>
     k + n \<le> length tx \<and> a + n \<le> length pattern \<and>
     (\<forall>i < n. pattern ! (a + i) \<noteq> CHR ''*'' \<and>
        (pattern ! (a + i) = CHR ''?'' \<or> tx ! (k + i) = pattern ! (a + i)))"

definition literal_seg :: "string \<Rightarrow> nat \<Rightarrow> nat \<Rightarrow> bool" where
  "literal_seg pattern a n \<longleftrightarrow>
     a + n \<le> length pattern \<and> (\<forall>i < n. pattern ! (a + i) \<noteq> CHR ''*'')"

lemma glob_step:
  assumes "k < length tx" and "a < length pattern" and "pattern ! a \<noteq> CHR ''*''"
  shows "glob (drop k tx) (drop a pattern) \<longleftrightarrow>
     (pattern ! a = CHR ''?'' \<or> tx ! k = pattern ! a) \<and> glob (drop (Suc k) tx) (drop (Suc a) pattern)"
  using assms by (simp add: Cons_nth_drop_Suc [symmetric])

lemma glob_literal:
  "literal_seg pattern a n \<Longrightarrow> k \<le> length tx \<Longrightarrow>
   glob (drop k tx) (drop a pattern) \<longleftrightarrow>
     seg_at tx k pattern a n \<and> glob (drop (k + n) tx) (drop (a + n) pattern)"
proof (induction n)
  case 0
  then show ?case by (auto simp: seg_at_def literal_seg_def)
next
  case (Suc n)
  then have lit: "literal_seg pattern a n" and a: "a + n < length pattern"
    and ns: "pattern ! (a + n) \<noteq> CHR ''*''"
    by (auto simp: literal_seg_def)
  show ?case
  proof (cases "k + n < length tx")
    case True
    have seg: "seg_at tx k pattern a (Suc n) \<longleftrightarrow> seg_at tx k pattern a n \<and>
        (pattern ! (a + n) = CHR ''?'' \<or> tx ! (k + n) = pattern ! (a + n))"
      using True a ns by (auto simp: seg_at_def less_Suc_eq)
    from glob_step [OF True a ns] Suc.IH [OF lit Suc.prems(2)] show ?thesis
      unfolding seg by auto
  next
    case False
    then have "\<not> glob (drop (k + n) tx) (drop (a + n) pattern)"
      using a ns by (simp add: Cons_nth_drop_Suc [symmetric])
    moreover have "\<not> seg_at tx k pattern a (Suc n)"
      using False by (simp add: seg_at_def)
    ultimately show ?thesis using Suc.IH [OF lit Suc.prems(2)] by simp
  qed
qed

section \<open>The loop computes the reference meaning\<close>

definition no_double_star :: "string \<Rightarrow> bool" where
  "no_double_star pattern =
     (\<forall>i < length pattern - 1. \<not> (pattern ! i = CHR ''*'' \<and> pattern ! Suc i = CHR ''*''))"

definition plain_text :: "string \<Rightarrow> bool" where
  "plain_text tx = (CHR ''*'' \<notin> set tx \<and> CHR 0x00 \<notin> set tx)"

lemma glob_star_mono:
  assumes "glob (drop j s) (CHR ''*'' # q)"
  shows "glob s (CHR ''*'' # q)"
proof -
  from assms obtain k where "k \<le> length (drop j s)" "glob (drop k (drop j s)) q"
    unfolding glob_star_drop by blast
  then have "glob (drop (min (length s) (k + j)) s) q" and "min (length s) (k + j) \<le> length s"
    by (auto simp: min_def)
  then show ?thesis unfolding glob_star_drop by blast
qed

lemma glob_star_skip:
  assumes "j \<le> j'" and "\<And>k. j \<le> k \<Longrightarrow> k < j' \<Longrightarrow> \<not> glob (drop k tx) q"
  shows "glob (drop j tx) (CHR ''*'' # q) \<longleftrightarrow> glob (drop j' tx) (CHR ''*'' # q)"
  using assms
proof (induction "j' - j" arbitrary: j')
  case 0
  then show ?case by simp
next
  case (Suc n)
  then obtain i where i: "j' = Suc i" "j \<le> i" by (cases j') auto
  with Suc have *: "glob (drop j tx) (CHR ''*'' # q) \<longleftrightarrow> glob (drop i tx) (CHR ''*'' # q)"
    by simp
  have "\<not> glob (drop i tx) q" using Suc.prems(2) i by simp
  then have "glob (drop i tx) (CHR ''*'' # q) \<longleftrightarrow> glob (drop (Suc i) tx) (CHR ''*'' # q)"
    by (cases "i < length tx") (auto simp: Cons_nth_drop_Suc [symmetric])
  with * i show ?case by simp
qed

lemma seg_at_literal: "seg_at tx k pattern a n \<Longrightarrow> literal_seg pattern a n"
  by (auto simp: seg_at_def literal_seg_def)

text \<open>A matched segment followed by a star need never be moved.\<close>

lemma glob_greedy:
  assumes seg: "seg_at tx am pattern aw n"
    and star: "aw + n < length pattern" "pattern ! (aw + n) = CHR ''*''"
  shows "glob (drop am tx) (CHR ''*'' # drop aw pattern)
    \<longleftrightarrow> glob (drop (am + n) tx) (drop (aw + n) pattern)"
proof
  have q: "drop (aw + n) pattern = CHR ''*'' # drop (Suc (aw + n)) pattern"
    using star by (metis Cons_nth_drop_Suc)
  have am: "am \<le> length tx" using seg by (simp add: seg_at_def)
  { assume "glob (drop am tx) (CHR ''*'' # drop aw pattern)"
    then obtain k where k: "k \<le> length tx - am" "glob (drop (am + k) tx) (drop aw pattern)"
      unfolding glob_star_drop by (auto simp: add.commute)
    with am glob_literal [OF seg_at_literal [OF seg], of "am + k" tx]
    have "glob (drop (am + k + n) tx) (drop (aw + n) pattern)" by simp
    then have "glob (drop k (drop (am + n) tx)) (CHR ''*'' # drop (Suc (aw + n)) pattern)"
      using q by (simp add: algebra_simps)
    then show "glob (drop (am + n) tx) (drop (aw + n) pattern)"
      unfolding q by (rule glob_star_mono) }
  { assume "glob (drop (am + n) tx) (drop (aw + n) pattern)"
    with seg am glob_literal [OF seg_at_literal [OF seg] am]
    have "glob (drop am tx) (drop aw pattern)" by simp
    then show "glob (drop am tx) (CHR ''*'' # drop aw pattern)"
      unfolding glob_star_drop by (metis drop0 le0) }
qed

text \<open>What the indices mean at the head of the loop: before the first star, the consumed
  prefixes match; after it, the segment since the last star matches at \<open>afterLastMatched\<close>, and
  no earlier position can.\<close>

definition match_inv :: "string \<Rightarrow> string \<Rightarrow> nat \<Rightarrow> nat \<Rightarrow> nat \<Rightarrow> nat \<Rightarrow> bool" where
  "match_inv tx pattern t p aw am \<longleftrightarrow>
     t \<le> length tx \<and> p \<le> length pattern \<and>
     (if aw = 0 then glob tx pattern \<longleftrightarrow> glob (drop t tx) (drop p pattern)
      else aw < length pattern \<and> pattern ! (aw - 1) = CHR ''*'' \<and> am < t \<and> p = aw + (t - am) \<and>
        seg_at tx am pattern aw (t - am) \<and>
        (glob tx pattern \<longleftrightarrow> glob (drop am tx) (CHR ''*'' # drop aw pattern)))"

lemma match_inv_end:
  assumes "match_inv tx pattern t p aw am" and "length tx \<le> t"
  shows "glob tx pattern \<longleftrightarrow> glob [] (drop p pattern)"
proof (cases "aw = 0")
  case True
  with assms show ?thesis by (simp add: match_inv_def)
next
  case False
  define n where "n = t - am"
  from assms False have t: "t = length tx" "am + n = t" "p = aw + n"
    and seg: "seg_at tx am pattern aw n"
    and G: "glob tx pattern \<longleftrightarrow> glob (drop am tx) (CHR ''*'' # drop aw pattern)"
    by (auto simp: match_inv_def n_def)
  have "glob (drop (am + k) tx) (drop aw pattern) \<longleftrightarrow> k = 0 \<and> glob [] (drop p pattern)"
    if "k \<le> length tx - am" for k
    using glob_literal [OF seg_at_literal [OF seg], of "am + k" tx] t that seg
    by (auto simp: seg_at_def)
  then show ?thesis
    unfolding G glob_star_drop by (auto simp: add.commute)
qed

lemma match_loop_end:
  "length tx \<le> t \<Longrightarrow> match_loop fuel tx pattern t p aw am = Some b \<Longrightarrow>
   b \<longleftrightarrow> glob [] (drop p pattern)"
proof (induction fuel arbitrary: p)
  case (Suc fuel)
  show ?case
  proof (cases "p < length pattern")
    case True
    with Suc show ?thesis
      by (auto simp: Cons_nth_drop_Suc [symmetric] split: if_splits)
  qed (use Suc in auto)
qed simp

lemma match_inv_consume:
  assumes inv: "match_inv tx pattern t p aw am" and t: "t < length tx" and p: "p < length pattern"
    and w: "pattern ! p \<noteq> CHR ''*''" "pattern ! p = CHR ''?'' \<or> tx ! t = pattern ! p"
  shows "match_inv tx pattern (Suc t) (Suc p) aw am"
proof (cases "aw = 0")
  case True
  with inv glob_step [OF t p w(1)] t p w(2) show ?thesis by (simp add: match_inv_def)
next
  case False
  with inv t p w show ?thesis
    by (auto simp: match_inv_def seg_at_def less_Suc_eq Suc_diff_le)
qed

lemma match_inv_star:
  assumes inv: "match_inv tx pattern t p aw am" and p: "p < length pattern"
    and w: "pattern ! p = CHR ''*''"
  shows "glob tx pattern \<longleftrightarrow> glob (drop t tx) (CHR ''*'' # drop (Suc p) pattern)"
proof (cases "aw = 0")
  case True
  with inv p w show ?thesis by (simp add: match_inv_def Cons_nth_drop_Suc [symmetric])
next
  case False
  with inv have "seg_at tx am pattern aw (t - am)" "p = aw + (t - am)" "am + (t - am) = t"
    and G: "glob tx pattern \<longleftrightarrow> glob (drop am tx) (CHR ''*'' # drop aw pattern)"
    by (auto simp: match_inv_def)
  with glob_greedy [of tx am pattern aw "t - am"] p w show ?thesis
    by (simp add: Cons_nth_drop_Suc [symmetric])
qed

lemma match_inv_mismatch:
  assumes inv: "match_inv tx pattern t p aw am" and t: "t < length tx"
    and w: "p < length pattern \<Longrightarrow> pattern ! p \<noteq> CHR ''*'' \<and> pattern ! p \<noteq> CHR ''?'' \<and> tx ! t \<noteq> pattern ! p"
  shows "if aw = 0 then \<not> glob tx pattern else \<not> glob (drop am tx) (drop aw pattern)"
proof -
  have no: "\<not> glob (drop t tx) (drop p pattern)"
  proof (cases "p < length pattern")
    case True
    with w t show ?thesis by (simp add: glob_step)
  qed (use t in simp)
  show ?thesis
  proof (cases "aw = 0")
    case True
    with no inv show ?thesis by (simp add: match_inv_def)
  next
    case False
    with inv have "seg_at tx am pattern aw (t - am)" "p = aw + (t - am)" "am + (t - am) = t"
      by (auto simp: match_inv_def)
    with no False glob_literal [OF seg_at_literal, of tx am pattern aw "t - am" am tx] t
    show ?thesis by simp
  qed
qed

text \<open>From a position where the byte after the star cannot match before \<open>t'\<close>, the loop goes on
  at \<open>t'\<close>, or gives up when there is no such position.\<close>

lemma scan_after_star:
  assumes G: "glob tx pattern \<longleftrightarrow> glob (drop t tx) (CHR ''*'' # drop a pattern)"
    and a: "a < length pattern" "pattern ! a \<noteq> CHR ''*''"
    and t': "t' = scan_text tx (pattern ! a) t"
  shows "length tx \<le> t' \<Longrightarrow> \<not> glob tx pattern"
    and "t' < length tx \<Longrightarrow> 0 < a \<Longrightarrow> pattern ! (a - 1) = CHR ''*'' \<Longrightarrow>
      match_inv tx pattern (Suc t') (Suc a) a t'"
proof -
  have skip: "\<not> glob (drop k tx) (drop a pattern)" if "t \<le> k" "k < t'" for k
  proof (cases "k < length tx")
    case True
    with scan_text_skip [of t k tx "pattern ! a"] that t' glob_step [OF True a] show ?thesis by auto
  qed (use a in \<open>simp add: Cons_nth_drop_Suc [symmetric]\<close>)
  have le: "t \<le> t'" using scan_text_ge t' by simp
  from glob_star_skip [OF le skip] G
  have G': "glob tx pattern \<longleftrightarrow> glob (drop t' tx) (CHR ''*'' # drop a pattern)" by blast
  show "length tx \<le> t' \<Longrightarrow> \<not> glob tx pattern"
    using G' a by (simp add: Cons_nth_drop_Suc [symmetric])
  show "match_inv tx pattern (Suc t') (Suc a) a t'"
    if "t' < length tx" "0 < a" "pattern ! (a - 1) = CHR ''*''"
    using that G' a scan_text_hit [of tx "pattern ! a" t] t'
    by (auto simp: match_inv_def seg_at_def)
qed

lemma no_double_starD:
  "no_double_star pattern \<Longrightarrow> Suc i < length pattern \<Longrightarrow> pattern ! i = CHR ''*'' \<Longrightarrow>
   pattern ! Suc i \<noteq> CHR ''*''"
  by (auto simp: no_double_star_def)

lemma match_loop_glob:
  assumes nds: "no_double_star pattern" and plain: "plain_text tx"
  shows "match_inv tx pattern t p aw am \<Longrightarrow>
    match_loop fuel tx pattern t p aw am = Some b \<Longrightarrow> b \<longleftrightarrow> glob tx pattern"
proof (induction fuel arbitrary: t p aw am)
  case (Suc fuel)
  note inv = Suc.prems(1) and run = Suc.prems(2)
  show ?case
  proof (cases "length tx \<le> t")
    case True
    with match_loop_end [OF True run] match_inv_end [OF inv] show ?thesis by simp
  next
    case False
    then have t: "t < length tx" by simp
    then have tx_t: "tx ! t \<noteq> CHR ''*''" "tx ! t \<noteq> CHR 0x00"
      using plain by (auto simp: plain_text_def dest: nth_mem)
    define w where "w = (if p < length pattern then pattern ! p else CHR 0x00)"
    consider (consume) "p < length pattern" "w \<noteq> CHR ''*''" "w = CHR ''?'' \<or> tx ! t = w"
      | (star) "p < length pattern" "w = CHR ''*''"
      | (mismatch) "w \<noteq> CHR ''*''" "w \<noteq> CHR ''?''" "tx ! t \<noteq> w"
    proof (cases "p < length pattern")
      case False
      then show ?thesis using tx_t by (intro mismatch) (simp_all add: w_def)
    qed (use that in blast)
    then show ?thesis
    proof cases
      case consume
      have "match_inv tx pattern (Suc t) (Suc p) aw am"
        using match_inv_consume [OF inv t] consume by (simp add: w_def)
      moreover have "match_loop fuel tx pattern (Suc t) (Suc p) aw am = Some b"
        using run t consume by (auto simp: w_def Let_def split: if_splits)
      ultimately show ?thesis by (rule Suc.IH)
    next
      case star
      with match_inv_star [OF inv]
      have G: "glob tx pattern \<longleftrightarrow> glob (drop t tx) (CHR ''*'' # drop (Suc p) pattern)"
        by (simp add: w_def)
      show ?thesis
      proof (cases "Suc p < length pattern")
        case True
        with no_double_starD [OF nds True] star have ns: "pattern ! Suc p \<noteq> CHR ''*''"
          by (simp add: w_def)
        from scan_after_star [OF G True ns refl] star run t tx_t True Suc.IH show ?thesis
          by (auto simp: w_def Let_def split: if_splits)
      qed (use G star run t tx_t in \<open>auto simp: w_def Let_def split: if_splits\<close>)
    next
      case mismatch
      have mm: "if aw = 0 then \<not> glob tx pattern else \<not> glob (drop am tx) (drop aw pattern)"
        by (rule match_inv_mismatch [OF inv t]) (use mismatch in \<open>simp add: w_def\<close>)
      show ?thesis
      proof (cases "aw = 0")
        case True
        with mm run t mismatch show ?thesis by (simp add: w_def Let_def split: if_splits)
      next
        case False
        with inv have aw: "aw < length pattern" "pattern ! (aw - 1) = CHR ''*''" "am < t"
          and G: "glob tx pattern \<longleftrightarrow> glob (drop am tx) (CHR ''*'' # drop aw pattern)"
          by (auto simp: match_inv_def)
        have ns: "pattern ! aw \<noteq> CHR ''*''"
          using no_double_starD [OF nds, of "aw - 1"] aw False by simp
        have G': "glob tx pattern \<longleftrightarrow> glob (drop (Suc am) tx) (CHR ''*'' # drop aw pattern)"
          using G mm False glob_star_skip [of am "Suc am" tx "drop aw pattern"]
          by (auto simp: less_Suc_eq)
        have "match_loop (Suc fuel) tx pattern t p aw am =
            (let t' = scan_text tx (pattern ! aw) (Suc am) in
              if length tx \<le> t' then Some False
              else match_loop fuel tx pattern (Suc t') (Suc aw) aw t')"
          using t mismatch False by (simp add: w_def Let_def)
        with run scan_after_star [OF G' aw(1) ns refl] False aw Suc.IH show ?thesis
          by (auto simp: Let_def split: if_splits)
      qed
    qed
  qed
qed simp

text \<open>C40: on every pattern without two adjacent stars and every text without stars and NUL
  bytes, the backtracking loop returns exactly whether the text matches the pattern in the
  usual meaning of the wildcards.\<close>

theorem matchPattern_glob:
  assumes "no_double_star pattern" and "plain_text tx"
  shows "matchPattern tx pattern = Some (glob tx pattern)"
proof -
  obtain b where b: "matchPattern tx pattern = Some b"
    unfolding matchPattern_def
    using match_loop_total [of 0 0 tx pattern 0 "match_fuel tx pattern" 0]
    by (auto simp: match_measure_def match_fuel_def)
  have "match_inv tx pattern 0 0 0 0" by (simp add: match_inv_def)
  with match_loop_glob [OF assms] b show ?thesis by (simp add: matchPattern_def)
qed

theorem matchPattern_glob_witness:
  "no_double_star ''*ccd'' \<and> plain_text ''abcccd'' \<and>
   matchPattern ''abcccd'' ''*ccd'' = Some (glob ''abcccd'' ''*ccd'')"
proof -
  have "no_double_star ''*ccd''" and "plain_text ''abcccd''" by code_simp+
  with matchPattern_glob show ?thesis by blast
qed

end
