(* ===== verification/PathOrder.thy ===== *)
theory PathOrder
  imports Prelude "HOL-Library.Char_ord" "HOL-Library.List_Lexorder" "HOL-Library.Product_Lexorder"
begin

text \<open>
  The order of entries in a snapshot, \<open>ComparePaths\<close> of \<open>duplicacy_entry.go\<close>. Local listing,
  remote listing and the comparison loop of a backup all merge lists in this order.

  The Go function looks at the first byte in which two paths differ and at how the component
  around it ends. The reference is a key: the list of the components of a path, each with
  whether more components follow and whether it is a directory. \<open>ComparePaths_key\<close> shows that
  the sign of the result is the lexicographic order of the keys, on paths without NUL bytes,
  so that the comparison is a linear order in which the entries of one directory come files
  first, then subdirectories, and only then what is below the subdirectories.
\<close>

section \<open>The comparison\<close>

text \<open>The number of leading bytes two paths have in common: the first \<open>for\<close>.\<close>

fun common_prefix :: "string \<Rightarrow> string \<Rightarrow> nat" where
  "common_prefix (x # l) (y # r) = (if x = y then Suc (common_prefix l r) else 0)"
| "common_prefix _ _ = 0"

text \<open>How the current component ends, and whether it is the last: the two later loops, on the
  rest of the path from the first difference on.\<close>

fun component_end :: "string \<Rightarrow> char \<Rightarrow> char \<times> bool" where
  "component_end [] c = (c, True)"
| "component_end (x # s) c = (if x = CHR ''/'' then (x, s = []) else component_end s x)"

definition byte_at :: "string \<Rightarrow> nat \<Rightarrow> char" where
  "byte_at s p = (if p < length s then s ! p else CHR 0x00)"

definition ComparePaths :: "string \<Rightarrow> string \<Rightarrow> int" where
  "ComparePaths left right =
     (let p = common_prefix left right;
          c1 = byte_at left p; c2 = byte_at right p;
          (c3, last1) = component_end (drop p left) c1;
          (c4, last2) = component_end (drop p right) c2
      in if last1 \<noteq> last2 then (if last1 then -1 else 1)
         else if c3 = CHR ''/'' then
           if c4 = CHR ''/'' then
             if c1 = CHR ''/'' then -1
             else if c2 = CHR ''/'' then 1
             else of_char c1 - of_char c2
           else 1
         else
           if c4 = CHR ''/'' then -1 else of_char c1 - of_char c2)"

section \<open>The reference key\<close>

fun path_key :: "string \<Rightarrow> (bool \<times> bool \<times> string) list" where
  "path_key [] = []"
| "path_key (x # s) =
     (if x = CHR ''/'' then (if s = [] then [(False, True, [])] else (True, True, []) # path_key s)
      else case path_key s of
        [] \<Rightarrow> [(False, False, [x])]
      | (more, dir, name) # ks \<Rightarrow> (more, dir, x # name) # ks)"

text \<open>The first element of the key, in the terms of the Go code.\<close>

lemma path_key_head:
  assumes "s \<noteq> []"
  obtains ks where
    "path_key s = (\<not> snd (component_end s c), fst (component_end s c) = CHR ''/'',
                   takeWhile (\<lambda>x. x \<noteq> CHR ''/'') s) # ks"
proof -
  have "\<exists>ks. path_key s = (\<not> snd (component_end s c), fst (component_end s c) = CHR ''/'',
                   takeWhile (\<lambda>x. x \<noteq> CHR ''/'') s) # ks"
    using assms
  proof (induction s arbitrary: c)
    case (Cons x s)
    show ?case
    proof (cases "s = [] \<or> x = CHR ''/''")
      case False
      with Cons.IH [of x] show ?thesis by auto
    qed auto
  qed simp
  with that show ?thesis by blast
qed

lemma path_key_Nil_iff [simp]: "path_key s = [] \<longleftrightarrow> s = []"
  by (cases s) (auto split: list.splits)

lemma Nil_less_path_key [simp]: "[] < path_key s \<longleftrightarrow> s \<noteq> []"
  by (cases "path_key s") (use path_key_Nil_iff [of s] in auto)

lemma path_key_Cons_less:
  "path_key (x # l) < path_key (x # r) \<longleftrightarrow> path_key l < path_key r"
proof (cases "x = CHR ''/''")
  case True
  then show ?thesis by (cases "l = []"; cases "r = []") auto
next
  case False
  obtain kl kr where k: "kl = path_key l" "kr = path_key r" by simp
  show ?thesis
  proof (cases kl; cases kr)
    fix a ks b ks' assume "kl = a # ks" "kr = b # ks'"
    with False k show ?thesis by (cases a; cases b) (auto split: list.splits)
  next
    fix b ks' assume "kl = []" "kr = b # ks'"
    moreover from this k have "l = []" "r \<noteq> []" by auto
    moreover from this obtain ks'' where "path_key r =
       (\<not> snd (component_end r x), fst (component_end r x) = CHR ''/'', takeWhile (\<lambda>x. x \<noteq> CHR ''/'') r) # ks''"
      by (metis path_key_head)
    ultimately show ?thesis using False k by (cases r) (auto split: if_splits)
  next
    fix a ks assume "kl = a # ks" "kr = []"
    with k have "r = []" "l \<noteq> []" by (metis path_key_Nil_iff list.distinct(1))+
    then obtain ks'' where "path_key l =
       (\<not> snd (component_end l x), fst (component_end l x) = CHR ''/'', takeWhile (\<lambda>x. x \<noteq> CHR ''/'') l) # ks''"
      by (metis path_key_head)
    with \<open>r = []\<close> \<open>l \<noteq> []\<close> False show ?thesis by (cases l) (auto split: if_splits)
  qed (use False k in auto)
qed

lemma byte_at_Cons [simp]: "byte_at (x # s) (Suc p) = byte_at s p" "byte_at (x # s) 0 = x"
  and byte_at_Nil [simp]: "byte_at [] p = CHR 0x00"
  by (simp_all add: byte_at_def)

lemma ComparePaths_Cons: "ComparePaths (x # l) (x # r) = ComparePaths l r"
  by (simp add: ComparePaths_def Let_def split: prod.splits)

lemma ComparePaths_refl: "ComparePaths s s = 0"
  by (induction s) (simp_all add: ComparePaths_Cons, simp add: ComparePaths_def)

section \<open>The comparison is the order of the keys\<close>

declare path_key.simps(2) [simp del]

definition no_nul :: "string \<Rightarrow> bool" where
  "no_nul s = (CHR 0x00 \<notin> set s)"

lemma of_char_pos: "c \<noteq> CHR 0x00 \<Longrightarrow> 0 < (of_char c :: int)"
proof -
  assume "c \<noteq> CHR 0x00"
  then have "(of_char c :: nat) \<noteq> of_char (CHR 0x00)" by (metis of_char_eq_iff)
  then have "0 < (of_char c :: nat)" by simp
  then have "0 < int (of_char c)" by simp
  then show ?thesis by (simp only: of_nat_of_char)
qed

lemma of_char_less: "(of_char c :: int) < of_char d \<longleftrightarrow> c < d"
proof -
  have "(of_char c :: int) < of_char d \<longleftrightarrow> int (of_char c) < int (of_char d)"
    by (simp only: of_nat_of_char)
  then show ?thesis by (simp add: less_char_def)
qed

text \<open>What \<open>component_end\<close> answers at the first byte of a component.\<close>

lemma component_end_cases:
  "component_end (x # l) x = (c, b) \<Longrightarrow>
     (c = CHR ''/'' \<longleftrightarrow> CHR ''/'' \<in> set (x # l)) \<and> (b \<or> c = CHR ''/'')"
proof (induction l arbitrary: x)
  case Nil
  then show ?case by (auto split: if_splits)
next
  case (Cons y l)
  show ?case
  proof (cases "x = CHR ''/''")
    case False
    with Cons.prems have "component_end (y # l) y = (c, b)" by (auto split: if_splits)
    from Cons.IH [OF this] False show ?thesis by auto
  qed (use Cons.prems in auto)
qed

lemma ComparePaths_differ:
  assumes "x \<noteq> y" and "x \<noteq> CHR 0x00" and "y \<noteq> CHR 0x00"
  shows "ComparePaths (x # l) (y # r) < 0 \<longleftrightarrow> path_key (x # l) < path_key (y # r)"
    and "ComparePaths (x # l) (y # r) \<noteq> 0"
proof -
  obtain c3 last1 c4 last2
    where e: "component_end (x # l) x = (c3, last1)" "component_end (y # r) y = (c4, last2)"
    by (metis surj_pair)
  obtain ks where kl: "path_key (x # l) =
      (\<not> last1, c3 = CHR ''/'', takeWhile (\<lambda>x. x \<noteq> CHR ''/'') (x # l)) # ks"
    using path_key_head [of "x # l" x] e by (metis fst_conv list.distinct(1) snd_conv)
  obtain ks' where kr: "path_key (y # r) =
      (\<not> last2, c4 = CHR ''/'', takeWhile (\<lambda>x. x \<noteq> CHR ''/'') (y # r)) # ks'"
    using path_key_head [of "y # r" y] e by (metis fst_conv list.distinct(1) snd_conv)
  note ends = component_end_cases [OF e(1)] component_end_cases [OF e(2)]
  have "of_char x - of_char y \<noteq> (0 :: int)"
    using assms(1) by (metis eq_iff_diff_eq_0 of_char_eq_iff)
  with assms e show "ComparePaths (x # l) (y # r) \<noteq> 0"
    by (auto simp: ComparePaths_def Let_def)
  from assms e ends show "ComparePaths (x # l) (y # r) < 0 \<longleftrightarrow> path_key (x # l) < path_key (y # r)"
    unfolding kl kr by (auto simp: ComparePaths_def Let_def of_char_less)
qed

lemma ComparePaths_Nil:
  assumes "no_nul (y # r)"
  shows "ComparePaths [] (y # r) < 0" and "0 < ComparePaths (y # r) []"
  using assms of_char_pos [of y]
  by (auto simp: ComparePaths_def Let_def no_nul_def split: prod.splits)

lemma ComparePaths_less:
  "no_nul l \<Longrightarrow> no_nul r \<Longrightarrow> ComparePaths l r < 0 \<longleftrightarrow> path_key l < path_key r"
proof (induction l r rule: common_prefix.induct, goal_cases)
  case (1 x l y r)
  then show ?case
    using ComparePaths_differ(1) [of x y l r]
    by (cases "x = y") (auto simp: ComparePaths_Cons path_key_Cons_less no_nul_def)
next
  case (2 r)
  then show ?case
    using ComparePaths_Nil by (cases r) (auto simp: ComparePaths_refl)
next
  case (3 l)
  then show ?case
    using ComparePaths_Nil [of "hd l" "tl l"]
    by (cases l) (auto simp: ComparePaths_refl)
qed

lemma ComparePaths_zero:
  "no_nul l \<Longrightarrow> no_nul r \<Longrightarrow> ComparePaths l r = 0 \<longleftrightarrow> l = r"
proof (induction l r rule: common_prefix.induct, goal_cases)
  case (1 x l y r)
  then show ?case
    using ComparePaths_differ(2) [of x y l r]
    by (cases "x = y") (auto simp: ComparePaths_Cons no_nul_def)
next
  case (2 r)
  then show ?case
    using ComparePaths_Nil(1) [of "hd r" "tl r"] by (cases r) (auto simp: ComparePaths_refl)
next
  case (3 l)
  then show ?case
    using ComparePaths_Nil(2) [of "hd l" "tl l"] by (cases l) (auto simp: ComparePaths_refl)
qed

text \<open>The key determines the path.\<close>

definition path_of_key :: "(bool \<times> bool \<times> string) list \<Rightarrow> string" where
  "path_of_key ks = concat (map (\<lambda>(more, dir, name). name @ (if dir then ''/'' else [])) ks)"

lemma path_of_path_key: "path_of_key (path_key s) = s"
proof (induction s)
  case (Cons x s)
  then show ?case
    by (auto simp: path_key.simps(2) path_of_key_def split: list.splits prod.splits)
qed (simp add: path_of_key_def)

lemma path_key_inj [simp]: "path_key l = path_key r \<longleftrightarrow> l = r"
  by (metis path_of_path_key)

lemma ComparePaths_greater:
  assumes "no_nul l" and "no_nul r"
  shows "0 < ComparePaths l r \<longleftrightarrow> path_key r < path_key l"
  using ComparePaths_less [OF assms] ComparePaths_zero [OF assms] path_key_inj [of l r]
  by (metis linorder_neqE linorder_neqE_linordered_idom less_asym)

text \<open>C35: on paths without NUL bytes the sign of the comparison is the order of the keys, and
  it is zero on equal paths only. Since the keys are ordered lexicographically, the comparison
  is a linear order.\<close>

theorem ComparePaths_key:
  assumes "no_nul l" and "no_nul r"
  shows "(ComparePaths l r < 0 \<longleftrightarrow> path_key l < path_key r) \<and>
         (ComparePaths l r = 0 \<longleftrightarrow> l = r) \<and>
         (0 < ComparePaths l r \<longleftrightarrow> path_key r < path_key l)"
  using ComparePaths_less [OF assms] ComparePaths_zero [OF assms] ComparePaths_greater [OF assms]
  by blast

theorem ComparePaths_key_witness:
  "no_nul ''b/c'' \<and> no_nul ''z/'' \<and>
   (ComparePaths ''b/c'' ''z/'' < 0 \<longleftrightarrow> path_key ''b/c'' < path_key ''z/'') \<and>
   (ComparePaths ''b/c'' ''z/'' = 0 \<longleftrightarrow> ''b/c'' = ''z/'') \<and>
   (0 < ComparePaths ''b/c'' ''z/'' \<longleftrightarrow> path_key ''z/'' < path_key ''b/c'')"
proof -
  have "no_nul ''b/c''" and "no_nul ''z/''" by (simp_all add: no_nul_def)
  with ComparePaths_key show ?thesis by blast
qed

section \<open>Where entries stand in a listing\<close>

lemma ComparePaths_append: "ComparePaths (p @ l) (p @ r) = ComparePaths l r"
  by (induction p) (simp_all add: ComparePaths_Cons)

lemma component_end_name:
  "CHR ''/'' \<notin> set n \<Longrightarrow> component_end (n @ CHR ''/'' # q) c = (CHR ''/'', q = [])"
  by (induction n arbitrary: c) auto

lemma component_end_file: "CHR ''/'' \<notin> set n \<Longrightarrow> snd (component_end n c)"
  by (induction n arbitrary: c) auto

lemma path_key_name:
  assumes "CHR ''/'' \<notin> set n"
  shows "path_key (n @ CHR ''/'' # q) =
    (if q = [] then [(False, True, n)] else (True, True, n) # path_key q)"
  using assms by (induction n) (auto simp: path_key.simps(2))

lemma path_key_file:
  assumes "CHR ''/'' \<notin> set n" and "n \<noteq> []"
  shows "path_key n = [(False, False, n)]"
  using assms
proof (induction n)
  case (Cons x n)
  then show ?case by (cases "n = []") (auto simp: path_key.simps(2))
qed simp



section \<open>The interface of the comparison\<close>

text \<open>What a client that merges sorted listings relies on.\<close>

locale path_comparison =
  fixes cmp :: "'a \<Rightarrow> 'a \<Rightarrow> int" and valid :: "'a \<Rightarrow> bool"
  assumes cmp_zero: "valid a \<Longrightarrow> valid b \<Longrightarrow> cmp a b = 0 \<longleftrightarrow> a = b"
    and cmp_flip: "valid a \<Longrightarrow> valid b \<Longrightarrow> cmp a b < 0 \<longleftrightarrow> 0 < cmp b a"
    and cmp_trans: "valid a \<Longrightarrow> valid b \<Longrightarrow> valid c \<Longrightarrow> cmp a b < 0 \<Longrightarrow> cmp b c < 0 \<Longrightarrow> cmp a c < 0"
begin

definition ordered :: "'a list \<Rightarrow> bool" where
  "ordered xs \<longleftrightarrow> (\<forall>x \<in> set xs. valid x) \<and> sorted_wrt (\<lambda>a b. cmp a b < 0) xs"

lemma ordered_Cons:
  "ordered (x # xs) \<longleftrightarrow> valid x \<and> (\<forall>y \<in> set xs. cmp x y < 0) \<and> ordered xs"
  by (auto simp: ordered_def)

lemma ordered_distinct: "ordered xs \<Longrightarrow> distinct xs"
proof (induction xs)
  case (Cons x xs)
  then show ?case using cmp_zero [of x x] by (auto simp: ordered_Cons)
qed simp

text \<open>A path that sorts before the head of a listing does not occur in it.\<close>

lemma before_head_not_in:
  assumes "ordered (y # ys)" and "valid x" and "cmp x y < 0"
  shows "x \<notin> set (y # ys)"
proof
  assume "x \<in> set (y # ys)"
  moreover have "x \<noteq> y" using assms cmp_zero [of y y] by (auto simp: ordered_Cons)
  ultimately have "x \<in> set ys" by simp
  with assms(1) have "cmp y x < 0" and "valid y" by (auto simp: ordered_Cons)
  with assms cmp_trans [of x y x] cmp_zero [of x x] show False by auto
qed

text \<open>Heads that sort before a path can be skipped without losing it.\<close>

lemma skip_smaller:
  assumes "ordered (y # ys)" and "valid x" and "0 < cmp x y"
  shows "x \<in> set (y # ys) \<longleftrightarrow> x \<in> set ys"
  using assms cmp_zero [of x y] by (auto simp: ordered_Cons)

end

interpretation paths: path_comparison ComparePaths no_nul
proof
  fix a b c
  assume a: "no_nul a" and b: "no_nul b"
  show "ComparePaths a b = 0 \<longleftrightarrow> a = b" by (rule ComparePaths_zero [OF a b])
  show "ComparePaths a b < 0 \<longleftrightarrow> 0 < ComparePaths b a"
    by (simp add: ComparePaths_less [OF a b] ComparePaths_greater [OF b a])
  assume c: "no_nul c" and "ComparePaths a b < 0" "ComparePaths b c < 0"
  then show "ComparePaths a c < 0"
    using ComparePaths_less [OF a b] ComparePaths_less [OF b c] ComparePaths_less [OF a c]
    by (auto intro: less_trans)
qed

end
