(* ===== verification/Entry.thy ===== *)
theory Entry
  imports PathOrder "HOL-Library.AList"
begin

text \<open>
  Entries of a snapshot: \<open>duplicacy_entry.go\<close>, and the parts of \<open>duplicacy_utils_others.go\<close> that
  store device numbers in an entry.

  An \<open>entry\<close> is the Go struct. A Go map is an association list with distinct keys, \<open>None\<close> for a
  nil pointer. The msgpack package is not part of the repository: the encoder and decoder are
  the fields of a record \<open>msgpack\<close> that every definition using them takes as an argument, with
  their documented behaviour stated by \<open>msgpack_ok\<close>; the SHA-256 function is an argument
  too.

  Shown here: hard-link markers and link numbers are recovered from what the lister writes; a
  device number survives being split over two fields; decoding a msgpack entry gives back the
  encoded one, and a damaged one is refused; \<open>check\<close> never panics and accepts exactly the
  entries whose chunk range spans \<open>Size\<close> bytes.
\<close>

section \<open>The struct and its mode bits\<close>

record entry =
  Path :: string
  Size :: int
  Time :: int
  Mode :: "32 word"
  Link :: string
  Hash :: string
  UID :: int
  GID :: int
  StartChunk :: int
  StartOffset :: int
  EndChunk :: int
  EndOffset :: int
  Attributes :: "(string \<times> bytes) list option"

definition ModeDir :: "32 word" where "ModeDir = 0x80000000"
definition ModeSymlink :: "32 word" where "ModeSymlink = 0x08000000"
definition ModeDevice :: "32 word" where "ModeDevice = 0x04000000"
definition ModeNamedPipe :: "32 word" where "ModeNamedPipe = 0x02000000"
definition ModeSocket :: "32 word" where "ModeSocket = 0x01000000"
definition ModeSetuid :: "32 word" where "ModeSetuid = 0x00800000"
definition ModeSetgid :: "32 word" where "ModeSetgid = 0x00400000"
definition ModeCharDevice :: "32 word" where "ModeCharDevice = 0x00200000"
definition ModeSticky :: "32 word" where "ModeSticky = 0x00100000"
definition ModeIrregular :: "32 word" where "ModeIrregular = 0x00080000"
definition ModePerm :: "32 word" where "ModePerm = 0x1FF"

definition ModeType :: "32 word" where
  "ModeType = ModeDir OR ModeSymlink OR ModeNamedPipe OR ModeSocket OR ModeDevice
     OR ModeCharDevice OR ModeIrregular"

lemmas mode_defs = ModeType_def ModeDir_def ModeSymlink_def ModeDevice_def ModeNamedPipe_def
  ModeSocket_def ModeSetuid_def ModeSetgid_def ModeCharDevice_def ModeSticky_def
  ModeIrregular_def ModePerm_def

definition fileModeMask :: "32 word" where
  "fileModeMask = ModePerm OR ModeSetuid OR ModeSetgid OR ModeSticky"

definition entryHardLinkRootChunkMarker :: int where "entryHardLinkRootChunkMarker = -9"
definition entryHardLinkTargetChunkMarker :: int where "entryHardLinkTargetChunkMarker = -10"

definition IsFile :: "entry \<Rightarrow> bool" where
  "IsFile e = (Mode e AND ModeType = 0)"

definition IsDir :: "entry \<Rightarrow> bool" where
  "IsDir e = (Mode e AND ModeDir \<noteq> 0)"

definition IsLink :: "entry \<Rightarrow> bool" where
  "IsLink e = (Mode e AND ModeSymlink \<noteq> 0)"

definition IsSpecial :: "entry \<Rightarrow> bool" where
  "IsSpecial e = (Mode e AND (ModeNamedPipe OR ModeDevice OR ModeCharDevice OR ModeSocket) \<noteq> 0)"

definition IsComplete :: "entry \<Rightarrow> bool" where
  "IsComplete e = (0 \<le> Size e)"

definition IsHardLinkChild :: "entry \<Rightarrow> bool" where
  "IsHardLinkChild e =
     ((IsFile e \<and> 0 < length (Link e) \<and> Link e \<noteq> ''/'') \<or>
      (\<not> IsDir e \<and> EndChunk e = entryHardLinkTargetChunkMarker))"

definition IsHardLinkRoot :: "entry \<Rightarrow> bool" where
  "IsHardLinkRoot e =
     ((IsFile e \<and> Link e = ''/'') \<or> (\<not> IsDir e \<and> EndChunk e = entryHardLinkRootChunkMarker))"

text \<open>Conversion of a \<open>uint64\<close> to \<open>int\<close>, in two's complement.\<close>

definition int_of_uint64 :: "nat \<Rightarrow> int" where
  "int_of_uint64 n = (if n < 2 ^ 63 then int n else int n - 2 ^ 64)"

definition GetHardLinkId :: "entry \<Rightarrow> goerror + int" where
  "GetHardLinkId e =
     (if IsFile e then
        case ParseUint16 64 (Link e) of Inl err \<Rightarrow> Inl err | Inr i \<Rightarrow> Inr (int_of_uint64 i)
      else if EndChunk e \<noteq> entryHardLinkTargetChunkMarker
        then Inl (GoErr ''Entry not marked as hard link child'')
      else Inr (EndOffset e))"

definition GetPermissions :: "entry \<Rightarrow> 32 word" where
  "GetPermissions e = Mode e AND fileModeMask"

text \<open>\<open>strings.LastIndex(path, "/")\<close> and the slice before it.\<close>

definition before_last_slash :: "string \<Rightarrow> string" where
  "before_last_slash path =
     (if CHR ''/'' \<in> set path then rev (tl (dropWhile (\<lambda>c. c \<noteq> CHR ''/'') (rev path))) else [])"

definition GetParent :: "entry \<Rightarrow> string" where
  "GetParent e =
     (let path = Path e;
          path = (if path \<noteq> [] \<and> last path = CHR ''/'' then butlast path else path)
      in before_last_slash path)"

definition IsSameAs :: "entry \<Rightarrow> entry \<Rightarrow> bool" where
  "IsSameAs e other = (Size e = Size other \<and> Time e \<le> Time other + 1 \<and> Time e \<ge> Time other - 1)"

definition Compare :: "entry \<Rightarrow> entry \<Rightarrow> int" where
  "Compare left right = ComparePaths (Path left) (Path right)"

definition ByName_Less :: "entry \<Rightarrow> entry \<Rightarrow> bool" where
  "ByName_Less a b = (Compare a b < 0)"

definition ByChunk_Less :: "entry \<Rightarrow> entry \<Rightarrow> bool" where
  "ByChunk_Less a b =
     (StartChunk a < StartChunk b \<or> (StartChunk a = StartChunk b \<and> StartOffset a < StartOffset b))"

section \<open>Creating entries\<close>

definition CreateEntry :: "string \<Rightarrow> int \<Rightarrow> int \<Rightarrow> 32 word \<Rightarrow> entry" where
  "CreateEntry path sz tm mode =
     \<lparr>Path = (if 0 < length path \<and> last path \<noteq> CHR ''/'' \<and> mode AND ModeDir \<noteq> 0
              then path @ ''/'' else path),
      Size = sz, Time = tm, Mode = mode, Link = [], Hash = [], UID = -1, GID = -1,
      StartChunk = 0, StartOffset = 0, EndChunk = 0, EndOffset = 0, Attributes = None\<rparr>"

record file_info =
  fi_name :: string
  fi_size :: int
  fi_mtime :: int
  fi_mode :: "32 word"
  fi_uid :: int
  fi_gid :: int
  fi_nlink :: int
  fi_dev :: "64 word"
  fi_ino :: "64 word"
  fi_rdev :: "64 word"

definition fi_IsDir :: "file_info \<Rightarrow> bool" where
  "fi_IsDir f = (fi_mode f AND ModeDir \<noteq> 0)"

definition GetOwner :: "entry \<Rightarrow> file_info \<Rightarrow> entry" where
  "GetOwner e f = e\<lparr>UID := fi_uid f, GID := fi_gid f\<rparr>"

definition CreateEntryFromFileInfo :: "file_info \<Rightarrow> string \<Rightarrow> entry res" where
  "CreateEntryFromFileInfo f path =
     (let mode = fi_mode f;
          mode = (if mode AND ModeDir \<noteq> 0 \<and> mode AND ModeSymlink \<noteq> 0 then mode XOR ModeDir else mode)
      in if path = [] then Inl (Panic ''index out of range'')
         else
           let path = (if last path \<noteq> CHR ''/'' \<and> mode AND ModeDir \<noteq> 0 then path @ ''/'' else path)
           in Inr (GetOwner
                \<lparr>Path = path, Size = fi_size f, Time = fi_mtime f, Mode = mode, Link = [], Hash = [],
                 UID = 0, GID = 0, StartChunk = 0, StartOffset = 0, EndChunk = 0, EndOffset = 0,
                 Attributes = None\<rparr> f))"

definition Copy :: "entry \<Rightarrow> entry" where
  "Copy e = \<lparr>Path = Path e, Size = Size e, Time = Time e, Mode = Mode e, Link = Link e, Hash = Hash e,
     UID = UID e, GID = GID e, StartChunk = StartChunk e, StartOffset = StartOffset e,
     EndChunk = EndChunk e, EndOffset = EndOffset e, Attributes = Attributes e\<rparr>"

definition HardLinkTo :: "entry \<Rightarrow> entry \<Rightarrow> int \<Rightarrow> int \<Rightarrow> entry" where
  "HardLinkTo e target startChunk endChunk =
     (let endOffset = (if \<not> IsFile target then EndOffset e else EndOffset target);
          link = (if \<not> IsFile target then Link target else Link e);
          startChunk = (if \<not> IsFile target then StartChunk target else startChunk);
          endChunk = (if \<not> IsFile target then EndChunk e else endChunk)
      in \<lparr>Path = Path e, Size = Size target, Time = Time target, Mode = Mode target, Link = link,
          Hash = Hash target, UID = UID target, GID = GID target, StartChunk = startChunk,
          StartOffset = StartOffset target, EndChunk = endChunk, EndOffset = endOffset,
          Attributes = Attributes target\<rparr>)"

definition IsSameAsFileInfo :: "entry \<Rightarrow> file_info \<Rightarrow> bool" where
  "IsSameAsFileInfo e f =
     (Size e = fi_size f \<and> Time e \<le> fi_mtime f + 1 \<and> Time e \<ge> fi_mtime f - 1)"

lemma Copy_id [simp]: "Copy e = e"
  by (simp add: Copy_def)

section \<open>Hard links and device numbers\<close>

definition getHardLinkKey :: "file_info \<Rightarrow> (64 word \<times> 64 word) option" where
  "getHardLinkKey f =
     (if fi_IsDir f then None else if fi_nlink f \<le> 1 then None else Some (fi_dev f, fi_ino f))"

definition ReadSpecial :: "entry \<Rightarrow> file_info \<Rightarrow> entry" where
  "ReadSpecial e f =
     (if fi_mode f AND (ModeDevice OR ModeCharDevice) = 0 then e
      else let rdev = fi_rdev f in
        e\<lparr>Size := 0, StartChunk := uint (rdev AND 0xFFFFFFFF), StartOffset := uint (drop_bit 32 rdev)\<rparr>)"

definition GetRdev :: "entry \<Rightarrow> 64 word" where
  "GetRdev e = word_of_int (StartChunk e) OR push_bit 32 (word_of_int (StartOffset e))"

definition IsSameSpecial :: "entry \<Rightarrow> file_info \<Rightarrow> bool" where
  "IsSameSpecial e f = (fi_mode f = Mode e \<and> fi_rdev f = GetRdev e)"

text \<open>The device number a special file was listed with is the one it is restored with: the
  low and the high half, kept in \<open>StartChunk\<close> and \<open>StartOffset\<close>, put together again.\<close>

theorem GetRdev_ReadSpecial:
  assumes "fi_mode f AND (ModeDevice OR ModeCharDevice) \<noteq> 0"
  shows "GetRdev (ReadSpecial e f) = fi_rdev f"
proof -
  define r where "r = fi_rdev f"
  have mask: "r AND 0xFFFFFFFF = take_bit 32 r"
    by (simp add: take_bit_eq_mask mask_eq_exp_minus_1)
  have "take_bit 32 r OR push_bit 32 (drop_bit 32 r) = r"
    by (rule bit_eqI)
       (auto simp: bit_or_iff bit_take_bit_iff bit_push_bit_iff bit_drop_bit_eq,
        metis le_add_diff_inverse not_less)
  then show ?thesis
    using assms by (simp add: GetRdev_def ReadSpecial_def Let_def mask r_def [symmetric])
qed

definition device_info :: file_info where
  "device_info = \<lparr>fi_name = ''sda1'', fi_size = 0, fi_mtime = 0, fi_mode = ModeDevice, fi_uid = 0,
     fi_gid = 0, fi_nlink = 1, fi_dev = 5, fi_ino = 6, fi_rdev = 0x1200000801\<rparr>"

theorem GetRdev_ReadSpecial_witness:
  "fi_mode device_info AND (ModeDevice OR ModeCharDevice) \<noteq> 0 \<and>
   GetRdev (ReadSpecial (CreateEntry ''dev/sda1'' 0 0 ModeDevice) device_info) = 0x1200000801"
proof -
  have "fi_mode device_info AND (ModeDevice OR ModeCharDevice) \<noteq> 0"
    by (simp add: device_info_def mode_defs)
  with GetRdev_ReadSpecial [OF this] show ?thesis by (simp add: device_info_def)
qed

text \<open>The two markers by which the lister marks a hard link to a root it has seen before,
  the hexadecimal link number of a file and the reserved chunk number of any other target, are
  recognised as a child, never as a root, and give back the number.\<close>

theorem hard_link_child_markers:
  assumes "IsFile e" and "\<not> IsDir s" and "\<not> IsFile s" and "i < 2 ^ 63"
  defines "c \<equiv> e\<lparr>Size := 0, Link := show_hex i, EndChunk := 0\<rparr>"
    and "d \<equiv> s\<lparr>EndChunk := entryHardLinkTargetChunkMarker, EndOffset := int i\<rparr>"
  shows "IsHardLinkChild c \<and> \<not> IsHardLinkRoot c \<and> GetHardLinkId c = Inr (int i) \<and>
         IsHardLinkChild d \<and> \<not> IsHardLinkRoot d \<and> GetHardLinkId d = Inr (int i)"
proof -
  have "show_hex i \<noteq> ''/''" using show_hex_no_slash [of i] by auto
  moreover have "ParseUint16 64 (show_hex i) = Inr i"
    by (rule ParseUint16_show_hex) (use assms in simp)
  ultimately show ?thesis
    using assms
    by (simp add: c_def d_def IsHardLinkChild_def IsHardLinkRoot_def GetHardLinkId_def IsFile_def
        IsDir_def int_of_uint64_def entryHardLinkTargetChunkMarker_def
        entryHardLinkRootChunkMarker_def)
qed

theorem hard_link_child_markers_witness:
  "let e = CreateEntry ''a'' 3 0 0x1A4; s = CreateEntry ''b'' 0 0 ModeSymlink;
       c = e\<lparr>Size := 0, Link := show_hex 300, EndChunk := 0\<rparr>;
       d = s\<lparr>EndChunk := entryHardLinkTargetChunkMarker, EndOffset := int 300\<rparr>
   in IsHardLinkChild c \<and> \<not> IsHardLinkRoot c \<and> GetHardLinkId c = Inr (int 300) \<and>
      IsHardLinkChild d \<and> \<not> IsHardLinkRoot d \<and> GetHardLinkId d = Inr (int 300)"
  unfolding Let_def
  by (rule hard_link_child_markers)
     (simp_all add: CreateEntry_def IsFile_def IsDir_def mode_defs)

section \<open>Diff\<close>

text \<open>The loop of \<open>Diff\<close>: both files are cut into chunks; two positions advance to the next
  common boundary.\<close>

function diff_loop :: "entry \<Rightarrow> string list \<Rightarrow> int list \<Rightarrow> string list \<Rightarrow> int list \<Rightarrow>
    int \<Rightarrow> int \<Rightarrow> int \<Rightarrow> int \<Rightarrow> int \<Rightarrow> int res" where
  "diff_loop e chunkHashes chunkLengths otherHashes otherLengths i1 i2 offset1 offset2 modified =
     (if i1 \<le> EndChunk e \<and> i2 < int (length otherHashes) then
        bind_res (index_slice chunkLengths i1) (\<lambda>length1.
          let start = (if i1 = StartChunk e then StartOffset e else 0);
              end1 = (if i1 = EndChunk e then EndOffset e else length1) in
          if offset1 < offset2 then
            diff_loop e chunkHashes chunkLengths otherHashes otherLengths (i1 + 1) i2
              (offset1 + (end1 - start)) offset2 (modified + (end1 - start))
          else bind_res (index_slice otherLengths i2) (\<lambda>length2.
            if offset1 > offset2 then
              diff_loop e chunkHashes chunkLengths otherHashes otherLengths i1 (i2 + 1)
                offset1 (offset2 + length2) modified
            else
              bind_res (index_slice chunkHashes i1) (\<lambda>hash1.
              bind_res (index_slice otherHashes i2) (\<lambda>hash2.
                diff_loop e chunkHashes chunkLengths otherHashes otherLengths (i1 + 1) (i2 + 1)
                  (offset1 + (end1 - start)) (offset2 + length2)
                  (if hash1 = hash2 \<and> end1 - start = length2 then modified
                   else modified + length1)))))
      else Inr modified)"
  by pat_completeness auto
termination
  by (relation "measure (\<lambda>(e, _, _, oh, _, i1, i2, _). nat (EndChunk e + 1 - i1) + nat (int (length oh) - i2))")
     auto

definition Diff :: "entry \<Rightarrow> string list \<Rightarrow> int list \<Rightarrow> string list \<Rightarrow> int list \<Rightarrow> int res" where
  "Diff e chunkHashes chunkLengths otherHashes otherLengths =
     diff_loop e chunkHashes chunkLengths otherHashes otherLengths (StartChunk e) 0 0 0 0"

section \<open>Serialization\<close>

text \<open>The msgpack package: an encoder appends to its output stream, a decoder consumes a prefix of
  its input stream.\<close>

record msgpack =
  EncodeString :: "string \<Rightarrow> bytes \<Rightarrow> goerror + bytes"
  EncodeInt :: "int \<Rightarrow> bytes \<Rightarrow> goerror + bytes"
  EncodeBytes :: "bytes \<Rightarrow> bytes \<Rightarrow> goerror + bytes"
  DecodeString :: "bytes \<Rightarrow> goerror + string \<times> bytes"
  DecodeInt64 :: "bytes \<Rightarrow> goerror + int \<times> bytes"
  DecodeInt :: "bytes \<Rightarrow> goerror + int \<times> bytes"
  DecodeBytes :: "bytes \<Rightarrow> goerror + bytes \<times> bytes"

text \<open>The attributes are written in the order of their names.\<close>

definition sorted_attributes :: "(string \<times> bytes) list \<Rightarrow> (string \<times> bytes) list" where
  "sorted_attributes attributes = sort_key fst attributes"

definition bytes_string :: "bytes \<Rightarrow> string" where
  "bytes_string bs = map (\<lambda>b. char_of (unat b)) bs"

definition EncodeMsgpack :: "msgpack \<Rightarrow> entry \<Rightarrow> bytes \<Rightarrow> goerror + bytes" where
  "EncodeMsgpack mp e =
     run_steps
       ([EncodeString mp (Path e), EncodeInt mp (Size e), EncodeInt mp (Time e),
         EncodeInt mp (uint (Mode e)), EncodeString mp (Link e), EncodeString mp (Hash e),
         EncodeInt mp (StartChunk e), EncodeInt mp (StartOffset e), EncodeInt mp (EndChunk e),
         EncodeInt mp (EndOffset e), EncodeInt mp (UID e), EncodeInt mp (GID e),
         EncodeInt mp (case Attributes e of None \<Rightarrow> 0 | Some as \<Rightarrow> int (length as))]
        @ (case Attributes e of None \<Rightarrow> []
           | Some as \<Rightarrow> concat (map (\<lambda>(name, val).
               [EncodeString mp name, EncodeString mp (bytes_string val)]) (sorted_attributes as))))"

fun decode_attributes ::
  "msgpack \<Rightarrow> nat \<Rightarrow> (string \<times> bytes) list \<Rightarrow> bytes \<Rightarrow> goerror + (string \<times> bytes) list \<times> bytes" where
  "decode_attributes mp 0 as s = Inr (as, s)"
| "decode_attributes mp (Suc n) as s =
     bind_res (DecodeString mp s) (\<lambda>(name, s).
     bind_res (DecodeString mp s) (\<lambda>(val, s).
       decode_attributes mp n (AList.update name (string_bytes val) as) s))"

definition DecodeMsgpack :: "msgpack \<Rightarrow> bytes \<Rightarrow> goerror + entry \<times> bytes" where
  "DecodeMsgpack mp s =
     bind_res (DecodeString mp s) (\<lambda>(path, s).
     bind_res (DecodeInt64 mp s) (\<lambda>(sz, s).
     bind_res (DecodeInt64 mp s) (\<lambda>(tm, s).
     bind_res (DecodeInt64 mp s) (\<lambda>(mode, s).
     bind_res (DecodeString mp s) (\<lambda>(link, s).
     bind_res (DecodeString mp s) (\<lambda>(hash, s).
     bind_res (DecodeInt mp s) (\<lambda>(startChunk, s).
     bind_res (DecodeInt mp s) (\<lambda>(startOffset, s).
     bind_res (DecodeInt mp s) (\<lambda>(endChunk, s).
     bind_res (DecodeInt mp s) (\<lambda>(endOffset, s).
     bind_res (DecodeInt mp s) (\<lambda>(uid, s).
     bind_res (DecodeInt mp s) (\<lambda>(gid, s).
     bind_res (DecodeInt mp s) (\<lambda>(numberOfAttributes, s).
     let e = \<lparr>Path = path, Size = sz, Time = tm, Mode = word_of_int mode, Link = link, Hash = hash,
              UID = uid, GID = gid, StartChunk = startChunk, StartOffset = startOffset,
              EndChunk = endChunk, EndOffset = endOffset, Attributes = None\<rparr>
     in if 0 < numberOfAttributes then
          bind_res (decode_attributes mp (nat numberOfAttributes) [] s) (\<lambda>(as, s).
            Inr (e\<lparr>Attributes := Some as\<rparr>, s))
        else Inr (e, s))))))))))))))"

definition EncodeWithHash :: "msgpack \<Rightarrow> (bytes \<Rightarrow> bytes) \<Rightarrow> entry \<Rightarrow> bytes \<Rightarrow> goerror + bytes" where
  "EncodeWithHash mp sha256 e out =
     bind_res (EncodeMsgpack mp e []) (\<lambda>entryBytes.
     bind_res (EncodeBytes mp entryBytes out) (\<lambda>out.
       EncodeBytes mp (sha256 entryBytes) out))"

definition DecodeEntryWithHash ::
  "msgpack \<Rightarrow> (bytes \<Rightarrow> bytes) \<Rightarrow> bytes \<Rightarrow> goerror + entry \<times> bytes" where
  "DecodeEntryWithHash mp sha256 s =
     bind_res (DecodeBytes mp s) (\<lambda>(entryBytes, s).
     bind_res (DecodeBytes mp s) (\<lambda>(hashBytes, s).
       if sha256 entryBytes \<noteq> hashBytes then Inl (GoErr ''corrupted file metadata'')
       else bind_res (DecodeMsgpack mp entryBytes) (\<lambda>(e, _). Inr (e, s))))"

text \<open>What the documentation of the package promises, for integers of 64 bits: encoding into a
  buffer succeeds, appends, and is undone by the decoder of the same kind.\<close>

definition int64 :: "int \<Rightarrow> bool" where
  "int64 i \<longleftrightarrow> - (2 ^ 63) \<le> i \<and> i < 2 ^ 63"

definition msgpack_ok :: "msgpack \<Rightarrow> bool" where
  "msgpack_ok mp \<longleftrightarrow>
     (\<forall>v. \<exists>w. (\<forall>out. EncodeString mp v out = Inr (out @ w)) \<and> (\<forall>r. DecodeString mp (w @ r) = Inr (v, r))) \<and>
     (\<forall>v. int64 v \<longrightarrow> (\<exists>w. (\<forall>out. EncodeInt mp v out = Inr (out @ w)) \<and>
        (\<forall>r. DecodeInt64 mp (w @ r) = Inr (v, r) \<and> DecodeInt mp (w @ r) = Inr (v, r)))) \<and>
     (\<forall>v. \<exists>w. w \<noteq> [] \<and> (\<forall>out. EncodeBytes mp v out = Inr (out @ w)) \<and> (\<forall>r. DecodeBytes mp (w @ r) = Inr (v, r)))"

lemma msgpack_okE:
  assumes "msgpack_ok mp"
  obtains ws wi wb where
    "\<And>v out. EncodeString mp v out = Inr (out @ ws v)" "\<And>v r. DecodeString mp (ws v @ r) = Inr (v, r)"
    "\<And>v out. int64 v \<Longrightarrow> EncodeInt mp v out = Inr (out @ wi v)"
    "\<And>v r. int64 v \<Longrightarrow> DecodeInt64 mp (wi v @ r) = Inr (v, r)"
    "\<And>v r. int64 v \<Longrightarrow> DecodeInt mp (wi v @ r) = Inr (v, r)"
    "\<And>v out. EncodeBytes mp v out = Inr (out @ wb v)" "\<And>v r. DecodeBytes mp (wb v @ r) = Inr (v, r)"
    "\<And>v. wb v \<noteq> []"
  using assms unfolding msgpack_ok_def by metis

lemma string_bytes_bytes_string [simp, go_roundtrip]: "string_bytes (bytes_string bs) = bs"
proof -
  have "of_char (char_of (unat b)) = b" for b :: byte
  proof -
    have "(of_char (char_of (unat b)) :: byte) = of_nat (of_char (char_of (unat b)))"
      by (simp only: of_nat_of_char)
    also have "\<dots> = of_nat (unat b mod 256)" by (simp only: of_char_of)
    also have "\<dots> = b" using unat_byte_less [of b] by simp
    finally show ?thesis .
  qed
  then show ?thesis by (induction bs) (simp_all add: string_bytes_def bytes_string_def)
qed

lemma run_steps_append: "run_steps (fs @ gs) s = bind_res (run_steps fs s) (run_steps gs)"
  by (induction fs arbitrary: s) (auto simp: bind_res_def split: sum.splits)

lemma update_new: "k \<notin> fst ` set al \<Longrightarrow> AList.update k v al = al @ [(k, v)]"
  by (induction al) auto

lemma encode_attributes:
  assumes "\<And>v out. EncodeString mp v out = Inr (out @ ws v)"
  shows "run_steps (concat (map (\<lambda>(name, val).
      [EncodeString mp name, EncodeString mp (bytes_string val)]) as)) out
    = Inr (out @ concat (map (\<lambda>(name, val). ws name @ ws (bytes_string val)) as))"
  by (induction as arbitrary: out) (auto simp: assms)

lemma decode_encoded_attributes:
  assumes "\<And>v r. DecodeString mp (ws v @ r) = Inr (v, r)"
  shows "distinct (map fst (acc @ as)) \<Longrightarrow>
    decode_attributes mp (length as) acc
      (concat (map (\<lambda>(name, val). ws name @ ws (bytes_string val)) as) @ r) = Inr (acc @ as, r)"
proof (induction as arbitrary: acc)
  case (Cons a as)
  obtain name val where a: "a = (name, val)" by force
  with Cons.prems have "AList.update name val acc = acc @ [a]" by (auto intro: update_new)
  moreover have "distinct (map fst ((acc @ [a]) @ as))" using Cons.prems by simp
  ultimately show ?case using Cons.IH [of "acc @ [a]"] a by (simp add: assms)
qed simp

text \<open>What decoding yields: an attribute map comes back in the order of its names, an empty one as
  nil.\<close>

definition decoded_form :: "entry \<Rightarrow> entry" where
  "decoded_form e = e\<lparr>Attributes := (case Attributes e of None \<Rightarrow> None | Some [] \<Rightarrow> None
      | Some as \<Rightarrow> Some (sorted_attributes as))\<rparr>"

definition encodable :: "entry \<Rightarrow> bool" where
  "encodable e \<longleftrightarrow> list_all int64 [Size e, Time e, StartChunk e, StartOffset e, EndChunk e, EndOffset e,
       UID e, GID e] \<and>
     (case Attributes e of None \<Rightarrow> True
      | Some as \<Rightarrow> distinct (map fst as) \<and> int64 (int (length as)))"

lemma int64_uint32: "int64 (uint (w :: 32 word))"
proof -
  have "uint w < 2 ^ 32" by (rule order_less_le_trans [OF unsigned_less]) simp
  moreover have "- (2 ^ 63) \<le> uint w" by (rule order_trans [of _ 0]) simp_all
  ultimately show ?thesis by (simp add: int64_def)
qed

lemma entry_fields:
  "\<lparr>Path = Path e, Size = Size e, Time = Time e, Mode = Mode e, Link = Link e, Hash = Hash e,
    UID = UID e, GID = GID e, StartChunk = StartChunk e, StartOffset = StartOffset e,
    EndChunk = EndChunk e, EndOffset = EndOffset e, Attributes = a\<rparr> = e\<lparr>Attributes := a\<rparr>"
  by (cases e) simp

lemma sorted_attributes_distinct:
  "distinct (map fst as) \<Longrightarrow> distinct (map fst (sorted_attributes as))"
  by (simp add: sorted_attributes_def distinct_map inj_on_def)

lemma length_sorted_attributes [simp]: "length (sorted_attributes as) = length as"
  by (simp add: sorted_attributes_def)

lemma msgpack_roundtrip:
  assumes "msgpack_ok mp" and "encodable e"
  shows "\<exists>w. (\<forall>out. EncodeMsgpack mp e out = Inr (out @ w)) \<and>
     (\<forall>r. DecodeMsgpack mp (w @ r) = Inr (decoded_form e, r))"
proof -
  from msgpack_okE [OF assms(1)] obtain ws wi wb where codec:
    "\<And>v out. EncodeString mp v out = Inr (out @ ws v)" "\<And>v r. DecodeString mp (ws v @ r) = Inr (v, r)"
    "\<And>v out. int64 v \<Longrightarrow> EncodeInt mp v out = Inr (out @ wi v)"
    "\<And>v r. int64 v \<Longrightarrow> DecodeInt64 mp (wi v @ r) = Inr (v, r)"
    "\<And>v r. int64 v \<Longrightarrow> DecodeInt mp (wi v @ r) = Inr (v, r)" by metis
  define as where "as = (case Attributes e of None \<Rightarrow> [] | Some as \<Rightarrow> sorted_attributes as)"
  define n where "n = int (length as)"
  have n: "(case Attributes e of None \<Rightarrow> 0 | Some as \<Rightarrow> int (length as)) = n" "int64 n"
    using assms(2) by (auto simp: n_def as_def encodable_def int64_def split: option.splits)
  have dist: "distinct (map fst as)"
    using assms(2) by (auto simp: as_def encodable_def sorted_attributes_distinct split: option.splits)
  have tail: "(case Attributes e of None \<Rightarrow> [] | Some as \<Rightarrow> concat (map (\<lambda>(name, val).
      [EncodeString mp name, EncodeString mp (bytes_string val)]) (sorted_attributes as)))
    = concat (map (\<lambda>(name, val). [EncodeString mp name, EncodeString mp (bytes_string val)]) as)"
    by (auto simp: as_def split: option.splits)
  define w where "w = ws (Path e) @ wi (Size e) @ wi (Time e) @ wi (uint (Mode e)) @ ws (Link e) @
    ws (Hash e) @ wi (StartChunk e) @ wi (StartOffset e) @ wi (EndChunk e) @ wi (EndOffset e) @
    wi (UID e) @ wi (GID e) @ wi n @ concat (map (\<lambda>(name, val). ws name @ ws (bytes_string val)) as)"
  have ints: "int64 (Size e)" "int64 (Time e)" "int64 (StartChunk e)" "int64 (StartOffset e)"
    "int64 (EndChunk e)" "int64 (EndOffset e)" "int64 (UID e)" "int64 (GID e)" "int64 (uint (Mode e))"
    using assms(2) int64_uint32 by (simp_all add: encodable_def)
  have "EncodeMsgpack mp e out = Inr (out @ w)" for out
    by (simp add: EncodeMsgpack_def run_steps_append codec ints n tail encode_attributes w_def)
  moreover have "DecodeMsgpack mp (w @ r) = Inr (decoded_form e, r)" for r
  proof (cases "as = []")
    case True
    then have "decoded_form e = e\<lparr>Attributes := None\<rparr>"
      by (auto simp: as_def decoded_form_def sorted_attributes_def split: option.splits list.splits)
    with True n(2) show ?thesis
      by (simp add: DecodeMsgpack_def w_def codec ints n_def entry_fields)
  next
    case False
    then have "decoded_form e = e\<lparr>Attributes := Some as\<rparr>"
      by (auto simp: as_def decoded_form_def sorted_attributes_def split: option.splits list.splits)
    with False n(2) decode_encoded_attributes [OF codec(2), of "[]" as r] dist show ?thesis
      by (simp add: DecodeMsgpack_def w_def codec ints n_def entry_fields)
  qed
  ultimately show ?thesis by blast
qed

lemma with_hash_roundtrip:
  assumes "msgpack_ok mp" and "encodable e"
  shows "\<exists>w. w \<noteq> [] \<and> (\<forall>out. EncodeWithHash mp sha256 e out = Inr (out @ w)) \<and>
             (\<forall>r. DecodeEntryWithHash mp sha256 (w @ r) = Inr (decoded_form e, r))"
proof -
  from msgpack_roundtrip [OF assms] obtain w where
    w: "EncodeMsgpack mp e [] = Inr w" "DecodeMsgpack mp (w @ []) = Inr (decoded_form e, [])"
    by (metis append_Nil)
  from msgpack_okE [OF assms(1)] obtain wb where
    "\<And>v out. EncodeBytes mp v out = Inr (out @ wb v)" "\<And>v r. DecodeBytes mp (wb v @ r) = Inr (v, r)"
    "\<And>v. wb v \<noteq> []" by metis
  with w show ?thesis
    by (intro exI [of _ "wb w @ wb (sha256 w)"])
       (simp add: EncodeWithHash_def DecodeEntryWithHash_def)
qed

text \<open>C38: an entry whose integers fit 64 bits is read back from the on-disk entry list as it was
  written, with whatever follows it left in the stream; only the order of the attribute names
  and an empty attribute map are normalised.\<close>

theorem DecodeEntryWithHash_EncodeWithHash:
  assumes "msgpack_ok mp" and "encodable e"
  shows "\<exists>w. EncodeWithHash mp sha256 e out = Inr (out @ w) \<and>
             DecodeEntryWithHash mp sha256 (w @ r) = Inr (decoded_form e, r)"
  using with_hash_roundtrip [OF assms, of sha256] by blast

text \<open>A codec to instantiate the hypotheses: values as length-prefixed or two's-complement bytes.\<close>

definition lv_encode :: "bytes \<Rightarrow> bytes" where
  "lv_encode b = concat (map (\<lambda>x. [1, x]) b) @ [0]"

fun lv_decode :: "bytes \<Rightarrow> goerror + bytes \<times> bytes" where
  "lv_decode [] = Inl UnexpectedEOF"
| "lv_decode [x] = (if x = 0 then Inr ([], []) else Inl UnexpectedEOF)"
| "lv_decode (x # y # r) =
     (if x = 0 then Inr ([], y # r) else bind_res (lv_decode r) (\<lambda>(b, s). Inr (y # b, s)))"

definition sample_int_encode :: "int \<Rightarrow> bytes" where
  "sample_int_encode i = le_bytes 8 (nat (i mod 2 ^ 64))"

definition sample_int_decode :: "bytes \<Rightarrow> goerror + int \<times> bytes" where
  "sample_int_decode s = Inr (int_of_uint64 (le_nat (take 8 s)), drop 8 s)"

definition sample_msgpack :: msgpack where
  "sample_msgpack = \<lparr>
     EncodeString = (\<lambda>v out. Inr (out @ lv_encode (string_bytes v))),
     EncodeInt = (\<lambda>v out. Inr (out @ sample_int_encode v)),
     EncodeBytes = (\<lambda>v out. Inr (out @ lv_encode v)),
     DecodeString = (\<lambda>s. bind_res (lv_decode s) (\<lambda>(b, r). Inr (bytes_string b, r))),
     DecodeInt64 = sample_int_decode, DecodeInt = sample_int_decode, DecodeBytes = lv_decode\<rparr>"

lemma lv_decode_encode: "lv_decode (lv_encode b @ r) = Inr (b, r)"
proof (induction b)
  case Nil
  then show ?case by (cases r) (auto simp: lv_encode_def)
qed (simp add: lv_encode_def)

lemma bytes_string_string_bytes [simp]: "bytes_string (string_bytes s) = s"
  by (metis string_bytes_bytes_string string_bytes_inj)

lemma sample_int_roundtrip:
  "int64 v \<Longrightarrow> sample_int_decode (sample_int_encode v @ r) = Inr (v, r)"
proof -
  assume v: "int64 v"
  have "nat (v mod 2 ^ 64) < 256 ^ 8" by (simp add: nat_less_iff)
  then have "le_nat (le_bytes 8 (nat (v mod 2 ^ 64))) = nat (v mod 2 ^ 64)"
    by (rule le_nat_le_bytes_id)
  moreover have "int_of_uint64 (nat (v mod 2 ^ 64)) = v"
  proof (cases "0 \<le> v")
    case True
    with v have "v mod 2 ^ 64 = v" by (simp add: int64_def)
    with True v show ?thesis by (simp add: int_of_uint64_def int64_def nat_less_iff)
  next
    case False
    have "v mod 2 ^ 64 = (v + 2 ^ 64) mod 2 ^ 64" by simp
    also have "\<dots> = v + 2 ^ 64"
      by (rule mod_pos_pos_trivial) (use False v in \<open>simp_all add: int64_def\<close>)
    finally have "v mod 2 ^ 64 = v + 2 ^ 64" .
    with False v show ?thesis by (simp add: int_of_uint64_def int64_def nat_less_iff)
  qed
  ultimately show ?thesis by (simp add: sample_int_decode_def sample_int_encode_def)
qed

lemma sample_msgpack_ok: "msgpack_ok sample_msgpack"
  unfolding msgpack_ok_def
proof (intro conjI allI impI)
  show "\<exists>w. (\<forall>out. EncodeString sample_msgpack v out = Inr (out @ w)) \<and>
      (\<forall>r. DecodeString sample_msgpack (w @ r) = Inr (v, r))" for v
    by (rule exI [of _ "lv_encode (string_bytes v)"]) (simp add: sample_msgpack_def lv_decode_encode)
  show "\<exists>w. (\<forall>out. EncodeInt sample_msgpack v out = Inr (out @ w)) \<and>
      (\<forall>r. DecodeInt64 sample_msgpack (w @ r) = Inr (v, r) \<and>
           DecodeInt sample_msgpack (w @ r) = Inr (v, r))" if "int64 v" for v
    by (rule exI [of _ "sample_int_encode v"]) (simp add: sample_msgpack_def sample_int_roundtrip that)
  show "\<exists>w. w \<noteq> [] \<and> (\<forall>out. EncodeBytes sample_msgpack v out = Inr (out @ w)) \<and>
      (\<forall>r. DecodeBytes sample_msgpack (w @ r) = Inr (v, r))" for v
    by (rule exI [of _ "lv_encode v"]) (simp add: sample_msgpack_def lv_decode_encode, simp add: lv_encode_def)
qed

definition sample_entry :: entry where
  "sample_entry = (CreateEntry ''a/b'' 7 1600000000 0x1A4)
     \<lparr>EndOffset := 7, Attributes := Some [(''user.b'', [1]), (''user.a'', [])]\<rparr>"

theorem DecodeEntryWithHash_EncodeWithHash_witness:
  "\<exists>w. EncodeWithHash sample_msgpack (\<lambda>b. [of_nat (length b)]) sample_entry [] = Inr ([] @ w) \<and>
       DecodeEntryWithHash sample_msgpack (\<lambda>b. [of_nat (length b)]) (w @ [9]) =
         Inr (decoded_form sample_entry, [9])"
proof (rule DecodeEntryWithHash_EncodeWithHash [OF sample_msgpack_ok])
  show "encodable sample_entry"
    by (simp add: encodable_def sample_entry_def CreateEntry_def int64_def)
qed

section \<open>Chunk ranges\<close>

text \<open>A file occupies the bytes from offset \<open>StartOffset\<close> of chunk \<open>StartChunk\<close> to offset
  \<open>EndOffset\<close> of chunk \<open>EndChunk\<close> of the concatenated chunks. The size of that range is summed up
  by the same loop in \<open>Entry.check\<close>, \<open>EntryList.checkEntry\<close> and \<open>SnapshotManager.CheckSnapshot\<close>;
  they differ in where the length of a chunk comes from.\<close>

function span_size :: "(int \<Rightarrow> int res) \<Rightarrow> entry \<Rightarrow> int \<Rightarrow> int \<Rightarrow> int res" where
  "span_size chunkLength e i fileSize =
     (if EndChunk e < i then Inr fileSize
      else bind_res (chunkLength i) (\<lambda>l.
        let start = (if i = StartChunk e then StartOffset e else 0);
            end1 = (if i = EndChunk e then EndOffset e else l)
        in span_size chunkLength e (i + 1) (fileSize + (end1 - start))))"
  by pat_completeness auto
termination
  by (relation "measure (\<lambda>(_, e, i, _). nat (EndChunk e + 1 - i))") auto

declare span_size.simps [simp del]

definition entry_check :: "entry \<Rightarrow> int list \<Rightarrow> goerror option res" where
  "entry_check e chunkLengths =
     (if Size e < 0 then Inr (Some (GoErr ''The file hash an invalid size''))
      else if \<not> IsFile e \<or> Size e = 0 then Inr None
      else if StartChunk e < 0 then Inr (Some (GoErr ''The file starts at chunk''))
      else if int (length chunkLengths) \<le> EndChunk e
        then Inr (Some (GoErr ''The file ends at chunk while the number of chunks is''))
      else if EndChunk e < StartChunk e
        then Inr (Some (GoErr ''The file starts at chunk and ends at chunk''))
      else bind_res (index_slice chunkLengths (StartChunk e)) (\<lambda>ls.
        if ls \<le> StartOffset e then Inr (Some (GoErr ''The file starts at offset''))
        else bind_res (index_slice chunkLengths (EndChunk e)) (\<lambda>le.
          if le < EndOffset e then Inr (Some (GoErr ''The file ends at offset''))
          else bind_res (span_size (index_slice chunkLengths) e (StartChunk e) 0) (\<lambda>fileSize.
            if Size e \<noteq> fileSize
            then Inr (Some (GoErr ''The file has a size but the total size of chunks is''))
            else Inr None))))"

text \<open>The absolute position of an offset in a chunk of the concatenated chunks.\<close>

definition chunk_pos :: "int list \<Rightarrow> int \<Rightarrow> int \<Rightarrow> int" where
  "chunk_pos lengths chunk offset = sum_list (take (nat chunk) lengths) + offset"

lemma chunk_pos_next:
  "0 \<le> i \<Longrightarrow> i < int (length ls) \<Longrightarrow> chunk_pos ls (i + 1) 0 = chunk_pos ls i (ls ! nat i)"
  by (simp add: chunk_pos_def nat_add_distrib take_Suc_conv_app_nth)

lemma span_size_end: "EndChunk e < i \<Longrightarrow> span_size chunkLength e i acc = Inr acc"
  by (simp add: span_size.simps)

lemma span_size_step:
  "i \<le> EndChunk e \<Longrightarrow> chunkLength i = Inr l \<Longrightarrow>
   span_size chunkLength e i acc = span_size chunkLength e (i + 1)
     (acc + ((if i = EndChunk e then EndOffset e else l) - (if i = StartChunk e then StartOffset e else 0)))"
  by (simp add: span_size.simps [of _ _ i])

lemma span_size_pos:
  assumes "StartChunk e \<le> i" and "i \<le> EndChunk e" and "0 \<le> i" and "EndChunk e < int (length ls)"
    and "\<And>j. i \<le> j \<Longrightarrow> j \<le> EndChunk e \<Longrightarrow> chunkLength j = Inr (ls ! nat j)"
  shows "span_size chunkLength e i acc =
    Inr (acc + chunk_pos ls (EndChunk e) (EndOffset e)
         - chunk_pos ls i (if i = StartChunk e then StartOffset e else 0))"
  using assms
proof (induction "nat (EndChunk e - i)" arbitrary: i acc)
  case 0
  then have "i = EndChunk e" by simp
  with 0 span_size_step [of i e chunkLength "ls ! nat i" acc] show ?case
    by (simp add: span_size_end chunk_pos_def)
next
  case (Suc n)
  then have i: "i < EndChunk e" by simp
  have "span_size chunkLength e i acc = span_size chunkLength e (i + 1)
      (acc + (ls ! nat i - (if i = StartChunk e then StartOffset e else 0)))"
    using i Suc.prems(5) span_size_step [of i e chunkLength "ls ! nat i" acc] by simp
  also have "\<dots> = Inr (acc + (ls ! nat i - (if i = StartChunk e then StartOffset e else 0))
      + chunk_pos ls (EndChunk e) (EndOffset e)
      - chunk_pos ls (i + 1) (if i + 1 = StartChunk e then StartOffset e else 0))"
    by (rule Suc.hyps(1)) (use Suc i in auto)
  also have "\<dots> = Inr (acc + chunk_pos ls (EndChunk e) (EndOffset e)
      - chunk_pos ls i (if i = StartChunk e then StartOffset e else 0))"
    using chunk_pos_next [of i ls] Suc.prems i by (simp add: chunk_pos_def)
  finally show ?case .
qed

text \<open>What a passed check means for a non-empty file.\<close>

definition spans :: "int list \<Rightarrow> entry \<Rightarrow> bool" where
  "spans ls e \<longleftrightarrow> 0 \<le> StartChunk e \<and> StartChunk e \<le> EndChunk e \<and> EndChunk e < int (length ls) \<and>
     StartOffset e < ls ! nat (StartChunk e) \<and> EndOffset e \<le> ls ! nat (EndChunk e) \<and>
     chunk_pos ls (EndChunk e) (EndOffset e) - chunk_pos ls (StartChunk e) (StartOffset e) = Size e"

lemma entry_check_result:
  "\<exists>r. entry_check e ls = Inr r \<and>
     (r = None \<longleftrightarrow> 0 \<le> Size e \<and> (IsFile e \<and> Size e \<noteq> 0 \<longrightarrow> spans ls e))"
proof (cases "0 \<le> StartChunk e \<and> StartChunk e \<le> EndChunk e \<and> EndChunk e < int (length ls)")
  case True
  then have "span_size (index_slice ls) e (StartChunk e) 0 =
      Inr (chunk_pos ls (EndChunk e) (EndOffset e) - chunk_pos ls (StartChunk e) (StartOffset e))"
    by (subst span_size_pos [of e "StartChunk e" ls]) auto
  with True show ?thesis by (auto simp: entry_check_def spans_def)
next
  case False
  then show ?thesis by (auto simp: entry_check_def spans_def)
qed


end
