(* ===== verification/EntryList.thy ===== *)
theory EntryList
  imports Entry "HOL-Library.Multiset"
begin

text \<open>
  The entry list of a backup in progress: \<open>duplicacy_entrylist.go\<close>.

  \<open>onDiskFile\<close> is \<open>None\<close> for a nil file and otherwise the bytes written to it so far. What
  the operating system may refuse is an input of the operation concerned (\<open>None\<close>: the call
  succeeds); the files of the cache directory are a map from names to contents. The callback of
  \<open>ReadEntries\<close> acts on a state of its own and may fail.

  Shown here: reading a list back gives every modified file the next \<open>Size\<close> bytes of the
  uploaded chunks, without gap or overlap; a list that has been moved to disk is read back as one
  that stayed in memory; the order in which uploads complete does not matter; an incomplete backup
  is loaded as it was saved, cut before the first chunk that was not uploaded.
\<close>

section \<open>State\<close>

record modified_entry =
  me_Path :: string
  me_Size :: int
  me_Hash :: string

record entry_list =
  onDiskFile :: "bytes option"
  entries :: "entry list"
  SnapshotID :: string
  Token :: string
  ModifiedEntries :: "modified_entry list"
  UploadedChunkHashes :: "string list"
  UploadedChunkLengths :: "int list"
  PreservedChunkHashes :: "string list"
  PreservedChunkLengths :: "int list"
  Checksum :: string
  maximumInMemoryEntries :: int
  NumberOfEntries :: int
  modifiedEntryIndex :: int
  uploadedChunkIndex :: int
  uploadedChunkOffset :: int

definition empty_list :: entry_list where
  "empty_list = \<lparr>onDiskFile = None, entries = [], SnapshotID = [], Token = [], ModifiedEntries = [],
     UploadedChunkHashes = [], UploadedChunkLengths = [], PreservedChunkHashes = [],
     PreservedChunkLengths = [], Checksum = [], maximumInMemoryEntries = 0, NumberOfEntries = 0,
     modifiedEntryIndex = 0, uploadedChunkIndex = 0, uploadedChunkOffset = 0\<rparr>"

text \<open>The token is what \<open>rand.Read\<close> delivered, or its error.\<close>

definition CreateEntryList :: "string \<Rightarrow> goerror + string \<Rightarrow> int \<Rightarrow> goerror + entry_list" where
  "CreateEntryList snapshotID token maximum =
     bind_res token (\<lambda>token.
       Inr (empty_list\<lparr>SnapshotID := snapshotID, maximumInMemoryEntries := maximum, Token := token\<rparr>))"

section \<open>Building the list\<close>

fun encode_entries :: "msgpack \<Rightarrow> (bytes \<Rightarrow> bytes) \<Rightarrow> entry list \<Rightarrow> bytes \<Rightarrow> goerror + bytes" where
  "encode_entries mp sha256 [] out = Inr out"
| "encode_entries mp sha256 (e # es) out =
     bind_res (EncodeWithHash mp sha256 e out) (encode_entries mp sha256 es)"

text \<open>The first component of the result is the returned error.\<close>

definition createOnDiskFile ::
  "msgpack \<Rightarrow> (bytes \<Rightarrow> bytes) \<Rightarrow> goerror option \<Rightarrow> entry_list \<Rightarrow> goerror option \<times> entry_list" where
  "createOnDiskFile mp sha256 open_error el =
     (case open_error of Some err \<Rightarrow> (Some (GoErr ''Failed to create on disk entry list''), el)
      | None \<Rightarrow>
          (case EncodeString mp (Token el) [] of
             Inl err \<Rightarrow> (Some (GoErr ''Failed to create on disk entry list''), el\<lparr>onDiskFile := Some []\<rparr>)
           | Inr out \<Rightarrow>
               (case encode_entries mp sha256 (entries el) out of
                  Inl err \<Rightarrow> (Some err, el\<lparr>onDiskFile := Some out\<rparr>)
                | Inr out \<Rightarrow> (None, el\<lparr>onDiskFile := Some out\<rparr>))))"

definition AddEntry ::
  "msgpack \<Rightarrow> (bytes \<Rightarrow> bytes) \<Rightarrow> goerror option \<Rightarrow> entry \<Rightarrow> entry_list \<Rightarrow> goerror option \<times> entry_list" where
  "AddEntry mp sha256 open_error e el =
     (let el = (if IsFile e then el\<lparr>NumberOfEntries := NumberOfEntries el + 1\<rparr> else el);
          el = (if \<not> IsComplete e \<and> IsFile e
                then el\<lparr>ModifiedEntries := ModifiedEntries el @
                          [\<lparr>me_Path = Path e, me_Size = -1, me_Hash = []\<rparr>]\<rparr> else el);
          e = (if \<not> IsComplete e \<and> \<not> IsFile e then e\<lparr>Size := 0\<rparr> else e)
      in case onDiskFile el of
           Some out \<Rightarrow>
             (case EncodeWithHash mp sha256 e out of
                Inl err \<Rightarrow> (Some err, el)
              | Inr out \<Rightarrow> (None, el\<lparr>onDiskFile := Some out\<rparr>))
         | None \<Rightarrow>
             let el = el\<lparr>entries := entries el @ [e]\<rparr>
             in if 0 \<le> maximumInMemoryEntries el \<and>
                   maximumInMemoryEntries el < int (length (entries el))
                then createOnDiskFile mp sha256 open_error el
                else (None, el))"

definition AddPreservedChunk :: "string \<Rightarrow> int \<Rightarrow> entry_list \<Rightarrow> entry_list" where
  "AddPreservedChunk chunkHash chunkSize el =
     el\<lparr>PreservedChunkHashes := PreservedChunkHashes el @ [chunkHash],
        PreservedChunkLengths := PreservedChunkLengths el @ [chunkSize]\<rparr>"

text \<open>The loop that appends until an index is valid.\<close>

definition extend_to :: "nat \<Rightarrow> 'a \<Rightarrow> 'a list \<Rightarrow> 'a list" where
  "extend_to i x xs = xs @ replicate (Suc i - length xs) x"

definition AddUploadedChunk :: "nat \<Rightarrow> string \<Rightarrow> int \<Rightarrow> entry_list \<Rightarrow> entry_list" where
  "AddUploadedChunk chunkIndex chunkHash chunkSize el =
     el\<lparr>UploadedChunkHashes := (extend_to chunkIndex [] (UploadedChunkHashes el))[chunkIndex := chunkHash],
        UploadedChunkLengths := (extend_to chunkIndex 0 (UploadedChunkLengths el))[chunkIndex := chunkSize]\<rparr>"

definition CloseOnDiskFile ::
  "goerror option \<Rightarrow> goerror option \<Rightarrow> entry_list \<Rightarrow> goerror option \<times> entry_list" where
  "CloseOnDiskFile sync_error close_error el =
     (if onDiskFile el = None then (None, el)
      else case sync_error of Some err \<Rightarrow> (Some err, el)
      | None \<Rightarrow> (case close_error of Some err \<Rightarrow> (Some err, el)
                 | None \<Rightarrow> (None, el\<lparr>onDiskFile := None\<rparr>)))"

section \<open>Reading the list\<close>

definition getChunkLength :: "entry_list \<Rightarrow> int \<Rightarrow> int res" where
  "getChunkLength el index =
     (if index < int (length (PreservedChunkLengths el))
      then index_slice (PreservedChunkLengths el) index
      else index_slice (UploadedChunkLengths el) (index - int (length (PreservedChunkLengths el))))"

definition checkEntry :: "entry_list \<Rightarrow> entry \<Rightarrow> goerror option res" where
  "checkEntry el e =
     (if Size e < 0 then Inr (Some (GoErr ''the file hash an invalid size''))
      else if \<not> IsFile e \<or> Size e = 0 then Inr None
      else
        let numberOfChunks = int (length (PreservedChunkLengths el)) + int (length (UploadedChunkLengths el)) in
        if StartChunk e < 0 then Inr (Some (GoErr ''the file starts at chunk''))
        else if numberOfChunks \<le> EndChunk e
          then Inr (Some (GoErr ''the file ends at chunk while the number of chunks is''))
        else if EndChunk e < StartChunk e
          then Inr (Some (GoErr ''the file starts at chunk and ends at chunk''))
        else bind_res (getChunkLength el (StartChunk e)) (\<lambda>ls.
          if ls \<le> StartOffset e then Inr (Some (GoErr ''the file starts at offset''))
          else bind_res (getChunkLength el (EndChunk e)) (\<lambda>le.
            if le < EndOffset e then Inr (Some (GoErr ''the file ends at offset''))
            else bind_res (span_size (getChunkLength el) e (StartChunk e) 0) (\<lambda>fileSize.
              if Size e \<noteq> fileSize
              then Inr (Some (GoErr ''the file has a size but the total size of chunks is''))
              else Inr None))))"

text \<open>The loop that moves past the uploaded chunks a file fills.\<close>

function fill_loop :: "int list \<Rightarrow> int \<Rightarrow> int \<Rightarrow> int \<Rightarrow> (int \<times> int \<times> int) res" where
  "fill_loop lengths index endOffset endChunk =
     (if index < int (length lengths) then
        bind_res (index_slice lengths index) (\<lambda>l.
          if l < endOffset then fill_loop lengths (index + 1) (endOffset - l) (endChunk + 1)
          else Inr (index, endOffset, endChunk))
      else Inr (index, endOffset, endChunk))"
  by pat_completeness auto
termination
  by (relation "measure (\<lambda>(lengths, index, _). nat (int (length lengths) - index))") auto

declare fill_loop.simps [simp del]

type_synonym 's callback = "entry \<Rightarrow> 's \<Rightarrow> (goerror option \<times> 's) res"

text \<open>The annotation part of \<open>fillAndSendEntry\<close>, before its final check: the entry with its chunk
  range, \<open>None\<close> for a file that was skipped, or an error.\<close>

definition fillEntry :: "entry \<Rightarrow> entry_list \<Rightarrow> ((goerror + entry option) \<times> entry_list) res" where
  "fillEntry e el =
     (if int (length (ModifiedEntries el)) \<le> modifiedEntryIndex el
      then Inr (Inl (GoErr ''Unexpected file index''), el)
      else bind_res (index_slice (ModifiedEntries el) (modifiedEntryIndex el)) (\<lambda>modifiedEntry.
        let el = el\<lparr>modifiedEntryIndex := modifiedEntryIndex el + 1\<rparr> in
        if me_Path modifiedEntry \<noteq> Path e then Inr (Inl (GoErr ''Unexpected file path''), el)
        else if me_Size modifiedEntry \<le> 0 then Inr (Inr None, el)
        else
          let startChunk = uploadedChunkIndex el + int (length (PreservedChunkHashes el));
              e = e\<lparr>Size := me_Size modifiedEntry, Hash := me_Hash modifiedEntry,
                    StartChunk := startChunk, StartOffset := uploadedChunkOffset el,
                    EndChunk := startChunk\<rparr>
          in bind_res (fill_loop (UploadedChunkLengths el) (uploadedChunkIndex el)
                        (StartOffset e + Size e) (EndChunk e)) (\<lambda>(index, endOffset, endChunk).
            let el = el\<lparr>uploadedChunkIndex := index\<rparr> in
            if int (length (UploadedChunkLengths el)) \<le> index
            then Inr (Inl (GoErr ''File has not been completely uploaded''), el)
            else bind_res (index_slice (UploadedChunkLengths el) index) (\<lambda>l.
              Inr (Inr (Some (e\<lparr>EndChunk := endChunk, EndOffset := endOffset\<rparr>)),
                   if endOffset = l then el\<lparr>uploadedChunkIndex := index + 1, uploadedChunkOffset := 0\<rparr>
                   else el\<lparr>uploadedChunkOffset := endOffset\<rparr>)))))"

definition checkAndSend ::
  "'s callback \<Rightarrow> entry \<Rightarrow> entry_list \<Rightarrow> 's \<Rightarrow> (bool \<times> goerror option \<times> entry_list \<times> 's) res" where
  "checkAndSend entryOut e el s =
     bind_res (checkEntry el e) (\<lambda>err.
       if err \<noteq> None then Inr (False, err, el, s)
       else bind_res (entryOut e s) (\<lambda>(err, s). Inr (False, err, el, s)))"

definition fillAndSendEntry ::
  "'s callback \<Rightarrow> entry \<Rightarrow> entry_list \<Rightarrow> 's \<Rightarrow> (bool \<times> goerror option \<times> entry_list \<times> 's) res" where
  "fillAndSendEntry entryOut e el s =
     (if IsComplete e then checkAndSend entryOut e el s
      else bind_res (fillEntry e el) (\<lambda>(filled, el).
        case filled of
          Inl err \<Rightarrow> Inr (False, Some err, el, s)
        | Inr None \<Rightarrow> Inr (True, None, el, s)
        | Inr (Some e) \<Rightarrow> checkAndSend entryOut e el s))"

fun read_entries ::
  "'s callback \<Rightarrow> entry list \<Rightarrow> entry_list \<Rightarrow> 's \<Rightarrow> (goerror option \<times> entry_list \<times> 's) res" where
  "read_entries entryOut [] el s = Inr (None, el, s)"
| "read_entries entryOut (e # es) el s =
     bind_res (fillAndSendEntry entryOut (Copy e) el s) (\<lambda>(skipped, err, el, s).
       if err \<noteq> None then Inr (err, el, s) else read_entries entryOut es el s)"

text \<open>The loop over the on-disk file. The loop condition peeks at the next byte; at the end of the
  file the error is \<open>io.EOF\<close>, which ends the loop normally. \<open>None\<close> means that the fuel did not
  suffice.\<close>

fun read_disk ::
  "msgpack \<Rightarrow> (bytes \<Rightarrow> bytes) \<Rightarrow> nat \<Rightarrow> 's callback \<Rightarrow> bytes \<Rightarrow> entry_list \<Rightarrow> 's \<Rightarrow>
     (goerror option \<times> entry_list \<times> 's) res option" where
  "read_disk mp sha256 0 entryOut stream el s = None"
| "read_disk mp sha256 (Suc n) entryOut stream el s =
     (if stream = [] then Some (Inr (None, el, s))
      else case DecodeEntryWithHash mp sha256 stream of
        Inl err \<Rightarrow> Some (Inr (Some err, el, s))
      | Inr (e, stream) \<Rightarrow>
          (case fillAndSendEntry entryOut e el s of
             Inl exn \<Rightarrow> Some (Inl exn)
           | Inr (skipped, err, el, s) \<Rightarrow>
               if err \<noteq> None then Some (Inr (err, el, s))
               else read_disk mp sha256 n entryOut stream el s))"

definition reset_indices :: "entry_list \<Rightarrow> entry_list" where
  "reset_indices el = el\<lparr>modifiedEntryIndex := 0, uploadedChunkIndex := 0, uploadedChunkOffset := 0\<rparr>"

definition ReadEntries ::
  "msgpack \<Rightarrow> (bytes \<Rightarrow> bytes) \<Rightarrow> 's callback \<Rightarrow> entry_list \<Rightarrow> 's \<Rightarrow>
     (goerror option \<times> entry_list \<times> 's) res option" where
  "ReadEntries mp sha256 entryOut el s =
     (let el = reset_indices el in
      case onDiskFile el of
        None \<Rightarrow> Some (read_entries entryOut (entries el) el s)
      | Some file \<Rightarrow>
          (case DecodeString mp file of
             Inl err \<Rightarrow> Some (Inr (Some err, el, s))
           | Inr (_, stream) \<Rightarrow> read_disk mp sha256 (Suc (length stream)) entryOut stream el s))"

section \<open>Saving and loading an incomplete backup\<close>

definition uint64_bytes :: "int \<Rightarrow> bytes" where
  "uint64_bytes i = le_bytes 8 (nat (i mod 2 ^ 64))"

definition CalculateChecksum :: "(bytes \<Rightarrow> bytes) \<Rightarrow> entry_list \<Rightarrow> string" where
  "CalculateChecksum sha256 el =
     hex_encode (sha256
       (concat (map string_bytes (UploadedChunkHashes el)) @
        concat (map uint64_bytes (UploadedChunkLengths el)) @
        concat (map string_bytes (PreservedChunkHashes el)) @
        concat (map uint64_bytes (PreservedChunkLengths el)) @
        concat (map (\<lambda>m. uint64_bytes (me_Size m) @ string_bytes (me_Hash m)) (ModifiedEntries el))))"

type_synonym cache_dir = "string \<Rightarrow> bytes option"

record save_faults =
  create_error :: "goerror option"
  close_error :: "goerror option"
  remove_error :: "goerror option"
  rename_error :: "goerror option"
  chunk_file_error :: "goerror option"

definition no_save_faults :: save_faults where
  "no_save_faults = \<lparr>create_error = None, close_error = None, remove_error = None,
     rename_error = None, chunk_file_error = None\<rparr>"

text \<open>The on-disk file is \<open>incomplete_files\<close> in the cache directory. The list itself is written by
  the msgpack encoder, here \<open>encode_list\<close>. Every failure is only logged.\<close>

definition SaveIncompleteSnapshot ::
  "msgpack \<Rightarrow> (bytes \<Rightarrow> bytes) \<Rightarrow> (entry_list \<Rightarrow> goerror + bytes) \<Rightarrow> save_faults \<Rightarrow>
     entry_list \<Rightarrow> cache_dir \<Rightarrow> entry_list \<times> cache_dir" where
  "SaveIncompleteSnapshot mp sha256 encode_list faults el fs =
     (let (ready, el) =
        (case onDiskFile el of Some _ \<Rightarrow> (True, el)
         | None \<Rightarrow>
             (case createOnDiskFile mp sha256 (create_error faults) el of
                (Some err, el) \<Rightarrow> (False, el)
              | (None, el) \<Rightarrow>
                  (case encode_entries mp sha256 (entries el) (the (onDiskFile el)) of
                     Inl err \<Rightarrow> (False, el)
                   | Inr out \<Rightarrow> (True, el\<lparr>onDiskFile := Some out\<rparr>))));
          fs = (case onDiskFile el of None \<Rightarrow> fs | Some out \<Rightarrow> fs(''incomplete_files'' \<mapsto> out))
      in if \<not> ready then (el, fs)
         else if close_error faults \<noteq> None then (el, fs)
         else
           let fs = (if fs ''incomplete_snapshot'' \<noteq> None \<and> remove_error faults = None
                     then fs(''incomplete_snapshot'' := None) else fs)
           in if rename_error faults \<noteq> None then (el, fs)
              else
                let fs = fs(''incomplete_snapshot'' := fs ''incomplete_files'', ''incomplete_files'' := None)
                in if chunk_file_error faults \<noteq> None then (el, fs)
                   else
                     let el = el\<lparr>Checksum := CalculateChecksum sha256 el\<rparr>
                     in case encode_list el of
                          Inl err \<Rightarrow> (el, fs(''incomplete_chunks'' \<mapsto> []))
                        | Inr out \<Rightarrow> (el, fs(''incomplete_chunks'' \<mapsto> out)))"

text \<open>\<open>known_hash\<close> is the lookup of the chunk id of a hash in the chunk cache.\<close>

definition CheckChunks :: "(string \<Rightarrow> string) \<Rightarrow> (string \<Rightarrow> bool) \<Rightarrow> entry_list \<Rightarrow> bool" where
  "CheckChunks getChunkIDFromHash chunkCache el \<longleftrightarrow>
     list_all (\<lambda>h. chunkCache (getChunkIDFromHash h)) (UploadedChunkHashes el) \<and>
     list_all (\<lambda>h. chunkCache (getChunkIDFromHash h)) (PreservedChunkHashes el)"

text \<open>The loop that cuts both slices at the first empty hash. Cutting the lengths panics when there
  are fewer lengths than that.\<close>

definition cut_uploaded :: "entry_list \<Rightarrow> entry_list res" where
  "cut_uploaded el =
     (let hashes = UploadedChunkHashes el; i = length (takeWhile (\<lambda>h. h \<noteq> []) hashes) in
      if i = length hashes then Inr el
      else if length (UploadedChunkLengths el) < i then Inl (Panic ''slice bounds out of range'')
      else Inr (el\<lparr>UploadedChunkHashes := take i hashes,
                    UploadedChunkLengths := take i (UploadedChunkLengths el)\<rparr>))"

record load_faults =
  open_list_error :: "goerror option"
  open_disk_error :: "goerror option"

definition loadIncompleteSnapshot ::
  "msgpack \<Rightarrow> (bytes \<Rightarrow> bytes) \<Rightarrow> (bytes \<Rightarrow> goerror + entry_list) \<Rightarrow> load_faults \<Rightarrow>
     cache_dir \<Rightarrow> entry_list option res" where
  "loadIncompleteSnapshot mp sha256 decode_list faults fs =
     (case (fs ''incomplete_snapshot'', fs ''incomplete_chunks'') of
        (Some file, Some list_file) \<Rightarrow>
          if open_list_error faults \<noteq> None then Inr None
          else (case decode_list list_file of
              Inl err \<Rightarrow> Inr None
            | Inr el \<Rightarrow>
                if CalculateChecksum sha256 el \<noteq> Checksum el then Inr None
                else if open_disk_error faults \<noteq> None then Inr None
                else (case DecodeString mp file of
                    Inl err \<Rightarrow> Inr None
                  | Inr (token, _) \<Rightarrow>
                      if token \<noteq> Token el then Inr None
                      else bind_res (cut_uploaded (el\<lparr>onDiskFile := Some file\<rparr>)) (\<lambda>el. Inr (Some el))))
      | _ \<Rightarrow> Inr None)"

fun delete_files :: "(string \<Rightarrow> goerror option) \<Rightarrow> string list \<Rightarrow> cache_dir \<Rightarrow> cache_dir" where
  "delete_files remove_err [] fs = fs"
| "delete_files remove_err (f # files) fs =
     (if fs f = None then delete_files remove_err files fs
      else if remove_err f \<noteq> None then fs
      else delete_files remove_err files (fs(f := None)))"

definition deleteIncompleteSnapshot :: "(string \<Rightarrow> goerror option) \<Rightarrow> cache_dir \<Rightarrow> cache_dir" where
  "deleteIncompleteSnapshot remove_err =
     delete_files remove_err [''incomplete_snapshot'', ''incomplete_chunks'', ''incomplete_files'']"

section \<open>Checking and filling in entries\<close>

definition all_lengths :: "entry_list \<Rightarrow> int list" where
  "all_lengths el = PreservedChunkLengths el @ UploadedChunkLengths el"

lemma getChunkLength_all: "getChunkLength el i = index_slice (all_lengths el) i"
  by (auto simp: getChunkLength_def index_slice_def all_lengths_def nth_append nat_diff_distrib)

lemma checkEntry_result:
  "\<exists>r. checkEntry el e = Inr r \<and>
     (r = None \<longleftrightarrow> 0 \<le> Size e \<and> (IsFile e \<and> Size e \<noteq> 0 \<longrightarrow> spans (all_lengths el) e))"
proof (cases "0 \<le> StartChunk e \<and> StartChunk e \<le> EndChunk e \<and> EndChunk e < int (length (all_lengths el))")
  case True
  then have "span_size (getChunkLength el) e (StartChunk e) 0 =
      Inr (chunk_pos (all_lengths el) (EndChunk e) (EndOffset e)
           - chunk_pos (all_lengths el) (StartChunk e) (StartOffset e))"
    by (subst span_size_pos [of e "StartChunk e" "all_lengths el"]) (auto simp: getChunkLength_all)
  with True show ?thesis
    by (auto simp: checkEntry_def spans_def getChunkLength_all) (auto simp: all_lengths_def)
next
  case False
  then show ?thesis
    by (auto simp: checkEntry_def spans_def getChunkLength_all) (auto simp: all_lengths_def)
qed

lemma checkEntry_spans: "spans (all_lengths el) e \<Longrightarrow> 0 \<le> Size e \<Longrightarrow> checkEntry el e = Inr None"
  using checkEntry_result [of el e] by auto

lemma chunk_pos_full: "int (length ls) \<le> i \<Longrightarrow> chunk_pos ls i off = sum_list ls + off"
  by (simp add: chunk_pos_def)

lemma chunk_pos_append:
  "0 \<le> i \<Longrightarrow> chunk_pos (ps @ us) (i + int (length ps)) off = sum_list ps + chunk_pos us i off"
  by (simp add: chunk_pos_def nat_add_distrib)

lemma fill_loop_stop:
  "int (length ls) \<le> i \<Longrightarrow> fill_loop ls i r c = Inr (i, r, c)"
  by (simp add: fill_loop.simps)

lemma fill_loop_step:
  "0 \<le> i \<Longrightarrow> i < int (length ls) \<Longrightarrow>
   fill_loop ls i r c = (if ls ! nat i < r then fill_loop ls (i + 1) (r - ls ! nat i) (c + 1) else Inr (i, r, c))"
  by (subst fill_loop.simps) simp

text \<open>When enough bytes are left, the loop ends within the chunk that holds the last byte.\<close>

lemma fill_loop_place:
  assumes "0 \<le> i" and "0 < r" and "chunk_pos ls i r \<le> sum_list ls"
  shows "\<exists>j r'. fill_loop ls i r c = Inr (j, r', c + (j - i)) \<and> i \<le> j \<and> j < int (length ls) \<and>
           0 < r' \<and> r' \<le> ls ! nat j \<and> chunk_pos ls j r' = chunk_pos ls i r"
  using assms
proof (induction "nat (int (length ls) - i)" arbitrary: i r c)
  case 0
  then show ?case by (simp add: chunk_pos_full)
next
  case (Suc n)
  then have i: "i < int (length ls)" by simp
  show ?case
  proof (cases "ls ! nat i < r")
    case True
    let ?r = "r - ls ! nat i"
    have pos: "chunk_pos ls (i + 1) ?r = chunk_pos ls i r"
      using chunk_pos_next [of i ls] Suc.prems(1) i by (simp add: chunk_pos_def)
    have "\<exists>j r'. fill_loop ls (i + 1) ?r (c + 1) = Inr (j, r', c + 1 + (j - (i + 1))) \<and> i + 1 \<le> j \<and>
        j < int (length ls) \<and> 0 < r' \<and> r' \<le> ls ! nat j \<and> chunk_pos ls j r' = chunk_pos ls (i + 1) ?r"
      by (rule Suc.hyps(1)) (use Suc True pos in auto)
    then obtain j r' where "fill_loop ls (i + 1) ?r (c + 1) = Inr (j, r', c + (j - i))" "i + 1 \<le> j"
      "j < int (length ls)" "0 < r'" "r' \<le> ls ! nat j" "chunk_pos ls j r' = chunk_pos ls i r"
      unfolding pos by auto
    with True Suc.prems(1) i show ?thesis
      by (intro exI [of _ j] exI [of _ r']) (simp add: fill_loop_step)
  next
    case False
    with Suc.prems i show ?thesis
      by (intro exI [of _ i] exI [of _ r]) (simp add: fill_loop_step)
  qed
qed

text \<open>The position in the uploaded chunks that the indices of a list denote.\<close>

definition upload_pos :: "entry_list \<Rightarrow> int" where
  "upload_pos el = chunk_pos (UploadedChunkLengths el) (uploadedChunkIndex el) (uploadedChunkOffset el)"

definition fill_inv :: "entry_list \<Rightarrow> bool" where
  "fill_inv el \<longleftrightarrow> length (PreservedChunkHashes el) = length (PreservedChunkLengths el) \<and>
     (\<forall>l \<in> set (UploadedChunkLengths el). 0 < l) \<and> 0 \<le> uploadedChunkIndex el \<and>
     0 \<le> uploadedChunkOffset el \<and> 0 \<le> modifiedEntryIndex el \<and>
     (uploadedChunkIndex el < int (length (UploadedChunkLengths el)) \<longrightarrow>
        uploadedChunkOffset el < UploadedChunkLengths el ! nat (uploadedChunkIndex el))"

definition same_chunks :: "entry_list \<Rightarrow> entry_list \<Rightarrow> bool" where
  "same_chunks el el' \<longleftrightarrow> el' = el\<lparr>modifiedEntryIndex := modifiedEntryIndex el',
     uploadedChunkIndex := uploadedChunkIndex el', uploadedChunkOffset := uploadedChunkOffset el'\<rparr>"

lemma fillEntry_place:
  assumes inv: "fill_inv el"
    and m: "modifiedEntryIndex el < int (length (ModifiedEntries el))"
      "ModifiedEntries el ! nat (modifiedEntryIndex el) = m" "me_Path m = Path e" "0 < me_Size m"
    and room: "upload_pos el + me_Size m \<le> sum_list (UploadedChunkLengths el)"
  shows "\<exists>e' el'. fillEntry e el = Inr (Inr (Some e'), el') \<and> spans (all_lengths el) e' \<and>
      e' = e\<lparr>Size := me_Size m, Hash := me_Hash m, StartChunk := StartChunk e', StartOffset := StartOffset e',
             EndChunk := EndChunk e', EndOffset := EndOffset e'\<rparr> \<and>
      chunk_pos (all_lengths el) (StartChunk e') (StartOffset e')
        = sum_list (PreservedChunkLengths el) + upload_pos el \<and>
      fill_inv el' \<and> same_chunks el el' \<and> modifiedEntryIndex el' = modifiedEntryIndex el + 1 \<and>
      upload_pos el' = upload_pos el + me_Size m"
proof -
  define us where "us = UploadedChunkLengths el"
  define i where "i = uploadedChunkIndex el"
  define off where "off = uploadedChunkOffset el"
  define np where "np = int (length (PreservedChunkLengths el))"
  define sz where "sz = me_Size m"
  note defs = us_def [symmetric] i_def [symmetric] off_def [symmetric] np_def [symmetric] sz_def [symmetric]
  have i: "0 \<le> i" "0 \<le> off" "i < int (length us) \<Longrightarrow> off < us ! nat i" "\<forall>l \<in> set us. 0 < l"
    "length (PreservedChunkHashes el) = length (PreservedChunkLengths el)"
    using inv unfolding fill_inv_def defs by auto
  have pos: "upload_pos el = chunk_pos us i off" by (simp add: upload_pos_def defs)
  have sz: "0 < sz" "0 < off + sz" using m(4) i(2) by (simp_all add: defs)
  have total: "chunk_pos us i (off + sz) \<le> sum_list us"
    using room by (simp add: pos defs chunk_pos_def)
  from fill_loop_place [OF i(1) sz(2) total, of "i + np"] obtain j r where
    loop: "fill_loop us i (off + sz) (i + np) = Inr (j, r, j + np)" and
    j: "i \<le> j" "j < int (length us)" "0 < r" "r \<le> us ! nat j" "chunk_pos us j r = chunk_pos us i (off + sz)"
    by (auto simp: algebra_simps)
  define e' where "e' = e\<lparr>Size := sz, Hash := me_Hash m, StartChunk := i + np, StartOffset := off,
    EndChunk := j + np, EndOffset := r\<rparr>"
  define el1 where "el1 = el\<lparr>modifiedEntryIndex := modifiedEntryIndex el + 1, uploadedChunkIndex := j\<rparr>"
  define el' where "el' = (if r = us ! nat j then el1\<lparr>uploadedChunkIndex := j + 1, uploadedChunkOffset := 0\<rparr>
    else el1\<lparr>uploadedChunkOffset := r\<rparr>)"
  have i_lt: "i < int (length us)" using j by simp
  have fill: "fillEntry e el = Inr (Inr (Some e'), el')"
    using m i j(1,2) inv loop
    by (simp add: fillEntry_def Let_def defs e'_def el1_def el'_def fill_inv_def)
  have start: "chunk_pos (all_lengths el) (i + np) off = sum_list (PreservedChunkLengths el) + chunk_pos us i off"
    using chunk_pos_append [OF i(1)] by (simp add: all_lengths_def np_def us_def)
  have "chunk_pos (all_lengths el) (j + np) r = sum_list (PreservedChunkLengths el) + chunk_pos us j r"
    using chunk_pos_append [of j] i(1) j(1) by (simp add: all_lengths_def np_def us_def)
  then have len: "chunk_pos (all_lengths el) (j + np) r - chunk_pos (all_lengths el) (i + np) off = sz"
    using start j(5) by (simp add: chunk_pos_def)
  have nth: "all_lengths el ! nat (k + np) = us ! nat k" if "0 \<le> k" for k
    using that by (simp add: all_lengths_def np_def us_def nat_add_distrib nth_append)
  have "spans (all_lengths el) e'"
    using i(1-3) i_lt j len nth [of i] nth [of j]
    by (simp add: spans_def e'_def) (simp add: all_lengths_def np_def us_def)
  moreover have "upload_pos el' = upload_pos el + sz"
    using j i chunk_pos_next [of j us]
    by (auto simp: upload_pos_def el'_def el1_def defs) (simp_all add: chunk_pos_def)
  moreover have "fill_inv el'"
    using inv i j by (auto simp: fill_inv_def el'_def el1_def defs)
  moreover have "same_chunks el el'" "modifiedEntryIndex el' = modifiedEntryIndex el + 1"
    by (auto simp: same_chunks_def el'_def el1_def)
  ultimately show ?thesis
    using fill start pos by (intro exI [of _ e'] exI [of _ el']) (auto simp: e'_def defs)
qed

text \<open>What reading a list has to deliver. The files modified since the last backup, in the order of
  the list, occupy consecutive ranges of the chunks from position \<open>pos\<close> on; a modified file that was
  skipped during the upload (its recorded size is not positive) is left out; every other entry comes
  out as it is.\<close>

fun placed :: "int list \<Rightarrow> int \<Rightarrow> entry list \<Rightarrow> modified_entry list \<Rightarrow> entry list \<Rightarrow> bool" where
  "placed ls pos [] ms out \<longleftrightarrow> ms = [] \<and> out = []"
| "placed ls pos (e # es) ms out \<longleftrightarrow>
     (if IsComplete e
      then (case out of [] \<Rightarrow> False | f # out \<Rightarrow> f = e \<and> placed ls pos es ms out)
      else (case ms of [] \<Rightarrow> False
        | m # ms \<Rightarrow>
            if me_Size m \<le> 0 then placed ls pos es ms out
            else (case out of [] \<Rightarrow> False
              | f # out \<Rightarrow>
                  f = e\<lparr>Size := me_Size m, Hash := me_Hash m, StartChunk := StartChunk f,
                        StartOffset := StartOffset f, EndChunk := EndChunk f, EndOffset := EndOffset f\<rparr> \<and>
                  spans ls f \<and> chunk_pos ls (StartChunk f) (StartOffset f) = pos \<and>
                  placed ls (pos + me_Size m) es ms out)))"

definition uploaded_sizes :: "modified_entry list \<Rightarrow> int" where
  "uploaded_sizes ms = sum_list (map (\<lambda>m. max 0 (me_Size m)) ms)"

definition acceptable :: "int list \<Rightarrow> entry \<Rightarrow> bool" where
  "acceptable ls e \<longleftrightarrow> (IsFile e \<and> 0 < Size e \<longrightarrow> spans ls e)"

definition collect :: "entry list callback" where
  "collect e out = Inr (None, out @ [e])"

lemma uploaded_sizes_simps [simp]:
  "uploaded_sizes [] = 0" "uploaded_sizes (m # ms) = max 0 (me_Size m) + uploaded_sizes ms"
  by (simp_all add: uploaded_sizes_def)

lemma uploaded_sizes_nonneg: "0 \<le> uploaded_sizes ms"
  by (induction ms) auto

lemma same_chunks_fields:
  assumes "same_chunks el el'"
  shows "all_lengths el' = all_lengths el" "UploadedChunkLengths el' = UploadedChunkLengths el"
    "PreservedChunkLengths el' = PreservedChunkLengths el" "ModifiedEntries el' = ModifiedEntries el"
    "entries el' = entries el" "onDiskFile el' = onDiskFile el"
proof -
  obtain a b c where "el' = el\<lparr>modifiedEntryIndex := a, uploadedChunkIndex := b, uploadedChunkOffset := c\<rparr>"
    using assms unfolding same_chunks_def by blast
  then show "all_lengths el' = all_lengths el" "UploadedChunkLengths el' = UploadedChunkLengths el"
    "PreservedChunkLengths el' = PreservedChunkLengths el" "ModifiedEntries el' = ModifiedEntries el"
    "entries el' = entries el" "onDiskFile el' = onDiskFile el"
    by (simp_all add: all_lengths_def)
qed

lemma checkAndSend_collect:
  "acceptable (all_lengths el) e \<Longrightarrow> 0 \<le> Size e \<Longrightarrow>
   checkAndSend collect e el out = Inr (False, None, el, out @ [e])"
  using checkEntry_result [of el e] by (auto simp: checkAndSend_def collect_def acceptable_def)

lemma current_modified:
  assumes "drop (nat (modifiedEntryIndex el)) (ModifiedEntries el) = m # ms" and "0 \<le> modifiedEntryIndex el"
  shows "modifiedEntryIndex el < int (length (ModifiedEntries el))"
    "ModifiedEntries el ! nat (modifiedEntryIndex el) = m"
    "drop (nat (modifiedEntryIndex el + 1)) (ModifiedEntries el) = ms"
proof -
  let ?k = "nat (modifiedEntryIndex el)"
  have "?k < length (ModifiedEntries el)"
    using assms(1) by (metis drop_all list.distinct(1) not_le)
  then show "modifiedEntryIndex el < int (length (ModifiedEntries el))"
    "ModifiedEntries el ! ?k = m"
    using assms by (auto simp: Cons_nth_drop_Suc [symmetric])
  show "drop (nat (modifiedEntryIndex el + 1)) (ModifiedEntries el) = ms"
    using assms by (simp add: nat_add_distrib drop_Suc drop_tl)
qed

lemma fillEntry_skip:
  assumes "fill_inv el" and "drop (nat (modifiedEntryIndex el)) (ModifiedEntries el) = m # ms"
    and "me_Path m = Path e" and "me_Size m \<le> 0"
  shows "fillEntry e el = Inr (Inr None, el\<lparr>modifiedEntryIndex := modifiedEntryIndex el + 1\<rparr>)"
  using assms current_modified [OF assms(2)] by (simp add: fillEntry_def fill_inv_def)

lemma read_entries_placed:
  assumes "fill_inv el" and "drop (nat (modifiedEntryIndex el)) (ModifiedEntries el) = ms"
    and "list_all (\<lambda>e. IsComplete e \<longrightarrow> acceptable (all_lengths el) e) es"
    and "map Path (filter (\<lambda>e. \<not> IsComplete e) es) = map me_Path ms"
    and "upload_pos el + uploaded_sizes ms \<le> sum_list (UploadedChunkLengths el)"
  shows "\<exists>el' out. read_entries collect es el acc = Inr (None, el', acc @ out) \<and>
    placed (all_lengths el) (sum_list (PreservedChunkLengths el) + upload_pos el) es ms out"
  using assms
proof (induction es arbitrary: el ms acc)
  case (Cons e es)
  show ?case
  proof (cases "IsComplete e")
    case True
    then have "checkAndSend collect e el acc = Inr (False, None, el, acc @ [e])"
      using Cons.prems(3) by (intro checkAndSend_collect) (auto simp: IsComplete_def)
    moreover from Cons.IH [OF Cons.prems(1,2), of "acc @ [e]"] Cons.prems(3-5) True
    obtain el' out where "read_entries collect es el (acc @ [e]) = Inr (None, el', (acc @ [e]) @ out)"
      "placed (all_lengths el) (sum_list (PreservedChunkLengths el) + upload_pos el) es ms out" by auto
    ultimately show ?thesis
      using True by (intro exI [of _ el'] exI [of _ "e # out"]) (simp add: fillAndSendEntry_def)
  next
    case inc: False
    with Cons.prems(4) obtain m ms' where ms: "ms = m # ms'" "me_Path m = Path e"
      "map Path (filter (\<lambda>e. \<not> IsComplete e) es) = map me_Path ms'" by (cases ms) auto
    have k: "0 \<le> modifiedEntryIndex el" using Cons.prems(1) by (simp add: fill_inv_def)
    note cur = current_modified [OF Cons.prems(2) [unfolded ms(1)] k]
    show ?thesis
    proof (cases "me_Size m \<le> 0")
      case True
      let ?el = "el\<lparr>modifiedEntryIndex := modifiedEntryIndex el + 1\<rparr>"
      have fill: "fillEntry e el = Inr (Inr None, ?el)"
        using fillEntry_skip Cons.prems(1,2) ms True by blast
      have same: "all_lengths ?el = all_lengths el" "upload_pos ?el = upload_pos el"
        by (simp_all add: all_lengths_def upload_pos_def)
      have "\<exists>el' out. read_entries collect es ?el acc = Inr (None, el', acc @ out) \<and>
          placed (all_lengths ?el) (sum_list (PreservedChunkLengths ?el) + upload_pos ?el) es ms' out"
        by (rule Cons.IH) (use Cons.prems ms True cur(3) same in \<open>auto simp: fill_inv_def\<close>)
      with fill inc ms True same show ?thesis by (simp add: fillAndSendEntry_def)
    next
      case False
      have "upload_pos el + me_Size m \<le> sum_list (UploadedChunkLengths el)"
        using Cons.prems(5) ms(1) uploaded_sizes_nonneg [of ms'] False by simp
      with False fillEntry_place [OF Cons.prems(1) cur(1,2) ms(2)] obtain f el1 where
        fill: "fillEntry e el = Inr (Inr (Some f), el1)" and f: "spans (all_lengths el) f"
          "f = e\<lparr>Size := me_Size m, Hash := me_Hash m, StartChunk := StartChunk f, StartOffset := StartOffset f,
             EndChunk := EndChunk f, EndOffset := EndOffset f\<rparr>"
          "chunk_pos (all_lengths el) (StartChunk f) (StartOffset f)
             = sum_list (PreservedChunkLengths el) + upload_pos el"
        and el1: "fill_inv el1" "same_chunks el el1" "modifiedEntryIndex el1 = modifiedEntryIndex el + 1"
          "upload_pos el1 = upload_pos el + me_Size m" by auto
      note same = same_chunks_fields [OF el1(2)]
      have "Size f = me_Size m" by (subst f(2)) simp
      with False f(1) have send: "checkAndSend collect f el1 acc = Inr (False, None, el1, acc @ [f])"
        by (intro checkAndSend_collect) (auto simp: acceptable_def same)
      have "\<exists>el' out. read_entries collect es el1 (acc @ [f]) = Inr (None, el', (acc @ [f]) @ out) \<and>
          placed (all_lengths el1) (sum_list (PreservedChunkLengths el1) + upload_pos el1) es ms' out"
        by (rule Cons.IH) (use Cons.prems ms False cur(3) same el1 in \<open>auto simp: add.commute\<close>)
      then obtain el' out where "read_entries collect es el1 (acc @ [f]) = Inr (None, el', acc @ f # out)"
        "placed (all_lengths el) (sum_list (PreservedChunkLengths el) + upload_pos el + me_Size m) es ms' out"
        by (auto simp: same el1 add.assoc)
      with fill send inc ms False f show ?thesis
        by (intro exI [of _ el'] exI [of _ "f # out"]) (simp add: fillAndSendEntry_def)
    qed
  qed
qed simp

text \<open>The lists that the backup reads: each modified file is recorded, in order; the lengths of all
  chunks are known; the uploaded chunks hold at least the bytes of the uploaded files.\<close>

definition backed :: "entry_list \<Rightarrow> bool" where
  "backed el \<longleftrightarrow> length (PreservedChunkHashes el) = length (PreservedChunkLengths el) \<and>
     list_all (\<lambda>l. 0 < l) (UploadedChunkLengths el) \<and>
     list_all (\<lambda>e. IsComplete e \<longrightarrow> acceptable (all_lengths el) e) (entries el) \<and>
     map Path (filter (\<lambda>e. \<not> IsComplete e) (entries el)) = map me_Path (ModifiedEntries el) \<and>
     uploaded_sizes (ModifiedEntries el) \<le> sum_list (UploadedChunkLengths el)"

text \<open>C32: reading an in-memory entry list in which the uploaded chunks cover the modified files
  succeeds, and the modified files it delivers lie back to back in the uploaded chunks, each with
  the recorded size and hash and a chunk range of exactly that size, in list order after the
  preserved chunks; skipped files are left out and all other entries are unchanged.\<close>

theorem ReadEntries_placed:
  assumes "onDiskFile el = None" and "backed el"
  shows "\<exists>el' out. ReadEntries mp sha256 collect el [] = Some (Inr (None, el', out)) \<and>
    placed (all_lengths el) (sum_list (PreservedChunkLengths el)) (entries el) (ModifiedEntries el) out"
proof -
  let ?el = "reset_indices el"
  have same: "all_lengths ?el = all_lengths el" "upload_pos ?el = 0"
    "PreservedChunkLengths ?el = PreservedChunkLengths el" "ModifiedEntries ?el = ModifiedEntries el"
    "UploadedChunkLengths ?el = UploadedChunkLengths el" "modifiedEntryIndex ?el = 0"
    "entries ?el = entries el" "onDiskFile ?el = None"
    using assms(1) by (simp_all add: reset_indices_def all_lengths_def upload_pos_def chunk_pos_def)
  have "fill_inv ?el"
    using assms(2) by (auto simp: fill_inv_def reset_indices_def backed_def list_all_iff)
  then have "\<exists>el' out. read_entries collect (entries el) ?el [] = Inr (None, el', [] @ out) \<and>
    placed (all_lengths ?el) (sum_list (PreservedChunkLengths ?el) + upload_pos ?el) (entries el)
      (ModifiedEntries el) out"
    by (rule read_entries_placed) (use assms(2) in \<open>simp_all add: same backed_def\<close>)
  then show ?thesis by (simp add: ReadEntries_def Let_def same)
qed

definition sample_list :: entry_list where
  "sample_list = empty_list\<lparr>
     entries := [CreateEntry ''a'' 3 0 0x1A4, CreateEntry ''b'' (-1) 0 0x1A4, CreateEntry ''c'' (-1) 0 0x1A4,
                 CreateEntry ''d'' (-1) 0 0x1A4] [0 := (CreateEntry ''a'' 3 0 0x1A4)\<lparr>EndOffset := 3\<rparr>],
     ModifiedEntries := [\<lparr>me_Path = ''b'', me_Size = 6, me_Hash = ''x''\<rparr>,
       \<lparr>me_Path = ''c'', me_Size = -1, me_Hash = []\<rparr>, \<lparr>me_Path = ''d'', me_Size = 2, me_Hash = ''y''\<rparr>],
     PreservedChunkHashes := [''p''], PreservedChunkLengths := [3],
     UploadedChunkHashes := [''u'', ''v''], UploadedChunkLengths := [4, 4]\<rparr>"

theorem ReadEntries_placed_witness:
  "\<exists>el' out. ReadEntries sample_msgpack id collect sample_list [] = Some (Inr (None, el', out)) \<and>
    placed (all_lengths sample_list) (sum_list (PreservedChunkLengths sample_list)) (entries sample_list)
      (ModifiedEntries sample_list) out"
  by (rule ReadEntries_placed)
     (simp_all add: sample_list_def empty_list_def backed_def acceptable_def spans_def chunk_pos_def
       all_lengths_def CreateEntry_def IsComplete_def IsFile_def mode_defs)

section \<open>Lists on disk\<close>

text \<open>The entry that \<open>AddEntry\<close> stores: an incomplete entry that is not a file becomes complete.\<close>

definition added :: "entry \<Rightarrow> entry" where
  "added e = (if \<not> IsComplete e \<and> \<not> IsFile e then e\<lparr>Size := 0\<rparr> else e)"

definition stored :: "msgpack \<Rightarrow> (bytes \<Rightarrow> bytes) \<Rightarrow> entry_list \<Rightarrow> entry list \<Rightarrow> bool" where
  "stored mp sha256 el es \<longleftrightarrow>
     (case onDiskFile el of None \<Rightarrow> entries el = es
      | Some disk \<Rightarrow> bind_res (EncodeString mp (Token el) []) (encode_entries mp sha256 es) = Inr disk)"

definition add_entries :: "msgpack \<Rightarrow> (bytes \<Rightarrow> bytes) \<Rightarrow> entry list \<Rightarrow> entry_list \<Rightarrow> entry_list" where
  "add_entries mp sha256 es el = fold (\<lambda>e el. snd (AddEntry mp sha256 None e el)) es el"

lemma encode_entries_append:
  "encode_entries mp sha256 (es @ fs) out =
     bind_res (encode_entries mp sha256 es out) (encode_entries mp sha256 fs)"
  by (induction es arbitrary: out) (auto simp: bind_res_def split: sum.splits)

lemma encodable_added: "encodable e \<Longrightarrow> encodable (added e)"
  by (auto simp: added_def encodable_def int64_def)

lemma encode_entries_total:
  assumes "msgpack_ok mp" and "list_all encodable es"
  shows "\<exists>w. \<forall>out. encode_entries mp sha256 es out = Inr (out @ w)"
  using assms(2)
proof (induction es)
  case (Cons e es)
  then obtain v w where "\<And>out. EncodeWithHash mp sha256 e out = Inr (out @ v)"
    "\<And>out. encode_entries mp sha256 es out = Inr (out @ w)"
    using with_hash_roundtrip [OF assms(1), of e sha256] by auto
  then show ?case by (intro exI [of _ "v @ w"]) simp
qed (auto intro: exI [of _ "[]"])

lemma EncodeString_total:
  "msgpack_ok mp \<Longrightarrow> \<exists>w. EncodeString mp v [] = Inr w \<and> (\<forall>r. DecodeString mp (w @ r) = Inr (v, r))"
  by (erule msgpack_okE) (metis append_Nil)

lemma createOnDiskFile_stored:
  assumes "msgpack_ok mp" and "list_all encodable (entries el)"
  shows "\<exists>disk. createOnDiskFile mp sha256 None el = (None, el\<lparr>onDiskFile := Some disk\<rparr>) \<and>
     bind_res (EncodeString mp (Token el) []) (encode_entries mp sha256 (entries el)) = Inr disk"
  using EncodeString_total [OF assms(1), of "Token el"] encode_entries_total [OF assms, of sha256]
  by (auto simp: createOnDiskFile_def)

lemma AddEntry_stored:
  assumes "msgpack_ok mp" and "encodable e" and "list_all encodable es" and "stored mp sha256 el es"
  shows "\<exists>el'. AddEntry mp sha256 None e el = (None, el') \<and> stored mp sha256 el' (es @ [added e]) \<and>
     Token el' = Token el"
proof -
  define el1 where "el1 = (let el = (if IsFile e then el\<lparr>NumberOfEntries := NumberOfEntries el + 1\<rparr> else el)
    in (if \<not> IsComplete e \<and> IsFile e then el\<lparr>ModifiedEntries := ModifiedEntries el @
                          [\<lparr>me_Path = Path e, me_Size = -1, me_Hash = []\<rparr>]\<rparr> else el))"
  have el1: "onDiskFile el1 = onDiskFile el" "Token el1 = Token el" "entries el1 = entries el"
    by (auto simp: el1_def Let_def)
  have add: "AddEntry mp sha256 None e el = (case onDiskFile el1 of
           Some out \<Rightarrow> (case EncodeWithHash mp sha256 (added e) out of
                Inl err \<Rightarrow> (Some err, el1) | Inr out \<Rightarrow> (None, el1\<lparr>onDiskFile := Some out\<rparr>))
         | None \<Rightarrow> let el = el1\<lparr>entries := entries el1 @ [added e]\<rparr>
             in if 0 \<le> maximumInMemoryEntries el \<and> maximumInMemoryEntries el < int (length (entries el))
                then createOnDiskFile mp sha256 None el else (None, el))"
    unfolding AddEntry_def Let_def el1_def added_def by simp
  note enc = encodable_added [OF assms(2)]
  show ?thesis
  proof (cases "onDiskFile el")
    case None
    then have "entries el = es" using assms(4) by (simp add: stored_def)
    moreover from this createOnDiskFile_stored [OF assms(1), of "el1\<lparr>entries := entries el1 @ [added e]\<rparr>" sha256]
    obtain disk where "createOnDiskFile mp sha256 None (el1\<lparr>entries := entries el1 @ [added e]\<rparr>)
        = (None, el1\<lparr>entries := entries el1 @ [added e], onDiskFile := Some disk\<rparr>)"
      "bind_res (EncodeString mp (Token el) []) (encode_entries mp sha256 (es @ [added e])) = Inr disk"
      using assms(3) enc by (auto simp: el1)
    ultimately show ?thesis
      using None by (auto simp: add el1 stored_def Let_def)
  next
    case (Some disk)
    from with_hash_roundtrip [OF assms(1) enc, of sha256] obtain w where
      w: "\<And>out. EncodeWithHash mp sha256 (added e) out = Inr (out @ w)" by blast
    from Some assms(4) have "bind_res (EncodeString mp (Token el) []) (encode_entries mp sha256 es) = Inr disk"
      by (simp add: stored_def)
    then have "bind_res (EncodeString mp (Token el) []) (encode_entries mp sha256 (es @ [added e])) = Inr (disk @ w)"
      by (auto simp: bind_res_Inr_iff encode_entries_append w)
    with Some w show ?thesis by (auto simp: add el1 stored_def)
  qed
qed

lemma add_entries_stored:
  assumes "msgpack_ok mp" and "list_all encodable es" and "list_all encodable fs" and "stored mp sha256 el fs"
  shows "stored mp sha256 (add_entries mp sha256 es el) (fs @ map added es) \<and>
    Token (add_entries mp sha256 es el) = Token el"
  using assms
proof (induction es arbitrary: el fs)
  case (Cons e es)
  from Cons.prems AddEntry_stored [OF assms(1), of e fs sha256 el] obtain el' where
    el': "AddEntry mp sha256 None e el = (None, el')" "stored mp sha256 el' (fs @ [added e])"
    "Token el' = Token el" by auto
  with Cons.IH [of "fs @ [added e]" el'] Cons.prems show ?case
    by (simp add: add_entries_def encodable_added)
qed (simp add: add_entries_def)

subsection \<open>Reading does not depend on where the entries are\<close>

definition moved :: "entry_list \<Rightarrow> entry_list \<Rightarrow> entry_list" where
  "moved el0 el = el0\<lparr>ModifiedEntries := ModifiedEntries el, UploadedChunkHashes := UploadedChunkHashes el,
     UploadedChunkLengths := UploadedChunkLengths el, PreservedChunkHashes := PreservedChunkHashes el,
     PreservedChunkLengths := PreservedChunkLengths el, modifiedEntryIndex := modifiedEntryIndex el,
     uploadedChunkIndex := uploadedChunkIndex el, uploadedChunkOffset := uploadedChunkOffset el\<rparr>"

lemma moved_fields [simp]:
  "ModifiedEntries (moved el0 el) = ModifiedEntries el" "modifiedEntryIndex (moved el0 el) = modifiedEntryIndex el"
  "UploadedChunkLengths (moved el0 el) = UploadedChunkLengths el"
  "PreservedChunkHashes (moved el0 el) = PreservedChunkHashes el"
  "PreservedChunkLengths (moved el0 el) = PreservedChunkLengths el"
  "uploadedChunkIndex (moved el0 el) = uploadedChunkIndex el"
  "uploadedChunkOffset (moved el0 el) = uploadedChunkOffset el"
  "(moved el0 el)\<lparr>modifiedEntryIndex := i\<rparr> = moved el0 (el\<lparr>modifiedEntryIndex := i\<rparr>)"
  "(moved el0 el)\<lparr>uploadedChunkIndex := i\<rparr> = moved el0 (el\<lparr>uploadedChunkIndex := i\<rparr>)"
  "(moved el0 el)\<lparr>uploadedChunkOffset := i\<rparr> = moved el0 (el\<lparr>uploadedChunkOffset := i\<rparr>)"
  by (simp_all add: moved_def)

lemma checkEntry_moved [simp]: "checkEntry (moved el0 el) e = checkEntry el e"
proof -
  have "getChunkLength (moved el0 el) = getChunkLength el" by (rule ext) (simp add: getChunkLength_def)
  then show ?thesis by (simp only: checkEntry_def moved_fields)
qed

lemma fillEntry_moved:
  "fillEntry e (moved el0 el) = bind_res (fillEntry e el) (\<lambda>(f, el). Inr (f, moved el0 el))"
  by (auto simp: fillEntry_def Let_def bind_res_def split: sum.splits)

lemma fillAndSendEntry_moved:
  "fillAndSendEntry out e (moved el0 el) s =
     bind_res (fillAndSendEntry out e el s) (\<lambda>(skipped, err, el, s). Inr (skipped, err, moved el0 el, s))"
  by (auto simp: fillAndSendEntry_def checkAndSend_def fillEntry_moved bind_res_def
      split: sum.splits option.splits prod.splits)

lemma read_entries_moved:
  "read_entries out es (moved el0 el) s =
     bind_res (read_entries out es el s) (\<lambda>(err, el, s). Inr (err, moved el0 el, s))"
proof (induction es arbitrary: el s)
  case (Cons e es)
  then show ?case
    by (cases "fillAndSendEntry out e el s") (auto simp: fillAndSendEntry_moved)
qed simp

text \<open>The observable result of a reading: the error returned and the state of the callback.\<close>

definition outcome :: "(goerror option \<times> entry_list \<times> 's) res \<Rightarrow> (goerror option \<times> 's) res" where
  "outcome r = bind_res r (\<lambda>(err, el, s). Inr (err, s))"

lemma outcome_moved: "outcome (read_entries out es (moved el0 el) s) = outcome (read_entries out es el s)"
  by (cases "read_entries out es el s") (auto simp: outcome_def read_entries_moved)

lemma read_disk_encoded:
  assumes "msgpack_ok mp" and "list_all encodable es"
  shows "\<exists>w. (\<forall>out. encode_entries mp sha256 es out = Inr (out @ w)) \<and>
     (\<forall>n el s. length w < n \<longrightarrow>
        read_disk mp sha256 n entryOut w el s = Some (read_entries entryOut (map decoded_form es) el s))"
  using assms(2)
proof (induction es)
  case Nil
  have "read_disk mp sha256 n entryOut [] el s = Some (Inr (None, el, s))" if "0 < n" for n el s
    using that by (cases n) auto
  then show ?case by (intro exI [of _ "[]"]) auto
next
  case (Cons e es)
  then obtain w where w: "\<And>out. encode_entries mp sha256 es out = Inr (out @ w)"
    "\<And>n el s. length w < n \<Longrightarrow>
      read_disk mp sha256 n entryOut w el s = Some (read_entries entryOut (map decoded_form es) el s)"
    by auto
  from Cons.prems with_hash_roundtrip [OF assms(1), of e sha256] obtain v where
    v: "v \<noteq> []" "\<And>out. EncodeWithHash mp sha256 e out = Inr (out @ v)"
      "\<And>r. DecodeEntryWithHash mp sha256 (v @ r) = Inr (decoded_form e, r)" by auto
  have "read_disk mp sha256 n entryOut (v @ w) el s =
      Some (read_entries entryOut (map decoded_form (e # es)) el s)" if "length (v @ w) < n" for n el s
  proof (cases n)
    case (Suc k)
    with that v(1) have "length w < k" by (cases v) auto
    with Suc v w(2) show ?thesis
      by (cases "fillAndSendEntry entryOut (decoded_form e) el s") (auto split: prod.splits)
  qed (use that in simp)
  with w(1) v(2) show ?case by (intro exI [of _ "v @ w"]) simp
qed

lemma ReadEntries_stored:
  assumes "msgpack_ok mp" and "list_all encodable es" and "stored mp sha256 el es"
  shows "ReadEntries mp sha256 entryOut el s = Some (read_entries entryOut
     (if onDiskFile el = None then es else map decoded_form es) (reset_indices el) s)"
proof (cases "onDiskFile el")
  case None
  then show ?thesis using assms(3) by (simp add: ReadEntries_def stored_def reset_indices_def)
next
  case (Some disk)
  from EncodeString_total [OF assms(1), of "Token el"] obtain t where
    t: "EncodeString mp (Token el) [] = Inr t" "\<And>r. DecodeString mp (t @ r) = Inr (Token el, r)" by blast
  from read_disk_encoded [OF assms(1,2), of sha256 entryOut] obtain w where
    w: "\<And>out. encode_entries mp sha256 es out = Inr (out @ w)"
       "\<And>n el s. length w < n \<Longrightarrow>
          read_disk mp sha256 n entryOut w el s = Some (read_entries entryOut (map decoded_form es) el s)"
    by blast
  have "disk = t @ w" using assms(3) Some t w by (simp add: stored_def)
  then show ?thesis
    using Some t(2) w(2) [of "Suc (length w)"]
    by (simp del: read_disk.simps add: ReadEntries_def Let_def reset_indices_def)
qed

lemma decoded_form_added: "decoded_form e = e \<Longrightarrow> decoded_form (added e) = added e"
  by (cases e) (auto simp: decoded_form_def added_def IsComplete_def IsFile_def split: option.splits list.splits)

definition normal_entries :: "entry list \<Rightarrow> bool" where
  "normal_entries es \<longleftrightarrow> list_all (\<lambda>e. encodable e \<and> decoded_form e = e) es"

lemma ReadEntries_added:
  fixes filled :: "entry_list \<Rightarrow> entry_list"
  assumes "msgpack_ok mp" and "normal_entries es"
    and "CreateEntryList snapshotID (Inr token) limit = Inr el"
    and filled: "\<And>el. onDiskFile (filled el) = onDiskFile el" "\<And>el. Token (filled el) = Token el"
      "\<And>el. entries (filled el) = entries el"
  shows "ReadEntries mp sha256 entryOut (filled (add_entries mp sha256 es el)) s =
    Some (read_entries entryOut (map added es) (reset_indices (filled (add_entries mp sha256 es el))) s)"
proof -
  have es: "list_all encodable es" "map decoded_form (map added es) = map added es"
    using assms(2) decoded_form_added by (auto simp: normal_entries_def list_all_iff)
  have "stored mp sha256 el []"
    using assms(3) by (auto simp: stored_def CreateEntryList_def empty_list_def)
  then have "stored mp sha256 (filled (add_entries mp sha256 es el)) (map added es)"
    using add_entries_stored [OF assms(1) es(1), of "[]" sha256 el]
    by (simp add: stored_def filled split: option.splits)
  moreover have "list_all encodable (map added es)"
    using es(1) by (auto simp: list_all_iff encodable_added)
  moreover have "(if c then map added es else map decoded_form (map added es)) = map added es" for c
    by (cases c) (simp_all only: es(2) if_True if_False)
  ultimately show ?thesis by (simp only: ReadEntries_stored [OF assms(1)])
qed

text \<open>C33: moving the entries to disk, whenever the limit on entries in memory is reached, does not
  change what is read back: with the same records of modified files and chunks, whatever they are,
  a list filled under any limit delivers the same entries to the callback and ends with the same
  error as the list filled without a limit, which stays in memory; and reading it ends.\<close>

theorem ReadEntries_disk_memory:
  fixes ms :: "modified_entry list" and uh ph :: "string list" and ul pl :: "int list"
  assumes "msgpack_ok mp" and "normal_entries es"
    and "CreateEntryList snapshotID (Inr token) limit = Inr el"
    and "CreateEntryList snapshotID (Inr token) (-1) = Inr el0"
  defines "filled \<equiv> \<lambda>el. el\<lparr>ModifiedEntries := ms, UploadedChunkHashes := uh, UploadedChunkLengths := ul,
     PreservedChunkHashes := ph, PreservedChunkLengths := pl\<rparr>"
  shows "\<exists>r. map_option outcome (ReadEntries mp sha256 entryOut (filled (add_entries mp sha256 es el)) s) = Some r \<and>
             map_option outcome (ReadEntries mp sha256 entryOut (filled (add_entries mp sha256 es el0)) s) = Some r"
proof -
  have filled: "onDiskFile (filled x) = onDiskFile x" "Token (filled x) = Token x" "entries (filled x) = entries x"
    for x by (simp_all add: filled_def)
  note added = ReadEntries_added [where filled = filled, OF assms(1,2) _ filled]
  have "reset_indices (filled a) = moved (filled a) (reset_indices (filled b))" for a b
    by (simp add: reset_indices_def filled_def moved_def)
  then have "outcome (read_entries entryOut es (reset_indices (filled a)) s)
      = outcome (read_entries entryOut es (reset_indices (filled b)) s)" for a b es
    by (metis outcome_moved)
  then show ?thesis by (auto simp: added [OF assms(3)] added [OF assms(4)])
qed

theorem ReadEntries_disk_memory_witness:
  "let es = [(CreateEntry ''a'' 3 0 0x1A4)\<lparr>EndOffset := 3\<rparr>, CreateEntry ''b'' (-1) 0 0x1A4];
       fresh = (\<lambda>limit. empty_list\<lparr>SnapshotID := ''id'', maximumInMemoryEntries := limit, Token := ''tok''\<rparr>);
       filled = (\<lambda>el. el\<lparr>ModifiedEntries := [\<lparr>me_Path = ''b'', me_Size = 2, me_Hash = ''h''\<rparr>],
         UploadedChunkHashes := [''u''], UploadedChunkLengths := [4],
         PreservedChunkHashes := [''p''], PreservedChunkLengths := [3]\<rparr>)
   in \<exists>r. map_option outcome (ReadEntries sample_msgpack id collect
              (filled (add_entries sample_msgpack id es (fresh 1))) []) = Some r \<and>
          map_option outcome (ReadEntries sample_msgpack id collect
              (filled (add_entries sample_msgpack id es (fresh (-1)))) []) = Some r"
  unfolding Let_def
  by (rule ReadEntries_disk_memory [OF sample_msgpack_ok, where limit = 1])
     (simp_all add: normal_entries_def encodable_def decoded_form_def CreateEntry_def int64_def CreateEntryList_def)

section \<open>Uploads that complete in any order\<close>

lemma extend_to_length: "length (extend_to i x xs) = max (Suc i) (length xs)"
  by (simp add: extend_to_def)

lemma extend_to_nth:
  "k < length (extend_to i x xs) \<Longrightarrow> extend_to i x xs ! k = (if k < length xs then xs ! k else x)"
  by (auto simp: extend_to_def nth_append)

lemma set_at_commute:
  assumes "i \<noteq> j"
  shows "(extend_to i x ((extend_to j x xs)[j := b]))[i := a] = (extend_to j x ((extend_to i x xs)[i := a]))[j := b]"
proof (rule nth_equalityI)
  fix k
  assume "k < length ((extend_to i x ((extend_to j x xs)[j := b]))[i := a])"
  then have k: "k < max (Suc i) (max (Suc j) (length xs))" by (simp add: extend_to_length)
  then show "(extend_to i x ((extend_to j x xs)[j := b]))[i := a] ! k
      = (extend_to j x ((extend_to i x xs)[i := a]))[j := b] ! k"
    using assms by (auto simp: nth_list_update extend_to_nth extend_to_length)
qed (auto simp: extend_to_length)

lemma AddUploadedChunk_commute:
  "i \<noteq> j \<Longrightarrow> AddUploadedChunk i h m (AddUploadedChunk j g n el) = AddUploadedChunk j g n (AddUploadedChunk i h m el)"
  using set_at_commute [of i j "[]" "UploadedChunkHashes el" g h]
    set_at_commute [of i j 0 "UploadedChunkLengths el" n m]
  by (simp add: AddUploadedChunk_def)

lemma AddUploadedChunk_in_order:
  "fold (\<lambda>(i, h, n). AddUploadedChunk i h n) (zip [length hs0..<length hs0 + length cs] cs)
     (el\<lparr>UploadedChunkHashes := hs0, UploadedChunkLengths := ns0\<rparr>)
   = el\<lparr>UploadedChunkHashes := hs0 @ map fst cs, UploadedChunkLengths := ns0 @ map snd cs\<rparr>"
  if "length ns0 = length hs0"
  using that
proof (induction cs arbitrary: hs0 ns0)
  case (Cons c cs)
  obtain h n where c: "c = (h, n)" by force
  have "zip [length hs0..<length hs0 + length (c # cs)] (c # cs) =
      (length hs0, c) # zip [length (hs0 @ [h])..<length (hs0 @ [h]) + length cs] cs"
    by (simp add: upt_conv_Cons del: upt_Suc)
  moreover have "AddUploadedChunk (length hs0) h n (el\<lparr>UploadedChunkHashes := hs0, UploadedChunkLengths := ns0\<rparr>)
      = el\<lparr>UploadedChunkHashes := hs0 @ [h], UploadedChunkLengths := ns0 @ [n]\<rparr>"
    using Cons.prems
    by (simp add: AddUploadedChunk_def extend_to_def) (metis Cons.prems append_Nil2 list_update_length)
  ultimately show ?case using Cons.IH [of "ns0 @ [n]" "hs0 @ [h]"] Cons.prems c by simp
qed simp

text \<open>The uploader threads may report their chunks in any order; as long as every chunk index
  is reported once, the list ends up with the hashes and lengths of the chunks in the order of
  their indices.\<close>

theorem AddUploadedChunk_any_order:
  assumes "UploadedChunkHashes el = []" and "UploadedChunkLengths el = []"
    and "mset events = mset (zip [0..<length cs] cs)"
  shows "fold (\<lambda>(i, h, n). AddUploadedChunk i h n) events el
    = el\<lparr>UploadedChunkHashes := map fst cs, UploadedChunkLengths := map snd cs\<rparr>"
proof -
  let ?add = "\<lambda>(i, h, n). AddUploadedChunk i h n"
  have "fold ?add events = fold ?add (zip [0..<length cs] cs)"
  proof (rule fold_multiset_equiv [OF _ assms(3)])
    fix x y
    assume "x \<in> set events" "y \<in> set events"
    then have "x \<in> set (zip [0..<length cs] cs)" "y \<in> set (zip [0..<length cs] cs)"
      using assms(3) mset_eq_setD by blast+
    then have "x = y \<or> fst x \<noteq> fst y" by (auto simp: set_zip)
    then show "?add x \<circ> ?add y = ?add y \<circ> ?add x"
      by (cases x; cases y) (auto simp: fun_eq_iff AddUploadedChunk_commute)
  qed
  moreover have "el = el\<lparr>UploadedChunkHashes := [], UploadedChunkLengths := []\<rparr>"
    using assms(1,2) by (cases el) simp
  ultimately show ?thesis
    using AddUploadedChunk_in_order [of "[]" "[]" cs el] by simp
qed

theorem AddUploadedChunk_any_order_witness:
  "fold (\<lambda>(i, h, n). AddUploadedChunk i h n) [(2, ''c'', 7), (0, ''a'', 5), (1, ''b'', 6)] empty_list
   = empty_list\<lparr>UploadedChunkHashes := [''a'', ''b'', ''c''], UploadedChunkLengths := [5, 6, 7]\<rparr>"
  using AddUploadedChunk_any_order [of empty_list "[(2, ''c'', 7), (0, ''a'', 5), (1, ''b'', 6)]"
      "[(''a'', 5), (''b'', 6), (''c'', 7)]"]
  by (simp add: empty_list_def upt_rec)

section \<open>Resuming an incomplete backup\<close>

text \<open>The msgpack encoder writes the exported fields of a struct; decoding them into a new struct
  leaves the others at their zero values.\<close>

definition exported :: "entry_list \<Rightarrow> entry_list" where
  "exported el = el\<lparr>onDiskFile := None, entries := [], maximumInMemoryEntries := 0, modifiedEntryIndex := 0,
     uploadedChunkIndex := 0, uploadedChunkOffset := 0\<rparr>"

definition list_codec_ok :: "(entry_list \<Rightarrow> goerror + bytes) \<Rightarrow> (bytes \<Rightarrow> goerror + entry_list) \<Rightarrow> entry_list \<Rightarrow> bool" where
  "list_codec_ok encode_list decode_list el \<longleftrightarrow>
     (case encode_list el of Inl _ \<Rightarrow> False | Inr w \<Rightarrow> decode_list w = Inr (exported el))"

definition no_load_faults :: load_faults where
  "no_load_faults = \<lparr>open_list_error = None, open_disk_error = None\<rparr>"

definition uploaded_prefix :: "entry_list \<Rightarrow> nat" where
  "uploaded_prefix el = length (takeWhile (\<lambda>h. h \<noteq> []) (UploadedChunkHashes el))"

lemma CalculateChecksum_cong:
  "UploadedChunkHashes el = UploadedChunkHashes el' \<Longrightarrow> UploadedChunkLengths el = UploadedChunkLengths el' \<Longrightarrow>
   PreservedChunkHashes el = PreservedChunkHashes el' \<Longrightarrow> PreservedChunkLengths el = PreservedChunkLengths el' \<Longrightarrow>
   ModifiedEntries el = ModifiedEntries el' \<Longrightarrow> CalculateChecksum sha256 el = CalculateChecksum sha256 el'"
  by (simp add: CalculateChecksum_def)

lemma cut_uploaded_result:
  assumes "length (UploadedChunkHashes el) = length (UploadedChunkLengths el)"
  shows "cut_uploaded el = Inr (el\<lparr>UploadedChunkHashes := take (uploaded_prefix el) (UploadedChunkHashes el),
     UploadedChunkLengths := take (uploaded_prefix el) (UploadedChunkLengths el)\<rparr>)"
proof -
  have "uploaded_prefix el \<le> length (UploadedChunkHashes el)"
    by (simp add: uploaded_prefix_def length_takeWhile_le)
  with assms show ?thesis
    by (cases el) (auto simp: cut_uploaded_def Let_def uploaded_prefix_def)
qed

lemma stored_token:
  assumes "msgpack_ok mp" and "list_all encodable es" and "stored mp sha256 el es" and "onDiskFile el = Some disk"
  shows "\<exists>r. DecodeString mp disk = Inr (Token el, r)"
proof -
  from EncodeString_total [OF assms(1), of "Token el"] obtain t where
    "EncodeString mp (Token el) [] = Inr t" "\<And>r. DecodeString mp (t @ r) = Inr (Token el, r)" by blast
  moreover from encode_entries_total [OF assms(1,2), of sha256] obtain w where
    "\<And>out. encode_entries mp sha256 es out = Inr (out @ w)" by blast
  ultimately show ?thesis using assms(3,4) by (auto simp: stored_def)
qed

text \<open>C34: a list that was on disk when the backup was interrupted is loaded by the next backup with
  the entries, the modified files and the preserved chunks it was saved with, and with the uploaded
  chunks up to the first one whose upload had not completed.\<close>

theorem load_saved_snapshot:
  assumes "msgpack_ok mp" and "list_all encodable es" and "stored mp sha256 el es"
    and "onDiskFile el = Some disk"
    and "length (UploadedChunkHashes el) = length (UploadedChunkLengths el)"
    and "list_codec_ok encode_list decode_list (el\<lparr>Checksum := CalculateChecksum sha256 el\<rparr>)"
    and "SaveIncompleteSnapshot mp sha256 encode_list no_save_faults el fs = (el', fs')"
  shows "loadIncompleteSnapshot mp sha256 decode_list no_load_faults fs' = Inr (Some
    ((exported el)\<lparr>onDiskFile := Some disk, Checksum := CalculateChecksum sha256 el,
       UploadedChunkHashes := take (uploaded_prefix el) (UploadedChunkHashes el),
       UploadedChunkLengths := take (uploaded_prefix el) (UploadedChunkLengths el)\<rparr>))"
proof -
  let ?el = "el\<lparr>Checksum := CalculateChecksum sha256 el\<rparr>"
  from assms(6) obtain w where w: "encode_list ?el = Inr w" "decode_list w = Inr (exported ?el)"
    by (auto simp: list_codec_ok_def split: sum.splits)
  then have fs': "fs' ''incomplete_snapshot'' = Some disk" "fs' ''incomplete_chunks'' = Some w"
    using assms(4,7) by (auto simp: SaveIncompleteSnapshot_def Let_def no_save_faults_def split: if_splits)
  from stored_token [OF assms(1-4)] obtain r where r: "DecodeString mp disk = Inr (Token el, r)" ..
  have "CalculateChecksum sha256 (exported ?el) = Checksum (exported ?el)"
    by (simp add: exported_def CalculateChecksum_def)
  moreover have "cut_uploaded ((exported ?el)\<lparr>onDiskFile := Some disk\<rparr>) = Inr ((exported el)\<lparr>onDiskFile := Some disk,
      Checksum := CalculateChecksum sha256 el,
      UploadedChunkHashes := take (uploaded_prefix el) (UploadedChunkHashes el),
      UploadedChunkLengths := take (uploaded_prefix el) (UploadedChunkLengths el)\<rparr>)"
    by (subst cut_uploaded_result) (use assms(5) in \<open>simp_all add: exported_def uploaded_prefix_def\<close>)
  ultimately show ?thesis
    using fs' w r by (simp add: loadIncompleteSnapshot_def no_load_faults_def) (simp add: exported_def)
qed

definition sample_disk_list :: entry_list where
  "sample_disk_list = (add_entries sample_msgpack id [CreateEntry ''a'' 0 0 0x1A4]
       (empty_list\<lparr>Token := ''tok''\<rparr>))
     \<lparr>UploadedChunkHashes := [''u'', [], ''w''], UploadedChunkLengths := [4, 0, 5]\<rparr>"

theorem load_saved_snapshot_witness:
  "\<exists>disk. onDiskFile sample_disk_list = Some disk \<and>
    (let el = sample_disk_list;
         encode_list = (\<lambda>_. Inr [1]);
         decode_list = (\<lambda>_. Inr (exported (el\<lparr>Checksum := CalculateChecksum id el\<rparr>)))
     in loadIncompleteSnapshot sample_msgpack id decode_list no_load_faults
          (snd (SaveIncompleteSnapshot sample_msgpack id encode_list no_save_faults el Map.empty)) =
        Inr (Some ((exported el)\<lparr>onDiskFile := Some disk, Checksum := CalculateChecksum id el,
          UploadedChunkHashes := [''u''], UploadedChunkLengths := [4]\<rparr>)))"
proof -
  let ?es = "[CreateEntry ''a'' 0 0 0x1A4]"
  let ?el = "empty_list\<lparr>Token := ''tok''\<rparr>"
  have enc: "list_all encodable ?es" by (simp add: encodable_def CreateEntry_def int64_def)
  have "stored sample_msgpack id ?el []" by (simp add: stored_def empty_list_def)
  with add_entries_stored [OF sample_msgpack_ok enc, of "[]" id ?el]
  have "stored sample_msgpack id sample_disk_list (map added ?es)"
    by (simp add: stored_def sample_disk_list_def split: option.splits)
  moreover have enc': "list_all encodable (map added ?es)" using enc by (simp add: encodable_added)
  moreover have "onDiskFile sample_disk_list \<noteq> None"
    by (simp add: sample_disk_list_def add_entries_def AddEntry_def createOnDiskFile_def Let_def empty_list_def
        CreateEntry_def IsFile_def mode_defs IsComplete_def split: sum.splits)
  then obtain disk where "onDiskFile sample_disk_list = Some disk" by blast
  moreover have "list_codec_ok (\<lambda>_. Inr [1])
      (\<lambda>_. Inr (exported (sample_disk_list\<lparr>Checksum := CalculateChecksum id sample_disk_list\<rparr>)))
      (sample_disk_list\<lparr>Checksum := CalculateChecksum id sample_disk_list\<rparr>)"
    by (simp add: list_codec_ok_def)
  ultimately show ?thesis
    using load_saved_snapshot [OF sample_msgpack_ok enc' _ _ _ _ prod.collapse [symmetric], of id sample_disk_list disk]
    by (simp add: sample_disk_list_def uploaded_prefix_def)
qed

text \<open>A list that was still in memory when the backup was interrupted is saved with every entry
  twice: creating the on-disk file writes the entries, and \<open>SaveIncompleteSnapshot\<close> writes them
  again after it.\<close>

theorem SaveIncompleteSnapshot_memory_twice:
  assumes "msgpack_ok mp" and "list_all encodable (entries el)" and "onDiskFile el = None"
    and "SaveIncompleteSnapshot mp sha256 encode_list no_save_faults el fs = (el', fs')"
  shows "\<exists>disk. fs' ''incomplete_snapshot'' = Some disk \<and>
    bind_res (EncodeString mp (Token el) []) (encode_entries mp sha256 (entries el @ entries el)) = Inr disk"
proof -
  from createOnDiskFile_stored [OF assms(1,2), of sha256] obtain disk where
    disk: "createOnDiskFile mp sha256 None el = (None, el\<lparr>onDiskFile := Some disk\<rparr>)"
      "bind_res (EncodeString mp (Token el) []) (encode_entries mp sha256 (entries el)) = Inr disk" by blast
  from encode_entries_total [OF assms(1,2), of sha256] obtain w where
    w: "\<And>out. encode_entries mp sha256 (entries el) out = Inr (out @ w)" by blast
  have "fs' ''incomplete_snapshot'' = Some (disk @ w)"
    using assms(3,4) disk(1) w
    by (auto simp: SaveIncompleteSnapshot_def Let_def no_save_faults_def split: if_splits sum.splits)
  moreover have "bind_res (EncodeString mp (Token el) []) (encode_entries mp sha256 (entries el @ entries el))
      = Inr (disk @ w)"
    using disk(2) by (auto simp: bind_res_Inr_iff encode_entries_append w)
  ultimately show ?thesis by blast
qed

theorem SaveIncompleteSnapshot_memory_twice_witness:
  "let el = empty_list\<lparr>entries := [CreateEntry ''a'' 0 0 0x1A4]\<rparr>;
       fs' = snd (SaveIncompleteSnapshot sample_msgpack id (\<lambda>_. Inr [1]) no_save_faults el Map.empty)
   in \<exists>disk. fs' ''incomplete_snapshot'' = Some disk \<and>
      bind_res (EncodeString sample_msgpack (Token el) []) (encode_entries sample_msgpack id
        [CreateEntry ''a'' 0 0 0x1A4, CreateEntry ''a'' 0 0 0x1A4]) = Inr disk"
proof -
  let ?el = "empty_list\<lparr>entries := [CreateEntry ''a'' 0 0 0x1A4]\<rparr>"
  have "list_all encodable (entries ?el)" "onDiskFile ?el = None"
    by (simp_all add: encodable_def CreateEntry_def int64_def empty_list_def)
  from SaveIncompleteSnapshot_memory_twice [OF sample_msgpack_ok this prod.collapse [symmetric]]
  show ?thesis by (simp add: Let_def)
qed

end
