(* ===== verification/Config.thy ===== *)
theory Config
  imports Prelude
begin

text \<open>
  The storage configuration: \<open>duplicacy_config.go\<close> without the transfer of the config file.

  The hash functions are not part of the repository: a record \<open>hashes\<close> of them is an argument of
  every definition that uses one. A keyed BLAKE2b hasher refuses a key that is too long; this
  is the only failure of a hasher. A hasher is represented by the bytes written to it, its
  \<open>Sum\<close> by applying the function to them. RSA keys are opaque byte strings. The pool of free
  chunks (\<open>chunkPool\<close>) only saves allocations and is left out: \<open>GetChunk\<close> is a new chunk.

  Shown here: a storage created from another one is compatible with it, and a bit-identical one
  computes the same chunk ids; a config survives its JSON form.
\<close>

section \<open>The struct\<close>

record config =
  CompressionLevel :: int
  AverageChunkSize :: int
  MaximumChunkSize :: int
  MinimumChunkSize :: int
  ChunkSeed :: bytes
  FixedNesting :: bool
  HashKey :: bytes
  IDKey :: bytes
  ChunkKey :: bytes
  FileKey :: bytes
  DataShards :: int
  ParityShards :: int
  rsaPrivateKey :: "bytes option"
  rsaPublicKey :: "bytes option"
  dryRun :: bool

definition DEFAULT_KEY :: bytes where "DEFAULT_KEY = string_bytes ''duplicacy''"
definition DEFAULT_COMPRESSION_LEVEL :: int where "DEFAULT_COMPRESSION_LEVEL = 100"
definition ZSTD_COMPRESSION_LEVEL_FASTEST :: int where "ZSTD_COMPRESSION_LEVEL_FASTEST = 200"
definition ZSTD_COMPRESSION_LEVEL_DEFAULT :: int where "ZSTD_COMPRESSION_LEVEL_DEFAULT = 201"
definition ZSTD_COMPRESSION_LEVEL_BETTER :: int where "ZSTD_COMPRESSION_LEVEL_BETTER = 202"
definition ZSTD_COMPRESSION_LEVEL_BEST :: int where "ZSTD_COMPRESSION_LEVEL_BEST = 203"

lemmas level_defs = DEFAULT_COMPRESSION_LEVEL_def ZSTD_COMPRESSION_LEVEL_FASTEST_def
  ZSTD_COMPRESSION_LEVEL_DEFAULT_def ZSTD_COMPRESSION_LEVEL_BETTER_def ZSTD_COMPRESSION_LEVEL_BEST_def

definition zero_config :: config where
  "zero_config = \<lparr>CompressionLevel = 0, AverageChunkSize = 0, MaximumChunkSize = 0, MinimumChunkSize = 0,
     ChunkSeed = [], FixedNesting = False, HashKey = [], IDKey = [], ChunkKey = [], FileKey = [],
     DataShards = 0, ParityShards = 0, rsaPrivateKey = None, rsaPublicKey = None, dryRun = False\<rparr>"

definition CreateConfig :: config where
  "CreateConfig = zero_config\<lparr>HashKey := DEFAULT_KEY, IDKey := DEFAULT_KEY,
     CompressionLevel := DEFAULT_COMPRESSION_LEVEL\<rparr>"

definition IsCompatibleWith :: "config \<Rightarrow> config \<Rightarrow> bool" where
  "IsCompatibleWith c d \<longleftrightarrow>
     AverageChunkSize c = AverageChunkSize d \<and> MaximumChunkSize c = MaximumChunkSize d \<and>
     MinimumChunkSize c = MinimumChunkSize d \<and> ChunkSeed c = ChunkSeed d \<and> HashKey c = HashKey d"

text \<open>The keys are the 160 bytes delivered by \<open>rand.Read\<close>, or its error.\<close>

definition CreateConfigFromParameters ::
  "goerror + bytes \<Rightarrow> int \<Rightarrow> int \<Rightarrow> int \<Rightarrow> int \<Rightarrow> bool \<Rightarrow> config option \<Rightarrow> bool \<Rightarrow> config res" where
  "CreateConfigFromParameters random compressionLevel averageChunkSize maximumChunkSize
       mininumChunkSize isEncrypted copyFrom bitCopy =
     (let config = zero_config\<lparr>CompressionLevel := compressionLevel, AverageChunkSize := averageChunkSize,
            MaximumChunkSize := maximumChunkSize, MinimumChunkSize := mininumChunkSize, FixedNesting := True\<rparr>
      in bind_res
          (if isEncrypted then
             (case random of Inl err \<Rightarrow> Inl (LogError ''CONFIG_KEY'')
              | Inr keys \<Rightarrow> Inr (config\<lparr>ChunkSeed := take 32 keys, HashKey := take 32 (drop 32 keys),
                  IDKey := take 32 (drop 64 keys), ChunkKey := take 32 (drop 96 keys),
                  FileKey := drop 128 keys\<rparr>))
           else Inr (config\<lparr>ChunkSeed := DEFAULT_KEY, HashKey := DEFAULT_KEY, IDKey := DEFAULT_KEY\<rparr>))
          (\<lambda>config. Inr (case copyFrom of None \<Rightarrow> config
             | Some other \<Rightarrow>
                 let config = config\<lparr>AverageChunkSize := AverageChunkSize other,
                       MaximumChunkSize := MaximumChunkSize other, MinimumChunkSize := MinimumChunkSize other,
                       ChunkSeed := ChunkSeed other, HashKey := HashKey other\<rparr>
                 in if bitCopy then config\<lparr>CompressionLevel := CompressionLevel other, IDKey := IDKey other,
                        ChunkKey := ChunkKey other, FileKey := FileKey other\<rparr>
                    else config)))"

section \<open>Hashing\<close>

record hashes =
  blake2_keyed :: "bytes \<Rightarrow> (bytes \<Rightarrow> bytes) option"
  hmac_sha256 :: "bytes \<Rightarrow> bytes \<Rightarrow> bytes"
  blake2 :: "bytes \<Rightarrow> bytes"
  sha256 :: "bytes \<Rightarrow> bytes"

definition NewKeyedHasher :: "hashes \<Rightarrow> config \<Rightarrow> bytes \<Rightarrow> (bytes \<Rightarrow> bytes) res" where
  "NewKeyedHasher hs config key =
     (if DEFAULT_COMPRESSION_LEVEL \<le> CompressionLevel config then
        (case blake2_keyed hs key of None \<Rightarrow> Inl (LogError ''HASH_KEY'') | Some h \<Rightarrow> Inr h)
      else Inr (hmac_sha256 hs key))"

text \<open>\<open>skipFileHash\<close> is the variable \<open>SkipFileHash\<close>; the dummy hasher has an empty sum.\<close>

definition NewFileHasher :: "hashes \<Rightarrow> bool \<Rightarrow> config \<Rightarrow> bytes \<Rightarrow> bytes" where
  "NewFileHasher hs skipFileHash config =
     (if skipFileHash then (\<lambda>_. []) else if DEFAULT_COMPRESSION_LEVEL \<le> CompressionLevel config
      then blake2 hs else sha256 hs)"

definition GetChunkIDFromHash :: "hashes \<Rightarrow> config \<Rightarrow> bytes \<Rightarrow> string res" where
  "GetChunkIDFromHash hs config hash =
     bind_res (NewKeyedHasher hs config (IDKey config)) (\<lambda>h. Inr (hex_encode (h hash)))"

text \<open>A storage initialized as a copy of another one is compatible with it, whatever the other
  parameters are, so chunks can be copied between them; and a bit-identical copy names every chunk by
  the same id.\<close>

theorem copied_config_compatible:
  assumes "CreateConfigFromParameters random level avg maxi mini isEncrypted (Some other) bitCopy = Inr config"
  shows "IsCompatibleWith config other \<and>
    (bitCopy \<longrightarrow> (\<forall>h. GetChunkIDFromHash hs config h = GetChunkIDFromHash hs other h))"
  using assms
  by (auto simp: CreateConfigFromParameters_def Let_def IsCompatibleWith_def GetChunkIDFromHash_def
      NewKeyedHasher_def bind_res_Inr_iff)

theorem copied_config_compatible_witness:
  "\<exists>config. CreateConfigFromParameters (Inr (replicate 160 7)) 100 4 16 1 True (Some CreateConfig) True = Inr config \<and>
     IsCompatibleWith config CreateConfig \<and>
     (\<forall>h. GetChunkIDFromHash \<lparr>blake2_keyed = (\<lambda>k. Some (\<lambda>b. k)), hmac_sha256 = (\<lambda>k b. b), blake2 = id, sha256 = id\<rparr>
        config h = GetChunkIDFromHash \<lparr>blake2_keyed = (\<lambda>k. Some (\<lambda>b. k)), hmac_sha256 = (\<lambda>k b. b), blake2 = id, sha256 = id\<rparr>
        CreateConfig h)"
proof -
  obtain config where "CreateConfigFromParameters (Inr (replicate 160 7)) 100 4 16 1 True (Some CreateConfig) True = Inr config"
    by (simp add: CreateConfigFromParameters_def)
  with copied_config_compatible [OF this] show ?thesis by blast
qed

section \<open>The JSON form\<close>

text \<open>The struct handed to the JSON encoder: byte strings in hexadecimal, the public key in its PKIX
  form. The single quotes in the tags of \<open>DataShards\<close> and \<open>ParityShards\<close> are no valid tag, so these
  two are stored under their field names.\<close>

record jsonable_config =
  j_compression_level :: int
  j_average_chunk_size :: int
  j_max_chunk_size :: int
  j_min_chunk_size :: int
  j_fixed_nesting :: bool
  j_DataShards :: int
  j_ParityShards :: int
  j_chunk_seed :: string
  j_hash_key :: string
  j_id_key :: string
  j_chunk_key :: string
  j_file_key :: string
  j_rsa_public_key :: string

definition MarshalJSON_config :: "(bytes \<Rightarrow> bytes) \<Rightarrow> config \<Rightarrow> jsonable_config" where
  "MarshalJSON_config marshalPKIX config =
     \<lparr>j_compression_level = CompressionLevel config, j_average_chunk_size = AverageChunkSize config,
      j_max_chunk_size = MaximumChunkSize config, j_min_chunk_size = MinimumChunkSize config,
      j_fixed_nesting = FixedNesting config, j_DataShards = DataShards config,
      j_ParityShards = ParityShards config,
      j_chunk_seed = hex_encode (ChunkSeed config), j_hash_key = hex_encode (HashKey config),
      j_id_key = hex_encode (IDKey config), j_chunk_key = hex_encode (ChunkKey config),
      j_file_key = hex_encode (FileKey config),
      j_rsa_public_key = hex_encode (case rsaPublicKey config of None \<Rightarrow> [] | Some k \<Rightarrow> marshalPKIX k)\<rparr>"

definition decode_key :: "string \<Rightarrow> string \<Rightarrow> goerror + bytes" where
  "decode_key message s = (case hex_decode s of None \<Rightarrow> Inl (GoErr message) | Some b \<Rightarrow> Inr b)"

definition UnmarshalJSON_config ::
  "(bytes \<Rightarrow> goerror + bytes) \<Rightarrow> jsonable_config \<Rightarrow> config \<Rightarrow> goerror + config" where
  "UnmarshalJSON_config parsePKIX j config =
     (let config = config\<lparr>CompressionLevel := j_compression_level j, AverageChunkSize := j_average_chunk_size j,
        MaximumChunkSize := j_max_chunk_size j, MinimumChunkSize := j_min_chunk_size j,
        FixedNesting := j_fixed_nesting j, DataShards := j_DataShards j, ParityShards := j_ParityShards j\<rparr> in
      bind_res (decode_key ''Invalid representation of the chunk seed in the config'' (j_chunk_seed j)) (\<lambda>seed.
      bind_res (decode_key ''Invalid representation of the hash key in the config'' (j_hash_key j)) (\<lambda>hashKey.
      bind_res (decode_key ''Invalid representation of the id key in the config'' (j_id_key j)) (\<lambda>idKey.
      bind_res (decode_key ''Invalid representation of the chunk key in the config'' (j_chunk_key j)) (\<lambda>chunkKey.
      bind_res (decode_key ''Invalid representation of the file key in the config'' (j_file_key j)) (\<lambda>fileKey.
      let config = config\<lparr>ChunkSeed := seed, HashKey := hashKey, IDKey := idKey, ChunkKey := chunkKey,
            FileKey := fileKey\<rparr> in
      bind_res (decode_key ''Invalid hex encoding of the RSA public key in the config'' (j_rsa_public_key j)) (\<lambda>publicKey.
      if publicKey = [] then Inr config
      else case parsePKIX publicKey of
        Inl err \<Rightarrow> Inl (GoErr ''Invalid RSA public key in the config'')
      | Inr key \<Rightarrow> Inr (config\<lparr>rsaPublicKey := Some key\<rparr>))))))))"

text \<open>Reading the JSON form of a config into a new one restores every stored field, in
  particular all keys bit for bit; the private key and the dry-run flag, which are not stored, stay
  as they are.\<close>

theorem config_json_roundtrip:
  assumes "\<And>k. parsePKIX (marshalPKIX k) = Inr k" and "\<And>k. marshalPKIX k \<noteq> []"
    and "rsaPublicKey base = None"
  shows "UnmarshalJSON_config parsePKIX (MarshalJSON_config marshalPKIX config) base
    = Inr (config\<lparr>rsaPrivateKey := rsaPrivateKey base, dryRun := dryRun base\<rparr>)"
  using assms(3)
  by (cases config; cases base)
     (auto simp: UnmarshalJSON_config_def MarshalJSON_config_def decode_key_def assms(1,2) split: option.splits)

theorem config_json_roundtrip_witness:
  "let config = CreateConfig\<lparr>ChunkKey := [1, 255], rsaPublicKey := Some [3, 4]\<rparr>
   in UnmarshalJSON_config (\<lambda>b. Inr (tl b)) (MarshalJSON_config (Cons 48) config) CreateConfig = Inr config"
proof -
  have "UnmarshalJSON_config (\<lambda>b. Inr (tl b))
      (MarshalJSON_config (Cons 48) (CreateConfig\<lparr>ChunkKey := [1, 255], rsaPublicKey := Some [3, 4]\<rparr>)) CreateConfig =
    Inr ((CreateConfig\<lparr>ChunkKey := [1, 255], rsaPublicKey := Some [3, 4]\<rparr>)
      \<lparr>rsaPrivateKey := rsaPrivateKey CreateConfig, dryRun := dryRun CreateConfig\<rparr>)"
    by (rule config_json_roundtrip) (simp_all add: CreateConfig_def zero_config_def)
  then show ?thesis by (simp add: CreateConfig_def zero_config_def)
qed

end
