(* ===== verification/Chunk.thy ===== *)
theory Chunk
  imports Config
begin

text \<open>
  The chunk object: the struct of \<open>duplicacy_chunk.go\<close> and the operations on its plain content.
  Encryption, compression and erasure coding are in theory ChunkCodec.

  \<open>buffer\<close> is \<open>None\<close> for a chunk that only computes a hash. A running hasher is the pair of its key
  and the bytes written to it.
\<close>

record chunk =
  chunk_buffer :: "bytes option"
  chunk_size :: nat
  chunk_hasher :: "(bytes \<times> bytes) option"
  chunk_hash :: bytes
  chunk_id :: string
  chunk_isMetadata :: bool
  chunk_isBroken :: bool

definition CreateChunk :: "bool \<Rightarrow> chunk" where
  "CreateChunk bufferNeeded =
     \<lparr>chunk_buffer = (if bufferNeeded then Some [] else None), chunk_size = 0, chunk_hasher = None,
      chunk_hash = [], chunk_id = [], chunk_isMetadata = False, chunk_isBroken = False\<rparr>"

definition GetLength :: "chunk \<Rightarrow> nat" where
  "GetLength chunk = (case chunk_buffer chunk of Some b \<Rightarrow> length b | None \<Rightarrow> chunk_size chunk)"

definition GetBytes :: "chunk \<Rightarrow> bytes res" where
  "GetBytes chunk = (case chunk_buffer chunk of Some b \<Rightarrow> Inr b | None \<Rightarrow> Inl (Panic ''nil pointer dereference''))"

definition Reset :: "config \<Rightarrow> bool \<Rightarrow> chunk \<Rightarrow> chunk" where
  "Reset config hashNeeded chunk =
     chunk\<lparr>chunk_buffer := map_option (\<lambda>_. []) (chunk_buffer chunk),
           chunk_hasher := (if hashNeeded then Some (HashKey config, []) else None),
           chunk_hash := [], chunk_id := [], chunk_size := 0, chunk_isMetadata := False,
           chunk_isBroken := False\<rparr>"

definition chunk_Write :: "bytes \<Rightarrow> chunk \<Rightarrow> chunk" where
  "chunk_Write p chunk =
     (let chunk = (case chunk_buffer chunk of
             None \<Rightarrow> chunk\<lparr>chunk_size := chunk_size chunk + length p\<rparr>
           | Some b \<Rightarrow> chunk\<lparr>chunk_buffer := Some (b @ p)\<rparr>)
      in case chunk_hasher chunk of None \<Rightarrow> chunk
         | Some (key, written) \<Rightarrow> chunk\<lparr>chunk_hasher := Some (key, written @ p)\<rparr>)"

text \<open>\<open>chunk.hasher.Sum(nil)\<close>: a nil hasher panics.\<close>

definition hasher_Sum :: "hashes \<Rightarrow> config \<Rightarrow> chunk \<Rightarrow> bytes res" where
  "hasher_Sum hs config chunk =
     (case chunk_hasher chunk of None \<Rightarrow> Inl (Panic ''nil pointer dereference'')
      | Some (key, written) \<Rightarrow> bind_res (NewKeyedHasher hs config key) (\<lambda>h. Inr (h written)))"

definition GetHash :: "hashes \<Rightarrow> config \<Rightarrow> chunk \<Rightarrow> (bytes \<times> chunk) res" where
  "GetHash hs config chunk =
     bind_res (if chunk_hash chunk = [] then hasher_Sum hs config chunk else Inr (chunk_hash chunk)) (\<lambda>hash.
       Inr (hash, chunk\<lparr>chunk_hash := hash\<rparr>))"

definition GetID :: "hashes \<Rightarrow> config \<Rightarrow> chunk \<Rightarrow> (string \<times> chunk) res" where
  "GetID hs config chunk =
     (if chunk_id chunk = [] then
        bind_res (GetHash hs config chunk) (\<lambda>(hash, chunk).
        bind_res (NewKeyedHasher hs config (IDKey config)) (\<lambda>h.
          Inr (hex_encode (h hash), chunk\<lparr>chunk_id := hex_encode (h hash)\<rparr>)))
      else Inr (chunk_id chunk, chunk))"

definition VerifyID :: "hashes \<Rightarrow> config \<Rightarrow> chunk \<Rightarrow> chunk res" where
  "VerifyID hs config chunk =
     bind_res (NewKeyedHasher hs config (HashKey config)) (\<lambda>h.
     bind_res (GetBytes chunk) (\<lambda>b.
     bind_res (NewKeyedHasher hs config (IDKey config)) (\<lambda>g.
     bind_res (GetID hs config chunk) (\<lambda>(id, chunk).
       if hex_encode (g (h b)) \<noteq> id then Inl (LogError ''CHUNK_ID'') else Inr chunk))))"

section \<open>Content of a chunk\<close>

text \<open>The chunk has been reset and the bytes \<open>b\<close> written to it since.\<close>

definition holds :: "config \<Rightarrow> bytes \<Rightarrow> chunk \<Rightarrow> bool" where
  "holds config b chunk \<longleftrightarrow> chunk_hasher chunk = Some (HashKey config, b) \<and> chunk_hash chunk = [] \<and>
     chunk_id chunk = [] \<and>
     (case chunk_buffer chunk of Some c \<Rightarrow> c = b | None \<Rightarrow> chunk_size chunk = length b)"

lemma holds_Reset [simp]: "holds config [] (Reset config True chunk)"
  by (simp add: holds_def Reset_def split: option.splits)

lemma holds_Write: "holds config b chunk \<Longrightarrow> holds config (b @ p) (chunk_Write p chunk)"
  by (auto simp: holds_def chunk_Write_def split: option.splits)

lemma holds_length: "holds config b chunk \<Longrightarrow> GetLength chunk = length b"
  by (auto simp: holds_def GetLength_def split: option.splits)

lemma buffer_Write [simp]: "(chunk_buffer (chunk_Write p chunk) = None) = (chunk_buffer chunk = None)"
  by (auto simp: chunk_Write_def Let_def split: option.splits)

lemma buffer_Reset [simp]: "(chunk_buffer (Reset config h chunk) = None) = (chunk_buffer chunk = None)"
  by (simp add: Reset_def)

lemma holds_GetHash:
  assumes "holds config b chunk" and "NewKeyedHasher hs config (HashKey config) = Inr h"
  shows "GetHash hs config chunk = Inr (h b, chunk\<lparr>chunk_hash := h b\<rparr>)"
  using assms by (simp add: GetHash_def holds_def hasher_Sum_def)

text \<open>A chunk filled by resetting it and writing data to it in any number of pieces, with or
  without a buffer, has the hash of the concatenated data, its id is the one that
  \<open>GetChunkIDFromHash\<close> derives from that hash, its length is the length of the data, and a chunk with a
  buffer passes \<open>VerifyID\<close>.\<close>

theorem chunk_identity:
  fixes ps :: "bytes list" and bufferNeeded :: bool
  assumes "NewKeyedHasher hs config (HashKey config) = Inr h"
    and "NewKeyedHasher hs config (IDKey config) = Inr g"
  defines "chunk \<equiv> fold chunk_Write ps (Reset config True (CreateChunk bufferNeeded))"
  shows "(\<exists>c. GetHash hs config chunk = Inr (h (concat ps), c)) \<and>
    (\<exists>c i. GetID hs config chunk = Inr (i, c) \<and> GetChunkIDFromHash hs config (h (concat ps)) = Inr i) \<and>
    GetLength chunk = length (concat ps) \<and>
    (bufferNeeded \<longrightarrow> GetBytes chunk = Inr (concat ps) \<and> (\<exists>c. VerifyID hs config chunk = Inr c))"
proof -
  have "holds config (b @ concat ps) (fold chunk_Write ps c) \<and>
      (chunk_buffer (fold chunk_Write ps c) = None) = (chunk_buffer c = None)"
    if "holds config b c" for b c
    using that
  proof (induction ps arbitrary: b c)
    case (Cons p ps)
    from Cons.IH [OF holds_Write [OF Cons.prems, of p]] show ?case by simp
  qed simp
  from this [OF holds_Reset] have chunk: "holds config (concat ps) chunk" "(chunk_buffer chunk = None) = (\<not> bufferNeeded)"
    by (simp_all add: chunk_def CreateChunk_def)
  have "GetID hs config chunk = Inr (hex_encode (g (h (concat ps))),
      chunk\<lparr>chunk_hash := h (concat ps), chunk_id := hex_encode (g (h (concat ps)))\<rparr>)"
    using chunk(1) by (simp add: GetID_def holds_GetHash [OF _ assms(1)] assms(2)) (simp add: holds_def)
  with chunk assms(1,2) show ?thesis
    by (auto simp: holds_GetHash holds_length GetChunkIDFromHash_def GetBytes_def VerifyID_def holds_def split: option.splits)
qed

definition sample_hashes :: hashes where
  "sample_hashes = \<lparr>blake2_keyed = (\<lambda>k. if length k \<le> 64 then Some (\<lambda>b. [sum_list k + sum_list b]) else None),
     hmac_sha256 = (\<lambda>k b. [sum_list b]), blake2 = (\<lambda>b. [sum_list b]), sha256 = (\<lambda>b. [sum_list b])\<rparr>"

theorem chunk_identity_witness:
  "let chunk = fold chunk_Write [[1, 2], [], [3]] (Reset CreateConfig True (CreateChunk True));
       h = (\<lambda>b. [sum_list DEFAULT_KEY + sum_list b])
   in (\<exists>c. GetHash sample_hashes CreateConfig chunk = Inr (h [1, 2, 3], c)) \<and>
      GetBytes chunk = Inr [1, 2, 3] \<and> (\<exists>c. VerifyID sample_hashes CreateConfig chunk = Inr c)"
  using chunk_identity [of sample_hashes CreateConfig "\<lambda>b. [sum_list DEFAULT_KEY + sum_list b]"
      "\<lambda>b. [sum_list DEFAULT_KEY + sum_list b]" "[[1, 2], [], [3]]" True]
  by (simp add: sample_hashes_def CreateConfig_def zero_config_def NewKeyedHasher_def DEFAULT_KEY_def
      DEFAULT_COMPRESSION_LEVEL_def string_bytes_def)

end
