(* ===== verification/ChunkMaker.thy ===== *)
theory ChunkMaker
  imports Chunk
begin

text \<open>
  The chunk maker: \<open>duplicacy_chunkmaker.go\<close>.

  A reader is the list of the results of its \<open>Read\<close> calls: the bytes that arrive and the error that
  comes with them. A call with less room than the next piece takes what fits. At the end of the list
  every call returns \<open>io.EOF\<close>. The function \<open>sendChunk\<close> is represented by the list of
  chunks sent; the maker does not look at what it does. The sizes are natural numbers; where the
  code subtracts them the comment in the definition says why the difference is not negative.

  Shown here: the rolling hash is the hash of the window; the chunks the maker sends for a sequence
  of files are those of a reference definition that cuts the concatenated contents, so they
  do not depend on how the reads were split or where the files ended; the loops end; sizes of
  chunks stay within the configured bounds.
\<close>

section \<open>State\<close>

record maker =
  maximumChunkSize :: nat
  minimumChunkSize :: nat
  bufferCapacity :: nat
  hashMask :: "64 word"
  randomTable :: "64 word list"
  buffer :: bytes
  bufferSize :: nat
  bufferStart :: nat
  minimumReached :: bool
  hashSum :: "64 word"
  maker_chunk :: chunk
  hashOnly :: bool

text \<open>The loop that doubles \<open>size\<close> while it stays within the limit.\<close>

function double_size :: "int \<Rightarrow> int \<Rightarrow> int" where
  "double_size limit sz = (if 0 < sz \<and> sz * 2 \<le> limit then double_size limit (sz * 2) else sz)"
  by pat_completeness auto
termination
  by (relation "measure (\<lambda>(limit, sz). nat (limit - sz))") auto

declare double_size.simps [simp del]

definition power_of_2_floor :: "int \<Rightarrow> int" where
  "power_of_2_floor limit = double_size limit 1"

definition table_row :: "bytes \<Rightarrow> 64 word list" where
  "table_row randomData = map (\<lambda>j. of_nat (le_nat (take 8 (drop (8 * j) randomData)))) [0..<4]"

fun random_table :: "(bytes \<Rightarrow> bytes) \<Rightarrow> nat \<Rightarrow> bytes \<Rightarrow> 64 word list" where
  "random_table sha 0 randomData = []"
| "random_table sha (Suc n) randomData = table_row randomData @ random_table sha n (sha randomData)"

definition startNewChunk :: "config \<Rightarrow> maker \<Rightarrow> maker" where
  "startNewChunk config mk =
     mk\<lparr>hashSum := 0, minimumReached := False,
        maker_chunk := Reset config True (if hashOnly mk then maker_chunk mk else CreateChunk True)\<rparr>"

definition CreateFileChunkMaker :: "hashes \<Rightarrow> config \<Rightarrow> bool \<Rightarrow> maker res" where
  "CreateFileChunkMaker hs config hash_only =
     (if power_of_2_floor (AverageChunkSize config) \<noteq> AverageChunkSize config
      then Inl (LogFatal ''CHUNK_SIZE'')
      else if MinimumChunkSize config < 0 then Inl (Panic ''makeslice: len out of range'')
      else Inr (startNewChunk config
        \<lparr>maximumChunkSize = nat (MaximumChunkSize config), minimumChunkSize = nat (MinimumChunkSize config),
         bufferCapacity = 2 * nat (MinimumChunkSize config),
         hashMask = of_int (AverageChunkSize config - 1),
         randomTable = random_table (sha256 hs) 64 (sha256 hs (ChunkSeed config)),
         buffer = replicate (2 * nat (MinimumChunkSize config)) 0, bufferSize = 0, bufferStart = 0,
         minimumReached = False, hashSum = 0, maker_chunk = CreateChunk (\<not> hash_only),
         hashOnly = hash_only\<rparr>))"

definition CreateMetaDataChunkMaker :: "hashes \<Rightarrow> config \<Rightarrow> int \<Rightarrow> maker res" where
  "CreateMetaDataChunkMaker hs config chunkSize =
     (if power_of_2_floor chunkSize \<noteq> chunkSize then Inl (LogFatal ''CHUNK_SIZE'')
      else bind_res (CreateFileChunkMaker hs config False) (\<lambda>mk.
        Inr (mk\<lparr>hashMask := of_int (chunkSize - 1), maximumChunkSize := nat (chunkSize * 4),
                minimumChunkSize := nat (chunkSize div 4), bufferCapacity := 2 * nat (chunkSize div 4),
                buffer := replicate (2 * nat (chunkSize div 4)) 0\<rparr>)))"

section \<open>The rolling hash\<close>

definition rotateLeft :: "64 word \<Rightarrow> nat \<Rightarrow> 64 word" where
  "rotateLeft v bits = push_bit (bits mod 64) v OR drop_bit (64 - bits mod 64) v"

definition rotateLeftByOne :: "64 word \<Rightarrow> 64 word" where
  "rotateLeftByOne v = push_bit 1 v OR drop_bit 63 v"

text \<open>The table has an entry for every byte, so reading it never fails.\<close>

definition table_at :: "64 word list \<Rightarrow> byte \<Rightarrow> 64 word" where
  "table_at table b = table ! unat b"

fun buzhashSum :: "64 word list \<Rightarrow> 64 word \<Rightarrow> bytes \<Rightarrow> 64 word" where
  "buzhashSum table hsum [] = hsum"
| "buzhashSum table hsum (b # data) = buzhashSum table (rotateLeftByOne hsum XOR table_at table b) data"

definition buzhashUpdate :: "64 word list \<Rightarrow> 64 word \<Rightarrow> byte \<Rightarrow> byte \<Rightarrow> nat \<Rightarrow> 64 word" where
  "buzhashUpdate table hsum out inb len =
     rotateLeftByOne hsum XOR rotateLeft (table_at table out) len XOR table_at table inb"

section \<open>Adding data\<close>

text \<open>Move \<open>count\<close> bytes from the buffer to the chunk.\<close>

definition fill :: "nat \<Rightarrow> maker \<Rightarrow> maker res" where
  "fill count mk =
     (if bufferStart mk + count < bufferCapacity mk then
        bind_res (slice (buffer mk) (bufferStart mk) (bufferStart mk + count)) (\<lambda>data.
          Inr (mk\<lparr>maker_chunk := chunk_Write data (maker_chunk mk), bufferStart := bufferStart mk + count,
                  bufferSize := bufferSize mk - count\<rparr>))
      else
        let wrapped = count - (bufferCapacity mk - bufferStart mk) in
        bind_res (slice (buffer mk) (bufferStart mk) (length (buffer mk))) (\<lambda>data1.
        bind_res (slice (buffer mk) 0 wrapped) (\<lambda>data2.
          Inr (mk\<lparr>maker_chunk := chunk_Write data2 (chunk_Write data1 (maker_chunk mk)),
                  bufferStart := wrapped, bufferSize := bufferSize mk - count\<rparr>))))"

type_synonym reader = "(bytes \<times> goerror option) list"

definition reader_Read :: "nat \<Rightarrow> reader \<Rightarrow> bytes \<times> goerror option \<times> reader" where
  "reader_Read room rd =
     (case rd of [] \<Rightarrow> ([], Some EOF, [])
      | (bs, err) # rest \<Rightarrow>
          if length bs \<le> room then (bs, err, rest)
          else (take room bs, None, (drop room bs, err) # rest))"

definition reader_measure :: "reader \<Rightarrow> nat" where
  "reader_measure rd = sum_list (map (\<lambda>(bs, _). Suc (length bs)) rd)"

lemma reader_Read_measure:
  assumes "reader_Read room rd = (bs, err, rest)" and "err = None" and "0 < room"
  shows "reader_measure rest < reader_measure rd"
  using assms by (auto simp: reader_Read_def reader_measure_def split: list.splits if_splits)

text \<open>Store bytes that were read into \<open>buffer[start:]\<close>.\<close>

definition write_at :: "nat \<Rightarrow> bytes \<Rightarrow> bytes \<Rightarrow> bytes" where
  "write_at start bs buf = take start buf @ bs @ drop (start + length bs) buf"

text \<open>Where the free part of the circular buffer starts and how many bytes fit there.\<close>

definition free_part :: "maker \<Rightarrow> nat \<times> nat" where
  "free_part mk =
     (let start = bufferStart mk + bufferSize mk in
      if bufferCapacity mk \<le> start
      then (start - bufferCapacity mk, bufferStart mk - (start - bufferCapacity mk))
      else (start, bufferCapacity mk - start))"

lemma free_part_room:
  "free_part mk = (start, room) \<Longrightarrow> bufferSize mk < bufferCapacity mk \<Longrightarrow> 0 < room"
  by (auto simp: free_part_def Let_def split: if_splits)

text \<open>The inner loop that reads until the buffer is full or the reader ends. The result holds the
  maker, the reader, the bytes given to the file hasher (their number is \<open>fileSize\<close>) and
  \<open>isEOF\<close>.\<close>

function read_loop :: "maker \<Rightarrow> reader \<Rightarrow> bytes \<Rightarrow> (maker \<times> reader \<times> bytes \<times> bool) res" where
  "read_loop mk rd hashed =
     (if bufferSize mk < bufferCapacity mk then
        let (start, room) = free_part mk;
            (bs, err, rest) = reader_Read room rd
        in if err \<noteq> None \<and> err \<noteq> Some EOF then Inl (LogError ''CHUNK_MAKER'')
           else
             let mk = mk\<lparr>buffer := write_at start bs (buffer mk), bufferSize := bufferSize mk + length bs\<rparr>
             in if err = Some EOF then Inr (mk, rest, hashed @ bs, True)
                else read_loop mk rest (hashed @ bs)
      else Inr (mk, rd, hashed, False))"
  by pat_completeness auto
termination
proof (relation "measure (\<lambda>(mk, rd, _). reader_measure rd)", goal_cases)
  case (2 mk rd hashed x start room y bs z err rest mk')
  then have part: "free_part mk = (start, room)" and read: "reader_Read room rd = (bs, err, rest)"
    by simp_all
  have "err = None" using 2 by auto
  moreover have "0 < room" using free_part_room [OF part] 2 by simp
  ultimately show ?case using reader_Read_measure [OF read] by simp
qed simp

declare read_loop.simps [simp del]

text \<open>The loop that shifts the window one byte at a time. The result is the number of bytes to move
  to the chunk, whether a boundary was found, and the hash.
  \<open>i == maxSize - minimumChunkSize - 1\<close> with \<open>maxSize = maximumChunkSize - GetLength\<close> is
  written without subtraction.\<close>

function scan_loop :: "maker \<Rightarrow> nat \<Rightarrow> nat \<Rightarrow> nat \<Rightarrow> 64 word \<Rightarrow> (nat \<times> bool \<times> 64 word) res" where
  "scan_loop mk chunkLength bytes i hsum =
     (if i < bytes then
        let out = bufferStart mk + i;
            out = (if bufferCapacity mk \<le> out then out - bufferCapacity mk else out);
            inp = bufferStart mk + i + minimumChunkSize mk;
            inp = (if bufferCapacity mk \<le> inp then inp - bufferCapacity mk else inp)
        in bind_res (index_slice (buffer mk) (int out)) (\<lambda>b_out.
           bind_res (index_slice (buffer mk) (int inp)) (\<lambda>b_in.
             let hsum = buzhashUpdate (randomTable mk) hsum b_out b_in (minimumChunkSize mk)
             in if hsum AND hashMask mk = 0 \<or> chunkLength + i + minimumChunkSize mk + 1 = maximumChunkSize mk
                then Inr (i + 1 + minimumChunkSize mk, True, hsum)
                else scan_loop mk chunkLength bytes (Suc i) hsum))
      else Inr (bytes, False, hsum))"
  by pat_completeness auto
termination
  by (relation "measure (\<lambda>(mk, _, bytes, i, _). bytes - i)") auto

declare scan_loop.simps [simp del]

text \<open>The hash of the first \<open>minimumChunkSize\<close> bytes in the buffer.\<close>

definition minimum_hash :: "maker \<Rightarrow> 64 word res" where
  "minimum_hash mk =
     (let bytes = minimumChunkSize mk in
      if bufferStart mk + bytes < bufferCapacity mk then
        bind_res (slice (buffer mk) (bufferStart mk) (bufferStart mk + bytes)) (\<lambda>data.
          Inr (buzhashSum (randomTable mk) 0 data))
      else
        bind_res (slice (buffer mk) (bufferStart mk) (length (buffer mk))) (\<lambda>data1.
        bind_res (slice (buffer mk) 0 (bytes - (bufferCapacity mk - bufferStart mk))) (\<lambda>data2.
          Inr (buzhashSum (randomTable mk) (buzhashSum (randomTable mk) 0 data1) data2))))"

text \<open>One round of the outer loop ends the call with a result, or goes on.\<close>

datatype round = Done "int \<times> string" | Continue

text \<open>The rest of a round once the minimum size has been reached. \<open>nil\<close> says that the reader is nil.\<close>

definition scan_round ::
  "config \<Rightarrow> bool \<Rightarrow> bool \<Rightarrow> int \<times> string \<Rightarrow> maker \<Rightarrow> (round \<times> maker \<times> chunk list) res" where
  "scan_round config nil isEOF result mk =
     bind_res (scan_loop mk (GetLength (maker_chunk mk)) (bufferSize mk - minimumChunkSize mk) 0 (hashSum mk))
       (\<lambda>(bytes, isEOC, hsum).
     bind_res (fill bytes (mk\<lparr>hashSum := hsum\<rparr>)) (\<lambda>mk.
       if isEOC then
         Inr (if isEOF then Done result else Continue, startNewChunk config mk, [maker_chunk mk])
       else if nil then
         bind_res (fill (minimumChunkSize mk) mk) (\<lambda>mk.
           Inr (Done (0, []), startNewChunk config mk, [maker_chunk mk]))
       else Inr (if isEOF then Done result else Continue, mk, [])))"

text \<open>What follows the reading in a round.\<close>

definition process_buffer ::
  "config \<Rightarrow> (bytes \<Rightarrow> bytes) \<Rightarrow> bool \<Rightarrow> maker \<Rightarrow> bytes \<Rightarrow> bool \<Rightarrow> (round \<times> maker \<times> chunk list) res" where
  "process_buffer config fileHash nil mk hashed isEOF =
     (let result = (int (length hashed), hex_encode (fileHash hashed)) in
      if bufferSize mk < minimumChunkSize mk then
        if nil then
          bind_res (fill (bufferSize mk) mk) (\<lambda>mk.
            Inr (Done (0, []), mk, if 0 < GetLength (maker_chunk mk) then [maker_chunk mk] else []))
        else if isEOF then Inr (Done result, mk, [])
        else Inr (Continue, mk, [])
      else if minimumReached mk then scan_round config nil isEOF result mk
      else bind_res (minimum_hash mk) (\<lambda>hsum.
        let mk = mk\<lparr>hashSum := hsum\<rparr> in
        if hsum AND hashMask mk = 0 then
          bind_res (fill (minimumChunkSize mk) mk) (\<lambda>mk.
            Inr (Continue, startNewChunk config mk, [maker_chunk mk]))
        else scan_round config nil isEOF result (mk\<lparr>minimumReached := True\<rparr>)))"

text \<open>The outer loop for chunks of variable size. \<open>None\<close> means that the fuel did not suffice.\<close>

fun add_loop ::
  "config \<Rightarrow> (bytes \<Rightarrow> bytes) \<Rightarrow> nat \<Rightarrow> maker \<Rightarrow> reader option \<Rightarrow> bytes \<Rightarrow> bool \<Rightarrow> chunk list \<Rightarrow>
     ((int \<times> string) \<times> maker \<times> chunk list) res option" where
  "add_loop config fileHash 0 mk rd hashed isEOF sent = None"
| "add_loop config fileHash (Suc n) mk rd hashed isEOF sent =
     (case (case rd of None \<Rightarrow> Inr (mk, rd, hashed, isEOF)
            | Some r \<Rightarrow> if isEOF then Inr (mk, rd, hashed, isEOF)
                        else bind_res (read_loop mk r hashed) (\<lambda>(mk, r, hashed, isEOF).
                               Inr (mk, Some r, hashed, isEOF))) of
        Inl exn \<Rightarrow> Some (Inl exn)
      | Inr (mk, rd, hashed, isEOF) \<Rightarrow>
          (case process_buffer config fileHash (rd = None) mk hashed isEOF of
             Inl exn \<Rightarrow> Some (Inl exn)
           | Inr (Done result, mk, out) \<Rightarrow> Some (Inr (result, mk, sent @ out))
           | Inr (Continue, mk, out) \<Rightarrow> add_loop config fileHash n mk rd hashed isEOF (sent @ out)))"

text \<open>Chunks of a fixed size: the inner loop fills the front of the buffer.\<close>

function fixed_read :: "maker \<Rightarrow> reader \<Rightarrow> (maker \<times> reader \<times> bool) res" where
  "fixed_read mk rd =
     (if bufferStart mk < minimumChunkSize mk then
        let (bs, err, rest) = reader_Read (minimumChunkSize mk - bufferStart mk) rd in
        if err \<noteq> None \<and> err \<noteq> Some EOF then Inl (LogError ''CHUNK_MAKER'')
        else
          let mk = mk\<lparr>buffer := write_at (bufferStart mk) bs (buffer mk), bufferStart := bufferStart mk + length bs\<rparr>
          in if err = Some EOF then Inr (mk, rest, True) else fixed_read mk rest
      else Inr (mk, rd, False))"
  by pat_completeness auto
termination
proof (relation "measure (\<lambda>(mk, rd). reader_measure rd)", goal_cases)
  case (2 mk rd x bs y err rest mk')
  then have read: "reader_Read (minimumChunkSize mk - bufferStart mk) rd = (bs, err, rest)" "err = None"
    by auto
  then show ?case using reader_Read_measure [OF read] 2 by simp
qed simp

declare fixed_read.simps [simp del]

fun fixed_loop ::
  "config \<Rightarrow> (bytes \<Rightarrow> bytes) \<Rightarrow> nat \<Rightarrow> maker \<Rightarrow> reader \<Rightarrow> bytes \<Rightarrow> chunk list \<Rightarrow>
     ((int \<times> string) \<times> maker \<times> chunk list) res option" where
  "fixed_loop config fileHash 0 mk rd hashed sent = None"
| "fixed_loop config fileHash (Suc n) mk rd hashed sent =
     (case fixed_read ((startNewChunk config mk)\<lparr>bufferStart := 0\<rparr>) rd of
        Inl exn \<Rightarrow> Some (Inl exn)
      | Inr (mk, rd, isEOF) \<Rightarrow>
          (case slice (buffer mk) 0 (bufferStart mk) of
             Inl exn \<Rightarrow> Some (Inl exn)
           | Inr data \<Rightarrow>
               let hashed = hashed @ data;
                   mk = (if 0 < bufferStart mk then mk\<lparr>maker_chunk := chunk_Write data (maker_chunk mk)\<rparr> else mk);
                   sent = (if 0 < bufferStart mk then sent @ [maker_chunk mk] else sent)
               in if isEOF then Some (Inr ((int (length hashed), hex_encode (fileHash hashed)), mk, sent))
                  else fixed_loop config fileHash n mk rd hashed sent))"

text \<open>\<open>AddData\<close>: the returned pair, the maker, and the chunks sent. The fuel covers one round for
  every byte that is buffered or still to be read, and for every \<open>Read\<close> result.\<close>

definition add_fuel :: "maker \<Rightarrow> reader option \<Rightarrow> nat" where
  "add_fuel mk rd = bufferSize mk + (case rd of None \<Rightarrow> 0 | Some r \<Rightarrow> reader_measure r) + 2"

definition AddData ::
  "config \<Rightarrow> (bytes \<Rightarrow> bytes) \<Rightarrow> maker \<Rightarrow> reader option \<Rightarrow> ((int \<times> string) \<times> maker \<times> chunk list) res option" where
  "AddData config fileHash mk rd =
     (if minimumChunkSize mk = maximumChunkSize mk then
        (case rd of None \<Rightarrow> Some (Inr ((0, []), mk, []))
         | Some r \<Rightarrow> fixed_loop config fileHash (add_fuel mk rd) mk r [] [])
      else add_loop config fileHash (add_fuel mk rd) mk rd [] False [])"

section \<open>The rolling hash is the hash of the window\<close>

lemma bit_rotateLeft:
  "bit (rotateLeft v n) k \<longleftrightarrow> k < 64 \<and> bit v ((k + (64 - n mod 64)) mod 64)"
proof (cases "k < 64")
  case True
  define m where "m = n mod 64"
  have m: "m < 64" by (simp add: m_def)
  have "bit v ((k + (64 - m)) mod 64) \<longleftrightarrow> (if m \<le> k then bit v (k - m) else bit v (k + 64 - m))"
  proof (cases "m \<le> k")
    case le: True
    then have "k + (64 - m) = (k - m) + 64" using m by simp
    then have "(k + (64 - m)) mod 64 = k - m" using True by (metis mod_add_self2 mod_less less_imp_diff_less)
    with le show ?thesis by simp
  next
    case False
    then have "(k + (64 - m)) mod 64 = k + 64 - m" using m by simp
    with False show ?thesis by simp
  qed
  moreover have "bit (rotateLeft v n) k \<longleftrightarrow> (if m \<le> k then bit v (k - m) else bit v (k + 64 - m))"
    using True m bit_imp_le_length [of v "k + 64 - m"] bit_imp_le_length [of v "64 - m + k"]
    by (auto simp: rotateLeft_def bit_or_iff bit_push_bit_iff bit_drop_bit_eq m_def [symmetric] add.commute)
  ultimately show ?thesis using True by (simp add: m_def)
next
  case False
  then show ?thesis using bit_imp_le_length [of "rotateLeft v n" k] by auto
qed

lemma rotateLeftByOne_eq: "rotateLeftByOne v = rotateLeft v 1"
  by (simp add: rotateLeftByOne_def rotateLeft_def)

lemma rotateLeft_xor: "rotateLeft (a XOR b) n = rotateLeft a n XOR rotateLeft b n"
  by (rule bit_eqI) (auto simp: bit_rotateLeft bit_xor_iff)

lemma rotateLeft_0 [simp]: "rotateLeft v 0 = v"
  by (rule bit_eqI) (auto simp: bit_rotateLeft dest: bit_imp_le_length)

lemma rotateLeft_zero [simp]: "rotateLeft 0 n = 0"
  by (simp add: rotateLeft_def)

lemma rotateLeft_Suc: "rotateLeft (rotateLeft v n) 1 = rotateLeft v (Suc n)"
proof (rule bit_word_eqI)
  fix k
  assume k: "k < LENGTH(64)"
  have "((k + 63) mod 64 + (64 - n mod 64)) mod 64 = (k + (64 - Suc n mod 64)) mod 64"
  proof -
    have "((k + 63) mod 64 + (64 - n mod 64)) mod 64 = (k + 63 + (64 - n mod 64)) mod 64"
      by (rule mod_add_left_eq)
    moreover have "(k + (64 - Suc n mod 64)) mod 64 = (k + 63 + (64 - n mod 64)) mod 64"
    proof (cases "n mod 64 = 63")
      case True
      then have "Suc n mod 64 = 0" by (simp add: mod_Suc)
      with True show ?thesis by simp
    next
      case False
      have lt: "n mod 64 < 64" by simp
      have "Suc n mod 64 = Suc (n mod 64)" using False by (simp add: mod_Suc)
      moreover have "64 - n mod 64 = Suc (64 - Suc (n mod 64))" using lt by linarith
      ultimately have "k + 63 + (64 - n mod 64) = (k + (64 - Suc n mod 64)) + 64" using lt by linarith
      then show ?thesis by (metis mod_add_self2)
    qed
    ultimately show ?thesis by simp
  qed
  with k show "bit (rotateLeft (rotateLeft v n) 1) k = bit (rotateLeft v (Suc n)) k"
    by (simp add: bit_rotateLeft)
qed

lemmas rotateLeft_Suc' [simp] = rotateLeft_Suc [unfolded One_nat_def]

lemma buzhashSum_append: "buzhashSum t h (xs @ ys) = buzhashSum t (buzhashSum t h xs) ys"
  by (induction xs arbitrary: h) auto

lemma buzhashSum_start: "buzhashSum t h xs = rotateLeft h (length xs) XOR buzhashSum t 0 xs"
proof (induction xs rule: rev_induct)
  case (snoc x xs)
  then show ?case
    by (simp add: buzhashSum_append rotateLeftByOne_eq rotateLeft_xor rotateLeft_Suc xor.assoc)
qed simp

lemma buzhash_shift:
  "buzhashUpdate t (buzhashSum t 0 (a # w)) a b (Suc (length w)) = buzhashSum t 0 (w @ [b])"
proof -
  have "buzhashSum t 0 (a # w) = rotateLeft (table_at t a) (length w) XOR buzhashSum t 0 w"
    using buzhashSum_start [of t "table_at t a" w] by (simp add: rotateLeftByOne_eq)
  then show ?thesis
    by (simp add: buzhashUpdate_def buzhashSum_append rotateLeftByOne_eq rotateLeft_xor rotateLeft_Suc
        xor.assoc [symmetric])
       (simp add: xor.assoc xor.left_commute)
qed

text \<open>Shifting the window by one byte: updating the hash by the byte that leaves and the one that
  enters gives the hash of the new window, for windows of any length.\<close>

theorem buzhashUpdate_window:
  "buzhashUpdate t (buzhashSum t 0 (a # w)) a b (Suc (length w)) = buzhashSum t 0 (w @ [b])"
  by (rule buzhash_shift)

section \<open>The circular buffer\<close>

text \<open>The bytes in the buffer, in the order in which they were read.\<close>

definition buffered :: "maker \<Rightarrow> bytes" where
  "buffered mk = map (\<lambda>i. buffer mk ! ((bufferStart mk + i) mod bufferCapacity mk)) [0..<bufferSize mk]"

definition buf_ok :: "maker \<Rightarrow> bool" where
  "buf_ok mk \<longleftrightarrow> 0 < minimumChunkSize mk \<and> bufferCapacity mk = 2 * minimumChunkSize mk \<and>
     length (buffer mk) = bufferCapacity mk \<and> bufferStart mk < bufferCapacity mk \<and>
     bufferSize mk \<le> bufferCapacity mk"

lemma length_buffered [simp]: "length (buffered mk) = bufferSize mk"
  by (simp add: buffered_def)

lemma buffered_nth:
  "i < bufferSize mk \<Longrightarrow> buffered mk ! i = buffer mk ! ((bufferStart mk + i) mod bufferCapacity mk)"
  by (simp add: buffered_def)

lemma wrap_mod: "i < 2 * n \<Longrightarrow> (if n \<le> i then i - n else i) = i mod (n :: nat)"
  by (simp add: le_mod_geq)

lemma front_slice:
  assumes "buf_ok mk" and "count \<le> bufferSize mk" and "bufferStart mk + count < bufferCapacity mk"
  shows "slice (buffer mk) (bufferStart mk) (bufferStart mk + count) = Inr (take count (buffered mk))"
proof -
  have "take count (drop (bufferStart mk) (buffer mk)) = take count (buffered mk)"
    using assms by (intro nth_equalityI) (auto simp: buf_ok_def buffered_nth)
  then show ?thesis using assms by (simp add: buf_ok_def)
qed

lemma wrapped_slices:
  assumes "buf_ok mk" and "count \<le> bufferSize mk" and "bufferCapacity mk \<le> bufferStart mk + count"
  defines "wrapped \<equiv> count - (bufferCapacity mk - bufferStart mk)"
  shows "\<exists>d1 d2. slice (buffer mk) (bufferStart mk) (length (buffer mk)) = Inr d1 \<and>
    slice (buffer mk) 0 wrapped = Inr d2 \<and> d1 @ d2 = take count (buffered mk) \<and>
    wrapped = (bufferStart mk + count) mod bufferCapacity mk"
proof -
  have w: "wrapped = bufferStart mk + count - bufferCapacity mk" "wrapped < bufferCapacity mk"
    using assms by (auto simp: buf_ok_def)
  then have "wrapped = (bufferStart mk + count) mod bufferCapacity mk"
    using assms(3) by (simp add: le_mod_geq)
  moreover have "drop (bufferStart mk) (buffer mk) @ take wrapped (buffer mk) = take count (buffered mk)"
  proof (rule nth_equalityI)
    show "length (drop (bufferStart mk) (buffer mk) @ take wrapped (buffer mk)) = length (take count (buffered mk))"
      using assms by (auto simp: buf_ok_def)
    fix i
    assume "i < length (drop (bufferStart mk) (buffer mk) @ take wrapped (buffer mk))"
    then have i: "i < count" using assms by (auto simp: buf_ok_def)
    have "bufferStart mk + i < 2 * bufferCapacity mk" using i assms by (auto simp: buf_ok_def)
    then have "(bufferStart mk + i) mod bufferCapacity mk =
        (if bufferCapacity mk \<le> bufferStart mk + i then bufferStart mk + i - bufferCapacity mk else bufferStart mk + i)"
      by (simp add: wrap_mod)
    with i assms w show "(drop (bufferStart mk) (buffer mk) @ take wrapped (buffer mk)) ! i = take count (buffered mk) ! i"
      by (auto simp: buf_ok_def nth_append buffered_nth add.commute)
  qed
  ultimately show ?thesis using assms w by (auto simp: buf_ok_def)
qed

lemma fill_buffered:
  assumes "buf_ok mk" and "count \<le> bufferSize mk" and "holds config c (maker_chunk mk)"
  shows "\<exists>ch start. fill count mk = Inr (mk\<lparr>maker_chunk := ch, bufferStart := start, bufferSize := bufferSize mk - count\<rparr>) \<and>
    holds config (c @ take count (buffered mk)) ch \<and>
    buf_ok (mk\<lparr>maker_chunk := ch, bufferStart := start, bufferSize := bufferSize mk - count\<rparr>) \<and>
    buffered (mk\<lparr>maker_chunk := ch, bufferStart := start, bufferSize := bufferSize mk - count\<rparr>) = drop count (buffered mk)"
proof -
  let ?start = "(bufferStart mk + count) mod bufferCapacity mk"
  have shifted: "buf_ok (mk\<lparr>maker_chunk := ch, bufferStart := ?start, bufferSize := bufferSize mk - count\<rparr>)"
    "buffered (mk\<lparr>maker_chunk := ch, bufferStart := ?start, bufferSize := bufferSize mk - count\<rparr>) = drop count (buffered mk)" for ch
    using assms by (auto simp: buf_ok_def buffered_def drop_map mod_simps add.assoc
        intro!: nth_equalityI)
  show ?thesis
  proof (cases "bufferStart mk + count < bufferCapacity mk")
    case True
    with front_slice [OF assms(1,2)] shifted holds_Write [OF assms(3)] show ?thesis
      by (intro exI [of _ "chunk_Write (take count (buffered mk)) (maker_chunk mk)"] exI [of _ ?start])
         (auto simp: fill_def)
  next
    case False
    with wrapped_slices [OF assms(1,2)] obtain d1 d2 where
      d: "slice (buffer mk) (bufferStart mk) (length (buffer mk)) = Inr d1"
        "slice (buffer mk) 0 (count - (bufferCapacity mk - bufferStart mk)) = Inr d2"
        "d1 @ d2 = take count (buffered mk)" "count - (bufferCapacity mk - bufferStart mk) = ?start" by auto
    have "holds config (c @ take count (buffered mk)) (chunk_Write d2 (chunk_Write d1 (maker_chunk mk)))"
      using holds_Write [OF holds_Write [OF assms(3), of d1], of d2] d(3) by simp
    with False d shifted show ?thesis
      by (intro exI [of _ "chunk_Write d2 (chunk_Write d1 (maker_chunk mk))"] exI [of _ ?start])
         (auto simp: fill_def)
  qed
qed

lemma minimum_hash_buffered:
  assumes "buf_ok mk" and "minimumChunkSize mk \<le> bufferSize mk"
  shows "minimum_hash mk = Inr (buzhashSum (randomTable mk) 0 (take (minimumChunkSize mk) (buffered mk)))"
proof (cases "bufferStart mk + minimumChunkSize mk < bufferCapacity mk")
  case True
  with front_slice [OF assms] show ?thesis by (simp add: minimum_hash_def)
next
  case False
  with wrapped_slices [OF assms] obtain d1 d2 where
    "slice (buffer mk) (bufferStart mk) (length (buffer mk)) = Inr d1"
    "slice (buffer mk) 0 (minimumChunkSize mk - (bufferCapacity mk - bufferStart mk)) = Inr d2"
    "d1 @ d2 = take (minimumChunkSize mk) (buffered mk)" by auto
  with False show ?thesis by (simp add: minimum_hash_def buzhashSum_append [symmetric])
qed

lemma buffered_byte:
  assumes "buf_ok mk" and "i < bufferSize mk"
  shows "index_slice (buffer mk) (int (if bufferCapacity mk \<le> bufferStart mk + i
      then bufferStart mk + i - bufferCapacity mk else bufferStart mk + i)) = Inr (buffered mk ! i)"
proof -
  define k where "k = (bufferStart mk + i) mod bufferCapacity mk"
  have "bufferStart mk + i < 2 * bufferCapacity mk" using assms by (auto simp: buf_ok_def)
  then have "(if bufferCapacity mk \<le> bufferStart mk + i then bufferStart mk + i - bufferCapacity mk
      else bufferStart mk + i) = k" by (simp only: wrap_mod k_def)
  moreover have "k < length (buffer mk)" using assms(1) by (simp add: k_def buf_ok_def)
  ultimately show ?thesis using assms(2) by (simp only: buffered_nth k_def [symmetric]) simp
qed

subsection \<open>Reading into the buffer\<close>

text \<open>The bytes a reader delivers before the end, and readers without errors other than \<open>io.EOF\<close>.\<close>

fun content :: "reader \<Rightarrow> bytes" where
  "content [] = []"
| "content ((bs, err) # rest) = (if err = Some EOF then bs else bs @ content rest)"

fun clean :: "reader \<Rightarrow> bool" where
  "clean [] = True"
| "clean ((bs, err) # rest) = (err = Some EOF \<or> err = None \<and> clean rest)"

lemma reader_Read_clean:
  assumes "clean rd" and "reader_Read room rd = (bs, err, rest)"
  shows "length bs \<le> room" and "err = Some EOF \<or> err = None"
    and "err = Some EOF \<Longrightarrow> content rd = bs"
    and "err = None \<Longrightarrow> content rd = bs @ content rest \<and> clean rest"
    and "length bs + reader_measure rest \<le> reader_measure rd"
  using assms by (cases rd; auto simp: reader_Read_def reader_measure_def split: if_splits)+

lemma store_buffered:
  assumes "buf_ok mk" and "bufferSize mk < bufferCapacity mk" and "free_part mk = (start, room)" and "length bs \<le> room"
  defines "mk' \<equiv> mk\<lparr>buffer := write_at start bs (buffer mk), bufferSize := bufferSize mk + length bs\<rparr>"
  shows "buf_ok mk' \<and> buffered mk' = buffered mk @ bs"
proof -
  let ?cap = "bufferCapacity mk"
  have sum: "bufferStart mk + bufferSize mk < 2 * ?cap" using assms(1,2) by (auto simp: buf_ok_def)
  have start: "start = (bufferStart mk + bufferSize mk) mod ?cap" "start + room \<le> ?cap" "room \<le> ?cap - bufferSize mk"
    using assms(1-3) wrap_mod [OF sum] by (auto simp: free_part_def Let_def buf_ok_def split: if_splits)
  have ok: "buf_ok mk'" using assms(1,4) start by (auto simp: buf_ok_def mk'_def write_at_def)
  have "buffered mk' = buffered mk @ bs"
  proof (rule nth_equalityI)
    fix i
    assume "i < length (buffered mk')"
    then have i: "i < bufferSize mk + length bs" by (simp add: mk'_def)
    define k where "k = (bufferStart mk + i) mod ?cap"
    have sum_i: "bufferStart mk + i < 2 * ?cap" using i start assms(1,4) by (auto simp: buf_ok_def)
    have k: "k = (if ?cap \<le> bufferStart mk + i then bufferStart mk + i - ?cap else bufferStart mk + i)"
      using wrap_mod [OF sum_i] by (simp add: k_def)
    have s: "start = (if ?cap \<le> bufferStart mk + bufferSize mk then bufferStart mk + bufferSize mk - ?cap
        else bufferStart mk + bufferSize mk)"
      using wrap_mod [OF sum] start(1) by simp
    have lhs: "buffered mk' ! i = write_at start bs (buffer mk) ! k"
      using i by (simp add: buffered_nth mk'_def k_def)
    show "buffered mk' ! i = (buffered mk @ bs) ! i"
    proof (cases "i < bufferSize mk")
      case True
      then have "k < start \<or> start + length bs \<le> k"
        using k s start(2,3) assms(1,4) by (auto simp: buf_ok_def split: if_splits)
      moreover have "k < length (buffer mk)" using assms(1) by (simp add: k_def buf_ok_def)
      ultimately have "write_at start bs (buffer mk) ! k = buffer mk ! k"
        using start(2) assms(1,4) by (auto simp: write_at_def nth_append buf_ok_def)
      with lhs True show ?thesis by (simp add: nth_append buffered_nth k_def)
    next
      case False
      then have "k = start + (i - bufferSize mk)" using k s i start(2,3) assms(1,4) by (auto split: if_splits)
      with i False start(2) assms(1,4) have "write_at start bs (buffer mk) ! k = bs ! (i - bufferSize mk)"
        by (auto simp: write_at_def nth_append buf_ok_def)
      with lhs False show ?thesis by (simp add: nth_append)
    qed
  qed (simp add: mk'_def)
  with ok show ?thesis by simp
qed

definition same_maker :: "maker \<Rightarrow> maker \<Rightarrow> bool" where
  "same_maker mk mk' \<longleftrightarrow> mk' = mk\<lparr>buffer := buffer mk', bufferSize := bufferSize mk'\<rparr>"

lemma read_loop_content:
  assumes "buf_ok mk" and "clean rd"
  shows "\<exists>mk' rd' got eof. read_loop mk rd hashed = Inr (mk', rd', hashed @ got, eof) \<and> buf_ok mk' \<and>
    same_maker mk mk' \<and> buffered mk' = buffered mk @ got \<and>
    bufferSize mk' + reader_measure rd' \<le> bufferSize mk + reader_measure rd \<and>
    (if eof then content rd = got
     else content rd = got @ content rd' \<and> clean rd' \<and> bufferSize mk' = bufferCapacity mk')"
  using assms
proof (induction mk rd hashed rule: read_loop.induct)
  case (1 mk rd hashed)
  show ?case
  proof (cases "bufferSize mk < bufferCapacity mk")
    case False
    then have "read_loop mk rd hashed = Inr (mk, rd, hashed @ [], False)" by (simp add: read_loop.simps)
    with False 1 show ?thesis
      by (intro exI [of _ mk] exI [of _ rd] exI [of _ "[]"] exI [of _ False]) (simp add: same_maker_def buf_ok_def)
  next
    case True
    obtain start room where part: "free_part mk = (start, room)" by force
    obtain bs err rest where read: "reader_Read room rd = (bs, err, rest)" by (metis prod_cases3)
    note clean = reader_Read_clean [OF "1.prems"(2) read]
    define mk1 where "mk1 = mk\<lparr>buffer := write_at start bs (buffer mk), bufferSize := bufferSize mk + length bs\<rparr>"
    have mk1: "buf_ok mk1" "buffered mk1 = buffered mk @ bs" "same_maker mk mk1" "bufferSize mk1 = bufferSize mk + length bs"
      using store_buffered [OF "1.prems"(1) True part clean(1)] by (simp_all add: mk1_def same_maker_def)
    have step: "read_loop mk rd hashed = (if err = Some EOF then Inr (mk1, rest, hashed @ bs, True)
        else read_loop mk1 rest (hashed @ bs))"
      using True part read clean(2) by (subst read_loop.simps) (auto simp: mk1_def Let_def)
    show ?thesis
    proof (cases "err = Some EOF")
      case eof: True
      with step mk1 clean show ?thesis
        by (intro exI [of _ mk1] exI [of _ rest] exI [of _ bs] exI [of _ True]) simp
    next
      case False
      with clean(2) have err: "err = None" by simp
      then have ih: "\<exists>mk' rd' got eof. read_loop mk1 rest (hashed @ bs) = Inr (mk', rd', (hashed @ bs) @ got, eof) \<and> buf_ok mk' \<and>
          same_maker mk1 mk' \<and> buffered mk' = buffered mk1 @ got \<and>
          bufferSize mk' + reader_measure rd' \<le> bufferSize mk1 + reader_measure rest \<and>
          (if eof then content rest = got
           else content rest = got @ content rd' \<and> clean rd' \<and> bufferSize mk' = bufferCapacity mk')"
        using "1.IH" [OF True part [symmetric] refl read [symmetric] refl] mk1 clean(4) False
        by (simp add: mk1_def)
      then obtain mk' rd' got eof where res: "read_loop mk1 rest (hashed @ bs) = Inr (mk', rd', (hashed @ bs) @ got, eof)"
        "buf_ok mk'" "same_maker mk1 mk'" "buffered mk' = buffered mk1 @ got"
        "bufferSize mk' + reader_measure rd' \<le> bufferSize mk1 + reader_measure rest"
        "if eof then content rest = got
           else content rest = got @ content rd' \<and> clean rd' \<and> bufferSize mk' = bufferCapacity mk'" by blast
      have "same_maker mk mk'" using res(3) by (simp add: same_maker_def mk1_def)
      with res step False mk1 clean(4) [OF err] clean(5) show ?thesis
        by (intro exI [of _ mk'] exI [of _ rd'] exI [of _ "bs @ got"] exI [of _ eof]) (auto split: if_splits)
    qed
  qed
qed

section \<open>The reference: where a stream is cut\<close>

text \<open>A stream of bytes is cut after the first \<open>n\<close> bytes, at least the minimum, for which the hash
  of the last minimum-size window has zeros under the mask or \<open>n\<close> is the maximum. What is left when
  no cut is found is pending.\<close>

record cut_rule =
  cut_min :: nat
  cut_max :: nat
  cut_mask :: "64 word"
  cut_table :: "64 word list"

definition rule_of :: "maker \<Rightarrow> cut_rule" where
  "rule_of mk = \<lparr>cut_min = minimumChunkSize mk, cut_max = maximumChunkSize mk, cut_mask = hashMask mk,
     cut_table = randomTable mk\<rparr>"

lemma rule_of_simps [simp]:
  "cut_min (rule_of mk) = minimumChunkSize mk" "cut_max (rule_of mk) = maximumChunkSize mk"
  "cut_mask (rule_of mk) = hashMask mk" "cut_table (rule_of mk) = randomTable mk"
  by (simp_all add: rule_of_def)

lemma rule_of_updates [simp]:
  "rule_of (mk\<lparr>buffer := b\<rparr>) = rule_of mk" "rule_of (mk\<lparr>bufferSize := n\<rparr>) = rule_of mk"
  "rule_of (mk\<lparr>bufferStart := n\<rparr>) = rule_of mk" "rule_of (mk\<lparr>hashSum := h\<rparr>) = rule_of mk"
  "rule_of (mk\<lparr>minimumReached := m\<rparr>) = rule_of mk" "rule_of (mk\<lparr>maker_chunk := ch\<rparr>) = rule_of mk"
  by (simp_all add: rule_of_def)

definition is_cut :: "cut_rule \<Rightarrow> bytes \<Rightarrow> nat \<Rightarrow> bool" where
  "is_cut r stream n \<longleftrightarrow>
     buzhashSum (cut_table r) 0 (drop (n - cut_min r) (take n stream)) AND cut_mask r = 0 \<or> n = cut_max r"

definition next_cut :: "cut_rule \<Rightarrow> bytes \<Rightarrow> nat option" where
  "next_cut r stream = List.find (is_cut r stream) [cut_min r..<Suc (length stream)]"

function cuts :: "cut_rule \<Rightarrow> bytes \<Rightarrow> bytes list \<times> bytes" where
  "cuts r stream =
     (case next_cut r stream of None \<Rightarrow> ([], stream)
      | Some n \<Rightarrow>
          if n = 0 \<or> stream = [] then ([], stream)
          else let (cs, rest) = cuts r (drop n stream) in (take n stream # cs, rest))"
  by pat_completeness auto
termination
  by (relation "measure (\<lambda>(r, stream). length stream)") auto

declare cuts.simps [simp del]

definition chunks_of :: "cut_rule \<Rightarrow> bytes \<Rightarrow> bytes list" where
  "chunks_of r stream = (case cuts r stream of (cs, rest) \<Rightarrow> cs @ (if rest = [] then [] else [rest]))"

lemma find_append:
  "List.find P (xs @ ys) = (case List.find P xs of None \<Rightarrow> List.find P ys | Some x \<Rightarrow> Some x)"
  by (induction xs) auto

lemma next_cut_Some:
  assumes "cut_min r \<le> n" and "n \<le> length stream" and "is_cut r stream n"
    and "\<And>k. cut_min r \<le> k \<Longrightarrow> k < n \<Longrightarrow> \<not> is_cut r stream k"
  shows "next_cut r stream = Some n"
proof -
  have "[cut_min r..<Suc (length stream)] = [cut_min r..<n] @ n # [Suc n..<Suc (length stream)]"
    using upt_add_eq_append [OF assms(1), of "Suc (length stream) - n"] assms(2)
    by (simp add: upt_conv_Cons del: upt_Suc)
  moreover have "List.find (is_cut r stream) [cut_min r..<n] = None"
    using assms(4) by (auto simp: find_None_iff)
  ultimately show ?thesis
    using assms(3) by (simp add: next_cut_def find_append)
qed

lemma next_cut_None:
  "(\<And>k. cut_min r \<le> k \<Longrightarrow> k \<le> length stream \<Longrightarrow> \<not> is_cut r stream k) \<Longrightarrow> next_cut r stream = None"
  by (auto simp: next_cut_def find_None_iff)

lemma next_cut_props:
  assumes "next_cut r stream = Some n"
  shows "cut_min r \<le> n" "n \<le> length stream" "is_cut r stream n"
    "\<And>k. cut_min r \<le> k \<Longrightarrow> k < n \<Longrightarrow> \<not> is_cut r stream k"
proof -
  from assms obtain i where i: "i < length [cut_min r..<Suc (length stream)]"
    "is_cut r stream ([cut_min r..<Suc (length stream)] ! i)" "n = [cut_min r..<Suc (length stream)] ! i"
    "\<And>j. j < i \<Longrightarrow> \<not> is_cut r stream ([cut_min r..<Suc (length stream)] ! j)"
    by (auto simp: next_cut_def find_Some_iff simp del: upt_Suc)
  then have n: "n = cut_min r + i" "cut_min r + i < Suc (length stream)" by (auto simp del: upt_Suc)
  then show "cut_min r \<le> n" "n \<le> length stream" "is_cut r stream n" using i by auto
  fix k
  assume "cut_min r \<le> k" "k < n"
  then show "\<not> is_cut r stream k"
    using i(4) [of "k - cut_min r"] n by (simp del: upt_Suc)
qed

lemma is_cut_append: "n \<le> length stream \<Longrightarrow> is_cut r (stream @ extra) n = is_cut r stream n"
  by (simp add: is_cut_def)

lemma cuts_None: "next_cut r stream = None \<Longrightarrow> cuts r stream = ([], stream)"
  by (subst cuts.simps) simp

lemma cuts_Some:
  "next_cut r stream = Some n \<Longrightarrow> 0 < cut_min r \<Longrightarrow> cuts r (drop n stream) = (cs, rest) \<Longrightarrow>
   cuts r stream = (take n stream # cs, rest)"
  using next_cut_props(1,2) [of r stream n] by (subst cuts.simps) auto

lemma next_cut_append:
  assumes "next_cut r stream = Some n"
  shows "next_cut r (stream @ extra) = Some n"
  using next_cut_props [OF assms] by (intro next_cut_Some) (auto simp: is_cut_append)

text \<open>The pieces of the reference: nothing is lost or added, and only the last chunk may be shorter
  than the minimum.\<close>

lemma cuts_concat: "cuts r stream = (cs, rest) \<Longrightarrow> concat cs @ rest = stream"
proof (induction r stream arbitrary: cs rest rule: cuts.induct)
  case (1 r stream)
  show ?case
  proof (cases "next_cut r stream")
    case (Some n)
    with 1 show ?thesis
      by (cases "cuts r (drop n stream)") (fastforce simp: cuts.simps [of r stream] split: if_splits)
  qed (use 1 in \<open>simp add: cuts.simps [of r stream]\<close>)
qed

lemma cut_max_hit:
  assumes "cut_min r < cut_max r" and "cut_max r \<le> length stream"
  shows "\<exists>n. next_cut r stream = Some n \<and> n \<le> cut_max r"
proof (cases "next_cut r stream")
  case None
  then have "\<not> is_cut r stream (cut_max r)"
    using assms by (auto simp: next_cut_def find_None_iff simp del: upt_Suc)
  then show ?thesis by (simp add: is_cut_def)
next
  case (Some n)
  have "\<not> cut_max r < n"
    using next_cut_props(4) [OF Some, of "cut_max r"] assms(1) by (auto simp: is_cut_def)
  with Some show ?thesis by simp
qed

lemma cuts_bounds:
  assumes "0 < cut_min r" and "cut_min r < cut_max r"
  shows "cuts r stream = (cs, rest) \<Longrightarrow>
    (\<forall>c \<in> set cs. cut_min r \<le> length c \<and> length c \<le> cut_max r) \<and> length rest < cut_max r"
proof (induction "length stream" arbitrary: stream cs rest rule: less_induct)
  case less
  show ?case
  proof (cases "next_cut r stream")
    case None
    with less.prems cut_max_hit [OF assms(2), of stream] show ?thesis
      by (auto simp: cuts_None not_le [symmetric])
  next
    case (Some n)
    note n = next_cut_props [OF Some]
    obtain cs' rest' where rec: "cuts r (drop n stream) = (cs', rest')" by force
    have "n \<le> cut_max r"
      using n(4) [of "cut_max r"] assms(2) by (auto simp: is_cut_def not_le [symmetric])
    moreover from cuts_Some [OF Some assms(1) rec] less.prems have "cs = take n stream # cs'" "rest = rest'" by auto
    ultimately show ?thesis
      using less.hyps [OF _ rec] n assms(1) by auto
  qed
qed

section \<open>The maker cuts like the reference\<close>

text \<open>The invariant between two rounds, for a chunk that holds \<open>c\<close>.\<close>

definition maker_inv :: "config \<Rightarrow> bytes \<Rightarrow> maker \<Rightarrow> bool" where
  "maker_inv config c mk \<longleftrightarrow> buf_ok mk \<and> minimumChunkSize mk < maximumChunkSize mk \<and>
     holds config c (maker_chunk mk) \<and>
     (if minimumReached mk then
        minimumChunkSize mk \<le> bufferSize mk \<and>
        hashSum mk = buzhashSum (randomTable mk) 0 (take (minimumChunkSize mk) (buffered mk)) \<and>
        length c + minimumChunkSize mk < maximumChunkSize mk \<and>
        (\<forall>n. minimumChunkSize mk \<le> n \<and> n \<le> length c + minimumChunkSize mk \<longrightarrow>
             \<not> is_cut (rule_of mk) (c @ buffered mk) n)
      else c = [])"

lemma maker_invD:
  assumes "maker_inv config c mk"
  shows "buf_ok mk" "0 < minimumChunkSize mk" "minimumChunkSize mk < maximumChunkSize mk"
    "holds config c (maker_chunk mk)" "bufferSize mk \<le> 2 * minimumChunkSize mk"
  using assms by (auto simp: maker_inv_def buf_ok_def)

lemma startNewChunk_inv:
  assumes "buf_ok mk" and "minimumChunkSize mk < maximumChunkSize mk"
  shows "maker_inv config [] (startNewChunk config mk)"
  using assms by (simp add: maker_inv_def startNewChunk_def buf_ok_def)

lemma startNewChunk_fields [simp]:
  "buffered (startNewChunk config mk) = buffered mk" "bufferSize (startNewChunk config mk) = bufferSize mk"
  "rule_of (startNewChunk config mk) = rule_of mk" "buf_ok (startNewChunk config mk) = buf_ok mk"
  "minimumChunkSize (startNewChunk config mk) = minimumChunkSize mk"
  by (simp_all add: startNewChunk_def buffered_def rule_of_def buf_ok_def)

lemma cut_in_window:
  assumes "j + 1 + minimumChunkSize mk \<le> length q"
  shows "is_cut (rule_of mk) (c @ q) (length c + j + 1 + minimumChunkSize mk) \<longleftrightarrow>
    buzhashSum (randomTable mk) 0 (take (minimumChunkSize mk) (drop (j + 1) q)) AND hashMask mk = 0 \<or>
    length c + j + minimumChunkSize mk + 1 = maximumChunkSize mk"
proof -
  have "drop (length c + j + 1) (take (length c + j + 1 + minimumChunkSize mk) (c @ q))
      = take (minimumChunkSize mk) (drop (j + 1) q)"
    by (simp add: drop_take)
  then show ?thesis by (simp add: is_cut_def add.commute add.left_commute)
qed

text \<open>What the scan of the buffer finds, started at the hash of the window at \<open>i\<close>.\<close>

lemma scan_loop_result:
  assumes ok: "buf_ok mk" and q: "q = buffered mk" and i: "i \<le> length q - minimumChunkSize mk"
    and len: "minimumChunkSize mk \<le> length q"
    and hsum: "hsum = buzhashSum (randomTable mk) 0 (take (minimumChunkSize mk) (drop i q))"
  shows "(\<exists>j h. i \<le> j \<and> j + minimumChunkSize mk < length q \<and>
      scan_loop mk (length c) (length q - minimumChunkSize mk) i hsum = Inr (j + 1 + minimumChunkSize mk, True, h) \<and>
      is_cut (rule_of mk) (c @ q) (length c + j + 1 + minimumChunkSize mk) \<and>
      (\<forall>k. i \<le> k \<and> k < j \<longrightarrow> \<not> is_cut (rule_of mk) (c @ q) (length c + k + 1 + minimumChunkSize mk))) \<or>
    (scan_loop mk (length c) (length q - minimumChunkSize mk) i hsum =
       Inr (length q - minimumChunkSize mk, False,
         buzhashSum (randomTable mk) 0 (drop (length q - minimumChunkSize mk) q)) \<and>
      (\<forall>k. i \<le> k \<and> k + minimumChunkSize mk < length q \<longrightarrow>
         \<not> is_cut (rule_of mk) (c @ q) (length c + k + 1 + minimumChunkSize mk)))"
  using i hsum
proof (induction "length q - minimumChunkSize mk - i" arbitrary: i hsum)
  case 0
  then have i: "i = length q - minimumChunkSize mk" by simp
  then have "scan_loop mk (length c) (length q - minimumChunkSize mk) i hsum =
      Inr (length q - minimumChunkSize mk, False, hsum)" by (subst scan_loop.simps) simp
  with 0 i len show ?case by auto
next
  case (Suc n)
  let ?m = "minimumChunkSize mk"
  define h where "h = buzhashSum (randomTable mk) 0 (take ?m (drop (Suc i) q))"
  have i: "i < length q - ?m" using Suc by simp
  have m: "0 < ?m" using ok by (simp add: buf_ok_def)
  have w: "take ?m (drop i q) = q ! i # take (?m - 1) (drop (Suc i) q)"
    using m i by (metis (no_types, lifting) Cons_nth_drop_Suc One_nat_def Suc_pred add_lessD1 less_diff_conv take_Suc_Cons)
  have w': "take ?m (drop (Suc i) q) = take (?m - 1) (drop (Suc i) q) @ [q ! (i + ?m)]"
    using m i take_Suc_conv_app_nth [of "?m - 1" "drop (Suc i) q"] by (simp add: add.commute)
  have upd: "buzhashUpdate (randomTable mk) hsum (q ! i) (q ! (i + ?m)) ?m = h"
    using buzhash_shift [of "randomTable mk" "q ! i" "take (?m - 1) (drop (Suc i) q)" "q ! (i + ?m)"] m i
    unfolding Suc.prems(2) h_def w w' by simp
  have step: "scan_loop mk (length c) (length q - ?m) i hsum =
      (if is_cut (rule_of mk) (c @ q) (length c + i + 1 + ?m) then Inr (i + 1 + ?m, True, h)
       else scan_loop mk (length c) (length q - ?m) (Suc i) h)"
    using buffered_byte [OF ok, of i] buffered_byte [OF ok, of "i + ?m"] i q upd cut_in_window [of i mk q c]
    by (subst scan_loop.simps) (simp add: Let_def add.assoc h_def)
  show ?case
  proof (cases "is_cut (rule_of mk) (c @ q) (length c + i + 1 + ?m)")
    case True
    with step i show ?thesis by (intro disjI1 exI [of _ i] exI [of _ h]) auto
  next
    case False
    have "n = length q - ?m - Suc i" "Suc i \<le> length q - ?m" using Suc.hyps(2) i by auto
    from Suc.hyps(1) [OF this h_def] show ?thesis
    proof
      assume "\<exists>j g. Suc i \<le> j \<and> j + ?m < length q \<and>
        scan_loop mk (length c) (length q - ?m) (Suc i) h = Inr (j + 1 + ?m, True, g) \<and>
        is_cut (rule_of mk) (c @ q) (length c + j + 1 + ?m) \<and>
        (\<forall>k. Suc i \<le> k \<and> k < j \<longrightarrow> \<not> is_cut (rule_of mk) (c @ q) (length c + k + 1 + ?m))"
      then obtain j g where j: "Suc i \<le> j" "j + ?m < length q"
        "scan_loop mk (length c) (length q - ?m) (Suc i) h = Inr (j + 1 + ?m, True, g)"
        "is_cut (rule_of mk) (c @ q) (length c + j + 1 + ?m)"
        "\<And>k. Suc i \<le> k \<Longrightarrow> k < j \<Longrightarrow> \<not> is_cut (rule_of mk) (c @ q) (length c + k + 1 + ?m)" by blast
      have "\<not> is_cut (rule_of mk) (c @ q) (length c + k + 1 + ?m)" if "i \<le> k" "k < j" for k
        using that j(5) [of k] False by (cases "k = i") auto
      with j step False show ?thesis by (intro disjI1 exI [of _ j] exI [of _ g]) auto
    next
      assume none: "scan_loop mk (length c) (length q - ?m) (Suc i) h =
         Inr (length q - ?m, False, buzhashSum (randomTable mk) 0 (drop (length q - ?m) q)) \<and>
        (\<forall>k. Suc i \<le> k \<and> k + ?m < length q \<longrightarrow> \<not> is_cut (rule_of mk) (c @ q) (length c + k + 1 + ?m))"
      have "\<not> is_cut (rule_of mk) (c @ q) (length c + k + 1 + ?m)" if "i \<le> k" "k + ?m < length q" for k
        using that none False by (cases "k = i") auto
      with none step False show ?thesis by (intro disjI2) auto
    qed
  qed
qed

text \<open>The two outcomes of a round: the pending bytes are cut where the reference cuts them, or they
  hold no cut.\<close>

definition cut_outcome ::
  "config \<Rightarrow> bool \<Rightarrow> int \<times> string \<Rightarrow> maker \<Rightarrow> bytes \<Rightarrow> (round \<times> maker \<times> chunk list) res \<Rightarrow> bool" where
  "cut_outcome config isEOF result mk stream r \<longleftrightarrow>
     (\<exists>n rd mk' ch. r = Inr (rd, mk', [ch]) \<and> next_cut (rule_of mk) stream = Some n \<and>
        holds config (take n stream) ch \<and> maker_inv config [] mk' \<and> buffered mk' = drop n stream \<and>
        rule_of mk' = rule_of mk \<and> bufferSize mk' < bufferSize mk \<and>
        (rd = Continue \<or> isEOF \<and> rd = Done result \<and> bufferSize mk' < minimumChunkSize mk'))"

definition pending_outcome ::
  "config \<Rightarrow> bool \<Rightarrow> bool \<Rightarrow> int \<times> string \<Rightarrow> maker \<Rightarrow> bytes \<Rightarrow> (round \<times> maker \<times> chunk list) res \<Rightarrow> bool" where
  "pending_outcome config nil isEOF result mk stream r \<longleftrightarrow> next_cut (rule_of mk) stream = None \<and>
     (if nil then \<exists>mk' ch. r = Inr (Done (0, []), mk', [ch]) \<and> holds config stream ch \<and> stream \<noteq> []
      else \<exists>mk' c. r = Inr (if isEOF then Done result else Continue, mk', []) \<and> maker_inv config c mk' \<and>
        c @ buffered mk' = stream \<and> rule_of mk' = rule_of mk \<and> bufferSize mk' = minimumChunkSize mk)"

lemma no_earlier_cut:
  assumes inv: "maker_inv config c mk" and reached: "minimumReached mk"
    and none: "\<forall>k. k < j \<longrightarrow> \<not> is_cut (rule_of mk) (c @ buffered mk) (length c + k + 1 + minimumChunkSize mk)"
    and n: "minimumChunkSize mk \<le> n" "n < length c + j + 1 + minimumChunkSize mk"
  shows "\<not> is_cut (rule_of mk) (c @ buffered mk) n"
proof (cases "n \<le> length c + minimumChunkSize mk")
  case True
  then show ?thesis using inv reached n(1) by (simp add: maker_inv_def)
next
  case False
  then have "n = length c + (n - length c - minimumChunkSize mk - 1) + 1 + minimumChunkSize mk"
    "n - length c - minimumChunkSize mk - 1 < j" using n(2) by auto
  with none show ?thesis by metis
qed

lemma scan_round_cut:
  assumes inv: "maker_inv config c mk" and reached: "minimumReached mk"
    and j: "j + minimumChunkSize mk < bufferSize mk"
      "is_cut (rule_of mk) (c @ buffered mk) (length c + j + 1 + minimumChunkSize mk)"
      "\<forall>k. k < j \<longrightarrow> \<not> is_cut (rule_of mk) (c @ buffered mk) (length c + k + 1 + minimumChunkSize mk)"
    and scan: "scan_loop mk (GetLength (maker_chunk mk)) (bufferSize mk - minimumChunkSize mk) 0 (hashSum mk)
      = Inr (j + 1 + minimumChunkSize mk, True, h)"
  shows "cut_outcome config isEOF result mk (c @ buffered mk) (scan_round config nil isEOF result mk)"
proof -
  let ?m = "minimumChunkSize mk" and ?q = "buffered mk" and ?D = "c @ buffered mk"
  let ?n = "length c + j + 1 + ?m" and ?count = "j + 1 + ?m" and ?mk = "mk\<lparr>hashSum := h\<rparr>"
  note facts = maker_invD [OF inv]
  have cut: "next_cut (rule_of mk) ?D = Some ?n"
    using j no_earlier_cut [OF inv reached j(3)] by (intro next_cut_Some) auto
  have "buf_ok ?mk" "?count \<le> bufferSize ?mk" "holds config c (maker_chunk ?mk)"
    using facts j(1) by (simp_all add: buf_ok_def)
  from fill_buffered [OF this] obtain ch start where
    fill: "fill ?count ?mk = Inr (?mk\<lparr>maker_chunk := ch, bufferStart := start, bufferSize := bufferSize mk - ?count\<rparr>)"
      "holds config (c @ take ?count ?q) ch"
    and mk': "buf_ok (?mk\<lparr>maker_chunk := ch, bufferStart := start, bufferSize := bufferSize mk - ?count\<rparr>)"
      "buffered (?mk\<lparr>maker_chunk := ch, bufferStart := start, bufferSize := bufferSize mk - ?count\<rparr>) = drop ?count ?q"
    by (auto simp: buffered_def)
  let ?mk' = "?mk\<lparr>maker_chunk := ch, bufferStart := start, bufferSize := bufferSize mk - ?count\<rparr>"
  have "take ?n ?D = c @ take ?count ?q" "drop ?n ?D = drop ?count ?q" by simp_all
  moreover have "maker_inv config [] (startNewChunk config ?mk')"
    using startNewChunk_inv [OF mk'(1)] facts(3) by simp
  moreover have "rule_of ?mk' = rule_of mk" by (simp add: rule_of_def)
  ultimately have "cut_outcome config isEOF result mk ?D
      (Inr (if isEOF then Done result else Continue, startNewChunk config ?mk', [ch]))"
    unfolding cut_outcome_def using cut fill(2) mk'(2) facts(2,5) j(1)
    by (intro exI [of _ ?n] exI [of _ "if isEOF then Done result else Continue"]
        exI [of _ "startNewChunk config ?mk'"] exI [of _ ch]) auto
  then show ?thesis using scan fill(1) by (simp add: scan_round_def)
qed

lemma scan_round_pending:
  assumes inv: "maker_inv config c mk" and reached: "minimumReached mk"
    and nocut: "\<And>n. minimumChunkSize mk \<le> n \<Longrightarrow> n \<le> length (c @ buffered mk) \<Longrightarrow> \<not> is_cut (rule_of mk) (c @ buffered mk) n"
    and len: "minimumChunkSize mk \<le> bufferSize mk"
    and scan: "scan_loop mk (GetLength (maker_chunk mk)) (bufferSize mk - minimumChunkSize mk) 0 (hashSum mk)
      = Inr (bufferSize mk - minimumChunkSize mk, False,
         buzhashSum (randomTable mk) 0 (drop (bufferSize mk - minimumChunkSize mk) (buffered mk)))"
  shows "pending_outcome config nil isEOF result mk (c @ buffered mk) (scan_round config nil isEOF result mk)"
proof -
  let ?m = "minimumChunkSize mk" and ?q = "buffered mk" and ?D = "c @ buffered mk"
  let ?bytes = "bufferSize mk - ?m"
  let ?mk = "mk\<lparr>hashSum := buzhashSum (randomTable mk) 0 (drop ?bytes ?q)\<rparr>"
  note facts = maker_invD [OF inv]
  have cut: "next_cut (rule_of mk) ?D = None" using nocut by (intro next_cut_None) simp_all
  have max: "length ?D < maximumChunkSize mk"
    using nocut [of "maximumChunkSize mk"] facts(3) by (auto simp: is_cut_def not_le [symmetric])
  have "buf_ok ?mk" "?bytes \<le> bufferSize ?mk" "holds config c (maker_chunk ?mk)"
    using facts by (simp_all add: buf_ok_def)
  from fill_buffered [OF this] obtain ch start where
    fill: "fill ?bytes ?mk = Inr (?mk\<lparr>maker_chunk := ch, bufferStart := start, bufferSize := bufferSize mk - ?bytes\<rparr>)"
      "holds config (c @ take ?bytes ?q) ch"
    and mk': "buf_ok (?mk\<lparr>maker_chunk := ch, bufferStart := start, bufferSize := bufferSize mk - ?bytes\<rparr>)"
      "buffered (?mk\<lparr>maker_chunk := ch, bufferStart := start, bufferSize := bufferSize mk - ?bytes\<rparr>) = drop ?bytes ?q"
    by (auto simp: buffered_def)
  let ?mk' = "?mk\<lparr>maker_chunk := ch, bufferStart := start, bufferSize := bufferSize mk - ?bytes\<rparr>"
  have size: "bufferSize mk - ?bytes = ?m" using len by simp
  show ?thesis
  proof (cases nil)
    case False
    have whole: "(c @ take ?bytes ?q) @ buffered ?mk' = ?D" using mk'(2) by simp
    have "maker_inv config (c @ take ?bytes ?q) ?mk'"
      using mk' fill(2) facts(3) max nocut reached size len whole
      by (simp add: maker_inv_def rule_of_def)
    with whole size have "pending_outcome config nil isEOF result mk ?D
        (Inr (if isEOF then Done result else Continue, ?mk', []))"
      unfolding pending_outcome_def using False cut
      by (auto simp: rule_of_def intro!: exI [of _ ?mk'] exI [of _ "c @ take ?bytes ?q"])
    then show ?thesis using scan fill(1) False by (simp add: scan_round_def)
  next
    case True
    have "?m \<le> bufferSize ?mk'" "holds config (c @ take ?bytes ?q) (maker_chunk ?mk')" using size fill(2) by simp_all
    from fill_buffered [OF mk'(1) this] mk'(2) obtain mk2 ch2 where
      f2: "fill ?m ?mk' = Inr mk2" "maker_chunk mk2 = ch2" "holds config ?D ch2"
      using len by auto
    have "0 < length ?D" using len facts(2) by simp
    then have "?D \<noteq> []" by (simp only: length_greater_0_conv not_False_eq_True)
    then have "pending_outcome config nil isEOF result mk ?D (Inr (Done (0, []), startNewChunk config mk2, [ch2]))"
      unfolding pending_outcome_def using True cut f2(3) by simp
    then show ?thesis using scan fill(1) True f2(1,2) by (simp add: scan_round_def)
  qed
qed

lemma scan_round_outcome:
  assumes inv: "maker_inv config c mk" and reached: "minimumReached mk"
  shows "cut_outcome config isEOF result mk (c @ buffered mk) (scan_round config nil isEOF result mk) \<or>
    pending_outcome config nil isEOF result mk (c @ buffered mk) (scan_round config nil isEOF result mk)"
proof -
  let ?m = "minimumChunkSize mk" and ?q = "buffered mk" and ?D = "c @ buffered mk"
  note facts = maker_invD [OF inv]
  have len: "?m \<le> length ?q" and hsum: "hashSum mk = buzhashSum (randomTable mk) 0 (take ?m (drop 0 ?q))"
    using inv reached by (simp_all add: maker_inv_def)
  have scan: "scan_loop mk (GetLength (maker_chunk mk)) (bufferSize mk - ?m) 0 (hashSum mk)
      = scan_loop mk (length c) (length ?q - ?m) 0 (hashSum mk)"
    by (simp add: holds_length [OF facts(4)])
  from scan_loop_result [OF facts(1) refl le0 len hsum, of c] show ?thesis
  proof
    assume "\<exists>j h. 0 \<le> j \<and> j + ?m < length ?q \<and>
      scan_loop mk (length c) (length ?q - ?m) 0 (hashSum mk) = Inr (j + 1 + ?m, True, h) \<and>
      is_cut (rule_of mk) ?D (length c + j + 1 + ?m) \<and>
      (\<forall>k. 0 \<le> k \<and> k < j \<longrightarrow> \<not> is_cut (rule_of mk) ?D (length c + k + 1 + ?m))"
    then show ?thesis
      using scan_round_cut [OF inv reached] scan by (metis length_buffered le0)
  next
    assume none: "scan_loop mk (length c) (length ?q - ?m) 0 (hashSum mk) =
         Inr (length ?q - ?m, False, buzhashSum (randomTable mk) 0 (drop (length ?q - ?m) ?q)) \<and>
      (\<forall>k. 0 \<le> k \<and> k + ?m < length ?q \<longrightarrow> \<not> is_cut (rule_of mk) ?D (length c + k + 1 + ?m))"
    then have "\<forall>k. k < length ?q - ?m \<longrightarrow> \<not> is_cut (rule_of mk) ?D (length c + k + 1 + ?m)" by auto
    from no_earlier_cut [OF inv reached this] len
    have "\<not> is_cut (rule_of mk) ?D n" if "?m \<le> n" "n \<le> length ?D" for n using that by simp
    then show ?thesis using scan_round_pending [OF inv reached] none scan len by simp
  qed
qed

lemma outcome_cong:
  assumes "rule_of mk' = rule_of mk" and "bufferSize mk' = bufferSize mk"
  shows "cut_outcome config isEOF result mk' = cut_outcome config isEOF result mk"
    "pending_outcome config nil isEOF result mk' = pending_outcome config nil isEOF result mk"
proof -
  have "minimumChunkSize mk' = minimumChunkSize mk" using assms(1) by (simp add: rule_of_def)
  then show "cut_outcome config isEOF result mk' = cut_outcome config isEOF result mk"
    "pending_outcome config nil isEOF result mk' = pending_outcome config nil isEOF result mk"
    by (simp_all add: fun_eq_iff cut_outcome_def pending_outcome_def assms)
qed

lemma minimal_cut:
  assumes inv: "maker_inv config [] mk" and len: "minimumChunkSize mk \<le> bufferSize mk"
    and zero: "buzhashSum (randomTable mk) 0 (take (minimumChunkSize mk) (buffered mk)) AND hashMask mk = 0"
  shows "cut_outcome config isEOF result mk (buffered mk)
    (bind_res (fill (minimumChunkSize mk) (mk\<lparr>hashSum := h\<rparr>)) (\<lambda>mk.
       Inr (Continue, startNewChunk config mk, [maker_chunk mk])))"
proof -
  let ?m = "minimumChunkSize mk" and ?q = "buffered mk" and ?mk = "mk\<lparr>hashSum := h\<rparr>"
  note facts = maker_invD [OF inv]
  have cut: "next_cut (rule_of mk) ?q = Some ?m"
    using len zero by (intro next_cut_Some) (auto simp: is_cut_def)
  have "buf_ok ?mk" "?m \<le> bufferSize ?mk" "holds config [] (maker_chunk ?mk)"
    using facts len by (simp_all add: buf_ok_def)
  from fill_buffered [OF this] obtain ch start where
    fill: "fill ?m ?mk = Inr (?mk\<lparr>maker_chunk := ch, bufferStart := start, bufferSize := bufferSize mk - ?m\<rparr>)"
      "holds config (take ?m ?q) ch"
    and mk': "buf_ok (?mk\<lparr>maker_chunk := ch, bufferStart := start, bufferSize := bufferSize mk - ?m\<rparr>)"
      "buffered (?mk\<lparr>maker_chunk := ch, bufferStart := start, bufferSize := bufferSize mk - ?m\<rparr>) = drop ?m ?q"
    by (auto simp: buffered_def)
  let ?mk' = "?mk\<lparr>maker_chunk := ch, bufferStart := start, bufferSize := bufferSize mk - ?m\<rparr>"
  have "maker_inv config [] (startNewChunk config ?mk')"
    using startNewChunk_inv [OF mk'(1)] facts(3) by simp
  moreover have "rule_of ?mk' = rule_of mk" by (simp add: rule_of_def)
  ultimately show ?thesis
    unfolding cut_outcome_def using cut fill mk'(2) facts(2) len
    by (intro exI [of _ ?m] exI [of _ Continue] exI [of _ "startNewChunk config ?mk'"] exI [of _ ch]) auto
qed

lemma process_buffer_outcome:
  assumes inv: "maker_inv config c mk" and len: "minimumChunkSize mk \<le> bufferSize mk"
    and result: "result = (int (length hashed), hex_encode (fileHash hashed))"
    and r: "r = process_buffer config fileHash nil mk hashed isEOF"
  shows "cut_outcome config isEOF result mk (c @ buffered mk) r \<or>
    pending_outcome config nil isEOF result mk (c @ buffered mk) r"
proof (cases "minimumReached mk")
  case True
  then show ?thesis
    using scan_round_outcome [OF inv True, of isEOF result nil] len result r
    by (simp add: process_buffer_def Let_def)
next
  case False
  then have c: "c = []" using inv by (simp add: maker_inv_def)
  define h where "h = buzhashSum (randomTable mk) 0 (take (minimumChunkSize mk) (buffered mk))"
  have hash: "minimum_hash mk = Inr h"
    using minimum_hash_buffered [OF maker_invD(1) [OF inv] len] by (simp add: h_def)
  show ?thesis
  proof (cases "h AND hashMask mk = 0")
    case True
    with minimal_cut [OF inv [unfolded c] len, of isEOF result h] False hash len r c result show ?thesis
      by (simp add: process_buffer_def Let_def h_def [symmetric])
  next
    case nonzero: False
    let ?mk = "mk\<lparr>hashSum := h, minimumReached := True\<rparr>"
    have same: "rule_of ?mk = rule_of mk" "bufferSize ?mk = bufferSize mk" "buffered ?mk = buffered mk"
      by (simp_all add: rule_of_def buffered_def)
    have "\<not> is_cut (rule_of mk) (buffered mk) (minimumChunkSize mk)"
      using nonzero maker_invD(3) [OF inv] by (simp add: is_cut_def h_def)
    then have "maker_inv config [] ?mk"
      using inv c len same by (auto simp: maker_inv_def buf_ok_def h_def False)
    from scan_round_outcome [OF this, of isEOF result nil]
    have "cut_outcome config isEOF result mk (buffered mk) (scan_round config nil isEOF result ?mk) \<or>
        pending_outcome config nil isEOF result mk (buffered mk) (scan_round config nil isEOF result ?mk)"
      by (simp add: same outcome_cong [OF same(1,2)])
    then show ?thesis
      using nonzero False hash len r c result by (simp add: process_buffer_def Let_def)
  qed
qed

lemma holds_Nil_iff: "holds config c ch \<Longrightarrow> (0 < GetLength ch) = (c \<noteq> [])"
  by (simp add: holds_length)

text \<open>The chunks \<open>out\<close> hold the byte strings \<open>bs\<close>.\<close>

definition hold_all :: "config \<Rightarrow> bytes list \<Rightarrow> chunk list \<Rightarrow> bool" where
  "hold_all config bs out \<longleftrightarrow> list_all2 (holds config) bs out"

lemma hold_all_simps [simp]:
  "hold_all config [] []" "hold_all config (b # bs) (ch # out) = (holds config b ch \<and> hold_all config bs out)"
  by (simp_all add: hold_all_def)

lemma hold_all_append:
  "hold_all config as xs \<Longrightarrow> hold_all config bs ys \<Longrightarrow> hold_all config (as @ bs) (xs @ ys)"
  by (simp add: hold_all_def list_all2_appendI)

text \<open>The outer loop after the end of the reader.\<close>

lemma small_no_cut: "length stream < cut_min r \<Longrightarrow> next_cut r stream = None"
  by (rule next_cut_None) simp

lemma small_pending:
  "maker_inv config c mk \<Longrightarrow> bufferSize mk < minimumChunkSize mk \<Longrightarrow> c = []"
  by (auto simp: maker_inv_def split: if_splits)

lemma add_loop_eof:
  assumes "maker_inv config c mk" and "bufferSize mk < n"
  shows "\<exists>mk' c' bs out. add_loop config fileHash n mk (Some r) hashed True sent =
      Some (Inr ((int (length hashed), hex_encode (fileHash hashed)), mk', sent @ out)) \<and>
    cuts (rule_of mk) (c @ buffered mk) = (bs, c' @ buffered mk') \<and> hold_all config bs out \<and>
    maker_inv config c' mk' \<and> rule_of mk' = rule_of mk"
  using assms
proof (induction n arbitrary: mk c sent)
  case (Suc n)
  let ?res = "(int (length hashed), hex_encode (fileHash hashed))"
  let ?p = "process_buffer config fileHash False mk hashed True"
  note facts = maker_invD [OF Suc.prems(1)]
  show ?case
  proof (cases "minimumChunkSize mk \<le> bufferSize mk")
    case False
    then have "c = []" "next_cut (rule_of mk) (buffered mk) = None"
      using small_pending [OF Suc.prems(1)] by (simp_all add: small_no_cut)
    moreover have "?p = Inr (Done ?res, mk, [])" using False by (simp add: process_buffer_def)
    ultimately show ?thesis
      using Suc.prems(1) by (intro exI [of _ mk] exI [of _ "[]"]) (simp add: cuts_None)
  next
    case True
    from process_buffer_outcome [OF Suc.prems(1) True refl refl, where fileHash = fileHash and hashed = hashed and isEOF = True and nil = False] show ?thesis
    proof
      assume "cut_outcome config True ?res mk (c @ buffered mk) ?p"
      then obtain m rd mk1 ch where o: "?p = Inr (rd, mk1, [ch])" "next_cut (rule_of mk) (c @ buffered mk) = Some m"
        "holds config (take m (c @ buffered mk)) ch" "maker_inv config [] mk1" "buffered mk1 = drop m (c @ buffered mk)"
        "rule_of mk1 = rule_of mk" "bufferSize mk1 < bufferSize mk"
        "rd = Continue \<or> rd = Done ?res \<and> bufferSize mk1 < minimumChunkSize mk1"
        by (auto simp: cut_outcome_def)
      note cut = cuts_Some [OF o(2), of "bs" "rest" for bs rest]
      from o(8) show ?thesis
      proof
        assume "rd = Continue"
        moreover from Suc.IH [OF o(4), of "sent @ [ch]"] Suc.prems(2) o(5-7) obtain mk' c' bs out where
          "add_loop config fileHash n mk1 (Some r) hashed True (sent @ [ch]) = Some (Inr (?res, mk', (sent @ [ch]) @ out))"
          "cuts (rule_of mk) (drop m (c @ buffered mk)) = (bs, c' @ buffered mk')" "hold_all config bs out"
          "maker_inv config c' mk'" "rule_of mk' = rule_of mk" by auto
        ultimately show ?thesis
          using o(1,3) cut facts(2)
          by (intro exI [of _ mk'] exI [of _ c'] exI [of _ "take m (c @ buffered mk) # bs"] exI [of _ "ch # out"]) simp
      next
        assume dn: "rd = Done ?res \<and> bufferSize mk1 < minimumChunkSize mk1"
        have "length (buffered mk1) < cut_min (rule_of mk1)" using dn by simp
        then have "cuts (rule_of mk) (drop m (c @ buffered mk)) = ([], buffered mk1)"
          using cuts_None [OF small_no_cut] o(5,6) by metis
        with dn o cut facts(2) show ?thesis
          by (intro exI [of _ mk1] exI [of _ "[]"] exI [of _ "[take m (c @ buffered mk)]"] exI [of _ "[ch]"]) simp
      qed
    next
      assume "pending_outcome config False True ?res mk (c @ buffered mk) ?p"
      then obtain mk' c' where "?p = Inr (Done ?res, mk', [])" "maker_inv config c' mk'"
        "c' @ buffered mk' = c @ buffered mk" "rule_of mk' = rule_of mk" "next_cut (rule_of mk) (c @ buffered mk) = None"
        by (auto simp: pending_outcome_def)
      then show ?thesis
        by (intro exI [of _ mk'] exI [of _ c'] exI [of _ "[]"]) (simp add: cuts_None)
    qed
  qed
qed simp

lemma maker_inv_read:
  assumes "maker_inv config c mk" and "same_maker mk mk'" and "buf_ok mk'" and "buffered mk' = buffered mk @ got"
  shows "maker_inv config c mk' \<and> rule_of mk' = rule_of mk"
proof -
  obtain b n where mk': "mk' = mk\<lparr>buffer := b, bufferSize := n\<rparr>" using assms(2) by (auto simp: same_maker_def)
  have "length (buffered mk') = length (buffered mk @ got)" using assms(4) by simp
  then have "n = bufferSize mk + length got" by (simp add: mk')
  moreover have "rule_of mk' = rule_of mk" by (simp add: mk' rule_of_def)
  moreover have "is_cut r (c @ buffered mk') k = is_cut r (c @ buffered mk) k" if "k \<le> length c + bufferSize mk" for r k
    using is_cut_append [of k "c @ buffered mk" r got] that by (simp add: assms(4))
  ultimately show ?thesis using assms(1,3,4) by (auto simp: maker_inv_def mk')
qed

lemma add_loop_after_eof:
  "read_loop mk r hashed = Inr (mk', r', hashed', True) \<Longrightarrow>
   add_loop config fileHash (Suc n) mk (Some r) hashed False sent =
   add_loop config fileHash (Suc n) mk' (Some r') hashed' True sent"
  by simp

lemma add_loop_reader:
  assumes "maker_inv config c mk" and "clean r" and "bufferSize mk + reader_measure r < n"
  shows "\<exists>mk' c' bs out. add_loop config fileHash n mk (Some r) hashed False sent =
      Some (Inr ((int (length (hashed @ content r)), hex_encode (fileHash (hashed @ content r))), mk', sent @ out)) \<and>
    cuts (rule_of mk) (c @ buffered mk @ content r) = (bs, c' @ buffered mk') \<and> hold_all config bs out \<and>
    maker_inv config c' mk' \<and> rule_of mk' = rule_of mk"
  using assms
proof (induction n arbitrary: mk c r hashed sent)
  case (Suc n)
  from read_loop_content [OF maker_invD(1) [OF Suc.prems(1)] Suc.prems(2), of hashed] obtain mk1 r1 got eof where
    read: "read_loop mk r hashed = Inr (mk1, r1, hashed @ got, eof)" "buf_ok mk1" "same_maker mk mk1"
      "buffered mk1 = buffered mk @ got" "bufferSize mk1 + reader_measure r1 \<le> bufferSize mk + reader_measure r"
      "if eof then content r = got
       else content r = got @ content r1 \<and> clean r1 \<and> bufferSize mk1 = bufferCapacity mk1" by blast
  from maker_inv_read [OF Suc.prems(1) read(3,2,4)] have inv: "maker_inv config c mk1" and rule: "rule_of mk1 = rule_of mk"
    by simp_all
  show ?case
  proof (cases eof)
    case True
    with read Suc.prems(3) add_loop_eof [OF inv, of "Suc n" fileHash r1 "hashed @ got" sent]
      add_loop_after_eof [of mk r hashed mk1 r1 "hashed @ got" config fileHash n sent] rule
    show ?thesis by (simp del: add_loop.simps)
  next
    case False
    with read have rest: "content r = got @ content r1" "clean r1" "bufferSize mk1 = 2 * minimumChunkSize mk1"
      by (simp_all add: buf_ok_def)
    let ?res = "(int (length (hashed @ got)), hex_encode (fileHash (hashed @ got)))"
    let ?p = "process_buffer config fileHash False mk1 (hashed @ got) False"
    have step: "add_loop config fileHash (Suc n) mk (Some r) hashed False sent =
      (case ?p of Inl exn \<Rightarrow> Some (Inl exn) | Inr (Done result, mk, out) \<Rightarrow> Some (Inr (result, mk, sent @ out))
       | Inr (Continue, mk, out) \<Rightarrow> add_loop config fileHash n mk (Some r1) (hashed @ got) False (sent @ out))"
      using read(1) False by simp
    have pos: "0 < minimumChunkSize mk1" "minimumChunkSize mk1 \<le> bufferSize mk1"
      using maker_invD(2) [OF inv] rest(3) by simp_all
    from process_buffer_outcome [OF inv pos(2) refl refl, where fileHash = fileHash and hashed = "hashed @ got" and isEOF = False and nil = False] show ?thesis
    proof
      assume "cut_outcome config False ?res mk1 (c @ buffered mk1) ?p"
      then obtain m mk2 ch where o: "?p = Inr (Continue, mk2, [ch])" "next_cut (rule_of mk) (c @ buffered mk1) = Some m"
        "holds config (take m (c @ buffered mk1)) ch" "maker_inv config [] mk2" "buffered mk2 = drop m (c @ buffered mk1)"
        "rule_of mk2 = rule_of mk" "bufferSize mk2 < bufferSize mk1"
        by (auto simp: cut_outcome_def rule)
      have m: "m \<le> length (c @ buffered mk1)" using next_cut_props(2) [OF o(2)] .
      have cut: "next_cut (rule_of mk) (c @ buffered mk @ content r) = Some m"
        using next_cut_append [OF o(2), of "content r1"] read(4) rest(1) by simp
      have eq: "c @ buffered mk @ content r = (c @ buffered mk1) @ content r1" using read(4) rest(1) by simp
      have rest_eq: "drop m (c @ buffered mk @ content r) = [] @ buffered mk2 @ content r1"
        unfolding eq using o(5) m by simp
      have "bufferSize mk2 + reader_measure r1 < n" using o(7) read(5) Suc.prems(3) by simp
      from Suc.IH [OF o(4) rest(2) this, of "hashed @ got" "sent @ [ch]"] obtain mk' c' bs out where
        "add_loop config fileHash n mk2 (Some r1) (hashed @ got) False (sent @ [ch]) =
          Some (Inr ((int (length (hashed @ content r)), hex_encode (fileHash (hashed @ content r))), mk', sent @ ch # out))"
        "cuts (rule_of mk) (drop m (c @ buffered mk @ content r)) = (bs, c' @ buffered mk')" "hold_all config bs out"
        "maker_inv config c' mk'" "rule_of mk' = rule_of mk"
        unfolding rest_eq using o(6) rest(1) by auto
      moreover have "0 < cut_min (rule_of mk)" using pos(1) rule by (metis rule_of_simps(1))
      moreover have "take m (c @ buffered mk @ content r) = take m (c @ buffered mk1)" unfolding eq using m by simp
      ultimately show ?thesis
        using o(1,3) cuts_Some [OF cut] step
        by (intro exI [of _ mk'] exI [of _ c'] exI [of _ "take m (c @ buffered mk1) # bs"] exI [of _ "ch # out"]) simp
    next
      assume "pending_outcome config False False ?res mk1 (c @ buffered mk1) ?p"
      then obtain mk2 c2 where o: "?p = Inr (Continue, mk2, [])" "maker_inv config c2 mk2"
        "c2 @ buffered mk2 = c @ buffered mk1" "rule_of mk2 = rule_of mk" "bufferSize mk2 = minimumChunkSize mk1"
        by (auto simp: pending_outcome_def rule)
      have eq: "c2 @ buffered mk2 @ content r1 = c @ buffered mk @ content r"
        using o(3) read(4) rest(1) by (metis append.assoc)
      have "bufferSize mk2 + reader_measure r1 < n" using o(5) pos rest(3) read(5) Suc.prems(3) by simp
      from Suc.IH [OF o(2) rest(2) this, of "hashed @ got" sent] show ?thesis
        using o(1,4) step rest(1) unfolding eq by auto
    qed
  qed
qed simp

text \<open>The outer loop for a nil reader: everything pending is sent.\<close>

lemma add_loop_nil:
  assumes "maker_inv config c mk" and "bufferSize mk < n"
  shows "\<exists>mk' out. add_loop config fileHash n mk None hashed False sent = Some (Inr ((0, []), mk', sent @ out)) \<and>
    hold_all config (chunks_of (rule_of mk) (c @ buffered mk)) out"
  using assms
proof (induction n arbitrary: mk c sent)
  case (Suc n)
  let ?res = "(int (length hashed), hex_encode (fileHash hashed))"
  let ?p = "process_buffer config fileHash True mk hashed False"
  note facts = maker_invD [OF Suc.prems(1)]
  show ?case
  proof (cases "minimumChunkSize mk \<le> bufferSize mk")
    case False
    then have c: "c = []" "cuts (rule_of mk) (buffered mk) = ([], buffered mk)"
      using small_pending [OF Suc.prems(1)] by (simp_all add: small_no_cut cuts_None)
    from fill_buffered [OF facts(1) order_refl facts(4)] c obtain mk' where
      mk': "fill (bufferSize mk) mk = Inr mk'" "holds config (buffered mk) (maker_chunk mk')" by auto
    then have "?p = Inr (Done (0, []), mk', if buffered mk \<noteq> [] then [maker_chunk mk'] else [])"
      using False by (simp add: process_buffer_def holds_Nil_iff)
    with c mk'(2) show ?thesis by (simp add: chunks_of_def)
  next
    case True
    from process_buffer_outcome [OF Suc.prems(1) True refl refl, where fileHash = fileHash and hashed = hashed and isEOF = False and nil = True] show ?thesis
    proof
      assume "cut_outcome config False ?res mk (c @ buffered mk) ?p"
      then obtain m mk1 ch where o: "?p = Inr (Continue, mk1, [ch])" "next_cut (rule_of mk) (c @ buffered mk) = Some m"
        "holds config (take m (c @ buffered mk)) ch" "maker_inv config [] mk1" "buffered mk1 = drop m (c @ buffered mk)"
        "rule_of mk1 = rule_of mk" "bufferSize mk1 < bufferSize mk"
        by (auto simp: cut_outcome_def)
      obtain cs rest where "cuts (rule_of mk) (drop m (c @ buffered mk)) = (cs, rest)" by force
      with cuts_Some [OF o(2)] facts(2) have
        "chunks_of (rule_of mk) (c @ buffered mk) = take m (c @ buffered mk) # chunks_of (rule_of mk) (drop m (c @ buffered mk))"
        by (simp add: chunks_of_def)
      with Suc.IH [OF o(4), of "sent @ [ch]"] Suc.prems(2) o show ?thesis by auto
    next
      assume "pending_outcome config True False ?res mk (c @ buffered mk) ?p"
      then obtain mk' ch where "?p = Inr (Done (0, []), mk', [ch])" "holds config (c @ buffered mk) ch"
        "c @ buffered mk \<noteq> []" "next_cut (rule_of mk) (c @ buffered mk) = None"
        by (auto simp: pending_outcome_def)
      then show ?thesis by (auto simp: chunks_of_def cuts_None)
    qed
  qed
qed simp

section \<open>A sequence of files\<close>

text \<open>What the backup does with the files it uploads: the maker is given one reader after the other and
  finally nil. The result holds what each \<open>AddData\<close> returned, and all chunks.\<close>

fun add_files ::
  "config \<Rightarrow> (bytes \<Rightarrow> bytes) \<Rightarrow> maker \<Rightarrow> reader list \<Rightarrow> ((int \<times> string) list \<times> chunk list) res option" where
  "add_files config fileHash mk [] =
     (case AddData config fileHash mk None of
        None \<Rightarrow> None | Some (Inl exn) \<Rightarrow> Some (Inl exn) | Some (Inr (_, _, out)) \<Rightarrow> Some (Inr ([], out)))"
| "add_files config fileHash mk (r # rs) =
     (case AddData config fileHash mk (Some r) of
        None \<Rightarrow> None | Some (Inl exn) \<Rightarrow> Some (Inl exn)
      | Some (Inr (returned, mk, out)) \<Rightarrow>
          (case add_files config fileHash mk rs of
             None \<Rightarrow> None | Some (Inl exn) \<Rightarrow> Some (Inl exn)
           | Some (Inr (more_returned, more_out)) \<Rightarrow> Some (Inr (returned # more_returned, out @ more_out))))"

lemma chunks_of_continue:
  assumes "0 < cut_min r" and "cuts r xs = (cs, rest)"
  shows "chunks_of r (xs @ ys) = cs @ chunks_of r (rest @ ys)"
  using assms(2)
proof (induction "length xs" arbitrary: xs cs rule: less_induct)
  case less
  show ?case
  proof (cases "next_cut r xs")
    case None
    with less.prems show ?thesis by (simp add: cuts_None)
  next
    case (Some n)
    note n = next_cut_props(1,2) [OF Some]
    obtain cs' rest' where rec: "cuts r (drop n xs) = (cs', rest')" by force
    with cuts_Some [OF Some assms(1) rec] less.prems have cs: "cs = take n xs # cs'" "rest' = rest" by auto
    have "chunks_of r (drop n xs @ ys) = cs' @ chunks_of r (rest @ ys)"
      by (rule less.hyps) (use rec cs n assms(1) in auto)
    moreover obtain cs2 rest2 where rec2: "cuts r (drop n xs @ ys) = (cs2, rest2)" by force
    moreover from cuts_Some [OF next_cut_append [OF Some, of ys] assms(1)] n rec2
    have "cuts r (xs @ ys) = (take n xs # cs2, rest2)" by simp
    ultimately show ?thesis using cs by (simp add: chunks_of_def)
  qed
qed

lemma AddData_reader:
  assumes "maker_inv config c mk" and "clean r"
  shows "\<exists>mk' c' bs out. AddData config fileHash mk (Some r) =
      Some (Inr ((int (length (content r)), hex_encode (fileHash (content r))), mk', out)) \<and>
    cuts (rule_of mk) (c @ buffered mk @ content r) = (bs, c' @ buffered mk') \<and> hold_all config bs out \<and>
    maker_inv config c' mk' \<and> rule_of mk' = rule_of mk"
proof -
  have "minimumChunkSize mk \<noteq> maximumChunkSize mk" using maker_invD(3) [OF assms(1)] by simp
  moreover have "bufferSize mk + reader_measure r < add_fuel mk (Some r)" by (simp add: add_fuel_def)
  ultimately show ?thesis
    using add_loop_reader [OF assms, of "add_fuel mk (Some r)" fileHash "[]" "[]"]
    by (simp add: AddData_def)
qed

lemma AddData_nil:
  assumes "maker_inv config c mk"
  shows "\<exists>mk' out. AddData config fileHash mk None = Some (Inr ((0, []), mk', out)) \<and>
    hold_all config (chunks_of (rule_of mk) (c @ buffered mk)) out"
proof -
  have "minimumChunkSize mk \<noteq> maximumChunkSize mk" using maker_invD(3) [OF assms] by simp
  moreover have "bufferSize mk < add_fuel mk None" by (simp add: add_fuel_def)
  ultimately show ?thesis
    using add_loop_nil [OF assms, of "add_fuel mk None" fileHash "[]" "[]"] by (simp add: AddData_def)
qed

lemma add_files_reference:
  assumes "maker_inv config c mk" and "list_all clean rs"
  shows "\<exists>out. add_files config fileHash mk rs =
      Some (Inr (map (\<lambda>r. (int (length (content r)), hex_encode (fileHash (content r)))) rs, out)) \<and>
    hold_all config (chunks_of (rule_of mk) (c @ buffered mk @ concat (map content rs))) out"
  using assms
proof (induction rs arbitrary: c mk)
  case Nil
  from AddData_nil [OF Nil(1), of fileHash] obtain mk' out where
    "AddData config fileHash mk None = Some (Inr ((0, []), mk', out))"
    "hold_all config (chunks_of (rule_of mk) (c @ buffered mk)) out" by blast
  then show ?case by simp
next
  case (Cons r rs)
  from Cons.prems AddData_reader [OF Cons.prems(1), of r fileHash] obtain mk' c' bs out where
    step: "AddData config fileHash mk (Some r) =
      Some (Inr ((int (length (content r)), hex_encode (fileHash (content r))), mk', out))"
      "cuts (rule_of mk) (c @ buffered mk @ content r) = (bs, c' @ buffered mk')" "hold_all config bs out"
      "maker_inv config c' mk'" "rule_of mk' = rule_of mk" by auto
  from Cons.IH [OF step(4)] Cons.prems(2) step(5) obtain out' where
    rest: "add_files config fileHash mk' rs =
      Some (Inr (map (\<lambda>r. (int (length (content r)), hex_encode (fileHash (content r)))) rs, out'))"
      "hold_all config (chunks_of (rule_of mk) ((c' @ buffered mk') @ concat (map content rs))) out'" by auto
  have "0 < cut_min (rule_of mk)" using maker_invD(2) [OF Cons.prems(1)] by simp
  from chunks_of_continue [OF this step(2), of "concat (map content rs)"]
  have "chunks_of (rule_of mk) (c @ buffered mk @ concat (map content (r # rs))) =
      bs @ chunks_of (rule_of mk) ((c' @ buffered mk') @ concat (map content rs))" by simp
  with hold_all_append [OF step(3) rest(2)] step(1) rest(1) show ?case by simp
qed

lemma created_maker_inv:
  assumes "CreateFileChunkMaker hs config hash_only = Inr mk"
    and "0 < MinimumChunkSize config" and "MinimumChunkSize config < MaximumChunkSize config"
  shows "maker_inv config [] mk" "buffered mk = []" "cut_min (rule_of mk) = nat (MinimumChunkSize config)"
    "cut_max (rule_of mk) = nat (MaximumChunkSize config)"
proof -
  from assms(1) obtain mk0 where mk: "mk = startNewChunk config mk0" "buf_ok mk0" "bufferSize mk0 = 0"
    "minimumChunkSize mk0 = nat (MinimumChunkSize config)" "maximumChunkSize mk0 = nat (MaximumChunkSize config)"
    using assms(2) by (auto simp: CreateFileChunkMaker_def buf_ok_def split: if_splits)
  then show "maker_inv config [] mk" using startNewChunk_inv assms(2,3) by simp
  show "buffered mk = []" using mk(1,3) by (simp add: buffered_def startNewChunk_def)
  show "cut_min (rule_of mk) = nat (MinimumChunkSize config)" "cut_max (rule_of mk) = nat (MaximumChunkSize config)"
    using mk by simp_all
qed

text \<open>C30: with chunks of variable size, the chunks sent for a sequence of files and the final nil are
  exactly those of the reference for the concatenated contents, whatever pieces the reads come in and
  wherever one file ends and the next begins, and each \<open>AddData\<close> returns the size and the hash of its
  file. In particular all loops end.\<close>

theorem AddData_cuts_like_reference:
  assumes "CreateFileChunkMaker hs config hash_only = Inr mk"
    and "0 < MinimumChunkSize config" and "MinimumChunkSize config < MaximumChunkSize config"
    and "list_all clean rs"
  shows "\<exists>out. add_files config fileHash mk rs =
      Some (Inr (map (\<lambda>r. (int (length (content r)), hex_encode (fileHash (content r)))) rs, out)) \<and>
    hold_all config (chunks_of (rule_of mk) (concat (map content rs))) out"
  using add_files_reference [OF created_maker_inv(1) [OF assms(1-3)] assms(4), of fileHash]
    created_maker_inv(2) [OF assms(1-3)] by simp

definition sample_config :: config where
  "sample_config = CreateConfig\<lparr>AverageChunkSize := 4, MinimumChunkSize := 2, MaximumChunkSize := 8\<rparr>"

lemma sample_maker:
  "\<exists>mk. CreateFileChunkMaker sample_hashes sample_config False = Inr mk"
proof -
  have "power_of_2_floor 4 = 4"
    by (simp add: power_of_2_floor_def double_size.simps [of 4 1] double_size.simps [of 4 2] double_size.simps [of 4 4])
  then show ?thesis by (simp add: CreateFileChunkMaker_def sample_config_def CreateConfig_def zero_config_def)
qed

theorem AddData_cuts_like_reference_witness:
  "\<exists>mk out. CreateFileChunkMaker sample_hashes sample_config False = Inr mk \<and>
    add_files sample_config id mk [[([1, 2, 3], None), ([4], Some EOF)], [([5], None)]] =
      Some (Inr ([(4, hex_encode [1, 2, 3, 4]), (1, hex_encode [5])], out)) \<and>
    hold_all sample_config (chunks_of (rule_of mk) [1, 2, 3, 4, 5]) out"
proof -
  obtain mk where mk: "CreateFileChunkMaker sample_hashes sample_config False = Inr mk" using sample_maker by blast
  have "list_all clean [[([1, 2, 3], None), ([4], Some EOF)], [([5], None)]]" by simp
  from AddData_cuts_like_reference [OF mk _ _ this, of id] mk show ?thesis
    by (simp add: sample_config_def)
qed

lemma chunks_of_props:
  assumes "0 < cut_min r" and "cut_min r < cut_max r"
  shows "concat (chunks_of r stream) = stream"
    "\<forall>b \<in> set (chunks_of r stream). b \<noteq> [] \<and> length b \<le> cut_max r"
    "\<forall>b \<in> set (butlast (chunks_of r stream)). cut_min r \<le> length b"
proof -
  obtain cs rest where c: "cuts r stream = (cs, rest)" by force
  note concat = cuts_concat [OF c] and bounds = cuts_bounds [OF assms c]
  show "concat (chunks_of r stream) = stream" using c concat by (auto simp: chunks_of_def)
  show "\<forall>b \<in> set (chunks_of r stream). b \<noteq> [] \<and> length b \<le> cut_max r"
    using c bounds assms(1) by (auto simp: chunks_of_def split: if_splits)
  show "\<forall>b \<in> set (butlast (chunks_of r stream)). cut_min r \<le> length b"
    using c bounds by (auto simp: chunks_of_def butlast_append dest: in_set_butlastD split: if_splits)
qed

text \<open>C31: the chunks sent for a sequence of files contain all bytes of the files, in order and
  nothing else; none is empty or longer than the maximum size, and none but the last is shorter than
  the minimum size.\<close>

theorem AddData_complete_and_bounded:
  assumes "CreateFileChunkMaker hs config hash_only = Inr mk"
    and "0 < MinimumChunkSize config" and "MinimumChunkSize config < MaximumChunkSize config"
    and "list_all clean rs"
  shows "\<exists>returned bs out. add_files config fileHash mk rs = Some (Inr (returned, out)) \<and> hold_all config bs out \<and>
    concat bs = concat (map content rs) \<and>
    (\<forall>b \<in> set bs. 0 < length b \<and> int (length b) \<le> MaximumChunkSize config) \<and>
    (\<forall>b \<in> set (butlast bs). MinimumChunkSize config \<le> int (length b))"
proof -
  note created = created_maker_inv [OF assms(1-3)]
  from add_files_reference [OF created(1) assms(4), of fileHash] created(2) obtain returned out where
    "add_files config fileHash mk rs = Some (Inr (returned, out))"
    "hold_all config (chunks_of (rule_of mk) (concat (map content rs))) out" by auto
  moreover have "0 < cut_min (rule_of mk)" "cut_min (rule_of mk) < cut_max (rule_of mk)"
    using created assms(2,3) by simp_all
  note props = chunks_of_props [OF this, of "concat (map content rs)"]
  have "\<forall>b \<in> set (chunks_of (rule_of mk) (concat (map content rs))). 0 < length b \<and> int (length b) \<le> MaximumChunkSize config"
    "\<forall>b \<in> set (butlast (chunks_of (rule_of mk) (concat (map content rs)))). MinimumChunkSize config \<le> int (length b)"
    using props(2,3) created(3,4) assms(2,3) by (auto simp: nat_le_iff le_nat_iff)
  ultimately show ?thesis using props(1) by blast
qed

theorem AddData_complete_and_bounded_witness:
  "\<exists>mk returned bs out. CreateFileChunkMaker sample_hashes sample_config False = Inr mk \<and>
    add_files sample_config id mk [[([1, 2, 3], None), ([4], Some EOF)]] = Some (Inr (returned, out)) \<and>
    hold_all sample_config bs out \<and> concat bs = [1, 2, 3, 4] \<and> (\<forall>b \<in> set bs. 0 < length b \<and> int (length b) \<le> 8)"
proof -
  obtain mk where mk: "CreateFileChunkMaker sample_hashes sample_config False = Inr mk" using sample_maker by blast
  have "list_all clean [[([1, 2, 3], None), ([4], Some EOF)]]" by simp
  from AddData_complete_and_bounded [OF mk _ _ this, of id] mk show ?thesis
    by (fastforce simp: sample_config_def)
qed

section \<open>Chunks of a fixed size\<close>

function blocks :: "nat \<Rightarrow> bytes \<Rightarrow> bytes list" where
  "blocks n stream = (if n = 0 \<or> stream = [] then [] else take n stream # blocks n (drop n stream))"
  by pat_completeness auto
termination
  by (relation "measure (\<lambda>(n, stream). length stream)") auto

declare blocks.simps [simp del]

lemma fixed_read_content:
  assumes "bufferStart mk \<le> minimumChunkSize mk" and "minimumChunkSize mk \<le> length (buffer mk)" and "clean rd"
  shows "\<exists>b k rd' got eof. fixed_read mk rd = Inr (mk\<lparr>buffer := b, bufferStart := k\<rparr>, rd', eof) \<and>
    length b = length (buffer mk) \<and> take k b = take (bufferStart mk) (buffer mk) @ got \<and>
    k = bufferStart mk + length got \<and> k \<le> minimumChunkSize mk \<and>
    length got + reader_measure rd' \<le> reader_measure rd \<and>
    (if eof then content rd = got else content rd = got @ content rd' \<and> clean rd' \<and> k = minimumChunkSize mk)"
  using assms
proof (induction mk rd rule: fixed_read.induct)
  case (1 mk rd)
  show ?case
  proof (cases "bufferStart mk < minimumChunkSize mk")
    case False
    then have "fixed_read mk rd = Inr (mk\<lparr>buffer := buffer mk, bufferStart := bufferStart mk\<rparr>, rd, False)"
      by (simp add: fixed_read.simps)
    with False 1 show ?thesis
      by (intro exI [of _ "buffer mk"] exI [of _ "bufferStart mk"] exI [of _ rd] exI [of _ "[]"] exI [of _ False]) simp
  next
    case True
    obtain bs err rest where read: "reader_Read (minimumChunkSize mk - bufferStart mk) rd = (bs, err, rest)"
      by (metis prod_cases3)
    note clean = reader_Read_clean [OF "1.prems"(3) read]
    let ?b = "write_at (bufferStart mk) bs (buffer mk)" and ?k = "bufferStart mk + length bs"
    let ?mk = "mk\<lparr>buffer := ?b, bufferStart := ?k\<rparr>"
    have len: "length ?b = length (buffer mk)" "?k \<le> minimumChunkSize mk"
      using clean(1) True "1.prems"(2) by (auto simp: write_at_def)
    have front: "take ?k ?b = take (bufferStart mk) (buffer mk) @ bs"
      using True "1.prems"(2) by (simp add: write_at_def)
    have step: "fixed_read mk rd = (if err = Some EOF then Inr (?mk, rest, True) else fixed_read ?mk rest)"
      using True read clean(2) by (subst fixed_read.simps) auto
    show ?thesis
    proof (cases "err = Some EOF")
      case eof: True
      with step len front clean show ?thesis
        by (intro exI [of _ ?b] exI [of _ ?k] exI [of _ rest] exI [of _ bs] exI [of _ True]) simp
    next
      case False
      with clean(2) have err: "err = None" by simp
      have "\<exists>b k rd' got eof. fixed_read ?mk rest = Inr (?mk\<lparr>buffer := b, bufferStart := k\<rparr>, rd', eof) \<and>
          length b = length (buffer ?mk) \<and> take k b = take (bufferStart ?mk) (buffer ?mk) @ got \<and>
          k = bufferStart ?mk + length got \<and> k \<le> minimumChunkSize ?mk \<and>
          length got + reader_measure rd' \<le> reader_measure rest \<and>
          (if eof then content rest = got else content rest = got @ content rd' \<and> clean rd' \<and> k = minimumChunkSize ?mk)"
        by (rule "1.IH" [OF True read [symmetric] refl]) (use err clean(4) len "1.prems"(2) in auto)
      then obtain b k rd' got eof where
        ih: "fixed_read ?mk rest = Inr (?mk\<lparr>buffer := b, bufferStart := k\<rparr>, rd', eof)"
          "length b = length (buffer ?mk)" "take k b = take (bufferStart ?mk) (buffer ?mk) @ got"
          "k = bufferStart ?mk + length got" "k \<le> minimumChunkSize ?mk"
          "length got + reader_measure rd' \<le> reader_measure rest"
          "if eof then content rest = got else content rest = got @ content rd' \<and> clean rd' \<and> k = minimumChunkSize ?mk"
        by blast
      with ih step False len front clean(4) [OF err] clean(5) show ?thesis
        by (intro exI [of _ b] exI [of _ k] exI [of _ rd'] exI [of _ "bs @ got"] exI [of _ eof]) (auto split: if_splits)
    qed
  qed
qed

lemma fixed_loop_blocks:
  assumes "0 < minimumChunkSize mk" and "minimumChunkSize mk \<le> length (buffer mk)" and "clean rd"
    and "reader_measure rd < n"
  shows "\<exists>mk' out. fixed_loop config fileHash n mk rd hashed sent =
      Some (Inr ((int (length (hashed @ content rd)), hex_encode (fileHash (hashed @ content rd))), mk', sent @ out)) \<and>
    hold_all config (blocks (minimumChunkSize mk) (content rd)) out"
  using assms
proof (induction n arbitrary: mk rd hashed sent)
  case (Suc n)
  let ?m = "minimumChunkSize mk" and ?mk = "(startNewChunk config mk)\<lparr>bufferStart := 0\<rparr>"
  have start: "minimumChunkSize ?mk = ?m" "buffer ?mk = buffer mk" "bufferStart ?mk = 0"
    "holds config [] (maker_chunk ?mk)"
    by (simp_all add: startNewChunk_def)
  have "bufferStart ?mk \<le> minimumChunkSize ?mk" "minimumChunkSize ?mk \<le> length (buffer ?mk)"
    using start Suc.prems(2) by simp_all
  from fixed_read_content [OF this Suc.prems(3)] obtain b k rd' got eof where
    raw: "fixed_read ?mk rd = Inr (?mk\<lparr>buffer := b, bufferStart := k\<rparr>, rd', eof)" "length b = length (buffer ?mk)"
      "take k b = take (bufferStart ?mk) (buffer ?mk) @ got"
      "k = bufferStart ?mk + length got" "k \<le> minimumChunkSize ?mk" "length got + reader_measure rd' \<le> reader_measure rd"
      "if eof then content rd = got else content rd = got @ content rd' \<and> clean rd' \<and> k = minimumChunkSize ?mk"
    by blast
  have read: "fixed_read ?mk rd = Inr (?mk\<lparr>buffer := b, bufferStart := k\<rparr>, rd', eof)" "length b = length (buffer mk)"
      "take k b = got" "k = length got" "k \<le> ?m" "length got + reader_measure rd' \<le> reader_measure rd"
      "if eof then content rd = got else content rd = got @ content rd' \<and> clean rd' \<and> k = ?m"
    using raw unfolding start by simp_all
  let ?mk1 = "?mk\<lparr>buffer := b, bufferStart := k\<rparr>"
  let ?mk2 = "if 0 < k then ?mk1\<lparr>maker_chunk := chunk_Write got (maker_chunk ?mk1)\<rparr> else ?mk1"
  let ?out = "if 0 < k then [maker_chunk ?mk2] else []"
  have mk2: "minimumChunkSize ?mk2 = ?m" "buffer ?mk2 = b" using start by simp_all
  have slice: "slice b 0 k = Inr got" using read(2-5) Suc.prems(2) by simp
  have chunk: "hold_all config (if got = [] then [] else [got]) ?out"
    using holds_Write [OF start(4), of got] read(4) by auto
  have step: "fixed_loop config fileHash (Suc n) mk rd hashed sent =
      (if eof then Some (Inr ((int (length (hashed @ got)), hex_encode (fileHash (hashed @ got))), ?mk2, sent @ ?out))
       else fixed_loop config fileHash n ?mk2 rd' (hashed @ got) (sent @ ?out))"
    using read(1) slice by (simp add: Let_def)
  show ?case
  proof (cases eof)
    case True
    then have got: "content rd = got" using read(7) by simp
    have "blocks ?m got = (if got = [] then [] else [got])"
      using read(4,5) Suc.prems(1) by (subst blocks.simps) (simp add: blocks.simps)
    with True got step chunk show ?thesis by (intro exI [of _ ?mk2] exI [of _ ?out]) simp
  next
    case False
    then have rest: "content rd = got @ content rd'" "clean rd'" "length got = ?m" using read(4,7) by auto
    have measure: "reader_measure rd' < n" using read(6) rest(3) Suc.prems(1,4) by linarith
    have "minimumChunkSize mk \<le> length (buffer ?mk2)" using mk2 read(2) Suc.prems(2) by simp
    from Suc.IH [of ?mk2 rd' "hashed @ got" "sent @ ?out"] mk2 this Suc.prems(1) rest(2) measure obtain mk' out where
      rec: "fixed_loop config fileHash n ?mk2 rd' (hashed @ got) (sent @ ?out) =
        Some (Inr ((int (length ((hashed @ got) @ content rd')), hex_encode (fileHash ((hashed @ got) @ content rd'))), mk', (sent @ ?out) @ out))"
        "hold_all config (blocks ?m (content rd')) out" by metis
    have got: "got \<noteq> []" using rest(3) Suc.prems(1) by auto
    then have "blocks ?m (content rd) = got # blocks ?m (content rd')"
      using rest Suc.prems(1) by (subst blocks.simps) simp
    moreover have "hold_all config [got] ?out" using chunk got by simp
    ultimately have "hold_all config (blocks ?m (content rd)) (?out @ out)"
      using hold_all_append [OF _ rec(2), of "[got]" ?out] by simp
    moreover have "fixed_loop config fileHash (Suc n) mk rd hashed sent =
        Some (Inr ((int (length (hashed @ content rd)), hex_encode (fileHash (hashed @ content rd))), mk', sent @ (?out @ out)))"
      unfolding step using False rec(1) rest(1) by (simp del: fixed_loop.simps)
    ultimately show ?thesis by blast
  qed
qed simp

text \<open>When the minimum and the maximum size are equal, a file is cut into blocks of that size,
  only the last of which may be shorter, in whatever state earlier files have left the maker; its
  size and hash are returned.\<close>

theorem AddData_fixed_blocks:
  assumes "minimumChunkSize mk = maximumChunkSize mk" and "0 < minimumChunkSize mk"
    and "minimumChunkSize mk \<le> length (buffer mk)" and "clean r"
  shows "\<exists>mk' out. AddData config fileHash mk (Some r) =
      Some (Inr ((int (length (content r)), hex_encode (fileHash (content r))), mk', out)) \<and>
    hold_all config (blocks (minimumChunkSize mk) (content r)) out"
proof -
  have "reader_measure r < add_fuel mk (Some r)" by (simp add: add_fuel_def)
  from fixed_loop_blocks [OF assms(2,3,4) this, of config fileHash "[]" "[]"] assms(1) show ?thesis
    by (simp add: AddData_def)
qed

definition sample_fixed_maker :: maker where
  "sample_fixed_maker = \<lparr>maximumChunkSize = 2, minimumChunkSize = 2, bufferCapacity = 4, hashMask = 1,
     randomTable = replicate 256 1, buffer = replicate 4 0, bufferSize = 0, bufferStart = 0,
     minimumReached = False, hashSum = 0, maker_chunk = CreateChunk True, hashOnly = False\<rparr>"

theorem AddData_fixed_blocks_witness:
  "\<exists>mk' out. AddData CreateConfig id sample_fixed_maker (Some [([1], None), ([2, 3], Some EOF)]) =
      Some (Inr ((3, hex_encode [1, 2, 3]), mk', out)) \<and> hold_all CreateConfig [[1, 2], [3]] out"
proof -
  have "blocks 2 [1, 2, 3 :: byte] = [[1, 2], [3]]" by (simp add: blocks.simps)
  with AddData_fixed_blocks [of sample_fixed_maker "[([1], None), ([2, 3], Some EOF)]" CreateConfig id]
  show ?thesis by (simp add: sample_fixed_maker_def)
qed

section \<open>Using a maker again\<close>

lemma AddData_nil_small:
  assumes "buf_ok mk" and "minimumChunkSize mk < maximumChunkSize mk" and "holds config c (maker_chunk mk)"
    and "bufferSize mk < minimumChunkSize mk"
  shows "\<exists>ch start. AddData config fileHash mk None = Some (Inr ((0, []),
      mk\<lparr>maker_chunk := ch, bufferStart := start, bufferSize := 0\<rparr>, if c @ buffered mk = [] then [] else [ch])) \<and>
    holds config (c @ buffered mk) ch \<and> buf_ok (mk\<lparr>maker_chunk := ch, bufferStart := start, bufferSize := 0\<rparr>)"
proof -
  from fill_buffered [OF assms(1) order_refl assms(3)] obtain ch start where
    fill: "fill (bufferSize mk) mk = Inr (mk\<lparr>maker_chunk := ch, bufferStart := start, bufferSize := 0\<rparr>)"
      "holds config (c @ buffered mk) ch"
      "buf_ok (mk\<lparr>maker_chunk := ch, bufferStart := start, bufferSize := 0\<rparr>)" by auto
  have "process_buffer config fileHash True mk [] False = Inr (Done (0, []),
      mk\<lparr>maker_chunk := ch, bufferStart := start, bufferSize := 0\<rparr>, if c @ buffered mk = [] then [] else [ch])"
    using assms(4) fill(1) holds_Nil_iff [OF fill(2)] by (simp add: process_buffer_def)
  then have "AddData config fileHash mk None = Some (Inr ((0, []),
      mk\<lparr>maker_chunk := ch, bufferStart := start, bufferSize := 0\<rparr>, if c @ buffered mk = [] then [] else [ch]))"
    using assms(2) by (simp add: AddData_def add_fuel_def)
  with fill show ?thesis by blast
qed

lemma AddData_small_file:
  assumes "buf_ok mk" and "minimumChunkSize mk < maximumChunkSize mk" and "bufferSize mk = 0" and "clean r"
    and "length (content r) < minimumChunkSize mk"
  shows "\<exists>mk'. AddData config fileHash mk (Some r) =
      Some (Inr ((int (length (content r)), hex_encode (fileHash (content r))), mk', [])) \<and>
    same_maker mk mk' \<and> buf_ok mk' \<and> buffered mk' = content r"
proof -
  from read_loop_content [OF assms(1,4), of "[]"] obtain mk1 r1 got eof where
    read: "read_loop mk r [] = Inr (mk1, r1, got, eof)" "buf_ok mk1" "same_maker mk mk1" "buffered mk1 = buffered mk @ got"
      "if eof then content r = got
       else content r = got @ content r1 \<and> clean r1 \<and> bufferSize mk1 = bufferCapacity mk1" by auto
  have none: "buffered mk = []" using assms(3) by (simp add: buffered_def)
  have size: "bufferSize mk1 = length got" using read(4) none by (metis append_Nil length_buffered)
  obtain b k where "mk1 = mk\<lparr>buffer := b, bufferSize := k\<rparr>" using read(3) by (auto simp: same_maker_def)
  then have m: "minimumChunkSize mk1 = minimumChunkSize mk" "bufferCapacity mk1 = bufferCapacity mk" by simp_all
  have "length got \<le> length (content r)" using read(5) by (auto split: if_splits)
  with assms(5) size m read(2) have eof: "eof" "content r = got"
    using read(5) by (auto simp: buf_ok_def split: if_splits)
  have "bufferSize mk1 < minimumChunkSize mk1" using size m eof assms(5) by simp
  then have "process_buffer config fileHash False mk1 got True =
      Inr (Done (int (length got), hex_encode (fileHash got)), mk1, [])" by (simp add: process_buffer_def)
  then have "AddData config fileHash mk (Some r) =
      Some (Inr ((int (length got), hex_encode (fileHash got)), mk1, []))"
    using assms(2) read(1) eof by (simp add: AddData_def add_fuel_def)
  with read(2-4) none eof show ?thesis by auto
qed

text \<open>After \<open>AddData(nil)\<close> has sent a last chunk shorter than the minimum size, the maker keeps
  that chunk and does not start a new one: for a second file cut with the same maker, as
  \<open>RestoreFile\<close> does for existing files, the chunk sent holds the end of the first file followed by
  the second one, so its hash is not that of a chunk of the second file.\<close>

theorem AddData_nil_keeps_chunk:
  assumes "maker_inv config [] mk" and "bufferSize mk = 0" and "\<not> minimumReached mk"
    and "clean r1" and "clean r2" and "content r1 \<noteq> []"
    and "length (content r1) < minimumChunkSize mk" and "length (content r2) < minimumChunkSize mk"
  shows "\<exists>ret1 mk1 mk2 ch1 ret2 mk3 mk4 ch2.
    AddData config fileHash mk (Some r1) = Some (Inr (ret1, mk1, [])) \<and>
    AddData config fileHash mk1 None = Some (Inr ((0, []), mk2, [ch1])) \<and> holds config (content r1) ch1 \<and>
    AddData config fileHash mk2 (Some r2) = Some (Inr (ret2, mk3, [])) \<and>
    AddData config fileHash mk3 None = Some (Inr ((0, []), mk4, [ch2])) \<and>
    holds config (content r1 @ content r2) ch2"
proof -
  note facts = maker_invD [OF assms(1)]
  from AddData_small_file [OF facts(1,3) assms(2,4,7), of config fileHash] obtain ret1 mk1 b k where
    s1: "AddData config fileHash mk (Some r1) = Some (Inr (ret1, mk1, []))" "buf_ok mk1" "buffered mk1 = content r1"
      "mk1 = mk\<lparr>buffer := b, bufferSize := k\<rparr>" by (auto simp: same_maker_def)
  have size1: "bufferSize mk1 = length (content r1)" using s1(3) by (metis length_buffered)
  have "minimumChunkSize mk1 < maximumChunkSize mk1" "holds config [] (maker_chunk mk1)" "bufferSize mk1 < minimumChunkSize mk1"
    using s1(4) size1 facts assms(7) by simp_all
  from AddData_nil_small [OF s1(2) this, of fileHash, unfolded s1(3) append_Nil] obtain ch1 start where
    s2: "AddData config fileHash mk1 None = Some (Inr ((0, []), mk1\<lparr>maker_chunk := ch1, bufferStart := start, bufferSize := 0\<rparr>,
        if content r1 = [] then [] else [ch1]))" "holds config (content r1) ch1"
      "buf_ok (mk1\<lparr>maker_chunk := ch1, bufferStart := start, bufferSize := 0\<rparr>)" by blast
  let ?mk2 = "mk1\<lparr>maker_chunk := ch1, bufferStart := start, bufferSize := 0\<rparr>"
  have "minimumChunkSize ?mk2 < maximumChunkSize ?mk2" "bufferSize ?mk2 = 0"
    "length (content r2) < minimumChunkSize ?mk2" using s1(4) facts(3) assms(8) by simp_all
  from AddData_small_file [OF s2(3) this(1,2) assms(5) this(3), of config fileHash] obtain ret2 mk3 b3 k3 where
    s3: "AddData config fileHash ?mk2 (Some r2) = Some (Inr (ret2, mk3, []))" "buf_ok mk3" "buffered mk3 = content r2"
      "mk3 = ?mk2\<lparr>buffer := b3, bufferSize := k3\<rparr>" by (auto simp: same_maker_def)
  have size3: "bufferSize mk3 = length (content r2)" using s3(3) by (metis length_buffered)
  have "minimumChunkSize mk3 < maximumChunkSize mk3" "holds config (content r1) (maker_chunk mk3)" "bufferSize mk3 < minimumChunkSize mk3"
    using s3(4) s1(4) s2(2) size3 facts(3) assms(8) by simp_all
  from AddData_nil_small [OF s3(2) this, of fileHash, unfolded s3(3)] obtain ch2 mk4 where
    "AddData config fileHash mk3 None = Some (Inr ((0, []), mk4, if content r1 @ content r2 = [] then [] else [ch2]))"
    "holds config (content r1 @ content r2) ch2" by blast
  with s1(1) s2(1,2) s3(1) assms(6) show ?thesis by auto
qed

theorem AddData_nil_keeps_chunk_witness:
  "\<exists>mk ret1 mk1 mk2 ch1 ret2 mk3 mk4 ch2. CreateFileChunkMaker sample_hashes sample_config False = Inr mk \<and>
    AddData sample_config id mk (Some [([1], None)]) = Some (Inr (ret1, mk1, [])) \<and>
    AddData sample_config id mk1 None = Some (Inr ((0, []), mk2, [ch1])) \<and> holds sample_config [1] ch1 \<and>
    AddData sample_config id mk2 (Some [([2], None)]) = Some (Inr (ret2, mk3, [])) \<and>
    AddData sample_config id mk3 None = Some (Inr ((0, []), mk4, [ch2])) \<and> holds sample_config [1, 2] ch2"
proof -
  obtain mk where mk: "CreateFileChunkMaker sample_hashes sample_config False = Inr mk" using sample_maker by blast
  have inv: "maker_inv sample_config [] mk" "minimumChunkSize mk = 2" "bufferSize mk = 0"
    using created_maker_inv [OF mk] length_buffered [of mk] by (simp_all add: sample_config_def)
  have "\<not> minimumReached mk" using inv(1,3) by (auto simp: maker_inv_def buf_ok_def)
  from AddData_nil_keeps_chunk [OF inv(1,3) this, of "[([1], None)]" "[([2], None)]" id] inv(2) mk
  show ?thesis by (simp add: exI)
qed

end
