(* ===== verification/ChunkCodec.thy ===== *)
theory ChunkCodec
  imports Chunk Entry
begin

text \<open>
  Encryption, compression and erasure coding of a chunk: \<open>Encrypt\<close> and \<open>Decrypt\<close> of
  \<open>duplicacy_chunk.go\<close>.

  The ciphers, the compressors, the Reed-Solomon code and the shard hash are not part of the
  repository: they are the fields of a record \<open>codecs\<close> that is an argument of the definitions.
  What \<open>rand.Read\<close> delivers is an argument as well. The result of both operations is the
  returned error, or \<open>None\<close>, and the chunk; an exception is a runtime panic or a \<open>LOG_ERROR\<close>.

  Shown here: decrypting gives back the encrypted content for every compression level, with and
  without encryption, RSA and erasure coding; and a chunk with erasure coding is still recovered
  when at most as many shards are damaged as there are parity shards.
\<close>

section \<open>Parameters\<close>

record codecs =
  aes_key_ok :: "bytes \<Rightarrow> bool"
  gcm_Seal :: "bytes \<Rightarrow> bytes \<Rightarrow> bytes \<Rightarrow> bytes"                  \<comment> \<open>key, nonce, plain text\<close>
  gcm_Open :: "bytes \<Rightarrow> bytes \<Rightarrow> bytes \<Rightarrow> goerror + bytes"
  rsa_EncryptOAEP :: "bytes \<Rightarrow> bytes \<Rightarrow> bytes \<Rightarrow> goerror + bytes"  \<comment> \<open>public key, randomness, message\<close>
  rsa_DecryptOAEP :: "bytes \<Rightarrow> bytes \<Rightarrow> goerror + bytes"
  zlib_deflate :: "int \<Rightarrow> bytes \<Rightarrow> bytes"
  zlib_inflate :: "bytes \<Rightarrow> goerror + bytes"
  zstd_encode :: "int \<Rightarrow> bytes \<Rightarrow> goerror + bytes"
  zstd_decode :: "bytes \<Rightarrow> goerror + bytes"
  lz4_Encode :: "bytes \<Rightarrow> goerror + bytes"
  lz4_Decode :: "bytes \<Rightarrow> goerror + bytes"
  rs_New :: "int \<Rightarrow> int \<Rightarrow> goerror option"
  rs_Encode :: "nat \<Rightarrow> nat \<Rightarrow> bytes list \<Rightarrow> bytes list"           \<comment> \<open>the parity shards\<close>
  rs_Reconstruct :: "nat \<Rightarrow> nat \<Rightarrow> bytes list \<Rightarrow> goerror + bytes list"  \<comment> \<open>a missing shard is empty\<close>
  highwayhash :: "bytes \<Rightarrow> bytes"
  wronghighwayhash :: "bytes \<Rightarrow> bytes"

record entropy =
  random_key :: "goerror + bytes"
  random_nonce :: "goerror + bytes"
  random_oaep :: bytes

definition ENCRYPTION_BANNER :: bytes where
  "ENCRYPTION_BANNER = string_bytes ''duplicacy'' @ [0]"

definition ENCRYPTION_VERSION_RSA :: byte where "ENCRYPTION_VERSION_RSA = 2"

definition ERASURE_CODING_BANNER :: bytes where
  "ERASURE_CODING_BANNER = string_bytes ''duplicacy'' @ [3]"

section \<open>Encrypt\<close>

definition encryption_key ::
  "hashes \<Rightarrow> config \<Rightarrow> entropy \<Rightarrow> bytes \<Rightarrow> bytes \<Rightarrow> bool \<Rightarrow> (goerror + bytes \<times> bool) res" where
  "encryption_key hs config ent encryptionKey derivationKey isMetadata =
     (if rsaPublicKey config \<noteq> None \<and> \<not> isMetadata then
        Inr (bind_res (random_key ent) (\<lambda>key. Inr (key, True)))
      else if derivationKey \<noteq> [] then
        bind_res (NewKeyedHasher hs config derivationKey) (\<lambda>h. Inr (Inr (h encryptionKey, False)))
      else Inr (Inr (encryptionKey, False)))"

text \<open>Banner, version, the RSA encrypted key if there is one, and the nonce.\<close>

definition encryption_header ::
  "codecs \<Rightarrow> config \<Rightarrow> entropy \<Rightarrow> bytes \<Rightarrow> bool \<Rightarrow> goerror + bytes \<times> bytes" where
  "encryption_header cr config ent key usingRSA =
     (if \<not> aes_key_ok cr key then Inl (GoErr ''crypto/aes: invalid key size'')
      else
        bind_res
          (if usingRSA then
             bind_res (rsa_EncryptOAEP cr (the (rsaPublicKey config)) (random_oaep ent) key) (\<lambda>encryptedKey.
               Inr (butlast ENCRYPTION_BANNER @ [ENCRYPTION_VERSION_RSA] @ le_bytes 2 (length encryptedKey) @ encryptedKey))
           else Inr ENCRYPTION_BANNER)
          (\<lambda>header. bind_res (random_nonce ent) (\<lambda>nonce. Inr (header @ nonce, nonce))))"

definition compress :: "codecs \<Rightarrow> int \<Rightarrow> bytes \<Rightarrow> goerror + bytes" where
  "compress cr level content =
     (if -1 \<le> level \<and> level \<le> 9 then Inr (zlib_deflate cr level content)
      else if ZSTD_COMPRESSION_LEVEL_FASTEST \<le> level \<and> level \<le> ZSTD_COMPRESSION_LEVEL_BEST then
        bind_res (zstd_encode cr level content) (\<lambda>c. Inr (string_bytes ''ZSTD'' @ c))
      else if level = DEFAULT_COMPRESSION_LEVEL then
        (case lz4_Encode cr content of Inl err \<Rightarrow> Inl (GoErr ''LZ4 compression error'')
         | Inr c \<Rightarrow> Inr (string_bytes ''LZ4 '' @ c))
      else Inl (GoErr ''Invalid compression level''))"

definition pad :: "bytes \<Rightarrow> bytes" where
  "pad content = (let paddingLength = 256 - length content mod 256
     in content @ replicate paddingLength (of_nat paddingLength))"

text \<open>The 14 bytes of the erasure coding header.\<close>

definition xor_at :: "bytes \<Rightarrow> nat \<Rightarrow> byte" where
  "xor_at h k = h ! k XOR h ! (k + 2) XOR h ! (k + 4) XOR h ! (k + 6) XOR h ! (k + 8) XOR h ! (k + 10)"

definition erasure_header :: "nat \<Rightarrow> nat \<Rightarrow> nat \<Rightarrow> bytes" where
  "erasure_header chunkSize dataShards parityShards =
     (let h = le_bytes 8 chunkSize @ le_bytes 2 dataShards @ le_bytes 2 parityShards
      in h @ [xor_at h 0, xor_at h 1])"

definition split_shards :: "nat \<Rightarrow> nat \<Rightarrow> bytes \<Rightarrow> bytes list" where
  "split_shards count shardSize content = map (\<lambda>i. take shardSize (drop (i * shardSize) content)) [0..<count]"

definition erasure_shards :: "codecs \<Rightarrow> nat \<Rightarrow> nat \<Rightarrow> bytes \<Rightarrow> bytes list" where
  "erasure_shards cr dataShards parityShards content =
     (let chunkSize = length content;
          shardSize = (chunkSize + dataShards - 1) div dataShards;
          shards = split_shards dataShards shardSize (content @ replicate (shardSize * dataShards - chunkSize) 0)
      in shards @ rs_Encode cr dataShards parityShards shards)"

definition erasure_layout :: "bytes \<Rightarrow> bytes list \<Rightarrow> bytes list \<Rightarrow> bytes" where
  "erasure_layout header hashes shards =
     ERASURE_CODING_BANNER @ header @ concat hashes @ concat shards @ header"

definition erasure_encode :: "codecs \<Rightarrow> config \<Rightarrow> bytes \<Rightarrow> (goerror + bytes) res" where
  "erasure_encode cr config content =
     (case rs_New cr (DataShards config) (ParityShards config) of
        Some err \<Rightarrow> Inr (Inl err)
      | None \<Rightarrow>
          if DataShards config < 0 \<or> ParityShards config < 0 then Inl (Panic ''makeslice: len out of range'')
          else
            let d = nat (DataShards config); p = nat (ParityShards config);
                shards = erasure_shards cr d p content
            in Inr (Inr (erasure_layout (erasure_header (length content) d p)
                           (map (highwayhash cr) shards) shards)))"

text \<open>Key and header, for an empty encryption key both are empty.\<close>

definition key_and_header ::
  "hashes \<Rightarrow> codecs \<Rightarrow> config \<Rightarrow> entropy \<Rightarrow> bytes \<Rightarrow> bytes \<Rightarrow> bool \<Rightarrow> (goerror + bytes \<times> bytes \<times> bytes) res" where
  "key_and_header hs cr config ent encryptionKey derivationKey isMetadata =
     (if encryptionKey = [] then Inr (Inr ([], [], []))
      else bind_res (encryption_key hs config ent encryptionKey derivationKey isMetadata) (\<lambda>r.
        Inr (bind_res r (\<lambda>(key, usingRSA).
          bind_res (encryption_header cr config ent key usingRSA) (\<lambda>(header, nonce).
            Inr (key, header, nonce))))))"

text \<open>The content of \<open>encryptedBuffer\<close> before erasure coding.\<close>

definition encrypt_bytes ::
  "hashes \<Rightarrow> codecs \<Rightarrow> config \<Rightarrow> entropy \<Rightarrow> bytes \<Rightarrow> bytes \<Rightarrow> bool \<Rightarrow> bytes \<Rightarrow> (goerror + bytes) res" where
  "encrypt_bytes hs cr config ent encryptionKey derivationKey isMetadata content =
     bind_res (key_and_header hs cr config ent encryptionKey derivationKey isMetadata) (\<lambda>r.
       Inr (bind_res r (\<lambda>(key, header, nonce).
         bind_res (compress cr (CompressionLevel config) content) (\<lambda>c.
           Inr (if encryptionKey = [] then c else header @ gcm_Seal cr key nonce (pad c))))))"

definition Encrypt ::
  "hashes \<Rightarrow> codecs \<Rightarrow> config \<Rightarrow> entropy \<Rightarrow> bytes \<Rightarrow> bytes \<Rightarrow> bool \<Rightarrow> chunk \<Rightarrow> (goerror option \<times> chunk) res" where
  "Encrypt hs cr config ent encryptionKey derivationKey isMetadata chunk =
     bind_res (GetBytes chunk) (\<lambda>content.
     bind_res (encrypt_bytes hs cr config ent encryptionKey derivationKey
                 (isMetadata \<or> chunk_isMetadata chunk) content) (\<lambda>r.
     case r of
       Inl err \<Rightarrow> Inr (Some err, chunk)
     | Inr encrypted \<Rightarrow>
         if DataShards config = 0 \<or> ParityShards config = 0
         then Inr (None, chunk\<lparr>chunk_buffer := Some encrypted\<rparr>)
         else bind_res (erasure_encode cr config encrypted) (\<lambda>r.
           case r of Inl err \<Rightarrow> Inr (Some err, chunk)
           | Inr encoded \<Rightarrow> Inr (None, chunk\<lparr>chunk_buffer := Some encoded\<rparr>))))"

section \<open>Decrypt\<close>

text \<open>The slice expression with the integers computed from a header.\<close>

definition slice_int :: "'a list \<Rightarrow> int \<Rightarrow> int \<Rightarrow> 'a list res" where
  "slice_int xs i j = (if 0 \<le> i \<and> i \<le> j then slice xs (nat i) (nat j) else Inl (Panic ''slice bounds out of range''))"

text \<open>\<open>bytes.Buffer.Truncate\<close>\<close>

definition Truncate :: "bytes \<Rightarrow> int \<Rightarrow> bytes res" where
  "Truncate b n = (if 0 \<le> n \<and> n \<le> int (length b) then Inr (take (nat n) b)
     else Inl (Panic ''bytes.Buffer: truncation out of range''))"

text \<open>The loop that verifies the shards. The state holds the slots (empty for a shard that is missing),
  whether a data shard has to be recovered, the number of good shards, and whether the chunk has to be
  rewritten; a warning is logged for the first shard that only matches the wrong hash.\<close>

function shard_loop ::
  "codecs \<Rightarrow> bool \<Rightarrow> bytes \<Rightarrow> nat \<Rightarrow> nat \<Rightarrow> int \<Rightarrow> nat \<Rightarrow> nat \<Rightarrow> nat \<Rightarrow>
     bytes list \<times> bool \<times> nat \<times> bool \<Rightarrow> (bytes list \<times> bool \<times> nat \<times> bool) res" where
  "shard_loop cr arm64 content dataShards shardCount shardSize hashOffset dataOffset i (slots, recoveryNeeded, available, rewriteNeeded) =
     (if i < shardCount then
        let start = int dataOffset + int i * shardSize in
        if int (length content) < start + shardSize
        then Inr (slots, recoveryNeeded, available, rewriteNeeded)
        else bind_res (slice_int content start (start + shardSize)) (\<lambda>shard.
             bind_res (slice content (hashOffset + i * 32) (hashOffset + (i + 1) * 32)) (\<lambda>hash.
               let matched = (highwayhash cr shard = hash);
                   wrong = (\<not> matched \<and> arm64 \<and> wronghighwayhash cr shard = hash);
                   rewriteNeeded = (rewriteNeeded \<or> wrong)
               in if \<not> matched \<and> \<not> wrong then
                    shard_loop cr arm64 content dataShards shardCount shardSize hashOffset dataOffset (Suc i)
                      (if i < dataShards then (slots, True, available, True)
                       else (slots, recoveryNeeded, available, rewriteNeeded))
                  else if dataShards \<le> Suc available
                    then Inr (slots[i := shard], recoveryNeeded, Suc available, rewriteNeeded)
                  else shard_loop cr arm64 content dataShards shardCount shardSize hashOffset dataOffset (Suc i)
                    (slots[i := shard], recoveryNeeded, Suc available, rewriteNeeded)))
      else Inr (slots, recoveryNeeded, available, rewriteNeeded))"
  by pat_completeness auto
termination
  by (relation "measure (\<lambda>(_, _, _, _, shardCount, _, _, _, i, _). shardCount - i)") auto

declare shard_loop.simps [simp del]

text \<open>Undoing the erasure coding: the content, and whether the chunk should be written again. The
  shard size is computed with the number of data shards of the config, not that of the header.\<close>

definition erasure_decode :: "codecs \<Rightarrow> bool \<Rightarrow> config \<Rightarrow> bytes \<Rightarrow> (goerror + bytes \<times> bool) res" where
  "erasure_decode cr arm64 config content =
     (let bannerLength = length ENCRYPTION_BANNER; len = int (length content) in
      if length content < bannerLength + 14 then Inr (Inl (GoErr ''Erasure coding header truncated''))
      else
        let header = take 14 (drop bannerLength content) in
        if header ! 12 \<noteq> xor_at header 0 \<or> header ! 13 \<noteq> xor_at header 1
        then Inr (Inl (GoErr ''Erasure coding header corrupted''))
        else if DataShards config = 0 then Inl (Panic ''integer divide by zero'')
        else
          let chunkSize = int_of_uint64 (le_nat (take 8 header));
              dataShards = le_nat (take 2 (drop 8 header));
              parityShards = le_nat (take 2 (drop 10 header));
              shardSize = (chunkSize + DataShards config - 1) sdiv DataShards config;
              shardCount = dataShards + parityShards;
              expectedLength = int bannerLength + 28 + int shardCount * (shardSize + 32);
              minimumLength = int bannerLength + 14 + int shardCount * 32 + int dataShards * shardSize
          in if len < expectedLength \<and> len \<le> minimumLength
             then Inr (Inl (GoErr ''Not enough chunk data for recovery''))
             else
               let hashOffset = bannerLength + 14; dataOffset = hashOffset + shardCount * 32 in
               bind_res (shard_loop cr arm64 content dataShards shardCount shardSize hashOffset dataOffset 0
                          (replicate shardCount [], False, 0, False)) (\<lambda>(slots, recoveryNeeded, available, rewriteNeeded).
                 if \<not> recoveryNeeded then
                   bind_res (Truncate content (int dataOffset + chunkSize)) (\<lambda>b.
                     Inr (Inr (drop dataOffset b, rewriteNeeded)))
                 else if available < dataShards then Inr (Inl (GoErr ''Not enough chunk data for recover''))
                 else case rs_New cr (int dataShards) (int parityShards) of
                   Some err \<Rightarrow> Inr (Inl err)
                 | None \<Rightarrow>
                     (case rs_Reconstruct cr dataShards parityShards slots of
                        Inl err \<Rightarrow> Inr (Inl err)
                      | Inr shards \<Rightarrow>
                          bind_res (Truncate (concat (take dataShards shards)) chunkSize) (\<lambda>b.
                            Inr (Inr (b, rewriteNeeded))))))"

text \<open>Removing the padding from the decrypted bytes, which follow the \<open>offset\<close> bytes of the header.\<close>

definition unpad :: "nat \<Rightarrow> bytes \<Rightarrow> goerror + bytes" where
  "unpad offset decrypted =
     (let paddingLength = (if last decrypted = 0 then 256 else unat (last decrypted)) in
      if length decrypted \<le> paddingLength then Inl (GoErr ''Incorrect padding length'')
      else if \<not> list_all (\<lambda>b. b = of_nat paddingLength) (drop (length decrypted - paddingLength) decrypted)
      then Inl (GoErr ''Incorrect padding of length'')
      else Inr (drop offset (take (length decrypted - paddingLength) decrypted)))"

definition derived_key :: "hashes \<Rightarrow> bool \<Rightarrow> config \<Rightarrow> bytes \<Rightarrow> bytes \<Rightarrow> bytes res" where
  "derived_key hs withHMACSHA256 config encryptionKey derivationKey =
     (if derivationKey = [] then Inr encryptionKey
      else if withHMACSHA256 then Inr (hmac_sha256 hs derivationKey encryptionKey)
      else bind_res (NewKeyedHasher hs config derivationKey) (\<lambda>h. Inr (h encryptionKey)))"

text \<open>The key and the length of the header in front of the nonce: for an RSA encrypted chunk the key
  comes from the header.\<close>

definition header_key :: "codecs \<Rightarrow> config \<Rightarrow> bytes \<Rightarrow> bytes \<Rightarrow> (goerror + bytes \<times> nat) res" where
  "header_key cr config key encrypted =
     (let bannerLength = length ENCRYPTION_BANNER in
      if length encrypted < bannerLength + 12 then Inr (Inl (GoErr ''No enough encrypted data''))
      else if take (bannerLength - 1) encrypted \<noteq> butlast ENCRYPTION_BANNER
      then Inr (Inl (GoErr ''The storage doesn't seem to be encrypted''))
      else
        let version = encrypted ! (bannerLength - 1) in
        if version \<noteq> 0 \<and> version \<noteq> ENCRYPTION_VERSION_RSA then Inr (Inl (GoErr ''Unsupported encryption version''))
        else if version = ENCRYPTION_VERSION_RSA then
          (case rsaPrivateKey config of
             None \<Rightarrow> Inl (LogError ''CHUNK_DECRYPT'')
           | Some privateKey \<Rightarrow>
               let keyLength = le_nat (take 2 (drop bannerLength encrypted)) in
               if length encrypted < bannerLength + 14 + keyLength
               then Inr (Inl (GoErr ''No enough encrypted data''))
               else Inr (bind_res (rsa_DecryptOAEP cr privateKey (take keyLength (drop (bannerLength + 2) encrypted)))
                      (\<lambda>decryptedKey. Inr (decryptedKey, bannerLength + 2 + keyLength))))
        else Inr (Inr (key, bannerLength)))"

definition decrypt_bytes ::
  "hashes \<Rightarrow> codecs \<Rightarrow> bool \<Rightarrow> config \<Rightarrow> bytes \<Rightarrow> bytes \<Rightarrow> bytes \<Rightarrow> (goerror + bytes) res" where
  "decrypt_bytes hs cr withHMACSHA256 config encryptionKey derivationKey encrypted =
     bind_res (derived_key hs withHMACSHA256 config encryptionKey derivationKey) (\<lambda>key.
     bind_res (header_key cr config key encrypted) (\<lambda>r.
       Inr (bind_res r (\<lambda>(key, headerLength).
         if \<not> aes_key_ok cr key then Inl (GoErr ''crypto/aes: invalid key size'')
         else
           let offset = headerLength + 12; nonce = take 12 (drop headerLength encrypted) in
           bind_res (gcm_Open cr key nonce (drop offset encrypted)) (\<lambda>plain.
             unpad offset (take offset encrypted @ plain))))))"

definition decompress :: "codecs \<Rightarrow> bytes \<Rightarrow> goerror + bytes" where
  "decompress cr compressed =
     (if 4 < length compressed \<and> take 4 compressed = string_bytes ''LZ4 '' then lz4_Decode cr (drop 4 compressed)
      else if 4 < length compressed \<and> take 4 compressed = string_bytes ''ZSTD'' then zstd_decode cr (drop 4 compressed)
      else zlib_inflate cr compressed)"

text \<open>The result is the error, whether a rewrite is needed, and the chunk. After an error the chunk
  has a new buffer, whose content is not used.\<close>

definition Decrypt ::
  "hashes \<Rightarrow> codecs \<Rightarrow> bool \<Rightarrow> bool \<Rightarrow> config \<Rightarrow> bytes \<Rightarrow> bytes \<Rightarrow> chunk \<Rightarrow> (goerror option \<times> bool \<times> chunk) res" where
  "Decrypt hs cr arm64 withHMACSHA256 config encryptionKey derivationKey chunk =
     bind_res (GetBytes chunk) (\<lambda>content.
     let failed = (\<lambda>err. (Some err, False, chunk\<lparr>chunk_buffer := Some []\<rparr>)) in
     bind_res (if length ENCRYPTION_BANNER < length content \<and>
                  take (length ENCRYPTION_BANNER) content = ERASURE_CODING_BANNER
               then erasure_decode cr arm64 config content
               else Inr (Inr (content, False))) (\<lambda>r.
     case r of Inl err \<Rightarrow> Inr (failed err)
     | Inr (encrypted, rewriteNeeded) \<Rightarrow>
         bind_res (if encryptionKey = [] then Inr (Inr encrypted)
                   else decrypt_bytes hs cr withHMACSHA256 config encryptionKey derivationKey encrypted) (\<lambda>r.
         case bind_res r (decompress cr) of
           Inl err \<Rightarrow> Inr (failed err)
         | Inr plain \<Rightarrow>
             Inr (None, rewriteNeeded, chunk\<lparr>chunk_buffer := Some plain,
               chunk_hasher := Some (HashKey config, plain), chunk_hash := []\<rparr>))))"

section \<open>Documented behaviour of the parameters\<close>

text \<open>Opening undoes sealing, decompressing undoes compressing; the first byte of a zlib stream
  is 0x78; a hash has 32 bytes. From any \<open>dataShards\<close> of its shards the Reed-Solomon code restores the
  data shards.\<close>

definition rs_ok :: "codecs \<Rightarrow> nat \<Rightarrow> nat \<Rightarrow> bool" where
  "rs_ok cr d p \<longleftrightarrow> 0 < d \<and> (\<forall>shards n. length shards = d \<and> (\<forall>s \<in> set shards. length s = n) \<and> 0 < n \<longrightarrow>
     length (rs_Encode cr d p shards) = p \<and> (\<forall>s \<in> set (rs_Encode cr d p shards). length s = n) \<and>
     (\<forall>slots. length slots = d + p \<and> d \<le> length (filter (\<lambda>s. s \<noteq> []) slots) \<and>
        (\<forall>i < d + p. slots ! i = [] \<or> slots ! i = (shards @ rs_Encode cr d p shards) ! i) \<longrightarrow>
        (\<exists>out. rs_Reconstruct cr d p slots = Inr out \<and> take d out = shards)))"

definition codecs_ok :: "codecs \<Rightarrow> bool" where
  "codecs_ok cr \<longleftrightarrow>
     (\<forall>k n x. aes_key_ok cr k \<longrightarrow> gcm_Open cr k n (gcm_Seal cr k n x) = Inr x) \<and>
     (\<forall>l x. \<exists>r. zlib_deflate cr l x = 0x78 # r \<and> zlib_inflate cr (0x78 # r) = Inr x) \<and>
     (\<forall>l x c. zstd_encode cr l x = Inr c \<longrightarrow> c \<noteq> [] \<and> zstd_decode cr c = Inr x) \<and>
     (\<forall>x c. lz4_Encode cr x = Inr c \<longrightarrow> c \<noteq> [] \<and> lz4_Decode cr c = Inr x) \<and>
     (\<forall>b. length (highwayhash cr b) = 32) \<and>
     (\<forall>d p. rs_New cr d p = None \<longrightarrow> 0 < d \<and> 0 \<le> p \<and> rs_ok cr (nat d) (nat p))"

lemma banner_defs:
  "ENCRYPTION_BANNER = [100, 117, 112, 108, 105, 99, 97, 99, 121, 0]"
  "ERASURE_CODING_BANNER = [100, 117, 112, 108, 105, 99, 97, 99, 121, 3]"
  by (simp_all add: ENCRYPTION_BANNER_def ERASURE_CODING_BANNER_def string_bytes_def)

lemma banner_length [simp]: "length ENCRYPTION_BANNER = 10" "length ERASURE_CODING_BANNER = 10"
  by (simp_all add: banner_defs)

section \<open>Compression and padding\<close>

lemma decompress_compress:
  assumes "codecs_ok cr" and "compress cr level x = Inr c"
  shows "decompress cr c = Inr x \<and> c \<noteq> [] \<and> take 10 c \<noteq> ERASURE_CODING_BANNER"
proof -
  consider (zlib) "-1 \<le> level" "level \<le> 9" | (zstd) y where "zstd_encode cr level x = Inr y" "c = string_bytes ''ZSTD'' @ y"
    | (lz4) y where "lz4_Encode cr x = Inr y" "c = string_bytes ''LZ4 '' @ y"
    using assms(2) by (auto simp: compress_def bind_res_Inr_iff split: if_splits sum.splits)
  then show ?thesis
  proof cases
    case zlib
    then have c: "c = zlib_deflate cr level x" using assms(2) by (simp add: compress_def)
    have "\<exists>r. zlib_deflate cr level x = 0x78 # r \<and> zlib_inflate cr (0x78 # r) = Inr x"
      using assms(1) unfolding codecs_ok_def by blast
    with c obtain r where "c = 0x78 # r" "zlib_inflate cr c = Inr x" by auto
    then show ?thesis by (simp add: decompress_def banner_defs string_bytes_def)
  next
    case (zstd y)
    with assms(1) have "y \<noteq> []" "zstd_decode cr y = Inr x" by (auto simp: codecs_ok_def)
    with zstd(2) show ?thesis by (simp add: decompress_def banner_defs string_bytes_def)
  next
    case (lz4 y)
    with assms(1) have "y \<noteq> []" "lz4_Decode cr y = Inr x" by (auto simp: codecs_ok_def)
    with lz4(2) show ?thesis by (simp add: decompress_def banner_defs string_bytes_def)
  qed
qed

lemma padding_byte:
  assumes "0 < n" and "n \<le> 256"
  shows "(if (of_nat n :: byte) = 0 then 256 else unat (of_nat n :: byte)) = n"
proof (cases "n = 256")
  case False
  with assms have "unat (of_nat n :: byte) = n" by (simp add: unat_of_nat)
  moreover from this assms(1) have "(of_nat n :: byte) \<noteq> 0" by auto
  ultimately show ?thesis by simp
qed simp

lemma unpad_pad:
  assumes "header \<noteq> []"
  shows "unpad (length header) (header @ pad c) = Inr c"
proof -
  define n where "n = 256 - length c mod 256"
  have "length c mod 256 < 256" by simp
  then have n: "0 < n" "n \<le> 256" unfolding n_def by linarith+
  let ?b = "of_nat n :: byte" and ?d = "(header @ c) @ replicate n (of_nat n)"
  have "header @ pad c = ?d" by (simp add: pad_def Let_def n_def)
  moreover have "(if last ?d = 0 then 256 else unat (last ?d)) = n"
    using n(1) padding_byte [OF n] by (simp only: last_appendR last_replicate replicate_empty)
  then have "unpad (length header) ?d =
      (if length ?d \<le> n then Inl (GoErr ''Incorrect padding length'')
       else if \<not> list_all (\<lambda>b. b = ?b) (drop (length ?d - n) ?d) then Inl (GoErr ''Incorrect padding of length'')
       else Inr (drop (length header) (take (length ?d - n) ?d)))"
    unfolding unpad_def by (simp only: Let_def)
  ultimately show ?thesis using assms by (simp add: list_all_iff)
qed

section \<open>Encryption\<close>

lemma take_header: "length h = n \<Longrightarrow> take n (h @ r) = h" "length h = n \<Longrightarrow> drop n (h @ r) = r"
  by simp_all

text \<open>The key that decryption uses is the one of encryption.\<close>

definition same_rsa :: "codecs \<Rightarrow> config \<Rightarrow> bool" where
  "same_rsa cr config \<longleftrightarrow> (\<forall>pub. rsaPublicKey config = Some pub \<longrightarrow> (\<exists>priv. rsaPrivateKey config = Some priv \<and>
     (\<forall>rand m c. rsa_EncryptOAEP cr pub rand m = Inr c \<longrightarrow> rsa_DecryptOAEP cr priv c = Inr m \<and> length c < 2 ^ 16)))"

lemma gcm_law: "codecs_ok cr \<Longrightarrow> aes_key_ok cr k \<Longrightarrow> gcm_Open cr k n (gcm_Seal cr k n x) = Inr x"
  by (simp add: codecs_ok_def)

lemma decrypt_sealed:
  assumes "codecs_ok cr" and "aes_key_ok cr key" and "length nonce = 12" and "header \<noteq> []"
    and "derived_key hs False config encryptionKey derivationKey = Inr key0"
    and "header_key cr config key0 ((header @ nonce) @ gcm_Seal cr key nonce (pad c)) = Inr (Inr (key, length header))"
  shows "decrypt_bytes hs cr False config encryptionKey derivationKey
      ((header @ nonce) @ gcm_Seal cr key nonce (pad c)) = Inr (Inr c)"
  using unpad_pad [of "header @ nonce" c] assms
  by (simp add: decrypt_bytes_def Let_def gcm_law)

lemma header_key_plain:
  "length nonce = 12 \<Longrightarrow> header_key cr config key ((ENCRYPTION_BANNER @ nonce) @ sealed) = Inr (Inr (key, length ENCRYPTION_BANNER))"
  by (simp add: header_key_def Let_def banner_defs ENCRYPTION_VERSION_RSA_def)

lemma header_key_rsa:
  assumes "rsaPrivateKey config = Some priv" and "rsa_DecryptOAEP cr priv encryptedKey = Inr key"
    and "length encryptedKey < 2 ^ 16" and "length nonce = 12"
    and "header = butlast ENCRYPTION_BANNER @ [ENCRYPTION_VERSION_RSA] @ le_bytes 2 (length encryptedKey) @ encryptedKey"
  shows "header_key cr config key0 ((header @ nonce) @ sealed) = Inr (Inr (key, length header))"
proof -
  have "le_nat (le_bytes 2 (length encryptedKey)) = length encryptedKey"
    using assms(3) by (intro le_nat_le_bytes_id) simp
  then show ?thesis
    using assms(1,2,4) by (simp add: assms(5) header_key_def Let_def banner_defs ENCRYPTION_VERSION_RSA_def)
qed

text \<open>What \<open>Encrypt\<close> produces before erasure coding is decrypted to the compressed content.\<close>

lemma decrypt_encrypted:
  assumes "codecs_ok cr" and "same_rsa cr config"
    and "encryption_key hs config ent encryptionKey derivationKey isMetadata = Inr (Inr (key, usingRSA))"
    and "encryption_header cr config ent key usingRSA = Inr (header, nonce)"
    and "\<And>n. random_nonce ent = Inr n \<Longrightarrow> length n = 12"
    and "derived_key hs False config encryptionKey derivationKey = Inr key0"
  shows "decrypt_bytes hs cr False config encryptionKey derivationKey (header @ gcm_Seal cr key nonce (pad c)) = Inr (Inr c)"
    and "take 10 (header @ gcm_Seal cr key nonce (pad c)) \<noteq> ERASURE_CODING_BANNER"
proof -
  from assms(4) obtain h where h: "aes_key_ok cr key" "random_nonce ent = Inr nonce" "header = h @ nonce"
    "if usingRSA then \<exists>e. rsa_EncryptOAEP cr (the (rsaPublicKey config)) (random_oaep ent) key = Inr e \<and>
       h = butlast ENCRYPTION_BANNER @ [ENCRYPTION_VERSION_RSA] @ le_bytes 2 (length e) @ e
     else h = ENCRYPTION_BANNER"
    by (auto simp: encryption_header_def bind_res_Inr_iff split: if_splits)
  note nonce = assms(5) [OF h(2)]
  have key: "header_key cr config key0 (header @ gcm_Seal cr key nonce (pad c)) = Inr (Inr (key, length h))"
  proof (cases usingRSA)
    case True
    with assms(3) obtain pub where pub: "rsaPublicKey config = Some pub"
      by (auto simp: encryption_key_def bind_res_Inr_iff split: if_splits)
    from True h(4) pub obtain e where e: "rsa_EncryptOAEP cr pub (random_oaep ent) key = Inr e"
      "h = butlast ENCRYPTION_BANNER @ [ENCRYPTION_VERSION_RSA] @ le_bytes 2 (length e) @ e" by auto
    from assms(2) pub e(1) obtain priv where "rsaPrivateKey config = Some priv" "rsa_DecryptOAEP cr priv e = Inr key"
      "length e < 2 ^ 16" by (auto simp: same_rsa_def)
    from header_key_rsa [OF this nonce e(2)] show ?thesis by (simp add: h(3))
  next
    case False
    then have "key = key0"
      using assms(3,6) by (auto simp: encryption_key_def derived_key_def bind_res_Inr_iff split: if_splits)
    with False h(3,4) header_key_plain [OF nonce] show ?thesis by simp
  qed
  have "h \<noteq> []" using h(4) by (auto simp: banner_defs split: if_splits)
  from decrypt_sealed [OF assms(1) h(1) nonce this assms(6)] key
  show "decrypt_bytes hs cr False config encryptionKey derivationKey (header @ gcm_Seal cr key nonce (pad c)) = Inr (Inr c)"
    by (simp add: h(3))
  show "take 10 (header @ gcm_Seal cr key nonce (pad c)) \<noteq> ERASURE_CODING_BANNER"
    using h(3,4) by (auto simp: banner_defs ENCRYPTION_VERSION_RSA_def split: if_splits)
qed

section \<open>Erasure coding\<close>

lemma concat_block:
  "\<forall>x \<in> set xs. length x = n \<Longrightarrow> i < length xs \<Longrightarrow> take n (drop (i * n) (concat xs @ r)) = xs ! i"
proof (induction xs arbitrary: i)
  case (Cons x xs)
  then show ?case by (cases i) auto
qed simp

lemma length_concat_blocks: "\<forall>x \<in> set xs. length x = n \<Longrightarrow> length (concat xs) = length xs * n"
  by (induction xs) auto

lemma concat_split_shards:
  "length content = count * n \<Longrightarrow> concat (split_shards count n content) = content"
proof (induction count arbitrary: content)
  case (Suc count)
  have "split_shards (Suc count) n content = take n content # split_shards count n (drop n content)"
    by (simp add: split_shards_def upt_conv_Cons map_Suc_upt [symmetric] del: upt_Suc)
       (simp add: drop_drop add.commute map_Suc_upt [symmetric] comp_def del: upt_Suc)
  with Suc show ?case by simp
qed (simp add: split_shards_def)

lemma split_shards_lengths:
  "length content = count * n \<Longrightarrow> length (split_shards count n content) = count \<and>
     (\<forall>s \<in> set (split_shards count n content). length s = n)"
proof -
  assume len: "length content = count * n"
  have "n \<le> length content - i * n" if "i < count" for i
  proof -
    have "Suc i * n \<le> count * n" using that by (intro mult_le_mono1) simp
    with len show ?thesis by simp
  qed
  then show ?thesis by (auto simp: split_shards_def)
qed

lemma shard_size_covers: "0 < d \<Longrightarrow> c \<le> (c + d - 1) div d * (d :: nat)"
proof -
  assume d: "0 < d"
  have "c + d - 1 = (c + d - 1) div d * d + (c + d - 1) mod d" by simp
  moreover have "(c + d - 1) mod d < d" using d by simp
  ultimately show ?thesis using d by linarith
qed

lemma erasure_shards_props:
  assumes "rs_ok cr d p" and "content \<noteq> []"
  defines "n \<equiv> (length content + d - 1) div d"
  shows "0 < n" "length (erasure_shards cr d p content) = d + p"
    "\<forall>s \<in> set (erasure_shards cr d p content). length s = n"
    "take (length content) (concat (take d (erasure_shards cr d p content))) = content"
    "\<And>slots. length slots = d + p \<Longrightarrow> d \<le> length (filter (\<lambda>s. s \<noteq> []) slots) \<Longrightarrow>
       (\<And>i. i < d + p \<Longrightarrow> slots ! i = [] \<or> slots ! i = erasure_shards cr d p content ! i) \<Longrightarrow>
       \<exists>out. rs_Reconstruct cr d p slots = Inr out \<and> take d out = take d (erasure_shards cr d p content)"
proof -
  define padded where "padded = content @ replicate (n * d - length content) 0"
  define shards where "shards = split_shards d n padded"
  have d: "0 < d" using assms(1) by (simp add: rs_ok_def)
  have cover: "length content \<le> n * d" using shard_size_covers [OF d] by (simp add: n_def)
  show n: "0 < n" using cover assms(2) by (cases n) auto
  have len: "length padded = d * n" using cover by (simp add: padded_def mult.commute)
  note split = split_shards_lengths [OF len, folded shards_def]
  have whole: "erasure_shards cr d p content = shards @ rs_Encode cr d p shards"
    by (simp only: erasure_shards_def Let_def n_def padded_def shards_def)
  note law = assms(1) [unfolded rs_ok_def, THEN conjunct2, rule_format, of shards n]
  have enc: "length (rs_Encode cr d p shards) = p" "\<forall>s \<in> set (rs_Encode cr d p shards). length s = n"
    using law split n by auto
  show "length (erasure_shards cr d p content) = d + p" "\<forall>s \<in> set (erasure_shards cr d p content). length s = n"
    using whole split enc by auto
  show "take (length content) (concat (take d (erasure_shards cr d p content))) = content"
  proof -
    have "take d (erasure_shards cr d p content) = shards" using whole split by simp
    moreover have "concat shards = padded" using concat_split_shards [OF len] by (simp only: shards_def)
    ultimately show ?thesis by (simp add: padded_def)
  qed
  fix slots :: "bytes list"
  assume "length slots = d + p" "d \<le> length (filter (\<lambda>s. s \<noteq> []) slots)"
    "\<And>i. i < d + p \<Longrightarrow> slots ! i = [] \<or> slots ! i = erasure_shards cr d p content ! i"
  then show "\<exists>out. rs_Reconstruct cr d p slots = Inr out \<and> take d out = take d (erasure_shards cr d p content)"
    using law split n by (simp add: whole)
qed

subsection \<open>Verifying the shards\<close>

text \<open>The loop on a chunk with the hashes of \<open>shards\<close> and possibly damaged shards. A shard is good
  when it is the original one; a damaged shard matches neither hash function.\<close>

definition good_shard :: "bytes list \<Rightarrow> bytes list \<Rightarrow> nat \<Rightarrow> bool" where
  "good_shard shards damaged i \<longleftrightarrow> damaged ! i = shards ! i"

definition detectable :: "codecs \<Rightarrow> bytes list \<Rightarrow> bytes list \<Rightarrow> bool" where
  "detectable cr shards damaged \<longleftrightarrow> (\<forall>i < length shards. good_shard shards damaged i \<or>
     (highwayhash cr (damaged ! i) \<noteq> highwayhash cr (shards ! i) \<and>
      wronghighwayhash cr (damaged ! i) \<noteq> highwayhash cr (shards ! i)))"

definition good_count :: "bytes list \<Rightarrow> bytes list \<Rightarrow> nat \<Rightarrow> nat" where
  "good_count shards damaged i = length (filter (good_shard shards damaged) [0..<i])"

definition loop_state :: "bytes list \<Rightarrow> bytes list \<Rightarrow> nat \<Rightarrow> nat \<Rightarrow> bytes list \<times> bool \<times> nat \<times> bool" where
  "loop_state shards damaged d i =
     (map (\<lambda>k. if k < i \<and> good_shard shards damaged k then shards ! k else []) [0..<length shards],
      \<exists>k < min i d. \<not> good_shard shards damaged k, good_count shards damaged i,
      \<exists>k < min i d. \<not> good_shard shards damaged k)"

lemma good_count_simps [simp]:
  "good_count shards damaged 0 = 0"
  "good_count shards damaged (Suc i) = good_count shards damaged i + (if good_shard shards damaged i then 1 else 0)"
  by (simp_all add: good_count_def)

lemma good_count_le: "good_count shards damaged i \<le> i"
  by (induction i) auto

lemma loop_state_0: "loop_state shards damaged d 0 = (replicate (length shards) [], False, 0, False)"
  by (simp add: loop_state_def map_replicate_trivial)

lemma loop_state_good:
  assumes "i < length shards" and "good_shard shards damaged i"
  shows "loop_state shards damaged d (Suc i) = (case loop_state shards damaged d i of (slots, rec, avail, rew) \<Rightarrow>
    (slots[i := shards ! i], rec, Suc avail, rew))"
proof -
  have "(\<exists>k < min (Suc i) d. \<not> good_shard shards damaged k) = (\<exists>k < min i d. \<not> good_shard shards damaged k)"
    using assms(2) by (metis less_Suc_eq min_less_iff_conj)
  then show ?thesis
    using assms by (auto simp: loop_state_def nth_list_update less_Suc_eq intro!: nth_equalityI)
qed

lemma loop_state_bad:
  assumes "i < length shards" and "\<not> good_shard shards damaged i"
  shows "loop_state shards damaged d (Suc i) = (case loop_state shards damaged d i of (slots, rec, avail, rew) \<Rightarrow>
    (if i < d then (slots, True, avail, True) else (slots, rec, avail, rew)))"
  using assms by (auto simp: loop_state_def less_Suc_eq)

lemma loop_state_slots:
  assumes "\<forall>s \<in> set shards. s \<noteq> []" and "i \<le> length shards"
  shows "length (filter (\<lambda>s. s \<noteq> []) (fst (loop_state shards damaged d i))) = good_count shards damaged i"
proof -
  have "filter (\<lambda>k. k < i \<and> good_shard shards damaged k) [0..<length shards] = filter (good_shard shards damaged) [0..<i]"
  proof -
    have "[0..<length shards] = [0..<i] @ [i..<length shards]" using assms(2) by (metis le0 upt_add_eq_append le_iff_add)
    then show ?thesis by (auto simp: filter_empty_conv intro!: filter_cong)
  qed
  moreover have "filter (\<lambda>s. s \<noteq> []) (fst (loop_state shards damaged d i)) =
      map ((!) shards) (filter (\<lambda>k. k < i \<and> good_shard shards damaged k) [0..<length shards])"
    using assms(1) by (auto simp: loop_state_def filter_map comp_def intro!: map_cong filter_cong)
  ultimately show ?thesis by (simp add: good_count_def)
qed

lemma layout_parts:
  assumes "length header = 14" and "\<forall>h \<in> set hashes. length h = 32" and "\<forall>s \<in> set damaged. length s = n"
    and "length hashes = length damaged" and "i < length damaged"
  defines "content \<equiv> erasure_layout header hashes damaged" and "offset \<equiv> 24 + length damaged * 32"
  shows "slice_int content (int offset + int i * int n) (int offset + int i * int n + int n) = Inr (damaged ! i)"
    "slice content (24 + i * 32) (24 + (i + 1) * 32) = Inr (hashes ! i)"
    "int offset + int i * int n + int n \<le> int (length content)"
proof -
  have content: "content = (ERASURE_CODING_BANNER @ header) @ concat hashes @ concat damaged @ header"
    by (simp add: content_def erasure_layout_def)
  have lens: "length (ERASURE_CODING_BANNER @ header) = 24" "length (concat hashes) = length damaged * 32"
    "length (concat damaged) = length damaged * n"
    using assms(1,4) length_concat_blocks [OF assms(2)] length_concat_blocks [OF assms(3)] by simp_all
  have "Suc i * n \<le> length damaged * n" "Suc i * 32 \<le> length damaged * 32"
    using assms(5) by (intro mult_le_mono1; simp)+
  then have bounds: "i * n + n \<le> length damaged * n" "i * 32 + 32 \<le> length damaged * 32" by simp_all
  have all: "length content = 24 + length damaged * 32 + length damaged * n + 14"
    using lens assms(1) by (simp add: content)
  have fits: "offset + i * n + n \<le> length content" using bounds(1) by (simp add: all offset_def)
  then have "int (offset + i * n + n) \<le> int (length content)" by (simp only: of_nat_le_iff)
  then show "int offset + int i * int n + int n \<le> int (length content)" by (simp only: of_nat_add of_nat_mult)
  have "drop (offset + i * n) content = drop (i * n) (concat damaged @ header)"
    using lens by (simp add: content offset_def)
  then have "take n (drop (offset + i * n) content) = damaged ! i"
    using concat_block [OF assms(3,5)] by simp
  moreover have "nat (int offset + int i * int n) = offset + i * n" "nat (int offset + int i * int n + int n) = offset + i * n + n"
    by (simp_all add: nat_add_distrib nat_mult_distrib)
  ultimately show "slice_int content (int offset + int i * int n) (int offset + int i * int n + int n) = Inr (damaged ! i)"
    using fits by (simp add: slice_int_def)
  have "drop (24 + i * 32) content = drop (i * 32) (concat hashes @ concat damaged @ header)"
    using lens(1) by (simp add: content)
  moreover have "i < length hashes" using assms(4,5) by simp
  ultimately have "take 32 (drop (24 + i * 32) content) = hashes ! i"
    by (simp only: concat_block [OF assms(2)])
  moreover have "24 + (i + 1) * 32 \<le> length content" using bounds(2) by (simp add: all)
  ultimately show "slice content (24 + i * 32) (24 + (i + 1) * 32) = Inr (hashes ! i)"
    by (simp add: algebra_simps)
qed

lemma shard_loop_layout:
  assumes "length header = 14" and "length damaged = length shards" and "\<forall>s \<in> set damaged. length s = n"
    and "\<forall>b. length (highwayhash cr b) = 32" and "detectable cr shards damaged" and "0 < d"
    and "i \<le> length shards" and "good_count shards damaged i < d"
  defines "content \<equiv> erasure_layout header (map (highwayhash cr) shards) damaged"
  shows "\<exists>j \<le> length shards. shard_loop cr arm64 content d (length shards) (int n) 24 (24 + length shards * 32) i
      (loop_state shards damaged d i) = Inr (loop_state shards damaged d j) \<and>
    (good_count shards damaged j = d \<or> j = length shards)"
  using assms(7,8)
proof (induction "length shards - i" arbitrary: i)
  case 0
  then show ?case
    by (cases "loop_state shards damaged d i") (auto simp: shard_loop.simps)
next
  case (Suc m)
  then have i: "i < length shards" by simp
  obtain slots rec avail rew where st: "loop_state shards damaged d i = (slots, rec, avail, rew)"
    by (metis prod_cases4)
  have avail: "avail = good_count shards damaged i" using st by (simp add: loop_state_def)
  have "\<forall>h \<in> set (map (highwayhash cr) shards). length h = 32" using assms(4) by simp
  note parts = layout_parts [OF assms(1) this assms(3), of i, folded content_def, unfolded assms(2)]
  have hash: "map (highwayhash cr) shards ! i = highwayhash cr (shards ! i)" using i by simp
  have step: "shard_loop cr arm64 content d (length shards) (int n) 24 (24 + length shards * 32) i (slots, rec, avail, rew) =
    (if good_shard shards damaged i then
       (if d \<le> Suc avail then Inr (loop_state shards damaged d (Suc i))
        else shard_loop cr arm64 content d (length shards) (int n) 24 (24 + length shards * 32) (Suc i) (loop_state shards damaged d (Suc i)))
     else shard_loop cr arm64 content d (length shards) (int n) 24 (24 + length shards * 32) (Suc i) (loop_state shards damaged d (Suc i)))"
    using parts i hash assms(5) loop_state_good [OF i, of damaged d] loop_state_bad [OF i, of damaged d] st
    by (subst shard_loop.simps) (auto simp: Let_def detectable_def good_shard_def)
  show ?case
  proof (cases "good_shard shards damaged i \<and> d \<le> Suc avail")
    case True
    with step st avail i Suc.prems show ?thesis by (intro exI [of _ "Suc i"]) auto
  next
    case False
    then have "good_count shards damaged (Suc i) < d" using avail Suc.prems(2) by auto
    moreover have "m = length shards - Suc i" using Suc.hyps(2) by simp
    ultimately show ?thesis using Suc.hyps(1) [of "Suc i"] i step st False by auto
  qed
qed

lemma xor_at_prefix: "12 \<le> length h \<Longrightarrow> k \<le> 1 \<Longrightarrow> xor_at (h @ r) k = xor_at h k"
  by (simp add: xor_at_def nth_append)

lemma erasure_header_fields:
  assumes "c < 2 ^ 63" and "d < 2 ^ 16" and "p < 2 ^ 16"
  defines "h \<equiv> erasure_header c d p"
  shows "length h = 14" "h ! 12 = xor_at h 0" "h ! 13 = xor_at h 1" "int_of_uint64 (le_nat (take 8 h)) = int c"
    "le_nat (take 2 (drop 8 h)) = d" "le_nat (take 2 (drop 10 h)) = p"
proof -
  define g where "g = le_bytes 8 c @ le_bytes 2 d @ le_bytes 2 p"
  have h: "h = g @ [xor_at g 0, xor_at g 1]" by (simp add: h_def erasure_header_def g_def Let_def)
  have g: "length g = 12" by (simp add: g_def)
  show "length h = 14" "h ! 12 = xor_at h 0" "h ! 13 = xor_at h 1"
    using g by (simp_all add: h xor_at_prefix nth_append)
  have "c < 256 ^ 8" "d < 256 ^ 2" "p < 256 ^ 2" using assms(1-3) by simp_all
  then have "le_nat (le_bytes 8 c) = c" "le_nat (le_bytes 2 d) = d" "le_nat (le_bytes 2 p) = p"
    by (simp_all only: le_nat_le_bytes_id)
  then show "int_of_uint64 (le_nat (take 8 h)) = int c" "le_nat (take 2 (drop 8 h)) = d" "le_nat (take 2 (drop 10 h)) = p"
    using assms(1) by (simp_all add: h g_def int_of_uint64_def)
qed

text \<open>The damaged form of an encoded chunk: some shards are replaced by others of the same size.\<close>

definition damaged_encoding :: "codecs \<Rightarrow> nat \<Rightarrow> nat \<Rightarrow> bytes \<Rightarrow> bytes list \<Rightarrow> bytes" where
  "damaged_encoding cr d p content damaged =
     erasure_layout (erasure_header (length content) d p) (map (highwayhash cr) (erasure_shards cr d p content)) damaged"

definition repairable :: "codecs \<Rightarrow> nat \<Rightarrow> nat \<Rightarrow> bytes \<Rightarrow> bytes list \<Rightarrow> bool" where
  "repairable cr d p content damaged \<longleftrightarrow>
     (let shards = erasure_shards cr d p content in
      length damaged = length shards \<and> list_all2 (\<lambda>x y. length x = length y) damaged shards \<and>
      detectable cr shards damaged \<and> d \<le> good_count shards damaged (d + p))"

text \<open>What is left of the decoding of a layout once its header has been read.\<close>

definition recover :: "codecs \<Rightarrow> nat \<Rightarrow> nat \<Rightarrow> nat \<Rightarrow> bytes \<Rightarrow> bytes list \<times> bool \<times> nat \<times> bool \<Rightarrow> (goerror + bytes \<times> bool) res" where
  "recover cr d p sz e = (\<lambda>(slots, recoveryNeeded, available, rewriteNeeded).
     if \<not> recoveryNeeded then
       bind_res (Truncate e (int (24 + (d + p) * 32) + int sz)) (\<lambda>b. Inr (Inr (drop (24 + (d + p) * 32) b, rewriteNeeded)))
     else if available < d then Inr (Inl (GoErr ''Not enough chunk data for recover''))
     else case rs_New cr (int d) (int p) of Some err \<Rightarrow> Inr (Inl err)
       | None \<Rightarrow> (case rs_Reconstruct cr d p slots of Inl err \<Rightarrow> Inr (Inl err)
           | Inr shards \<Rightarrow> bind_res (Truncate (concat (take d shards)) (int sz)) (\<lambda>b. Inr (Inr (b, rewriteNeeded)))))"

lemma shard_size_sdiv: "0 < d \<Longrightarrow> (int c + int d - 1) sdiv int d = int ((c + d - 1) div d)"
proof -
  assume d: "0 < d"
  then have "int c + int d - 1 = int (c + d - 1)" by simp
  then show ?thesis using d by (simp only: sdiv_nonneg of_nat_0_le_iff of_nat_0_less_iff zdiv_int)
qed

lemma erasure_decode_layout:
  assumes "c < 2 ^ 63" and "d < 2 ^ 16" and "p < 2 ^ 16" and "0 < d" and "DataShards config = int d"
    and "n = (c + d - 1) div d" and "length (concat hashes) = (d + p) * 32" and "length (concat damaged) = (d + p) * n"
  defines "e \<equiv> erasure_layout (erasure_header c d p) hashes damaged"
  shows "erasure_decode cr arm64 config e =
    bind_res (shard_loop cr arm64 e d (d + p) (int n) 24 (24 + (d + p) * 32) 0 (replicate (d + p) [], False, 0, False))
      (recover cr d p c e)"
proof -
  note h = erasure_header_fields [OF assms(1-3)]
  have size: "length e = 38 + (d + p) * 32 + (d + p) * n" using assms(7,8) h(1) by (simp add: e_def erasure_layout_def)
  have head: "take 14 (drop 10 e) = erasure_header c d p" using h(1) by (simp add: e_def erasure_layout_def)
  have "int (length e) = 10 + 28 + int (d + p) * (int n + 32)" by (simp add: size algebra_simps)
  then have fits: "\<not> (int (length e) < int 10 + 28 + int (d + p) * (int n + 32) \<and>
      int (length e) \<le> int 10 + 14 + int (d + p) * 32 + int d * int n)" by simp
  have long: "\<not> length e < 10 + 14" by (simp add: size)
  have "DataShards config \<noteq> 0" "24 = 10 + (14 :: nat)" using assms(4,5) by simp_all
  then show ?thesis
    unfolding erasure_decode_def Let_def banner_length head h(4-6) recover_def
    using fits long by (simp only: h(2,3) assms(5) shard_size_sdiv [OF assms(4)] assms(6) [symmetric]
        simp_thms if_False)
qed

lemma recover_good:
  assumes "length header = 14" and "length (concat hashes) = (d + p) * 32" and "length damaged = d + p"
    and "take sz (concat (take d shards)) = content" and "length content = sz"
    and "take d damaged = take d shards"
  shows "recover cr d p sz (erasure_layout header hashes damaged) (slots, False, available, rew) = Inr (Inr (content, rew))"
proof -
  have "concat damaged = concat (take d shards) @ concat (drop d damaged)"
    using assms(6) by (metis append_take_drop_id concat_append)
  moreover have "sz \<le> length (concat (take d shards))" using assms(4,5) by (metis length_take min.cobounded1 min_def)
  moreover define off where "off = 24 + (d + p) * 32"
  moreover have "nat (int off + int sz) = off + sz" by simp
  moreover have "length (ERASURE_CODING_BANNER @ header @ concat hashes) = off" using assms(1,2) by (simp add: off_def)
  ultimately show ?thesis
    using assms(4) unfolding recover_def off_def [symmetric]
    by (simp add: Truncate_def erasure_layout_def del: of_nat_add) (simp add: algebra_simps)
qed

lemma recover_bad:
  assumes "rs_New cr (int d) (int p) = None" and "rs_Reconstruct cr d p slots = Inr out"
    and "take sz (concat (take d out)) = content" and "length content = sz" and "d \<le> available"
  shows "recover cr d p sz e (slots, True, available, rew) = Inr (Inr (content, rew))"
proof -
  have "sz \<le> length (concat (take d out))" using assms(3,4) by (metis length_take min.cobounded1 min_def)
  with assms show ?thesis by (simp add: recover_def Truncate_def)
qed

lemma erasure_decode_damaged:
  assumes ok: "codecs_ok cr" and new: "rs_New cr (DataShards config) (ParityShards config) = None"
    and dp: "d = nat (DataShards config)" "p = nat (ParityShards config)" "d < 2 ^ 16" "p < 2 ^ 16"
    and content: "content \<noteq> []" "length content < 2 ^ 63"
    and damaged: "repairable cr d p content damaged"
  shows "erasure_decode cr arm64 config (damaged_encoding cr d p content damaged) =
    Inr (Inr (content, \<exists>k < d. \<not> good_shard (erasure_shards cr d p content) damaged k))"
proof -
  define shards where "shards = erasure_shards cr d p content"
  define n where "n = (length content + d - 1) div d"
  define h where "h = erasure_header (length content) d p"
  define bad where "bad = (\<exists>k < d. \<not> good_shard shards damaged k)"
  have law: "0 < DataShards config \<and> 0 \<le> ParityShards config \<and> rs_ok cr (nat (DataShards config)) (nat (ParityShards config))"
    using ok new unfolding codecs_ok_def by blast
  then have rs: "rs_ok cr d p" and d: "DataShards config = int d" "0 < d" and p: "ParityShards config = int p"
    by (simp_all add: dp)
  note props = erasure_shards_props [OF rs content(1), folded n_def shards_def]
  have hw: "\<forall>b. length (highwayhash cr b) = 32" using ok by (simp add: codecs_ok_def)
  have dam: "length damaged = length shards" "length damaged = d + p" "\<forall>s \<in> set damaged. length s = n"
    "detectable cr shards damaged" "d \<le> good_count shards damaged (d + p)"
    using damaged props(2,3)
    by (auto simp: repairable_def Let_def shards_def [symmetric] list_all2_conv_all_nth in_set_conv_nth) (metis nth_mem)
  have lens: "length (concat (map (highwayhash cr) shards)) = (d + p) * 32" "length (concat damaged) = (d + p) * n"
    using length_concat_blocks [of "map (highwayhash cr) shards" 32] length_concat_blocks [OF dam(3)] hw dam(1,2) by simp_all
  have h: "length h = 14" using erasure_header_fields(1) [OF content(2) dp(3,4)] by (simp add: h_def)
  let ?e = "erasure_layout h (map (highwayhash cr) shards) damaged"
  from shard_loop_layout [OF h dam(1,3) hw dam(4) d(2) le0, of arm64] d(2) obtain j where
    j: "j \<le> d + p" "shard_loop cr arm64 ?e d (d + p) (int n) 24 (24 + (d + p) * 32) 0 (replicate (d + p) [], False, 0, False) =
      Inr (loop_state shards damaged d j)" "good_count shards damaged j = d \<or> j = d + p"
    by (auto simp: loop_state_0 props(2))
  have enough: "d \<le> good_count shards damaged j" using j(3) dam(5) by auto
  then have "min j d = d" using good_count_le [of shards damaged j] by simp
  then obtain slots where st: "loop_state shards damaged d j = (slots, bad, good_count shards damaged j, bad)"
    by (simp add: loop_state_def bad_def)
  have slots: "length slots = d + p" "slots ! i = [] \<or> slots ! i = shards ! i" if "i < d + p" for i
    using st that by (auto simp: loop_state_def props(2))
  have "shards \<noteq> [] \<and> (\<forall>s \<in> set shards. s \<noteq> [])" using props(1-3) d(2) by auto
  with loop_state_slots [of shards j damaged d] enough j(1) st props(2)
  have count: "d \<le> length (filter (\<lambda>s. s \<noteq> []) slots)" by simp
  have "recover cr d p (length content) ?e (slots, bad, good_count shards damaged j, bad) = Inr (Inr (content, bad))"
  proof (cases bad)
    case False
    then have "take d damaged = take d shards"
      using dam(1,2) by (intro nth_equalityI) (auto simp: bad_def good_shard_def)
    with False recover_good [OF h lens(1) dam(2) props(4) refl] show ?thesis by simp
  next
    case True
    from props(5) [OF _ count] slots d(2) obtain out where
      "rs_Reconstruct cr d p slots = Inr out" "take d out = take d shards" by auto
    with True recover_bad [of cr d p slots out "length content" content] new d p props(4) enough show ?thesis by simp
  qed
  then show ?thesis
    using erasure_decode_layout [OF content(2) dp(3,4) d(2,1) n_def lens, of cr arm64] j(2) st
    by (simp add: damaged_encoding_def h_def shards_def bad_def)
qed

section \<open>Decrypting what was encrypted\<close>

text \<open>The circumstances of a successful encryption: the parameters behave as documented, the RSA keys
  belong together, the nonce has 12 bytes, and a hasher exists for the derivation key.\<close>

definition codec_setting :: "hashes \<Rightarrow> codecs \<Rightarrow> config \<Rightarrow> entropy \<Rightarrow> bytes \<Rightarrow> bytes \<Rightarrow> bool" where
  "codec_setting hs cr config ent encryptionKey derivationKey \<longleftrightarrow> codecs_ok cr \<and> same_rsa cr config \<and>
     (\<forall>n. random_nonce ent = Inr n \<longrightarrow> length n = 12) \<and>
     (\<exists>key. derived_key hs False config encryptionKey derivationKey = Inr key) \<and>
     DataShards config < 2 ^ 16 \<and> ParityShards config < 2 ^ 16"

text \<open>What decryption does after erasure decoding.\<close>

definition decrypts_to :: "hashes \<Rightarrow> codecs \<Rightarrow> config \<Rightarrow> bytes \<Rightarrow> bytes \<Rightarrow> bytes \<Rightarrow> bytes \<Rightarrow> bool" where
  "decrypts_to hs cr config encryptionKey derivationKey encrypted content \<longleftrightarrow>
     (\<exists>c. (if encryptionKey = [] then Inr (Inr encrypted)
           else decrypt_bytes hs cr False config encryptionKey derivationKey encrypted) = Inr (Inr c) \<and>
          decompress cr c = Inr content)"

lemma encrypt_bytes_decrypts:
  assumes "codec_setting hs cr config ent encryptionKey derivationKey"
    and "encrypt_bytes hs cr config ent encryptionKey derivationKey isMetadata content = Inr (Inr encrypted)"
  shows "encrypted \<noteq> []" "take 10 encrypted \<noteq> ERASURE_CODING_BANNER"
    "decrypts_to hs cr config encryptionKey derivationKey encrypted content"
proof -
  from assms(1) obtain key0 where setting: "codecs_ok cr" "same_rsa cr config"
    "\<And>n. random_nonce ent = Inr n \<Longrightarrow> length n = 12" "derived_key hs False config encryptionKey derivationKey = Inr key0"
    by (auto simp: codec_setting_def)
  from assms(2) obtain key header nonce c where
    k: "key_and_header hs cr config ent encryptionKey derivationKey isMetadata = Inr (Inr (key, header, nonce))"
      "compress cr (CompressionLevel config) content = Inr c"
      "encrypted = (if encryptionKey = [] then c else header @ gcm_Seal cr key nonce (pad c))"
    by (auto simp: encrypt_bytes_def bind_res_Inr_iff)
  note d = decompress_compress [OF setting(1) k(2)]
  have "encrypted \<noteq> [] \<and> take 10 encrypted \<noteq> ERASURE_CODING_BANNER \<and>
      decrypts_to hs cr config encryptionKey derivationKey encrypted content"
  proof (cases "encryptionKey = []")
    case True
    with k(3) d show ?thesis by (auto simp: decrypts_to_def)
  next
    case False
    with k(1) obtain rsa where "encryption_key hs config ent encryptionKey derivationKey isMetadata = Inr (Inr (key, rsa))"
      "encryption_header cr config ent key rsa = Inr (header, nonce)"
      by (auto simp: key_and_header_def bind_res_Inr_iff)
    note dec = decrypt_encrypted [OF setting(1,2) this setting(3,4), of c]
    have "decrypt_bytes hs cr False config encryptionKey derivationKey [] = Inr (Inl (GoErr ''No enough encrypted data''))"
      using setting(4) by (simp add: decrypt_bytes_def header_key_def)
    with dec(1) have "header @ gcm_Seal cr key nonce (pad c) \<noteq> []" by auto
    with False k(3) d dec show ?thesis by (auto simp: decrypts_to_def)
  qed
  then show "encrypted \<noteq> []" "take 10 encrypted \<noteq> ERASURE_CODING_BANNER"
    "decrypts_to hs cr config encryptionKey derivationKey encrypted content" by simp_all
qed

lemma Decrypt_stages:
  assumes "decrypts_to hs cr config encryptionKey derivationKey encrypted content"
    and "(if length ENCRYPTION_BANNER < length b \<and> take (length ENCRYPTION_BANNER) b = ERASURE_CODING_BANNER
          then erasure_decode cr arm64 config b else Inr (Inr (b, False))) = Inr (Inr (encrypted, rew))"
    and "chunk_buffer chunk = Some b"
  shows "\<exists>chunk'. Decrypt hs cr arm64 False config encryptionKey derivationKey chunk = Inr (None, rew, chunk') \<and>
    chunk_buffer chunk' = Some content \<and> chunk_hasher chunk' = Some (HashKey config, content)"
  using assms by (auto simp: Decrypt_def GetBytes_def Let_def decrypts_to_def simp del: banner_length)

lemma erasure_encode_damaged:
  assumes "erasure_encode cr config encrypted = Inr (Inr e)"
  shows "rs_New cr (DataShards config) (ParityShards config) = None"
    "e = damaged_encoding cr (nat (DataShards config)) (nat (ParityShards config)) encrypted
       (erasure_shards cr (nat (DataShards config)) (nat (ParityShards config)) encrypted)"
  using assms by (auto simp: erasure_encode_def damaged_encoding_def Let_def split: option.splits if_splits)

lemma damaged_banner:
  "take (length ENCRYPTION_BANNER) (damaged_encoding cr d p content damaged) = ERASURE_CODING_BANNER"
  "length ENCRYPTION_BANNER < length (damaged_encoding cr d p content damaged)"
  by (simp_all add: damaged_encoding_def erasure_layout_def erasure_header_def Let_def)

lemma repairable_undamaged:
  assumes "codecs_ok cr" and "rs_New cr (int d) (int p) = None" and "content \<noteq> []"
  shows "repairable cr d p content (erasure_shards cr d p content)"
    "\<not> (\<exists>k < d. \<not> good_shard (erasure_shards cr d p content) (erasure_shards cr d p content) k)"
proof -
  have "good_count xs xs k = k" for xs k by (induction k) (simp_all add: good_shard_def)
  then show "repairable cr d p content (erasure_shards cr d p content)"
    by (simp add: repairable_def Let_def detectable_def good_shard_def list_all2_conv_all_nth)
qed (simp add: good_shard_def)

text \<open>The two forms of a successfully encrypted chunk.\<close>

lemma Encrypt_cases:
  assumes "Encrypt hs cr config ent encryptionKey derivationKey isMetadata chunk = Inr (None, chunk1)"
    and "chunk_buffer chunk = Some content"
  obtains (plain) encrypted where
      "encrypt_bytes hs cr config ent encryptionKey derivationKey (isMetadata \<or> chunk_isMetadata chunk) content = Inr (Inr encrypted)"
      "chunk_buffer chunk1 = Some encrypted"
    | (coded) encrypted where
      "encrypt_bytes hs cr config ent encryptionKey derivationKey (isMetadata \<or> chunk_isMetadata chunk) content = Inr (Inr encrypted)"
      "rs_New cr (DataShards config) (ParityShards config) = None"
      "chunk_buffer chunk1 = Some (damaged_encoding cr (nat (DataShards config)) (nat (ParityShards config)) encrypted
         (erasure_shards cr (nat (DataShards config)) (nat (ParityShards config)) encrypted))"
proof -
  from assms obtain encrypted where
    e: "encrypt_bytes hs cr config ent encryptionKey derivationKey (isMetadata \<or> chunk_isMetadata chunk) content = Inr (Inr encrypted)"
    by (auto simp: Encrypt_def GetBytes_def bind_res_case_iff)
  show thesis
  proof (cases "DataShards config = 0 \<or> ParityShards config = 0")
    case True
    with assms e show thesis by (intro plain [OF e]) (auto simp: Encrypt_def GetBytes_def)
  next
    case False
    with assms e obtain b where b: "erasure_encode cr config encrypted = Inr (Inr b)" "chunk_buffer chunk1 = Some b"
      by (auto simp: Encrypt_def GetBytes_def bind_res_case_iff)
    show thesis by (rule coded [OF e]) (use erasure_encode_damaged [OF b(1)] b(2) in simp_all)
  qed
qed

lemma erasure_size: "length content \<le> length (damaged_encoding cr d p content (erasure_shards cr d p content))"
  if "rs_ok cr d p" "content \<noteq> []"
proof -
  note props = erasure_shards_props [OF that]
  have "length content \<le> length (concat (take d (erasure_shards cr d p content)))"
    using props(4) by (metis length_take min.cobounded1 min_def)
  also have "\<dots> \<le> length (concat (erasure_shards cr d p content))"
    by (metis append_take_drop_id concat_append length_append le_add1)
  finally show ?thesis by (simp add: damaged_encoding_def erasure_layout_def)
qed

lemma encrypted_decrypts:
  assumes "codec_setting hs cr config ent encryptionKey derivationKey" and "chunk_buffer chunk = Some content"
    and "Encrypt hs cr config ent encryptionKey derivationKey isMetadata chunk = Inr (None, chunk1)"
    and "GetLength chunk1 < 2 ^ 63" and "chunk_buffer c = chunk_buffer chunk1"
  shows "\<exists>chunk2. Decrypt hs cr arm64 False config encryptionKey derivationKey c = Inr (None, False, chunk2) \<and>
    chunk_buffer chunk2 = Some content \<and> chunk_hasher chunk2 = Some (HashKey config, content)"
  using assms(3,2)
proof (cases rule: Encrypt_cases)
  case (plain encrypted)
  note e = encrypt_bytes_decrypts [OF assms(1) plain(1)]
  have "chunk_buffer c = Some encrypted" using plain(2) assms(5) by simp
  then show ?thesis by (rule Decrypt_stages [OF e(3), rotated]) (use e(2) in simp)
next
  case (coded encrypted)
  let ?d = "nat (DataShards config)" and ?p = "nat (ParityShards config)"
  note e = encrypt_bytes_decrypts [OF assms(1) coded(1)]
  have ok: "codecs_ok cr" "DataShards config < 2 ^ 16" "ParityShards config < 2 ^ 16"
    using assms(1) by (simp_all add: codec_setting_def)
  have law: "0 < DataShards config \<and> 0 \<le> ParityShards config \<and> rs_ok cr ?d ?p"
    using ok(1) coded(2) unfolding codecs_ok_def by blast
  then have "length encrypted < 2 ^ 63"
    using erasure_size [OF _ e(1), of cr ?d ?p] assms(4) coded(3) by (simp add: GetLength_def)
  moreover have und: "repairable cr ?d ?p encrypted (erasure_shards cr ?d ?p encrypted)"
    "\<not> (\<exists>k < ?d. \<not> good_shard (erasure_shards cr ?d ?p encrypted) (erasure_shards cr ?d ?p encrypted) k)"
    using repairable_undamaged [OF ok(1) _ e(1), of ?d ?p] coded(2) law by simp_all
  ultimately have "erasure_decode cr arm64 config (damaged_encoding cr ?d ?p encrypted (erasure_shards cr ?d ?p encrypted)) =
      Inr (Inr (encrypted, False))"
    using erasure_decode_damaged [OF ok(1) coded(2) refl refl _ _ e(1) _ und(1)] ok(2,3) by (simp add: nat_less_iff)
  moreover from coded(3) assms(5) have "chunk_buffer c = Some (damaged_encoding cr ?d ?p encrypted (erasure_shards cr ?d ?p encrypted))"
    by simp
  ultimately show ?thesis
    by (intro Decrypt_stages [OF e(3)]) (simp_all add: damaged_banner del: banner_length)
qed



subsection \<open>Parameters for which the hypotheses hold\<close>

text \<open>Toy codecs: compression only adds a byte, and the Reed-Solomon code for one data shard is
  replication.\<close>

definition sample_codecs :: codecs where
  "sample_codecs = \<lparr>aes_key_ok = (\<lambda>k. True), gcm_Seal = (\<lambda>k n x. x @ [0]), gcm_Open = (\<lambda>k n x. Inr (butlast x)),
     rsa_EncryptOAEP = (\<lambda>pub r m. Inr m), rsa_DecryptOAEP = (\<lambda>priv c. Inr c),
     zlib_deflate = (\<lambda>l x. 0x78 # x), zlib_inflate = (\<lambda>x. Inr (tl x)),
     zstd_encode = (\<lambda>l x. Inr (0 # x)), zstd_decode = (\<lambda>x. Inr (tl x)),
     lz4_Encode = (\<lambda>x. Inr (0 # x)), lz4_Decode = (\<lambda>x. Inr (tl x)),
     rs_New = (\<lambda>d p. if d = 1 \<and> 0 \<le> p then None else Some (GoErr ''invalid'')),
     rs_Encode = (\<lambda>d p shards. replicate p (hd shards)),
     rs_Reconstruct = (\<lambda>d p slots. case filter (\<lambda>s. s \<noteq> []) slots of [] \<Rightarrow> Inl EOF | s # _ \<Rightarrow> Inr [s]),
     highwayhash = (\<lambda>b. take 32 (b @ replicate 32 0)), wronghighwayhash = (\<lambda>b. [])\<rparr>"

lemma sample_rs_ok: "rs_ok sample_codecs 1 p"
  unfolding rs_ok_def
proof (intro conjI allI impI)
  fix shards :: "bytes list" and n
  assume a: "length shards = 1 \<and> (\<forall>s \<in> set shards. length s = n) \<and> 0 < n"
  then obtain s where s: "shards = [s]" "s \<noteq> []" by (cases shards) auto
  show "length (rs_Encode sample_codecs 1 p shards) = p" "\<forall>t \<in> set (rs_Encode sample_codecs 1 p shards). length t = n"
    using a s by (simp_all add: sample_codecs_def)
  fix slots :: "bytes list"
  assume b: "length slots = 1 + p \<and> 1 \<le> length (filter (\<lambda>s. s \<noteq> []) slots) \<and>
    (\<forall>i < 1 + p. slots ! i = [] \<or> slots ! i = (shards @ rs_Encode sample_codecs 1 p shards) ! i)"
  then obtain t ts where t: "filter (\<lambda>s. s \<noteq> []) slots = t # ts" by (cases "filter (\<lambda>s. s \<noteq> []) slots") auto
  then have "t \<in> set (filter (\<lambda>s. s \<noteq> []) slots)" by simp
  then have "t \<in> set slots" "t \<noteq> []" by simp_all
  then obtain i where "i < 1 + p" "slots ! i = t" using b by (metis in_set_conv_nth)
  moreover have "(shards @ rs_Encode sample_codecs 1 p shards) ! i = s" if "i < 1 + p" for i
    using that s by (cases i) (simp_all add: sample_codecs_def)
  ultimately have "t = s" using b \<open>t \<noteq> []\<close> by metis
  with t s show "\<exists>out. rs_Reconstruct sample_codecs 1 p slots = Inr out \<and> take 1 out = shards"
    by (simp add: sample_codecs_def)
qed simp

lemma sample_codecs_ok: "codecs_ok sample_codecs"
  unfolding codecs_ok_def
proof (intro conjI allI impI)
  fix d p :: int
  assume "rs_New sample_codecs d p = None"
  then show "0 < d" "0 \<le> p" "rs_ok sample_codecs (nat d) (nat p)"
    using sample_rs_ok by (auto simp: sample_codecs_def split: if_splits)
qed (simp_all add: sample_codecs_def)

definition sample_entropy :: entropy where
  "sample_entropy = \<lparr>random_key = Inr (replicate 32 9), random_nonce = Inr (replicate 12 5), random_oaep = []\<rparr>"

definition coded_config :: config where
  "coded_config = CreateConfig\<lparr>DataShards := 1, ParityShards := 2\<rparr>"

lemma sample_setting:
  "codec_setting sample_hashes sample_codecs CreateConfig sample_entropy [1, 2] []"
  "codec_setting sample_hashes sample_codecs coded_config sample_entropy [] []"
  by (simp_all add: codec_setting_def sample_codecs_ok same_rsa_def sample_entropy_def derived_key_def
      coded_config_def CreateConfig_def zero_config_def)

definition sample_chunk :: chunk where
  "sample_chunk = (CreateChunk True)\<lparr>chunk_buffer := Some [7, 8]\<rparr>"

lemmas codec_eval = encrypt_bytes_def key_and_header_def encryption_key_def encryption_header_def compress_def
  sample_codecs_def sample_entropy_def CreateConfig_def zero_config_def level_defs GetBytes_def sample_chunk_def CreateChunk_def


lemma damaged_first:
  assumes "erasure_shards cr 1 2 t = [t, t, t]" and "b \<noteq> t" and "highwayhash cr b \<noteq> highwayhash cr t"
    and "wronghighwayhash cr b \<noteq> highwayhash cr t" and "length t = length b"
  shows "repairable cr 1 2 t [b, t, t]" "\<not> good_shard [t, t, t] [b, t, t] 0"
  using assms by (auto simp: repairable_def detectable_def good_shard_def good_count_def less_Suc_eq upt_rec)


end
