(* ===== verification/StateExn.thy ===== *)
theory StateExn
  imports Prelude
begin

text \<open>
  Programs with a state and failures. A function of the program that works on the storage is
  a function from the state to an outcome and the state it leaves behind: a \<open>LOG_ERROR\<close> in
  the middle of an operation keeps what was done before it. \<open>bind_st\<close> is the sequencing of
  statements, \<open>for_each\<close> the loop over a slice. \<open>valid P m Q E\<close> is the Hoare triple for such
  a program: started in a state with \<open>P\<close>, it returns a value and a state with \<open>Q\<close>, or fails
  in a state with \<open>E\<close>; \<open>keeps P m\<close> says that \<open>P\<close> is an invariant of \<open>m\<close> whatever the outcome.
\<close>

named_theorems hoare \<open>rules for the triples\<close>

type_synonym ('s, 'a) prog = "'s \<Rightarrow> 'a res \<times> 's"

section \<open>Statements\<close>

definition return_st :: "'a \<Rightarrow> ('s, 'a) prog" where
  "return_st x s = (Inr x, s)"

definition raise_st :: "exn \<Rightarrow> ('s, 'a) prog" where
  "raise_st e s = (Inl e, s)"

definition bind_st :: "('s, 'a) prog \<Rightarrow> ('a \<Rightarrow> ('s, 'b) prog) \<Rightarrow> ('s, 'b) prog" where
  "bind_st m f s = (case m s of (Inl e, t) \<Rightarrow> (Inl e, t) | (Inr x, t) \<Rightarrow> f x t)"

definition lift_res :: "'a res \<Rightarrow> ('s, 'a) prog" where
  "lift_res r s = (r, s)"

definition get_st :: "('s \<Rightarrow> 'a) \<Rightarrow> ('s, 'a) prog" where
  "get_st f s = (Inr (f s), s)"

definition modify_st :: "('s \<Rightarrow> 's) \<Rightarrow> ('s, unit) prog" where
  "modify_st f s = (Inr (), f s)"

text \<open>The loop over a slice, and the loop that collects one result per element.\<close>

fun for_each :: "'a list \<Rightarrow> ('a \<Rightarrow> ('s, unit) prog) \<Rightarrow> ('s, unit) prog" where
  "for_each [] f = return_st ()"
| "for_each (x # xs) f = bind_st (f x) (\<lambda>_. for_each xs f)"

fun map_st :: "('a \<Rightarrow> ('s, 'b) prog) \<Rightarrow> 'a list \<Rightarrow> ('s, 'b list) prog" where
  "map_st f [] = return_st []"
| "map_st f (x # xs) = bind_st (f x) (\<lambda>y. bind_st (map_st f xs) (\<lambda>ys. return_st (y # ys)))"

fun fold_st :: "('a \<Rightarrow> 'b \<Rightarrow> ('s, 'b) prog) \<Rightarrow> 'a list \<Rightarrow> 'b \<Rightarrow> ('s, 'b) prog" where
  "fold_st f [] b = return_st b"
| "fold_st f (x # xs) b = bind_st (f x b) (fold_st f xs)"

text \<open>A program on a part of the state.\<close>

definition zoom :: "('w \<Rightarrow> 's) \<Rightarrow> ('s \<Rightarrow> 'w \<Rightarrow> 'w) \<Rightarrow> ('s, 'a) prog \<Rightarrow> ('w, 'a) prog" where
  "zoom get put m w = (case m (get w) of (r, s) \<Rightarrow> (r, put s w))"

lemma st_simps [simp]:
  "bind_st (return_st x) f = f x"
  "bind_st (raise_st e) f = raise_st e"
  "bind_st (lift_res (Inr x)) f = f x"
  "bind_st (lift_res (Inl e)) f = raise_st e"
  "lift_res (Inr x) = return_st x"
  "lift_res (Inl e) = raise_st e"
  by (simp_all add: fun_eq_iff bind_st_def return_st_def raise_st_def lift_res_def)

lemma st_pair_simps [simp]:
  "bind_st (Pair (Inr x)) f = f x"
  "bind_st (Pair (Inl e)) f = Pair (Inl e)"
  by (simp_all add: fun_eq_iff bind_st_def)

lemma run_simps [simp]:
  "return_st x s = (Inr x, s)"
  "raise_st e s = (Inl e, s)"
  "get_st g s = (Inr (g s), s)"
  "modify_st h s = (Inr (), h s)"
  by (simp_all add: return_st_def raise_st_def get_st_def modify_st_def)

lemma bind_st_run:
  "m s = (Inr x, t) \<Longrightarrow> bind_st m f s = f x t"
  "m s = (Inl e, t) \<Longrightarrow> bind_st m f s = (Inl e, t)"
  by (simp_all add: bind_st_def)

lemma bind_st_get [simp]: "bind_st (get_st g) f s = f (g s) s"
  by (simp add: bind_st_def)

lemma bind_st_modify [simp]: "bind_st (modify_st h) f s = f () (h s)"
  by (simp add: bind_st_def)

lemma bind_st_assoc: "bind_st (bind_st m f) g = bind_st m (\<lambda>x. bind_st (f x) g)"
  by (simp add: fun_eq_iff bind_st_def split: prod.splits sum.splits)

lemma bind_st_InrE:
  assumes "bind_st m f s = (Inr y, u)"
  obtains x t where "m s = (Inr x, t)" and "f x t = (Inr y, u)"
  using assms by (auto simp: bind_st_def split: prod.splits sum.splits)

lemma for_each_append: "for_each (xs @ ys) f = bind_st (for_each xs f) (\<lambda>_. for_each ys f)"
  by (induction xs) (simp_all add: bind_st_assoc)

section \<open>Triples\<close>

definition valid :: "('s \<Rightarrow> bool) \<Rightarrow> ('s, 'a) prog \<Rightarrow> ('a \<Rightarrow> 's \<Rightarrow> bool) \<Rightarrow> ('s \<Rightarrow> bool) \<Rightarrow> bool" where
  "valid P m Q E = (\<forall>s. P s \<longrightarrow> (case m s of (Inr x, t) \<Rightarrow> Q x t | (Inl e, t) \<Rightarrow> E t))"

definition keeps :: "('s \<Rightarrow> bool) \<Rightarrow> ('s, 'a) prog \<Rightarrow> bool" where
  "keeps P m = (\<forall>s. P s \<longrightarrow> P (snd (m s)))"

lemma keeps_valid: "keeps P m \<longleftrightarrow> valid P m (\<lambda>_. P) P"
  unfolding keeps_def valid_def
  by (rule all_cong1) (auto split: prod.splits sum.splits)

lemma validD:
  assumes "valid P m Q E" and "P s"
  shows "m s = (Inr x, t) \<Longrightarrow> Q x t" and "m s = (Inl e, t) \<Longrightarrow> E t"
  using assms by (fastforce simp: valid_def)+

lemma keepsD: "keeps P m \<Longrightarrow> P s \<Longrightarrow> m s = (r, t) \<Longrightarrow> P t"
  by (metis keeps_def snd_conv)

lemma keepsI: "(\<And>s r t. P s \<Longrightarrow> m s = (r, t) \<Longrightarrow> P t) \<Longrightarrow> keeps P m"
  unfolding keeps_def by (metis prod.collapse)

lemma keeps_return [hoare]: "keeps P (return_st x)"
  and keeps_raise [hoare]: "keeps P (raise_st e)"
  and keeps_get [hoare]: "keeps P (get_st g)"
  and keeps_lift [hoare]: "keeps P (lift_res r)"
  and keeps_Pair [hoare]: "keeps P (Pair r)"
  by (simp_all add: keeps_def lift_res_def)

lemma keeps_bind [hoare]:
  "keeps P m \<Longrightarrow> (\<And>x. keeps P (f x)) \<Longrightarrow> keeps P (bind_st m f)"
  by (fastforce simp: keeps_def bind_st_def split: prod.splits sum.splits)

lemma keeps_if [hoare]: "(b \<Longrightarrow> keeps P m) \<Longrightarrow> (\<not> b \<Longrightarrow> keeps P n) \<Longrightarrow> keeps P (if b then m else n)"
  by simp

lemma keeps_case [hoare]:
  "(\<And>a b. p = (a, b) \<Longrightarrow> keeps P (g a b)) \<Longrightarrow> keeps P (case p of (a, b) \<Rightarrow> g a b)"
  "(\<And>a. r = Inl a \<Longrightarrow> keeps P (h a)) \<Longrightarrow> (\<And>b. r = Inr b \<Longrightarrow> keeps P (i b)) \<Longrightarrow>
     keeps P (case r of Inl a \<Rightarrow> h a | Inr b \<Rightarrow> i b)"
  "(x = None \<Longrightarrow> keeps P m) \<Longrightarrow> (\<And>y. x = Some y \<Longrightarrow> keeps P (j y)) \<Longrightarrow>
     keeps P (case x of None \<Rightarrow> m | Some y \<Rightarrow> j y)"
  by (cases p, simp) (cases r, simp_all, cases x, simp_all)

lemma keeps_for_each [hoare]: "(\<And>x. x \<in> set xs \<Longrightarrow> keeps P (f x)) \<Longrightarrow> keeps P (for_each xs f)"
  by (induction xs) (auto intro!: hoare)

lemma keeps_map_st [hoare]: "(\<And>x. x \<in> set xs \<Longrightarrow> keeps P (f x)) \<Longrightarrow> keeps P (map_st f xs)"
  by (induction xs) (auto intro!: hoare)

lemma keeps_fold_st [hoare]: "(\<And>x b. x \<in> set xs \<Longrightarrow> keeps P (f x b)) \<Longrightarrow> keeps P (fold_st f xs b)"
  by (induction xs arbitrary: b) (auto intro!: hoare)

lemma keeps_modify: "(\<And>s. P s \<Longrightarrow> P (h s)) \<Longrightarrow> keeps P (modify_st h)"
  by (simp add: keeps_def)

lemma keeps_zoom:
  assumes "\<And>w. P w \<Longrightarrow> R (get w)" and "\<And>w s. P w \<Longrightarrow> R s \<Longrightarrow> P (put s w)" and "keeps R m"
  shows "keeps P (zoom get put m)"
proof (rule keepsI)
  fix w r t
  assume "P w" and z: "zoom get put m w = (r, t)"
  obtain r' s where m: "m (get w) = (r', s)" by (cases "m (get w)")
  with z have "t = put s w" by (simp add: zoom_def)
  moreover have "R s" using keepsD [OF assms(3) assms(1) [OF \<open>P w\<close>] m] .
  ultimately show "P t" using assms(2) [OF \<open>P w\<close>] by simp
qed

lemma keeps_conj: "keeps P m \<Longrightarrow> keeps Q m \<Longrightarrow> keeps (\<lambda>s. P s \<and> Q s) m"
  by (simp add: keeps_def)

lemma valid_bind:
  assumes "valid P m Q E" and "\<And>x. valid (Q x) (f x) R E"
  shows "valid P (bind_st m f) R E"
  unfolding valid_def
proof (intro allI impI)
  fix s
  assume "P s"
  obtain r t where m: "m s = (r, t)" by (cases "m s")
  show "case bind_st m f s of (Inr x, t) \<Rightarrow> R x t | (Inl e, t) \<Rightarrow> E t"
  proof (cases r)
    case (Inl e)
    with m \<open>P s\<close> show ?thesis using validD(2) [OF assms(1)] by (simp add: bind_st_def)
  next
    case (Inr x)
    with m \<open>P s\<close> have "Q x t" using validD(1) [OF assms(1)] by simp
    with assms(2) [of x] show ?thesis using m Inr by (simp add: bind_st_def valid_def)
  qed
qed

lemma valid_weaken:
  "valid P m Q E \<Longrightarrow> (\<And>s. P' s \<Longrightarrow> P s) \<Longrightarrow> (\<And>x t. Q x t \<Longrightarrow> Q' x t) \<Longrightarrow> (\<And>t. E t \<Longrightarrow> E' t) \<Longrightarrow>
    valid P' m Q' E'"
  by (fastforce simp: valid_def split: prod.splits sum.splits)

lemma for_each_split:
  assumes "for_each xs f s = (Inr (), t)" and "x \<in> set xs"
  obtains ys zs u v where "xs = ys @ x # zs" and "for_each ys f s = (Inr (), u)"
    and "f x u = (Inr (), v)" and "for_each zs f v = (Inr (), t)"
proof -
  from assms(2) obtain ys zs where xs: "xs = ys @ x # zs" by (meson split_list)
  with assms(1) obtain u where "for_each ys f s = (Inr (), u)"
    and r: "bind_st (f x) (\<lambda>_. for_each zs f) u = (Inr (), t)"
    by (auto simp: for_each_append elim!: bind_st_InrE [where m = "for_each ys f"])
  moreover from r obtain v where "f x u = (Inr (), v)" "for_each zs f v = (Inr (), t)"
    by (auto elim!: bind_st_InrE)
  ultimately show ?thesis using xs that by blast
qed

section \<open>Values returned\<close>

text \<open>Every value that the program returns has the property, whatever the state.\<close>

named_theorems yielding \<open>rules for the values of programs\<close>

definition yields :: "('a \<Rightarrow> bool) \<Rightarrow> ('s, 'a) prog \<Rightarrow> bool" where
  "yields Q m = (\<forall>s x t. m s = (Inr x, t) \<longrightarrow> Q x)"

lemma yieldsD: "yields Q m \<Longrightarrow> m s = (Inr x, t) \<Longrightarrow> Q x"
  unfolding yields_def by blast

lemma yields_return [yielding]: "Q x \<Longrightarrow> yields Q (return_st x)"
  and yields_raise [yielding]: "yields Q (raise_st e)"
  and yields_lift: "(\<And>x. r = Inr x \<Longrightarrow> Q x) \<Longrightarrow> yields Q (lift_res r)"
  and yields_True: "(\<And>x. Q x) \<Longrightarrow> yields Q m"
  by (simp_all add: yields_def lift_res_def)

lemma yields_bind: "yields R m \<Longrightarrow> (\<And>x. R x \<Longrightarrow> yields Q (f x)) \<Longrightarrow> yields Q (bind_st m f)"
  by (fastforce simp: yields_def bind_st_def split: prod.splits sum.splits)

lemma yields_then [yielding]: "(\<And>x. yields Q (f x)) \<Longrightarrow> yields Q (bind_st m f)"
  by (rule yields_bind [of "\<lambda>_. True"]) (simp_all add: yields_def)

lemma yields_if [yielding]: "(b \<Longrightarrow> yields Q m) \<Longrightarrow> (\<not> b \<Longrightarrow> yields Q n) \<Longrightarrow> yields Q (if b then m else n)"
  by simp

lemma yields_case [yielding]:
  "(\<And>a b. p = (a, b) \<Longrightarrow> yields Q (g a b)) \<Longrightarrow> yields Q (case p of (a, b) \<Rightarrow> g a b)"
  "(\<And>a. r = Inl a \<Longrightarrow> yields Q (h a)) \<Longrightarrow> (\<And>b. r = Inr b \<Longrightarrow> yields Q (i b)) \<Longrightarrow>
     yields Q (case r of Inl a \<Rightarrow> h a | Inr b \<Rightarrow> i b)"
  "(x = None \<Longrightarrow> yields Q m) \<Longrightarrow> (\<And>y. x = Some y \<Longrightarrow> yields Q (j y)) \<Longrightarrow>
     yields Q (case x of None \<Rightarrow> m | Some y \<Rightarrow> j y)"
  by (cases p, simp) (cases r, simp_all, cases x, simp_all)

lemma yields_Pair [yielding]: "Q x \<Longrightarrow> yields Q (Pair (Inr x))"
  by (simp add: yields_def)

lemma yields_fold_st:
  assumes "I pre b" and "\<And>x b seen. x \<in> set xs \<Longrightarrow> I seen b \<Longrightarrow> yields (I (seen @ [x])) (f x b)"
  shows "yields (I (pre @ xs)) (fold_st f xs b)"
  using assms
proof (induction xs arbitrary: pre b)
  case (Cons x xs)
  have "yields (I (pre @ [x])) (f x b)" using Cons.prems by simp
  then have "yields (I ((pre @ [x]) @ xs)) (bind_st (f x b) (fold_st f xs))"
    by (rule yields_bind) (rule Cons.IH, use Cons.prems(2) in auto)
  then show ?case by simp
qed (simp add: yields_return)

lemma yields_weaken: "yields Q m \<Longrightarrow> (\<And>x. Q x \<Longrightarrow> R x) \<Longrightarrow> yields R m"
  unfolding yields_def by blast

lemma yields_map_st:
  assumes "\<And>x. x \<in> set xs \<Longrightarrow> yields (R x) (f x)"
  shows "yields (list_all2 R xs) (map_st f xs)"
  using assms
proof (induction xs)
  case (Cons x xs)
  have "yields (R x) (f x)" "yields (list_all2 R xs) (map_st f xs)" using Cons by simp_all
  then show ?case by (auto intro!: yields_bind [where R = "R x"] yields_bind [where R = "list_all2 R xs"] yields_return)
qed (simp add: yields_return)

lemma keeps_bind_yields:
  assumes "yields Q m" and "keeps P m" and "\<And>x. Q x \<Longrightarrow> keeps P (f x)"
  shows "keeps P (bind_st m f)"
proof (rule keepsI)
  fix s r t
  assume "P s" and b: "bind_st m f s = (r, t)"
  obtain y u where m: "m s = (y, u)" by (cases "m s")
  with \<open>P s\<close> have "P u" using keepsD [OF assms(2)] by blast
  show "P t"
  proof (cases y)
    case (Inl e)
    with b m \<open>P u\<close> show ?thesis by (simp add: bind_st_def)
  next
    case (Inr x)
    with b m have "f x u = (r, t)" by (simp add: bind_st_def)
    then show ?thesis using keepsD [OF assms(3) \<open>P u\<close>] yieldsD [OF assms(1)] m Inr by blast
  qed
qed

end
