(* ===== verification/FileSystem.thy ===== *)
theory FileSystem
  imports Prelude "HOL-Library.Char_ord" "HOL-Library.List_Lexorder"
begin

text \<open>
  The part of Go's \<open>os\<close> and \<open>path\<close> packages that the file storage uses, on a directory tree of
  files and directories. A path is the list of its components, a tree an association list from
  paths to nodes; the root, the empty path, is always a directory. Every operation returns
  the error number of the system call or the new tree. Permissions, symbolic links and hardware
  failures are not modelled.

  \<open>tree\<close> is the invariant of the tree (every node hangs below a directory); each operation keeps
  it. \<open>content_at\<close> is the content of the file at a path, in terms of which the operations are
  specified.
\<close>

datatype node = File bytes | Dir

type_synonym path = "string list"
type_synonym files = "(path \<times> node) list"

datatype errno = ENOENT | ENOTDIR | EEXIST | EISDIR | ENOTEMPTY | EBUSY | EINVAL

section \<open>Nodes\<close>

definition at_path :: "files \<Rightarrow> path \<Rightarrow> node option" where
  "at_path fs p = (if p = [] then Some Dir else map_of fs p)"

definition put_node :: "path \<Rightarrow> node \<Rightarrow> files \<Rightarrow> files" where
  "put_node p n fs = (p, n) # filter (\<lambda>e. fst e \<noteq> p) fs"

definition del_node :: "path \<Rightarrow> files \<Rightarrow> files" where
  "del_node p fs = filter (\<lambda>e. fst e \<noteq> p) fs"

definition is_file_at :: "files \<Rightarrow> path \<Rightarrow> bool" where
  "is_file_at fs p = (case at_path fs p of Some (File b) \<Rightarrow> True | _ \<Rightarrow> False)"

definition has_children :: "files \<Rightarrow> path \<Rightarrow> bool" where
  "has_children fs p = list_ex (\<lambda>e. fst e \<noteq> [] \<and> butlast (fst e) = p) fs"

definition tree :: "files \<Rightarrow> bool" where
  "tree fs \<longleftrightarrow> distinct (map fst fs) \<and>
     (\<forall>p \<in> fst ` set fs. p \<noteq> [] \<and> at_path fs (butlast p) = Some Dir)"

definition content_at :: "files \<Rightarrow> path \<Rightarrow> bytes option" where
  "content_at fs p = (case at_path fs p of Some (File b) \<Rightarrow> Some b | _ \<Rightarrow> None)"

section \<open>System calls\<close>

text \<open>A component of the path other than the last that is a file makes every call fail with
  \<open>ENOTDIR\<close>.\<close>

definition stat :: "files \<Rightarrow> path \<Rightarrow> errno + node" where
  "stat fs p =
     (if list_ex (\<lambda>i. is_file_at fs (take i p)) [1..<length p] then Inl ENOTDIR
      else case at_path fs p of None \<Rightarrow> Inl ENOENT | Some n \<Rightarrow> Inr n)"

definition stat_parent :: "files \<Rightarrow> path \<Rightarrow> errno option" where
  "stat_parent fs p =
     (case stat fs (butlast p) of Inl e \<Rightarrow> Some e | Inr (File b) \<Rightarrow> Some ENOTDIR | Inr Dir \<Rightarrow> None)"

definition os_remove :: "path \<Rightarrow> files \<Rightarrow> errno + files" where
  "os_remove p fs =
     (case stat fs p of
        Inl e \<Rightarrow> Inl e
      | Inr (File b) \<Rightarrow> Inr (del_node p fs)
      | Inr Dir \<Rightarrow> if p = [] then Inl EBUSY else if has_children fs p then Inl ENOTEMPTY else Inr (del_node p fs))"

definition os_mkdir :: "path \<Rightarrow> files \<Rightarrow> errno + files" where
  "os_mkdir p fs =
     (case stat fs p of
        Inr n \<Rightarrow> Inl EEXIST
      | Inl e \<Rightarrow> (case stat_parent fs p of Some e \<Rightarrow> Inl e | None \<Rightarrow> Inr (put_node p Dir fs)))"

text \<open>\<open>os.MkdirAll\<close>: \<open>q\<close> are the components that exist already.\<close>

fun mkdir_parts :: "path \<Rightarrow> path \<Rightarrow> files \<Rightarrow> errno + files" where
  "mkdir_parts q [] fs = Inr fs"
| "mkdir_parts q (x # xs) fs =
     (case at_path fs (q @ [x]) of
        Some Dir \<Rightarrow> mkdir_parts (q @ [x]) xs fs
      | Some (File b) \<Rightarrow> Inl ENOTDIR
      | None \<Rightarrow> mkdir_parts (q @ [x]) xs (put_node (q @ [x]) Dir fs))"

definition os_mkdir_all :: "path \<Rightarrow> files \<Rightarrow> errno + files" where
  "os_mkdir_all p fs = mkdir_parts [] p fs"

text \<open>Opening a file with \<open>O_WRONLY | O_CREATE | O_TRUNC\<close> and writing all of its content.\<close>

definition os_write :: "path \<Rightarrow> bytes \<Rightarrow> files \<Rightarrow> errno + files" where
  "os_write p b fs =
     (case stat fs p of
        Inr Dir \<Rightarrow> Inl EISDIR
      | Inr (File c) \<Rightarrow> Inr (put_node p (File b) fs)
      | Inl e \<Rightarrow> (case stat_parent fs p of Some e \<Rightarrow> Inl e | None \<Rightarrow> Inr (put_node p (File b) fs)))"

definition os_read :: "path \<Rightarrow> files \<Rightarrow> errno + bytes" where
  "os_read p fs =
     (case stat fs p of Inl e \<Rightarrow> Inl e | Inr Dir \<Rightarrow> Inl EISDIR | Inr (File b) \<Rightarrow> Inr b)"

text \<open>\<open>os.Rename\<close>: a directory as the target is refused, a file is replaced; a directory moves
  with all that is below it.\<close>

definition rebase :: "path \<Rightarrow> path \<Rightarrow> path \<Rightarrow> path" where
  "rebase src dst q = (if take (length src) q = src then dst @ drop (length src) q else q)"

definition os_rename :: "path \<Rightarrow> path \<Rightarrow> files \<Rightarrow> errno + files" where
  "os_rename src dst fs =
     (case stat fs src of
        Inl e \<Rightarrow> Inl e
      | Inr n \<Rightarrow>
          (case (stat fs dst, n) of
             (Inr Dir, _) \<Rightarrow> Inl EEXIST
           | (Inr (File b), Dir) \<Rightarrow> Inl ENOTDIR
           | (Inr (File b), File c) \<Rightarrow> Inr (put_node dst n (del_node src fs))
           | (Inl e, _) \<Rightarrow>
               (case (stat_parent fs dst, n) of
                  (Some e, _) \<Rightarrow> Inl e
                | (None, File c) \<Rightarrow> Inr (put_node dst n (del_node src fs))
                | (None, Dir) \<Rightarrow>
                    if take (length src) dst = src then Inl EINVAL
                    else Inr (map (\<lambda>(q, m). (rebase src dst q, m)) fs))))"

definition os_readdir :: "path \<Rightarrow> files \<Rightarrow> errno + (string \<times> node) list" where
  "os_readdir p fs =
     (case stat fs p of
        Inl e \<Rightarrow> Inl e
      | Inr (File b) \<Rightarrow> Inl ENOTDIR
      | Inr Dir \<Rightarrow> Inr (sort_key fst
          (map (\<lambda>(q, n). (last q, n)) (filter (\<lambda>e. fst e \<noteq> [] \<and> butlast (fst e) = p) fs))))"

section \<open>Paths\<close>

text \<open>\<open>strings.Split(s, "/")\<close>.\<close>

fun split_slash :: "string \<Rightarrow> string list" where
  "split_slash [] = [[]]"
| "split_slash (c # s) =
     (if c = CHR ''/'' then [] # split_slash s
      else case split_slash s of [] \<Rightarrow> [[c]] | x # xs \<Rightarrow> (c # x) # xs)"

fun join_slash :: "string list \<Rightarrow> string" where
  "join_slash [] = []"
| "join_slash [x] = x"
| "join_slash (x # y # xs) = x @ CHR ''/'' # join_slash (y # xs)"

text \<open>\<open>path.Join(dir, p)\<close> for the directory with components \<open>dir\<close>, with the cleaning it does.\<close>

definition clean_step :: "path \<Rightarrow> string \<Rightarrow> path" where
  "clean_step q x = (if x = [] \<or> x = ''.'' then q else if x = ''..'' then butlast q else q @ [x])"

definition path_Join :: "path \<Rightarrow> string \<Rightarrow> path" where
  "path_Join dir p = foldl clean_step dir (split_slash p)"

text \<open>A path that cleaning does not change.\<close>

definition plain :: "string \<Rightarrow> bool" where
  "plain p \<longleftrightarrow> list_all (\<lambda>x. x \<noteq> [] \<and> x \<noteq> ''.'' \<and> x \<noteq> ''..'') (split_slash p)"

lemma split_slash_nonempty [simp]: "split_slash s \<noteq> []"
  by (induction s) (auto split: list.splits)

lemma join_split [simp]: "join_slash (split_slash s) = s"
proof (induction s)
  case (Cons c s)
  then show ?case by (cases "split_slash s"; cases "tl (split_slash s)") auto
qed simp

lemma split_slash_inj [simp]: "split_slash s = split_slash t \<longleftrightarrow> s = t"
  by (metis join_split)

lemma split_slash_append:
  "split_slash (s @ CHR ''/'' # t) = split_slash s @ split_slash t"
  by (induction s) (auto split: list.splits)

lemma split_slash_no_slash: "CHR ''/'' \<notin> set s \<Longrightarrow> split_slash s = [s]"
  by (induction s) auto

lemma split_slash_suffix:
  "CHR ''/'' \<notin> set t \<Longrightarrow> split_slash (s @ t) = butlast (split_slash s) @ [last (split_slash s) @ t]"
  by (induction s) (auto simp: split_slash_no_slash split: list.splits)

lemma foldl_clean_plain:
  "list_all (\<lambda>x. x \<noteq> [] \<and> x \<noteq> ''.'' \<and> x \<noteq> ''..'') xs \<Longrightarrow> foldl clean_step q xs = q @ xs"
  by (induction xs arbitrary: q) (auto simp: clean_step_def)

lemma path_Join_plain: "plain p \<Longrightarrow> path_Join dir p = dir @ split_slash p"
  by (simp add: path_Join_def plain_def foldl_clean_plain)

lemma path_Join_inj: "plain p \<Longrightarrow> plain q \<Longrightarrow> path_Join dir p = path_Join dir q \<longleftrightarrow> p = q"
  by (simp add: path_Join_plain)

lemma path_Join_nonempty: "plain p \<Longrightarrow> path_Join dir p \<noteq> []"
  by (simp add: path_Join_plain)

section \<open>The invariant of the tree\<close>

lemma map_of_filter: "map_of (filter (\<lambda>e. fst e \<noteq> p) fs) q = (if q = p then None else map_of fs q)"
  by (induction fs) auto

lemma at_put: "p \<noteq> [] \<Longrightarrow> at_path (put_node p n fs) q = (if q = p then Some n else at_path fs q)"
  by (simp add: at_path_def put_node_def map_of_filter)

lemma at_del: "p \<noteq> [] \<Longrightarrow> at_path (del_node p fs) q = (if q = p then None else at_path fs q)"
  by (simp add: at_path_def del_node_def map_of_filter)

lemma tree_key: "tree fs \<Longrightarrow> at_path fs p \<noteq> None \<Longrightarrow> p \<noteq> [] \<Longrightarrow> p \<in> fst ` set fs"
  by (auto simp: at_path_def) (metis domIff dom_map_of_conv_image_fst image_iff option.distinct(1))

lemma tree_parent: "tree fs \<Longrightarrow> at_path fs p \<noteq> None \<Longrightarrow> at_path fs (butlast p) = Some Dir"
proof (cases "p = []")
  case False
  assume "tree fs" and "at_path fs p \<noteq> None"
  with False tree_key show ?thesis by (fastforce simp: tree_def)
qed (simp add: at_path_def)

lemma tree_prefix:
  "tree fs \<Longrightarrow> at_path fs (p @ q) \<noteq> None \<Longrightarrow> q \<noteq> [] \<Longrightarrow> at_path fs p = Some Dir"
proof (induction q rule: rev_induct)
  case (snoc x q)
  then have "at_path fs (p @ q) = Some Dir"
    using tree_parent [of fs "p @ q @ [x]"] by (simp add: butlast_append)
  with snoc show ?case by (cases "q = []") auto
qed simp

lemma is_file_behind:
  assumes "tree fs" and "at_path fs p \<noteq> None"
  shows "\<not> list_ex (\<lambda>i. is_file_at fs (take i p)) [1..<length p]"
proof -
  have "at_path fs (take i p) = Some Dir" if "i < length p" for i
    using assms that tree_prefix [of fs "take i p" "drop i p"] by simp
  then show ?thesis by (auto simp: list_ex_iff is_file_at_def)
qed

lemma stat_Inr [simp]: "tree fs \<Longrightarrow> at_path fs p = Some n \<Longrightarrow> stat fs p = Inr n"
  using is_file_behind [of fs p] by (simp add: stat_def)

lemma stat_Inr_iff: "tree fs \<Longrightarrow> stat fs p = Inr n \<longleftrightarrow> at_path fs p = Some n"
  using is_file_behind [of fs p] by (auto simp: stat_def split: option.splits if_splits)

lemma stat_InlD: "tree fs \<Longrightarrow> stat fs p = Inl e \<Longrightarrow> at_path fs p = None \<and> (e = ENOENT \<or> e = ENOTDIR)"
  using is_file_behind [of fs p] by (auto simp: stat_def split: option.splits if_splits)

lemma stat_cases:
  assumes "tree fs"
  obtains (missing) e where "stat fs p = Inl e" "at_path fs p = None" "e = ENOENT \<or> e = ENOTDIR"
    | (regular) b where "stat fs p = Inr (File b)" "at_path fs p = Some (File b)"
    | (dir) "stat fs p = Inr Dir" "at_path fs p = Some Dir"
proof (cases "stat fs p")
  case (Inl e)
  with stat_InlD [OF assms Inl] that(1) show ?thesis by blast
next
  case (Inr n)
  with assms that(2,3) show ?thesis by (cases n) (auto simp: stat_Inr_iff)
qed

lemma stat_parent_None [simp]: "tree fs \<Longrightarrow> stat_parent fs p = None \<longleftrightarrow> at_path fs (butlast p) = Some Dir"
  by (rule stat_cases [of fs "butlast p"]) (auto simp: stat_parent_def split: sum.splits node.splits)

lemma tree_no_child: "tree fs \<Longrightarrow> at_path fs p \<noteq> Some Dir \<Longrightarrow> \<not> has_children fs p"
  by (auto simp: has_children_def list_ex_iff tree_def)

lemma tree_put:
  assumes "tree fs" and "p \<noteq> []" and "at_path fs (butlast p) = Some Dir" and "n = Dir \<or> at_path fs p \<noteq> Some Dir"
  shows "tree (put_node p n fs)"
proof -
  have "at_path (put_node p n fs) (butlast q) = Some Dir" if "q = p \<or> q \<in> fst ` set fs" for q
    using that assms by (auto simp: at_put tree_def)
  moreover have "distinct (map fst (put_node p n fs))"
    using assms(1) by (auto simp: put_node_def tree_def distinct_map intro: inj_on_subset)
  ultimately show ?thesis using assms(1,2) by (auto simp: tree_def put_node_def)
qed

lemma tree_del:
  assumes "tree fs" and "p \<noteq> []" and "\<not> has_children fs p"
  shows "tree (del_node p fs)"
proof -
  have "at_path (del_node p fs) (butlast q) = Some Dir" if "q \<in> fst ` set fs" for q
    using that assms by (auto simp: at_del tree_def has_children_def list_ex_iff)
  moreover have "distinct (map fst (del_node p fs))"
    using assms(1) by (auto simp: del_node_def tree_def distinct_map intro: inj_on_subset)
  ultimately show ?thesis using assms(1) by (auto simp: tree_def del_node_def)
qed


section \<open>What the calls do\<close>

lemma os_remove_at:
  assumes "tree fs" and "os_remove p fs = Inr fs'"
  shows "tree fs'" and "at_path fs' q = (if q = p then None else at_path fs q)"
    and "at_path fs p \<noteq> None" and "p \<noteq> []"
proof -
  have "p \<noteq> [] \<and> fs' = del_node p fs \<and> \<not> has_children fs p \<and> at_path fs p \<noteq> None"
    using assms(2) tree_no_child [OF assms(1), of p]
    by (rule_tac stat_cases [OF assms(1), of p])
      (auto simp: os_remove_def at_path_def split: sum.splits node.splits if_splits)
  then show "tree fs'" "at_path fs' q = (if q = p then None else at_path fs q)"
    "at_path fs p \<noteq> None" "p \<noteq> []"
    using assms(1) by (auto simp: at_del intro: tree_del)
qed

lemma os_write_at:
  assumes "tree fs" and "os_write p b fs = Inr fs'"
  shows "tree fs'" and "at_path fs' q = (if q = p then Some (File b) else at_path fs q)"
    and "at_path fs p \<noteq> Some Dir" and "p \<noteq> []"
proof -
  have "p \<noteq> [] \<and> fs' = put_node p (File b) fs \<and> at_path fs (butlast p) = Some Dir \<and> at_path fs p \<noteq> Some Dir"
    using assms tree_parent [OF assms(1), of p]
    by (rule_tac stat_cases [OF assms(1), of p])
      (auto simp: os_write_def at_path_def split: sum.splits node.splits if_splits option.splits)
  then show "tree fs'" "at_path fs' q = (if q = p then Some (File b) else at_path fs q)"
    "at_path fs p \<noteq> Some Dir" "p \<noteq> []"
    using assms(1) by (auto simp: at_put intro: tree_put)
qed

lemma os_mkdir_at:
  assumes "tree fs" and "os_mkdir p fs = Inr fs'"
  shows "tree fs'" and "at_path fs' q = (if q = p then Some Dir else at_path fs q)"
    and "at_path fs p = None" and "p \<noteq> []"
proof -
  have "p \<noteq> [] \<and> fs' = put_node p Dir fs \<and> at_path fs (butlast p) = Some Dir \<and> at_path fs p = None"
    using assms
    by (rule_tac stat_cases [OF assms(1), of p])
      (auto simp: os_mkdir_def at_path_def split: sum.splits node.splits if_splits option.splits)
  then show "tree fs'" "at_path fs' q = (if q = p then Some Dir else at_path fs q)"
    "at_path fs p = None" "p \<noteq> []"
    using assms(1) by (auto simp: at_put intro: tree_put)
qed

lemma mkdir_parts_at:
  assumes "tree fs" and "at_path fs q = Some Dir" and "mkdir_parts q xs fs = Inr fs'"
  shows "tree fs' \<and> at_path fs' (q @ xs) = Some Dir \<and>
    (\<forall>r. at_path fs r \<noteq> None \<longrightarrow> at_path fs' r = at_path fs r) \<and>
    (\<forall>r. at_path fs r = None \<longrightarrow> at_path fs' r = None \<or>
       at_path fs' r = Some Dir \<and> (\<exists>k. 0 < k \<and> k \<le> length xs \<and> r = q @ take k xs))"
  using assms
proof (induction q xs fs rule: mkdir_parts.induct)
  case (2 q x xs fs)
  have below: "\<exists>k. 0 < k \<and> k \<le> length (x # xs) \<and> r = q @ take k (x # xs)"
    if "\<exists>k. 0 < k \<and> k \<le> length xs \<and> r = (q @ [x]) @ take k xs" for r
  proof -
    from that obtain k where "k \<le> length xs" "r = (q @ [x]) @ take k xs" by blast
    then have "0 < Suc k \<and> Suc k \<le> length (x # xs) \<and> r = q @ take (Suc k) (x # xs)" by simp
    then show ?thesis by blast
  qed
  show ?case
  proof (cases "at_path fs (q @ [x])")
    case None
    let ?fs = "put_node (q @ [x]) Dir fs"
    have t: "tree ?fs" using 2 by (auto intro!: tree_put)
    have "at_path ?fs (q @ [x]) = Some Dir" by (simp add: at_put)
    then have ih: "tree fs'" "at_path fs' (q @ x # xs) = Some Dir"
      "\<And>r. at_path ?fs r \<noteq> None \<Longrightarrow> at_path fs' r = at_path ?fs r"
      "\<And>r. at_path ?fs r = None \<Longrightarrow> at_path fs' r = None \<or>
         at_path fs' r = Some Dir \<and> (\<exists>k. 0 < k \<and> k \<le> length xs \<and> r = (q @ [x]) @ take k xs)"
      using "2.IH"(1) [OF None t] "2.prems"(3) None by simp_all
    have new: "\<exists>k. 0 < k \<and> k \<le> length (x # xs) \<and> q @ [x] = q @ take k (x # xs)"
      by (rule exI [of _ 1]) simp
    have "at_path fs' r = at_path fs r" if "at_path fs r \<noteq> None" for r
      using that ih(3) [of r] None by (cases "r = q @ [x]") (auto simp: at_put)
    moreover have "at_path fs' r = None \<or>
        at_path fs' r = Some Dir \<and> (\<exists>k. 0 < k \<and> k \<le> length (x # xs) \<and> r = q @ take k (x # xs))"
      if "at_path fs r = None" for r
    proof (cases "r = q @ [x]")
      case True
      then show ?thesis using ih(3) [of r] new by (simp add: at_put)
    next
      case False
      with that have "at_path ?fs r = None" by (simp add: at_put)
      with ih(4) [of r] below [of r] show ?thesis by blast
    qed
    ultimately show ?thesis using ih(1,2) by blast
  next
    case (Some n)
    then have n: "n = Dir" using "2.prems"(3) by (auto split: node.splits)
    with Some "2.IH"(2) [OF Some n] "2.prems" have
      "tree fs'" "at_path fs' (q @ x # xs) = Some Dir"
      "\<And>r. at_path fs r \<noteq> None \<Longrightarrow> at_path fs' r = at_path fs r"
      "\<And>r. at_path fs r = None \<Longrightarrow> at_path fs' r = None \<or>
         at_path fs' r = Some Dir \<and> (\<exists>k. 0 < k \<and> k \<le> length xs \<and> r = (q @ [x]) @ take k xs)"
      by simp_all
    with below show ?thesis by blast
  qed
qed simp

lemma os_mkdir_all_at:
  assumes "tree fs" and "os_mkdir_all p fs = Inr fs'"
  shows "tree fs'" and "at_path fs' p = Some Dir"
    and "at_path fs r \<noteq> None \<Longrightarrow> at_path fs' r = at_path fs r"
    and "at_path fs r = None \<Longrightarrow> at_path fs' r = None \<or> at_path fs' r = Some Dir \<and> (\<exists>k. k \<le> length p \<and> r = take k p)"
proof -
  have *: "tree fs' \<and> at_path fs' ([] @ p) = Some Dir \<and>
    (\<forall>r. at_path fs r \<noteq> None \<longrightarrow> at_path fs' r = at_path fs r) \<and>
    (\<forall>r. at_path fs r = None \<longrightarrow> at_path fs' r = None \<or>
       at_path fs' r = Some Dir \<and> (\<exists>k. 0 < k \<and> k \<le> length p \<and> r = [] @ take k p))"
    using assms by (intro mkdir_parts_at) (auto simp: os_mkdir_all_def at_path_def [of _ "[]"])
  then show "tree fs'" "at_path fs' p = Some Dir" by simp_all
  show "at_path fs r \<noteq> None \<Longrightarrow> at_path fs' r = at_path fs r" using * by simp
  show "at_path fs r = None \<Longrightarrow> at_path fs' r = None \<or> at_path fs' r = Some Dir \<and> (\<exists>k. k \<le> length p \<and> r = take k p)"
    using * by (metis append_Nil)
qed

lemma os_read_iff: "tree fs \<Longrightarrow> os_read p fs = Inr b \<longleftrightarrow> content_at fs p = Some b"
  by (rule stat_cases [of fs p]) (auto simp: os_read_def content_at_def)

lemma os_rename_file_at:
  assumes "tree fs" and "os_rename src dst fs = Inr fs'" and "at_path fs src = Some (File b)"
  shows "tree fs'" and "at_path fs' q = (if q = dst then Some (File b) else if q = src then None else at_path fs q)"
    and "at_path fs dst \<noteq> Some Dir"
proof -
  have src: "src \<noteq> []" using assms(3) by (auto simp: at_path_def)
  have *: "dst \<noteq> [] \<and> fs' = put_node dst (File b) (del_node src fs) \<and> at_path fs (butlast dst) = Some Dir \<and>
      at_path fs dst \<noteq> Some Dir"
    using assms tree_parent [OF assms(1), of dst]
    by (rule_tac stat_cases [OF assms(1), of dst])
      (auto simp: os_rename_def at_path_def split: sum.splits node.splits if_splits option.splits)
  have t: "tree (del_node src fs)"
    using assms(1,3) src tree_no_child [of fs src] by (auto intro: tree_del)
  have "at_path (del_node src fs) (butlast dst) = Some Dir"
    using * src assms(3) by (auto simp: at_del)
  moreover have "at_path (del_node src fs) dst \<noteq> Some Dir" using * src by (simp add: at_del)
  ultimately show "tree fs'" using * t tree_put [of "del_node src fs" dst "File b"] by simp
  show "at_path fs' q = (if q = dst then Some (File b) else if q = src then None else at_path fs q)"
    using * src by (simp add: at_put at_del)
  show "at_path fs dst \<noteq> Some Dir" using * by simp
qed

lemma os_rename_sibling:
  assumes "tree fs" and "at_path fs src = Some (File b)" and "at_path fs dst \<noteq> Some Dir"
    and "butlast dst = butlast src"
  shows "\<exists>fs'. os_rename src dst fs = Inr fs'"
  using assms tree_parent [OF assms(1), of src]
  by (rule_tac stat_cases [OF assms(1), of dst])
    (auto simp: os_rename_def split: sum.splits node.splits option.splits)

lemma os_rename_missing:
  "tree fs \<Longrightarrow> at_path fs src = None \<Longrightarrow> \<exists>e. os_rename src dst fs = Inl e"
  by (rule stat_cases [of fs src]) (auto simp: os_rename_def)

text \<open>Moving a directory keeps the tree as well.\<close>

lemma rebase_keys:
  assumes "tree fs" and "at_path fs dst = None" and "take (length src) dst \<noteq> src"
  shows "inj_on (rebase src dst) (fst ` set fs)"
proof (rule inj_onI)
  fix p q
  assume "p \<in> fst ` set fs" and "q \<in> fst ` set fs" and eq: "rebase src dst p = rebase src dst q"
  have out: "r \<noteq> dst @ x" if "r \<in> fst ` set fs" for r x
  proof
    assume r: "r = dst @ x"
    have "at_path fs r \<noteq> None"
      using that by (auto simp: at_path_def dest: weak_map_of_SomeI)
    then show False using tree_prefix [OF assms(1), of dst x] assms(2) r by (cases "x = []") auto
  qed
  show "p = q"
    using eq out [of p] out [of q] \<open>p \<in> _\<close> \<open>q \<in> _\<close>
    by (auto simp: rebase_def split: if_splits) (metis append_take_drop_id)
qed

lemma rebase_tree:
  assumes t: "tree fs" and src: "at_path fs src = Some Dir" and dst: "at_path fs dst = None"
    and par: "at_path fs (butlast dst) = Some Dir" and sep: "take (length src) dst \<noteq> src"
  shows "tree (map (\<lambda>(q, m). (rebase src dst q, m)) fs)"
proof -
  let ?fs = "map (\<lambda>(q, m). (rebase src dst q, m)) fs"
  have dst_ne: "dst \<noteq> []" and src_ne: "src \<noteq> []" using dst sep by (auto simp: at_path_def)
  have keys: "map fst ?fs = map (rebase src dst) (map fst fs)" by auto
  have dis: "distinct (map fst ?fs)"
    using t rebase_keys [OF t dst sep] unfolding keys
    by (auto simp: tree_def distinct_map intro: comp_inj_on)
  have moved: "at_path ?fs (rebase src dst q) = at_path fs q" if "at_path fs q \<noteq> None" for q
  proof (cases "q = []")
    case True
    with src_ne show ?thesis by (simp add: rebase_def at_path_def)
  next
    case False
    with that obtain n where n: "map_of fs q = Some n" by (auto simp: at_path_def)
    then have "(rebase src dst q, n) \<in> set ?fs" by (force dest: map_of_SomeD)
    moreover have "rebase src dst q \<noteq> []" using False dst_ne by (simp add: rebase_def)
    ultimately show ?thesis using dis n False by (simp add: at_path_def)
  qed
  have "rebase src dst q \<noteq> [] \<and> at_path ?fs (butlast (rebase src dst q)) = Some Dir" if "q \<in> fst ` set fs" for q
  proof
    have q: "q \<noteq> []" "at_path fs (butlast q) = Some Dir" using t that by (auto simp: tree_def)
    then show "rebase src dst q \<noteq> []" using dst_ne by (simp add: rebase_def)
    consider (root) "q = src" | (below) x where "q = src @ x" "x \<noteq> []" | (out) "take (length src) q \<noteq> src"
      by (metis append_take_drop_id append_Nil2)
    then show "at_path ?fs (butlast (rebase src dst q)) = Some Dir"
    proof cases
      case root
      have "take (length src) (butlast dst) \<noteq> src"
        using sep by (metis append_butlast_last_id append_take_drop_id dst_ne take_append append.assoc append_eq_conv_conj)
      then have "rebase src dst (butlast dst) = butlast dst" by (simp add: rebase_def)
      with root moved [of "butlast dst"] par show ?thesis by (simp add: rebase_def)
    next
      case below
      then have "butlast (rebase src dst q) = rebase src dst (butlast q)"
        by (simp add: rebase_def butlast_append)
      with q moved [of "butlast q"] show ?thesis by simp
    next
      case out
      have "take (length src) (butlast q) \<noteq> src"
        using out q(1) by (metis append_butlast_last_id append_take_drop_id take_append append.assoc append_eq_conv_conj)
      with out q moved [of "butlast q"] show ?thesis by (simp add: rebase_def)
    qed
  qed
  with dis show ?thesis unfolding tree_def by force
qed

lemma os_rename_tree:
  assumes "tree fs" and "os_rename src dst fs = Inr fs'"
  shows "tree fs'"
proof (rule stat_cases [OF assms(1), of src])
  fix b
  assume "at_path fs src = Some (File b)"
  with assms show "tree fs'" by (rule os_rename_file_at)
next
  assume "stat fs src = Inr Dir" and "at_path fs src = Some Dir"
  with assms show "tree fs'"
    by (rule_tac stat_cases [OF assms(1), of dst])
      (auto simp: os_rename_def intro!: rebase_tree split: option.splits if_splits)
qed (use assms in \<open>simp add: os_rename_def\<close>)

end
