(* ===== verification/Storage.thy ===== *)
theory Storage
  imports StateExn FileSystem Config
begin

text \<open>
  The storage interface of \<open>duplicacy_storage.go\<close> and the local file storage of
  \<open>duplicacy_filestorage.go\<close>.

  A value of type \<open>'s storage\<close> is an object that implements the interface \<open>Storage\<close>: one
  program per method, on a state of type \<open>'s\<close> that holds whatever the backend keeps. The thread
  index is not an argument, since no method of the file storage depends on it. The methods that
  every backend inherits from \<open>StorageBase\<close> (\<open>FindChunk\<close>, \<open>SetNestingLevels\<close>) are defined over
  the interface.

  The locale \<open>storage_laws\<close> states what the callers rely on: which content the files have after
  each operation. It is interpreted on the file storage at the end of the theory.
\<close>

section \<open>The interface\<close>

record 's storage =
  ListFiles :: "string \<Rightarrow> ('s, goerror + (string \<times> int) list) prog"
  DeleteFile :: "string \<Rightarrow> ('s, goerror option) prog"
  MoveFile :: "string \<Rightarrow> string \<Rightarrow> ('s, goerror option) prog"
  CreateDirectory :: "string \<Rightarrow> ('s, goerror option) prog"
  GetFileInfo :: "string \<Rightarrow> ('s, goerror + bool \<times> bool \<times> int) prog"
  DownloadFile :: "string \<Rightarrow> ('s, bytes \<times> goerror option) prog"
  UploadFile :: "string \<Rightarrow> bytes \<Rightarrow> ('s, goerror option) prog"
  IsCacheNeeded :: "'s \<Rightarrow> bool"
  IsStrongConsistent :: bool
  isHubic :: bool
  isWebDAV :: bool
  readLevels :: "'s \<Rightarrow> int list"
  writeLevel :: "'s \<Rightarrow> int"
  SetDefaultNestingLevels :: "int list \<Rightarrow> int \<Rightarrow> 's \<Rightarrow> 's"

section \<open>StorageBase\<close>

text \<open>The directories of a chunk: \<open>chunkID[2*i:2*i+2] + "/"\<close> for \<open>i\<close> from the given index on.\<close>

fun nest_dirs :: "string \<Rightarrow> nat \<Rightarrow> nat \<Rightarrow> string res" where
  "nest_dirs chunkID i 0 = Inr []"
| "nest_dirs chunkID i (Suc n) =
     bind_res (slice chunkID (2 * i) (2 * i + 2)) (\<lambda>d.
     bind_res (nest_dirs chunkID (Suc i) n) (\<lambda>r. Inr (d @ ''/'' @ r)))"

definition chunk_path :: "string \<Rightarrow> bool \<Rightarrow> int \<Rightarrow> string res" where
  "chunk_path chunkID isFossil level =
     bind_res (nest_dirs chunkID 0 (nat level)) (\<lambda>dirs.
     bind_res (if level < 0 then Inl (Panic ''slice bounds out of range'')
               else slice chunkID (2 * nat level) (length chunkID)) (\<lambda>rest.
       Inr (''chunks/'' @ dirs @ rest @ (if isFossil then ''.fsl'' else []))))"

fun find_levels ::
  "'s storage \<Rightarrow> string \<Rightarrow> bool \<Rightarrow> int list \<Rightarrow> string list \<Rightarrow> ('s, (string \<times> int) + string list) prog" where
  "find_levels st chunkID isFossil [] chunkPaths = return_st (Inr chunkPaths)"
| "find_levels st chunkID isFossil (level # levels) chunkPaths =
     bind_st (lift_res (chunk_path chunkID isFossil level)) (\<lambda>chunkPath.
     bind_st (GetFileInfo st chunkPath) (\<lambda>r.
       case r of
         Inr (True, _, len) \<Rightarrow> return_st (Inl (chunkPath, len))
       | _ \<Rightarrow> find_levels st chunkID isFossil levels (chunkPaths @ [chunkPath])))"

fun path_at_level :: "int \<Rightarrow> int list \<Rightarrow> string list \<Rightarrow> string option" where
  "path_at_level w (level # levels) (p # ps) = (if w = level then Some p else path_at_level w levels ps)"
| "path_at_level w _ _ = None"

definition FindChunk :: "'s storage \<Rightarrow> string \<Rightarrow> bool \<Rightarrow> ('s, goerror + string \<times> bool \<times> int) prog" where
  "FindChunk st chunkID isFossil =
     bind_st (get_st (\<lambda>s. (readLevels st s, writeLevel st s))) (\<lambda>(levels, w).
     bind_st (find_levels st chunkID isFossil levels []) (\<lambda>r.
       return_st (case r of
           Inl (p, len) \<Rightarrow> Inr (p, True, len)
         | Inr ps \<Rightarrow>
             (case path_at_level w levels ps of
                Some p \<Rightarrow> Inr (p, False, 0)
              | None \<Rightarrow> Inl (GoErr ''Invalid chunk nesting setup'')))))"

text \<open>\<open>parse_nesting\<close> is \<open>json.Unmarshal\<close> for the two fields of the nesting file.\<close>

definition load_nesting :: "(bytes \<Rightarrow> goerror + int list \<times> int) \<Rightarrow> 's storage \<Rightarrow> ('s, unit) prog" where
  "load_nesting parse_nesting st =
     bind_st (GetFileInfo st ''nesting'') (\<lambda>info.
       case info of
         Inr (True, _, _) \<Rightarrow>
           bind_st (DownloadFile st ''nesting'') (\<lambda>(bs, err).
             case (err, parse_nesting bs) of
               (None, Inr (rl, wl)) \<Rightarrow> modify_st (SetDefaultNestingLevels st rl wl)
             | _ \<Rightarrow> return_st ())
       | _ \<Rightarrow> return_st ())"

definition SetNestingLevels ::
  "(bytes \<Rightarrow> goerror + int list \<times> int) \<Rightarrow> 's storage \<Rightarrow> config \<Rightarrow> ('s, unit) prog" where
  "SetNestingLevels parse_nesting st config =
     bind_st
       (if FixedNesting config then
          bind_st (modify_st (\<lambda>s. SetDefaultNestingLevels st [] (writeLevel st s) s)) (\<lambda>_.
          bind_st (load_nesting parse_nesting st) (\<lambda>_.
          bind_st (get_st (readLevels st)) (\<lambda>levels.
            if levels = [] then modify_st (SetDefaultNestingLevels st [1] 1) else return_st ())))
        else return_st ()) (\<lambda>_.
     bind_st (get_st (\<lambda>s. (readLevels st s, writeLevel st s))) (\<lambda>(levels, w).
       if w \<in> set levels then return_st () else raise_st (LogError ''STORAGE_NESTING'')))"

section \<open>FileStorage\<close>

text \<open>\<open>storageDir\<close> is the cleaned path of the storage in the directory tree \<open>fileTree\<close>; \<open>dirSize\<close> is
  what the file system reports as the size of a directory. The random suffixes of temporary files
  are the successive values of \<open>tmpSuffix\<close>. The transfer rates only pace the transfers; what is
  left of them is the division by the number of threads.\<close>

record file_storage =
  storageDir :: path
  isCacheNeeded :: bool
  numberOfThreads :: int
  fileTree :: files
  baseReadLevels :: "int list"
  baseWriteLevel :: int
  tmpSuffix :: "nat \<Rightarrow> string"
  tmpCount :: nat
  dirSize :: int

fun os_error :: "errno \<Rightarrow> goerror" where
  "os_error ENOENT = GoErr ''no such file or directory''"
| "os_error ENOTDIR = GoErr ''not a directory''"
| "os_error EEXIST = GoErr ''file exists''"
| "os_error EISDIR = GoErr ''is a directory''"
| "os_error ENOTEMPTY = GoErr ''directory not empty''"
| "os_error EBUSY = GoErr ''device or resource busy''"
| "os_error EINVAL = GoErr ''invalid argument''"

text \<open>\<open>for storageDir[len(storageDir)-1] == '/'\<close>: the loop that removes trailing slashes.\<close>

fun strip_slashes_rev :: "string \<Rightarrow> string res" where
  "strip_slashes_rev [] = Inl (Panic ''index out of range'')"
| "strip_slashes_rev (c # s) = (if c = CHR ''/'' then strip_slashes_rev s else Inr (c # s))"

definition strip_slashes :: "string \<Rightarrow> string res" where
  "strip_slashes s = bind_res (strip_slashes_rev (rev s)) (\<lambda>r. Inr (rev r))"

definition CreateFileStorage ::
  "files \<Rightarrow> (nat \<Rightarrow> string) \<Rightarrow> int \<Rightarrow> string \<Rightarrow> bool \<Rightarrow> int \<Rightarrow> (goerror + file_storage) res" where
  "CreateFileStorage fs suffixes dsize dir cacheNeeded threads =
     (let p = path_Join [] dir;
          made = (case stat fs p of
              Inl ENOENT \<Rightarrow> (case os_mkdir_all p fs of Inl e \<Rightarrow> Inl (os_error e) | Inr fs' \<Rightarrow> Inr fs')
            | Inl e \<Rightarrow> Inl (os_error e)
            | Inr (File b) \<Rightarrow> Inl (GoErr ''The storage path is a file'')
            | Inr Dir \<Rightarrow> Inr fs)
      in case made of
           Inl e \<Rightarrow> Inr (Inl e)
         | Inr fs' \<Rightarrow>
             bind_res (strip_slashes dir) (\<lambda>dir'.
               Inr (Inr \<lparr>storageDir = path_Join [] dir', isCacheNeeded = cacheNeeded, numberOfThreads = threads,
                 fileTree = fs', baseReadLevels = [2, 3], baseWriteLevel = 2, tmpSuffix = suffixes,
                 tmpCount = 0, dirSize = dsize\<rparr>)))"

text \<open>A system call on the tree whose error is returned.\<close>

definition tree_call :: "(files \<Rightarrow> errno + files) \<Rightarrow> (file_storage, errno option) prog" where
  "tree_call call s =
     (case call (fileTree s) of
        Inl e \<Rightarrow> (Inr (Some e), s)
      | Inr fs \<Rightarrow> (Inr None, s\<lparr>fileTree := fs\<rparr>))"

definition file_ListFiles :: "string \<Rightarrow> (file_storage, goerror + (string \<times> int) list) prog" where
  "file_ListFiles dir s =
     (case os_readdir (path_Join (storageDir s) dir) (fileTree s) of
        Inl ENOENT \<Rightarrow> (Inr (Inr []), s)
      | Inl e \<Rightarrow> (Inr (Inl (os_error e)), s)
      | Inr list \<Rightarrow>
          (Inr (Inr (map (\<lambda>(name, n). case n of
              Dir \<Rightarrow> (if name \<noteq> [] \<and> last name \<noteq> CHR ''/'' then name @ ''/'' else name, dirSize s)
            | File b \<Rightarrow> (name, int (length b))) list)), s))"

definition file_DeleteFile :: "string \<Rightarrow> (file_storage, goerror option) prog" where
  "file_DeleteFile filePath =
     bind_st (\<lambda>s. tree_call (os_remove (path_Join (storageDir s) filePath)) s) (\<lambda>err.
       return_st (case err of None \<Rightarrow> None | Some ENOENT \<Rightarrow> None | Some e \<Rightarrow> Some (os_error e)))"

definition file_MoveFile :: "string \<Rightarrow> string \<Rightarrow> (file_storage, goerror option) prog" where
  "file_MoveFile src dst =
     bind_st (\<lambda>s. tree_call (os_rename (path_Join (storageDir s) src) (path_Join (storageDir s) dst)) s) (\<lambda>err.
       return_st (map_option os_error err))"

definition file_CreateDirectory :: "string \<Rightarrow> (file_storage, goerror option) prog" where
  "file_CreateDirectory dir =
     bind_st (\<lambda>s. tree_call (os_mkdir (path_Join (storageDir s) dir)) s) (\<lambda>err.
       return_st (case err of None \<Rightarrow> None | Some EEXIST \<Rightarrow> None | Some e \<Rightarrow> Some (os_error e)))"

definition file_GetFileInfo :: "string \<Rightarrow> (file_storage, goerror + bool \<times> bool \<times> int) prog" where
  "file_GetFileInfo filePath s =
     (Inr (case stat (fileTree s) (path_Join (storageDir s) filePath) of
         Inl ENOENT \<Rightarrow> Inr (False, False, 0)
       | Inl e \<Rightarrow> Inl (os_error e)
       | Inr Dir \<Rightarrow> Inr (True, True, dirSize s)
       | Inr (File b) \<Rightarrow> Inr (True, False, int (length b))), s)"

definition rate_quotient :: "(file_storage, unit) prog" where
  "rate_quotient s =
     (if numberOfThreads s = 0 then (Inl (Panic ''integer divide by zero''), s) else (Inr (), s))"

definition file_DownloadFile :: "string \<Rightarrow> (file_storage, bytes \<times> goerror option) prog" where
  "file_DownloadFile filePath =
     bind_st (get_st (\<lambda>s. stat (fileTree s) (path_Join (storageDir s) filePath))) (\<lambda>found.
       case found of
         Inl e \<Rightarrow> return_st ([], Some (os_error e))
       | Inr n \<Rightarrow>
           bind_st rate_quotient (\<lambda>_.
             return_st (case n of Dir \<Rightarrow> ([], Some (os_error EISDIR)) | File b \<Rightarrow> (b, None))))"

definition tmp_path :: "path \<Rightarrow> string \<Rightarrow> path" where
  "tmp_path p suffix =
     (if p = [] then [''.'' @ suffix @ ''.tmp'']
      else butlast p @ [last p @ ''.'' @ suffix @ ''.tmp''])"

text \<open>The directory of the file is created when the path has more than two components.\<close>

definition upload_dir :: "string \<Rightarrow> (file_storage, goerror option) prog" where
  "upload_dir filePath =
     (if 2 < length (split_slash filePath) then
        bind_st (get_st (\<lambda>s. butlast (path_Join (storageDir s) filePath))) (\<lambda>dir.
        bind_st (get_st (\<lambda>s. stat (fileTree s) dir)) (\<lambda>found.
          case found of
            Inl ENOENT \<Rightarrow> bind_st (tree_call (os_mkdir_all dir)) (\<lambda>err. return_st (map_option os_error err))
          | Inl e \<Rightarrow> return_st (Some (os_error e))
          | Inr (File b) \<Rightarrow> return_st (Some (GoErr ''The path is not a directory or symlink''))
          | Inr Dir \<Rightarrow> return_st None))
      else return_st None)"

definition next_suffix :: "(file_storage, string) prog" where
  "next_suffix s = (Inr (tmpSuffix s (tmpCount s)), s\<lparr>tmpCount := Suc (tmpCount s)\<rparr>)"

definition upload_tmp :: "path \<Rightarrow> bytes \<Rightarrow> (file_storage, goerror option) prog" where
  "upload_tmp fullPath content =
     bind_st next_suffix (\<lambda>suffix.
     let temporaryFile = tmp_path fullPath suffix in
     bind_st (tree_call (os_write temporaryFile [])) (\<lambda>err.
       case err of Some e \<Rightarrow> return_st (Some (os_error e)) | None \<Rightarrow>
     bind_st rate_quotient (\<lambda>_.
     bind_st (tree_call (os_write temporaryFile content)) (\<lambda>err.
       case err of Some e \<Rightarrow> return_st (Some (os_error e)) | None \<Rightarrow>
     bind_st (tree_call (os_rename temporaryFile fullPath)) (\<lambda>err.
       case err of None \<Rightarrow> return_st None | Some e \<Rightarrow>
     bind_st (get_st (\<lambda>s. stat (fileTree s) fullPath)) (\<lambda>found.
       case found of
         Inr n \<Rightarrow> bind_st (tree_call (os_remove temporaryFile)) (\<lambda>_. return_st None)
       | Inl _ \<Rightarrow> return_st (Some (os_error e))))))))"

definition file_UploadFile :: "string \<Rightarrow> bytes \<Rightarrow> (file_storage, goerror option) prog" where
  "file_UploadFile filePath content =
     bind_st (upload_dir filePath) (\<lambda>err.
       case err of
         Some e \<Rightarrow> return_st (Some e)
       | None \<Rightarrow> bind_st (get_st (\<lambda>s. path_Join (storageDir s) filePath)) (\<lambda>fullPath. upload_tmp fullPath content))"

definition FileStorage :: "file_storage storage" where
  "FileStorage =
     \<lparr>ListFiles = file_ListFiles, DeleteFile = file_DeleteFile, MoveFile = file_MoveFile,
      CreateDirectory = file_CreateDirectory, GetFileInfo = file_GetFileInfo,
      DownloadFile = file_DownloadFile, UploadFile = file_UploadFile,
      IsCacheNeeded = isCacheNeeded, IsStrongConsistent = True, isHubic = False, isWebDAV = False,
      readLevels = baseReadLevels, writeLevel = baseWriteLevel,
      SetDefaultNestingLevels = (\<lambda>rl wl s. s\<lparr>baseReadLevels := rl, baseWriteLevel := wl\<rparr>)\<rparr>"

section \<open>Paths of chunks\<close>

text \<open>The path of a chunk file at a nesting level, in closed form, and its components.\<close>

fun nested :: "nat \<Rightarrow> string \<Rightarrow> string" where
  "nested 0 chunkID = chunkID"
| "nested (Suc k) chunkID = take 2 chunkID @ ''/'' @ nested k (drop 2 chunkID)"

fun nest_comps :: "nat \<Rightarrow> string \<Rightarrow> string list" where
  "nest_comps 0 chunkID = [chunkID]"
| "nest_comps (Suc k) chunkID = take 2 chunkID # nest_comps k (drop 2 chunkID)"

definition chunk_file :: "string \<Rightarrow> bool \<Rightarrow> int \<Rightarrow> string" where
  "chunk_file chunkID isFossil level =
     ''chunks/'' @ nested (nat level) chunkID @ (if isFossil then ''.fsl'' else [])"

definition valid_id :: "string \<Rightarrow> bool" where
  "valid_id chunkID \<longleftrightarrow> CHR ''/'' \<notin> set chunkID \<and> CHR ''.'' \<notin> set chunkID"

text \<open>At every level the last component of the path is longer than a directory name.\<close>

definition good_levels :: "int list \<Rightarrow> int \<Rightarrow> string \<Rightarrow> bool" where
  "good_levels levels w chunkID \<longleftrightarrow> w \<in> set levels \<and>
     list_all (\<lambda>l. 0 \<le> l \<and> 2 * l + 2 < int (length chunkID)) levels"

lemma nest_dirs_eq:
  "2 * (i + n) \<le> length chunkID \<Longrightarrow>
     \<exists>dirs. nest_dirs chunkID i n = Inr dirs \<and> dirs @ drop (2 * (i + n)) chunkID = nested n (drop (2 * i) chunkID)"
proof (induction n arbitrary: i)
  case (Suc n)
  then obtain dirs where "nest_dirs chunkID (Suc i) n = Inr dirs"
    "dirs @ drop (2 * (Suc i + n)) chunkID = nested n (drop (2 * Suc i) chunkID)"
    using Suc.IH [of "Suc i"] by auto
  with Suc.prems show ?case by (simp add: add.commute)
qed simp

lemma chunk_path_eq:
  assumes "0 \<le> level" and "2 * level \<le> int (length chunkID)"
  shows "chunk_path chunkID isFossil level = Inr (chunk_file chunkID isFossil level)"
proof -
  have n: "2 * nat level \<le> length chunkID" using assms by linarith
  with nest_dirs_eq [of 0 "nat level" chunkID] obtain dirs where
    "nest_dirs chunkID 0 (nat level) = Inr dirs" "dirs @ drop (2 * nat level) chunkID = nested (nat level) chunkID"
    by auto
  with assms n show ?thesis by (simp add: chunk_path_def chunk_file_def flip: append_assoc)
qed

lemma filter_nested: "CHR ''/'' \<notin> set chunkID \<Longrightarrow> filter (\<lambda>c. c \<noteq> CHR ''/'') (nested k chunkID) = chunkID"
proof (induction k arbitrary: chunkID)
  case 0
  then show ?case by (auto simp: filter_id_conv)
next
  case (Suc k)
  then have "CHR ''/'' \<notin> set (take 2 chunkID)" "CHR ''/'' \<notin> set (drop 2 chunkID)"
    by (auto dest: in_set_takeD in_set_dropD)
  with Suc.IH [of "drop 2 chunkID"] have "filter (\<lambda>c. c \<noteq> CHR ''/'') (take 2 chunkID) = take 2 chunkID"
    "filter (\<lambda>c. c \<noteq> CHR ''/'') (nested k (drop 2 chunkID)) = drop 2 chunkID"
    by (auto simp: filter_id_conv)
  then show ?case by simp
qed

lemma split_nested:
  "CHR ''/'' \<notin> set chunkID \<Longrightarrow> split_slash (nested k chunkID) = nest_comps k chunkID"
proof (induction k arbitrary: chunkID)
  case 0
  then show ?case by (simp add: split_slash_no_slash)
next
  case (Suc k)
  then have "CHR ''/'' \<notin> set (take 2 chunkID)" "CHR ''/'' \<notin> set (drop 2 chunkID)"
    by (auto dest: in_set_takeD in_set_dropD)
  moreover have "nested (Suc k) chunkID = take 2 chunkID @ CHR ''/'' # nested k (drop 2 chunkID)" by simp
  ultimately show ?case using Suc.IH [of "drop 2 chunkID"]
    by (simp only: split_slash_append) (simp add: split_slash_no_slash)
qed

lemma nest_comps_snoc:
  "nest_comps k chunkID = map (\<lambda>i. take 2 (drop (2 * i) chunkID)) [0..<k] @ [drop (2 * k) chunkID]"
proof (induction k arbitrary: chunkID)
  case (Suc k)
  have "[0..<Suc k] = 0 # map Suc [0..<k]"
    by (simp add: map_Suc_upt upt_conv_Cons del: upt_Suc)
  then show ?case
    by (simp only: nest_comps.simps Suc.IH) (simp add: comp_def add.commute)
qed simp

lemma split_chunk_file:
  assumes "valid_id chunkID"
  shows "split_slash (chunk_file chunkID isFossil level) =
    ''chunks'' # map (\<lambda>i. take 2 (drop (2 * i) chunkID)) [0..<nat level] @
      [drop (2 * nat level) chunkID @ (if isFossil then ''.fsl'' else [])]"
proof -
  have "split_slash (nested (nat level) chunkID @ (if isFossil then ''.fsl'' else [])) =
      butlast (nest_comps (nat level) chunkID) @
      [last (nest_comps (nat level) chunkID) @ (if isFossil then ''.fsl'' else [])]"
    using assms by (subst split_slash_suffix) (auto simp: split_nested valid_id_def)
  then have "split_slash (nested (nat level) chunkID @ (if isFossil then ''.fsl'' else [])) =
      map (\<lambda>i. take 2 (drop (2 * i) chunkID)) [0..<nat level] @
      [drop (2 * nat level) chunkID @ (if isFossil then ''.fsl'' else [])]"
    by (simp only: nest_comps_snoc butlast_snoc last_snoc)
  moreover have "chunk_file chunkID isFossil level =
      ''chunks'' @ CHR ''/'' # (nested (nat level) chunkID @ (if isFossil then ''.fsl'' else []))"
    by (simp add: chunk_file_def)
  ultimately show ?thesis
    by (simp only: split_slash_append) (simp add: split_slash_no_slash)
qed

lemma plain_chunk_file:
  assumes "valid_id chunkID" and "0 \<le> level" and "2 * level < int (length chunkID)"
  shows "plain (chunk_file chunkID isFossil level)"
proof -
  have no_dot: "x \<noteq> ''.'' \<and> x \<noteq> ''..''" if "set x \<subseteq> set chunkID" for x
    using that assms(1) by (auto simp: valid_id_def)
  have len: "2 * nat level < length chunkID" using assms(2,3) by linarith
  have "take 2 (drop (2 * i) chunkID) \<noteq> []" if "i < nat level" for i using that len by simp
  moreover have "take 2 (drop (2 * i) chunkID) \<noteq> ''.'' \<and> take 2 (drop (2 * i) chunkID) \<noteq> ''..''" for i
    by (rule no_dot) (auto dest: in_set_takeD in_set_dropD)
  moreover have "drop (2 * nat level) chunkID \<noteq> ''.'' \<and> drop (2 * nat level) chunkID \<noteq> ''..''"
    by (rule no_dot) (auto dest: in_set_dropD)
  moreover have "drop (2 * nat level) chunkID @ ''.fsl'' \<noteq> ''..'' \<and> drop (2 * nat level) chunkID @ ''.fsl'' \<noteq> ''.''"
    by (auto simp: append_eq_Cons_conv)
  ultimately show ?thesis
    using len by (auto simp: plain_def split_chunk_file [OF assms(1)] list_all_iff)
qed

text \<open>Different chunks, and a chunk and a fossil, never share a path.\<close>

lemma chunk_file_eq_iff:
  assumes "valid_id a" and "valid_id b"
  shows "chunk_file a f l = chunk_file b g k \<Longrightarrow> a = b \<and> f = g"
proof -
  assume eq: "chunk_file a f l = chunk_file b g k"
  have *: "filter (\<lambda>c. c \<noteq> CHR ''/'') (nested n x @ (if h then ''.fsl'' else [])) =
      x @ (if h then ''.fsl'' else [])" if "valid_id x" for x n h
    using that filter_nested [of x n] by (simp add: valid_id_def)
  from eq have "nested (nat l) a @ (if f then ''.fsl'' else []) = nested (nat k) b @ (if g then ''.fsl'' else [])"
    by (simp add: chunk_file_def)
  then have "a @ (if f then ''.fsl'' else []) = b @ (if g then ''.fsl'' else [])"
    using * [OF assms(1), of "nat l" f] * [OF assms(2), of "nat k" g] by metis
  moreover have "takeWhile (\<lambda>c. c \<noteq> CHR ''.'') (x @ (if h then ''.fsl'' else [])) = x" if "valid_id x" for x h
    using that by (subst takeWhile_append2) (auto simp: valid_id_def)
  ultimately have "a = b" using assms by metis
  with \<open>a @ _ = b @ _\<close> show ?thesis by (auto split: if_splits)
qed

text \<open>The path of a chunk is never the directory of another one.\<close>

lemma chunk_file_no_dir:
  assumes "valid_id a" and "valid_id b" and "0 \<le> k" and "2 * k + 2 < int (length b)"
  shows "chunk_file a f l \<noteq> chunk_file b g k @ CHR ''/'' # r"
proof
  assume eq: "chunk_file a f l = chunk_file b g k @ CHR ''/'' # r"
  let ?A = "split_slash (chunk_file a f l)" and ?B = "split_slash (chunk_file b g k)"
  have AB: "?A = ?B @ split_slash r" unfolding eq by (rule split_slash_append)
  have lenA: "length ?A = nat l + 2" and lenB: "length ?B = nat k + 2"
    using assms(1,2) by (simp_all add: split_chunk_file)
  have "0 < length (split_slash r)" by simp
  with AB lenA lenB have less: "nat k < nat l" by (metis add_less_cancel_right length_append less_add_same_cancel1)
  then have "?A ! Suc (nat k) = take 2 (drop (2 * nat k) a)"
    using assms(1) by (simp add: split_chunk_file nth_append)
  moreover have "?B ! Suc (nat k) = drop (2 * nat k) b @ (if g then ''.fsl'' else [])"
    using assms(2) by (simp add: split_chunk_file nth_append)
  ultimately have "take 2 (drop (2 * nat k) a) = drop (2 * nat k) b @ (if g then ''.fsl'' else [])"
    using AB lenB by (simp add: nth_append)
  from arg_cong [OF this, of length] have "length b - 2 * nat k \<le> 2" by (auto split: if_splits)
  with assms(3,4) show False by linarith
qed

lemma fossil_path: "chunk_file chunkID True level = chunk_file chunkID False level @ ''.fsl''"
  by (simp add: chunk_file_def)

section \<open>What the callers rely on\<close>

text \<open>The operation left the state in good order, with the given contents and with nothing else
  that the callers look at changed.\<close>

definition settled ::
  "'s storage \<Rightarrow> ('s \<Rightarrow> bool) \<Rightarrow> ('s \<Rightarrow> string \<Rightarrow> bytes option) \<Rightarrow> 's \<Rightarrow> (string \<Rightarrow> bytes option) \<Rightarrow> 's \<Rightarrow> bool" where
  "settled st ok content s files s' \<longleftrightarrow>
     ok s' \<and> readLevels st s' = readLevels st s \<and> writeLevel st s' = writeLevel st s \<and>
     IsCacheNeeded st s' = IsCacheNeeded st s \<and>
     (\<forall>q. \<not> HasSuffix q ''.tmp'' \<longrightarrow> content s' q = files q)"

locale storage_laws =
  fixes st :: "'s storage"
    and ok :: "'s \<Rightarrow> bool"
    and content :: "'s \<Rightarrow> string \<Rightarrow> bytes option"
    and isdir :: "'s \<Rightarrow> string \<Rightarrow> bool"
  assumes content_plain: "content s p \<noteq> None \<Longrightarrow> plain p"
    and isdir_content: "isdir s p \<Longrightarrow> content s p = None"
    and info_file: "ok s \<Longrightarrow> content s p = Some b \<Longrightarrow>
      GetFileInfo st p s = (Inr (Inr (True, False, int (length b))), s)"
    and info_missing: "ok s \<Longrightarrow> plain p \<Longrightarrow> content s p = None \<Longrightarrow> \<not> isdir s p \<Longrightarrow>
      \<exists>r. GetFileInfo st p s = (Inr r, s) \<and> (\<forall>d n. r \<noteq> Inr (True, d, n))"
    and download_file: "ok s \<Longrightarrow> content s p = Some b \<Longrightarrow> DownloadFile st p s = (Inr (b, None), s)"
    and download_missing: "ok s \<Longrightarrow> plain p \<Longrightarrow> content s p = None \<Longrightarrow>
      \<exists>bs e. DownloadFile st p s = (Inr (bs, Some e), s)"
    and list_files: "ok s \<Longrightarrow> \<exists>r. ListFiles st p s = (Inr r, s)"
    and delete_file: "ok s \<Longrightarrow> plain p \<Longrightarrow>
      \<exists>e s'. DeleteFile st p s = (Inr e, s') \<and> (\<forall>q. isdir s' q \<longrightarrow> isdir s q) \<and>
        settled st ok content s (if e = None then (content s)(p := None) else content s) s'"
    and delete_present: "ok s \<Longrightarrow> content s p \<noteq> None \<Longrightarrow> fst (DeleteFile st p s) = Inr None"
    and move_file: "ok s \<Longrightarrow> content s p = Some b \<Longrightarrow> plain q \<Longrightarrow> \<not> isdir s q \<Longrightarrow>
      \<exists>e s'. MoveFile st p q s = (Inr e, s') \<and> isdir s' = isdir s \<and>
        settled st ok content s (if e = None then (content s)(p := None, q \<mapsto> b) else content s) s'"
    and move_sibling: "ok s \<Longrightarrow> content s p \<noteq> None \<Longrightarrow> plain q \<Longrightarrow> \<not> isdir s q \<Longrightarrow>
      butlast (split_slash q) = butlast (split_slash p) \<Longrightarrow> fst (MoveFile st p q s) = Inr None"
    and move_missing: "ok s \<Longrightarrow> plain p \<Longrightarrow> content s p = None \<Longrightarrow> \<not> isdir s p \<Longrightarrow> plain q \<Longrightarrow>
      \<exists>e. MoveFile st p q s = (Inr (Some e), s)"
    and upload_file: "ok s \<Longrightarrow> plain p \<Longrightarrow> \<not> isdir s p \<Longrightarrow> \<not> HasSuffix p ''.tmp'' \<Longrightarrow>
      \<exists>e s'. UploadFile st p b s = (Inr e, s') \<and>
        settled st ok content s (if e = None then (content s)(p \<mapsto> b) else content s) s' \<and>
        (\<forall>q. isdir s' q \<longrightarrow> isdir s q \<or> (\<exists>r. p = q @ CHR ''/'' # r))"
    and create_directory: "ok s \<Longrightarrow> plain p \<Longrightarrow> d = p \<or> d = p @ ''/'' \<Longrightarrow>
      \<exists>e s'. CreateDirectory st d s = (Inr e, s') \<and> settled st ok content s (content s) s' \<and>
        (\<forall>q. isdir s' q \<longrightarrow> isdir s q \<or> q = p)"
    and info_state: "ok s \<Longrightarrow> snd (GetFileInfo st p s) = s"
    and download_state: "ok s \<Longrightarrow> snd (DownloadFile st p s) = s"
begin

text \<open>No directory has the name of a file of the chunk.\<close>

definition clear :: "string \<Rightarrow> 's \<Rightarrow> bool" where
  "clear chunkID s \<longleftrightarrow> (\<forall>f. \<forall>l \<in> set (readLevels st s). \<not> isdir s (chunk_file chunkID f l))"

definition stored_at :: "string \<Rightarrow> bool \<Rightarrow> 's \<Rightarrow> int list" where
  "stored_at chunkID f s = filter (\<lambda>l. content s (chunk_file chunkID f l) \<noteq> None) (readLevels st s)"

lemma find_levels_none:
  assumes "ok s" and "valid_id chunkID"
    and "\<forall>l \<in> set levels. 0 \<le> l \<and> 2 * l + 2 < int (length chunkID) \<and>
      \<not> isdir s (chunk_file chunkID f l) \<and> content s (chunk_file chunkID f l) = None"
  shows "find_levels st chunkID f levels ps s = (Inr (Inr (ps @ map (chunk_file chunkID f) levels)), s)"
  using assms(3)
proof (induction levels arbitrary: ps)
  case (Cons l levels)
  then have l: "chunk_path chunkID f l = Inr (chunk_file chunkID f l)" "plain (chunk_file chunkID f l)"
    using plain_chunk_file [OF assms(2)] by (auto simp: chunk_path_eq)
  with Cons.prems info_missing [OF assms(1)] obtain r where
    r: "GetFileInfo st (chunk_file chunkID f l) s = (Inr r, s)" "\<forall>d n. r \<noteq> Inr (True, d, n)"
    by (meson list.set_intros(1))
  then have "(case r of Inr (True, _, len) \<Rightarrow> return_st (Inl (chunk_file chunkID f l, len))
       | _ \<Rightarrow> find_levels st chunkID f levels (ps @ [chunk_file chunkID f l])) =
       find_levels st chunkID f levels (ps @ [chunk_file chunkID f l])"
    by (auto split: sum.splits prod.splits bool.splits)
  with l(1) r(1) Cons show ?case by (simp add: bind_st_run)
qed simp

lemma find_levels_some:
  assumes "ok s" and "valid_id chunkID"
    and "\<forall>l \<in> set levels. 0 \<le> l \<and> 2 * l + 2 < int (length chunkID) \<and> \<not> isdir s (chunk_file chunkID f l)"
    and "filter (\<lambda>l. content s (chunk_file chunkID f l) \<noteq> None) levels = k # ks"
  shows "\<exists>b. content s (chunk_file chunkID f k) = Some b \<and>
    find_levels st chunkID f levels ps s = (Inr (Inl (chunk_file chunkID f k, int (length b))), s)"
  using assms(3,4)
proof (induction levels arbitrary: ps)
  case (Cons l levels)
  then have l: "chunk_path chunkID f l = Inr (chunk_file chunkID f l)" "plain (chunk_file chunkID f l)"
    using plain_chunk_file [OF assms(2)] by (auto simp: chunk_path_eq)
  show ?case
  proof (cases "content s (chunk_file chunkID f l)")
    case None
    with Cons.prems info_missing [OF assms(1)] l(2) obtain r where
      r: "GetFileInfo st (chunk_file chunkID f l) s = (Inr r, s)" "\<forall>d n. r \<noteq> Inr (True, d, n)"
      by (meson list.set_intros(1))
    then have "(case r of Inr (True, _, len) \<Rightarrow> return_st (Inl (chunk_file chunkID f l, len))
         | _ \<Rightarrow> find_levels st chunkID f levels (ps @ [chunk_file chunkID f l])) =
         find_levels st chunkID f levels (ps @ [chunk_file chunkID f l])"
      by (auto split: sum.splits prod.splits bool.splits)
    with l(1) r(1) Cons None show ?thesis by (simp add: bind_st_run)
  next
    case (Some b)
    with Cons.prems have "k = l" by simp
    with Some info_file [OF assms(1) Some] l(1) show ?thesis by (simp add: bind_st_run)
  qed
qed simp

lemma path_at_level_map: "w \<in> set levels \<Longrightarrow> path_at_level w levels (map g levels) = Some (g w)"
  by (induction levels) auto

text \<open>The chunk is found at the first level that has it, and otherwise the path at the write level
  is returned.\<close>

lemma FindChunk_found:
  assumes "ok s" and "valid_id chunkID" and "good_levels (readLevels st s) (writeLevel st s) chunkID"
    and "clear chunkID s" and "stored_at chunkID f s = k # ks"
  shows "\<exists>b. content s (chunk_file chunkID f k) = Some b \<and>
    FindChunk st chunkID f s = (Inr (Inr (chunk_file chunkID f k, True, int (length b))), s)"
proof -
  have "\<forall>l \<in> set (readLevels st s). 0 \<le> l \<and> 2 * l + 2 < int (length chunkID) \<and> \<not> isdir s (chunk_file chunkID f l)"
    using assms(3,4) by (auto simp: good_levels_def clear_def list_all_iff)
  from find_levels_some [OF assms(1,2) this, of k ks "[]"] assms(5) show ?thesis
    by (auto simp: FindChunk_def stored_at_def bind_st_run)
qed

lemma FindChunk_missing:
  assumes "ok s" and "valid_id chunkID" and "good_levels (readLevels st s) (writeLevel st s) chunkID"
    and "clear chunkID s" and "stored_at chunkID f s = []"
  shows "FindChunk st chunkID f s = (Inr (Inr (chunk_file chunkID f (writeLevel st s), False, 0)), s)"
proof -
  have "\<forall>l \<in> set (readLevels st s). 0 \<le> l \<and> 2 * l + 2 < int (length chunkID) \<and>
      \<not> isdir s (chunk_file chunkID f l) \<and> content s (chunk_file chunkID f l) = None"
    using assms(3,4,5) by (auto simp: good_levels_def clear_def list_all_iff stored_at_def filter_empty_conv)
  from find_levels_none [OF assms(1,2) this, of "[]"] assms(3) show ?thesis
    by (simp add: FindChunk_def bind_st_run path_at_level_map good_levels_def)
qed

end

section \<open>The file storage keeps the laws\<close>

definition file_ok :: "file_storage \<Rightarrow> bool" where
  "file_ok s \<longleftrightarrow> tree (fileTree s) \<and> numberOfThreads s \<noteq> 0 \<and> (\<forall>i. CHR ''/'' \<notin> set (tmpSuffix s i))"

definition file_content :: "file_storage \<Rightarrow> string \<Rightarrow> bytes option" where
  "file_content s p = (if plain p then content_at (fileTree s) (path_Join (storageDir s) p) else None)"

definition file_isdir :: "file_storage \<Rightarrow> string \<Rightarrow> bool" where
  "file_isdir s p \<longleftrightarrow> plain p \<and> at_path (fileTree s) (path_Join (storageDir s) p) = Some Dir"

lemma FileStorage_sel [simp]:
  "ListFiles FileStorage = file_ListFiles" "DeleteFile FileStorage = file_DeleteFile"
  "MoveFile FileStorage = file_MoveFile" "CreateDirectory FileStorage = file_CreateDirectory"
  "GetFileInfo FileStorage = file_GetFileInfo" "DownloadFile FileStorage = file_DownloadFile"
  "UploadFile FileStorage = file_UploadFile" "IsCacheNeeded FileStorage = isCacheNeeded"
  "IsStrongConsistent FileStorage = True" "isHubic FileStorage = False" "isWebDAV FileStorage = False"
  "readLevels FileStorage = baseReadLevels" "writeLevel FileStorage = baseWriteLevel"
  "SetDefaultNestingLevels FileStorage = (\<lambda>rl wl s. s\<lparr>baseReadLevels := rl, baseWriteLevel := wl\<rparr>)"
  by (simp_all add: FileStorage_def)

lemma tree_call_run:
  "call (fileTree s) = Inl e \<Longrightarrow> tree_call call s = (Inr (Some e), s)"
  "call (fileTree s) = Inr fs \<Longrightarrow> tree_call call s = (Inr None, s\<lparr>fileTree := fs\<rparr>)"
  by (simp_all add: tree_call_def)

lemma tree_call_keeps:
  "(\<And>fs fs'. tree fs \<Longrightarrow> call fs = Inr fs' \<Longrightarrow> tree fs') \<Longrightarrow> keeps (\<lambda>s. tree (fileTree s)) (tree_call call)"
  by (auto simp: keeps_def tree_call_def split: sum.splits)

lemma os_calls_keep_tree:
  "keeps (\<lambda>s. tree (fileTree s)) (tree_call (os_remove p))"
  "keeps (\<lambda>s. tree (fileTree s)) (tree_call (os_rename p q))"
  "keeps (\<lambda>s. tree (fileTree s)) (tree_call (os_mkdir p))"
  "keeps (\<lambda>s. tree (fileTree s)) (tree_call (os_mkdir_all p))"
  "keeps (\<lambda>s. tree (fileTree s)) (tree_call (os_write p b))"
  by (rule tree_call_keeps, erule (1) os_remove_at os_rename_tree os_mkdir_at os_mkdir_all_at os_write_at)+

lemma file_calls_keep_tree:
  "keeps (\<lambda>s. tree (fileTree s)) (file_DeleteFile p)"
  "keeps (\<lambda>s. tree (fileTree s)) (file_MoveFile p q)"
  "keeps (\<lambda>s. tree (fileTree s)) (file_CreateDirectory p)"
proof -
  have "keeps (\<lambda>s. tree (fileTree s)) (\<lambda>s. tree_call (os_remove (path_Join (storageDir s) p)) s)"
    "keeps (\<lambda>s. tree (fileTree s)) (\<lambda>s. tree_call (os_mkdir (path_Join (storageDir s) p)) s)"
    "keeps (\<lambda>s. tree (fileTree s)) (\<lambda>s. tree_call (os_rename (path_Join (storageDir s) p) (path_Join (storageDir s) q)) s)"
    using os_calls_keep_tree by (simp_all add: keeps_def)
  then show "keeps (\<lambda>s. tree (fileTree s)) (file_DeleteFile p)"
    "keeps (\<lambda>s. tree (fileTree s)) (file_MoveFile p q)"
    "keeps (\<lambda>s. tree (fileTree s)) (file_CreateDirectory p)"
    unfolding file_DeleteFile_def file_MoveFile_def file_CreateDirectory_def
    by (auto intro!: keeps_bind keeps_return)
qed

lemma upload_dir_keeps_tree: "keeps (\<lambda>s. tree (fileTree s)) (upload_dir p)"
  unfolding upload_dir_def
  by (auto intro!: hoare os_calls_keep_tree split: sum.splits errno.splits node.splits)

lemma file_UploadFile_keeps_tree: "keeps (\<lambda>s. tree (fileTree s)) (file_UploadFile p b)"
proof -
  have "keeps (\<lambda>s. tree (fileTree s)) rate_quotient" "keeps (\<lambda>s. tree (fileTree s)) next_suffix"
    by (auto simp: keeps_def rate_quotient_def next_suffix_def)
  then show ?thesis
    unfolding file_UploadFile_def upload_tmp_def Let_def
    by (auto intro!: hoare upload_dir_keeps_tree os_calls_keep_tree split: option.splits sum.splits)
qed


lemma file_settledI:
  assumes "file_ok s" and "tree fs"
    and "\<And>q. plain q \<Longrightarrow> \<not> HasSuffix q ''.tmp'' \<Longrightarrow> content_at fs (path_Join (storageDir s) q) = contents q"
    and "\<And>q. \<not> plain q \<Longrightarrow> contents q = None"
  shows "settled FileStorage file_ok file_content s contents (s\<lparr>fileTree := fs, tmpCount := n\<rparr>)"
  using assms by (auto simp: settled_def file_ok_def file_content_def)

lemma file_settled_same: "file_ok s \<Longrightarrow> settled FileStorage file_ok file_content s (file_content s) s"
  by (simp add: settled_def)

lemma file_content_at: "plain q \<Longrightarrow> file_content s q = content_at (fileTree s) (path_Join (storageDir s) q)"
  by (simp add: file_content_def)

lemma content_at_Some: "content_at fs p = Some b \<longleftrightarrow> at_path fs p = Some (File b)"
  by (auto simp: content_at_def split: option.splits node.splits)

lemma content_at_None: "content_at fs p = None \<longleftrightarrow> at_path fs p = None \<or> at_path fs p = Some Dir"
  by (auto simp: content_at_def split: option.splits node.splits)

lemma file_delete_law:
  assumes ok: "file_ok s" and "plain p"
  shows "\<exists>e s'. file_DeleteFile p s = (Inr e, s') \<and> (\<forall>q. file_isdir s' q \<longrightarrow> file_isdir s q) \<and>
    settled FileStorage file_ok file_content s (if e = None then (file_content s)(p := None) else file_content s) s'"
proof -
  let ?p = "path_Join (storageDir s) p"
  have t: "tree (fileTree s)" using ok by (simp add: file_ok_def)
  show ?thesis
  proof (cases "os_remove ?p (fileTree s)")
    case (Inl e)
    then have "e = ENOENT \<Longrightarrow> at_path (fileTree s) ?p = None"
      by (rule_tac stat_cases [OF t, of ?p]) (auto simp: os_remove_def split: if_splits)
    then have "e = ENOENT \<Longrightarrow> (file_content s)(p := None) = file_content s"
      by (auto simp: file_content_def content_at_def)
    with Inl file_settled_same [OF ok] show ?thesis
      by (cases e) (auto simp: file_DeleteFile_def tree_call_run bind_st_run)
  next
    case (Inr fs)
    note at = os_remove_at [OF t Inr]
    have "settled FileStorage file_ok file_content s ((file_content s)(p := None)) (s\<lparr>fileTree := fs, tmpCount := tmpCount s\<rparr>)"
      using at(1,2) assms(2) by (intro file_settledI ok)
        (auto simp: content_at_def file_content_def path_Join_inj)
    moreover have "file_isdir s q" if "file_isdir (s\<lparr>fileTree := fs\<rparr>) q" for q
      using at(2) that by (auto simp: file_isdir_def split: if_splits)
    ultimately show ?thesis
      using Inr by (simp add: file_DeleteFile_def tree_call_run bind_st_run)
  qed
qed

lemma file_move_law:
  assumes ok: "file_ok s" and b: "file_content s p = Some b" and "plain q" and "\<not> file_isdir s q"
  shows "\<exists>e s'. file_MoveFile p q s = (Inr e, s') \<and> file_isdir s' = file_isdir s \<and>
    settled FileStorage file_ok file_content s
      (if e = None then (file_content s)(p := None, q \<mapsto> b) else file_content s) s'"
proof -
  let ?p = "path_Join (storageDir s) p" and ?q = "path_Join (storageDir s) q"
  have t: "tree (fileTree s)" using ok by (simp add: file_ok_def)
  have p: "plain p" and at_p: "at_path (fileTree s) ?p = Some (File b)"
    using b by (auto simp: file_content_def content_at_Some split: if_splits)
  have nd: "at_path (fileTree s) ?q \<noteq> Some Dir" using assms by (simp add: file_isdir_def)
  show ?thesis
  proof (cases "os_rename ?p ?q (fileTree s)")
    case (Inl e)
    with file_settled_same [OF ok] show ?thesis
      by (auto simp: file_MoveFile_def tree_call_run bind_st_run)
  next
    case (Inr fs)
    note at = os_rename_file_at [OF t Inr at_p]
    have "settled FileStorage file_ok file_content s ((file_content s)(p := None, q \<mapsto> b))
        (s\<lparr>fileTree := fs, tmpCount := tmpCount s\<rparr>)"
      using at(1,2) assms(3) p by (intro file_settledI ok)
        (auto simp: content_at_def file_content_def path_Join_inj)
    moreover have "file_isdir (s\<lparr>fileTree := fs\<rparr>) = file_isdir s"
      using at(2) nd at_p by (auto simp: file_isdir_def fun_eq_iff)
    ultimately show ?thesis
      using Inr by (simp add: file_MoveFile_def tree_call_run bind_st_run)
  qed
qed

lemma file_move_sibling_law:
  assumes ok: "file_ok s" and "file_content s p \<noteq> None" and "plain q" and "\<not> file_isdir s q"
    and "butlast (split_slash q) = butlast (split_slash p)"
  shows "fst (file_MoveFile p q s) = Inr None"
proof -
  have t: "tree (fileTree s)" using ok by (simp add: file_ok_def)
  obtain b where p: "plain p" and at_p: "at_path (fileTree s) (path_Join (storageDir s) p) = Some (File b)"
    using assms(2) by (auto simp: file_content_def content_at_Some split: if_splits)
  have "\<exists>fs. os_rename (path_Join (storageDir s) p) (path_Join (storageDir s) q) (fileTree s) = Inr fs"
    using assms p by (intro os_rename_sibling [OF t at_p]) (auto simp: file_isdir_def path_Join_plain butlast_append)
  then show ?thesis by (auto simp: file_MoveFile_def tree_call_run bind_st_run)
qed

text \<open>Uploading: the temporary file is written beside the target and renamed.\<close>

lemma upload_tmp_run:
  assumes ok: "file_ok s" and nd: "at_path (fileTree s) p \<noteq> Some Dir" and ne: "p \<noteq> []"
  shows "\<exists>e fs. upload_tmp p b s = (Inr e, s\<lparr>fileTree := fs, tmpCount := Suc (tmpCount s)\<rparr>) \<and> tree fs \<and>
    (\<forall>q. (at_path fs q = Some Dir) = (at_path (fileTree s) q = Some Dir)) \<and>
    (\<forall>q. q \<noteq> tmp_path p (tmpSuffix s (tmpCount s)) \<longrightarrow>
       at_path fs q = (if e = None \<and> q = p then Some (File b) else at_path (fileTree s) q))"
proof -
  let ?t = "tmp_path p (tmpSuffix s (tmpCount s))"
  let ?s = "s\<lparr>tmpCount := Suc (tmpCount s)\<rparr>"
  have t: "tree (fileTree s)" using ok by (simp add: file_ok_def)
  have diff: "?t \<noteq> p" and sib: "butlast p = butlast ?t"
    using ne by (auto simp: tmp_path_def dest: arg_cong [where f = last])
  have suffix: "next_suffix s = (Inr (tmpSuffix s (tmpCount s)), ?s)" by (simp add: next_suffix_def)
  show ?thesis
  proof (cases "os_write ?t [] (fileTree s)")
    case (Inl e)
    then have "upload_tmp p b s = (Inr (Some (os_error e)), ?s)"
      by (simp add: upload_tmp_def bind_st_run(1) [of next_suffix, OF suffix] Let_def bind_st_run tree_call_run)
    moreover have "?s = s\<lparr>fileTree := fileTree s, tmpCount := Suc (tmpCount s)\<rparr>" by simp
    ultimately show ?thesis using t by (metis option.distinct(1))
  next
    case (Inr fs1)
    note at1 = os_write_at [OF t Inr]
    have "\<exists>fs2. os_write ?t b fs1 = Inr fs2"
      using at1(1,2) by (simp add: os_write_def)
    then obtain fs2 where fs2: "os_write ?t b fs1 = Inr fs2" ..
    note at2 = os_write_at [OF at1(1) fs2]
    have tmp: "at_path fs2 ?t = Some (File b)" and nd2: "at_path fs2 p \<noteq> Some Dir"
      using at1(2) at2(2) nd diff by auto
    obtain fs3 where fs3: "os_rename ?t p fs2 = Inr fs3"
      using os_rename_sibling [OF at2(1) tmp nd2 sib] ..
    note at3 = os_rename_file_at [OF at2(1) fs3 tmp]
    have rate: "rate_quotient (?s\<lparr>fileTree := fs1\<rparr>) = (Inr (), ?s\<lparr>fileTree := fs1\<rparr>)"
      using ok by (simp add: rate_quotient_def file_ok_def)
    have "upload_tmp p b s = (Inr None, s\<lparr>fileTree := fs3, tmpCount := Suc (tmpCount s)\<rparr>)"
      using Inr fs2 fs3
      by (simp add: upload_tmp_def bind_st_run(1) [of next_suffix, OF suffix] Let_def bind_st_run
          tree_call_run bind_st_run(1) [of rate_quotient, OF rate])
    moreover have "(at_path fs3 q = Some Dir) = (at_path (fileTree s) q = Some Dir)" for q
      using at1(2,3) at2(2) at3(2) nd by auto
    moreover have "at_path fs3 q = (if q = p then Some (File b) else at_path (fileTree s) q)" if "q \<noteq> ?t" for q
      using that at1(2) at2(2) at3(2) by auto
    ultimately show ?thesis using at3(1) by (metis (no_types, lifting))
  qed
qed

lemma upload_dir_run:
  assumes ok: "file_ok s" and "plain p"
  shows "\<exists>e fs. upload_dir p s = (Inr e, s\<lparr>fileTree := fs\<rparr>) \<and> tree fs \<and>
    (\<forall>q. content_at fs q = content_at (fileTree s) q) \<and>
    (\<forall>q. at_path fs q = Some Dir \<longrightarrow> at_path (fileTree s) q = Some Dir \<or>
       (\<exists>k < length (path_Join (storageDir s) p). q = take k (path_Join (storageDir s) p)))"
proof -
  let ?p = "path_Join (storageDir s) p"
  have t: "tree (fileTree s)" using ok by (simp add: file_ok_def)
  have ne: "?p \<noteq> []" using path_Join_nonempty [OF assms(2)] .
  have same: "s = s\<lparr>fileTree := fileTree s\<rparr>" by simp
  have "\<exists>e. upload_dir p s = (Inr e, s)" if "\<not> (2 < length (split_slash p) \<and> stat (fileTree s) (butlast ?p) = Inl ENOENT)"
    using that by (auto simp: upload_dir_def split: sum.splits errno.splits node.splits)
  then consider (make) "2 < length (split_slash p)" "stat (fileTree s) (butlast ?p) = Inl ENOENT"
    | (none) e where "upload_dir p s = (Inr e, s)" by blast
  then show ?thesis
  proof cases
    case make
    show ?thesis
    proof (cases "os_mkdir_all (butlast ?p) (fileTree s)")
      case (Inl e)
      with make have "upload_dir p s = (Inr (Some (os_error e)), s)"
        by (simp add: upload_dir_def bind_st_run tree_call_run)
      with t same show ?thesis by metis
    next
      case (Inr fs)
      note at = os_mkdir_all_at [OF t Inr]
      have run: "upload_dir p s = (Inr None, s\<lparr>fileTree := fs\<rparr>)"
        using make Inr by (simp add: upload_dir_def bind_st_run tree_call_run)
      have "content_at fs q = content_at (fileTree s) q" for q
      proof (cases "at_path (fileTree s) q")
        case None
        with at(4) [OF None] show ?thesis by (auto simp: content_at_def)
      next
        case (Some n)
        with at(3) [of q] show ?thesis by (simp add: content_at_def)
      qed
      moreover have "at_path (fileTree s) q = Some Dir \<or> (\<exists>k < length ?p. q = take k ?p)"
        if "at_path fs q = Some Dir" for q
      proof (cases "at_path (fileTree s) q")
        case None
        with at(4) [OF None] that obtain k where "k \<le> length (butlast ?p)" "q = take k (butlast ?p)" by auto
        moreover from this ne have "k < length ?p" by (cases "length ?p") auto
        ultimately have "k < length ?p" "q = take k ?p" by (simp_all add: take_butlast)
        then show ?thesis by blast
      next
        case (Some n)
        with at(3) [of q] that show ?thesis by simp
      qed
      ultimately show ?thesis using run at(1) by metis
    qed
  next
    case none
    with t same show ?thesis by metis
  qed
qed

lemma tmp_path_Join:
  assumes "plain p" and "plain q" and "CHR ''/'' \<notin> set x" and "path_Join dir q = tmp_path (path_Join dir p) x"
  shows "HasSuffix q ''.tmp''"
proof -
  have "tmp_path (path_Join dir p) x = dir @ split_slash (p @ ''.'' @ x @ ''.tmp'')"
    using assms(1,3) by (subst split_slash_suffix) (auto simp: tmp_path_def path_Join_plain butlast_append)
  with assms(2,4) have "q = p @ ''.'' @ x @ ''.tmp''" by (simp add: path_Join_plain)
  then have "q = (p @ ''.'' @ x) @ ''.tmp''" by simp
  then show ?thesis by (metis HasSuffix_append)
qed

lemma join_slash_append: "xs \<noteq> [] \<Longrightarrow> ys \<noteq> [] \<Longrightarrow> join_slash (xs @ ys) = join_slash xs @ CHR ''/'' # join_slash ys"
proof (induction xs rule: join_slash.induct)
  case (2 x)
  then show ?case by (cases ys) auto
qed simp_all

lemma proper_dir:
  assumes "plain p" and "plain q" and "path_Join dir q = take k (path_Join dir p)" and "k < length (path_Join dir p)"
  shows "\<exists>r. p = q @ CHR ''/'' # r"
proof -
  have eq: "dir @ split_slash q = take k dir @ take (k - length dir) (split_slash p)"
    using assms(3) by (simp add: path_Join_plain assms(1,2))
  have "length dir < k"
  proof (rule ccontr)
    assume "\<not> length dir < k"
    with eq have "length (dir @ split_slash q) \<le> length dir" by simp
    then show False by simp
  qed
  with eq have "split_slash q = take (k - length dir) (split_slash p)" by simp
  moreover have "k - length dir < length (split_slash p)" using assms(1,4) \<open>length dir < k\<close> by (auto simp: path_Join_plain)
  ultimately have "split_slash p = split_slash q @ drop (k - length dir) (split_slash p)"
    "drop (k - length dir) (split_slash p) \<noteq> []" by simp_all
  then have "p = q @ CHR ''/'' # join_slash (drop (k - length dir) (split_slash p))"
    by (metis join_slash_append join_split split_slash_nonempty)
  then show ?thesis by blast
qed

lemma file_upload_law:
  assumes ok: "file_ok s" and p: "plain p" and nd: "\<not> file_isdir s p" and "\<not> HasSuffix p ''.tmp''"
  shows "\<exists>e s'. file_UploadFile p b s = (Inr e, s') \<and>
    settled FileStorage file_ok file_content s (if e = None then (file_content s)(p \<mapsto> b) else file_content s) s' \<and>
    (\<forall>q. file_isdir s' q \<longrightarrow> file_isdir s q \<or> (\<exists>r. p = q @ CHR ''/'' # r))"
proof -
  let ?p = "path_Join (storageDir s) p"
  obtain e fs where dir: "upload_dir p s = (Inr e, s\<lparr>fileTree := fs\<rparr>)" and t: "tree fs"
    and same: "\<And>q. content_at fs q = content_at (fileTree s) q"
    and dirs: "\<And>q. at_path fs q = Some Dir \<Longrightarrow> at_path (fileTree s) q = Some Dir \<or> (\<exists>k < length ?p. q = take k ?p)"
    using upload_dir_run [OF ok p] by blast
  let ?s = "s\<lparr>fileTree := fs\<rparr>"
  have newdir: "file_isdir s q \<or> (\<exists>r. p = q @ CHR ''/'' # r)"
    if "plain q" "at_path fs (path_Join (storageDir s) q) = Some Dir" for q
    using dirs [OF that(2)] that(1) proper_dir [OF p that(1)] by (auto simp: file_isdir_def)
  show ?thesis
  proof (cases e)
    case (Some x)
    have "settled FileStorage file_ok file_content s (file_content s) (s\<lparr>fileTree := fs, tmpCount := tmpCount s\<rparr>)"
      using same by (intro file_settledI ok t) (auto simp: file_content_def)
    moreover have "file_UploadFile p b s = (Inr (Some x), ?s)"
      using dir Some by (simp add: file_UploadFile_def bind_st_run)
    ultimately show ?thesis using newdir by (simp add: file_isdir_def)
  next
    case None
    have ok': "file_ok ?s" using ok t by (simp add: file_ok_def)
    have nd': "at_path (fileTree ?s) ?p \<noteq> Some Dir"
    proof
      assume "at_path (fileTree ?s) ?p = Some Dir"
      with newdir [OF p] nd obtain r where "p = p @ CHR ''/'' # r" by auto
      then show False by simp
    qed
    obtain e' fs' where up: "upload_tmp ?p b ?s = (Inr e', ?s\<lparr>fileTree := fs', tmpCount := Suc (tmpCount s)\<rparr>)"
      and t': "tree fs'" and d: "\<And>q. (at_path fs' q = Some Dir) = (at_path fs q = Some Dir)"
      and at: "\<And>q. q \<noteq> tmp_path ?p (tmpSuffix s (tmpCount s)) \<Longrightarrow>
        at_path fs' q = (if e' = None \<and> q = ?p then Some (File b) else at_path fs q)"
      using upload_tmp_run [OF ok' nd' path_Join_nonempty [OF p], of b] by (simp cong: if_cong) blast
    have run: "file_UploadFile p b s = (Inr e', s\<lparr>fileTree := fs', tmpCount := Suc (tmpCount s)\<rparr>)"
      using dir None up by (simp add: file_UploadFile_def bind_st_run)
    have "content_at fs' (path_Join (storageDir s) q) =
        (if e' = None then (file_content s)(p \<mapsto> b) else file_content s) q"
      if "plain q" "\<not> HasSuffix q ''.tmp''" for q
    proof -
      have "path_Join (storageDir s) q \<noteq> tmp_path ?p (tmpSuffix s (tmpCount s))"
        using tmp_path_Join [OF p that(1)] that(2) ok by (auto simp: file_ok_def)
      then show ?thesis
        using at [of "path_Join (storageDir s) q"] same [of "path_Join (storageDir s) q"] that(1) p
        by (auto simp: content_at_def file_content_def path_Join_inj)
    qed
    then have "settled FileStorage file_ok file_content s
        (if e' = None then (file_content s)(p \<mapsto> b) else file_content s)
        (s\<lparr>fileTree := fs', tmpCount := Suc (tmpCount s)\<rparr>)"
      using p by (intro file_settledI ok t') (auto simp: file_content_def)
    with run d newdir show ?thesis by (simp add: file_isdir_def)
  qed
qed

lemma path_Join_trailing: "plain p \<Longrightarrow> d = p \<or> d = p @ ''/'' \<Longrightarrow> path_Join dir d = path_Join dir p"
  using split_slash_append [of p "[]"] by (auto simp: path_Join_def clean_step_def)

lemma file_create_law:
  assumes ok: "file_ok s" and p: "plain p" and "d = p \<or> d = p @ ''/''"
  shows "\<exists>e s'. file_CreateDirectory d s = (Inr e, s') \<and>
    settled FileStorage file_ok file_content s (file_content s) s' \<and>
    (\<forall>q. file_isdir s' q \<longrightarrow> file_isdir s q \<or> q = p)"
proof -
  let ?p = "path_Join (storageDir s) p"
  have t: "tree (fileTree s)" using ok by (simp add: file_ok_def)
  have d: "path_Join (storageDir s) d = ?p" using path_Join_trailing [OF p assms(3)] .
  show ?thesis
  proof (cases "os_mkdir ?p (fileTree s)")
    case (Inl e)
    with d file_settled_same [OF ok] show ?thesis
      by (auto simp: file_CreateDirectory_def tree_call_run bind_st_run)
  next
    case (Inr fs)
    note at = os_mkdir_at [OF t Inr]
    have "settled FileStorage file_ok file_content s (file_content s) (s\<lparr>fileTree := fs, tmpCount := tmpCount s\<rparr>)"
      using at(1,2,3) by (intro file_settledI ok) (auto simp: content_at_def file_content_def)
    moreover have "file_isdir s q \<or> q = p" if "file_isdir (s\<lparr>fileTree := fs\<rparr>) q" for q
      using that at(2) p by (auto simp: file_isdir_def path_Join_inj split: if_splits)
    ultimately show ?thesis
      using Inr d by (auto simp: file_CreateDirectory_def tree_call_run bind_st_run)
  qed
qed

interpretation disk: storage_laws FileStorage file_ok file_content file_isdir
proof (unfold_locales, goal_cases)
  case (1 s p)
  then show ?case by (auto simp: file_content_def split: if_splits)
next
  case (2 s p)
  then show ?case by (simp add: file_isdir_def file_content_def content_at_def)
next
  case (3 s p b)
  then show ?case
    by (auto simp: file_content_def file_ok_def content_at_Some file_GetFileInfo_def split: if_splits)
next
  case (4 s p)
  then have "tree (fileTree s)" by (simp add: file_ok_def)
  with 4 show ?case
    by (rule_tac stat_cases [of "fileTree s" "path_Join (storageDir s) p"])
      (auto simp: file_GetFileInfo_def file_isdir_def file_content_def content_at_None)
next
  case (5 s p b)
  then show ?case
    by (auto simp: file_content_def file_ok_def content_at_Some file_DownloadFile_def rate_quotient_def
        bind_st_def split: if_splits)
next
  case (6 s p)
  then have "tree (fileTree s)" by (simp add: file_ok_def)
  with 6 show ?case
    by (rule_tac stat_cases [of "fileTree s" "path_Join (storageDir s) p"])
      (auto simp: file_DownloadFile_def file_content_def content_at_None file_ok_def rate_quotient_def bind_st_def)
next
  case (7 s p)
  then show ?case by (auto simp: file_ListFiles_def split: sum.splits errno.splits)
next
  case (8 s p)
  then show ?case using file_delete_law by simp
next
  case (9 s p)
  then show ?case
    by (auto simp: file_content_def file_ok_def content_at_Some file_DeleteFile_def os_remove_def
        tree_call_def bind_st_def split: if_splits)
next
  case (10 s p b q)
  then show ?case using file_move_law by simp
next
  case (11 s p q)
  then show ?case using file_move_sibling_law by auto
next
  case (12 s p q)
  then have "\<exists>e. os_rename (path_Join (storageDir s) p) (path_Join (storageDir s) q) (fileTree s) = Inl e"
    by (intro os_rename_missing) (auto simp: file_ok_def file_isdir_def file_content_def content_at_None)
  then show ?case by (auto simp: file_MoveFile_def tree_call_run bind_st_run)
next
  case (13 s p b)
  then show ?case using file_upload_law by simp
next
  case (14 s p d)
  then show ?case using file_create_law by simp
next
  case (15 s p)
  show ?case by (simp add: file_GetFileInfo_def)
next
  case (16 s p)
  then show ?case
    by (auto simp: file_ok_def file_DownloadFile_def rate_quotient_def bind_st_def split: sum.splits node.splits)
qed

section \<open>Properties of the file storage\<close>

text \<open>C26: A file that was uploaded successfully is downloaded with the uploaded content, the storage
  reports it with its length, and every other file that is not a temporary one keeps its content.\<close>

theorem FileStorage_upload_download:
  assumes "file_ok s" and "plain p" and "\<not> file_isdir s p" and "\<not> HasSuffix p ''.tmp''"
    and "UploadFile FileStorage p b s = (Inr None, s')"
  shows "DownloadFile FileStorage p s' = (Inr (b, None), s') \<and>
    GetFileInfo FileStorage p s' = (Inr (Inr (True, False, int (length b))), s') \<and>
    (\<forall>q c. q \<noteq> p \<and> \<not> HasSuffix q ''.tmp'' \<and> file_content s q = Some c \<longrightarrow>
       DownloadFile FileStorage q s' = (Inr (c, None), s'))"
proof -
  have s': "file_ok s'" "\<And>q. \<not> HasSuffix q ''.tmp'' \<Longrightarrow> file_content s' q = ((file_content s)(p \<mapsto> b)) q"
    using disk.upload_file [OF assms(1-4), of b] assms(5) by (auto simp: settled_def)
  with assms(4) show ?thesis
    using disk.download_file [OF s'(1)] disk.info_file [OF s'(1)] by auto
qed

text \<open>Looking for a chunk in the file storage finds it at the first of the read levels where it is
  stored, with the length of the file; when it is stored at none of them, the path at the write level
  is returned and the chunk reported as missing. Chunks and fossils are told apart.\<close>

theorem FileStorage_FindChunk:
  assumes "file_ok s" and "valid_id chunkID" and "good_levels (baseReadLevels s) (baseWriteLevel s) chunkID"
    and "\<forall>f. \<forall>l \<in> set (baseReadLevels s). \<not> file_isdir s (chunk_file chunkID f l)"
  shows "FindChunk FileStorage chunkID isFossil s =
    (Inr (Inr (case filter (\<lambda>l. file_content s (chunk_file chunkID isFossil l) \<noteq> None) (baseReadLevels s) of
        [] \<Rightarrow> (chunk_file chunkID isFossil (baseWriteLevel s), False, 0)
      | l # _ \<Rightarrow> (chunk_file chunkID isFossil l, True,
          int (length (the (file_content s (chunk_file chunkID isFossil l))))))), s)"
proof -
  have clear: "disk.clear chunkID s" using assms(4) by (simp add: disk.clear_def)
  show ?thesis
  proof (cases "disk.stored_at chunkID isFossil s")
    case Nil
    with disk.FindChunk_missing [OF assms(1,2) _ clear] assms(3) show ?thesis
      by (simp add: disk.stored_at_def)
  next
    case (Cons l ls)
    with disk.FindChunk_found [OF assms(1,2) _ clear Cons] assms(3) show ?thesis
      by (auto simp: disk.stored_at_def)
  qed
qed

text \<open>After the nesting levels are set without an error, the write level is one of the read
  levels, whatever the file \<open>nesting\<close> of the storage contains; for an older storage they are unchanged.\<close>

theorem SetNestingLevels_consistent:
  assumes "SetNestingLevels parse_nesting FileStorage config s = (Inr (), s')"
  shows "baseWriteLevel s' \<in> set (baseReadLevels s') \<and> fileTree s' = fileTree s \<and>
    (\<not> FixedNesting config \<longrightarrow> s' = s)"
proof -
  have load: "keeps (\<lambda>x. fileTree x = fileTree s) (load_nesting parse_nesting FileStorage)"
  proof -
    have "keeps (\<lambda>x. fileTree x = fileTree s) (file_GetFileInfo p)"
      "keeps (\<lambda>x. fileTree x = fileTree s) (file_DownloadFile p)" for p
      by (auto simp: keeps_def file_GetFileInfo_def file_DownloadFile_def rate_quotient_def bind_st_def
          split: sum.splits)
    then show ?thesis
      unfolding load_nesting_def
      by (auto intro!: hoare keeps_modify simp: FileStorage_def split: sum.splits prod.splits bool.splits option.splits)
  qed
  obtain x t where t: "(if FixedNesting config then
          bind_st (modify_st (\<lambda>s. SetDefaultNestingLevels FileStorage [] (writeLevel FileStorage s) s)) (\<lambda>_.
          bind_st (load_nesting parse_nesting FileStorage) (\<lambda>_.
          bind_st (get_st (readLevels FileStorage)) (\<lambda>levels.
            if levels = [] then modify_st (SetDefaultNestingLevels FileStorage [1] 1) else return_st ())))
        else return_st ()) s = (Inr x, t)"
    and fin: "bind_st (get_st (\<lambda>s. (readLevels FileStorage s, writeLevel FileStorage s))) (\<lambda>(levels, w).
       if w \<in> set levels then return_st () else raise_st (LogError ''STORAGE_NESTING'')) t = (Inr (), s')"
    by (rule bind_st_InrE [OF assms [unfolded SetNestingLevels_def]])
  from fin have s': "s' = t" "baseWriteLevel t \<in> set (baseReadLevels t)" by (auto split: if_splits)
  have "keeps (\<lambda>x. fileTree x = fileTree s) (SetNestingLevels parse_nesting FileStorage config)"
    unfolding SetNestingLevels_def
    by (intro hoare load keeps_modify) simp_all
  from keepsD [OF this refl assms] have "fileTree s' = fileTree s" .
  with s' t show ?thesis by auto
qed

text \<open>A concrete storage for the witnesses.\<close>

definition sample_store :: file_storage where
  "sample_store = \<lparr>storageDir = [''store''], isCacheNeeded = False, numberOfThreads = 1,
     fileTree = [([''store''], Dir)], baseReadLevels = [2, 3], baseWriteLevel = 2,
     tmpSuffix = (\<lambda>i. ''abcdefgh''), tmpCount = 0, dirSize = 4096\<rparr>"

lemma sample_store_ok: "file_ok sample_store"
  by (simp add: file_ok_def sample_store_def tree_def at_path_def)


theorem FileStorage_upload_download_witness:
  "DownloadFile FileStorage ''snapshots/a/1'' (snd (UploadFile FileStorage ''snapshots/a/1'' [7] sample_store)) =
     (Inr ([7], None), snd (UploadFile FileStorage ''snapshots/a/1'' [7] sample_store))"
proof -
  have "fst (UploadFile FileStorage ''snapshots/a/1'' [7] sample_store) = Inr None"
    by code_simp
  then have up: "UploadFile FileStorage ''snapshots/a/1'' [7] sample_store =
      (Inr None, snd (UploadFile FileStorage ''snapshots/a/1'' [7] sample_store))"
    by (metis prod.collapse)
  have "plain ''snapshots/a/1''" "\<not> file_isdir sample_store ''snapshots/a/1''" "\<not> HasSuffix ''snapshots/a/1'' ''.tmp''"
    by code_simp+
  from FileStorage_upload_download [OF sample_store_ok this up] show ?thesis by blast
qed

theorem FileStorage_FindChunk_witness:
  "FindChunk FileStorage ''0123456789abcdef'' False sample_store =
     (Inr (Inr (''chunks/01/23/456789abcdef'', False, 0)), sample_store)"
proof -
  have "valid_id ''0123456789abcdef''"
    "good_levels (baseReadLevels sample_store) (baseWriteLevel sample_store) ''0123456789abcdef''"
    by code_simp+
  moreover have "\<forall>f. \<forall>l \<in> set (baseReadLevels sample_store). \<not> file_isdir sample_store (chunk_file ''0123456789abcdef'' f l)"
    by code_simp
  moreover have "filter (\<lambda>l. file_content sample_store (chunk_file ''0123456789abcdef'' False l) \<noteq> None)
      (baseReadLevels sample_store) = []"
    "chunk_file ''0123456789abcdef'' False (baseWriteLevel sample_store) = ''chunks/01/23/456789abcdef''"
    by code_simp+
  ultimately show ?thesis using FileStorage_FindChunk [OF sample_store_ok] by simp
qed

theorem SetNestingLevels_consistent_witness:
  "\<exists>s'. SetNestingLevels (\<lambda>_. Inl EOF) FileStorage (CreateConfig\<lparr>FixedNesting := True\<rparr>) sample_store = (Inr (), s') \<and>
     baseWriteLevel s' \<in> set (baseReadLevels s')"
proof -
  have "fst (SetNestingLevels (\<lambda>_. Inl EOF) FileStorage (CreateConfig\<lparr>FixedNesting := True\<rparr>) sample_store) = Inr ()"
    by code_simp
  then obtain s' where
    "SetNestingLevels (\<lambda>_. Inl EOF) FileStorage (CreateConfig\<lparr>FixedNesting := True\<rparr>) sample_store = (Inr (), s')"
    by (metis prod.collapse)
  with SetNestingLevels_consistent [OF this] show ?thesis by blast
qed

end
