(* ===== verification/ChunkOperator.thy ===== *)
theory ChunkOperator
  imports Storage ChunkCodec
begin

text \<open>
  The chunk operator of \<open>duplicacy_chunkoperator.go\<close>: finding, downloading, uploading, deleting,
  fossilizing and resurrecting chunks over any storage.

  \<open>operator_env\<close> holds what does not change while the operator works; \<open>operator_state\<close> holds the
  states of the storage and of the snapshot cache (a file storage, or nil) and the counters and lists
  of the operator. A completed upload is recorded in \<open>completed\<close>, where the program calls
  \<open>UploadCompletionFunc\<close>; the result of a download is the chunk given to the completion function.
  Each encryption takes the next value of \<open>entropies\<close>. The goroutines perform one task each at
  a time; here a task is performed when it is added.

  Shown here: a chunk that is delivered by a download has the requested id, whatever the storage
  returns; what was uploaded is downloaded again, also when it has become a fossil.
\<close>

section \<open>Data\<close>

datatype operation =
    ChunkOperationDownload | ChunkOperationUpload | ChunkOperationDelete
  | ChunkOperationFossilize | ChunkOperationResurrect | ChunkOperationFind

record task =
  operation :: operation
  task_chunkID :: string
  task_chunkHash :: bytes
  task_chunkIndex :: int
  task_filePath :: string
  task_isMetadata :: bool
  task_chunk :: "chunk option"

record runtime =
  rt_hashes :: hashes
  rt_codecs :: codecs
  rt_arm64 :: bool
  rt_hmacsha256 :: bool

record 's operator_env =
  env_runtime :: runtime
  env_storage :: "'s storage"
  env_config :: config
  rewriteChunks :: bool
  allowFailures :: bool

record 's operator_state =
  op_storage :: 's
  snapshotCache :: "file_storage option"
  fossils :: "string list"
  NumberOfFailedChunks :: int
  downloadedChunkSize :: int
  completed :: "(chunk \<times> int \<times> bool \<times> nat \<times> nat) list"
  entropies :: "nat \<Rightarrow> entropy"
  entropyCount :: nat

definition on_storage :: "('s, 'a) prog \<Rightarrow> ('s operator_state, 'a) prog" where
  "on_storage m = zoom op_storage (\<lambda>s w. w\<lparr>op_storage := s\<rparr>) m"

definition on_cache :: "(file_storage, 'a) prog \<Rightarrow> ('s operator_state, 'a) prog" where
  "on_cache m w =
     (case snapshotCache w of
        None \<Rightarrow> (Inl (Panic ''nil pointer dereference''), w)
      | Some c \<Rightarrow> (case m c of (r, c') \<Rightarrow> (r, w\<lparr>snapshotCache := Some c'\<rparr>)))"

definition next_entropy :: "('s operator_state, entropy) prog" where
  "next_entropy w = (Inr (entropies w (entropyCount w)), w\<lparr>entropyCount := Suc (entropyCount w)\<rparr>)"

definition add_fossil :: "string \<Rightarrow> ('s operator_state, unit) prog" where
  "add_fossil p = modify_st (\<lambda>w. w\<lparr>fossils := fossils w @ [p]\<rparr>)"

section \<open>Methods of the chunk in the operator's setting\<close>

definition op_GetID :: "'s operator_env \<Rightarrow> chunk \<Rightarrow> ('w, string \<times> chunk) prog" where
  "op_GetID env chunk = lift_res (GetID (rt_hashes (env_runtime env)) (env_config env) chunk)"

definition op_GetHash :: "'s operator_env \<Rightarrow> chunk \<Rightarrow> ('w, bytes \<times> chunk) prog" where
  "op_GetHash env chunk = lift_res (GetHash (rt_hashes (env_runtime env)) (env_config env) chunk)"

definition op_Encrypt ::
  "'s operator_env \<Rightarrow> bytes \<Rightarrow> bytes \<Rightarrow> bool \<Rightarrow> chunk \<Rightarrow> ('s operator_state, goerror option \<times> chunk) prog" where
  "op_Encrypt env encryptionKey derivationKey isMetadata chunk =
     bind_st next_entropy (\<lambda>ent.
       lift_res (Encrypt (rt_hashes (env_runtime env)) (rt_codecs (env_runtime env)) (env_config env) ent
         encryptionKey derivationKey isMetadata chunk))"

definition op_Decrypt ::
  "'s operator_env \<Rightarrow> bytes \<Rightarrow> bytes \<Rightarrow> chunk \<Rightarrow> ('w, goerror option \<times> bool \<times> chunk) prog" where
  "op_Decrypt env encryptionKey derivationKey chunk =
     lift_res (Decrypt (rt_hashes (env_runtime env)) (rt_codecs (env_runtime env)) (rt_arm64 (env_runtime env))
       (rt_hmacsha256 (env_runtime env)) (env_config env) encryptionKey derivationKey chunk)"

section \<open>Download\<close>

text \<open>Looking for the chunk in the snapshot cache: the chunk if it is there with the right id, and
  the path in the cache otherwise.\<close>

definition download_cached :: "'s operator_env \<Rightarrow> string \<Rightarrow> chunk \<Rightarrow> ('s operator_state, chunk + string) prog" where
  "download_cached env chunkID chunk =
     (let chunk = Reset (env_config env) True chunk in
      bind_st (on_cache (FindChunk FileStorage chunkID False)) (\<lambda>r.
        case r of
          Inl err \<Rightarrow> return_st (Inr [])
        | Inr (cachedPath, exist, _) \<Rightarrow>
            if \<not> exist then return_st (Inr cachedPath)
            else
              bind_st (on_cache (DownloadFile FileStorage cachedPath)) (\<lambda>(bs, err).
                let chunk = chunk_Write bs chunk in
                if err \<noteq> None then return_st (Inr cachedPath)
                else bind_st (op_GetID env chunk) (\<lambda>(actualChunkID, chunk).
                  return_st (if actualChunkID \<noteq> chunkID then Inr cachedPath else Inl chunk)))))"

definition reset_download :: "'s operator_env \<Rightarrow> task \<Rightarrow> chunk \<Rightarrow> chunk" where
  "reset_download env task chunk =
     (Reset (env_config env) False chunk)\<lparr>chunk_isMetadata := task_isMetadata task\<rparr>"

text \<open>\<open>completeFailedChunk\<close> followed by the \<open>LOG_WERROR\<close>: the failure is counted, and either the
  broken chunk is delivered or the error raised.\<close>

definition download_failed :: "'s operator_env \<Rightarrow> string \<Rightarrow> chunk \<Rightarrow> ('s operator_state, chunk + 'a) prog" where
  "download_failed env logID chunk =
     bind_st (modify_st (\<lambda>w. w\<lparr>NumberOfFailedChunks := NumberOfFailedChunks w + 1\<rparr>)) (\<lambda>_.
       if allowFailures env then return_st (Inl (chunk\<lparr>chunk_isBroken := True\<rparr>)) else raise_st (LogError logID))"

text \<open>The rewriting of a chunk that was recovered from damage: the existing file becomes a fossil and
  the chunk is uploaded again.\<close>

definition rewrite_chunk ::
  "'s operator_env \<Rightarrow> task \<Rightarrow> string \<Rightarrow> string \<Rightarrow> string \<Rightarrow> chunk \<Rightarrow> ('s operator_state, chunk) prog" where
  "rewrite_chunk env task chunkPath fossilPath filePath chunk =
     bind_st
       (if filePath \<noteq> fossilPath then
          bind_st (on_storage (MoveFile (env_storage env) chunkPath (filePath @ ''.fsl''))) (\<lambda>err.
            if err = None then add_fossil (filePath @ ''.fsl'') else return_st ())
        else return_st ()) (\<lambda>_.
     bind_st (lift_res (GetBytes chunk)) (\<lambda>content.
     bind_st (op_GetHash env chunk) (\<lambda>(hash, chunk).
     bind_st (op_Encrypt env (ChunkKey (env_config env)) hash (task_isMetadata task)
         (chunk_Write content (Reset (env_config env) True (CreateChunk True)))) (\<lambda>(err, newChunk).
     bind_st
       (if err = None then
          bind_st (lift_res (GetBytes newChunk)) (\<lambda>encrypted.
          bind_st (on_storage (UploadFile (env_storage env) chunkPath encrypted)) (\<lambda>_. return_st ()))
        else return_st ()) (\<lambda>_.
       return_st chunk)))))"

text \<open>Locating the chunk: its path, the path of the fossil and the one of them to download. \<open>None\<close>
  if there is neither.\<close>

definition locate_chunk ::
  "'s operator_env \<Rightarrow> string \<Rightarrow> string \<Rightarrow> ('s operator_state, goerror + (string \<times> string \<times> string) option) prog" where
  "locate_chunk env chunkID fossilPath =
     bind_st (on_storage (FindChunk (env_storage env) chunkID False)) (\<lambda>r.
       case r of
         Inl err \<Rightarrow> return_st (Inl err)
       | Inr (chunkPath, True, _) \<Rightarrow> return_st (Inr (Some (chunkPath, fossilPath, chunkPath)))
       | Inr (chunkPath, False, _) \<Rightarrow>
           bind_st (on_storage (FindChunk (env_storage env) chunkID True)) (\<lambda>r.
             return_st (case r of
                 Inl err \<Rightarrow> Inl err
               | Inr (fossilPath, exist, _) \<Rightarrow> Inr (if exist then Some (chunkPath, fossilPath, fossilPath) else None))))"

text \<open>What is done with the downloaded content. \<open>again\<close> is the next attempt, if there is one.\<close>

definition check_download ::
  "'s operator_env \<Rightarrow> task \<Rightarrow> (chunk \<Rightarrow> ('s operator_state, chunk + chunk) prog) option \<Rightarrow>
     string \<Rightarrow> string \<Rightarrow> string \<Rightarrow> chunk \<Rightarrow> ('s operator_state, chunk + chunk) prog" where
  "check_download env task again chunkPath fossilPath filePath chunk =
     bind_st (op_Decrypt env (ChunkKey (env_config env)) (task_chunkHash task) chunk) (\<lambda>(err, rewriteNeeded, chunk).
       let retry = (\<lambda>logID chunk. case again of
             Some next \<Rightarrow> next (reset_download env task chunk)
           | None \<Rightarrow> download_failed env logID chunk)
       in if err \<noteq> None then retry ''DOWNLOAD_DECRYPT'' chunk
          else bind_st (op_GetID env chunk) (\<lambda>(actualChunkID, chunk).
            if actualChunkID \<noteq> task_chunkID task then retry ''DOWNLOAD_CORRUPTED'' chunk
            else bind_st
              (if rewriteNeeded \<and> rewriteChunks env then rewrite_chunk env task chunkPath fossilPath filePath chunk
               else return_st chunk) (\<lambda>chunk. return_st (Inr chunk))))"

definition download_attempt ::
  "'s operator_env \<Rightarrow> task \<Rightarrow> (string \<Rightarrow> chunk \<Rightarrow> ('s operator_state, chunk + chunk) prog) option \<Rightarrow>
     string \<Rightarrow> chunk \<Rightarrow> ('s operator_state, chunk + chunk) prog" where
  "download_attempt env task again fossilPath chunk =
     bind_st (locate_chunk env (task_chunkID task) fossilPath) (\<lambda>r.
       case r of
         Inl err \<Rightarrow> download_failed env ''DOWNLOAD_CHUNK'' chunk
       | Inr None \<Rightarrow>
           if isHubic (env_storage env) \<or> isWebDAV (env_storage env) then
             (case again of Some next \<Rightarrow> next fossilPath chunk | None \<Rightarrow> download_failed env ''DOWNLOAD_CHUNK'' chunk)
           else download_failed env ''DOWNLOAD_CHUNK'' chunk
       | Inr (Some (chunkPath, fossilPath, filePath)) \<Rightarrow>
           bind_st (on_storage (DownloadFile (env_storage env) filePath)) (\<lambda>(bs, err).
             let chunk = chunk_Write bs chunk in
             case err of
               Some e \<Rightarrow>
                 if e = UnexpectedEOF \<or> isHubic (env_storage env) then
                   (case again of
                      Some next \<Rightarrow> next fossilPath (reset_download env task chunk)
                    | None \<Rightarrow> download_failed env ''DOWNLOAD_CHUNK'' chunk)
                 else download_failed env ''DOWNLOAD_CHUNK'' chunk
             | None \<Rightarrow>
                 check_download env task (map_option (\<lambda>next. next fossilPath) again) chunkPath fossilPath filePath chunk))"

text \<open>The loop over the attempts; the first argument is the number of attempts left after this one.\<close>

fun download_loop ::
  "'s operator_env \<Rightarrow> task \<Rightarrow> nat \<Rightarrow> string \<Rightarrow> chunk \<Rightarrow> ('s operator_state, chunk + chunk) prog" where
  "download_loop env task 0 fossilPath chunk = download_attempt env task None fossilPath chunk"
| "download_loop env task (Suc n) fossilPath chunk =
     download_attempt env task (Some (download_loop env task n)) fossilPath chunk"

definition MaxDownloadAttempts :: nat where "MaxDownloadAttempts = 3"

definition DownloadChunk :: "'s operator_env \<Rightarrow> task \<Rightarrow> ('s operator_state, chunk) prog" where
  "DownloadChunk env task =
     (let chunk = (CreateChunk True)\<lparr>chunk_isMetadata := task_isMetadata task\<rparr> in
      bind_st (get_st snapshotCache) (\<lambda>cache.
      bind_st (if task_isMetadata task \<and> cache \<noteq> None then download_cached env (task_chunkID task) chunk
               else return_st (Inr [])) (\<lambda>cached.
        case cached of
          Inl chunk \<Rightarrow> return_st chunk
        | Inr cachedPath \<Rightarrow>
            bind_st (download_loop env task MaxDownloadAttempts [] (reset_download env task chunk)) (\<lambda>r.
              case r of
                Inl broken \<Rightarrow> return_st broken
              | Inr chunk \<Rightarrow>
                  bind_st
                    (if chunk_isMetadata chunk \<and> cachedPath \<noteq> [] then
                       bind_st (lift_res (GetBytes chunk)) (\<lambda>content.
                       bind_st (on_cache (UploadFile FileStorage cachedPath content)) (\<lambda>_. return_st ()))
                     else return_st ()) (\<lambda>_.
                  bind_st (modify_st (\<lambda>w. w\<lparr>downloadedChunkSize := downloadedChunkSize w + int (GetLength chunk)\<rparr>)) (\<lambda>_.
                    return_st chunk))))))"

section \<open>Upload\<close>

definition upload_cached :: "'s operator_env \<Rightarrow> string \<Rightarrow> chunk \<Rightarrow> ('s operator_state, unit) prog" where
  "upload_cached env chunkID chunk =
     bind_st (on_cache (FindChunk FileStorage chunkID False)) (\<lambda>r.
       case r of
         Inr (chunkPath, False, _) \<Rightarrow>
           bind_st (lift_res (GetBytes chunk)) (\<lambda>content.
           bind_st (on_cache (UploadFile FileStorage chunkPath content)) (\<lambda>_. return_st ()))
       | _ \<Rightarrow> return_st ())"

definition complete_upload ::
  "chunk \<Rightarrow> int \<Rightarrow> nat \<Rightarrow> nat \<Rightarrow> ('s operator_state, unit) prog" where
  "complete_upload chunk chunkIndex chunkSize uploadSize =
     modify_st (\<lambda>w. w\<lparr>completed := completed w @ [(chunk, chunkIndex, False, chunkSize, uploadSize)]\<rparr>)"

definition UploadChunk :: "'s operator_env \<Rightarrow> task \<Rightarrow> chunk \<Rightarrow> ('s operator_state, bool) prog" where
  "UploadChunk env task chunk =
     (let chunkSize = GetLength chunk; st = env_storage env in
      bind_st (if task_isMetadata task then
                 lift_res (VerifyID (rt_hashes (env_runtime env)) (env_config env) chunk)
               else return_st chunk) (\<lambda>chunk.
      bind_st (get_st (\<lambda>w. snapshotCache w \<noteq> None \<and> IsCacheNeeded st (op_storage w))) (\<lambda>caching.
      bind_st (if task_isMetadata task \<and> caching then upload_cached env (task_chunkID task) chunk
               else return_st ()) (\<lambda>_.
      bind_st (on_storage (FindChunk st (task_chunkID task) False)) (\<lambda>r.
        case r of
          Inl err \<Rightarrow> raise_st (LogError ''UPLOAD_CHUNK'')
        | Inr (chunkPath, True, _) \<Rightarrow>
            bind_st (complete_upload chunk (task_chunkIndex task) chunkSize 0) (\<lambda>_. return_st False)
        | Inr (chunkPath, False, _) \<Rightarrow>
            bind_st (op_GetHash env chunk) (\<lambda>(hash, chunk).
            bind_st (op_Encrypt env (ChunkKey (env_config env)) hash (task_isMetadata task) chunk) (\<lambda>(err, chunk).
              if err \<noteq> None then raise_st (LogError ''UPLOAD_CHUNK'')
              else
                bind_st (if dryRun (env_config env) then return_st None
                         else bind_st (lift_res (GetBytes chunk)) (\<lambda>encrypted.
                           on_storage (UploadFile st chunkPath encrypted))) (\<lambda>err.
                  if err \<noteq> None then raise_st (LogError ''UPLOAD_CHUNK'')
                  else bind_st (complete_upload chunk (task_chunkIndex task) chunkSize (GetLength chunk)) (\<lambda>_.
                    return_st True)))))))))"

section \<open>Deleting, fossilizing, resurrecting, finding\<close>

text \<open>The path of the chunk for \<open>Delete\<close> and \<open>Fossilize\<close>: \<open>None\<close> if there is nothing more to do.\<close>

definition task_path :: "'s operator_env \<Rightarrow> task \<Rightarrow> ('s operator_state, string option) prog" where
  "task_path env task =
     (if task_filePath task \<noteq> [] then return_st (Some (task_filePath task))
      else
        bind_st (on_storage (FindChunk (env_storage env) (task_chunkID task) False)) (\<lambda>r.
          case r of
            Inl err \<Rightarrow> raise_st (LogError ''CHUNK_FIND'')
          | Inr (filePath, True, _) \<Rightarrow> return_st (Some filePath)
          | Inr (filePath, False, _) \<Rightarrow>
              if operation task = ChunkOperationDelete then return_st None
              else
                bind_st (on_storage (FindChunk (env_storage env) (task_chunkID task) True)) (\<lambda>r.
                  case r of
                    Inr (fossilPath, True, _) \<Rightarrow> bind_st (add_fossil fossilPath) (\<lambda>_. return_st None)
                  | _ \<Rightarrow> raise_st (LogError ''CHUNK_FIND''))))"

definition delete_chunk :: "'s operator_env \<Rightarrow> string \<Rightarrow> ('s operator_state, unit) prog" where
  "delete_chunk env filePath =
     bind_st (on_storage (DeleteFile (env_storage env) filePath)) (\<lambda>err. return_st ())"

definition fossilize_chunk :: "'s operator_env \<Rightarrow> string \<Rightarrow> string \<Rightarrow> ('s operator_state, unit) prog" where
  "fossilize_chunk env chunkID filePath =
     (let fossilPath = filePath @ ''.fsl'' in
      bind_st (on_storage (MoveFile (env_storage env) filePath fossilPath)) (\<lambda>err.
        if err = None then add_fossil fossilPath
        else
          bind_st (on_storage (FindChunk (env_storage env) chunkID True)) (\<lambda>r.
            case r of
              Inr (_, True, _) \<Rightarrow>
                bind_st (on_storage (DeleteFile (env_storage env) filePath)) (\<lambda>_. add_fossil fossilPath)
            | _ \<Rightarrow> raise_st (LogError ''CHUNK_DELETE''))))"

definition resurrect_chunk :: "'s operator_env \<Rightarrow> string \<Rightarrow> string \<Rightarrow> ('s operator_state, unit) prog" where
  "resurrect_chunk env chunkID filePath =
     bind_st (on_storage (FindChunk (env_storage env) chunkID False)) (\<lambda>r.
       case r of
         Inl err \<Rightarrow> raise_st (LogError ''CHUNK_FIND'')
       | Inr (_, True, _) \<Rightarrow>
           bind_st (on_storage (DeleteFile (env_storage env) filePath)) (\<lambda>_. return_st ())
       | Inr (chunkPath, False, _) \<Rightarrow>
           bind_st (on_storage (MoveFile (env_storage env) filePath chunkPath)) (\<lambda>err.
             if err = None then return_st () else raise_st (LogError ''FOSSIL_RESURRECT'')))"

definition find_chunk :: "'s operator_env \<Rightarrow> string \<Rightarrow> ('s operator_state, unit) prog" where
  "find_chunk env chunkID =
     bind_st (on_storage (FindChunk (env_storage env) chunkID False)) (\<lambda>r.
       case r of
         Inr (_, True, _) \<Rightarrow> return_st ()
       | _ \<Rightarrow> raise_st (LogError ''CHUNK_FIND''))"

text \<open>A task; the result is the chunk that a download delivers.\<close>

definition Run :: "'s operator_env \<Rightarrow> task \<Rightarrow> ('s operator_state, chunk option) prog" where
  "Run env task =
     (case operation task of
        ChunkOperationDownload \<Rightarrow> bind_st (DownloadChunk env task) (\<lambda>chunk. return_st (Some chunk))
      | ChunkOperationUpload \<Rightarrow>
          (case task_chunk task of
             None \<Rightarrow> raise_st (Panic ''nil pointer dereference'')
           | Some chunk \<Rightarrow> bind_st (UploadChunk env task chunk) (\<lambda>_. return_st None))
      | ChunkOperationDelete \<Rightarrow>
          bind_st (task_path env task) (\<lambda>p. bind_st
            (case p of None \<Rightarrow> return_st () | Some filePath \<Rightarrow> delete_chunk env filePath) (\<lambda>_. return_st None))
      | ChunkOperationFossilize \<Rightarrow>
          bind_st (task_path env task) (\<lambda>p. bind_st
            (case p of None \<Rightarrow> return_st () | Some filePath \<Rightarrow> fossilize_chunk env (task_chunkID task) filePath)
            (\<lambda>_. return_st None))
      | ChunkOperationResurrect \<Rightarrow>
          bind_st (resurrect_chunk env (task_chunkID task) (task_filePath task)) (\<lambda>_. return_st None)
      | ChunkOperationFind \<Rightarrow> bind_st (find_chunk env (task_chunkID task)) (\<lambda>_. return_st None))"

text \<open>The tasks that the operator's methods create.\<close>

definition chunk_task :: "operation \<Rightarrow> string \<Rightarrow> string \<Rightarrow> task" where
  "chunk_task op chunkID filePath =
     \<lparr>operation = op, task_chunkID = chunkID, task_chunkHash = [], task_chunkIndex = 0,
      task_filePath = filePath, task_isMetadata = False, task_chunk = None\<rparr>"

definition Delete :: "'s operator_env \<Rightarrow> string \<Rightarrow> string \<Rightarrow> ('s operator_state, unit) prog" where
  "Delete env chunkID filePath =
     bind_st (Run env (chunk_task ChunkOperationDelete chunkID filePath)) (\<lambda>_. return_st ())"

definition Fossilize :: "'s operator_env \<Rightarrow> string \<Rightarrow> string \<Rightarrow> ('s operator_state, unit) prog" where
  "Fossilize env chunkID filePath =
     bind_st (Run env (chunk_task ChunkOperationFossilize chunkID filePath)) (\<lambda>_. return_st ())"

definition Resurrect :: "'s operator_env \<Rightarrow> string \<Rightarrow> string \<Rightarrow> ('s operator_state, unit) prog" where
  "Resurrect env chunkID filePath =
     bind_st (Run env (chunk_task ChunkOperationResurrect chunkID filePath)) (\<lambda>_. return_st ())"

definition Download :: "'s operator_env \<Rightarrow> bytes \<Rightarrow> int \<Rightarrow> bool \<Rightarrow> ('s operator_state, chunk) prog" where
  "Download env chunkHash chunkIndex isMetadata =
     bind_st (lift_res (GetChunkIDFromHash (rt_hashes (env_runtime env)) (env_config env) chunkHash)) (\<lambda>chunkID.
     bind_st (Run env \<lparr>operation = ChunkOperationDownload, task_chunkID = chunkID, task_chunkHash = chunkHash,
         task_chunkIndex = chunkIndex, task_filePath = [], task_isMetadata = isMetadata, task_chunk = None\<rparr>) (\<lambda>r.
       case r of Some chunk \<Rightarrow> return_st chunk | None \<Rightarrow> raise_st (Panic ''all goroutines are asleep'')))"

definition Upload :: "'s operator_env \<Rightarrow> chunk \<Rightarrow> int \<Rightarrow> bool \<Rightarrow> ('s operator_state, unit) prog" where
  "Upload env chunk chunkIndex isMetadata =
     bind_st (op_GetHash env chunk) (\<lambda>(chunkHash, chunk).
     bind_st (lift_res (GetChunkIDFromHash (rt_hashes (env_runtime env)) (env_config env) chunkHash)) (\<lambda>chunkID.
     bind_st (Run env \<lparr>operation = ChunkOperationUpload, task_chunkID = chunkID, task_chunkHash = chunkHash,
         task_chunkIndex = chunkIndex, task_filePath = [], task_isMetadata = isMetadata, task_chunk = Some chunk\<rparr>) (\<lambda>_.
       return_st ())))"

section \<open>Integrity of downloads\<close>

text \<open>The content of the chunk is the one with the given id.\<close>

definition has_id :: "'s operator_env \<Rightarrow> string \<Rightarrow> chunk \<Rightarrow> bool" where
  "has_id env chunkID chunk \<longleftrightarrow> (\<exists>content h g. chunk_buffer chunk = Some content \<and>
     NewKeyedHasher (rt_hashes (env_runtime env)) (env_config env) (HashKey (env_config env)) = Inr h \<and>
     NewKeyedHasher (rt_hashes (env_runtime env)) (env_config env) (IDKey (env_config env)) = Inr g \<and>
     chunkID = hex_encode (g (h content)))"

lemma has_id_GetID:
  assumes "holds (env_config env) content chunk" and "chunk_buffer chunk \<noteq> None"
    and "GetID (rt_hashes (env_runtime env)) (env_config env) chunk = Inr (chunkID, chunk')"
  shows "has_id env chunkID chunk'" and "chunk_isBroken chunk' = chunk_isBroken chunk"
    and "chunk_hasher chunk' = chunk_hasher chunk"
  using assms
  by (auto simp: holds_def GetID_def GetHash_def hasher_Sum_def has_id_def bind_res_Inr_iff split: if_splits)

lemma has_id_cong: "chunk_buffer chunk = chunk_buffer chunk' \<Longrightarrow> has_id env i chunk = has_id env i chunk'"
  by (simp add: has_id_def)

lemma GetHash_buffer: "GetHash hs config chunk = Inr (x, chunk') \<Longrightarrow> chunk_buffer chunk' = chunk_buffer chunk \<and>
    chunk_isBroken chunk' = chunk_isBroken chunk"
  by (auto simp: GetHash_def bind_res_Inr_iff)

text \<open>What a download may return: a chunk with the right id, or a broken one if that is allowed.\<close>

definition delivered :: "'s operator_env \<Rightarrow> string \<Rightarrow> chunk + chunk \<Rightarrow> bool" where
  "delivered env chunkID r = (case r of
      Inl broken \<Rightarrow> allowFailures env \<and> chunk_isBroken broken
    | Inr chunk \<Rightarrow> has_id env chunkID chunk \<and> \<not> chunk_isBroken chunk)"

text \<open>A chunk that has been reset, perhaps with downloaded bytes written to it.\<close>

definition blank :: "chunk \<Rightarrow> bool" where
  "blank chunk \<longleftrightarrow> chunk_id chunk = [] \<and> chunk_buffer chunk \<noteq> None \<and> \<not> chunk_isBroken chunk"

lemma blank_reset [simp]: "chunk_buffer chunk \<noteq> None \<Longrightarrow> blank (reset_download env task chunk)"
  by (simp add: blank_def reset_download_def Reset_def)

lemma blank_Write [simp]: "blank chunk \<Longrightarrow> blank (chunk_Write bs chunk)"
  by (auto simp: blank_def chunk_Write_def Let_def split: option.splits)

lemma yields_failed: "chunk_buffer chunk \<noteq> None \<Longrightarrow> yields (delivered env i) (download_failed env logID chunk)"
  unfolding download_failed_def by (intro yielding) (simp add: delivered_def)

lemma Decrypt_forms:
  assumes "Decrypt hs cr arm hm config k d chunk = Inr (err, rw, chunk')"
  obtains e where "err = Some e" "chunk' = chunk\<lparr>chunk_buffer := Some []\<rparr>"
    | plain where "err = None" "chunk' = chunk\<lparr>chunk_buffer := Some plain,
        chunk_hasher := Some (HashKey config, plain), chunk_hash := []\<rparr>"
  using assms
  by (auto simp: Decrypt_def Let_def elim!: bind_resE split: sum.split_asm prod.split_asm)

lemma Decrypt_result:
  assumes "Decrypt hs cr arm hm config k d chunk = Inr (err, rw, chunk')" and "blank chunk"
  shows "chunk_buffer chunk' \<noteq> None \<and> \<not> chunk_isBroken chunk' \<and> (err = None \<longrightarrow> (\<exists>content. holds config content chunk'))"
  using assms(1)
proof (cases rule: Decrypt_forms)
  case (1 e)
  with assms(2) show ?thesis by (simp add: blank_def)
next
  case (2 plain)
  with assms(2) show ?thesis by (simp add: blank_def holds_def)
qed

lemma yields_rewrite:
  assumes "has_id env i chunk" and "\<not> chunk_isBroken chunk"
  shows "yields (\<lambda>c. has_id env i c \<and> \<not> chunk_isBroken c) (rewrite_chunk env task p q r chunk)"
proof -
  have get: "yields (\<lambda>(x, c). has_id env i c \<and> \<not> chunk_isBroken c) (op_GetHash env chunk)"
    unfolding op_GetHash_def
  proof (rule yields_lift)
    fix x
    assume "GetHash (rt_hashes (env_runtime env)) (env_config env) chunk = Inr x"
    then show "case x of (_, c) \<Rightarrow> has_id env i c \<and> \<not> chunk_isBroken c"
      using GetHash_buffer [of _ _ chunk "fst x" "snd x"] assms has_id_cong [of "snd x" chunk env i]
      by (simp add: case_prod_beta)
  qed
  show ?thesis
    unfolding rewrite_chunk_def
    by (rule yields_then, rule yields_then, rule yields_bind [OF get])
      (auto intro!: yields_then yields_return split: prod.splits)
qed

lemma yields_check:
  assumes "blank chunk" and "\<And>next c. again = Some next \<Longrightarrow> blank c \<Longrightarrow> yields (delivered env (task_chunkID task)) (next c)"
  shows "yields (delivered env (task_chunkID task)) (check_download env task again p q r chunk)"
  unfolding check_download_def op_Decrypt_def Let_def
proof (rule yields_bind [OF yields_lift])
  fix x
  assume dec: "Decrypt (rt_hashes (env_runtime env)) (rt_codecs (env_runtime env)) (rt_arm64 (env_runtime env))
       (rt_hmacsha256 (env_runtime env)) (env_config env) (ChunkKey (env_config env)) (task_chunkHash task) chunk = Inr x"
  then show "case x of (err, rw, c) \<Rightarrow> chunk_buffer c \<noteq> None \<and> \<not> chunk_isBroken c \<and>
      (err = None \<longrightarrow> (\<exists>content. holds (env_config env) content c))"
    using Decrypt_result [OF _ assms(1)] by (cases x) simp
next
  fix x :: "goerror option \<times> bool \<times> chunk"
  assume x: "case x of (err, rw, c) \<Rightarrow> chunk_buffer c \<noteq> None \<and> \<not> chunk_isBroken c \<and>
      (err = None \<longrightarrow> (\<exists>content. holds (env_config env) content c))"
  obtain err rw c where [simp]: "x = (err, rw, c)" by (cases x)
  have retry: "yields (delivered env (task_chunkID task))
      (case again of None \<Rightarrow> download_failed env logID d | Some next \<Rightarrow> next (reset_download env task d))"
    if "chunk_buffer d \<noteq> None" for d logID
    using that assms(2) by (auto intro!: yields_failed split: option.splits)
  have id: "yields (\<lambda>(i, d). has_id env i d \<and> \<not> chunk_isBroken d) (op_GetID env c)" if "err = None"
    unfolding op_GetID_def
    using that x by (intro yields_lift) (auto dest: has_id_GetID)
  have buf: "\<exists>y. chunk_buffer d = Some y" if "has_id env i d" for i d using that by (auto simp: has_id_def)
  have rw: "yields (\<lambda>e. has_id env i e \<and> \<not> chunk_isBroken e)
      (if rw \<and> rewriteChunks env then rewrite_chunk env task p q r d else return_st d)"
    if "has_id env i d" "\<not> chunk_isBroken d" for i d
    using yields_rewrite [OF that] that by (simp add: yields_return)
  have fin: "yields (delivered env (task_chunkID task))
      (bind_st (if rw \<and> rewriteChunks env then rewrite_chunk env task p q r d else return_st d)
        (\<lambda>chunk. return_st (Inr chunk)))"
    if "has_id env (task_chunkID task) d" "\<not> chunk_isBroken d" for d
    by (rule yields_bind [OF rw [OF that]]) (auto intro: yields_return simp: delivered_def)
  show "yields (delivered env (task_chunkID task))
      (case x of (err, rewriteNeeded, chunk) \<Rightarrow>
        if err \<noteq> None
        then case again of None \<Rightarrow> download_failed env ''DOWNLOAD_DECRYPT'' chunk | Some next \<Rightarrow> next (reset_download env task chunk)
        else bind_st (op_GetID env chunk) (\<lambda>(actualChunkID, chunk).
          if actualChunkID \<noteq> task_chunkID task
          then case again of None \<Rightarrow> download_failed env ''DOWNLOAD_CORRUPTED'' chunk | Some next \<Rightarrow> next (reset_download env task chunk)
          else bind_st (if rewriteNeeded \<and> rewriteChunks env then rewrite_chunk env task p q r chunk else return_st chunk)
                (\<lambda>chunk. return_st (Inr chunk))))"
  proof (cases err)
    case (Some e)
    with x retry [of c] show ?thesis by simp
  next
    case None
    show ?thesis
      using x None
      by (auto intro!: yields_bind [OF id [OF None]] yields_if retry fin
          simp del: st_simps dest: buf split del: if_split)
  qed
qed

lemma yields_attempt:
  assumes "blank chunk"
    and "\<And>next f c. again = Some next \<Longrightarrow> blank c \<Longrightarrow> yields (delivered env (task_chunkID task)) (next f c)"
  shows "yields (delivered env (task_chunkID task)) (download_attempt env task again fossilPath chunk)"
proof -
  have buf: "\<exists>y. chunk_buffer c = Some y" if "blank c" for c using that by (auto simp: blank_def)
  have retry: "yields (delivered env (task_chunkID task))
      (case again of None \<Rightarrow> download_failed env logID c | Some next \<Rightarrow> next f d)"
    if "blank c" "blank d" for c d f logID
    using that assms(2) buf by (auto intro!: yields_failed split: option.splits)
  show ?thesis
    unfolding download_attempt_def Let_def
    by (intro yields_then yields_case yields_if yields_check)
      (use assms buf in \<open>auto intro!: yields_failed retry blank_reset\<close>)
qed

lemma yields_loop:
  "blank chunk \<Longrightarrow> yields (delivered env (task_chunkID task)) (download_loop env task n fossilPath chunk)"
  by (induction n arbitrary: fossilPath chunk) (auto intro!: yields_attempt)

lemma yields_cached:
  "yields (\<lambda>r. case r of Inl chunk \<Rightarrow> has_id env chunkID chunk \<and> \<not> chunk_isBroken chunk | Inr _ \<Rightarrow> True)
     (download_cached env chunkID (CreateChunk True\<lparr>chunk_isMetadata := m\<rparr>))"
proof -
  have id: "yields (\<lambda>(i, d). has_id env i d \<and> \<not> chunk_isBroken d)
      (op_GetID env (chunk_Write bs (Reset (env_config env) True (CreateChunk True\<lparr>chunk_isMetadata := m\<rparr>))))" for bs
  proof -
    define c where "c = chunk_Write bs (Reset (env_config env) True (CreateChunk True\<lparr>chunk_isMetadata := m\<rparr>))"
    have "holds (env_config env) ([] @ bs) c" unfolding c_def by (rule holds_Write [OF holds_Reset])
    moreover have "chunk_buffer c \<noteq> None" "\<not> chunk_isBroken c"
      by (simp_all add: c_def CreateChunk_def Reset_def chunk_Write_def Let_def)
    ultimately have "yields (\<lambda>(i, d). has_id env i d \<and> \<not> chunk_isBroken d) (op_GetID env c)"
      unfolding op_GetID_def by (intro yields_lift) (auto dest: has_id_GetID)
    then show ?thesis by (simp add: c_def)
  qed
  show ?thesis
    unfolding download_cached_def Let_def
    by (rule yields_then, intro yields_case yields_if yields_return, simp, simp, rule yields_then,
        intro yields_case yields_if yields_return, simp, rule yields_bind [OF id])
      (auto intro: yields_return)
qed

lemma yields_DownloadChunk:
  "yields (\<lambda>c. if chunk_isBroken c then allowFailures env else has_id env (task_chunkID task) c) (DownloadChunk env task)"
proof -
  let ?Q = "\<lambda>c. if chunk_isBroken c then allowFailures env else has_id env (task_chunkID task) c"
  have loop: "yields (delivered env (task_chunkID task))
      (download_loop env task MaxDownloadAttempts [] (reset_download env task (CreateChunk True\<lparr>chunk_isMetadata := m\<rparr>)))" for m
    by (rule yields_loop) (simp add: CreateChunk_def)
  show "yields ?Q (DownloadChunk env task)"
    unfolding DownloadChunk_def Let_def
  proof (rule yields_then, rule yields_bind)
    fix cache
    show "yields (\<lambda>r. case r of Inl chunk \<Rightarrow> has_id env (task_chunkID task) chunk \<and> \<not> chunk_isBroken chunk | Inr _ \<Rightarrow> True)
        (if task_isMetadata task \<and> cache \<noteq> None
         then download_cached env (task_chunkID task) (CreateChunk True\<lparr>chunk_isMetadata := task_isMetadata task\<rparr>)
         else return_st (Inr []))"
      using yields_cached by (auto intro: yields_return)
  next
    fix r :: "chunk + string"
    assume "case r of Inl chunk \<Rightarrow> has_id env (task_chunkID task) chunk \<and> \<not> chunk_isBroken chunk | Inr _ \<Rightarrow> True"
    then show "yields ?Q (case r of Inl chunk \<Rightarrow> return_st chunk | Inr cachedPath \<Rightarrow>
        bind_st (download_loop env task MaxDownloadAttempts []
            (reset_download env task (CreateChunk True\<lparr>chunk_isMetadata := task_isMetadata task\<rparr>))) (\<lambda>r.
          case r of Inl broken \<Rightarrow> return_st broken
          | Inr chunk \<Rightarrow> bind_st
              (if chunk_isMetadata chunk \<and> cachedPath \<noteq> []
               then bind_st (lift_res (GetBytes chunk)) (\<lambda>content.
                 bind_st (on_cache (UploadFile FileStorage cachedPath content)) (\<lambda>_. return_st ()))
               else return_st ()) (\<lambda>_.
              bind_st (modify_st (\<lambda>w. w\<lparr>downloadedChunkSize := downloadedChunkSize w + int (GetLength chunk)\<rparr>)) (\<lambda>_.
                return_st chunk))))"
    proof (cases r)
      case (Inr cachedPath)
      show ?thesis
        unfolding Inr sum.case
        by (rule yields_bind [OF loop], intro yields_case yields_then yields_return) (simp_all add: delivered_def)
    qed (simp add: yields_return)
  qed
qed

text \<open>C13: Integrity: a chunk delivered by a download has the requested id, computed from its very
  content, or it is marked as broken, which happens only if failures are allowed. This holds for every
  storage: whatever it returns, for corrupted, truncated and exchanged files, for retries, for
  chunks found in the cache or as fossils.\<close>

theorem DownloadChunk_integrity:
  assumes "DownloadChunk env task w = (Inr chunk, w')"
  shows "if chunk_isBroken chunk then allowFailures env else has_id env (task_chunkID task) chunk"
  using yieldsD [OF yields_DownloadChunk assms] .

section \<open>The operator on a reliable storage\<close>

lemma on_storage_run:
  "m (op_storage w) = (r, s) \<Longrightarrow> on_storage m w = (r, w\<lparr>op_storage := s\<rparr>)"
  by (simp add: on_storage_def zoom_def)

lemma op_storage_same: "w\<lparr>op_storage := op_storage w\<rparr> = w"
  by simp

context storage_laws
begin

text \<open>The circumstances in which chunks are looked for.\<close>

definition ready :: "string \<Rightarrow> 's \<Rightarrow> bool" where
  "ready chunkID s \<longleftrightarrow> ok s \<and> valid_id chunkID \<and> good_levels (readLevels st s) (writeLevel st s) chunkID \<and> clear chunkID s"

lemma ready_path:
  assumes "ready chunkID s" and "l \<in> set (readLevels st s)"
  shows "plain (chunk_file chunkID f l)" and "\<not> isdir s (chunk_file chunkID f l)"
    and "\<not> HasSuffix (chunk_file chunkID f l) ''.tmp''"
proof -
  have l: "valid_id chunkID" "0 \<le> l" "2 * l + 2 < int (length chunkID)"
    using assms by (auto simp: ready_def good_levels_def list_all_iff)
  then show "plain (chunk_file chunkID f l)" by (intro plain_chunk_file) auto
  show "\<not> isdir s (chunk_file chunkID f l)" using assms by (auto simp: ready_def clear_def)
  show "\<not> HasSuffix (chunk_file chunkID f l) ''.tmp''"
  proof
    assume "HasSuffix (chunk_file chunkID f l) ''.tmp''"
    then obtain x where x: "chunk_file chunkID f l = x @ ''.tmp''" by (auto simp: HasSuffix_iff)
    have "last (chunk_file chunkID f l) = CHR ''p''" "CHR ''.'' \<in> set (chunk_file chunkID f l)" unfolding x by simp_all
    moreover have "set (nested n chunkID) \<subseteq> insert (CHR ''/'') (set chunkID)" for n
    proof -
      have "set (filter (\<lambda>c. c \<noteq> CHR ''/'') (nested n chunkID)) = set chunkID"
        using l(1) by (simp add: filter_nested valid_id_def del: set_filter)
      then show ?thesis by auto
    qed
    ultimately show False
      using l(1) by (cases f) (auto simp: chunk_file_def valid_id_def)
  qed
qed

lemma write_level_in: "ready chunkID s \<Longrightarrow> writeLevel st s \<in> set (readLevels st s)"
  by (simp add: ready_def good_levels_def)

lemma ready_FindChunk:
  assumes "ready chunkID s"
  shows "FindChunk st chunkID f s = (case stored_at chunkID f s of
      [] \<Rightarrow> (Inr (Inr (chunk_file chunkID f (writeLevel st s), False, 0)), s)
    | l # _ \<Rightarrow> (Inr (Inr (chunk_file chunkID f l, True, int (length (the (content s (chunk_file chunkID f l)))))), s))"
proof (cases "stored_at chunkID f s")
  case Nil
  with assms FindChunk_missing show ?thesis by (simp add: ready_def)
next
  case (Cons l ls)
  with assms FindChunk_found [of s chunkID f l ls] show ?thesis by (auto simp: ready_def)
qed

lemma stored_at_cong:
  assumes "readLevels st s' = readLevels st s"
    and "\<And>l. l \<in> set (readLevels st s) \<Longrightarrow> content s' (chunk_file chunkID f l) = content s (chunk_file chunkID f l)"
  shows "stored_at chunkID f s' = stored_at chunkID f s"
  using assms by (auto simp: stored_at_def intro!: filter_cong)

lemma stored_at_content:
  "stored_at chunkID f s = l # ls \<Longrightarrow> l \<in> set (readLevels st s) \<and> content s (chunk_file chunkID f l) \<noteq> None"
proof -
  assume "stored_at chunkID f s = l # ls"
  then have "l \<in> set (stored_at chunkID f s)" by simp
  then show ?thesis by (simp add: stored_at_def)
qed

lemma settled_ready:
  assumes "ready chunkID s" and "settled st ok content s c s'"
    and "\<And>q. isdir s' q \<Longrightarrow> isdir s q \<or> (\<exists>a f l r. valid_id a \<and> chunk_file a f l = q @ CHR ''/'' # r)"
  shows "ready chunkID s'"
proof -
  have "\<not> isdir s' (chunk_file chunkID f l)" if "l \<in> set (readLevels st s)" for f l
  proof
    assume "isdir s' (chunk_file chunkID f l)"
    with assms(3) ready_path(2) [OF assms(1) that] obtain a g k r where
      "valid_id a" "chunk_file a g k = chunk_file chunkID f l @ CHR ''/'' # r" by metis
    with chunk_file_no_dir [of a chunkID l] assms(1) that show False
      by (auto simp: ready_def good_levels_def list_all_iff)
  qed
  with assms(1,2) show ?thesis by (simp add: ready_def settled_def clear_def)
qed

lemma settled_files: "settled st ok content s c s' \<Longrightarrow> \<not> HasSuffix q ''.tmp'' \<Longrightarrow> content s' q = c q"
  by (simp add: settled_def)

lemma settled_levels:
  "settled st ok content s c s' \<Longrightarrow> readLevels st s' = readLevels st s \<and> writeLevel st s' = writeLevel st s"
  by (simp add: settled_def)

text \<open>A successful upload of a chunk that was not there puts the encrypted chunk at the write level.\<close>

lemma UploadChunk_stores:
  assumes r: "ready (task_chunkID task) (op_storage w)" and st: "env_storage env = st"
    and new: "stored_at (task_chunkID task) False (op_storage w) = []"
    and up: "UploadChunk env task chunk w = (Inr res, w')"
    and plain: "\<not> task_isMetadata task" "\<not> dryRun (env_config env)"
  shows "res \<and> (\<exists>hash chunk1 chunk2 encrypted.
    GetHash (rt_hashes (env_runtime env)) (env_config env) chunk = Inr (hash, chunk1) \<and>
    Encrypt (rt_hashes (env_runtime env)) (rt_codecs (env_runtime env)) (env_config env)
      (entropies w (entropyCount w)) (ChunkKey (env_config env)) hash False chunk1 = Inr (None, chunk2) \<and>
    chunk_buffer chunk2 = Some encrypted \<and> ready (task_chunkID task) (op_storage w') \<and>
    stored_at (task_chunkID task) False (op_storage w') \<noteq> [] \<and>
    (\<forall>l \<in> set (stored_at (task_chunkID task) False (op_storage w')).
       content (op_storage w') (chunk_file (task_chunkID task) False l) = Some encrypted))"
proof -
  let ?id = "task_chunkID task" and ?s = "op_storage w"
  let ?p = "chunk_file ?id False (writeLevel st ?s)"
  have find: "on_storage (FindChunk st ?id False) w = (Inr (Inr (?p, False, 0)), w)"
    using ready_FindChunk [OF r] new by (simp add: on_storage_run)
  note p = ready_path [OF r write_level_in [OF r], of False]
  from up find plain st obtain hash chunk1 chunk2 encrypted where
    h: "GetHash (rt_hashes (env_runtime env)) (env_config env) chunk = Inr (hash, chunk1)"
    and e: "Encrypt (rt_hashes (env_runtime env)) (rt_codecs (env_runtime env)) (env_config env)
      (entropies w (entropyCount w)) (ChunkKey (env_config env)) hash False chunk1 = Inr (None, chunk2)"
    and b: "GetBytes chunk2 = Inr encrypted" and res
    and u: "bind_st (on_storage (UploadFile st ?p encrypted)) (\<lambda>err.
        if err \<noteq> None then raise_st (LogError ''UPLOAD_CHUNK'')
        else bind_st (complete_upload chunk2 (task_chunkIndex task) (GetLength chunk) (GetLength chunk2)) (\<lambda>_. return_st True))
        (w\<lparr>entropyCount := Suc (entropyCount w)\<rparr>) = (Inr res, w')"
    by (auto simp: UploadChunk_def Let_def op_GetHash_def op_Encrypt_def next_entropy_def lift_res_def bind_st_def
        complete_upload_def split: prod.splits sum.splits if_splits option.splits)
  obtain x s' where s': "UploadFile st ?p encrypted ?s = (Inr x, s')"
    "settled st ok content ?s (if x = None then (content ?s)(?p \<mapsto> encrypted) else content ?s) s'"
    "\<And>q. isdir s' q \<Longrightarrow> isdir ?s q \<or> (\<exists>r. ?p = q @ CHR ''/'' # r)"
    using upload_file [OF _ p] r unfolding ready_def by blast
  with u have x: "x = None" and w': "op_storage w' = s'"
    by (auto simp: on_storage_def zoom_def bind_st_def complete_upload_def split: if_splits)
  have "ready ?id s'"
    using settled_ready [OF r s'(2)] s'(3) r unfolding ready_def by metis
  moreover have "content s' ?p = Some encrypted" using settled_files [OF s'(2) p(3)] x by simp
  then have "writeLevel st ?s \<in> set (stored_at ?id False s')"
    using write_level_in [OF r] settled_levels [OF s'(2)] by (simp add: stored_at_def)
  moreover have "content s' (chunk_file ?id False l) = Some encrypted" if "l \<in> set (stored_at ?id False s')" for l
  proof -
    from that have l: "l \<in> set (readLevels st ?s)" "content s' (chunk_file ?id False l) \<noteq> None"
      using settled_levels [OF s'(2)] by (auto simp: stored_at_def)
    moreover have "content ?s (chunk_file ?id False l) = None"
      using l(1) new by (auto simp: stored_at_def filter_empty_conv)
    ultimately show ?thesis using settled_files [OF s'(2) ready_path(3) [OF r l(1)]] x by (auto split: if_splits)
  qed
  moreover have "chunk_buffer chunk2 = Some encrypted" using b by (auto simp: GetBytes_def split: option.splits)
  ultimately show ?thesis using h e w' \<open>res\<close> by (metis empty_iff list.set(1))
qed

text \<open>What the storage has at the place where the chunk is found first: the chunk itself, or else
  its fossil.\<close>

definition found :: "string \<Rightarrow> 's \<Rightarrow> bytes option" where
  "found chunkID s = (case (stored_at chunkID False s, stored_at chunkID True s) of
      (l # _, _) \<Rightarrow> content s (chunk_file chunkID False l)
    | ([], l # _) \<Rightarrow> content s (chunk_file chunkID True l)
    | ([], []) \<Rightarrow> None)"

text \<open>If the file that is found decrypts to the right content, it is delivered.\<close>

lemma DownloadChunk_found:
  assumes r: "ready (task_chunkID task) (op_storage w)" and st: "env_storage env = st"
    and f: "found (task_chunkID task) (op_storage w) = Some encrypted" and m: "\<not> task_isMetadata task"
    and d: "\<And>chunk. chunk_buffer chunk = Some encrypted \<Longrightarrow> \<exists>chunk'.
      Decrypt (rt_hashes (env_runtime env)) (rt_codecs (env_runtime env)) (rt_arm64 (env_runtime env))
        (rt_hmacsha256 (env_runtime env)) (env_config env) (ChunkKey (env_config env)) (task_chunkHash task) chunk =
        Inr (None, False, chunk') \<and> chunk_buffer chunk' = Some bs"
    and id: "NewKeyedHasher (rt_hashes (env_runtime env)) (env_config env) (HashKey (env_config env)) = Inr h"
      "NewKeyedHasher (rt_hashes (env_runtime env)) (env_config env) (IDKey (env_config env)) = Inr g"
      "task_chunkID task = hex_encode (g (h bs))"
  shows "\<exists>chunk. DownloadChunk env task w =
      (Inr chunk, w\<lparr>downloadedChunkSize := downloadedChunkSize w + int (length bs)\<rparr>) \<and> chunk_buffer chunk = Some bs"
proof -
  let ?id = "task_chunkID task" and ?s = "op_storage w"
  have s: "ok ?s" using r by (simp add: ready_def)
  obtain chunkPath fossilPath filePath where
    loc: "locate_chunk env ?id [] w = (Inr (Inr (Some (chunkPath, fossilPath, filePath))), w)"
    and path: "content ?s filePath = Some encrypted"
    using f ready_FindChunk [OF r] st
    by (auto simp: locate_chunk_def found_def bind_st_run on_storage_run split: list.splits)
  define c0 where "c0 = reset_download env task (CreateChunk True\<lparr>chunk_isMetadata := task_isMetadata task\<rparr>)"
  have c0: "chunk_buffer (chunk_Write encrypted c0) = Some encrypted" "blank (chunk_Write encrypted c0)"
    "chunk_isMetadata (chunk_Write encrypted c0) = False"
    using m by (auto simp: c0_def reset_download_def Reset_def CreateChunk_def chunk_Write_def blank_def Let_def)
  from d [OF c0(1)] obtain c1 where
    c1: "Decrypt (rt_hashes (env_runtime env)) (rt_codecs (env_runtime env)) (rt_arm64 (env_runtime env))
      (rt_hmacsha256 (env_runtime env)) (env_config env) (ChunkKey (env_config env)) (task_chunkHash task)
      (chunk_Write encrypted c0) = Inr (None, False, c1)" "chunk_buffer c1 = Some bs" by blast
  then have hold: "holds (env_config env) bs c1 \<and> chunk_isMetadata c1 = False"
    using c0(2,3) by (elim Decrypt_forms) (auto simp: holds_def blank_def)
  obtain c2 where c2: "GetID (rt_hashes (env_runtime env)) (env_config env) c1 = Inr (?id, c2)"
    "chunk_buffer c2 = Some bs" "chunk_isMetadata c2 = False"
    using hold c1(2) id
    by (simp add: GetID_def holds_GetHash holds_def)
  have "download_loop env task MaxDownloadAttempts [] c0 w = (Inr (Inr c2), w)"
    using loc download_file [OF s path] c1 c2 st
    by (simp add: MaxDownloadAttempts_def numeral_3_eq_3 download_attempt_def bind_st_run on_storage_run
        check_download_def op_Decrypt_def op_GetID_def lift_res_def Let_def)
  with c2(2,3) m show ?thesis
    by (simp add: DownloadChunk_def c0_def bind_st_run GetLength_def)
qed

text \<open>Fossilizing the chunk renames the file that is found first.\<close>

lemma butlast_chunk_file:
  "valid_id a \<Longrightarrow> butlast (split_slash (chunk_file a f l)) = butlast (split_slash (chunk_file a g l))"
  by (simp add: split_chunk_file)

lemma Fossilize_run:
  assumes r: "ready chunkID (op_storage w)" and st: "env_storage env = st"
    and l: "stored_at chunkID False (op_storage w) = l # ls"
    and b: "content (op_storage w) (chunk_file chunkID False l) = Some b"
  shows "\<exists>s'. Fossilize env chunkID [] w =
      (Inr (), w\<lparr>op_storage := s', fossils := fossils w @ [chunk_file chunkID True l]\<rparr>) \<and>
    isdir s' = isdir (op_storage w) \<and> settled st ok content (op_storage w)
      ((content (op_storage w))(chunk_file chunkID False l := None, chunk_file chunkID True l \<mapsto> b)) s'"
proof -
  let ?s = "op_storage w" and ?p = "chunk_file chunkID False l" and ?q = "chunk_file chunkID True l"
  have lv: "l \<in> set (readLevels st ?s)" and s: "ok ?s" "valid_id chunkID"
    using stored_at_content [OF l] r by (auto simp: ready_def)
  note q = ready_path [OF r lv, of True]
  have q_eq: "?p @ ''.fsl'' = ?q" by (simp add: fossil_path)
  obtain e s' where mv: "MoveFile st ?p ?q ?s = (Inr e, s')" "isdir s' = isdir ?s"
    "settled st ok content ?s (if e = None then (content ?s)(?p := None, ?q \<mapsto> b) else content ?s) s'"
    using move_file [OF s(1) b q(1,2)] by blast
  have "e = None"
    using move_sibling [OF s(1) _ q(1,2), of ?p] b butlast_chunk_file [OF s(2)] mv(1) by simp
  with mv have "Fossilize env chunkID [] w = (Inr (), w\<lparr>op_storage := s', fossils := fossils w @ [?q]\<rparr>)"
    using ready_FindChunk [OF r, of False] l st
    by (simp add: Fossilize_def Run_def chunk_task_def task_path_def bind_st_run on_storage_run
        fossilize_chunk_def q_eq Let_def add_fossil_def)
  with mv \<open>e = None\<close> show ?thesis by auto
qed

lemma Resurrect_run:
  assumes r: "ready chunkID (op_storage w)" and st: "env_storage env = st"
    and none: "stored_at chunkID False (op_storage w) = []"
    and l: "l = writeLevel st (op_storage w)"
    and b: "content (op_storage w) (chunk_file chunkID True l) = Some b"
  shows "\<exists>s'. Resurrect env chunkID (chunk_file chunkID True l) w = (Inr (), w\<lparr>op_storage := s'\<rparr>) \<and>
    isdir s' = isdir (op_storage w) \<and> settled st ok content (op_storage w)
      ((content (op_storage w))(chunk_file chunkID True l := None, chunk_file chunkID False l \<mapsto> b)) s'"
proof -
  let ?s = "op_storage w" and ?q = "chunk_file chunkID False l" and ?p = "chunk_file chunkID True l"
  have lv: "l \<in> set (readLevels st ?s)" and s: "ok ?s" "valid_id chunkID"
    using write_level_in [OF r] l r by (auto simp: ready_def)
  note q = ready_path [OF r lv, of False]
  obtain e s' where mv: "MoveFile st ?p ?q ?s = (Inr e, s')" "isdir s' = isdir ?s"
    "settled st ok content ?s (if e = None then (content ?s)(?p := None, ?q \<mapsto> b) else content ?s) s'"
    using move_file [OF s(1) b q(1,2)] by blast
  have "e = None"
    using move_sibling [OF s(1) _ q(1,2), of ?p] b butlast_chunk_file [OF s(2)] mv(1) by simp
  with mv have "Resurrect env chunkID ?p w = (Inr (), w\<lparr>op_storage := s'\<rparr>)"
    using ready_FindChunk [OF r, of False] none st l
    by (simp add: Resurrect_def Run_def chunk_task_def bind_st_run on_storage_run resurrect_chunk_def)
  with mv \<open>e = None\<close> show ?thesis by auto
qed

end

context storage_laws
begin

lemma found_stored:
  assumes "stored_at chunkID False s \<noteq> []"
    and "\<forall>l \<in> set (stored_at chunkID False s). content s (chunk_file chunkID False l) = Some b"
  shows "found chunkID s = Some b"
  using assms by (cases "stored_at chunkID False s") (auto simp: found_def)

lemma Fossilize_found:
  assumes r: "ready chunkID (op_storage w)" and st: "env_storage env = st"
    and stored: "stored_at chunkID False (op_storage w) \<noteq> []"
      "\<forall>l \<in> set (stored_at chunkID False (op_storage w)). content (op_storage w) (chunk_file chunkID False l) = Some b"
    and none: "stored_at chunkID True (op_storage w) = []"
  shows "\<exists>w'. Fossilize env chunkID [] w = (Inr (), w') \<and> ready chunkID (op_storage w') \<and>
    found chunkID (op_storage w') = Some b"
proof -
  let ?s = "op_storage w"
  obtain k ks where k: "stored_at chunkID False ?s = k # ks" using stored(1) by (cases "stored_at chunkID False ?s") auto
  with stored(2) have bk: "content ?s (chunk_file chunkID False k) = Some b" by simp
  let ?p = "chunk_file chunkID False k" and ?q = "chunk_file chunkID True k"
  obtain s' where run: "Fossilize env chunkID [] w = (Inr (), w\<lparr>op_storage := s', fossils := fossils w @ [?q]\<rparr>)"
    and dirs: "isdir s' = isdir ?s"
    and set: "settled st ok content ?s ((content ?s)(?p := None, ?q \<mapsto> b)) s'"
    using Fossilize_run [OF r st k bk] by blast
  note lv = settled_levels [OF set]
  have c: "content s' (chunk_file chunkID f l) = ((content ?s)(?p := None, ?q \<mapsto> b)) (chunk_file chunkID f l)"
    if "l \<in> set (readLevels st ?s)" for f l
    using settled_files [OF set ready_path(3) [OF r that]] .
  have ne: "chunk_file chunkID False l \<noteq> ?q" for l
    using chunk_file_eq_iff [of chunkID chunkID False l True k] r by (auto simp: ready_def)
  have "found chunkID s' = Some b"
  proof (cases "stored_at chunkID False s'")
    case Nil
    have two: "content s' (chunk_file chunkID True l) = Some b \<or> content s' (chunk_file chunkID True l) = None"
      if "l \<in> set (readLevels st ?s)" for l
      using c [OF that, of True] none that ne by (auto simp: stored_at_def filter_empty_conv)
    have kl: "k \<in> set (readLevels st ?s)" using stored_at_content [OF k] by simp
    then have "k \<in> set (stored_at chunkID True s')" using c [OF kl, of True] lv by (simp add: stored_at_def)
    then obtain j js where j: "stored_at chunkID True s' = j # js" by (cases "stored_at chunkID True s'") auto
    with two [of j] stored_at_content [OF j] lv Nil show ?thesis by (auto simp: found_def)
  next
    case (Cons l ls)
    with stored_at_content [OF Cons] lv have l: "l \<in> set (readLevels st ?s)" "content s' (chunk_file chunkID False l) \<noteq> None"
      by simp_all
    with c [OF l(1), of False] ne have "content s' (chunk_file chunkID False l) = content ?s (chunk_file chunkID False l)"
      "content ?s (chunk_file chunkID False l) \<noteq> None" by (auto split: if_splits)
    moreover from this l(1) have "l \<in> set (stored_at chunkID False ?s)" by (simp add: stored_at_def)
    ultimately show ?thesis using stored(2) Cons by (simp add: found_def)
  qed
  moreover have "ready chunkID s'" by (rule settled_ready [OF r set]) (simp add: dirs)
  ultimately show ?thesis using run by simp
qed

end

lemma hex_digit_plain: "d < 16 \<Longrightarrow> hex_digit d \<noteq> CHR ''/'' \<and> hex_digit d \<noteq> CHR ''.''"
proof -
  assume "d < 16"
  then have "(of_char (hex_digit d) :: nat) \<noteq> of_char (CHR ''/'')" "(of_char (hex_digit d) :: nat) \<noteq> of_char (CHR ''.'')"
    by (simp_all add: hex_digit_def)
  then show ?thesis by metis
qed

lemma valid_id_hex: "valid_id (hex_encode b)"
proof (induction b)
  case (Cons x b)
  have "unat x div 16 < 16" "unat x mod 16 < 16" using unat_byte_less [of x] by simp_all
  with Cons show ?case
    using hex_digit_plain [of "unat x div 16"] hex_digit_plain [of "unat x mod 16"] by (auto simp: valid_id_def)
qed (simp add: valid_id_def)

section \<open>Properties on the file storage\<close>

text \<open>The circumstances of an upload: an id computed by working hashers, nesting levels that fit it,
  no directories in the place of chunk files, codecs that behave as documented.\<close>

definition upload_setting :: "file_storage operator_env \<Rightarrow> file_storage operator_state \<Rightarrow> bytes \<Rightarrow> bytes \<Rightarrow> string \<Rightarrow> bool" where
  "upload_setting env w content hash chunkID \<longleftrightarrow>
     env_storage env = FileStorage \<and> \<not> dryRun (env_config env) \<and> \<not> rt_hmacsha256 (env_runtime env) \<and>
     (\<exists>h g. NewKeyedHasher (rt_hashes (env_runtime env)) (env_config env) (HashKey (env_config env)) = Inr h \<and>
        NewKeyedHasher (rt_hashes (env_runtime env)) (env_config env) (IDKey (env_config env)) = Inr g \<and>
        hash = h content \<and> chunkID = hex_encode (g hash)) \<and>
     codec_setting (rt_hashes (env_runtime env)) (rt_codecs (env_runtime env)) (env_config env)
       (entropies w (entropyCount w)) (ChunkKey (env_config env)) hash \<and>
     disk.ready chunkID (op_storage w)"

lemma upload_setting_run:
  assumes set: "upload_setting env w content hash chunkID"
    and chunk: "holds (env_config env) content chunk" "chunk_buffer chunk = Some content"
    and new: "disk.stored_at chunkID False (op_storage w) = []"
    and up: "Upload env chunk idx False w = (Inr (), w1)"
    and small: "\<forall>p b. file_content (op_storage w1) p = Some b \<longrightarrow> length b < 2 ^ 63"
  shows "\<exists>encrypted. disk.ready chunkID (op_storage w1) \<and> disk.stored_at chunkID False (op_storage w1) \<noteq> [] \<and>
    (\<forall>l \<in> set (disk.stored_at chunkID False (op_storage w1)).
       file_content (op_storage w1) (chunk_file chunkID False l) = Some encrypted) \<and>
    (\<forall>c. chunk_buffer c = Some encrypted \<longrightarrow> (\<exists>c'. Decrypt (rt_hashes (env_runtime env)) (rt_codecs (env_runtime env))
        (rt_arm64 (env_runtime env)) (rt_hmacsha256 (env_runtime env)) (env_config env) (ChunkKey (env_config env)) hash c =
        Inr (None, False, c') \<and> chunk_buffer c' = Some content))"
proof -
  let ?hs = "rt_hashes (env_runtime env)" and ?config = "env_config env"
  from set obtain h g where s: "env_storage env = FileStorage" "\<not> dryRun ?config" "\<not> rt_hmacsha256 (env_runtime env)"
    "NewKeyedHasher ?hs ?config (HashKey ?config) = Inr h" "NewKeyedHasher ?hs ?config (IDKey ?config) = Inr g"
    "hash = h content" "chunkID = hex_encode (g hash)" "disk.ready chunkID (op_storage w)"
    and codec: "codec_setting ?hs (rt_codecs (env_runtime env)) ?config
      (entropies w (entropyCount w)) (ChunkKey ?config) hash"
    by (auto simp: upload_setting_def)
  let ?task = "\<lparr>operation = ChunkOperationUpload, task_chunkID = chunkID, task_chunkHash = hash, task_chunkIndex = idx,
    task_filePath = [], task_isMetadata = False, task_chunk = Some (chunk\<lparr>chunk_hash := hash\<rparr>)\<rparr>"
  have "Upload env chunk idx False w =
      bind_st (bind_st (UploadChunk env ?task (chunk\<lparr>chunk_hash := hash\<rparr>)) (\<lambda>_. return_st (None :: chunk option))) (\<lambda>_. return_st ()) w"
    using s holds_GetHash [OF chunk(1) s(4)]
    by (simp add: Upload_def op_GetHash_def GetChunkIDFromHash_def Run_def lift_res_def)
  with up obtain res where u: "UploadChunk env ?task (chunk\<lparr>chunk_hash := hash\<rparr>) w = (Inr res, w1)"
    by (auto elim!: bind_st_InrE)
  from disk.UploadChunk_stores [OF _ s(1) _ u] s new obtain hash' c1 c2 encrypted where
    hash': "GetHash ?hs ?config (chunk\<lparr>chunk_hash := hash\<rparr>) = Inr (hash', c1)"
    and e: "Encrypt ?hs (rt_codecs (env_runtime env)) ?config (entropies w (entropyCount w)) (ChunkKey ?config) hash' False c1 =
      Inr (None, c2)"
    and b: "chunk_buffer c2 = Some encrypted" and r: "disk.ready chunkID (op_storage w1)"
    and st: "disk.stored_at chunkID False (op_storage w1) \<noteq> []"
      "\<forall>l \<in> set (disk.stored_at chunkID False (op_storage w1)).
       file_content (op_storage w1) (chunk_file chunkID False l) = Some encrypted"
    by auto
  have h': "hash' = hash \<and> chunk_buffer c1 = Some content"
    using hash' chunk s(4,6) by (auto simp: GetHash_def hasher_Sum_def holds_def bind_res_Inr_iff split: if_splits)
  obtain l where "l \<in> set (disk.stored_at chunkID False (op_storage w1))" using st(1) by (meson last_in_set)
  with st(2) small have "length encrypted < 2 ^ 63" by blast
  then have len: "GetLength c2 < 2 ^ 63" using b by (simp add: GetLength_def)
  have "\<exists>c'. Decrypt ?hs (rt_codecs (env_runtime env)) (rt_arm64 (env_runtime env)) (rt_hmacsha256 (env_runtime env))
      ?config (ChunkKey ?config) hash c = Inr (None, False, c') \<and> chunk_buffer c' = Some content"
    if "chunk_buffer c = Some encrypted" for c
    using encrypted_decrypts [OF codec, of c1 content False c2 c "rt_arm64 (env_runtime env)"] h' e len b that s(3) by auto
  with r st show ?thesis by blast
qed


text \<open>C25: A chunk stored at the write level that is fossilized and then resurrected is back in its
  place: the contents of the storage are those from before, except for temporary files, and the fossil was recorded.\<close>

theorem Fossilize_Resurrect:
  assumes "env_storage env = FileStorage" and "disk.ready chunkID (op_storage w)"
    and "disk.stored_at chunkID False (op_storage w) = [baseWriteLevel (op_storage w)]"
    and "disk.stored_at chunkID True (op_storage w) = []"
  defines "fossil \<equiv> chunk_file chunkID True (baseWriteLevel (op_storage w))"
  shows "\<exists>w1 w2. Fossilize env chunkID [] w = (Inr (), w1) \<and> fossils w1 = fossils w @ [fossil] \<and>
    disk.stored_at chunkID False (op_storage w1) = [] \<and>
    Resurrect env chunkID fossil w1 = (Inr (), w2) \<and>
    (\<forall>q. \<not> HasSuffix q ''.tmp'' \<longrightarrow> file_content (op_storage w2) q = file_content (op_storage w) q)"
proof -
  let ?s = "op_storage w" and ?l = "baseWriteLevel (op_storage w)"
  let ?p = "chunk_file chunkID False ?l"
  note r = assms(2)
  have l: "?l \<in> set (baseReadLevels ?s)" using disk.write_level_in [OF r] by simp
  obtain b where b: "file_content ?s ?p = Some b" using disk.stored_at_content [OF assms(3)] by auto
  have none: "file_content ?s fossil = None"
    using assms(4) l by (auto simp: disk.stored_at_def filter_empty_conv fossil_def)
  have ne: "?p \<noteq> fossil" using chunk_file_eq_iff [of chunkID chunkID False ?l True ?l] r
    by (auto simp: disk.ready_def fossil_def)
  obtain s1 where f: "Fossilize env chunkID [] w = (Inr (), w\<lparr>op_storage := s1, fossils := fossils w @ [fossil]\<rparr>)"
    "file_isdir s1 = file_isdir ?s"
    "settled FileStorage file_ok file_content ?s ((file_content ?s)(?p := None, fossil \<mapsto> b)) s1"
    using disk.Fossilize_run [OF r assms(1,3) b] unfolding fossil_def by blast
  let ?w1 = "w\<lparr>op_storage := s1, fossils := fossils w @ [fossil]\<rparr>"
  note lv = disk.settled_levels [OF f(3)]
  have r1: "disk.ready chunkID (op_storage ?w1)" using disk.settled_ready [OF r f(3)] f(2) by simp
  have c1: "file_content s1 q = ((file_content ?s)(?p := None, fossil \<mapsto> b)) q" if "\<not> HasSuffix q ''.tmp''" for q
    using disk.settled_files [OF f(3) that] .
  have "file_content s1 (chunk_file chunkID False k) = None" if k: "k \<in> set (baseReadLevels ?s)" for k
  proof -
    have "chunk_file chunkID False k \<noteq> fossil"
      using chunk_file_eq_iff [of chunkID chunkID False k True ?l] r by (auto simp: disk.ready_def fossil_def)
    moreover have "file_content ?s (chunk_file chunkID False k) = None \<or> k = ?l"
    proof -
      have "k \<in> set (disk.stored_at chunkID False ?s) \<or> file_content ?s (chunk_file chunkID False k) = None"
        using k by (cases "file_content ?s (chunk_file chunkID False k)") (simp_all add: disk.stored_at_def)
      with assms(3) show ?thesis by auto
    qed
    ultimately show ?thesis using c1 [OF disk.ready_path(3) [OF r]] k by auto
  qed
  then have st1: "disk.stored_at chunkID False (op_storage ?w1) = []"
    using lv by (simp add: disk.stored_at_def filter_empty_conv)
  have b1: "file_content (op_storage ?w1) (chunk_file chunkID True ?l) = Some b"
    using c1 [of fossil] disk.ready_path(3) [OF r, of ?l True] l by (simp add: fossil_def)
  obtain s2 where res: "Resurrect env chunkID fossil ?w1 = (Inr (), ?w1\<lparr>op_storage := s2\<rparr>)"
    "settled FileStorage file_ok file_content s1 ((file_content s1)(fossil := None, ?p \<mapsto> b)) s2"
    using disk.Resurrect_run [OF r1 assms(1) st1 _ b1] lv unfolding fossil_def by auto
  have "file_content s2 q = file_content ?s q" if "\<not> HasSuffix q ''.tmp''" for q
    using disk.settled_files [OF res(2) that] c1 [OF that] b none ne by auto
  with f(1) res(1) st1 show ?thesis by auto
qed

section \<open>Witnesses\<close>

definition long_hashes :: hashes where
  "long_hashes = \<lparr>blake2_keyed = (\<lambda>k. Some (\<lambda>b. take 8 (b @ replicate 8 1))), hmac_sha256 = (\<lambda>k b. b),
     blake2 = id, sha256 = id\<rparr>"

definition sample_env :: "file_storage operator_env" where
  "sample_env = \<lparr>env_runtime = \<lparr>rt_hashes = long_hashes, rt_codecs = sample_codecs, rt_arm64 = False, rt_hmacsha256 = False\<rparr>,
     env_storage = FileStorage, env_config = CreateConfig, rewriteChunks = False, allowFailures = False\<rparr>"

definition sample_state :: "file_storage operator_state" where
  "sample_state = \<lparr>op_storage = sample_store, snapshotCache = None, fossils = [], NumberOfFailedChunks = 0,
     downloadedChunkSize = 0, completed = [], entropies = (\<lambda>i. sample_entropy), entropyCount = 0\<rparr>"

definition sample_content :: bytes where "sample_content = [7, 8]"

definition sample_hash :: bytes where "sample_hash = [7, 8, 1, 1, 1, 1, 1, 1]"

definition sample_id :: string where "sample_id = ''0708010101010101''"

definition filled_chunk :: chunk where
  "filled_chunk = chunk_Write sample_content (Reset CreateConfig True (CreateChunk True))"

definition uploaded_state :: "file_storage operator_state" where
  "uploaded_state = snd (Upload sample_env filled_chunk 0 False sample_state)"

lemma small_files:
  assumes "list_all (\<lambda>(q, n). case n of File b \<Rightarrow> length b < 100 | Dir \<Rightarrow> True) (fileTree s)"
  shows "\<forall>p b. file_content s p = Some b \<longrightarrow> length b < 2 ^ 63"
proof (intro allI impI)
  fix p b
  assume "file_content s p = Some b"
  then have "(path_Join (storageDir s) p, File b) \<in> set (fileTree s)"
    by (auto simp: file_content_def content_at_Some at_path_def dest: map_of_SomeD split: if_splits)
  with assms have "length b < 100" by (auto simp: list_all_iff)
  also have "(100 :: nat) < 2 ^ 63" by simp
  finally show "length b < 2 ^ 63" .
qed

lemma sample_ready: "disk.ready sample_id sample_store"
proof -
  have "valid_id sample_id" "good_levels (baseReadLevels sample_store) (baseWriteLevel sample_store) sample_id"
    by code_simp+
  moreover have "\<forall>f. \<forall>l \<in> set (baseReadLevels sample_store). \<not> file_isdir sample_store (chunk_file sample_id f l)"
    by code_simp
  ultimately show ?thesis by (simp add: disk.ready_def disk.clear_def sample_store_ok)
qed

lemma sample_upload_setting: "upload_setting sample_env sample_state sample_content sample_hash sample_id"
proof -
  have "sample_hash = take 8 (sample_content @ replicate 8 1)" "sample_id = hex_encode (take 8 (sample_hash @ replicate 8 1))"
    by code_simp+
  moreover have "codec_setting long_hashes sample_codecs CreateConfig sample_entropy [] sample_hash"
    using sample_setting(1)
    by (simp add: codec_setting_def derived_key_def CreateConfig_def zero_config_def NewKeyedHasher_def long_hashes_def level_defs)
  ultimately show ?thesis
    using sample_ready
    by (simp add: upload_setting_def sample_env_def sample_state_def CreateConfig_def zero_config_def
        NewKeyedHasher_def long_hashes_def level_defs)
qed

lemma sample_uploaded: "Upload sample_env filled_chunk 0 False sample_state = (Inr (), uploaded_state)"
proof -
  have "fst (Upload sample_env filled_chunk 0 False sample_state) = Inr ()" by code_simp
  then show ?thesis unfolding uploaded_state_def by (metis prod.collapse)
qed

lemma sample_upload_facts:
  "holds (env_config sample_env) sample_content filled_chunk" "chunk_buffer filled_chunk = Some sample_content"
  "disk.stored_at sample_id False (op_storage sample_state) = []"
  "disk.stored_at sample_id True (op_storage uploaded_state) = []"
  "\<forall>p b. file_content (op_storage uploaded_state) p = Some b \<longrightarrow> length b < 2 ^ 63"
proof -
  have "holds CreateConfig ([] @ sample_content) filled_chunk"
    unfolding filled_chunk_def by (rule holds_Write [OF holds_Reset])
  then show "holds (env_config sample_env) sample_content filled_chunk" by (simp add: sample_env_def)
  show "chunk_buffer filled_chunk = Some sample_content" by code_simp
  show "disk.stored_at sample_id False (op_storage sample_state) = []"
    unfolding disk.stored_at_def by code_simp
  show "disk.stored_at sample_id True (op_storage uploaded_state) = []"
    unfolding disk.stored_at_def by code_simp
  show "\<forall>p b. file_content (op_storage uploaded_state) p = Some b \<longrightarrow> length b < 2 ^ 63"
    by (rule small_files) code_simp
qed


theorem DownloadChunk_integrity_witness:
  "\<exists>chunk w'. DownloadChunk sample_env (chunk_task ChunkOperationDownload sample_id []\<lparr>task_chunkHash := sample_hash\<rparr>)
     uploaded_state = (Inr chunk, w') \<and> has_id sample_env sample_id chunk"
proof -
  let ?task = "chunk_task ChunkOperationDownload sample_id []\<lparr>task_chunkHash := sample_hash\<rparr>"
  have "case fst (DownloadChunk sample_env ?task uploaded_state) of Inr c \<Rightarrow> \<not> chunk_isBroken c | Inl e \<Rightarrow> False"
    by code_simp
  then obtain chunk w' where "DownloadChunk sample_env ?task uploaded_state = (Inr chunk, w')" "\<not> chunk_isBroken chunk"
    by (cases "DownloadChunk sample_env ?task uploaded_state") (auto split: sum.splits)
  with DownloadChunk_integrity [OF this(1)] show ?thesis by (simp add: chunk_task_def)
qed

theorem Fossilize_Resurrect_witness:
  "\<exists>w1 w2. Fossilize sample_env sample_id [] uploaded_state = (Inr (), w1) \<and>
    fossils w1 = [''chunks/07/08/010101010101.fsl''] \<and>
    Resurrect sample_env sample_id ''chunks/07/08/010101010101.fsl'' w1 = (Inr (), w2) \<and>
    (\<forall>q. \<not> HasSuffix q ''.tmp'' \<longrightarrow> file_content (op_storage w2) q = file_content (op_storage uploaded_state) q)"
proof -
  have "env_storage sample_env = FileStorage" by (simp add: sample_env_def)
  moreover have "disk.ready sample_id (op_storage uploaded_state)"
    using upload_setting_run [OF sample_upload_setting sample_upload_facts(1-3) sample_uploaded sample_upload_facts(5)] by blast
  moreover have "disk.stored_at sample_id False (op_storage uploaded_state) = [baseWriteLevel (op_storage uploaded_state)]"
    "disk.stored_at sample_id True (op_storage uploaded_state) = []"
    unfolding disk.stored_at_def by code_simp+
  moreover have "chunk_file sample_id True (baseWriteLevel (op_storage uploaded_state)) = ''chunks/07/08/010101010101.fsl''"
    "fossils uploaded_state = []" by code_simp+
  ultimately show ?thesis using Fossilize_Resurrect [of sample_env sample_id uploaded_state] by auto
qed

end
