(* ===== verification/Snapshot.thy ===== *)
theory Snapshot
  imports Entry
begin

text \<open>
  The snapshot of \<open>duplicacy_snapshot.go\<close>: the struct, its JSON description and the chunk
  sequences it is loaded from.

  The package \<open>encoding/json\<close> is a parameter, a pair of functions between documents (\<open>json\<close>)
  and bytes; what is made of a document is modelled here. A number of a document is an integer;
  decoded into an \<open>interface{}\<close> it becomes a \<open>float64\<close>, that is, it is rounded to 53 significant
  bits, and a conversion to \<open>int\<close> of a value out of range gives the smallest integer, as on amd64.
  Hashes are binary strings and are kept as lists of bytes.
\<close>

section \<open>JSON documents\<close>

datatype json =
    JNull
  | JBool bool
  | JNumber int
  | JString string
  | JArray "json list"
  | JObject "(string \<times> json) list"

record json_codec =
  json_Marshal :: "json \<Rightarrow> goerror + bytes"
  json_Unmarshal :: "bytes \<Rightarrow> goerror + json"

text \<open>The package restores the document. This is documented for objects with distinct keys and
  strings that are valid UTF-8.\<close>

definition json_faithful :: "json_codec \<Rightarrow> json \<Rightarrow> bool" where
  "json_faithful codec v \<longleftrightarrow> (\<forall>bs. json_Marshal codec v = Inr bs \<longrightarrow> json_Unmarshal codec bs = Inr v)"

text \<open>Decoding into a \<open>map[string]interface{}\<close> and into a \<open>[]interface{}\<close>: \<open>null\<close> is the nil
  value. The last of several fields with the same key counts.\<close>

definition unmarshal_object :: "json_codec \<Rightarrow> bytes \<Rightarrow> goerror + (string \<times> json) list" where
  "unmarshal_object codec bs =
     bind_res (json_Unmarshal codec bs) (\<lambda>v.
       case v of JObject kvs \<Rightarrow> Inr kvs | JNull \<Rightarrow> Inr []
       | _ \<Rightarrow> Inl (GoErr ''json: cannot unmarshal into Go value''))"

definition unmarshal_array :: "json_codec \<Rightarrow> bytes \<Rightarrow> goerror + json list" where
  "unmarshal_array codec bs =
     bind_res (json_Unmarshal codec bs) (\<lambda>v.
       case v of JArray vs \<Rightarrow> Inr vs | JNull \<Rightarrow> Inr []
       | _ \<Rightarrow> Inl (GoErr ''json: cannot unmarshal into Go value''))"

definition object_field :: "(string \<times> json) list \<Rightarrow> string \<Rightarrow> json option" where
  "object_field kvs key = map_of (rev kvs) key"

section \<open>Numbers as float64\<close>

text \<open>The number of bits beyond the 53 of the significand, and rounding to nearest, ties to even.\<close>

function excess_bits :: "nat \<Rightarrow> nat" where
  "excess_bits n = (if n < 2 ^ 53 then 0 else Suc (excess_bits (n div 2)))"
  by pat_completeness auto
termination
  by (relation "measure id") auto

declare excess_bits.simps [simp del]

definition round_even :: "nat \<Rightarrow> nat \<Rightarrow> nat" where
  "round_even n e =
     (let q = n div 2 ^ e; r = 2 * (n mod 2 ^ e)
      in if 2 ^ e < r \<or> r = 2 ^ e \<and> odd q then q + 1 else q)"

definition float64_nat :: "nat \<Rightarrow> nat" where
  "float64_nat n = (let e = excess_bits n in round_even n e * 2 ^ e)"

definition float64 :: "int \<Rightarrow> int" where
  "float64 i = (if i < 0 then - int (float64_nat (nat (- i))) else int (float64_nat (nat i)))"

definition int_of_float64 :: "int \<Rightarrow> int" where
  "int_of_float64 f = (if - (2 ^ 63) \<le> f \<and> f < 2 ^ 63 then f else - (2 ^ 63))"

definition exact_number :: "int \<Rightarrow> bool" where
  "exact_number i \<longleftrightarrow> \<bar>i\<bar> < 2 ^ 53"

lemma float64_exact:
  assumes "exact_number i"
  shows "int_of_float64 (float64 i) = i"
proof -
  have "float64_nat (nat \<bar>i\<bar>) = nat \<bar>i\<bar>"
    using assms by (simp add: float64_nat_def excess_bits.simps [of "nat \<bar>i\<bar>"] exact_number_def round_even_def nat_less_iff)
  then have "float64 i = i" by (cases "i < 0") (simp_all add: float64_def)
  moreover have "- (2 ^ 63) \<le> i \<and> i < 2 ^ 63" using assms by (auto simp: exact_number_def abs_less_iff)
  ultimately show ?thesis by (simp add: int_of_float64_def)
qed

section \<open>The snapshot\<close>

record snapshot =
  Version :: int
  ID :: string
  Revision :: int
  Options :: string
  Tag :: string
  StartTime :: int
  EndTime :: int
  FileSize :: int
  NumberOfFiles :: int
  Generator :: string
  OS :: string
  Host :: string
  Top :: string
  FileSequence :: "bytes list"
  ChunkSequence :: "bytes list"
  LengthSequence :: "bytes list"
  ChunkHashes :: "bytes list"
  ChunkLengths :: "int list"
  Flag :: bool

definition zero_snapshot :: snapshot where
  "zero_snapshot =
     \<lparr>Version = 0, ID = [], Revision = 0, Options = [], Tag = [], StartTime = 0, EndTime = 0,
      FileSize = 0, NumberOfFiles = 0, Generator = [], OS = [], Host = [], Top = [],
      FileSequence = [], ChunkSequence = [], LengthSequence = [], ChunkHashes = [],
      ChunkLengths = [], Flag = False\<rparr>"

text \<open>The arguments after the id are the clock, the generator stamp, the operating system and the
  host name.\<close>

definition CreateEmptySnapshot :: "string \<Rightarrow> int \<Rightarrow> string \<Rightarrow> string \<Rightarrow> string \<Rightarrow> snapshot" where
  "CreateEmptySnapshot snapshotID now stamp os hostname =
     zero_snapshot\<lparr>Version := 1, ID := snapshotID, Revision := 0, StartTime := now, Generator := stamp,
       OS := os, Host := hostname\<rparr>"

definition SetSequence :: "string \<Rightarrow> bytes list \<Rightarrow> snapshot \<Rightarrow> snapshot" where
  "SetSequence sequenceType sequence s =
     (if sequenceType = ''files'' then s\<lparr>FileSequence := sequence\<rparr>
      else if sequenceType = ''chunks'' then s\<lparr>ChunkSequence := sequence\<rparr>
      else s\<lparr>LengthSequence := sequence\<rparr>)"

definition encodeSequence :: "bytes list \<Rightarrow> string list" where
  "encodeSequence sequence = map hex_encode sequence"

text \<open>The loops that decode a list of hex strings, with the messages of the two callers.\<close>

fun decode_hashes :: "string \<Rightarrow> string \<Rightarrow> json list \<Rightarrow> goerror + bytes list" where
  "decode_hashes no_string no_hex [] = Inr []"
| "decode_hashes no_string no_hex (JString hashInHex # array) =
     (case hex_decode hashInHex of
        None \<Rightarrow> Inl (GoErr no_hex)
      | Some hash \<Rightarrow> bind_res (decode_hashes no_string no_hex array) (\<lambda>hashes. Inr (hash # hashes)))"
| "decode_hashes no_string no_hex (_ # array) = Inl (GoErr no_string)"

section \<open>The description of a snapshot\<close>

text \<open>A string field and a number field that may be missing and are ignored when of another type,
  and fields of a required type.\<close>

definition string_or_empty :: "json \<Rightarrow> string" where
  "string_or_empty v = (case v of JString x \<Rightarrow> x | _ \<Rightarrow> [])"

definition number_or_zero :: "json \<Rightarrow> int" where
  "number_or_zero v = (case v of JNumber n \<Rightarrow> int_of_float64 (float64 n) | _ \<Rightarrow> 0)"

definition required_number :: "(string \<times> json) list \<Rightarrow> string \<Rightarrow> string \<Rightarrow> goerror + int" where
  "required_number root key what =
     (case object_field root key of
        None \<Rightarrow> Inl (GoErr (''No '' @ what @ '' is specified in the snapshot''))
      | Some (JNumber n) \<Rightarrow> Inr (int_of_float64 (float64 n))
      | Some _ \<Rightarrow> Inl (GoErr (''Invalid '' @ what @ '' is specified in the snapshot'')))"

definition optional_string :: "(string \<times> json) list \<Rightarrow> string \<Rightarrow> string \<Rightarrow> goerror + string" where
  "optional_string root key old =
     (case object_field root key of
        None \<Rightarrow> Inr old
      | Some (JString x) \<Rightarrow> Inr x
      | Some _ \<Rightarrow> Inl (GoErr (''Invalid '' @ key @ '' is specified in the snapshot'')))"

definition sequence_step :: "(string \<times> json) list \<Rightarrow> string \<Rightarrow> snapshot \<Rightarrow> goerror + snapshot" where
  "sequence_step root sequenceType s =
     (case object_field root sequenceType of
        None \<Rightarrow> Inl (GoErr (''No '' @ sequenceType @ '' are specified in the snapshot''))
      | Some (JArray array) \<Rightarrow>
          bind_res (decode_hashes ''Invalid file sequence is specified in the snapshot''
              ''Hash is not a valid hex string in the snapshot'' array) (\<lambda>sequence.
            Inr (SetSequence sequenceType sequence s))
      | Some _ \<Rightarrow> Inl (GoErr (''Invalid '' @ sequenceType @ '' are specified in the snapshot'')))"

definition description_steps :: "(string \<times> json) list \<Rightarrow> (snapshot \<Rightarrow> goerror + snapshot) list" where
  "description_steps root =
    [\<lambda>s. case object_field root ''version'' of
        None \<Rightarrow> Inr (s\<lparr>Version := 0\<rparr>)
      | Some (JNumber n) \<Rightarrow> Inr (s\<lparr>Version := int_of_float64 (float64 n)\<rparr>)
      | Some _ \<Rightarrow> Inl (GoErr ''Invalid version is specified in the snapshot''),
     \<lambda>s. case object_field root ''id'' of
        None \<Rightarrow> Inl (GoErr ''No id is specified in the snapshot'')
      | Some (JString x) \<Rightarrow> Inr (s\<lparr>ID := x\<rparr>)
      | Some _ \<Rightarrow> Inl (GoErr ''Invalid id is specified in the snapshot''),
     \<lambda>s. bind_res (required_number root ''revision'' ''revision'') (\<lambda>n. Inr (s\<lparr>Revision := n\<rparr>)),
     \<lambda>s. bind_res (optional_string root ''tag'' (Tag s)) (\<lambda>x. Inr (s\<lparr>Tag := x\<rparr>)),
     \<lambda>s. bind_res (optional_string root ''options'' (Options s)) (\<lambda>x. Inr (s\<lparr>Options := x\<rparr>)),
     \<lambda>s. bind_res (required_number root ''start_time'' ''creation time'') (\<lambda>n. Inr (s\<lparr>StartTime := n\<rparr>)),
     \<lambda>s. bind_res (required_number root ''end_time'' ''creation time'') (\<lambda>n. Inr (s\<lparr>EndTime := n\<rparr>)),
     \<lambda>s. Inr (case object_field root ''file_size'' of None \<Rightarrow> s | Some v \<Rightarrow> s\<lparr>FileSize := number_or_zero v\<rparr>),
     \<lambda>s. Inr (case object_field root ''number_of_files'' of None \<Rightarrow> s | Some v \<Rightarrow> s\<lparr>NumberOfFiles := number_or_zero v\<rparr>),
     \<lambda>s. Inr (case object_field root ''generator'' of None \<Rightarrow> s | Some v \<Rightarrow> s\<lparr>Generator := string_or_empty v\<rparr>),
     \<lambda>s. Inr (case object_field root ''os'' of None \<Rightarrow> s | Some v \<Rightarrow> s\<lparr>OS := string_or_empty v\<rparr>),
     \<lambda>s. Inr (case object_field root ''host'' of None \<Rightarrow> s | Some v \<Rightarrow> s\<lparr>Host := string_or_empty v\<rparr>),
     \<lambda>s. Inr (case object_field root ''top'' of None \<Rightarrow> s | Some v \<Rightarrow> s\<lparr>Top := string_or_empty v\<rparr>),
     sequence_step root ''files'', sequence_step root ''chunks'', sequence_step root ''lengths'']"

definition CreateSnapshotFromDescription :: "json_codec \<Rightarrow> bytes \<Rightarrow> goerror + snapshot" where
  "CreateSnapshotFromDescription codec description =
     bind_res (unmarshal_object codec description) (\<lambda>root. run_steps (description_steps root) zero_snapshot)"

definition json_strings :: "string list \<Rightarrow> json" where
  "json_strings xs = JArray (map JString xs)"

definition snapshot_object :: "snapshot \<Rightarrow> (string \<times> json) list" where
  "snapshot_object s =
     [(''version'', JNumber (Version s)), (''id'', JString (ID s)), (''revision'', JNumber (Revision s)),
      (''options'', JString (Options s)), (''tag'', JString (Tag s)),
      (''start_time'', JNumber (StartTime s)), (''end_time'', JNumber (EndTime s))] @
     (if FileSize s \<noteq> 0 \<and> NumberOfFiles s \<noteq> 0
      then [(''file_size'', JNumber (FileSize s)), (''number_of_files'', JNumber (NumberOfFiles s))] else []) @
     (if Generator s \<noteq> [] then [(''generator'', JString (Generator s))] else []) @
     [(''os'', JString (OS s))] @
     (if Host s \<noteq> [] then [(''host'', JString (Host s))] else []) @
     (if Top s \<noteq> [] then [(''top'', JString (Top s))] else []) @
     [(''files'', json_strings (encodeSequence (FileSequence s))),
      (''chunks'', json_strings (encodeSequence (ChunkSequence s))),
      (''lengths'', json_strings (encodeSequence (LengthSequence s)))]"

definition MarshalJSON_snapshot :: "json_codec \<Rightarrow> snapshot \<Rightarrow> goerror + bytes" where
  "MarshalJSON_snapshot codec s = json_Marshal codec (JObject (snapshot_object s))"

section \<open>The sequences\<close>

text \<open>A failed load leaves the snapshot partly changed in the program, which gives up then; the
  result is only the error here.\<close>

definition LoadChunks :: "json_codec \<Rightarrow> bytes \<Rightarrow> snapshot \<Rightarrow> goerror + snapshot" where
  "LoadChunks codec description s =
     bind_res (unmarshal_array codec description) (\<lambda>root.
     bind_res (decode_hashes ''Invalid chunk hash is specified in the snapshot''
         ''The chunk hash is not a valid hex string'' root) (\<lambda>hashes.
       Inr (s\<lparr>ChunkHashes := hashes\<rparr>)))"

definition ClearChunks :: "snapshot \<Rightarrow> snapshot" where
  "ClearChunks s = s\<lparr>ChunkHashes := []\<rparr>"

fun decode_lengths :: "json list \<Rightarrow> goerror + int list" where
  "decode_lengths [] = Inr []"
| "decode_lengths (JNumber n # array) =
     (if - (2 ^ 63) \<le> n \<and> n < 2 ^ 63 then bind_res (decode_lengths array) (\<lambda>ns. Inr (n # ns))
      else Inl (GoErr ''json: cannot unmarshal into Go value of type int''))"
| "decode_lengths (JNull # array) = bind_res (decode_lengths array) (\<lambda>ns. Inr (0 # ns))"
| "decode_lengths (_ # array) = Inl (GoErr ''json: cannot unmarshal into Go value of type int'')"

definition LoadLengths :: "json_codec \<Rightarrow> bytes \<Rightarrow> snapshot \<Rightarrow> goerror + snapshot" where
  "LoadLengths codec description s =
     bind_res (unmarshal_array codec description) (\<lambda>root.
     bind_res (decode_lengths root) (\<lambda>lengths. Inr (s\<lparr>ChunkLengths := lengths\<rparr>)))"

definition MarshalSequence :: "json_codec \<Rightarrow> string \<Rightarrow> snapshot \<Rightarrow> goerror + bytes" where
  "MarshalSequence codec sequenceType s =
     json_Marshal codec
       (if sequenceType = ''chunks'' then json_strings (encodeSequence (ChunkHashes s))
        else JArray (map JNumber (ChunkLengths s)))"

section \<open>Round trips\<close>

lemma decode_hashes_encode [simp]:
  "decode_hashes a b (map JString (encodeSequence hashes)) = Inr hashes"
  by (induction hashes) (simp_all add: encodeSequence_def)

lemma decode_lengths_numbers [simp]:
  "\<forall>n \<in> set ns. - (2 ^ 63) \<le> n \<and> n < 2 ^ 63 \<Longrightarrow> decode_lengths (map JNumber ns) = Inr ns"
  by (induction ns) simp_all

text \<open>What the description keeps of a snapshot: everything but the loaded sequences and the flag,
  and the counters only if both are set.\<close>

definition described :: "snapshot \<Rightarrow> snapshot" where
  "described s = s\<lparr>ChunkHashes := [], ChunkLengths := [], Flag := False,
     FileSize := (if FileSize s \<noteq> 0 \<and> NumberOfFiles s \<noteq> 0 then FileSize s else 0),
     NumberOfFiles := (if FileSize s \<noteq> 0 \<and> NumberOfFiles s \<noteq> 0 then NumberOfFiles s else 0)\<rparr>"

definition exact_snapshot :: "snapshot \<Rightarrow> bool" where
  "exact_snapshot s \<longleftrightarrow> list_all exact_number
     [Version s, Revision s, StartTime s, EndTime s, FileSize s, NumberOfFiles s]"

lemma object_field_snapshot:
  "object_field (snapshot_object s) ''version'' = Some (JNumber (Version s))"
  "object_field (snapshot_object s) ''id'' = Some (JString (ID s))"
  "object_field (snapshot_object s) ''revision'' = Some (JNumber (Revision s))"
  "object_field (snapshot_object s) ''options'' = Some (JString (Options s))"
  "object_field (snapshot_object s) ''tag'' = Some (JString (Tag s))"
  "object_field (snapshot_object s) ''start_time'' = Some (JNumber (StartTime s))"
  "object_field (snapshot_object s) ''end_time'' = Some (JNumber (EndTime s))"
  "object_field (snapshot_object s) ''file_size'' =
    (if FileSize s \<noteq> 0 \<and> NumberOfFiles s \<noteq> 0 then Some (JNumber (FileSize s)) else None)"
  "object_field (snapshot_object s) ''number_of_files'' =
    (if FileSize s \<noteq> 0 \<and> NumberOfFiles s \<noteq> 0 then Some (JNumber (NumberOfFiles s)) else None)"
  "object_field (snapshot_object s) ''generator'' = (if Generator s \<noteq> [] then Some (JString (Generator s)) else None)"
  "object_field (snapshot_object s) ''os'' = Some (JString (OS s))"
  "object_field (snapshot_object s) ''host'' = (if Host s \<noteq> [] then Some (JString (Host s)) else None)"
  "object_field (snapshot_object s) ''top'' = (if Top s \<noteq> [] then Some (JString (Top s)) else None)"
  "object_field (snapshot_object s) ''files'' = Some (json_strings (encodeSequence (FileSequence s)))"
  "object_field (snapshot_object s) ''chunks'' = Some (json_strings (encodeSequence (ChunkSequence s)))"
  "object_field (snapshot_object s) ''lengths'' = Some (json_strings (encodeSequence (LengthSequence s)))"
  unfolding object_field_def snapshot_object_def by simp_all

lemma run_description:
  assumes "exact_snapshot s"
  shows "run_steps (description_steps (snapshot_object s)) zero_snapshot = Inr (described s)"
proof -
  have n: "int_of_float64 (float64 (Version s)) = Version s" "int_of_float64 (float64 (Revision s)) = Revision s"
    "int_of_float64 (float64 (StartTime s)) = StartTime s" "int_of_float64 (float64 (EndTime s)) = EndTime s"
    "int_of_float64 (float64 (FileSize s)) = FileSize s" "int_of_float64 (float64 (NumberOfFiles s)) = NumberOfFiles s"
    using assms by (simp_all add: exact_snapshot_def float64_exact)
  show ?thesis
    by (simp add: description_steps_def object_field_snapshot required_number_def optional_string_def
        number_or_zero_def string_or_empty_def sequence_step_def SetSequence_def json_strings_def
        n zero_snapshot_def described_def)
qed

text \<open>C10: The description of a snapshot that is uploaded when a backup is done is read back as the
  same snapshot, whose chunk hashes and lengths are not loaded yet, as long as its numbers are below
  2 to the power of 53; the counters of files and bytes survive only if neither is zero.\<close>

theorem snapshot_description_roundtrip:
  assumes "MarshalJSON_snapshot codec s = Inr bs" and "json_faithful codec (JObject (snapshot_object s))"
    and "exact_snapshot s"
  shows "CreateSnapshotFromDescription codec bs = Inr (described s)"
  using assms run_description
  by (simp add: CreateSnapshotFromDescription_def unmarshal_object_def MarshalJSON_snapshot_def json_faithful_def)

text \<open>The chunk hashes and lengths of a snapshot that are stored as JSON documents are loaded
  again as they were.\<close>

theorem snapshot_sequences_roundtrip:
  assumes "MarshalSequence codec ''chunks'' s = Inr hs" and "MarshalSequence codec ''lengths'' s = Inr ls"
    and "json_faithful codec (json_strings (encodeSequence (ChunkHashes s)))"
    and "json_faithful codec (JArray (map JNumber (ChunkLengths s)))"
    and "\<forall>n \<in> set (ChunkLengths s). - (2 ^ 63) \<le> n \<and> n < 2 ^ 63"
  shows "LoadChunks codec hs t = Inr (t\<lparr>ChunkHashes := ChunkHashes s\<rparr>) \<and>
    LoadLengths codec ls t = Inr (t\<lparr>ChunkLengths := ChunkLengths s\<rparr>)"
  using assms
  by (simp add: MarshalSequence_def LoadChunks_def LoadLengths_def unmarshal_array_def json_faithful_def json_strings_def)

section \<open>Examples\<close>

text \<open>A codec that knows the given documents.\<close>

definition table_codec :: "(json \<times> bytes) list \<Rightarrow> json_codec" where
  "table_codec table =
     \<lparr>json_Marshal = (\<lambda>v. case map_of table v of None \<Rightarrow> Inl (GoErr ''json'') | Some bs \<Rightarrow> Inr bs),
      json_Unmarshal = (\<lambda>bs. case map_of (map (\<lambda>(v, b). (b, v)) table) bs of
         None \<Rightarrow> Inl (GoErr ''json'') | Some v \<Rightarrow> Inr v)\<rparr>"

definition sample_snapshot :: snapshot where
  "sample_snapshot = (CreateEmptySnapshot ''home'' 1700000000 ''dupluxy'' ''linux'' ''host'')
     \<lparr>Revision := 3, EndTime := 1700000060, FileSize := 5, NumberOfFiles := 1, FileSequence := [[1, 2]],
      ChunkSequence := [[3]], LengthSequence := [[255]], ChunkHashes := [[7, 8], [9]], ChunkLengths := [4, 1]\<rparr>"

definition sample_json_codec :: json_codec where
  "sample_json_codec = table_codec
     [(JObject (snapshot_object sample_snapshot), [1]),
      (json_strings (encodeSequence (ChunkHashes sample_snapshot)), [2]),
      (JArray (map JNumber (ChunkLengths sample_snapshot)), [3])]"

lemma sample_faithful:
  "json_faithful sample_json_codec (JObject (snapshot_object sample_snapshot))"
  "json_faithful sample_json_codec (json_strings (encodeSequence (ChunkHashes sample_snapshot)))"
  "json_faithful sample_json_codec (JArray (map JNumber (ChunkLengths sample_snapshot)))"
  by (simp_all add: json_faithful_def sample_json_codec_def table_codec_def json_strings_def)

theorem snapshot_description_roundtrip_witness:
  "MarshalJSON_snapshot sample_json_codec sample_snapshot = Inr [1] \<and> exact_snapshot sample_snapshot \<and>
   CreateSnapshotFromDescription sample_json_codec [1] = Inr (described sample_snapshot)"
proof -
  have "MarshalJSON_snapshot sample_json_codec sample_snapshot = Inr [1]" "exact_snapshot sample_snapshot"
    by code_simp+
  with snapshot_description_roundtrip [OF _ sample_faithful(1)] show ?thesis by simp
qed

theorem snapshot_sequences_roundtrip_witness:
  "LoadChunks sample_json_codec [2] zero_snapshot = Inr (zero_snapshot\<lparr>ChunkHashes := [[7, 8], [9]]\<rparr>) \<and>
   LoadLengths sample_json_codec [3] zero_snapshot = Inr (zero_snapshot\<lparr>ChunkLengths := [4, 1]\<rparr>)"
proof -
  have "MarshalSequence sample_json_codec ''chunks'' sample_snapshot = Inr [2]"
    "MarshalSequence sample_json_codec ''lengths'' sample_snapshot = Inr [3]" by code_simp+
  from snapshot_sequences_roundtrip [OF this sample_faithful(2,3), of zero_snapshot] show ?thesis
    by (simp add: sample_snapshot_def)
qed

end
