(* ===== verification/FossilCollection.thy ===== *)
theory FossilCollection
  imports Snapshot
begin

text \<open>
  Fossil collections, the days between two times, and the choice of the snapshots to delete: the
  pure part of \<open>duplicacy_snapshotmanager.go\<close>.

  A map of Go is an association list with distinct keys. A loop over a map takes its entries in the
  order of the list; Go leaves the order open, so what is shown here holds for every list.
\<close>

section \<open>The collection\<close>

record fossil_collection =
  collection_EndTime :: int
  LastRevisions :: "(string \<times> int) list"
  DeletedRevisions :: "(string \<times> int list) list"
  Fossils :: "string list"
  Temporaries :: "string list"

type_synonym snapshots = "(string \<times> snapshot list) list"

definition secondsInDay :: int where "secondsInDay = 86400"

definition chunkDir :: string where "chunkDir = ''chunks/''"

text \<open>The lists of \<open>allSnapshots\<close> are never empty.\<close>

definition CreateFossilCollection :: "snapshots \<Rightarrow> fossil_collection" where
  "CreateFossilCollection allSnapshots =
     \<lparr>collection_EndTime = 0, LastRevisions = map (\<lambda>(sid, snapshots). (sid, Revision (last snapshots))) allSnapshots,
      DeletedRevisions = [], Fossils = [], Temporaries = []\<rparr>"

definition AddFossil :: "string \<Rightarrow> fossil_collection \<Rightarrow> fossil_collection" where
  "AddFossil fossil collection = collection\<lparr>Fossils := Fossils collection @ [fossil]\<rparr>"

definition AddTemporary :: "string \<Rightarrow> fossil_collection \<Rightarrow> fossil_collection" where
  "AddTemporary temporary collection = collection\<lparr>Temporaries := Temporaries collection @ [temporary]\<rparr>"

definition IsEmpty :: "fossil_collection \<Rightarrow> bool" where
  "IsEmpty collection \<longleftrightarrow> Fossils collection = [] \<and> Temporaries collection = []"

section \<open>IsDeletable\<close>

text \<open>The part of the id after the first \<open>@\<close>.\<close>

definition host_id :: "string \<Rightarrow> string" where
  "host_id snapshotID =
     (if CHR ''@'' \<in> set snapshotID then tl (dropWhile (\<lambda>c. c \<noteq> CHR ''@'') snapshotID) else snapshotID)"

text \<open>The loop over the snapshots of an id: the new ones up to the first that ended late enough, and
  whether there is such a one.\<close>

fun scan_new :: "int \<Rightarrow> int \<Rightarrow> snapshot list \<Rightarrow> snapshot list \<times> bool" where
  "scan_new lastRevision deadline [] = ([], False)"
| "scan_new lastRevision deadline (snapshot # snapshotList) =
     (if Revision snapshot \<le> lastRevision then scan_new lastRevision deadline snapshotList
      else if EndTime snapshot > deadline then ([snapshot], True)
      else (case scan_new lastRevision deadline snapshotList of (new, b) \<Rightarrow> (snapshot # new, b)))"

definition deletion_deadline :: "bool \<Rightarrow> fossil_collection \<Rightarrow> int" where
  "deletion_deadline isStrongConsistent collection =
     collection_EndTime collection + (if isStrongConsistent then 0 else secondsInDay div 2)"

definition last_revision :: "fossil_collection \<Rightarrow> string \<Rightarrow> int" where
  "last_revision collection snapshotID =
     (case map_of (LastRevisions collection) snapshotID of None \<Rightarrow> 0 | Some r \<Rightarrow> r)"

text \<open>The maps \<open>hasNewSnapshot\<close> and \<open>lastSnapshotTime\<close>, which have the same keys, are one list.\<close>

fun host_update :: "string \<Rightarrow> bool \<Rightarrow> int \<Rightarrow> (string \<times> bool \<times> int) list \<Rightarrow> (string \<times> bool \<times> int) list" where
  "host_update h b t [] = [(h, b, max 0 t)]"
| "host_update h b t ((k, c, u) # hosts) =
     (if h = k then (k, c \<or> b, max u t) # hosts else (k, c, u) # host_update h b t hosts)"

fun deletable_loop ::
  "bool \<Rightarrow> string list \<Rightarrow> fossil_collection \<Rightarrow> snapshots \<Rightarrow>
     (string \<times> bool \<times> int) list \<times> snapshot list \<Rightarrow> (string \<times> bool \<times> int) list \<times> snapshot list" where
  "deletable_loop strong ignoredIDs collection [] acc = acc"
| "deletable_loop strong ignoredIDs collection ((snapshotID, snapshotList) # allSnapshots) (hosts, newSnapshots) =
     (if snapshotList = [] \<or> snapshotID \<in> set ignoredIDs
      then deletable_loop strong ignoredIDs collection allSnapshots (hosts, newSnapshots)
      else
        (case scan_new (last_revision collection snapshotID) (deletion_deadline strong collection) snapshotList of
           (new, b) \<Rightarrow>
             deletable_loop strong ignoredIDs collection allSnapshots
               (host_update (host_id snapshotID) b (EndTime (last snapshotList)) hosts, newSnapshots @ new)))"

definition inactive :: "int \<Rightarrow> int \<Rightarrow> bool" where
  "inactive now t \<longleftrightarrow> 0 < t \<and> t < now - 7 * secondsInDay"

definition IsDeletable ::
  "int \<Rightarrow> bool \<Rightarrow> string list \<Rightarrow> snapshots \<Rightarrow> fossil_collection \<Rightarrow> bool \<times> snapshot list" where
  "IsDeletable now isStrongConsistent ignoredIDs allSnapshots collection =
     (case deletable_loop isStrongConsistent ignoredIDs collection allSnapshots ([], []) of
        (hosts, newSnapshots) \<Rightarrow>
          if list_all (\<lambda>(h, b, t). b \<or> inactive now t) hosts then (True, newSnapshots) else (False, []))"

section \<open>What IsDeletable decides\<close>

text \<open>The ids that count, the ones of a host, and the snapshots that an id contributes.\<close>

definition considered :: "string list \<Rightarrow> snapshots \<Rightarrow> snapshots" where
  "considered ignoredIDs allSnapshots = filter (\<lambda>(i, l). l \<noteq> [] \<and> i \<notin> set ignoredIDs) allSnapshots"

definition of_host :: "string \<Rightarrow> snapshots \<Rightarrow> snapshots" where
  "of_host h all = filter (\<lambda>(i, l). host_id i = h) all"

definition new_snapshots :: "bool \<Rightarrow> fossil_collection \<Rightarrow> string \<times> snapshot list \<Rightarrow> snapshot list" where
  "new_snapshots strong c = (\<lambda>(i, l). fst (scan_new (last_revision c i) (deletion_deadline strong c) l))"

definition has_fresh :: "bool \<Rightarrow> fossil_collection \<Rightarrow> string \<times> snapshot list \<Rightarrow> bool" where
  "has_fresh strong c = (\<lambda>(i, l). \<exists>s \<in> set l. last_revision c i < Revision s \<and> deletion_deadline strong c < EndTime s)"

lemma scan_new_fresh:
  "snd (scan_new r d l) \<longleftrightarrow> (\<exists>s \<in> set l. r < Revision s \<and> d < EndTime s)"
  by (induction l) (auto split: prod.splits)

lemma scan_new_all:
  "\<not> snd (scan_new r d l) \<Longrightarrow> fst (scan_new r d l) = filter (\<lambda>s. r < Revision s) l"
  by (induction l) (auto split: prod.splits if_splits)

lemma scan_new_members: "s \<in> set (fst (scan_new r d l)) \<Longrightarrow> s \<in> set l \<and> r < Revision s"
  by (induction l) (auto split: prod.splits if_splits)

text \<open>Every new snapshot that ended before the deadline and is not preceded by one that ended after
  it is among the new ones.\<close>

lemma scan_new_prefix:
  "scan_new r d (l @ s # l') = (fst (scan_new r d l) @ s # fst (scan_new r d l'), snd (scan_new r d l'))"
  if "\<not> snd (scan_new r d l)" and "r < Revision s" and "EndTime s \<le> d"
  using that by (induction l) (auto split: prod.splits if_splits)

text \<open>The entry of a host after some ids: whether one of them is fresh, and the latest end time.\<close>

definition host_entry :: "bool \<Rightarrow> fossil_collection \<Rightarrow> string \<Rightarrow> snapshots \<Rightarrow> (bool \<times> int) option" where
  "host_entry strong c h all =
     (if of_host h all = [] then None
      else Some (list_ex (has_fresh strong c) (of_host h all),
             fold (\<lambda>(i, l). max (EndTime (last l))) (of_host h all) 0))"

lemma map_of_host_update:
  "map_of (host_update h b t hosts) k =
     (if k = h then Some (case map_of hosts h of None \<Rightarrow> (b, max 0 t) | Some (c, u) \<Rightarrow> (c \<or> b, max u t))
      else map_of hosts k)"
  by (induction h b t hosts rule: host_update.induct) (auto split: option.splits)

lemma keys_host_update: "map fst (host_update h b t hosts) =
    (if h \<in> set (map fst hosts) then map fst hosts else map fst hosts @ [h])"
  by (induction h b t hosts rule: host_update.induct) auto

lemma host_entry_snoc:
  assumes "host_id i = h"
  shows "host_entry strong c h (all @ [(i, l)]) = Some (case host_entry strong c h all of
      None \<Rightarrow> (has_fresh strong c (i, l), max 0 (EndTime (last l)))
    | Some (b, t) \<Rightarrow> (b \<or> has_fresh strong c (i, l), max t (EndTime (last l))))"
  using assms by (simp add: host_entry_def of_host_def max.commute)

lemma host_entry_snoc_other:
  "host_id i \<noteq> h \<Longrightarrow> host_entry strong c h (all @ [(i, l)]) = host_entry strong c h all"
  by (simp add: host_entry_def of_host_def)

lemma deletable_loop_spec:
  assumes "map_of hosts = (\<lambda>h. host_entry strong c h seen)" and "distinct (map fst hosts)"
    and "new = concat (map (new_snapshots strong c) seen)"
    and "deletable_loop strong ignored c all (hosts, new) = (hosts', new')"
  shows "map_of hosts' = (\<lambda>h. host_entry strong c h (seen @ considered ignored all)) \<and>
    distinct (map fst hosts') \<and> new' = concat (map (new_snapshots strong c) (seen @ considered ignored all))"
  using assms
proof (induction all arbitrary: hosts new seen)
  case Nil
  then show ?case by (simp add: considered_def)
next
  case (Cons x all)
  obtain i l where x: "x = (i, l)" by (cases x)
  show ?case
  proof (cases "l = [] \<or> i \<in> set ignored")
    case True
    then have "considered ignored (x # all) = considered ignored all" by (auto simp: x considered_def)
    with Cons.prems Cons.IH [of hosts seen new] True show ?thesis by (simp add: x)
  next
    case False
    let ?scan = "scan_new (last_revision c i) (deletion_deadline strong c) l"
    let ?hosts = "host_update (host_id i) (snd ?scan) (EndTime (last l)) hosts"
    have "deletable_loop strong ignored c all (?hosts, new @ fst ?scan) = (hosts', new')"
      using Cons.prems(4) False by (simp add: x case_prod_beta)
    moreover have "map_of ?hosts = (\<lambda>h. host_entry strong c h (seen @ [x]))"
      using Cons.prems(1)
      by (auto simp: fun_eq_iff map_of_host_update x host_entry_snoc host_entry_snoc_other scan_new_fresh has_fresh_def
          split: option.splits)
    moreover have "distinct (map fst ?hosts)" using Cons.prems(2) by (simp add: keys_host_update)
    ultimately show ?thesis
      using Cons.IH [of ?hosts "seen @ [x]" "new @ fst ?scan"] Cons.prems(3) False
      by (simp add: x considered_def new_snapshots_def)
  qed
qed


section \<open>Example\<close>

text \<open>Two repositories of a host and a dormant one. The collection was finished at time 2000000.\<close>

definition sample_collection :: fossil_collection where
  "sample_collection = \<lparr>collection_EndTime = 2000000, LastRevisions = [(''a@h'', 1), (''b@h'', 4), (''old'', 9)],
     DeletedRevisions = [], Fossils = [''chunks/ab/cdef.fsl''], Temporaries = []\<rparr>"

definition sample_snapshots :: snapshots where
  "sample_snapshots =
     [(''a@h'', [zero_snapshot\<lparr>Revision := 1, EndTime := 1000000\<rparr>, zero_snapshot\<lparr>Revision := 2, EndTime := 1999999\<rparr>,
        zero_snapshot\<lparr>Revision := 3, EndTime := 2000001\<rparr>, zero_snapshot\<lparr>Revision := 4, EndTime := 2000002\<rparr>]),
      (''b@h'', [zero_snapshot\<lparr>Revision := 4, EndTime := 1000000\<rparr>]),
      (''old'', [zero_snapshot\<lparr>Revision := 9, EndTime := 5000\<rparr>])]"


end
