(* ===== verification/Retention.thy ===== *)
theory Retention
  imports FossilCollection
begin

text \<open>
  Which snapshots a prune deletes: the days between two times, the parsing of retention policies
  and the selection by revisions, tags or policies, of \<open>PruneSnapshots\<close> in
  \<open>duplicacy_snapshotmanager.go\<close>.

  The time zone is a parameter: \<open>midnight t\<close> is the time at which the local day of \<open>t\<close> began.
\<close>

section \<open>Days\<close>

text \<open>A \<open>time.Duration\<close> is at most about 292 years: larger differences are cut off.\<close>

definition max_duration :: int where "max_duration = 9223372036"

definition days_between :: "(int \<Rightarrow> int) \<Rightarrow> int \<Rightarrow> int \<Rightarrow> int" where
  "days_between midnight start end_time =
     (let d = max (- max_duration) (min max_duration (midnight end_time - midnight start));
          hours = d sdiv 3600
      in (hours + 1) sdiv 24)"

text \<open>A day may be an hour longer or shorter, at a change to or from daylight saving time: the
  days between two dates are counted all the same.\<close>

theorem days_between_dst:
  assumes "midnight end_time - midnight start = 86400 * d + shift" and "\<bar>shift\<bar> \<le> 3600" and "0 \<le> d" and "d \<le> 100000"
  shows "days_between midnight start end_time = d"
proof -
  let ?x = "86400 * d + shift"
  have x: "max (- max_duration) (min max_duration (midnight end_time - midnight start)) = ?x"
    using assms by (simp add: max_duration_def)
  show ?thesis
  proof (cases "0 \<le> ?x")
    case True
    moreover from True assms have "0 \<le> ?x div 3600" "(?x div 3600 + 1) div 24 = d" by simp_all
    ultimately show ?thesis unfolding days_between_def Let_def x by (simp add: sdiv_nonneg)
  next
    case False
    with assms have "d = 0" "- 3600 \<le> shift" "shift < 0" by auto
    then have "shift sdiv 3600 = - ((- shift) div 3600)" by (simp add: signed_divide_int_def sgn_if)
    moreover have "(- shift) div 3600 = 0 \<or> (- shift) div 3600 = 1"
      using \<open>- 3600 \<le> shift\<close> \<open>shift < 0\<close> by (cases "shift = - 3600") simp_all
    ultimately have "shift sdiv 3600 = 0 \<or> shift sdiv 3600 = - 1" by auto
    with \<open>d = 0\<close> show ?thesis
      unfolding days_between_def Let_def x by (auto simp: signed_divide_int_def)
  qed
qed

section \<open>Retention policies\<close>

record policy =
  Age :: int
  Interval :: int

text \<open>The regular expression \<open>^([0-9]+):([0-9]+)$\<close>.\<close>

definition match_retention :: "string \<Rightarrow> (string \<times> string) option" where
  "match_retention s =
     (let a = takeWhile is_digit s; r = dropWhile is_digit s
      in if a \<noteq> [] \<and> r \<noteq> [] \<and> hd r = CHR '':'' \<and> tl r \<noteq> [] \<and> list_all is_digit (tl r)
         then Some (a, tl r) else None)"

definition parse_retention :: "string \<Rightarrow> policy res" where
  "parse_retention retention =
     (case match_retention (TrimSpace retention) of
        None \<Rightarrow> Inl (LogError ''RETENTION_INVALID'')
      | Some (i, a) \<Rightarrow>
          let age = Atoi_digits a; interval = Atoi_digits i in
          if age < 1 \<or> interval < 0 then Inl (LogError ''RETENTION_INVALID'')
          else Inr \<lparr>Age = age, Interval = interval\<rparr>)"

fun parse_retentions :: "string list \<Rightarrow> policy list res" where
  "parse_retentions [] = Inr []"
| "parse_retentions (r # rs) =
     bind_res (parse_retention r) (\<lambda>p. bind_res (parse_retentions rs) (\<lambda>ps. Inr (p # ps)))"

section \<open>Selection\<close>

text \<open>The inner loop: policies whose age the snapshot has not reached are passed over for good.\<close>

fun skip_policies :: "int \<Rightarrow> policy list \<Rightarrow> int \<Rightarrow> policy list \<times> int" where
  "skip_policies days [] lastSnapshotTime = ([], lastSnapshotTime)"
| "skip_policies days (p # ps) lastSnapshotTime =
     (if days < Age p then skip_policies days ps 0 else (p # ps, lastSnapshotTime))"

text \<open>The loop over the snapshots of an id. The policies that are left take the place of the index
  \<open>i\<close>; the result is the snapshots with their flags and the number of flags set.\<close>

fun retention_loop ::
  "(int \<Rightarrow> int \<Rightarrow> int) \<Rightarrow> int \<Rightarrow> bool \<Rightarrow> string list \<Rightarrow> policy list \<Rightarrow> int \<Rightarrow> snapshot list \<Rightarrow> snapshot list \<times> nat" where
  "retention_loop getDaysBetween now exclusive tags ps lastSnapshotTime [] = ([], 0)"
| "retention_loop getDaysBetween now exclusive tags ps lastSnapshotTime (snapshot # snapshots) =
     (if \<not> exclusive \<and> snapshots = [] then (snapshot # snapshots, 0)
      else if tags \<noteq> [] \<and> Tag snapshot \<notin> set tags then
        apfst (\<lambda>l. snapshot # l) (retention_loop getDaysBetween now exclusive tags ps lastSnapshotTime snapshots)
      else
        (case skip_policies (getDaysBetween (StartTime snapshot) now) ps lastSnapshotTime of
           ([], _) \<Rightarrow> (snapshot # snapshots, 0)
         | (p # ps', lastTime) \<Rightarrow>
             if Interval p = 0 \<or>
               (lastTime \<noteq> 0 \<and> getDaysBetween lastTime (StartTime snapshot) < Interval p)
             then map_prod (\<lambda>l. snapshot\<lparr>Flag := True\<rparr> # l) Suc
                    (retention_loop getDaysBetween now exclusive tags (p # ps') lastTime snapshots)
             else apfst (\<lambda>l. snapshot # l)
                    (retention_loop getDaysBetween now exclusive tags (p # ps') (StartTime snapshot) snapshots)))"

definition flag_snapshots :: "(snapshot \<Rightarrow> bool) \<Rightarrow> snapshot list \<Rightarrow> snapshot list \<times> nat" where
  "flag_snapshots P snapshots =
     (map (\<lambda>s. if P s then s\<lparr>Flag := True\<rparr> else s) snapshots, length (filter P snapshots))"

definition select_id ::
  "(int \<Rightarrow> int \<Rightarrow> int) \<Rightarrow> int \<Rightarrow> bool \<Rightarrow> string \<Rightarrow> int list \<Rightarrow> string list \<Rightarrow> policy list \<Rightarrow>
     string \<times> snapshot list \<Rightarrow> snapshot list \<times> nat" where
  "select_id getDaysBetween now exclusive snapshotID revisionsToBeDeleted tags policies = (\<lambda>(i, snapshots).
     if snapshotID \<noteq> [] \<and> i \<noteq> snapshotID then (snapshots, 0)
     else if revisionsToBeDeleted \<noteq> [] then
       flag_snapshots (\<lambda>s. Revision s \<in> set revisionsToBeDeleted) snapshots
     else if policies \<noteq> [] then
       (if length snapshots \<le> 1 then (snapshots, 0)
        else retention_loop getDaysBetween now exclusive tags policies 0 snapshots)
     else if tags \<noteq> [] then flag_snapshots (\<lambda>s. Tag s \<in> set tags) snapshots
     else (snapshots, 0))"

text \<open>The loop over \<open>allSnapshots\<close>: the snapshots with their flags and \<open>toBeDeleted\<close>. The clock is
  read for each id.\<close>

definition select_snapshots ::
  "(int \<Rightarrow> int \<Rightarrow> int) \<Rightarrow> (string \<Rightarrow> int) \<Rightarrow> bool \<Rightarrow> string \<Rightarrow> int list \<Rightarrow> string list \<Rightarrow> policy list \<Rightarrow> snapshots \<Rightarrow> snapshots \<times> nat" where
  "select_snapshots getDaysBetween clock exclusive snapshotID revisionsToBeDeleted tags policies allSnapshots =
     (let r = map (\<lambda>x. (fst x, select_id getDaysBetween (clock (fst x)) exclusive snapshotID revisionsToBeDeleted tags policies x)) allSnapshots
      in (map (\<lambda>(i, l, n). (i, l)) r, sum_list (map (\<lambda>(i, l, n). n) r)))"

section \<open>What the policies delete\<close>

text \<open>The policies that are left for a snapshot of the given age.\<close>

definition applicable :: "int \<Rightarrow> policy list \<Rightarrow> policy list" where
  "applicable days ps = dropWhile (\<lambda>p. days < Age p) ps"

lemma skip_policies_applicable:
  "skip_policies days ps t = (applicable days ps, if applicable days ps = ps then t else 0)"
proof (induction days ps t rule: skip_policies.induct)
  case (2 days p ps t)
  have "dropWhile P xs \<noteq> x # xs" for P x and xs :: "policy list"
    using length_dropWhile_le [of P xs] by fastforce
  with 2 show ?case by (simp add: applicable_def)
qed (simp add: applicable_def)

lemma applicable_hd: "applicable days ps = p # ps' \<Longrightarrow> Age p \<le> days \<and> p \<in> set ps \<and> set ps' \<subseteq> set ps"
  unfolding applicable_def
  by (metis dropWhile_eq_Cons_conv insert_subset linorder_not_less list.set(2) set_dropWhileD subsetI)

lemma applicable_mono: "d' \<le> d \<Longrightarrow> applicable d' (applicable d ps) = applicable d' ps"
  by (induction ps) (auto simp: applicable_def)

text \<open>One round of the loop.\<close>

lemma retention_loop_Cons:
  "retention_loop days now ex tags ps t (s # ss) =
     (if \<not> ex \<and> ss = [] then (s # ss, 0)
      else if tags \<noteq> [] \<and> Tag s \<notin> set tags then apfst (\<lambda>l. s # l) (retention_loop days now ex tags ps t ss)
      else let as = applicable (days (StartTime s) now) ps; t' = (if as = ps then t else 0) in
        if as = [] then (s # ss, 0)
        else if Interval (hd as) = 0 \<or> (t' \<noteq> 0 \<and> days t' (StartTime s) < Interval (hd as))
        then map_prod (\<lambda>l. s\<lparr>Flag := True\<rparr> # l) Suc (retention_loop days now ex tags as t' ss)
        else apfst (\<lambda>l. s # l) (retention_loop days now ex tags as (StartTime s) ss))"
  by (cases "applicable (days (StartTime s) now) ps")
    (simp_all only: retention_loop.simps(2) skip_policies_applicable Let_def prod.case list.case list.sel
      list.distinct if_True if_False simp_thms)

declare retention_loop.simps(2) [simp del]

lemma retention_loop_policy:
  assumes "ex \<or> ss \<noteq> []" and "tags = [] \<or> Tag s \<in> set tags"
    and "applicable (days (StartTime s) now) ps = p # ps'" and "t' = (if p # ps' = ps then t else 0)"
  shows "fst (retention_loop days now ex tags ps t (s # ss)) =
    (if Interval p = 0 \<or> t' \<noteq> 0 \<and> days t' (StartTime s) < Interval p
     then s\<lparr>Flag := True\<rparr> # fst (retention_loop days now ex tags (p # ps') t' ss)
     else s # fst (retention_loop days now ex tags (p # ps') (StartTime s) ss))"
proof -
  have c: "(\<not> ex \<and> ss = []) = False" "(tags \<noteq> [] \<and> Tag s \<notin> set tags) = False" using assms(1,2) by auto
  show ?thesis
    unfolding retention_loop_Cons c assms(3) Let_def if_False list.sel assms(4) [symmetric]
    by (simp only: list.distinct if_False if_distrib [of fst] fst_map_prod fst_apfst)
qed

text \<open>A snapshot is deleted because of a policy whose age it has reached and which keeps none, or
  keeps one per interval while an earlier one, less than the interval before, is kept.\<close>

definition justified :: "(int \<Rightarrow> int \<Rightarrow> int) \<Rightarrow> int \<Rightarrow> policy list \<Rightarrow> snapshot list \<Rightarrow> snapshot \<Rightarrow> bool" where
  "justified days now ps before s \<longleftrightarrow>
     (\<exists>p \<in> set ps. Age p \<le> days (StartTime s) now \<and>
        (Interval p = 0 \<or> (\<exists>k \<in> set before. \<not> Flag k \<and> days (StartTime k) (StartTime s) < Interval p)))"

fun all_justified :: "(int \<Rightarrow> int \<Rightarrow> int) \<Rightarrow> int \<Rightarrow> policy list \<Rightarrow> snapshot list \<Rightarrow> snapshot list \<Rightarrow> bool" where
  "all_justified days now ps before [] = True"
| "all_justified days now ps before (s # ss) =
     ((Flag s \<longrightarrow> justified days now ps before s) \<and> all_justified days now ps (before @ [s]) ss)"

lemma all_justified_unflagged: "\<forall>s \<in> set ss. \<not> Flag s \<Longrightarrow> all_justified days now ps before ss"
  by (induction ss arbitrary: before) simp_all

lemma retention_loop_justified:
  assumes "\<forall>s \<in> set l. \<not> Flag s" and "set qs \<subseteq> set ps"
    and "t = 0 \<or> (\<exists>k \<in> set before. \<not> Flag k \<and> StartTime k = t)"
  shows "all_justified days now ps before (fst (retention_loop days now ex tags qs t l))"
  using assms
proof (induction l arbitrary: qs t before)
  case (Cons s ss)
  let ?as = "applicable (days (StartTime s) now) qs"
  let ?t = "if ?as = qs then t else 0"
  have s: "\<not> Flag s" "\<forall>s \<in> set ss. \<not> Flag s" using Cons.prems(1) by simp_all
  consider (skip) "\<not> ex \<and> ss = []" | (tag) "ex \<or> ss \<noteq> []" "tags \<noteq> [] \<and> Tag s \<notin> set tags"
    | (none) "ex \<or> ss \<noteq> []" "\<not> (tags \<noteq> [] \<and> Tag s \<notin> set tags)" "?as = []"
    | (policy) "ex \<or> ss \<noteq> []" "\<not> (tags \<noteq> [] \<and> Tag s \<notin> set tags)" "?as \<noteq> []" by blast
  then show ?case
  proof cases
    case skip
    with s show ?thesis by (simp add: retention_loop_Cons)
  next
    case tag
    then have "fst (retention_loop days now ex tags qs t (s # ss)) = s # fst (retention_loop days now ex tags qs t ss)"
      by (simp add: retention_loop_Cons)
    with s Cons.prems Cons.IH [of qs t "before @ [s]"] show ?thesis by auto
  next
    case none
    then have "fst (retention_loop days now ex tags qs t (s # ss)) = s # ss" by (auto simp: retention_loop_Cons Let_def)
    with s show ?thesis by (simp add: all_justified_unflagged)
  next
    case policy
    then obtain p ps' where as: "?as = p # ps'" by (cases ?as) auto
    then have sub: "set ?as \<subseteq> set ps" "p \<in> set ps" "Age p \<le> days (StartTime s) now"
      using applicable_hd [OF as] Cons.prems(2) by auto
    have "tags = [] \<or> Tag s \<in> set tags" using policy by auto
    note step = retention_loop_policy [where days = days and now = now and t' = ?t and t = t,
        OF policy(1) this as, unfolded as, OF refl, folded as]
    show ?thesis
    proof (cases "Interval p = 0 \<or> ?t \<noteq> 0 \<and> days ?t (StartTime s) < Interval p")
      case True
      with Cons.prems(3) sub have "justified days now ps before (s\<lparr>Flag := True\<rparr>)"
        unfolding justified_def by (auto split: if_splits)
      moreover have "all_justified days now ps (before @ [s\<lparr>Flag := True\<rparr>])
          (fst (retention_loop days now ex tags ?as ?t ss))"
        by (rule Cons.IH [OF s(2) sub(1)]) (use Cons.prems(3) in auto)
      moreover have "fst (retention_loop days now ex tags qs t (s # ss)) =
          s\<lparr>Flag := True\<rparr> # fst (retention_loop days now ex tags ?as ?t ss)"
        unfolding step using True by (simp only: if_True)
      ultimately show ?thesis by simp
    next
      case keep: False
      have "all_justified days now ps (before @ [s]) (fst (retention_loop days now ex tags ?as (StartTime s) ss))"
        by (rule Cons.IH [OF s(2) sub(1)]) (use s in auto)
      moreover have "fst (retention_loop days now ex tags qs t (s # ss)) =
          s # fst (retention_loop days now ex tags ?as (StartTime s) ss)"
        unfolding step using keep by (simp only: if_False)
      ultimately show ?thesis using s by simp
    qed
  qed
qed simp

lemma all_justified_nth:
  "all_justified days now ps before l \<Longrightarrow> i < length l \<Longrightarrow> Flag (l ! i) \<Longrightarrow>
     justified days now ps (before @ take i l) (l ! i)"
proof (induction l arbitrary: before i)
  case (Cons s ss)
  show ?case
  proof (cases i)
    case 0
    with Cons.prems show ?thesis by simp
  next
    case (Suc j)
    with Cons.prems Cons.IH [of "before @ [s]" j] show ?thesis by simp
  qed
qed simp

lemma retention_loop_shape:
  obtains "retention_loop days now ex tags ps t (s # ss) = (s # ss, 0)"
  | qs u where "ex \<or> ss \<noteq> []"
      "retention_loop days now ex tags ps t (s # ss) = apfst (\<lambda>l. s # l) (retention_loop days now ex tags qs u ss)"
  | qs u where "ex \<or> ss \<noteq> []" "retention_loop days now ex tags ps t (s # ss) =
      map_prod (\<lambda>l. s\<lparr>Flag := True\<rparr> # l) Suc (retention_loop days now ex tags qs u ss)"
  using retention_loop_Cons [of days now ex tags ps t s ss] unfolding Let_def by metis

lemma retention_loop_same:
  "map (\<lambda>s. s\<lparr>Flag := False\<rparr>) (fst (retention_loop days now ex tags ps t l)) = map (\<lambda>s. s\<lparr>Flag := False\<rparr>) l"
proof (induction l arbitrary: ps t)
  case (Cons s ss)
  show ?case by (rule retention_loop_shape [of days now ex tags ps t s ss]) (simp_all add: Cons.IH)
qed simp

lemma retention_loop_last:
  "l \<noteq> [] \<Longrightarrow> last (fst (retention_loop days now False tags ps t l)) = last l"
proof (induction l arbitrary: ps t)
  case (Cons s ss)
  have ne: "fst (retention_loop days now False tags qs u ss) \<noteq> []" if "ss \<noteq> []" for qs u
    using retention_loop_same [of days now False tags qs u ss] that by auto
  show ?case
    by (rule retention_loop_shape [of days now False tags ps t s ss]) (simp_all add: Cons.IH ne)
qed simp

lemma retention_loop_count:
  "\<forall>s \<in> set l. \<not> Flag s \<Longrightarrow> snd (retention_loop days now ex tags ps t l) =
     length (filter Flag (fst (retention_loop days now ex tags ps t l)))"
proof (induction l arbitrary: ps t)
  case (Cons s ss)
  then show ?case
    by (cases rule: retention_loop_shape [of days now ex tags ps t s ss]) (simp_all add: filter_empty_conv)
qed simp

text \<open>C7: The retention policies only set flags, and their number is counted; a snapshot is deleted
  only because of a policy whose age it has reached and which keeps no snapshot, or because an earlier
  one that is less than the policy's interval older is kept; and the latest snapshot is not deleted
  unless the prune is exclusive.\<close>

theorem retention_deletes_justified:
  assumes "retention_loop days now exclusive tags policies 0 snapshots = (flagged, n)"
    and "\<forall>s \<in> set snapshots. \<not> Flag s" and "snapshots \<noteq> []"
  shows "map (\<lambda>s. s\<lparr>Flag := False\<rparr>) flagged = map (\<lambda>s. s\<lparr>Flag := False\<rparr>) snapshots \<and>
    n = length (filter Flag flagged) \<and>
    (\<forall>i < length flagged. Flag (flagged ! i) \<longrightarrow> justified days now policies (take i flagged) (flagged ! i)) \<and>
    (\<not> exclusive \<longrightarrow> \<not> Flag (last flagged))"
proof -
  have f: "flagged = fst (retention_loop days now exclusive tags policies 0 snapshots)"
    "n = snd (retention_loop days now exclusive tags policies 0 snapshots)" using assms(1) by simp_all
  have "justified days now policies (take i flagged) (flagged ! i)" if "i < length flagged" "Flag (flagged ! i)" for i
    using all_justified_nth [OF retention_loop_justified [OF assms(2) subset_refl, of 0 "[]"]] that
    unfolding f by fastforce
  moreover have "\<not> exclusive \<longrightarrow> last flagged = last snapshots" using retention_loop_last [OF assms(3)] by (auto simp: f)
  ultimately show ?thesis
    using retention_loop_same retention_loop_count [OF assms(2)] assms(2,3) last_in_set unfolding f by metis
qed

section \<open>What the policies keep\<close>

text \<open>The age in days of a snapshot, and lists in which it does not grow.\<close>

definition aging :: "(int \<Rightarrow> int \<Rightarrow> int) \<Rightarrow> int \<Rightarrow> snapshot list \<Rightarrow> bool" where
  "aging days now l \<longleftrightarrow> sorted_wrt (\<lambda>a b. days (StartTime b) now \<le> days (StartTime a) now) l"

text \<open>A run of flagged snapshots after a kept one whose time is \<open>t\<close>, followed by a kept one.\<close>

lemma retention_loop_run:
  assumes "fst (retention_loop days now ex [] (p # ps') t l) = ys @ b # zs" and "ex \<or> zs \<noteq> []"
    and "\<forall>y \<in> set ys. Flag y" and "\<not> Flag b" and "\<forall>s \<in> set l. \<not> Flag s"
    and "aging days now l" and "Age p \<le> days (StartTime b) now" and "t \<noteq> 0"
  shows "Interval p \<noteq> 0 \<and> Interval p \<le> days t (StartTime b)"
  using assms(1,3,5,6)
proof (induction l arbitrary: ys)
  case (Cons s ss)
  let ?r = "retention_loop days now ex [] (p # ps') t"
  have len: "length (ys @ b # zs) = Suc (length ss)"
    using Cons.prems(1) retention_loop_same [of days now ex "[]" "p # ps'" t "s # ss"] by (metis length_Cons length_map)
  have old: "Age p \<le> days (StartTime s) now"
  proof -
    have "map StartTime (s # ss) = map StartTime (ys @ b # zs)"
      using arg_cong [OF retention_loop_same [of days now ex "[]" "p # ps'" t "s # ss"], of "map StartTime"] Cons.prems(1)
      by (simp add: comp_def)
    then have "StartTime b \<in> set (map StartTime (s # ss))" by simp
    with Cons.prems(4) assms(7) show ?thesis by (auto simp: aging_def)
  qed
  then have as: "applicable (days (StartTime s) now) (p # ps') = p # ps'" by (simp add: applicable_def)
  have go: "\<not> (\<not> ex \<and> ss = [])" using assms(2) len by auto
  show ?case
  proof (cases "Interval p = 0 \<or> days t (StartTime s) < Interval p")
    case True
    then have "fst (?r (s # ss)) = s\<lparr>Flag := True\<rparr> # fst (?r ss)"
      using go as assms(8) by (subst retention_loop_Cons) (auto simp: Let_def)
    with Cons.prems(1) assms(4) obtain ys' where "ys = s\<lparr>Flag := True\<rparr> # ys'" "fst (?r ss) = ys' @ b # zs"
      by (cases ys) auto
    with Cons.IH [of ys'] Cons.prems show ?thesis by (simp add: aging_def)
  next
    case False
    then have "fst (?r (s # ss)) = s # fst (retention_loop days now ex [] (p # ps') (StartTime s) ss)"
      using go as assms(8) by (subst retention_loop_Cons) (auto simp: Let_def)
    with Cons.prems(1-3) have "ys = []" "b = s" by (cases ys; auto)+
    with False show ?thesis by simp
  qed
qed simp

text \<open>A snapshot for which policies are left is examined, and if it is kept, its time is remembered.\<close>

lemma retention_loop_at:
  assumes "fst (retention_loop days now ex [] ps t l) = xs @ a # rest" and "rest \<noteq> []" and "\<not> Flag a"
    and "\<forall>s \<in> set l. \<not> Flag s" and "aging days now l" and "applicable (days (StartTime a) now) ps = p # ps'"
  shows "\<exists>l'. rest = fst (retention_loop days now ex [] (p # ps') (StartTime a) l') \<and>
    (\<forall>s \<in> set l'. \<not> Flag s) \<and> aging days now l'"
  using assms(1,4-6)
proof (induction l arbitrary: xs ps t)
  case (Cons s ss)
  have times: "map StartTime (s # ss) = map StartTime (xs @ a # rest)"
    using arg_cong [OF retention_loop_same [of days now ex "[]" ps t "s # ss"], of "map StartTime"] Cons.prems(1)
    by (simp add: comp_def)
  let ?d = "days (StartTime s) now"
  have mono: "days (StartTime a) now \<le> ?d"
  proof -
    have "StartTime a \<in> set (map StartTime (s # ss))" unfolding times by simp
    with Cons.prems(3) show ?thesis by (auto simp: aging_def)
  qed
  then have app: "applicable (days (StartTime a) now) (applicable ?d ps) = p # ps'"
    using Cons.prems(4) by (simp add: applicable_mono)
  moreover have "applicable d [] = []" for d by (simp add: applicable_def)
  ultimately have ne: "applicable ?d ps \<noteq> []" by force
  have "length (s # ss) = length (xs @ a # rest)" using times by (metis length_map)
  with assms(2) have go: "ss \<noteq> []" by (cases ss) auto
  let ?t = "if applicable ?d ps = ps then t else 0"
  have step: "fst (retention_loop days now ex [] ps t (s # ss)) =
      (if Interval (hd (applicable ?d ps)) = 0 \<or> ?t \<noteq> 0 \<and> days ?t (StartTime s) < Interval (hd (applicable ?d ps))
       then s\<lparr>Flag := True\<rparr> # fst (retention_loop days now ex [] (applicable ?d ps) ?t ss)
       else s # fst (retention_loop days now ex [] (applicable ?d ps) (StartTime s) ss))"
    using go ne by (subst retention_loop_Cons) (simp add: Let_def)
  show ?case
  proof (cases xs)
    case Nil
    with step Cons.prems assms(3) have "a = s"
      "rest = fst (retention_loop days now ex [] (applicable ?d ps) (StartTime s) ss)" by (auto split: if_splits)
    with Cons.prems show ?thesis by (auto simp: aging_def)
  next
    case (Cons x xs')
    with step Cons.prems(1) obtain u where
      "fst (retention_loop days now ex [] (applicable ?d ps) u ss) = xs' @ a # rest" by (auto split: if_splits)
    from Cons.IH [OF this _ _ app] Cons.prems show ?thesis by (simp add: aging_def)
  qed
qed simp

text \<open>C8: Of the snapshots to which the same policy applies, those that are kept are at least its
  interval apart: between two kept ones in a row (the later one not the latest, which is always kept)
  lie at least as many days as the policy's interval.\<close>

theorem retention_spacing:
  assumes "fst (retention_loop days now exclusive [] policies 0 snapshots) = xs @ a # ys @ b # zs"
    and "\<not> Flag a" and "\<forall>y \<in> set ys. Flag y" and "\<not> Flag b" and "exclusive \<or> zs \<noteq> []"
    and "\<forall>s \<in> set snapshots. \<not> Flag s" and "aging days now snapshots" and "StartTime a \<noteq> 0"
    and "applicable (days (StartTime a) now) policies = p # ps" and "applicable (days (StartTime b) now) policies = p # ps"
  shows "Interval p \<noteq> 0 \<and> Interval p \<le> days (StartTime a) (StartTime b)"
proof -
  obtain l where l: "ys @ b # zs = fst (retention_loop days now exclusive [] (p # ps) (StartTime a) l)"
    "\<forall>s \<in> set l. \<not> Flag s" "aging days now l"
    using retention_loop_at [OF assms(1) _ assms(2,6,7,9)] by auto
  show ?thesis
    using retention_loop_run [OF l(1) [symmetric] assms(5,3,4) l(2,3) _ assms(8)] applicable_hd [OF assms(10)] by simp
qed

section \<open>Examples\<close>

text \<open>Snapshots of the days 1, 2, 4 and 9, on day 10; times are counted in days.\<close>

definition day_count :: "int \<Rightarrow> int \<Rightarrow> int" where
  "day_count a b = b - a"

definition on_day :: "int \<Rightarrow> snapshot" where
  "on_day d = zero_snapshot\<lparr>Revision := d, StartTime := d\<rparr>"

theorem days_between_dst_witness:
  "days_between (\<lambda>t. if t < 100000 then 0 else 86400 + 3600) 10 100000 = 1"
  using days_between_dst [of "\<lambda>t. if t < 100000 then 0 else 86400 + 3600" 100000 10 1 3600] by simp

lemma sample_retention:
  "retention_loop day_count 10 False [] [\<lparr>Age = 5, Interval = 3\<rparr>] 0 (map on_day [1, 2, 4, 9]) =
     ([on_day 1, (on_day 2)\<lparr>Flag := True\<rparr>, on_day 4, on_day 9], 1)"
  "\<forall>s \<in> set (map on_day [1, 2, 4, 9]). \<not> Flag s" "aging day_count 10 (map on_day [1, 2, 4, 9])"
  by (simp_all add: retention_loop_Cons applicable_def day_count_def on_day_def zero_snapshot_def Let_def aging_def)

theorem retention_deletes_justified_witness:
  "justified day_count 10 [\<lparr>Age = 5, Interval = 3\<rparr>] [on_day 1] ((on_day 2)\<lparr>Flag := True\<rparr>)"
proof -
  let ?l = "[on_day 1, (on_day 2)\<lparr>Flag := True\<rparr>, on_day 4, on_day 9]"
  have "\<forall>i < length ?l. Flag (?l ! i) \<longrightarrow> justified day_count 10 [\<lparr>Age = 5, Interval = 3\<rparr>] (take i ?l) (?l ! i)"
    using retention_deletes_justified [OF sample_retention(1,2)] by blast
  from this [rule_format, of 1] show ?thesis by simp
qed

theorem retention_spacing_witness:
  "3 \<le> day_count (StartTime (on_day 1)) (StartTime (on_day 4))"
proof -
  have "fst (retention_loop day_count 10 False [] [\<lparr>Age = 5, Interval = 3\<rparr>] 0 (map on_day [1, 2, 4, 9])) =
      [] @ on_day 1 # [(on_day 2)\<lparr>Flag := True\<rparr>] @ on_day 4 # [on_day 9]"
    unfolding sample_retention(1) by simp
  note spacing = retention_spacing [OF this _ _ _ _ sample_retention(2,3), of "\<lparr>Age = 5, Interval = 3\<rparr>" "[]"]
  show ?thesis
    by (rule spacing [THEN conjunct2, simplified])
      (simp_all add: on_day_def applicable_def day_count_def zero_snapshot_def)
qed

end
