(* ===== verification/SnapshotManager.thy ===== *)
theory SnapshotManager
  imports ChunkOperator Retention
begin

text \<open>
  The snapshot manager of \<open>duplicacy_snapshotmanager.go\<close>: reading and writing snapshot files,
  loading the chunk sequences of a snapshot, and listing what a storage has.

  The programs work on the state of the chunk operator, which holds the storage and the snapshot
  cache. The manager's \<open>fileChunk\<close> is reset before every use, so that it is a local value here.
  \<open>rewrite\<close> is the field \<open>rewriteChunks\<close> of the manager's chunk operator, \<open>None\<close> as long as there is
  no operator.
\<close>

section \<open>Files\<close>

definition short_key :: "string \<Rightarrow> bytes" where
  "short_key derivationKey =
     string_bytes (if 64 < length derivationKey then drop (length derivationKey - 64) derivationKey else derivationKey)"

definition cached_file :: "'s operator_env \<Rightarrow> string \<Rightarrow> ('s operator_state, bytes option) prog" where
  "cached_file env path =
     bind_st (get_st (\<lambda>w. IsCacheNeeded (env_storage env) (op_storage w))) (\<lambda>needed.
       if needed then
         bind_st (on_cache (DownloadFile FileStorage path)) (\<lambda>(bs, err).
           return_st (if err = None \<and> bs \<noteq> [] then Some bs else None))
       else return_st None)"

definition rewrite_file :: "'s operator_env \<Rightarrow> string \<Rightarrow> bytes \<Rightarrow> bytes \<Rightarrow> ('s operator_state, unit) prog" where
  "rewrite_file env path key content =
     bind_st (op_Encrypt env (FileKey (env_config env)) key True
         (chunk_Write content (Reset (env_config env) True (CreateChunk True)))) (\<lambda>(err, newChunk).
       if err = None then
         bind_st (lift_res (GetBytes newChunk)) (\<lambda>encrypted.
         bind_st (on_storage (UploadFile (env_storage env) path encrypted)) (\<lambda>_. return_st ()))
       else return_st ())"

definition manager_DownloadFile ::
  "'s operator_env \<Rightarrow> bool option \<Rightarrow> string \<Rightarrow> string \<Rightarrow> ('s operator_state, bytes) prog" where
  "manager_DownloadFile env rewrite path derivationKey =
     bind_st (cached_file env path) (\<lambda>cached.
       case cached of
         Some content \<Rightarrow> return_st content
       | None \<Rightarrow>
           bind_st (on_storage (DownloadFile (env_storage env) path)) (\<lambda>(bs, err).
             if err \<noteq> None then raise_st (LogError ''DOWNLOAD_FILE'')
             else
               bind_st (op_Decrypt env (FileKey (env_config env)) (short_key derivationKey)
                   (chunk_Write bs (Reset (env_config env) False (CreateChunk True)))) (\<lambda>(err, rewriteNeeded, fileChunk).
                 if err \<noteq> None then raise_st (LogError ''DOWNLOAD_DECRYPT'')
                 else
                   bind_st (lift_res (GetBytes fileChunk)) (\<lambda>content.
                   bind_st
                     (if rewriteNeeded then
                        (case rewrite of
                           None \<Rightarrow> raise_st (Panic ''nil pointer dereference'')
                         | Some b \<Rightarrow> if b then rewrite_file env path (short_key derivationKey) content else return_st ())
                      else return_st ()) (\<lambda>_.
                   bind_st (on_cache (UploadFile FileStorage path content)) (\<lambda>_.
                     return_st content))))))"

definition manager_UploadFile ::
  "'s operator_env \<Rightarrow> string \<Rightarrow> string \<Rightarrow> bytes \<Rightarrow> ('s operator_state, unit) prog" where
  "manager_UploadFile env path derivationKey content =
     bind_st (get_st (\<lambda>w. IsCacheNeeded (env_storage env) (op_storage w))) (\<lambda>needed.
     bind_st (if needed then bind_st (on_cache (UploadFile FileStorage path content)) (\<lambda>_. return_st ())
              else return_st ()) (\<lambda>_.
     bind_st (op_Encrypt env (FileKey (env_config env)) (short_key derivationKey) True
         (chunk_Write content (Reset (env_config env) False (CreateChunk True)))) (\<lambda>(err, fileChunk).
       if err \<noteq> None then raise_st (LogError ''UPLOAD_File'')
       else
         bind_st (lift_res (GetBytes fileChunk)) (\<lambda>encrypted.
         bind_st (on_storage (UploadFile (env_storage env) path encrypted)) (\<lambda>err.
           if err \<noteq> None then raise_st (LogError ''UPLOAD_File'') else return_st ())))))"

section \<open>Snapshots\<close>

definition snapshot_dir :: "string \<Rightarrow> string" where
  "snapshot_dir snapshotID = ''snapshots/'' @ snapshotID"

definition snapshot_path :: "string \<Rightarrow> int \<Rightarrow> string" where
  "snapshot_path snapshotID revision = snapshot_dir snapshotID @ ''/'' @ show_int revision"

definition DownloadSnapshot ::
  "'s operator_env \<Rightarrow> json_codec \<Rightarrow> bool option \<Rightarrow> string \<Rightarrow> int \<Rightarrow> ('s operator_state, snapshot) prog" where
  "DownloadSnapshot env codec rewrite snapshotID revision =
     bind_st (on_storage (CreateDirectory (env_storage env) (snapshot_dir snapshotID))) (\<lambda>_.
     bind_st (on_cache (CreateDirectory FileStorage (snapshot_dir snapshotID))) (\<lambda>_.
     bind_st (on_storage (GetFileInfo (env_storage env) (snapshot_path snapshotID revision))) (\<lambda>info.
       case info of
         Inl err \<Rightarrow> raise_st (LogError ''SNAPSHOT_INFO'')
       | Inr (False, _, _) \<Rightarrow> raise_st (LogError ''SNAPSHOT_NOT_EXIST'')
       | Inr (True, _, _) \<Rightarrow>
           bind_st (manager_DownloadFile env rewrite (snapshot_path snapshotID revision)
               (snapshot_path snapshotID revision)) (\<lambda>description.
             case CreateSnapshotFromDescription codec description of
               Inl err \<Rightarrow> raise_st (LogError ''SNAPSHOT_PARSE'')
             | Inr snapshot \<Rightarrow> return_st (snapshot\<lparr>ID := snapshotID\<rparr>)))))"

definition DownloadSequence :: "'s operator_env \<Rightarrow> bytes list \<Rightarrow> ('s operator_state, bytes) prog" where
  "DownloadSequence env sequence =
     fold_st (\<lambda>chunkHash content.
       bind_st (Download env chunkHash 0 True) (\<lambda>chunk.
       bind_st (lift_res (GetBytes chunk)) (\<lambda>bs. return_st (content @ bs)))) sequence []"

definition DownloadSnapshotSequence ::
  "'s operator_env \<Rightarrow> json_codec \<Rightarrow> string \<Rightarrow> snapshot \<Rightarrow> ('s operator_state, snapshot) prog" where
  "DownloadSnapshotSequence env codec sequenceType snapshot =
     bind_st (DownloadSequence env
         (if sequenceType = ''lengths'' then LengthSequence snapshot else ChunkSequence snapshot)) (\<lambda>content.
       if content = [] then raise_st (LogError ''SNAPSHOT_PARSE'')
       else
         (case (if sequenceType = ''lengths'' then LoadLengths codec content snapshot
                else LoadChunks codec content snapshot) of
            Inl err \<Rightarrow> raise_st (LogError ''SNAPSHOT_PARSE'')
          | Inr snapshot' \<Rightarrow> return_st snapshot'))"

definition DownloadSnapshotSequences ::
  "'s operator_env \<Rightarrow> json_codec \<Rightarrow> snapshot \<Rightarrow> ('s operator_state, snapshot) prog" where
  "DownloadSnapshotSequences env codec snapshot =
     bind_st (DownloadSnapshotSequence env codec ''chunks'' snapshot) (\<lambda>snapshot.
       DownloadSnapshotSequence env codec ''lengths'' snapshot)"

definition ClearSnapshotSequences :: "snapshot \<Rightarrow> snapshot" where
  "ClearSnapshotSequences snapshot = snapshot\<lparr>ChunkHashes := [], ChunkLengths := []\<rparr>"

definition chunk_ids :: "'s operator_env \<Rightarrow> bytes list \<Rightarrow> ('w, string list) prog" where
  "chunk_ids env hashes =
     map_st (\<lambda>chunkHash. lift_res (GetChunkIDFromHash (rt_hashes (env_runtime env)) (env_config env) chunkHash)) hashes"

text \<open>The chunks that a snapshot references, and the snapshot, whose hashes may have been loaded.\<close>

definition GetSnapshotChunks ::
  "'s operator_env \<Rightarrow> json_codec \<Rightarrow> bool \<Rightarrow> snapshot \<Rightarrow> ('s operator_state, string list \<times> snapshot) prog" where
  "GetSnapshotChunks env codec keepChunkHashes snapshot =
     bind_st (chunk_ids env (FileSequence snapshot @ ChunkSequence snapshot @ LengthSequence snapshot)) (\<lambda>chunks.
     bind_st
       (if ChunkHashes snapshot = [] then
          bind_st (DownloadSequence env (ChunkSequence snapshot)) (\<lambda>description.
            case LoadChunks codec description snapshot of
              Inl err \<Rightarrow> raise_st (LogError ''SNAPSHOT_CHUNK'')
            | Inr snapshot' \<Rightarrow> return_st snapshot')
        else return_st snapshot) (\<lambda>snapshot.
     bind_st (chunk_ids env (ChunkHashes snapshot)) (\<lambda>more.
       return_st (chunks @ more, if keepChunkHashes then snapshot else ClearChunks snapshot))))"

section \<open>Listing\<close>

definition ListSnapshotIDs :: "'s storage \<Rightarrow> ('s, goerror + string list) prog" where
  "ListSnapshotIDs st =
     bind_st (ListFiles st ''snapshots/'') (\<lambda>r.
       return_st (case r of
           Inl err \<Rightarrow> Inl err
         | Inr dirs \<Rightarrow> Inr (map butlast (filter (\<lambda>d. d \<noteq> [] \<and> last d = CHR ''/'') (map fst dirs)))))"

text \<open>\<open>strconv.Atoi\<close>: digits after an optional sign; \<open>None\<close> is an error.\<close>

definition Atoi :: "string \<Rightarrow> int option" where
  "Atoi s =
     (let neg = (s \<noteq> [] \<and> hd s = CHR ''-''); d = (if s \<noteq> [] \<and> (hd s = CHR ''-'' \<or> hd s = CHR ''+'') then tl s else s);
          n = (if neg then - int (digits_val d) else int (digits_val d))
      in if d \<noteq> [] \<and> list_all is_digit d \<and> - max_int64 - 1 \<le> n \<and> n \<le> max_int64 then Some n else None)"

definition ListSnapshotRevisions :: "'s operator_env \<Rightarrow> string \<Rightarrow> ('s operator_state, goerror + int list) prog" where
  "ListSnapshotRevisions env snapshotID =
     (let snapshotDir = snapshot_dir snapshotID @ ''/'' in
      bind_st (on_storage (CreateDirectory (env_storage env) snapshotDir)) (\<lambda>err.
        case err of
          Some e \<Rightarrow> return_st (Inl e)
        | None \<Rightarrow>
            bind_st (on_cache (CreateDirectory FileStorage snapshotDir)) (\<lambda>_.
            bind_st (on_storage (ListFiles (env_storage env) snapshotDir)) (\<lambda>r.
              return_st (case r of
                  Inl e \<Rightarrow> Inl e
                | Inr files \<Rightarrow>
                    Inr (sort (List.map_filter Atoi (filter (\<lambda>f. f \<noteq> [] \<and> last f \<noteq> CHR ''/'') (map fst files)))))))))"

definition downloadLatestSnapshot ::
  "'s operator_env \<Rightarrow> json_codec \<Rightarrow> bool option \<Rightarrow> string \<Rightarrow> ('s operator_state, snapshot option) prog" where
  "downloadLatestSnapshot env codec rewrite snapshotID =
     bind_st (ListSnapshotRevisions env snapshotID) (\<lambda>r.
       case r of
         Inl err \<Rightarrow> raise_st (LogError ''SNAPSHOT_LIST'')
       | Inr revisions \<Rightarrow>
           let latest = fold max revisions 0 in
           if 0 < latest then bind_st (DownloadSnapshot env codec rewrite snapshotID latest) (\<lambda>s. return_st (Some s))
           else return_st None)"

text \<open>The stack of directories, last one first, and the files listed so far. A storage could list
  directories forever: the first argument bounds the number of directories that are listed, and the
  result is \<open>None\<close> if there are more.\<close>

fun list_all_loop ::
  "nat \<Rightarrow> 's storage \<Rightarrow> string \<Rightarrow> string list \<Rightarrow> (string \<times> int) list \<Rightarrow> ('s, (string \<times> int) list option) prog" where
  "list_all_loop n st topDir [] allFiles = return_st (Some allFiles)"
| "list_all_loop 0 st topDir (dir # directories) allFiles = return_st None"
| "list_all_loop (Suc n) st topDir (dir # directories) allFiles =
     bind_st (ListFiles st dir) (\<lambda>r.
       case r of
         Inl err \<Rightarrow> raise_st (LogError ''LIST_FILES'')
       | Inr files \<Rightarrow>
           list_all_loop n st topDir
             (rev (map (\<lambda>f. dir @ fst f) (filter (\<lambda>f. fst f \<noteq> [] \<and> last (fst f) = CHR ''/'') files)) @ directories)
             (allFiles @ (if length topDir < length dir then [(drop (length topDir) dir, 0)] else []) @
              map (\<lambda>f. (drop (length topDir) (dir @ fst f), snd f))
                (filter (\<lambda>f. \<not> (fst f \<noteq> [] \<and> last (fst f) = CHR ''/'')) files)))"

definition ListAllFiles :: "nat \<Rightarrow> 's storage \<Rightarrow> string \<Rightarrow> ('s, (string \<times> int) list option) prog" where
  "ListAllFiles bound st topDir = list_all_loop bound st topDir [topDir] []"

end
