(* ===== verification/Prune.thy ===== *)
theory Prune
  imports SnapshotManager
begin

text \<open>
  Pruning: \<open>PruneSnapshots\<close> of \<open>duplicacy_snapshotmanager.go\<close> and what it calls.

  Pruning deletes snapshots in two steps. The first run marks the chunks that only deleted snapshots
  reference as fossils, by renaming them, and records them in a fossil collection; a later run deletes
  the fossils of the collection for good, or turns those back into chunks that a snapshot uses which
  was being made in the meantime.

  The tasks that the program hands to the goroutines of the chunk operator are performed when they
  are created. The order in which a loop visits a map is a parameter, a function on the entries
  for each loop; the clock, the time zone and the JSON form of a fossil collection are parameters
  too. The log file in the preference directory is left out.
\<close>

section \<open>Parameters\<close>

record 's prune_env =
  pr_env :: "'s operator_env"
  pr_codec :: json_codec
  collection_Marshal :: "fossil_collection \<Rightarrow> goerror + bytes"
  collection_Unmarshal :: "bytes \<Rightarrow> goerror + fossil_collection"
  snapshot_order :: "nat \<Rightarrow> snapshots \<Rightarrow> snapshots"
  chunk_order :: "(string \<times> bool) list \<Rightarrow> (string \<times> bool) list"
  clock_collection :: "string \<Rightarrow> int"
  clock_select :: "string \<Rightarrow> int"
  clock_end :: int
  getDaysBetween :: "int \<Rightarrow> int \<Rightarrow> int"
  list_bound :: nat

record prune_options =
  opt_selfID :: string
  opt_snapshotID :: string
  opt_revisions :: "int list"
  opt_tags :: "string list"
  opt_retentions :: "string list"
  opt_exhaustive :: bool
  opt_exclusive :: bool
  opt_ignoredIDs :: "string list"
  opt_dryRun :: bool
  opt_deleteOnly :: bool
  opt_collectOnly :: bool

text \<open>Assigning to a key of a map.\<close>

fun set_key :: "'k \<Rightarrow> 'v \<Rightarrow> ('k \<times> 'v) list \<Rightarrow> ('k \<times> 'v) list" where
  "set_key k v [] = [(k, v)]"
| "set_key k v ((l, u) # m) = (if k = l then (l, v) # m else (l, u) # set_key k v m)"

text \<open>Reading a key of a map of slices: nil if it is missing.\<close>

definition or_empty :: "'a list option \<Rightarrow> 'a list" where
  "or_empty x = (case x of None \<Rightarrow> [] | Some l \<Rightarrow> l)"

section \<open>Chunks and fossils\<close>

definition fossilizeChunk :: "'s operator_env \<Rightarrow> string \<Rightarrow> string \<Rightarrow> bool \<Rightarrow> ('s operator_state, unit) prog" where
  "fossilizeChunk env chunkID filePath exclusive =
     (if exclusive then Delete env chunkID filePath else Fossilize env chunkID filePath)"

definition resurrectChunk :: "'s operator_env \<Rightarrow> string \<Rightarrow> string \<Rightarrow> ('s operator_state, unit) prog" where
  "resurrectChunk env fossilPath chunkID =
     bind_st (on_storage (FindChunk (env_storage env) chunkID False)) (\<lambda>r.
       case r of
         Inl err \<Rightarrow> raise_st (LogError ''CHUNK_FIND'')
       | Inr (_, True, _) \<Rightarrow> bind_st (on_storage (DeleteFile (env_storage env) fossilPath)) (\<lambda>_. return_st ())
       | Inr (chunkPath, False, _) \<Rightarrow>
           bind_st (on_storage (MoveFile (env_storage env) fossilPath chunkPath)) (\<lambda>err.
             if err = None then return_st () else raise_st (LogError ''FOSSIL_RESURRECT'')))"

section \<open>The non-exhaustive prune\<close>

text \<open>The latest snapshot of an id must not be deleted, unless the prune is exclusive.\<close>

definition check_latest :: "bool \<Rightarrow> snapshot list \<Rightarrow> ('w, unit) prog" where
  "check_latest exclusive snapshots =
     (if snapshots \<noteq> [] \<and> Flag (last snapshots) \<and> \<not> exclusive then raise_st (LogError ''SNAPSHOT_DELETE'')
      else return_st ())"

text \<open>The loops that call \<open>GetSnapshotChunks\<close> for the snapshots with the given flag and update a map
  with the chunks. The hashes of a snapshot are loaded for the call and dropped again.\<close>

definition visit_snapshots ::
  "'s operator_env \<Rightarrow> json_codec \<Rightarrow> bool \<Rightarrow> (string list \<Rightarrow> 'm \<Rightarrow> 'm) \<Rightarrow> snapshot list \<Rightarrow> 'm \<Rightarrow> ('s operator_state, 'm) prog" where
  "visit_snapshots env codec flag update =
     fold_st (\<lambda>snapshot m.
       if Flag snapshot \<noteq> flag then return_st m
       else bind_st (GetSnapshotChunks env codec False snapshot) (\<lambda>(chunks, _). return_st (update chunks m)))"

definition target_chunks ::
  "'s operator_env \<Rightarrow> json_codec \<Rightarrow> bool \<Rightarrow> snapshots \<Rightarrow> (string \<times> bool) list \<Rightarrow> ('s operator_state, (string \<times> bool) list) prog" where
  "target_chunks env codec exclusive =
     fold_st (\<lambda>(_, snapshots) targetChunks.
       bind_st (check_latest exclusive snapshots) (\<lambda>_.
         visit_snapshots env codec True (\<lambda>chunks. fold (\<lambda>chunk. set_key chunk False) chunks) snapshots targetChunks))"

definition mark_found :: "string list \<Rightarrow> (string \<times> bool) list \<Rightarrow> (string \<times> bool) list" where
  "mark_found = fold (\<lambda>chunk m. if chunk \<in> set (map fst m) then set_key chunk True m else m)"

definition mark_referenced ::
  "'s operator_env \<Rightarrow> json_codec \<Rightarrow> snapshots \<Rightarrow> (string \<times> bool) list \<Rightarrow> ('s operator_state, (string \<times> bool) list) prog" where
  "mark_referenced env codec =
     fold_st (\<lambda>(_, snapshots). visit_snapshots env codec False mark_found snapshots)"

definition pruneSnapshotsNonExhaustive ::
  "'s prune_env \<Rightarrow> bool \<Rightarrow> bool \<Rightarrow> snapshots \<Rightarrow> ('s operator_state, unit) prog" where
  "pruneSnapshotsNonExhaustive pe dry exclusive allSnapshots =
     (let env = pr_env pe in
      bind_st (target_chunks env (pr_codec pe) exclusive (snapshot_order pe 0 allSnapshots) []) (\<lambda>targetChunks.
      bind_st (mark_referenced env (pr_codec pe) (snapshot_order pe 1 allSnapshots) targetChunks) (\<lambda>targetChunks.
        for_each (chunk_order pe targetChunks) (\<lambda>(chunk, value).
          if value \<or> dry then return_st () else fossilizeChunk env chunk [] exclusive))))"

section \<open>The exhaustive prune\<close>

definition referenced_chunks ::
  "'s operator_env \<Rightarrow> json_codec \<Rightarrow> bool \<Rightarrow> snapshots \<Rightarrow> (string \<times> bool) list \<Rightarrow> ('s operator_state, (string \<times> bool) list) prog" where
  "referenced_chunks env codec exclusive =
     fold_st (\<lambda>(_, snapshots) referencedChunks.
       bind_st (check_latest exclusive snapshots) (\<lambda>_.
         visit_snapshots env codec False (\<lambda>chunks. fold (\<lambda>chunk. set_key chunk False) chunks) snapshots referencedChunks))"

text \<open>The regular expressions \<open>^[0-9a-f]+$\<close> and \<open>^([0-9]+)$\<close>.\<close>

definition chunkRegex :: "string \<Rightarrow> bool" where
  "chunkRegex s \<longleftrightarrow> s \<noteq> [] \<and> list_all (\<lambda>c. is_digit c \<or> c \<in> set ''abcdef'') s"

definition collectionRegex :: "string \<Rightarrow> bool" where
  "collectionRegex s \<longleftrightarrow> s \<noteq> [] \<and> list_all is_digit s"

definition fossil_chunk :: "string \<Rightarrow> string" where
  "fossil_chunk p = remove_all (remove_all p ''/'') ''.fsl''"

text \<open>A file below \<open>chunks/\<close>, with the map of referenced chunks and the collection.\<close>

definition exhaustive_file ::
  "'s operator_env \<Rightarrow> string list \<Rightarrow> bool \<Rightarrow> bool \<Rightarrow> string \<Rightarrow> (string \<times> bool) list \<times> fossil_collection \<Rightarrow>
     ('s operator_state, (string \<times> bool) list \<times> fossil_collection) prog" where
  "exhaustive_file env referencedFossils dry exclusive f = (\<lambda>(referencedChunks, collection).
     let unchanged = (referencedChunks, collection);
         then_unchanged = (\<lambda>m. bind_st m (\<lambda>_. return_st unchanged)) in
     if f = [] \<or> last f = CHR ''/'' then return_st unchanged
     else if HasSuffix f ''.tmp'' then
       (if dry then return_st unchanged
        else if exclusive then then_unchanged (Delete env [] (chunkDir @ f))
        else return_st (referencedChunks, AddTemporary f collection))
     else if HasSuffix f ''.fsl'' then
       (if f \<in> set referencedFossils then return_st unchanged
        else
          let chunk = fossil_chunk f in
          if chunk \<in> set (map fst referencedChunks) then
            (if dry then return_st unchanged else then_unchanged (Resurrect env chunk (chunkDir @ f)))
          else if dry then return_st unchanged
          else if exclusive then then_unchanged (Delete env chunk (chunkDir @ f))
          else return_st (referencedChunks, AddFossil (chunkDir @ f) collection))
     else
       let chunk = remove_all f ''/'' in
       if \<not> chunkRegex chunk then return_st unchanged
       else
         (case map_of referencedChunks chunk of
            None \<Rightarrow> if dry then return_st unchanged
                    else then_unchanged (fossilizeChunk env chunk (chunkDir @ f) exclusive)
          | Some True \<Rightarrow> if dry then return_st unchanged else then_unchanged (Delete env chunk (chunkDir @ f))
          | Some False \<Rightarrow> return_st (set_key chunk True referencedChunks, collection)))"

text \<open>A storage may list a file twice: \<open>uniqueFiles\<close> has the ones seen.\<close>

fun exhaustive_loop ::
  "'s operator_env \<Rightarrow> string list \<Rightarrow> bool \<Rightarrow> bool \<Rightarrow> string list \<Rightarrow> string list \<Rightarrow>
     (string \<times> bool) list \<times> fossil_collection \<Rightarrow> ('s operator_state, (string \<times> bool) list \<times> fossil_collection) prog" where
  "exhaustive_loop env referencedFossils dry exclusive uniqueFiles [] acc = return_st acc"
| "exhaustive_loop env referencedFossils dry exclusive uniqueFiles (f # allFiles) acc =
     (if f \<in> set uniqueFiles then exhaustive_loop env referencedFossils dry exclusive uniqueFiles allFiles acc
      else
        bind_st (exhaustive_file env referencedFossils dry exclusive f acc)
          (exhaustive_loop env referencedFossils dry exclusive (f # uniqueFiles) allFiles))"

text \<open>More directories than the bound are not an outcome of the program; the model ends such a run with a
  panic.\<close>

definition all_files :: "nat \<Rightarrow> 's storage \<Rightarrow> string \<Rightarrow> ('s, string list) prog" where
  "all_files bound st topDir =
     bind_st (ListAllFiles bound st topDir) (\<lambda>r.
       case r of None \<Rightarrow> raise_st (Panic ''too many directories'') | Some l \<Rightarrow> return_st (map fst l))"

definition pruneSnapshotsExhaustive ::
  "'s prune_env \<Rightarrow> string list \<Rightarrow> bool \<Rightarrow> bool \<Rightarrow> snapshots \<Rightarrow> fossil_collection \<Rightarrow>
     ('s operator_state, fossil_collection) prog" where
  "pruneSnapshotsExhaustive pe referencedFossils dry exclusive allSnapshots collection =
     (let env = pr_env pe in
      bind_st (referenced_chunks env (pr_codec pe) exclusive (snapshot_order pe 0 allSnapshots) []) (\<lambda>referencedChunks.
      bind_st (on_storage (all_files (list_bound pe) (env_storage env) chunkDir)) (\<lambda>allFiles.
      bind_st (exhaustive_loop env referencedFossils dry exclusive [] allFiles (referencedChunks, collection)) (\<lambda>(_, collection).
        return_st collection))))"

section \<open>The collections of earlier runs\<close>

definition ghost_snapshot :: "snapshots \<Rightarrow> fossil_collection \<Rightarrow> bool" where
  "ghost_snapshot allSnapshots collection =
     list_ex (\<lambda>(sid, revisionList). list_ex (\<lambda>revision.
         list_ex (\<lambda>s. revision = Revision s) (or_empty (map_of allSnapshots sid))) revisionList)
       (DeletedRevisions collection)"

definition process_fossil :: "'s operator_env \<Rightarrow> bool \<Rightarrow> string list \<Rightarrow> string \<Rightarrow> ('s operator_state, unit) prog" where
  "process_fossil env dry newChunks fossil =
     bind_st (lift_res (slice fossil (length chunkDir) (length fossil))) (\<lambda>rest.
       let chunk = fossil_chunk rest in
       if dry then return_st ()
       else if chunk \<in> set newChunks then Resurrect env chunk fossil
       else Delete env chunk fossil)"

definition new_chunks :: "'s operator_env \<Rightarrow> json_codec \<Rightarrow> snapshot list \<Rightarrow> ('s operator_state, string list) prog" where
  "new_chunks env codec newSnapshots =
     fold_st (\<lambda>snapshot newChunks.
       bind_st (GetSnapshotChunks env codec False snapshot) (\<lambda>(chunks, _). return_st (newChunks @ chunks))) newSnapshots []"

definition process_collection ::
  "'s operator_env \<Rightarrow> json_codec \<Rightarrow> bool \<Rightarrow> string \<Rightarrow> fossil_collection \<Rightarrow> snapshot list \<Rightarrow> ('s operator_state, unit) prog" where
  "process_collection env codec dry collectionFile collection newSnapshots =
     bind_st (new_chunks env codec newSnapshots) (\<lambda>newChunks.
     bind_st (for_each (Fossils collection) (process_fossil env dry newChunks)) (\<lambda>_.
     bind_st (for_each (Temporaries collection) (\<lambda>temporary.
         if dry then return_st () else Delete env [] temporary)) (\<lambda>_.
       if dry then return_st ()
       else bind_st (on_cache (DeleteFile FileStorage collectionFile)) (\<lambda>_. return_st ()))))"

text \<open>The loop over the collection files, with the largest number seen and the fossils of the
  collections that were looked at.\<close>

definition collection_step ::
  "'s prune_env \<Rightarrow> prune_options \<Rightarrow> snapshots \<Rightarrow> string \<Rightarrow> int \<times> string list \<Rightarrow> ('s operator_state, int \<times> string list) prog" where
  "collection_step pe opt allSnapshots collectionName = (\<lambda>(maxCollectionNumber, referencedFossils).
     if \<not> collectionRegex collectionName then return_st (maxCollectionNumber, referencedFossils)
     else
       let maxCollectionNumber = max maxCollectionNumber (Atoi_digits collectionName);
           collectionFile = ''fossils/'' @ collectionName in
       if opt_collectOnly opt then return_st (maxCollectionNumber, referencedFossils)
       else
         bind_st (on_cache (DownloadFile FileStorage collectionFile)) (\<lambda>(bs, err).
           if err \<noteq> None then raise_st (LogError ''FOSSIL_COLLECT'')
           else
             (case collection_Unmarshal pe bs of
                Inl err \<Rightarrow> raise_st (LogError ''FOSSIL_COLLECT'')
              | Inr collection \<Rightarrow>
                  if ghost_snapshot allSnapshots collection then
                    bind_st (on_cache (DeleteFile FileStorage collectionFile)) (\<lambda>_.
                      return_st (maxCollectionNumber, referencedFossils))
                  else
                    (case IsDeletable (clock_collection pe collectionName) (IsStrongConsistent (env_storage (pr_env pe)))
                        (opt_ignoredIDs opt) (snapshot_order pe 2 allSnapshots) collection of
                       (isDeletable, newSnapshots) \<Rightarrow>
                         bind_st
                           (if isDeletable \<or> opt_exclusive opt
                            then process_collection (pr_env pe) (pr_codec pe) (opt_dryRun opt) collectionFile collection newSnapshots
                            else return_st ()) (\<lambda>_.
                           return_st (maxCollectionNumber, referencedFossils @ Fossils collection))))))"

section \<open>Cleaning the snapshot cache\<close>

text \<open>\<open>ioutil.ReadFile\<close> of a file of the cache.\<close>

definition cache_read :: "string \<Rightarrow> (file_storage, goerror + bytes) prog" where
  "cache_read p =
     get_st (\<lambda>s. case os_read (path_Join (storageDir s) p) (fileTree s) of Inl e \<Rightarrow> Inl (os_error e) | Inr b \<Rightarrow> Inr b)"

text \<open>\<open>FindChunk\<close> whose error is ignored.\<close>

definition chunk_exists :: "('w, goerror + string \<times> bool \<times> int) prog \<Rightarrow> ('w, bool) prog" where
  "chunk_exists m = bind_st m (\<lambda>r. return_st (case r of Inr (_, exist, _) \<Rightarrow> exist | Inl _ \<Rightarrow> False))"

fun sequence_complete :: "'s operator_env \<Rightarrow> string list \<Rightarrow> ('s operator_state, bool) prog" where
  "sequence_complete env [] = return_st True"
| "sequence_complete env (chunkID # chunkIDs) =
     bind_st (chunk_exists (on_cache (FindChunk FileStorage chunkID False))) (\<lambda>exist.
     bind_st (if exist then return_st True else chunk_exists (on_storage (FindChunk (env_storage env) chunkID False))) (\<lambda>exist.
       if exist then sequence_complete env chunkIDs else return_st False))"

definition clean_snapshot_file ::
  "'s operator_env \<Rightarrow> json_codec \<Rightarrow> string list \<Rightarrow> string \<Rightarrow> string list \<Rightarrow> ('s operator_state, string list) prog" where
  "clean_snapshot_file env codec allSnapshotFiles snapshotFile chunks =
     bind_st (lift_res (index_slice snapshotFile (int (length snapshotFile) - 1))) (\<lambda>c.
       if c = CHR ''/'' then return_st chunks
       else
         let p = ''snapshots/'' @ snapshotFile;
             remove = bind_st (on_cache (DeleteFile FileStorage p)) (\<lambda>_. return_st chunks) in
         if snapshotFile \<notin> set allSnapshotFiles then remove
         else
           bind_st (on_cache (cache_read p)) (\<lambda>r.
             case r of
               Inl err \<Rightarrow> return_st chunks
             | Inr description \<Rightarrow>
                 (case CreateSnapshotFromDescription codec description of
                    Inl err \<Rightarrow> raise_st (LogError ''SNAPSHOT_CACHE'')
                  | Inr cachedSnapshot \<Rightarrow>
                      bind_st (chunk_ids env (ChunkSequence cachedSnapshot)) (\<lambda>chunkIDs.
                      bind_st (sequence_complete env chunkIDs) (\<lambda>isComplete.
                        if isComplete then return_st (chunks @ chunkIDs) else remove)))))"

definition clean_chunk_file :: "string list \<Rightarrow> string \<Rightarrow> ('s operator_state, unit) prog" where
  "clean_chunk_file chunks f =
     (if f \<noteq> [] \<and> last f \<noteq> CHR ''/'' \<and> remove_all f ''/'' \<notin> set chunks then
        bind_st (on_cache (DeleteFile FileStorage (''chunks/'' @ f))) (\<lambda>_. return_st ())
      else return_st ())"

definition snapshot_file :: "string \<Rightarrow> snapshot \<Rightarrow> string" where
  "snapshot_file sid snapshot = sid @ ''/'' @ show_int (Revision snapshot)"

text \<open>\<open>None\<close> for \<open>allSnapshots\<close> is nil.\<close>

definition CleanSnapshotCache ::
  "'s operator_env \<Rightarrow> json_codec \<Rightarrow> nat \<Rightarrow> snapshot option \<Rightarrow> snapshots option \<Rightarrow> ('s operator_state, unit) prog" where
  "CleanSnapshotCache env codec bound latestSnapshot allSnapshots =
     bind_st
       (if allSnapshots = None then
          bind_st (on_cache (GetFileInfo FileStorage ''fossils'')) (\<lambda>info.
            case info of
              Inl err \<Rightarrow> raise_st (LogError ''SNAPSHOT_CLEAN'')
            | Inr (exist, _, _) \<Rightarrow> return_st exist)
        else return_st False) (\<lambda>stop.
     if stop then return_st ()
     else
       bind_st (case latestSnapshot of
           None \<Rightarrow> return_st []
         | Some s \<Rightarrow> bind_st (GetSnapshotChunks env codec True s) (\<lambda>(chunks, _). return_st chunks)) (\<lambda>chunks.
       let allSnapshotFiles =
             concat (map (\<lambda>(sid, snapshotList). map (snapshot_file sid) snapshotList) (or_empty allSnapshots)) @
             (case latestSnapshot of None \<Rightarrow> [] | Some s \<Rightarrow> [snapshot_file (ID s) s]) in
       bind_st (on_cache (all_files bound FileStorage ''snapshots/'')) (\<lambda>allCachedSnapshots.
       bind_st (fold_st (clean_snapshot_file env codec allSnapshotFiles) allCachedSnapshots chunks) (\<lambda>chunks.
       bind_st (on_cache (all_files bound FileStorage chunkDir)) (\<lambda>allFiles.
         for_each allFiles (clean_chunk_file chunks))))))"

section \<open>PruneSnapshots\<close>

definition load_snapshots :: "'s operator_env \<Rightarrow> json_codec \<Rightarrow> ('s operator_state, snapshots) prog" where
  "load_snapshots env codec =
     bind_st (on_storage (ListSnapshotIDs (env_storage env))) (\<lambda>r.
       case r of
         Inl err \<Rightarrow> raise_st (LogError ''SNAPSHOT_LIST'')
       | Inr snapshotIDs \<Rightarrow>
           fold_st (\<lambda>sid allSnapshots.
             bind_st (ListSnapshotRevisions env sid) (\<lambda>r.
               case r of
                 Inl err \<Rightarrow> raise_st (LogError ''SNAPSHOT_LIST'')
               | Inr revisions \<Rightarrow>
                   bind_st (map_st (DownloadSnapshot env codec (Some (rewriteChunks env)) sid) (sort revisions)) (\<lambda>snapshots.
                     return_st (if snapshots = [] then allSnapshots else set_key sid snapshots allSnapshots)))) snapshotIDs [])"

definition delete_snapshot :: "'s operator_env \<Rightarrow> bool \<Rightarrow> snapshot \<Rightarrow> ('s operator_state, unit) prog" where
  "delete_snapshot env dry snapshot =
     (if \<not> Flag snapshot \<or> dry then return_st ()
      else
        bind_st (on_storage (DeleteFile (env_storage env) (snapshot_path (ID snapshot) (Revision snapshot)))) (\<lambda>err.
          if err \<noteq> None then raise_st (LogError ''SNAPSHOT_DELETE'')
          else bind_st (on_cache (DeleteFile FileStorage (snapshot_path (ID snapshot) (Revision snapshot)))) (\<lambda>_. return_st ())))"

definition add_deleted :: "snapshot \<Rightarrow> fossil_collection \<Rightarrow> fossil_collection" where
  "add_deleted snapshot collection =
     (if Flag snapshot then
        collection\<lparr>DeletedRevisions := set_key (ID snapshot)
          (or_empty (map_of (DeletedRevisions collection) (ID snapshot)) @ [Revision snapshot]) (DeletedRevisions collection)\<rparr>
      else collection)"

definition save_collection :: "'s prune_env \<Rightarrow> int \<Rightarrow> fossil_collection \<Rightarrow> ('s operator_state, unit) prog" where
  "save_collection pe maxCollectionNumber collection =
     (case collection_Marshal pe (collection\<lparr>collection_EndTime := clock_end pe\<rparr>) of
        Inl err \<Rightarrow> raise_st (LogError ''FOSSIL_COLLECT'')
      | Inr description \<Rightarrow>
          bind_st (on_cache (UploadFile FileStorage (''fossils/'' @ show_int (maxCollectionNumber + 1)) description)) (\<lambda>err.
            if err \<noteq> None then raise_st (LogError ''FOSSIL_COLLECT'') else return_st ()))"

text \<open>What is done after the snapshots have been selected; the fossils are those that the chunk
  operator has collected.\<close>

definition prune_selected ::
  "'s prune_env \<Rightarrow> prune_options \<Rightarrow> int \<Rightarrow> string list \<Rightarrow> snapshots \<Rightarrow> ('s operator_state, unit) prog" where
  "prune_selected pe opt maxCollectionNumber referencedFossils allSnapshots =
     (let env = pr_env pe; collection = CreateFossilCollection allSnapshots in
      bind_st
        (if opt_exhaustive opt
         then pruneSnapshotsExhaustive pe referencedFossils (opt_dryRun opt) (opt_exclusive opt) allSnapshots collection
         else bind_st (pruneSnapshotsNonExhaustive pe (opt_dryRun opt) (opt_exclusive opt) allSnapshots) (\<lambda>_.
                return_st collection)) (\<lambda>collection.
      bind_st (get_st fossils) (\<lambda>found.
      let collection = fold (\<lambda>(_, snapshots). fold add_deleted snapshots) (snapshot_order pe 3 allSnapshots)
            (fold AddFossil found collection) in
      bind_st
        (if \<not> IsEmpty collection \<and> \<not> opt_dryRun opt \<and> \<not> opt_exclusive opt
         then save_collection pe maxCollectionNumber collection else return_st ()) (\<lambda>_.
      bind_st (for_each (snapshot_order pe 4 allSnapshots) (\<lambda>(_, snapshots).
          for_each snapshots (delete_snapshot env (opt_dryRun opt)))) (\<lambda>_.
      let latestSnapshot = (case map_of allSnapshots (opt_selfID opt) of
            Some l \<Rightarrow> if l \<noteq> [] \<and> \<not> Flag (last l) then Some (last l) else None
          | None \<Rightarrow> None) in
        CleanSnapshotCache env (pr_codec pe) (list_bound pe) latestSnapshot (Some allSnapshots))))))"

definition PruneSnapshots :: "'s prune_env \<Rightarrow> prune_options \<Rightarrow> ('s operator_state, bool) prog" where
  "PruneSnapshots pe opt =
     (let env = (pr_env pe)\<lparr>rewriteChunks := False, allowFailures := False\<rparr>; pe = pe\<lparr>pr_env := env\<rparr> in
      bind_st (modify_st (\<lambda>w. w\<lparr>fossils := []\<rparr>)) (\<lambda>_.
      bind_st (if opt_revisions opt = [] \<and> opt_retentions opt \<noteq> []
               then lift_res (parse_retentions (opt_retentions opt)) else return_st []) (\<lambda>retentionPolicies.
      bind_st (load_snapshots env (pr_codec pe)) (\<lambda>allSnapshots.
      bind_st (on_cache (CreateDirectory FileStorage ''fossils'')) (\<lambda>err.
        if err \<noteq> None then raise_st (LogError ''FOSSIL_COLLECT'')
        else
      bind_st (on_cache (ListFiles FileStorage ''fossils'')) (\<lambda>r.
        case r of
          Inl err \<Rightarrow> raise_st (LogError ''FOSSIL_COLLECT'')
        | Inr collections \<Rightarrow>
      bind_st (fold_st (collection_step pe opt allSnapshots) (map fst collections) (0, [])) (\<lambda>(maxCollectionNumber, referencedFossils).
        if opt_deleteOnly opt then return_st True
        else
          (case select_snapshots (getDaysBetween pe) (clock_select pe) (opt_exclusive opt) (opt_snapshotID opt)
              (opt_revisions opt) (opt_tags opt) retentionPolicies allSnapshots of
             (allSnapshots, toBeDeleted) \<Rightarrow>
               if toBeDeleted = 0 \<and> \<not> opt_exhaustive opt then return_st False
               else bind_st (prune_selected pe opt maxCollectionNumber referencedFossils allSnapshots) (\<lambda>_. return_st True)))))))))"

end
