(* ===== verification/PruneSafety.thy ===== *)
theory PruneSafety
  imports Prune "HOL-Library.Multiset"
begin

text \<open>
  What pruning guarantees: no chunk that a remaining snapshot references is touched by the
  non-exhaustive prune, every chunk that only deleted snapshots reference becomes a fossil, the
  latest snapshot is protected, and a fossil collection is processed without losing a chunk that
  one of the new snapshots references.

  Which chunks a snapshot references is a matter of what its chunk sequence contains: \<open>references\<close>
  states it without a storage, by the contents that have the ids of the sequence. That such
  contents are unique is the assumption \<open>collision_free\<close> on the hash functions.
\<close>

section \<open>References\<close>

definition content_id :: "'s operator_env \<Rightarrow> string \<Rightarrow> bytes \<Rightarrow> bool" where
  "content_id env i content \<longleftrightarrow> (\<exists>h g.
     NewKeyedHasher (rt_hashes (env_runtime env)) (env_config env) (HashKey (env_config env)) = Inr h \<and>
     NewKeyedHasher (rt_hashes (env_runtime env)) (env_config env) (IDKey (env_config env)) = Inr g \<and>
     i = hex_encode (g (h content)))"

definition hash_id :: "'s operator_env \<Rightarrow> bytes \<Rightarrow> string \<Rightarrow> bool" where
  "hash_id env hash i \<longleftrightarrow> GetChunkIDFromHash (rt_hashes (env_runtime env)) (env_config env) hash = Inr i"

definition collision_free :: "'s operator_env \<Rightarrow> bool" where
  "collision_free env \<longleftrightarrow> (\<forall>i c d. content_id env i c \<longrightarrow> content_id env i d \<longrightarrow> c = d)"

text \<open>Contents whose ids are those of the hashes.\<close>

definition loads :: "'s operator_env \<Rightarrow> bytes list \<Rightarrow> bytes list \<Rightarrow> bool" where
  "loads env hashes contents \<longleftrightarrow> list_all2 (\<lambda>h c. \<exists>i. hash_id env h i \<and> content_id env i c) hashes contents"

definition file_hashes :: "'s operator_env \<Rightarrow> json_codec \<Rightarrow> snapshot \<Rightarrow> bytes list \<Rightarrow> bool" where
  "file_hashes env codec s hashes \<longleftrightarrow>
     (if ChunkHashes s \<noteq> [] then hashes = ChunkHashes s
      else \<exists>contents s'. loads env (ChunkSequence s) contents \<and> LoadChunks codec (concat contents) s = Inr s' \<and>
        hashes = ChunkHashes s')"

definition references :: "'s operator_env \<Rightarrow> json_codec \<Rightarrow> snapshot \<Rightarrow> string \<Rightarrow> bool" where
  "references env codec s i \<longleftrightarrow> (\<exists>hashes. file_hashes env codec s hashes \<and>
     (\<exists>h \<in> set (FileSequence s @ ChunkSequence s @ LengthSequence s @ hashes). hash_id env h i))"

lemma loads_unique:
  assumes "collision_free env" and "loads env hashes c" and "loads env hashes d"
  shows "c = d"
  using assms(2,3) unfolding loads_def
proof (induction hashes arbitrary: c d)
  case (Cons h hashes)
  then show ?case
    using assms(1) by (auto simp: list_all2_Cons1 collision_free_def hash_id_def)
qed simp

lemma file_hashes_unique:
  assumes "collision_free env" and "file_hashes env codec s a" and "file_hashes env codec s b"
  shows "a = b"
  using assms loads_unique [OF assms(1)] by (fastforce simp: file_hashes_def split: if_splits)

section \<open>What GetSnapshotChunks returns\<close>

lemma Download_content:
  assumes "\<not> allowFailures env"
  shows "yields (\<lambda>chunk. \<exists>c. chunk_buffer chunk = Some c \<and> (\<exists>i. hash_id env hash i \<and> content_id env i c))
    (Download env hash idx m)"
proof -
  have "\<exists>c. chunk_buffer chunk = Some c \<and> (\<exists>i. hash_id env hash i \<and> content_id env i c)"
    if r: "Download env hash idx m s = (Inr chunk, t)" for s chunk t
  proof -
    from r obtain i where i: "GetChunkIDFromHash (rt_hashes (env_runtime env)) (env_config env) hash = Inr i"
      by (cases "GetChunkIDFromHash (rt_hashes (env_runtime env)) (env_config env) hash") (auto simp: Download_def)
    let ?task = "\<lparr>operation = ChunkOperationDownload, task_chunkID = i, task_chunkHash = hash, task_chunkIndex = idx,
      task_filePath = [], task_isMetadata = m, task_chunk = None\<rparr>"
    from r i have "DownloadChunk env ?task s = (Inr chunk, t)"
      by (auto simp: Download_def Run_def bind_st_def split: prod.splits sum.splits)
    then have "if chunk_isBroken chunk then allowFailures env else has_id env i chunk"
      using yieldsD [OF yields_DownloadChunk] by fastforce
    with assms i show ?thesis by (auto simp: has_id_def hash_id_def content_id_def split: if_splits)
  qed
  then show ?thesis unfolding yields_def by blast
qed

lemma DownloadSequence_content:
  assumes "\<not> allowFailures env"
  shows "yields (\<lambda>content. \<exists>contents. loads env hashes contents \<and> content = concat contents) (DownloadSequence env hashes)"
proof -
  let ?I = "\<lambda>seen content. \<exists>contents. loads env seen contents \<and> content = concat contents"
  have "yields (?I ([] @ hashes)) (DownloadSequence env hashes)"
    unfolding DownloadSequence_def
  proof (rule yields_fold_st [of ?I])
    show "?I [] []" by (simp add: loads_def)
  next
    fix hash content seen
    assume "?I seen content"
    then obtain contents where c: "loads env seen contents" "content = concat contents" by blast
    show "yields (?I (seen @ [hash]))
        (bind_st (Download env hash 0 True) (\<lambda>chunk. bind_st (lift_res (GetBytes chunk)) (\<lambda>bs. return_st (content @ bs))))"
    proof (rule yields_bind [OF Download_content [OF assms]])
      fix chunk :: chunk
      assume "\<exists>c. chunk_buffer chunk = Some c \<and> (\<exists>i. hash_id env hash i \<and> content_id env i c)"
      then obtain d where d: "chunk_buffer chunk = Some d" "\<exists>i. hash_id env hash i \<and> content_id env i d" by blast
      then have "loads env (seen @ [hash]) (contents @ [d])"
        using c(1) by (simp add: loads_def list_all2_appendI)
      with c(2) d(1) show "yields (?I (seen @ [hash])) (bind_st (lift_res (GetBytes chunk)) (\<lambda>bs. return_st (content @ bs)))"
        by (simp add: GetBytes_def) (intro yields_Pair exI [of _ "contents @ [d]"], simp)
    qed
  qed
  then show ?thesis by simp
qed

lemma chunk_ids_content: "yields (list_all2 (hash_id env) hashes) (chunk_ids env hashes)"
  unfolding chunk_ids_def by (intro yields_map_st yields_lift) (simp add: hash_id_def)

lemma list_all2_hash_id:
  "list_all2 (hash_id env) hashes ids \<Longrightarrow> set ids = {i. \<exists>h \<in> set hashes. hash_id env h i}"
  by (induction hashes ids rule: list_all2_induct) (auto simp: hash_id_def)

lemma GetSnapshotChunks_references:
  assumes "\<not> allowFailures env" and "collision_free env"
  shows "yields (\<lambda>(chunks, _). set chunks = {i. references env codec s i}) (GetSnapshotChunks env codec keep s)"
proof -
  let ?seq = "FileSequence s @ ChunkSequence s @ LengthSequence s"
  let ?load = "if ChunkHashes s = [] then
      bind_st (DownloadSequence env (ChunkSequence s)) (\<lambda>description.
        case LoadChunks codec description s of
          Inl err \<Rightarrow> raise_st (LogError ''SNAPSHOT_CHUNK'') | Inr snapshot' \<Rightarrow> return_st snapshot')
      else return_st s"
  have load: "yields (\<lambda>s'. file_hashes env codec s (ChunkHashes s')) ?load"
  proof (cases "ChunkHashes s = []")
    case True
    have "yields (\<lambda>s'. file_hashes env codec s (ChunkHashes s')) (case LoadChunks codec content s of
        Inl err \<Rightarrow> raise_st (LogError ''SNAPSHOT_CHUNK'') | Inr snapshot' \<Rightarrow> return_st snapshot')"
      if "\<exists>contents. loads env (ChunkSequence s) contents \<and> content = concat contents" for content
      using that True by (auto simp: file_hashes_def intro!: yielding split: sum.splits)
    from yields_bind [OF DownloadSequence_content [OF assms(1)] this] True show ?thesis by simp
  next
    case False
    then show ?thesis by (simp add: yields_return file_hashes_def)
  qed
  have fin: "set (chunks @ more) = {i. references env codec s i}"
    if c: "list_all2 (hash_id env) ?seq chunks" and h: "file_hashes env codec s (ChunkHashes s')"
      and m: "list_all2 (hash_id env) (ChunkHashes s') more" for chunks s' more
  proof -
    have "file_hashes env codec s hashes \<longleftrightarrow> hashes = ChunkHashes s'" for hashes
      using h file_hashes_unique [OF assms(2) h] by metis
    then have "references env codec s i \<longleftrightarrow> (\<exists>x \<in> set (?seq @ ChunkHashes s'). hash_id env x i)" for i
      by (simp add: references_def)
    then show ?thesis using list_all2_hash_id [OF c] list_all2_hash_id [OF m] by auto
  qed
  show ?thesis
    unfolding GetSnapshotChunks_def
  proof (rule yields_bind [OF chunk_ids_content], rule yields_bind [OF load], rule yields_bind [OF chunk_ids_content])
    fix chunks more and s' :: snapshot
    assume "list_all2 (hash_id env) ?seq chunks" "file_hashes env codec s (ChunkHashes s')"
      "list_all2 (hash_id env) (ChunkHashes s') more"
    from fin [OF this] show "yields (\<lambda>(chunks, _). set chunks = {i. references env codec s i})
        (return_st (chunks @ more, if keep then s' else ClearChunks s'))"
      by (intro yields_return) simp
  qed
qed

section \<open>Reading leaves the storage alone\<close>

lemma keeps_on_cache [hoare]: "keeps (\<lambda>w. P (op_storage w)) (on_cache m)"
  by (simp add: keeps_def on_cache_def split: option.splits prod.splits)

lemma keeps_next_entropy [hoare]: "keeps (\<lambda>w. P (op_storage w)) next_entropy"
  by (simp add: keeps_def next_entropy_def)

lemma keeps_add_fossil [hoare]: "keeps (\<lambda>w. P (op_storage w)) (add_fossil p)"
  by (simp add: keeps_def add_fossil_def)

lemma keeps_on_storage: "keeps P m \<Longrightarrow> keeps (\<lambda>w. P (op_storage w)) (on_storage m)"
  unfolding on_storage_def by (rule keeps_zoom [where R = P]) simp_all

lemma keeps_chunk_ids [hoare]: "keeps P (chunk_ids env hashes)"
  unfolding chunk_ids_def by (intro hoare)

lemma keeps_op [hoare]:
  "keeps P (op_GetID env chunk)" "keeps P (op_GetHash env chunk)" "keeps P (op_Decrypt env k d chunk)"
  unfolding op_GetID_def op_GetHash_def op_Decrypt_def by (intro hoare)+

lemma keeps_download_failed [hoare]: "keeps (\<lambda>w. P (op_storage w)) (download_failed env logID chunk)"
  unfolding download_failed_def by (intro hoare keeps_modify) simp

lemma keeps_download_cached [hoare]: "keeps (\<lambda>w. P (op_storage w)) (download_cached env i chunk)"
  unfolding download_cached_def Let_def by (intro hoare)

lemma keeps_fold_pairs: "(\<And>l b. keeps P (g l b)) \<Longrightarrow> keeps P (fold_st (\<lambda>(a, l). g l) all b)"
  by (rule keeps_fold_st) (simp split: prod.splits)

context storage_laws
begin

definition same_state :: "'s \<Rightarrow> 's \<Rightarrow> bool" where
  "same_state s t \<longleftrightarrow> t = s \<and> ok s"

lemma keeps_info: "keeps (same_state s) (GetFileInfo st p)"
  using info_state by (simp add: keeps_def same_state_def)

lemma keeps_get_file: "keeps (same_state s) (DownloadFile st p)"
  using download_state by (simp add: keeps_def same_state_def)

lemma keeps_list: "keeps (same_state s) (ListFiles st p)"
proof (rule keepsI)
  fix t r u
  assume "same_state s t" "ListFiles st p t = (r, u)"
  then show "same_state s u" using list_files [of t p] by (auto simp: same_state_def)
qed

lemma keeps_find_levels: "keeps (same_state s) (find_levels st i f levels ps)"
proof (induction levels arbitrary: ps)
  case (Cons l levels)
  show ?case
    unfolding find_levels.simps
    by (intro hoare keeps_info) (auto intro!: hoare Cons split: bool.splits)
qed (simp add: hoare)

lemma keeps_FindChunk: "keeps (same_state s) (FindChunk st i f)"
  unfolding FindChunk_def by (intro hoare keeps_find_levels)

lemmas reads = keeps_on_storage [OF keeps_FindChunk] keeps_on_storage [OF keeps_get_file] keeps_on_storage [OF keeps_list]
  keeps_on_storage [OF keeps_info]

lemma keeps_check_download:
  assumes "env_storage env = st" and "\<not> rewriteChunks env"
    and "\<And>next c. again = Some next \<Longrightarrow> keeps (\<lambda>w. same_state s (op_storage w)) (next c)"
  shows "keeps (\<lambda>w. same_state s (op_storage w)) (check_download env task again p q r chunk)"
  unfolding check_download_def Let_def
  by (intro hoare) (use assms in \<open>auto intro!: hoare split: option.splits\<close>)

lemma keeps_download_attempt:
  assumes "env_storage env = st" and "\<not> rewriteChunks env"
    and "\<And>next f c. again = Some next \<Longrightarrow> keeps (\<lambda>w. same_state s (op_storage w)) (next f c)"
  shows "keeps (\<lambda>w. same_state s (op_storage w)) (download_attempt env task again fossilPath chunk)"
proof -
  have loc: "keeps (\<lambda>w. same_state s (op_storage w)) (locate_chunk env i f)" for i f
    unfolding locate_chunk_def assms(1)
    by (intro hoare reads) (auto intro!: hoare reads split: bool.splits)
  show ?thesis
    unfolding download_attempt_def Let_def assms(1)
    by (intro hoare loc reads keeps_check_download [OF assms(1,2)])
      (use assms(3) in \<open>auto intro!: hoare split: option.splits\<close>)
qed

lemma keeps_download_loop:
  assumes "env_storage env = st" and "\<not> rewriteChunks env"
  shows "keeps (\<lambda>w. same_state s (op_storage w)) (download_loop env task n fossilPath chunk)"
  by (induction n arbitrary: fossilPath chunk) (auto intro!: keeps_download_attempt [OF assms])

lemma keeps_Download:
  assumes "env_storage env = st" and "\<not> rewriteChunks env"
  shows "keeps (\<lambda>w. same_state s (op_storage w)) (Download env hash idx m)"
proof -
  have "keeps (\<lambda>w. same_state s (op_storage w)) (DownloadChunk env task)" for task
    unfolding DownloadChunk_def Let_def by (intro hoare keeps_download_loop [OF assms] keeps_modify) simp
  then show ?thesis
    unfolding Download_def Run_def by (intro hoare) (simp add: hoare)
qed

lemma keeps_GetSnapshotChunks:
  assumes "env_storage env = st" and "\<not> rewriteChunks env"
  shows "keeps (\<lambda>w. same_state s (op_storage w)) (GetSnapshotChunks env codec keep snapshot)"
  unfolding GetSnapshotChunks_def DownloadSequence_def by (intro hoare keeps_Download [OF assms])

lemma keeps_visit_snapshots:
  assumes "env_storage env = st" and "\<not> rewriteChunks env"
  shows "keeps (\<lambda>w. same_state s (op_storage w)) (visit_snapshots env codec flag update snapshots m)"
  unfolding visit_snapshots_def by (intro hoare keeps_GetSnapshotChunks [OF assms])

lemma keeps_marking:
  assumes "env_storage env = st" and "\<not> rewriteChunks env"
  shows "keeps (\<lambda>w. same_state s (op_storage w)) (target_chunks env codec ex all m)"
    and "keeps (\<lambda>w. same_state s (op_storage w)) (mark_referenced env codec all m)"
    and "keeps (\<lambda>w. same_state s (op_storage w)) (referenced_chunks env codec ex all m)"
    and "keeps (\<lambda>w. same_state s (op_storage w)) (new_chunks env codec l)"
  unfolding target_chunks_def mark_referenced_def referenced_chunks_def check_latest_def new_chunks_def
  by (rule keeps_fold_pairs | intro hoare keeps_visit_snapshots [OF assms] keeps_GetSnapshotChunks [OF assms])+

end

section \<open>Which chunks are targets\<close>

lemma keys_set_key: "set (map fst (set_key k v m)) = insert k (set (map fst m))"
  by (induction k v m rule: set_key.induct) auto

lemma distinct_set_key: "distinct (map fst m) \<Longrightarrow> distinct (map fst (set_key k v m))"
  by (induction k v m rule: set_key.induct) (simp_all add: keys_set_key del: set_map)

lemma map_of_set_key: "map_of (set_key k v m) = (map_of m)(k \<mapsto> v)"
  by (induction k v m rule: set_key.induct) (auto simp: fun_eq_iff)

lemma map_of_fold_set_key: "map_of (fold (\<lambda>c. set_key c v) cs m) i = (if i \<in> set cs then Some v else map_of m i)"
  by (induction cs arbitrary: m) (auto simp: map_of_set_key)

lemma map_of_mark_found:
  "map_of (mark_found cs m) i = (if i \<in> set cs \<and> map_of m i \<noteq> None then Some True else map_of m i)"
proof (induction cs arbitrary: m)
  case (Cons c cs)
  have "c \<in> set (map fst m) \<longleftrightarrow> map_of m c \<noteq> None" by (simp add: map_of_eq_None_iff)
  then show ?case using Cons [of m] Cons [of "set_key c True m"] by (auto simp: mark_found_def map_of_set_key)
qed (simp add: mark_found_def)

lemma distinct_marks:
  "distinct (map fst m) \<Longrightarrow> distinct (map fst (fold (\<lambda>c. set_key c v) cs m))"
  "distinct (map fst m) \<Longrightarrow> distinct (map fst (mark_found cs m))"
  by (induction cs arbitrary: m) (simp_all add: distinct_set_key mark_found_def)

text \<open>The chunks that a snapshot with the given flag references.\<close>

definition referenced_by :: "'s operator_env \<Rightarrow> json_codec \<Rightarrow> bool \<Rightarrow> snapshot list \<Rightarrow> string \<Rightarrow> bool" where
  "referenced_by env codec flag l i \<longleftrightarrow> (\<exists>s \<in> set l. Flag s = flag \<and> references env codec s i)"

definition members :: "snapshots \<Rightarrow> snapshot list" where
  "members all = concat (map snd all)"

lemma referenced_by_simps [simp]:
  "\<not> referenced_by env codec b [] i"
  "referenced_by env codec b (l @ l') i \<longleftrightarrow> referenced_by env codec b l i \<or> referenced_by env codec b l' i"
  "referenced_by env codec b [s] i \<longleftrightarrow> Flag s = b \<and> references env codec s i"
  by (auto simp: referenced_by_def)

lemma visit_yields:
  assumes "\<not> allowFailures env" and "collision_free env"
    and "\<And>chunks m i. map_of (update chunks m) i = (if i \<in> set chunks then f (map_of m i) else map_of m i)"
    and "\<And>chunks m. distinct (map fst m) \<Longrightarrow> distinct (map fst (update chunks m))"
    and "\<And>x. f (f x) = f x" and "distinct (map fst m)"
  shows "yields (\<lambda>m'. distinct (map fst m') \<and>
      (\<forall>i. map_of m' i = (if referenced_by env codec flag l i then f (map_of m i) else map_of m i)))
    (visit_snapshots env codec flag update l m)"
proof -
  let ?I = "\<lambda>seen m'. distinct (map fst m') \<and>
    (\<forall>i. map_of m' i = (if referenced_by env codec flag seen i then f (map_of m i) else map_of m i))"
  have "yields (?I ([] @ l)) (visit_snapshots env codec flag update l m)"
    unfolding visit_snapshots_def
  proof (rule yields_fold_st [of ?I])
    show "?I [] m" using assms(6) by simp
  next
    fix s m' seen
    assume I: "?I seen m'"
    have "yields (?I (seen @ [s])) (return_st (update chunks m'))"
      if "Flag s = flag" "set chunks = {i. references env codec s i}" for chunks
      using that I assms(3,4,5) by (intro yields_return) auto
    then have "yields (?I (seen @ [s]))
        (bind_st (GetSnapshotChunks env codec False s) (\<lambda>(chunks, _). return_st (update chunks m')))" if "Flag s = flag"
      by (intro yields_bind [OF GetSnapshotChunks_references [OF assms(1,2)]]) (use that in \<open>auto split del: if_split\<close>)
    with I show "yields (?I (seen @ [s]))
        (if Flag s \<noteq> flag then return_st m'
         else bind_st (GetSnapshotChunks env codec False s) (\<lambda>(chunks, _). return_st (update chunks m')))"
      by (cases "Flag s = flag") (simp_all add: yields_return)
  qed
  then show ?thesis by simp
qed

lemma fold_visit_yields:
  assumes "\<And>l m. distinct (map fst m) \<Longrightarrow> yields (\<lambda>m'. distinct (map fst m') \<and>
      (\<forall>i. map_of m' i = (if referenced_by env codec flag l i then f (map_of m i) else map_of m i))) (g l m)"
    and "\<And>x. f (f x) = f x" and "distinct (map fst m)"
  shows "yields (\<lambda>m'. distinct (map fst m') \<and>
      (\<forall>i. map_of m' i = (if referenced_by env codec flag (members all) i then f (map_of m i) else map_of m i)))
    (fold_st (\<lambda>(_, l). g l) all m)"
proof -
  let ?I = "\<lambda>seen m'. distinct (map fst m') \<and>
    (\<forall>i. map_of m' i = (if referenced_by env codec flag (members seen) i then f (map_of m i) else map_of m i))"
  have "yields (?I ([] @ all)) (fold_st (\<lambda>(_, l). g l) all m)"
  proof (rule yields_fold_st [of ?I])
    show "?I [] m" using assms(3) by (simp add: members_def)
  next
    fix m' seen and x :: "string \<times> snapshot list"
    assume I: "?I seen m'"
    obtain a and l :: "snapshot list" where x: "x = (a, l)" by (cases x)
    have "yields (\<lambda>m''. distinct (map fst m'') \<and>
      (\<forall>i. map_of m'' i = (if referenced_by env codec flag l i then f (map_of m' i) else map_of m' i))) (g l m')"
      using I assms(1) by blast
    then show "yields (?I (seen @ [x])) ((case x of (_, l) \<Rightarrow> g l) m')"
      unfolding x prod.case by (rule yields_weaken) (use I assms(2) in \<open>auto simp: members_def\<close>)
  qed
  then show ?thesis by simp
qed

lemma target_chunks_yields:
  assumes "\<not> allowFailures env" and "collision_free env"
  shows "yields (\<lambda>m. distinct (map fst m) \<and>
      (\<forall>i. map_of m i = (if referenced_by env codec True (members all) i then Some False else None)))
    (target_chunks env codec ex all [])"
proof -
  have "yields (\<lambda>m'. distinct (map fst m') \<and>
      (\<forall>i. map_of m' i = (if referenced_by env codec True (members all) i then Some False else map_of [] i)))
    (target_chunks env codec ex all [])"
    unfolding target_chunks_def
    by (rule fold_visit_yields [where f = "\<lambda>_. Some False"], rule yields_then,
        rule visit_yields [OF assms, where f = "\<lambda>_. Some False"])
      (simp_all add: map_of_fold_set_key distinct_marks)
  then show ?thesis by (simp only: map_of.simps cong: if_cong)
qed

lemma mark_referenced_yields:
  assumes "\<not> allowFailures env" and "collision_free env" and "distinct (map fst m)"
  shows "yields (\<lambda>m'. distinct (map fst m') \<and>
      (\<forall>i. map_of m' i = (if referenced_by env codec False (members all) i then map_option (\<lambda>_. True) (map_of m i) else map_of m i)))
    (mark_referenced env codec all m)"
  unfolding mark_referenced_def
  by (rule fold_visit_yields [where f = "map_option (\<lambda>_. True)"], rule visit_yields [OF assms(1,2), where f = "map_option (\<lambda>_. True)"])
    (use assms(3) in \<open>auto simp: map_of_mark_found distinct_marks option.map_comp comp_def split: option.splits\<close>)

lemma referenced_chunks_yields:
  assumes "\<not> allowFailures env" and "collision_free env"
  shows "yields (\<lambda>m. distinct (map fst m) \<and>
      (\<forall>i. map_of m i = (if referenced_by env codec False (members all) i then Some False else None)))
    (referenced_chunks env codec ex all [])"
proof -
  have "yields (\<lambda>m'. distinct (map fst m') \<and>
      (\<forall>i. map_of m' i = (if referenced_by env codec False (members all) i then Some False else map_of [] i)))
    (referenced_chunks env codec ex all [])"
    unfolding referenced_chunks_def
    by (rule fold_visit_yields [where f = "\<lambda>_. Some False"], rule yields_then,
        rule visit_yields [OF assms, where f = "\<lambda>_. Some False"])
      (simp_all add: map_of_fold_set_key distinct_marks)
  then show ?thesis by (simp only: map_of.simps cong: if_cong)
qed

section \<open>What the tasks touch\<close>

context storage_laws
begin

text \<open>All chunk ids are ready, the levels are as given, and the files of one chunk have the given
  contents.\<close>

definition intact :: "string set \<Rightarrow> int list \<Rightarrow> string \<Rightarrow> (bool \<Rightarrow> int \<Rightarrow> bytes option) \<Rightarrow> 's \<Rightarrow> bool" where
  "intact ids levels i c s \<longleftrightarrow> (\<forall>j \<in> ids. ready j s) \<and> readLevels st s = levels \<and>
     (\<forall>f. \<forall>l \<in> set levels. content s (chunk_file i f l) = c f l)"

lemma intact_settled:
  assumes "intact ids levels i c s" and "i \<in> ids"
    and set: "settled st ok content s d s'" and dirs: "\<And>q. isdir s' q \<Longrightarrow> isdir s q"
    and "\<And>f l. l \<in> set levels \<Longrightarrow> d (chunk_file i f l) = content s (chunk_file i f l)"
  shows "intact ids levels i c s'"
proof -
  have "ready j s'" if "j \<in> ids" for j
    using assms(1) that dirs by (intro settled_ready [OF _ set]) (auto simp: intact_def)
  moreover have "content s' (chunk_file i f l) = c f l" if "l \<in> set levels" for f l
    using settled_files [OF set ready_path(3)] assms that by (auto simp: intact_def)
  ultimately show ?thesis using assms(1) settled_levels [OF set] by (simp add: intact_def)
qed

lemma intact_other:
  assumes "intact ids levels i c s" and "i \<in> ids" and "j \<in> ids" and "i \<noteq> j"
  shows "chunk_file i f l \<noteq> chunk_file j g k"
  using chunk_file_eq_iff [of i j f l g k] assms by (auto simp: intact_def ready_def)

text \<open>The paths of the files of a chunk.\<close>

definition own_path :: "int list \<Rightarrow> string \<Rightarrow> string \<Rightarrow> bool" where
  "own_path levels j p \<longleftrightarrow> (\<exists>f. \<exists>l \<in> set levels. p = chunk_file j f l)"

lemma own_path_facts:
  assumes "intact ids levels i c s" and "j \<in> ids" and "own_path levels j p"
  shows "plain p" and "\<not> isdir s p"
  using assms ready_path [of j s] by (auto simp: own_path_def intact_def)

text \<open>Deleting or moving a file that does not belong to the chunk keeps it intact.\<close>

definition foreign :: "string set \<Rightarrow> int list \<Rightarrow> string \<Rightarrow> (bool \<Rightarrow> int \<Rightarrow> bytes option) \<Rightarrow> string \<Rightarrow> bool" where
  "foreign ids levels i c p \<longleftrightarrow> (\<forall>s. intact ids levels i c s \<longrightarrow> plain p \<and> \<not> isdir s p) \<and> \<not> own_path levels i p"

lemma foreign_own:
  assumes "i \<in> ids" and "j \<in> ids" and "i \<noteq> j" and "own_path levels j p" and "valid_id i" and "valid_id j"
  shows "foreign ids levels i c p"
  unfolding foreign_def
proof (intro conjI allI impI notI)
  fix s
  assume "intact ids levels i c s"
  from own_path_facts [OF this assms(2,4)] show "plain p" and "isdir s p \<Longrightarrow> False" by auto
next
  assume "own_path levels i p"
  with assms(3,4) chunk_file_eq_iff [OF assms(5,6)] show False unfolding own_path_def by metis
qed

lemma keeps_delete_path:
  assumes "i \<in> ids" and "plain p" and "\<not> own_path levels i p"
  shows "keeps (intact ids levels i c) (DeleteFile st p)"
proof (rule keepsI)
  fix s r t
  assume s: "intact ids levels i c s" and r: "DeleteFile st p s = (r, t)"
  then have "ok s" using assms by (auto simp: intact_def ready_def)
  from delete_file [OF this assms(2)] r obtain e :: "goerror option" where
    "\<And>q. isdir t q \<Longrightarrow> isdir s q" "settled st ok content s (if e = None then (content s)(p := None) else content s) t" by auto
  then show "intact ids levels i c t"
    by (elim intact_settled [OF s assms(1), rotated]) (use assms(3) in \<open>auto simp: own_path_def\<close>)
qed

lemma keeps_delete_foreign:
  assumes "i \<in> ids" and "foreign ids levels i c p"
  shows "keeps (intact ids levels i c) (DeleteFile st p)"
proof (cases "plain p")
  case True
  then show ?thesis using assms by (intro keeps_delete_path) (auto simp: foreign_def)
next
  case False
  with assms(2) have "\<not> intact ids levels i c s" for s by (auto simp: foreign_def)
  then show ?thesis by (simp add: keeps_def)
qed

lemma keeps_move_foreign:
  assumes "i \<in> ids" and "foreign ids levels i c p" and "foreign ids levels i c q"
  shows "keeps (intact ids levels i c) (MoveFile st p q)"
proof (rule keepsI)
  fix s r t
  assume s: "intact ids levels i c s" and r: "MoveFile st p q s = (r, t)"
  then have f: "ok s" "plain p" "\<not> isdir s p" "plain q" "\<not> isdir s q"
    using assms by (auto simp: intact_def ready_def foreign_def)
  show "intact ids levels i c t"
  proof (cases "content s p")
    case None
    with move_missing [OF f(1,2) None f(3,4)] r s show ?thesis by auto
  next
    case (Some b)
    from move_file [OF f(1) Some f(4,5)] r obtain e :: "goerror option" where
      "\<And>q. isdir t q \<Longrightarrow> isdir s q"
      "settled st ok content s (if e = None then (content s)(p := None, q \<mapsto> b) else content s) t" by auto
    then show ?thesis
      by (elim intact_settled [OF s assms(1), rotated]) (use assms(2,3) in \<open>auto simp: foreign_def own_path_def\<close>)
  qed
qed

text \<open>Looking for a chunk gives one of its paths.\<close>

lemma keeps_same_state:
  assumes "\<And>s. keeps (same_state s) m" and "\<And>s. P s \<Longrightarrow> ok s"
  shows "keeps P m"
proof (rule keepsI)
  fix s r t
  assume "P s" "m s = (r, t)"
  with keepsD [OF assms(1) [of s], of s] assms(2) show "P t" by (auto simp: same_state_def)
qed

lemma intact_ok: "i \<in> ids \<Longrightarrow> intact ids levels i c s \<Longrightarrow> ok s"
  by (auto simp: intact_def ready_def)

definition found_path :: "int list \<Rightarrow> string \<Rightarrow> bool \<Rightarrow> goerror + string \<times> bool \<times> int \<Rightarrow> bool" where
  "found_path levels j f r \<longleftrightarrow> (\<exists>l \<in> set levels. \<exists>b n. r = Inr (chunk_file j f l, b, n))"

lemma FindChunk_path:
  assumes "j \<in> ids" and "intact ids levels i c s" and "FindChunk st j f s = (Inr r, t)"
  shows "found_path levels j f r"
proof -
  have r: "ready j s" "readLevels st s = levels" using assms(1,2) by (auto simp: intact_def)
  show ?thesis
    using assms(3) ready_FindChunk [OF r(1), of f] write_level_in [OF r(1)] r(2) stored_at_content [of j f s]
    by (auto simp: found_path_def split: list.splits)
qed

text \<open>A program that starts by looking for a chunk.\<close>

lemma keeps_bind_FindChunk:
  assumes "env_storage env = st" and "i \<in> ids" and "j \<in> ids"
    and "\<And>r. found_path levels j f r \<Longrightarrow> keeps (\<lambda>w. intact ids levels i c (op_storage w)) (g r)"
  shows "keeps (\<lambda>w. intact ids levels i c (op_storage w)) (bind_st (on_storage (FindChunk (env_storage env) j f)) g)"
proof (rule keepsI)
  fix w r t
  assume w: "intact ids levels i c (op_storage w)"
    and b: "bind_st (on_storage (FindChunk (env_storage env) j f)) g w = (r, t)"
  have same: "snd (FindChunk st j f (op_storage w)) = op_storage w"
    using keepsD [OF keeps_FindChunk [of "op_storage w" j f], of "op_storage w"] intact_ok [OF assms(2) w]
    by (metis prod.collapse same_state_def)
  obtain x where x: "FindChunk st j f (op_storage w) = (x, op_storage w)" using same by (metis prod.collapse)
  show "intact ids levels i c (op_storage t)"
  proof (cases x)
    case (Inl e)
    with b x w show ?thesis by (simp add: assms(1) bind_st_def on_storage_run)
  next
    case (Inr y)
    with b x have "g y w = (r, t)" by (simp add: assms(1) bind_st_def on_storage_run)
    with keepsD [OF assms(4)] w FindChunk_path [OF assms(3) w] x Inr show ?thesis by metis
  qed
qed

lemma keeps_Fossilize_other:
  assumes "env_storage env = st" and "i \<in> ids" and "j \<in> ids" and "i \<noteq> j" and "valid_id i" and "valid_id j"
  shows "keeps (\<lambda>w. intact ids levels i c (op_storage w)) (Fossilize env j [])"
proof -
  note own = foreign_own [OF assms(2-4) _ assms(5,6)]
  have find: "keeps (\<lambda>w. intact ids levels i c (op_storage w)) (on_storage (FindChunk (env_storage env) j True))"
    unfolding assms(1) by (rule keeps_on_storage [OF keeps_same_state [OF keeps_FindChunk intact_ok [OF assms(2)]]])
  have fossilize: "keeps (\<lambda>w. intact ids levels i c (op_storage w)) (fossilize_chunk env j (chunk_file j False l))"
    if "l \<in> set levels" for l
  proof -
    have "own_path levels j (chunk_file j f l)" for f using that by (auto simp: own_path_def)
    note del = keeps_on_storage [OF keeps_delete_foreign [OF assms(2) own [OF this]]]
      and mov = keeps_on_storage [OF keeps_move_foreign [OF assms(2) own [OF this] own [OF this]]]
    show ?thesis
      unfolding fossilize_chunk_def Let_def fossil_path [symmetric] assms(1)
      by (intro hoare mov find [unfolded assms(1)]) (auto intro!: hoare del split: bool.splits)
  qed
  show ?thesis
    unfolding Fossilize_def Run_def chunk_task_def task_path_def
  proof (simp add: bind_st_assoc, rule keeps_bind_FindChunk [OF assms(1-3)], goal_cases)
    case (1 r)
    then obtain l b n where r: "r = Inr (chunk_file j False l, b, n)" "l \<in> set levels" by (auto simp: found_path_def)
    show ?case
    proof (cases b)
      case True
      with r fossilize show ?thesis by (auto intro!: hoare)
    next
      case False
      show ?thesis
        unfolding r(1)
        by (simp add: False bind_st_assoc, rule keeps_bind_FindChunk [OF assms(1-3)])
          (auto simp: found_path_def bind_st_assoc split: bool.split, auto intro!: hoare)
    qed
  qed
qed

lemma keeps_Delete_path:
  assumes "env_storage env = st" and "i \<in> ids" and "foreign ids levels i c p" and "p \<noteq> []"
  shows "keeps (\<lambda>w. intact ids levels i c (op_storage w)) (Delete env j p)"
  unfolding Delete_def Run_def chunk_task_def task_path_def
  by (simp add: assms(4) delete_chunk_def assms(1))
    (intro hoare keeps_on_storage keeps_delete_foreign [OF assms(2,3)])

lemma keeps_Delete_other:
  assumes "env_storage env = st" and "i \<in> ids" and "j \<in> ids" and "i \<noteq> j" and "valid_id i" and "valid_id j"
  shows "keeps (\<lambda>w. intact ids levels i c (op_storage w)) (Delete env j [])"
  unfolding Delete_def Run_def chunk_task_def task_path_def
proof (simp add: bind_st_assoc, rule keeps_bind_FindChunk [OF assms(1-3)], goal_cases)
  case (1 r)
  then obtain l b n where r: "r = Inr (chunk_file j False l, b, n)" "l \<in> set levels" by (auto simp: found_path_def)
  then have "own_path levels j (chunk_file j False l)" by (auto simp: own_path_def)
  note del = keeps_on_storage [OF keeps_delete_foreign [OF assms(2) foreign_own [OF assms(2-4) this assms(5,6)]]]
  from r(1) show ?case
    by (cases b) (auto simp: delete_chunk_def assms(1) intro!: hoare del)
qed

lemma keeps_fossilizeChunk_other:
  assumes "env_storage env = st" and "i \<in> ids" and "j \<in> ids" and "i \<noteq> j" and "valid_id i" and "valid_id j"
  shows "keeps (\<lambda>w. intact ids levels i c (op_storage w)) (fossilizeChunk env j [] ex)"
  unfolding fossilizeChunk_def
  by (cases ex) (simp_all add: keeps_Delete_other [OF assms] keeps_Fossilize_other [OF assms])

end

section \<open>The non-exhaustive prune keeps what is referenced\<close>

text \<open>The setting of a prune: the hash functions have no collisions, the loops over maps visit each
  entry once, and the storage is in a state in which every chunk can be looked for.\<close>

definition prune_setting :: "'s prune_env \<Rightarrow> bool" where
  "prune_setting pe \<longleftrightarrow> \<not> rewriteChunks (pr_env pe) \<and> \<not> allowFailures (pr_env pe) \<and> collision_free (pr_env pe) \<and>
     (\<forall>n all. mset (snapshot_order pe n all) = mset all) \<and> (\<forall>m. mset (chunk_order pe m) = mset m)"

definition all_ids :: "'s operator_env \<Rightarrow> string set" where
  "all_ids env = {i. \<exists>h. hash_id env h i}"

lemma referenced_in_ids: "referenced_by env codec b l i \<Longrightarrow> i \<in> all_ids env"
  by (auto simp: referenced_by_def references_def all_ids_def)

lemma valid_id_all_ids: "i \<in> all_ids env \<Longrightarrow> valid_id i"
  by (auto simp: all_ids_def hash_id_def GetChunkIDFromHash_def bind_res_Inr_iff valid_id_hex)

lemma members_order: "mset all = mset all' \<Longrightarrow> set (members all) = set (members all')"
  by (auto simp: members_def dest: mset_eq_setD)

lemma referenced_by_order:
  "set l = set l' \<Longrightarrow> referenced_by env codec b l i = referenced_by env codec b l' i"
  by (auto simp: referenced_by_def)

text \<open>What the first two loops compute.\<close>

definition pruning_targets :: "'s prune_env \<Rightarrow> snapshots \<Rightarrow> (string \<times> bool) list \<Rightarrow> bool" where
  "pruning_targets pe all m \<longleftrightarrow> distinct (map fst m) \<and> (\<forall>i. map_of m i =
     (if referenced_by (pr_env pe) (pr_codec pe) True (members all) i
      then Some (referenced_by (pr_env pe) (pr_codec pe) False (members all) i) else None))"

definition compute_targets :: "'s prune_env \<Rightarrow> bool \<Rightarrow> snapshots \<Rightarrow> ('s operator_state, (string \<times> bool) list) prog" where
  "compute_targets pe ex all =
     bind_st (target_chunks (pr_env pe) (pr_codec pe) ex (snapshot_order pe 0 all) [])
       (mark_referenced (pr_env pe) (pr_codec pe) (snapshot_order pe 1 all))"

lemma nonexhaustive_targets:
  "pruneSnapshotsNonExhaustive pe dry ex all =
     bind_st (compute_targets pe ex all) (\<lambda>m. for_each (chunk_order pe m) (\<lambda>(chunk, value).
       if value \<or> dry then return_st () else fossilizeChunk (pr_env pe) chunk [] ex))"
  by (simp add: pruneSnapshotsNonExhaustive_def compute_targets_def Let_def bind_st_assoc)

lemma compute_targets_yields:
  assumes "prune_setting pe"
  shows "yields (pruning_targets pe all) (compute_targets pe ex all)"
proof -
  let ?r = "referenced_by (pr_env pe) (pr_codec pe)"
  have set: "\<not> allowFailures (pr_env pe)" "collision_free (pr_env pe)" using assms by (simp_all add: prune_setting_def)
  have ord: "?r b (members (snapshot_order pe n all)) i = ?r b (members all) i" for b n i
  proof (rule referenced_by_order, rule members_order)
    show "mset (snapshot_order pe n all) = mset all" using assms unfolding prune_setting_def by blast
  qed
  show ?thesis
    unfolding compute_targets_def
  proof (rule yields_bind [OF target_chunks_yields [OF set]])
    fix m :: "(string \<times> bool) list"
    assume m: "distinct (map fst m) \<and> (\<forall>i. map_of m i =
      (if ?r True (members (snapshot_order pe 0 all)) i then Some False else None))"
    show "yields (pruning_targets pe all) (mark_referenced (pr_env pe) (pr_codec pe) (snapshot_order pe 1 all) m)"
      by (rule yields_weaken [OF mark_referenced_yields [OF set]]) (use m in \<open>auto simp: pruning_targets_def ord\<close>)
  qed
qed

context storage_laws
begin

lemma nonexhaustive_intact:
  assumes "prune_setting pe" and "env_storage (pr_env pe) = st"
    and "referenced_by (pr_env pe) (pr_codec pe) False (members all) i"
  shows "keeps (\<lambda>w. intact (all_ids (pr_env pe)) levels i c (op_storage w)) (pruneSnapshotsNonExhaustive pe dry ex all)"
  unfolding nonexhaustive_targets
proof (rule keeps_bind_yields [OF compute_targets_yields [OF assms(1)]])
  let ?P = "\<lambda>w. intact (all_ids (pr_env pe)) levels i c (op_storage w)"
  have i: "i \<in> all_ids (pr_env pe)" using referenced_in_ids [OF assms(3)] .
  have rw: "\<not> rewriteChunks (pr_env pe)" using assms(1) by (simp add: prune_setting_def)
  have same: "keeps ?P m" if "\<And>s. keeps (\<lambda>w. same_state s (op_storage w)) m" for m :: "('s operator_state, 'x) prog"
  proof (rule keepsI)
    fix w r t
    assume "?P w" "m w = (r, t)"
    moreover from this have "same_state (op_storage w) (op_storage t)"
      using keepsD [OF that [of "op_storage w"], of w] intact_ok [OF i] by (simp add: same_state_def)
    ultimately show "?P t" by (simp add: same_state_def)
  qed
  show "keeps ?P (compute_targets pe ex all)"
    unfolding compute_targets_def by (intro same hoare keeps_marking [OF assms(2) rw])
  fix m
  assume m: "pruning_targets pe all m"
  show "keeps ?P (for_each (chunk_order pe m) (\<lambda>(chunk, value).
      if value \<or> dry then return_st () else fossilizeChunk (pr_env pe) chunk [] ex))"
  proof (intro keeps_for_each keeps_case keeps_if keeps_return)
    fix x j v
    assume "x \<in> set (chunk_order pe m)" "x = (j, v)" "\<not> (v \<or> dry)"
    moreover have "set (chunk_order pe m) = set m"
      using assms(1) mset_eq_setD unfolding prune_setting_def by blast
    ultimately have "(j, False) \<in> set m" by auto
    then have "map_of m j = Some False" using m map_of_is_SomeI [of m j False] unfolding pruning_targets_def by blast
    then have j: "referenced_by (pr_env pe) (pr_codec pe) True (members all) j"
      "\<not> referenced_by (pr_env pe) (pr_codec pe) False (members all) j"
      using m by (auto simp: pruning_targets_def split: if_splits)
    with assms(3) have "i \<noteq> j" by auto
    moreover have "j \<in> all_ids (pr_env pe)" using referenced_in_ids [OF j(1)] .
    ultimately show "keeps ?P (fossilizeChunk (pr_env pe) j [] ex)"
      using i by (intro keeps_fossilizeChunk_other assms(2)) (auto intro: valid_id_all_ids)
  qed
qed

end

text \<open>C2: The non-exhaustive prune never touches a chunk that a remaining snapshot references: whatever
  the outcome of the prune, error or not, exclusive or not, each file of the chunk, and of its fossil,
  has the content it had before.\<close>

theorem nonexhaustive_keeps_referenced:
  assumes "prune_setting pe" and "env_storage (pr_env pe) = FileStorage"
    and "\<forall>j \<in> all_ids (pr_env pe). disk.ready j (op_storage w)"
    and "s \<in> set (members allSnapshots)" and "\<not> Flag s" and "references (pr_env pe) (pr_codec pe) s i"
    and "pruneSnapshotsNonExhaustive pe dry exclusive allSnapshots w = (r, w')"
    and "l \<in> set (baseReadLevels (op_storage w))"
  shows "file_content (op_storage w') (chunk_file i isFossil l) = file_content (op_storage w) (chunk_file i isFossil l)"
proof -
  let ?c = "\<lambda>f l. file_content (op_storage w) (chunk_file i f l)"
  have "disk.intact (all_ids (pr_env pe)) (baseReadLevels (op_storage w)) i ?c (op_storage w)"
    using assms(3) by (simp add: disk.intact_def)
  moreover have "referenced_by (pr_env pe) (pr_codec pe) False (members allSnapshots) i"
    using assms(4-6) by (auto simp: referenced_by_def)
  ultimately have "disk.intact (all_ids (pr_env pe)) (baseReadLevels (op_storage w)) i ?c (op_storage w')"
    using keepsD [OF disk.nonexhaustive_intact [OF assms(1,2)] _ assms(7)] by blast
  with assms(8) show ?thesis by (simp add: disk.intact_def)
qed

section \<open>What is collected\<close>

lemma keeps_fossils:
  "keeps (\<lambda>w. F \<subseteq> set (fossils w)) (on_storage m)"
  "keeps (\<lambda>w. F \<subseteq> set (fossils w)) (on_cache n)"
  "keeps (\<lambda>w. F \<subseteq> set (fossils w)) (add_fossil p)"
  by (auto simp: keeps_def on_storage_def zoom_def on_cache_def add_fossil_def split: prod.splits option.splits)

lemma keeps_fossils_Fossilize: "keeps (\<lambda>w. F \<subseteq> set (fossils w)) (Fossilize env j p)"
  unfolding Fossilize_def Run_def chunk_task_def task_path_def fossilize_chunk_def Let_def
  by (simp, intro conjI impI hoare keeps_fossils) (auto intro!: hoare keeps_fossils split: bool.splits)

context storage_laws
begin

lemma Fossilize_intact:
  assumes "intact ids levels i c (op_storage w)" and "i \<in> ids" and "env_storage env = st"
    and "stored_at i False (op_storage w) = l # ls" and "c False l = Some b"
  shows "\<exists>w'. Fossilize env i [] w = (Inr (), w') \<and> chunk_file i True l \<in> set (fossils w') \<and>
    intact ids levels i (\<lambda>f k. if chunk_file i f k = chunk_file i True l then Some b
      else if chunk_file i f k = chunk_file i False l then None else c f k) (op_storage w')"
proof -
  let ?s = "op_storage w" and ?p = "chunk_file i False l" and ?q = "chunk_file i True l"
  have r: "ready i ?s" "readLevels st ?s = levels" and c: "\<And>f k. k \<in> set levels \<Longrightarrow> content ?s (chunk_file i f k) = c f k"
    using assms(1,2) by (auto simp: intact_def)
  have l: "l \<in> set levels" using stored_at_content [OF assms(4)] r(2) by simp
  with c assms(5) have "content ?s ?p = Some b" by simp
  from Fossilize_run [OF r(1) assms(3,4) this] obtain s' where
    run: "Fossilize env i [] w = (Inr (), w\<lparr>op_storage := s', fossils := fossils w @ [?q]\<rparr>)"
    and dirs: "isdir s' = isdir ?s" and set: "settled st ok content ?s ((content ?s)(?p := None, ?q \<mapsto> b)) s'" by blast
  have "ready j s'" if "j \<in> ids" for j
    using assms(1) that by (intro settled_ready [OF _ set]) (auto simp: intact_def dirs)
  moreover have "content s' (chunk_file i f k) = (if chunk_file i f k = ?q then Some b
      else if chunk_file i f k = ?p then None else c f k)" if "k \<in> set levels" for f k
    using settled_files [OF set ready_path(3) [OF r(1)]] c that r(2) by auto
  ultimately have "intact ids levels i (\<lambda>f k. if chunk_file i f k = ?q then Some b
      else if chunk_file i f k = ?p then None else c f k) s'"
    using settled_levels [OF set] r(2) by (simp add: intact_def)
  with run show ?thesis by simp
qed

lemma fossilize_all:
  assumes "intact ids levels i c (op_storage w)" and "i \<in> ids" and "env_storage env = st"
    and "for_each xs (\<lambda>(j, v). if v then return_st () else Fossilize env j []) w = (Inr (), w')"
    and "distinct (map fst xs)" and "(i, False) \<in> set xs" and "fst ` set xs \<subseteq> ids" and "\<forall>j \<in> ids. valid_id j"
    and "stored_at i False (op_storage w) = l # ls" and "c False l = Some b"
  shows "chunk_file i True l \<in> set (fossils w') \<and> content (op_storage w') (chunk_file i True l) = Some b \<and>
    content (op_storage w') (chunk_file i False l) = None"
proof -
  let ?f = "\<lambda>(j, v). if v then return_st () else Fossilize env j []"
  from for_each_split [OF assms(4,6)] obtain ys zs u v where
    xs: "xs = ys @ (i, False) # zs" and before: "for_each ys ?f w = (Inr (), u)"
    and at: "?f (i, False) u = (Inr (), v)" and after: "for_each zs ?f v = (Inr (), w')" by blast
  have others: "keeps (\<lambda>w. intact ids levels i d (op_storage w)) (for_each ts ?f)" if "set ts \<subseteq> set xs - {(i, True), (i, False)}" for ts d
  proof (intro keeps_for_each)
    fix x
    assume "x \<in> set ts"
    moreover obtain j v where x: "x = (j, v)" by (cases x)
    ultimately have "j \<in> ids" "i \<noteq> j" using that assms(7) by (cases v; force)+
    then show "keeps (\<lambda>w. intact ids levels i d (op_storage w)) (?f x)"
      using assms(2,8) by (auto simp: x intro!: hoare keeps_Fossilize_other [OF assms(3)])
  qed
  have d: "i \<notin> fst ` set ys" "i \<notin> fst ` set zs" using assms(5) unfolding xs by auto
  then have sub: "set ys \<subseteq> set xs - {(i, True), (i, False)}" "set zs \<subseteq> set xs - {(i, True), (i, False)}"
    by (auto simp: xs rev_image_eqI)
  have u: "intact ids levels i c (op_storage u)" using keepsD [OF others [OF sub(1)] assms(1) before] .
  have su: "stored_at i False (op_storage u) = l # ls"
    unfolding assms(9) [symmetric] using assms(1) u by (intro stored_at_cong) (auto simp: intact_def)
  let ?c = "\<lambda>f k. if chunk_file i f k = chunk_file i True l then Some b
      else if chunk_file i f k = chunk_file i False l then None else c f k"
  have v: "chunk_file i True l \<in> set (fossils v)" "intact ids levels i ?c (op_storage v)"
    using Fossilize_intact [OF u assms(2,3) su assms(10)] at by auto
  then have w': "intact ids levels i ?c (op_storage w')" using keepsD [OF others [OF sub(2)] v(2) after] by blast
  have "keeps (\<lambda>w. {chunk_file i True l} \<subseteq> set (fossils w)) (for_each zs ?f)"
    by (intro hoare keeps_fossils_Fossilize)
  from keepsD [OF this _ after] v(1) have "{chunk_file i True l} \<subseteq> set (fossils w')" by simp
  moreover have "l \<in> set levels" using stored_at_content [OF assms(9)] assms(1) by (simp add: intact_def)
  moreover have "chunk_file i False l \<noteq> chunk_file i True l"
    using chunk_file_eq_iff [of i i False l True l] assms(2,8) by auto
  ultimately show ?thesis using w' by (simp add: intact_def)
qed

end

text \<open>C4: When the non-exhaustive prune has succeeded, each chunk that only deleted snapshots reference
  is a fossil: its file has been renamed, with its content, and the fossil is in the list from which the
  fossil collection is made.\<close>

theorem nonexhaustive_collects_unreferenced:
  assumes "prune_setting pe" and "env_storage (pr_env pe) = FileStorage"
    and "\<forall>j \<in> all_ids (pr_env pe). disk.ready j (op_storage w)"
    and "s \<in> set (members allSnapshots)" and "Flag s" and "references (pr_env pe) (pr_codec pe) s i"
    and "\<forall>t \<in> set (members allSnapshots). references (pr_env pe) (pr_codec pe) t i \<longrightarrow> Flag t"
    and "pruneSnapshotsNonExhaustive pe False False allSnapshots w = (Inr (), w')"
    and "disk.stored_at i False (op_storage w) = l # ls" and "file_content (op_storage w) (chunk_file i False l) = Some b"
  shows "chunk_file i True l \<in> set (fossils w') \<and> file_content (op_storage w') (chunk_file i True l) = Some b \<and>
    file_content (op_storage w') (chunk_file i False l) = None"
proof -
  let ?env = "pr_env pe" and ?ids = "all_ids (pr_env pe)"
  have rw: "\<not> rewriteChunks ?env" using assms(1) by (simp add: prune_setting_def)
  have ref: "referenced_by ?env (pr_codec pe) True (members allSnapshots) i"
    "\<not> referenced_by ?env (pr_codec pe) False (members allSnapshots) i"
    using assms(4-7) by (auto simp: referenced_by_def)
  have i: "i \<in> ?ids" using referenced_in_ids [OF ref(1)] .
  from assms(8) obtain m u where m: "compute_targets pe False allSnapshots w = (Inr m, u)"
    and loop: "for_each (chunk_order pe m) (\<lambda>(j, v). if v \<or> False then return_st () else fossilizeChunk ?env j [] False) u = (Inr (), w')"
    unfolding nonexhaustive_targets by (elim bind_st_InrE)
  have t: "pruning_targets pe allSnapshots m" using yieldsD [OF compute_targets_yields [OF assms(1)] m] .
  have "keeps (\<lambda>x. disk.same_state (op_storage w) (op_storage x)) (compute_targets pe False allSnapshots)"
    unfolding compute_targets_def by (intro hoare disk.keeps_marking [OF assms(2) rw])
  from keepsD [OF this _ m] assms(3) i have same: "op_storage u = op_storage w"
    by (auto simp: disk.same_state_def disk.ready_def)
  have perm: "mset (chunk_order pe m) = mset m" using assms(1) unfolding prune_setting_def by blast
  then have set: "set (chunk_order pe m) = set m" and dist: "distinct (map fst (chunk_order pe m))"
    using t mset_eq_setD mset_eq_imp_distinct_iff [of "map fst (chunk_order pe m)" "map fst m"]
    by (auto simp: pruning_targets_def)
  have keys: "fst ` set m \<subseteq> ?ids"
  proof
    fix j
    assume "j \<in> fst ` set m"
    then have "map_of m j \<noteq> None" by (simp add: map_of_eq_None_iff)
    with t have "referenced_by ?env (pr_codec pe) True (members allSnapshots) j"
      by (auto simp: pruning_targets_def split: if_splits)
    then show "j \<in> ?ids" by (rule referenced_in_ids)
  qed
  have "map_of m i = Some False" using t ref by (simp add: pruning_targets_def)
  then have mem: "(i, False) \<in> set (chunk_order pe m)" unfolding set by (rule map_of_SomeD)
  let ?c = "\<lambda>f l. file_content (op_storage w) (chunk_file i f l)"
  have int: "disk.intact ?ids (baseReadLevels (op_storage w)) i ?c (op_storage u)"
    using assms(3) by (simp add: disk.intact_def same)
  have "(\<lambda>(j, v). if v \<or> False then return_st () else fossilizeChunk ?env j [] False) =
      (\<lambda>(j, v). if v then return_st () else Fossilize ?env j [])"
    by (auto simp: fun_eq_iff fossilizeChunk_def)
  from disk.fossilize_all [OF int i assms(2) loop [unfolded this] dist mem _ _ _ assms(10)] keys assms(9) same set
  show ?thesis by (simp add: valid_id_all_ids)
qed

lemma target_chunks_latest:
  "yields (\<lambda>_. \<forall>(sid, l) \<in> set all. \<not> (l \<noteq> [] \<and> Flag (last l))) (target_chunks env codec False all m)"
proof -
  let ?I = "\<lambda>(seen :: snapshots) _. \<forall>(sid, l) \<in> set seen. \<not> (l \<noteq> [] \<and> Flag (last l))"
  have "yields (?I ([] @ all)) (target_chunks env codec False all m)"
    unfolding target_chunks_def
  proof (rule yields_fold_st [of ?I])
    fix x :: "string \<times> snapshot list" and b seen
    assume I: "?I seen b"
    obtain sid l where x: "x = (sid, l)" by (cases x)
    have latest: "yields (\<lambda>_. \<not> (l \<noteq> [] \<and> Flag (last l))) (check_latest False l)"
      unfolding check_latest_def by (intro yielding) auto
    show "yields (?I (seen @ [x])) ((case x of (_, snapshots) \<Rightarrow> \<lambda>m. bind_st (check_latest False snapshots) (\<lambda>_.
        visit_snapshots env codec True (fold (\<lambda>chunk. set_key chunk False)) snapshots m)) b)"
      unfolding x prod.case by (rule yields_bind [OF latest]) (use I in \<open>auto intro!: yields_True simp: x\<close>)
  qed simp
  then show ?thesis by simp
qed

text \<open>C5: Without the exclusive option a prune that would delete the latest snapshot of an id fails,
  and the storage has not been changed.\<close>

theorem nonexhaustive_protects_latest:
  assumes "prune_setting pe" and "env_storage (pr_env pe) = FileStorage" and "file_ok (op_storage w)"
    and "(snapshotID, l) \<in> set allSnapshots" and "l \<noteq> []" and "Flag (last l)"
    and "pruneSnapshotsNonExhaustive pe dry False allSnapshots w = (r, w')"
  shows "(\<exists>e. r = Inl e) \<and> op_storage w' = op_storage w"
proof -
  have rw: "\<not> rewriteChunks (pr_env pe)" using assms(1) by (simp add: prune_setting_def)
  have "mset (snapshot_order pe 0 allSnapshots) = mset allSnapshots" using assms(1) unfolding prune_setting_def by blast
  then have mem: "(snapshotID, l) \<in> set (snapshot_order pe 0 allSnapshots)" using assms(4) mset_eq_setD by blast
  obtain x u where x: "target_chunks (pr_env pe) (pr_codec pe) False (snapshot_order pe 0 allSnapshots) [] w = (x, u)"
    by (cases "target_chunks (pr_env pe) (pr_codec pe) False (snapshot_order pe 0 allSnapshots) [] w")
  have "op_storage u = op_storage w"
    using keepsD [OF disk.keeps_marking(1) [OF assms(2) rw] _ x, of "op_storage w"] assms(3)
    by (simp add: disk.same_state_def)
  moreover have "\<exists>e. x = Inl e"
  proof (cases x)
    case (Inr m)
    with yieldsD [OF target_chunks_latest x [unfolded Inr]] mem assms(5,6) show ?thesis by auto
  qed simp
  ultimately show ?thesis
    using assms(7) x by (auto simp: pruneSnapshotsNonExhaustive_def Let_def bind_st_def)
qed

end
