(* ===== verification/PruneCollections.thy ===== *)
theory PruneCollections
  imports PruneSafety
begin

text \<open>
  The second step of a prune: what happens to the fossils of a collection. A fossil of a chunk that a
  new snapshot references becomes a chunk again; the other fossils are deleted.
\<close>

section \<open>The chunk of a fossil\<close>

lemma remove_fsl: "CHR ''.'' \<notin> set j \<Longrightarrow> remove_all (j @ ''.fsl'') ''.fsl'' = j"
proof (induction j)
  case Nil
  show ?case by (simp add: remove_all.simps [of "''.fsl''"] HasPrefix_def)
next
  case (Cons x j)
  then show ?case by (subst remove_all.simps) (auto simp: HasPrefix_def)
qed

lemma slice_chunk_file:
  "slice (chunk_file j f l) (length chunkDir) (length (chunk_file j f l)) =
     Inr (nested (nat l) j @ (if f then ''.fsl'' else []))"
  by (simp add: chunk_file_def chunkDir_def)

lemma fossil_chunk_nested: "valid_id j \<Longrightarrow> fossil_chunk (nested n j @ ''.fsl'') = j"
  using filter_nested [of j n] remove_fsl [of j]
  by (simp add: fossil_chunk_def remove_all_single valid_id_def)

section \<open>Chunks that are available\<close>

context storage_laws
begin

text \<open>The chunk is in the storage, as a chunk or as a fossil.\<close>

definition available :: "string set \<Rightarrow> int list \<Rightarrow> string \<Rightarrow> 's \<Rightarrow> bool" where
  "available ids levels i s \<longleftrightarrow> (\<forall>j \<in> ids. ready j s) \<and> readLevels st s = levels \<and>
     (\<exists>f. \<exists>l \<in> set levels. content s (chunk_file i f l) \<noteq> None)"

lemma available_intact:
  "available ids levels i s \<longleftrightarrow> (\<exists>c. intact ids levels i c s \<and> (\<exists>f. \<exists>l \<in> set levels. c f l \<noteq> None))"
  by (force simp: available_def intact_def)

lemma keeps_available:
  assumes "\<And>c. keeps (\<lambda>w. intact ids levels i c (op_storage w)) m"
  shows "keeps (\<lambda>w. available ids levels i (op_storage w)) m"
  using assms unfolding available_intact keeps_def by blast

lemma keeps_Resurrect_other:
  assumes "env_storage env = st" and "i \<in> ids" and "j \<in> ids" and "i \<noteq> j" and "valid_id i" and "valid_id j"
    and "own_path levels j p"
  shows "keeps (\<lambda>w. intact ids levels i c (op_storage w)) (Resurrect env j p)"
proof -
  note own = foreign_own [OF assms(2-4) _ assms(5,6)]
  show ?thesis
    unfolding Resurrect_def Run_def chunk_task_def resurrect_chunk_def
  proof (simp add: bind_st_assoc, rule keeps_bind_FindChunk [OF assms(1-3)], goal_cases)
    case (1 r)
    then obtain l b n where r: "r = Inr (chunk_file j False l, b, n)" "l \<in> set levels" by (auto simp: found_path_def)
    then have q: "own_path levels j (chunk_file j False l)" by (auto simp: own_path_def)
    show ?case
      unfolding r(1) assms(1)
      by (cases b) (auto intro!: hoare keeps_on_storage keeps_delete_foreign [OF assms(2) own [OF assms(7)]]
          keeps_move_foreign [OF assms(2) own [OF assms(7)] own [OF q]])
  qed
qed

lemma own_path_readyD:
  assumes "available ids levels i s" and "i \<in> ids" and "own_path levels i p"
  shows "plain p" and "\<not> isdir s p" and "\<not> HasSuffix p ''.tmp''" and "ok s"
  using assms ready_path [of i s] by (auto simp: available_def own_path_def ready_def)

lemma available_settled:
  assumes "available ids levels i s" and set: "settled st ok content s d s'" and "\<And>q. isdir s' q \<Longrightarrow> isdir s q"
    and "own_path levels i p" and "i \<in> ids" and "d p \<noteq> None"
  shows "available ids levels i s'"
proof -
  have "ready j s'" if "j \<in> ids" for j
    using assms(1,3) that by (intro settled_ready [OF _ set]) (auto simp: available_def)
  moreover have "content s' p \<noteq> None"
    using settled_files [OF set own_path_readyD(3) [OF assms(1,5,4)]] assms(6) by simp
  ultimately show ?thesis
    using assms(1,4) settled_levels [OF set] by (auto simp: available_def own_path_def)
qed

text \<open>Resurrecting a fossil of the chunk keeps the chunk available.\<close>

lemma Resurrect_available:
  assumes "env_storage env = st" and "i \<in> ids" and "p = chunk_file i True k" and "k \<in> set levels"
  shows "keeps (\<lambda>w. available ids levels i (op_storage w)) (Resurrect env i p)"
proof (rule keepsI)
  fix r and w t :: "'s operator_state"
  let ?s = "op_storage w"
  assume a: "available ids levels i ?s" and run: "Resurrect env i p w = (r, t)"
  have own: "own_path levels i p" using assms(3,4) by (auto simp: own_path_def)
  have rd: "ready i ?s" "readLevels st ?s = levels" "valid_id i" using a assms(2) by (auto simp: available_def ready_def)
  note p = own_path_readyD [OF a assms(2) own]
  let ?q = "chunk_file i False (writeLevel st ?s)"
  have q: "own_path levels i ?q" using write_level_in [OF rd(1)] rd(2) by (auto simp: own_path_def)
  have ne: "chunk_file i False l \<noteq> p" for l
    using chunk_file_eq_iff [OF rd(3,3), of False l True k] unfolding assms(3) by auto
  show "available ids levels i (op_storage t)"
  proof (cases "stored_at i False ?s")
    case (Cons l ls)
    have l: "own_path levels i (chunk_file i False l)" "content ?s (chunk_file i False l) \<noteq> None"
      using stored_at_content [OF Cons] rd(2) by (auto simp: own_path_def)
    obtain e :: "goerror option" and s' where del: "DeleteFile st p ?s = (Inr e, s')" "\<And>q. isdir s' q \<Longrightarrow> isdir ?s q"
      "settled st ok content ?s (if e = None then (content ?s)(p := None) else content ?s) s'"
      using delete_file [OF p(4,1)] by blast
    have "op_storage t = s'"
      using run ready_FindChunk [OF rd(1), of False] Cons del(1) assms(1)
      by (auto simp: Resurrect_def Run_def chunk_task_def resurrect_chunk_def bind_st_def on_storage_run)
    with available_settled [OF a del(3,2) l(1) assms(2)] l(2) ne show ?thesis by auto
  next
    case Nil
    show ?thesis
    proof (cases "content ?s p")
      case None
      with run ready_FindChunk [OF rd(1), of False] Nil assms(1)
        move_missing [OF p(4,1) None p(2) own_path_readyD(1) [OF a assms(2) q]]
      have "op_storage t = ?s"
        by (auto simp: Resurrect_def Run_def chunk_task_def resurrect_chunk_def bind_st_def on_storage_run)
      with a show ?thesis by simp
    next
      case (Some b)
      obtain e :: "goerror option" and s' where mv: "MoveFile st p ?q ?s = (Inr e, s')" "isdir s' = isdir ?s"
        "settled st ok content ?s (if e = None then (content ?s)(p := None, ?q \<mapsto> b) else content ?s) s'"
        using move_file [OF p(4) Some own_path_readyD(1,2) [OF a assms(2) q]] by blast
      have "op_storage t = s'"
        using run ready_FindChunk [OF rd(1), of False] Nil mv(1) assms(1)
        by (auto simp: Resurrect_def Run_def chunk_task_def resurrect_chunk_def bind_st_def on_storage_run
            split: if_splits)
      moreover have "available ids levels i s'"
      proof (cases e)
        case None
        then show ?thesis using available_settled [OF a mv(3) _ q assms(2)] mv(2) by simp
      next
        case (Some x)
        then show ?thesis using available_settled [OF a mv(3) _ own assms(2)] mv(2) \<open>content ?s p = Some b\<close> by simp
      qed
      ultimately show ?thesis by simp
    qed
  qed
qed

text \<open>A collection is made of fossils of chunks and of temporary files.\<close>

definition proper_collection :: "string set \<Rightarrow> int list \<Rightarrow> fossil_collection \<Rightarrow> bool" where
  "proper_collection ids levels collection \<longleftrightarrow>
     (\<forall>p \<in> set (Fossils collection). \<exists>j \<in> ids. \<exists>l \<in> set levels. p = chunk_file j True l) \<and>
     (\<forall>t \<in> set (Temporaries collection). plain t \<and> t \<noteq> [] \<and> HasSuffix t ''.tmp'')"

lemma process_fossil_available:
  assumes "env_storage env = st" and "i \<in> ids" and "\<forall>j \<in> ids. valid_id j"
    and "j \<in> ids" and "l \<in> set levels" and "i \<in> set newChunks \<or> j \<noteq> i"
  shows "keeps (\<lambda>w. available ids levels i (op_storage w)) (process_fossil env dry newChunks (chunk_file j True l))"
proof -
  have own: "own_path levels j (chunk_file j True l)" using assms(5) by (auto simp: own_path_def)
  have v: "valid_id i" "valid_id j" using assms(2-4) by auto
  have "chunk_file j True l \<noteq> []" by (simp add: chunk_file_def)
  then have del: "keeps (\<lambda>w. available ids levels i (op_storage w)) (Delete env j (chunk_file j True l))" if "j \<noteq> i"
    using that assms v by (intro keeps_available keeps_Delete_path foreign_own [OF _ _ _ own]) auto
  have res: "keeps (\<lambda>w. available ids levels i (op_storage w)) (Resurrect env j (chunk_file j True l))"
  proof (cases "j = i")
    case True
    show ?thesis unfolding True by (rule Resurrect_available [OF assms(1,2) refl assms(5)])
  next
    case False
    then show ?thesis using assms v own by (intro keeps_available keeps_Resurrect_other) auto
  qed
  show ?thesis
    unfolding process_fossil_def slice_chunk_file Let_def
    using del res assms(6) by (auto simp: fossil_chunk_nested [OF v(2)] intro!: hoare)
qed

lemma process_collection_available:
  assumes "env_storage env = st" and "\<not> rewriteChunks env" and "i \<in> ids" and "\<forall>j \<in> ids. valid_id j"
    and "proper_collection ids levels collection"
    and "yields Q (new_chunks env codec newSnapshots)"
    and "\<And>newChunks. Q newChunks \<Longrightarrow> i \<in> set newChunks \<or> (\<forall>l. chunk_file i True l \<notin> set (Fossils collection))"
  shows "keeps (\<lambda>w. available ids levels i (op_storage w)) (process_collection env codec dry cf collection newSnapshots)"
proof -
  let ?P = "\<lambda>w. available ids levels i (op_storage w)"
  have same: "keeps ?P (new_chunks env codec newSnapshots)"
  proof (rule keepsI)
    fix w r t
    assume w: "?P w" and m: "new_chunks env codec newSnapshots w = (r, t)"
    then have "ok (op_storage w)" using assms(3) by (auto simp: available_def ready_def)
    with keepsD [OF keeps_marking(4) [OF assms(1,2)] _ m, of "op_storage w"] w show "?P t" by (simp add: same_state_def)
  qed
  have temp: "keeps ?P (Delete env [] t)" if "t \<in> set (Temporaries collection)" for t
  proof -
    have t: "plain t" "t \<noteq> []" "HasSuffix t ''.tmp''" using that assms(5) by (auto simp: proper_collection_def)
    have "keeps (\<lambda>w. intact ids levels i c (op_storage w)) (Delete env [] t)" for c
    proof (cases "own_path levels i t")
      case True
      then have "\<not> intact ids levels i c s" for s
        using ready_path(3) [of i s] t(3) assms(3) by (auto simp: intact_def own_path_def)
      then show ?thesis by (simp add: keeps_def)
    next
      case False
      show ?thesis
        unfolding Delete_def Run_def chunk_task_def task_path_def
        by (simp add: t(2) delete_chunk_def assms(1))
          (intro hoare keeps_on_storage keeps_delete_path [OF assms(3) t(1) False])
    qed
    then show ?thesis by (rule keeps_available)
  qed
  show ?thesis
    unfolding process_collection_def
  proof (rule keeps_bind_yields [OF assms(6) same], intro hoare)
    fix newChunks p
    assume Q: "Q newChunks" and p: "p \<in> set (Fossils collection)"
    then obtain j l where j: "j \<in> ids" "l \<in> set levels" "p = chunk_file j True l"
      using assms(5) by (auto simp: proper_collection_def)
    then have "i \<in> set newChunks \<or> j \<noteq> i" using assms(7) [OF Q] p by auto
    then show "keeps ?P (process_fossil env dry newChunks p)"
      unfolding j(3) by (rule process_fossil_available [OF assms(1,3,4) j(1,2)])
  next
    fix t
    assume "t \<in> set (Temporaries collection)"
    then show "keeps ?P (Delete env [] t)" by (rule temp)
  qed
qed

end

lemma new_chunks_yields:
  assumes "\<not> allowFailures env" and "collision_free env"
  shows "yields (\<lambda>newChunks. set newChunks = {i. \<exists>s \<in> set l. references env codec s i}) (new_chunks env codec l)"
proof -
  let ?I = "\<lambda>seen newChunks. set newChunks = {i. \<exists>s \<in> set seen. references env codec s i}"
  have "yields (?I ([] @ l)) (new_chunks env codec l)"
    unfolding new_chunks_def
  proof (rule yields_fold_st [of ?I])
    fix s b seen
    assume "?I seen b"
    then show "yields (?I (seen @ [s]))
        (bind_st (GetSnapshotChunks env codec False s) (\<lambda>(chunks, _). return_st (b @ chunks)))"
      by (intro yields_bind [OF GetSnapshotChunks_references [OF assms]]) (auto intro!: yields_return)
  qed simp
  then show ?thesis by simp
qed

text \<open>C3: Processing a fossil collection never loses a chunk that is needed: a chunk that one of the
  new snapshots references, and a chunk of which the collection has no fossil, is in the storage
  afterwards, as a chunk or as a fossil, if it was before, whatever the outcome.\<close>

theorem process_collection_keeps_referenced:
  assumes "\<not> rewriteChunks env" and "\<not> allowFailures env" and "collision_free env" and "env_storage env = FileStorage"
    and "\<forall>j \<in> all_ids env. disk.ready j (op_storage w)"
    and "disk.proper_collection (all_ids env) (baseReadLevels (op_storage w)) collection"
    and "i \<in> all_ids env"
    and "(\<exists>s \<in> set newSnapshots. references env codec s i) \<or> (\<forall>l. chunk_file i True l \<notin> set (Fossils collection))"
    and "l \<in> set (baseReadLevels (op_storage w))" and "file_content (op_storage w) (chunk_file i f l) \<noteq> None"
    and "process_collection env codec dry collectionFile collection newSnapshots w = (r, w')"
  shows "\<exists>g. \<exists>k \<in> set (baseReadLevels (op_storage w)). file_content (op_storage w') (chunk_file i g k) \<noteq> None"
proof -
  let ?levels = "baseReadLevels (op_storage w)"
  have "disk.available (all_ids env) ?levels i (op_storage w)"
    using assms(5,9,10) by (auto simp: disk.available_def)
  moreover have "keeps (\<lambda>w. disk.available (all_ids env) ?levels i (op_storage w))
      (process_collection env codec dry collectionFile collection newSnapshots)"
    by (rule disk.process_collection_available [OF assms(4,1,7) _ assms(6) new_chunks_yields [OF assms(2,3)]])
      (use assms(8) in \<open>auto intro: valid_id_all_ids\<close>)
  ultimately have "disk.available (all_ids env) ?levels i (op_storage w')"
    using assms(11) by (meson keepsD)
  then show ?thesis by (auto simp: disk.available_def)
qed

section \<open>Exclusive prunes\<close>

context storage_laws
begin

text \<open>The file at the path does not exist.\<close>

definition gone :: "string set \<Rightarrow> int list \<Rightarrow> string \<Rightarrow> 's \<Rightarrow> bool" where
  "gone ids levels p s \<longleftrightarrow> (\<forall>j \<in> ids. ready j s) \<and> readLevels st s = levels \<and> content s p = None"

lemma delete_ready:
  assumes "\<forall>j \<in> ids. ready j s" and "ids \<noteq> {}" and "plain q" and "DeleteFile st q s = (r, t)" and "\<not> HasSuffix p ''.tmp''"
  shows "\<forall>j \<in> ids. ready j t" and "readLevels st t = readLevels st s"
    and "content s p = None \<or> p = q \<Longrightarrow> content t p = None"
proof -
  have "ok s" using assms(1,2) by (auto simp: ready_def)
  from delete_file [OF this assms(3)] assms(4) obtain e :: "goerror option" where
    e: "r = Inr e" "\<And>q. isdir t q \<Longrightarrow> isdir s q"
      "settled st ok content s (if e = None then (content s)(q := None) else content s) t" by auto
  show "\<forall>j \<in> ids. ready j t" using assms(1) e(2) by (auto intro: settled_ready [OF _ e(3)])
  show "readLevels st t = readLevels st s" using settled_levels [OF e(3)] by simp
  have "content s q = None" if "e \<noteq> None"
    using delete_present [OF \<open>ok s\<close>, of q] assms(4) e(1) that by (cases "content s q") auto
  then show "content t p = None" if "content s p = None \<or> p = q"
    using settled_files [OF e(3) assms(5)] that by (cases "e = None") auto
qed

lemma keeps_gone:
  assumes "env_storage env = st" and "ids \<noteq> {}" and "plain q" and "q \<noteq> []" and "\<not> HasSuffix p ''.tmp''"
  shows "keeps (\<lambda>w. gone ids levels p (op_storage w)) (Delete env j q)"
proof -
  have "keeps (gone ids levels p) (DeleteFile st q)"
    by (rule keepsI) (use delete_ready [OF _ assms(2,3) _ assms(5)] in \<open>auto simp: gone_def\<close>)
  then show ?thesis
    unfolding Delete_def Run_def chunk_task_def task_path_def
    by (simp add: assms(1,4) delete_chunk_def) (intro hoare keeps_on_storage)
qed

lemma process_all_deleted:
  assumes "env_storage env = st" and "\<forall>j \<in> ids. ready j (op_storage w)" and "readLevels st (op_storage w) = levels"
    and "proper_collection ids levels collection" and "p \<in> set (Fossils collection)"
    and "process_collection env codec False cf collection [] w = (Inr (), w')"
  shows "content (op_storage w') p = None"
proof -
  have path: "\<exists>j \<in> ids. \<exists>l \<in> set levels. q = chunk_file j True l" if "q \<in> set (Fossils collection)" for q
    using that assms(4) by (auto simp: proper_collection_def)
  have own: "plain q \<and> q \<noteq> [] \<and> \<not> HasSuffix q ''.tmp''" if "q \<in> set (Fossils collection)" for q
  proof -
    from path [OF that] obtain j l where "j \<in> ids" "l \<in> set levels" and q: "q = chunk_file j True l" by blast
    then show ?thesis
      using ready_path [of j "op_storage w" l True] assms(2,3) unfolding q by (auto simp: chunk_file_def)
  qed
  have ne: "ids \<noteq> {}" using path [OF assms(5)] by auto
  have val: "valid_id j" if "j \<in> ids" for j using that assms(2) by (auto simp: ready_def)
  have fossil: "process_fossil env False [] q = Delete env (fossil_chunk (drop 7 q)) q" if "q \<in> set (Fossils collection)" for q
    using path [OF that] by (auto simp: process_fossil_def slice_chunk_file chunk_file_def chunkDir_def)
  have del: "keeps (\<lambda>w. gone ids levels q (op_storage w)) (process_fossil env False [] x)"
    if "x \<in> set (Fossils collection)" "q \<in> set (Fossils collection)" for x q
    using own [OF that(1)] own [OF that(2)] unfolding fossil [OF that(1)] by (intro keeps_gone [OF assms(1) ne]) auto
  have all: "keeps (\<lambda>w. (\<forall>j \<in> ids. ready j (op_storage w)) \<and> readLevels st (op_storage w) = levels) (process_fossil env False [] x)"
    if "x \<in> set (Fossils collection)" for x
  proof -
    have "keeps (\<lambda>s. (\<forall>j \<in> ids. ready j s) \<and> readLevels st s = levels) (DeleteFile st x)"
      by (rule keepsI) (use delete_ready(1,2) [OF _ ne, where p = "[]"] own [OF that] in \<open>auto simp: HasSuffix_def\<close>)
    then show ?thesis
      unfolding fossil [OF that] Delete_def Run_def chunk_task_def task_path_def
      using own [OF that] by (simp add: assms(1) delete_chunk_def) (intro hoare keeps_on_storage [where P = "\<lambda>s. (\<forall>j \<in> ids. ready j s) \<and> readLevels st s = levels"])
  qed
  define rest :: "('s operator_state, unit) prog" where
    "rest = bind_st (for_each (Temporaries collection) (Delete env [])) (\<lambda>_.
       bind_st (on_cache (DeleteFile FileStorage cf)) (\<lambda>_. return_st ()))"
  have "process_collection env codec False cf collection [] =
      bind_st (for_each (Fossils collection) (process_fossil env False [])) (\<lambda>_. rest)"
    by (simp add: process_collection_def new_chunks_def rest_def)
  with assms(6) obtain u where loop: "for_each (Fossils collection) (process_fossil env False []) w = (Inr (), u)"
    and rest: "rest u = (Inr (), w')" by (auto elim!: bind_st_InrE)
  from for_each_split [OF loop assms(5)] obtain ys zs a b where
    f: "Fossils collection = ys @ p # zs" and y: "for_each ys (process_fossil env False []) w = (Inr (), a)"
    and at: "process_fossil env False [] p a = (Inr (), b)" and z: "for_each zs (process_fossil env False []) b = (Inr (), u)"
    by blast
  have "keeps (\<lambda>w. (\<forall>j \<in> ids. ready j (op_storage w)) \<and> readLevels st (op_storage w) = levels)
      (for_each ys (process_fossil env False []))"
    by (rule keeps_for_each) (use all f in auto)
  from keepsD [OF this _ y] have ra: "(\<forall>j \<in> ids. ready j (op_storage a)) \<and> readLevels st (op_storage a) = levels"
    using assms(2,3) by blast
  obtain r' s' where d: "DeleteFile st p (op_storage a) = (r', s')" by (cases "DeleteFile st p (op_storage a)")
  then have "op_storage b = s'"
    using at own [OF assms(5)] unfolding fossil [OF assms(5)]
    by (auto simp: Delete_def Run_def chunk_task_def task_path_def delete_chunk_def assms(1) bind_st_def on_storage_run split: sum.splits)
  then have gb: "gone ids levels p (op_storage b)"
    using delete_ready [OF _ ne _ d, of p] ra own [OF assms(5)] by (auto simp: gone_def)
  have "keeps (\<lambda>w. gone ids levels p (op_storage w)) (for_each zs (process_fossil env False []))"
    by (rule keeps_for_each) (use del f assms(5) in auto)
  from keepsD [OF this gb z] have "gone ids levels p (op_storage u)" .
  moreover have "keeps (\<lambda>w. gone ids levels p (op_storage w)) rest"
    unfolding rest_def
    using assms(4) own [OF assms(5)] by (intro hoare keeps_gone [OF assms(1) ne]) (auto simp: proper_collection_def)
  ultimately have "gone ids levels p (op_storage w')" using rest by (meson keepsD)
  then show ?thesis by (simp add: gone_def)
qed

end

text \<open>C9: An exclusive prune deletes the fossils of a collection that does not meet the deletion
  criteria without looking at the snapshots made since: when \<open>IsDeletable\<close> says no, it returns no
  new snapshots, and every fossil of the collection is deleted, also one that a remaining snapshot
  references.\<close>

theorem exclusive_deletes_referenced_fossils:
  assumes "env_storage (pr_env pe) = FileStorage" and "opt_exclusive opt" and "\<not> opt_dryRun opt" and "\<not> opt_collectOnly opt"
    and "collectionRegex name"
    and "on_cache (DownloadFile FileStorage (''fossils/'' @ name)) w = (Inr (bs, None), w1)"
    and "collection_Unmarshal pe bs = Inr collection" and "\<not> ghost_snapshot allSnapshots collection"
    and "\<not> fst (IsDeletable (clock_collection pe name) True (opt_ignoredIDs opt) (snapshot_order pe 2 allSnapshots) collection)"
    and "\<forall>j \<in> all_ids (pr_env pe). disk.ready j (op_storage w)"
    and "disk.proper_collection (all_ids (pr_env pe)) (baseReadLevels (op_storage w)) collection"
    and "collection_step pe opt allSnapshots name acc w = (Inr acc', w')"
    and "s \<in> set (members allSnapshots)" and "references (pr_env pe) (pr_codec pe) s i"
    and "chunk_file i True l \<in> set (Fossils collection)"
  shows "file_content (op_storage w') (chunk_file i True l) = None"
proof -
  have isd: "IsDeletable (clock_collection pe name) True (opt_ignoredIDs opt) (snapshot_order pe 2 allSnapshots) collection = (False, [])"
    using assms(9) by (auto simp: IsDeletable_def split: prod.splits if_splits)
  have w1: "op_storage w1 = op_storage w"
    using assms(6) keepsD [OF keeps_on_cache [of "\<lambda>s. s = op_storage w"] _ assms(6)] by simp
  have run: "process_collection (pr_env pe) (pr_codec pe) False (''fossils/'' @ name) collection [] w1 = (Inr (), w')"
    using assms(12,2-8) isd
    by (auto simp: collection_step_def assms(1) bind_st_def Let_def split: prod.splits sum.splits if_splits)
  show ?thesis
    using disk.process_all_deleted [OF assms(1) _ _ assms(11,15) run] assms(10) w1 by simp
qed

end
