(* ===== verification/PruneExamples.thy ===== *)
theory PruneExamples
  imports PruneCollections
begin

text \<open>
  A small storage on which the theorems about pruning are applied: hash functions without collisions,
  two snapshots, two chunks.
\<close>

section \<open>The setting\<close>

definition padded_hashes :: hashes where
  "padded_hashes = \<lparr>blake2_keyed = (\<lambda>k. Some (\<lambda>b. replicate 5 1 @ b)), hmac_sha256 = (\<lambda>k b. b), blake2 = id, sha256 = id\<rparr>"

definition padded_env :: "file_storage operator_env" where
  "padded_env = \<lparr>env_runtime = \<lparr>rt_hashes = padded_hashes, rt_codecs = sample_codecs, rt_arm64 = False, rt_hmacsha256 = False\<rparr>,
     env_storage = FileStorage, env_config = CreateConfig, rewriteChunks = False, allowFailures = False\<rparr>"

text \<open>The chunks with the contents 7 and 8.\<close>

definition chunk7 :: string where "chunk7 = ''0101010101010101010107''"
definition chunk8 :: string where "chunk8 = ''0101010101010101010108''"

definition example_collection :: fossil_collection where
  "example_collection = \<lparr>collection_EndTime = 100, LastRevisions = [(''a'', 1)], DeletedRevisions = [],
     Fossils = [chunk_file chunk7 True 2], Temporaries = []\<rparr>"

definition example_pe :: "file_storage prune_env" where
  "example_pe = \<lparr>pr_env = padded_env, pr_codec = sample_json_codec,
     collection_Marshal = (\<lambda>c. Inr [1]), collection_Unmarshal = (\<lambda>bs. Inr example_collection),
     snapshot_order = (\<lambda>n all. all), chunk_order = (\<lambda>m. m), clock_collection = (\<lambda>n. 60), clock_select = (\<lambda>n. 60),
     clock_end = 60, getDaysBetween = day_count, list_bound = 100\<rparr>"

lemma padded_hasher: "NewKeyedHasher padded_hashes CreateConfig k = Inr (\<lambda>b. replicate 5 1 @ b)"
  by (simp add: NewKeyedHasher_def CreateConfig_def zero_config_def padded_hashes_def)

lemma padded_id: "hash_id padded_env h i \<longleftrightarrow> i = hex_encode (replicate 5 1 @ h)"
  by (auto simp: hash_id_def padded_env_def GetChunkIDFromHash_def padded_hasher)

lemma padded_collision_free: "collision_free padded_env"
  by (auto simp: collision_free_def content_id_def padded_env_def padded_hasher simp del: hex_encode.simps)

lemma example_setting: "prune_setting example_pe"
  unfolding prune_setting_def example_pe_def
  using padded_collision_free by (simp add: padded_env_def)

lemma example_ids: "j \<in> all_ids padded_env \<Longrightarrow> valid_id j \<and> 10 \<le> length j"
  by (auto simp: all_ids_def padded_id valid_id_hex simp del: hex_encode.simps)

text \<open>Chunk files cannot be mistaken for directories with names of at most two characters.\<close>

lemma ready_by_names:
  assumes "file_ok s" and "baseWriteLevel s \<in> set (baseReadLevels s)"
    and "\<forall>l \<in> set (baseReadLevels s). 0 \<le> l \<and> 2 * l + 2 < 10" and "valid_id j" and "10 \<le> length j"
    and "list_all (\<lambda>(p, n). n = Dir \<longrightarrow> length p \<le> length (storageDir s) + 1 \<or> length (last p) \<le> 2) (fileTree s)"
  shows "disk.ready j s"
proof -
  have lv: "0 \<le> l \<and> 2 * l + 2 < int (length j)" if "l \<in> set (baseReadLevels s)" for l
    using that assms(3,5) by fastforce
  have "\<not> file_isdir s (chunk_file j f l)" if "l \<in> set (baseReadLevels s)" for f l
  proof
    let ?q = "chunk_file j f l"
    have plain: "plain ?q" using lv [OF that] by (intro plain_chunk_file [OF assms(4)]) auto
    let ?p = "path_Join (storageDir s) ?q"
    assume "file_isdir s ?q"
    then have "?p = [] \<or> (?p, Dir) \<in> set (fileTree s)"
      by (auto simp: file_isdir_def at_path_def dest: map_of_SomeD split: if_splits)
    moreover have p: "?p = storageDir s @ split_slash ?q" using plain by (rule path_Join_plain)
    moreover have "length (split_slash ?q) = nat l + 2" "length (last (split_slash ?q)) > 2"
      using lv [OF that] by (auto simp: split_chunk_file [OF assms(4)])
    moreover from this(1) have "split_slash ?q \<noteq> []" by auto
    ultimately show False using assms(6) by (auto simp: list_all_iff)
  qed
  then show ?thesis
    using assms(1,2,4) lv by (auto simp: disk.ready_def disk.clear_def good_levels_def list_all_iff)
qed

definition example_tree :: files where
  "example_tree = [([''store''], Dir), ([''store'', ''chunks''], Dir), ([''store'', ''chunks'', ''01''], Dir),
     ([''store'', ''chunks'', ''01'', ''01''], Dir),
     ([''store'', ''chunks'', ''01'', ''01'', ''010101010101010107''], File [7]),
     ([''store'', ''chunks'', ''01'', ''01'', ''010101010101010108''], File [8])]"

definition example_state :: "file_storage operator_state" where
  "example_state = sample_state\<lparr>op_storage := sample_store\<lparr>fileTree := example_tree\<rparr>\<rparr>"

definition old_snapshot :: snapshot where
  "old_snapshot = zero_snapshot\<lparr>ID := ''a'', Revision := 1, ChunkHashes := [[1, 1, 1, 1, 1, 7], [1, 1, 1, 1, 1, 8]], Flag := True\<rparr>"

definition new_snapshot :: snapshot where
  "new_snapshot = zero_snapshot\<lparr>ID := ''a'', Revision := 2, ChunkHashes := [[1, 1, 1, 1, 1, 8]]\<rparr>"

definition example_snapshots :: snapshots where
  "example_snapshots = [(''a'', [old_snapshot, new_snapshot])]"

lemma example_ok: "file_ok (op_storage example_state)"
  by (simp add: example_state_def file_ok_def sample_store_def example_tree_def tree_def at_path_def)

lemma example_ready: "\<forall>j \<in> all_ids (pr_env example_pe). disk.ready j (op_storage example_state)"
proof
  fix j
  assume "j \<in> all_ids (pr_env example_pe)"
  then have "valid_id j" "10 \<le> length j" using example_ids by (auto simp: example_pe_def)
  then show "disk.ready j (op_storage example_state)"
    by (intro ready_by_names example_ok) (simp_all add: example_state_def sample_store_def example_tree_def)
qed

lemma example_hex:
  "hex_encode (replicate 5 1 @ [1, 1, 1, 1, 1, 7]) = chunk7" "hex_encode (replicate 5 1 @ [1, 1, 1, 1, 1, 8]) = chunk8"
  "chunk7 \<noteq> chunk8"
  by code_simp+

lemma example_references:
  "references (pr_env example_pe) (pr_codec example_pe) old_snapshot chunk7"
  "references (pr_env example_pe) (pr_codec example_pe) new_snapshot chunk8"
  "\<not> references (pr_env example_pe) (pr_codec example_pe) new_snapshot chunk7"
  using example_hex
  by (simp_all add: references_def file_hashes_def example_pe_def padded_id old_snapshot_def new_snapshot_def
      zero_snapshot_def del: hex_encode.simps)

lemma example_facts:
  "env_storage (pr_env example_pe) = FileStorage" "members example_snapshots = [old_snapshot, new_snapshot]"
  "Flag old_snapshot" "\<not> Flag new_snapshot" "baseReadLevels (op_storage example_state) = [2, 3]"
  by (simp_all add: example_pe_def padded_env_def members_def example_snapshots_def old_snapshot_def new_snapshot_def
      zero_snapshot_def example_state_def sample_store_def)

section \<open>The non-exhaustive prune\<close>

definition pruned :: "unit res \<times> file_storage operator_state" where
  "pruned = pruneSnapshotsNonExhaustive example_pe False False example_snapshots example_state"

lemma pruned_ok: "fst pruned = Inr ()"
  by code_simp

lemma example_content: "file_content (op_storage example_state) (chunk_file chunk8 False 2) = Some [8]"
  "file_content (op_storage example_state) (chunk_file chunk7 False 2) = Some [7]"
  by code_simp+

lemma example_stored: "disk.stored_at chunk7 False (op_storage example_state) = [2]"
  unfolding disk.stored_at_def by code_simp

theorem nonexhaustive_keeps_referenced_witness:
  "file_content (op_storage (snd pruned)) (chunk_file chunk8 False 2) = Some [8]"
  using nonexhaustive_keeps_referenced [OF example_setting example_facts(1) example_ready _ example_facts(4) example_references(2),
      where allSnapshots = example_snapshots and r = "fst pruned" and w' = "snd pruned" and dry = False and exclusive = False
      and l = 2 and isFossil = False] example_content example_facts
  by (simp add: pruned_def)

theorem nonexhaustive_collects_unreferenced_witness:
  "chunk_file chunk7 True 2 \<in> set (fossils (snd pruned)) \<and> file_content (op_storage (snd pruned)) (chunk_file chunk7 True 2) = Some [7]"
proof -
  have "pruneSnapshotsNonExhaustive example_pe False False example_snapshots example_state = (Inr (), snd pruned)"
    using pruned_ok unfolding pruned_def by (metis prod.collapse)
  from nonexhaustive_collects_unreferenced [OF example_setting example_facts(1) example_ready _ example_facts(3)
      example_references(1) _ this example_stored example_content(2)] show ?thesis
    using example_facts(2,3) example_references(3) by simp
qed

theorem nonexhaustive_protects_latest_witness:
  "op_storage (snd (pruneSnapshotsNonExhaustive example_pe False False [(''a'', [new_snapshot, old_snapshot])] example_state)) =
     op_storage example_state"
  using nonexhaustive_protects_latest [OF example_setting example_facts(1) example_ok, of "''a''" "[new_snapshot, old_snapshot]"
      "[(''a'', [new_snapshot, old_snapshot])]" False "fst (pruneSnapshotsNonExhaustive example_pe False False
        [(''a'', [new_snapshot, old_snapshot])] example_state)"] example_facts(3)
  by simp

section \<open>Fossil collections\<close>

text \<open>Chunk 7 has become a fossil; a snapshot that was being made at the time references it. It is
  not new enough for the collection to be deletable.\<close>

definition fossil_tree :: files where
  "fossil_tree = [([''store''], Dir), ([''store'', ''chunks''], Dir), ([''store'', ''chunks'', ''01''], Dir),
     ([''store'', ''chunks'', ''01'', ''01''], Dir),
     ([''store'', ''chunks'', ''01'', ''01'', ''010101010101010107.fsl''], File [7])]"

definition fossil_state :: "file_storage operator_state" where
  "fossil_state = sample_state\<lparr>op_storage := sample_store\<lparr>fileTree := fossil_tree\<rparr>,
     snapshotCache := Some (sample_store\<lparr>fileTree :=
       [([''store''], Dir), ([''store'', ''fossils''], Dir), ([''store'', ''fossils'', ''1''], File [1])]\<rparr>)\<rparr>"

definition late_snapshot :: snapshot where
  "late_snapshot = zero_snapshot\<lparr>ID := ''a'', Revision := 2, EndTime := 90, ChunkHashes := [[1, 1, 1, 1, 1, 7]]\<rparr>"

lemma fossil_ok: "file_ok (op_storage fossil_state)"
  by (simp add: fossil_state_def file_ok_def sample_store_def fossil_tree_def tree_def at_path_def)

lemma fossil_ready: "\<forall>j \<in> all_ids padded_env. disk.ready j (op_storage fossil_state)"
proof
  fix j
  assume "j \<in> all_ids padded_env"
  then have "valid_id j" "10 \<le> length j" using example_ids by auto
  then show "disk.ready j (op_storage fossil_state)"
    by (intro ready_by_names fossil_ok) (simp_all add: fossil_state_def sample_store_def fossil_tree_def)
qed

lemma fossil_facts:
  "references padded_env sample_json_codec late_snapshot chunk7" "chunk7 \<in> all_ids padded_env"
  "baseReadLevels (op_storage fossil_state) = [2, 3]" "\<not> rewriteChunks padded_env" "\<not> allowFailures padded_env"
  "env_storage padded_env = FileStorage"
proof -
  have "hash_id padded_env [1, 1, 1, 1, 1, 7] chunk7" using example_hex(1) by (simp add: padded_id)
  then show "references padded_env sample_json_codec late_snapshot chunk7" "chunk7 \<in> all_ids padded_env"
    by (auto simp: references_def file_hashes_def late_snapshot_def all_ids_def)
qed (simp_all add: padded_env_def fossil_state_def sample_store_def)

lemma example_proper: "disk.proper_collection (all_ids padded_env) [2, 3] example_collection"
  using fossil_facts(2) by (auto simp: disk.proper_collection_def example_collection_def)

definition processed :: "unit res \<times> file_storage operator_state" where
  "processed = process_collection padded_env sample_json_codec False ''fossils/1'' example_collection [late_snapshot] fossil_state"

theorem process_collection_keeps_referenced_witness:
  "\<exists>g. \<exists>k \<in> set [2, 3]. file_content (op_storage (snd processed)) (chunk_file chunk7 g k) \<noteq> None"
proof -
  have "file_content (op_storage fossil_state) (chunk_file chunk7 True 2) \<noteq> None" by code_simp
  from process_collection_keeps_referenced [OF fossil_facts(4,5) padded_collision_free fossil_facts(6) fossil_ready _ fossil_facts(2) _ _ this,
      where collection = example_collection and newSnapshots = "[late_snapshot]" and codec = sample_json_codec
        and r = "fst processed" and w' = "snd processed" and dry = False and collectionFile = "''fossils/1''"]
  show ?thesis using example_proper fossil_facts(1,3) by (simp add: processed_def)
qed

definition exclusive_options :: prune_options where
  "exclusive_options = \<lparr>opt_selfID = ''a'', opt_snapshotID = [], opt_revisions = [], opt_tags = [], opt_retentions = [],
     opt_exhaustive = False, opt_exclusive = True, opt_ignoredIDs = [], opt_dryRun = False, opt_deleteOnly = False,
     opt_collectOnly = False\<rparr>"

definition stepped :: "(int \<times> string list) res \<times> file_storage operator_state" where
  "stepped = collection_step example_pe exclusive_options [(''a'', [late_snapshot])] ''1'' (0, []) fossil_state"

theorem exclusive_deletes_referenced_fossils_witness:
  "references padded_env sample_json_codec late_snapshot chunk7 \<and>
   file_content (op_storage fossil_state) (chunk_file chunk7 True 2) = Some [7] \<and>
   file_content (op_storage (snd stepped)) (chunk_file chunk7 True 2) = None"
proof -
  have run: "collection_step example_pe exclusive_options [(''a'', [late_snapshot])] ''1'' (0, []) fossil_state =
      (Inr (1, [chunk_file chunk7 True 2]), snd stepped)"
  proof -
    have "fst stepped = Inr (1, [chunk_file chunk7 True 2])" by code_simp
    then show ?thesis unfolding stepped_def by (metis prod.collapse)
  qed
  have "file_content (op_storage fossil_state) (chunk_file chunk7 True 2) = Some [7]" by code_simp
  moreover have "\<exists>w. on_cache (DownloadFile FileStorage (''fossils/'' @ ''1'')) fossil_state = (Inr ([1], None), w)"
  proof -
    have "fst (on_cache (DownloadFile FileStorage (''fossils/'' @ ''1'')) fossil_state) = Inr ([1], None)" by code_simp
    then show ?thesis by (metis prod.collapse)
  qed
  moreover have "\<not> fst (IsDeletable 60 True [] [(''a'', [late_snapshot])] example_collection)"
    "\<not> ghost_snapshot [(''a'', [late_snapshot])] example_collection" "collectionRegex ''1''" by code_simp+
  ultimately show ?thesis
    using exclusive_deletes_referenced_fossils [OF example_facts(1) _ _ _ _ _ _ _ _ _ _ run, where s = late_snapshot and i = chunk7 and l = 2
        and collection = example_collection and bs = "[1]"] fossil_facts fossil_ready example_proper
    by (auto simp: exclusive_options_def example_pe_def members_def example_collection_def)
qed

end
