(* ===== verification/EntryJson.thy ===== *)
theory EntryJson
  imports Snapshot
begin

text \<open>
  The JSON form of an entry (\<open>duplicacy_entry.go\<close>), in which snapshots of the old version list their
  files, with the base64 encoding of \<open>encoding/base64\<close>.

  Shown here: an entry written in this form is read back, up to what the form leaves out.
\<close>

section \<open>Base64\<close>

definition base64_alphabet :: string where
  "base64_alphabet = ''ABCDEFGHIJKLMNOPQRSTUVWXYZabcdefghijklmnopqrstuvwxyz0123456789+/''"

definition sextet_char :: "nat \<Rightarrow> char" where
  "sextet_char n = base64_alphabet ! n"

definition char_sextet :: "char \<Rightarrow> nat option" where
  "char_sextet c =
     (let i = length (takeWhile (\<lambda>d. d \<noteq> c) base64_alphabet) in if i < 64 then Some i else None)"

text \<open>Three bytes are four digits; one or two bytes at the end are padded.\<close>

fun base64_encode :: "bytes \<Rightarrow> string" where
  "base64_encode [] = []"
| "base64_encode [a] =
     [sextet_char (unat a div 4), sextet_char (unat a mod 4 * 16), CHR ''='', CHR ''='']"
| "base64_encode [a, b] =
     [sextet_char (unat a div 4), sextet_char (unat a mod 4 * 16 + unat b div 16),
      sextet_char (unat b mod 16 * 4), CHR ''='']"
| "base64_encode (a # b # c # bs) =
     [sextet_char (unat a div 4), sextet_char (unat a mod 4 * 16 + unat b div 16),
      sextet_char (unat b mod 16 * 4 + unat c div 64), sextet_char (unat c mod 64)] @ base64_encode bs"

fun decode_quads :: "string \<Rightarrow> bytes option" where
  "decode_quads [] = Some []"
| "decode_quads (w # x # y # z # s) =
     (case (char_sextet w, char_sextet x) of
        (Some i, Some j) \<Rightarrow>
          if y = CHR ''='' then
            if z = CHR ''='' \<and> s = [] then Some [of_nat (i * 4 + j div 16)] else None
          else
            (case char_sextet y of
               None \<Rightarrow> None
             | Some k \<Rightarrow>
                 if z = CHR ''='' then
                   if s = [] then Some [of_nat (i * 4 + j div 16), of_nat (j mod 16 * 16 + k div 4)] else None
                 else
                   (case (char_sextet z, decode_quads s) of
                      (Some l, Some bs) \<Rightarrow>
                        Some (of_nat (i * 4 + j div 16) # of_nat (j mod 16 * 16 + k div 4) #
                              of_nat (k mod 4 * 64 + l) # bs)
                    | _ \<Rightarrow> None))
      | _ \<Rightarrow> None)"
| "decode_quads _ = None"

text \<open>The decoder ignores line ends.\<close>

definition base64_decode :: "string \<Rightarrow> bytes option" where
  "base64_decode s = decode_quads (filter (\<lambda>c. c \<noteq> CHR 0x0A \<and> c \<noteq> CHR 0x0D) s)"

section \<open>Writing and reading an entry\<close>

definition content_string :: "entry \<Rightarrow> string" where
  "content_string e =
     show_int (StartChunk e) @ '':'' @ show_int (StartOffset e) @ '':'' @ show_int (EndChunk e) @ '':'' @ show_int (EndOffset e)"

definition attributes_object :: "(string \<times> bytes) list \<Rightarrow> json" where
  "attributes_object as = JObject (map (\<lambda>(name, attribute). (name, JString (base64_encode attribute))) as)"

definition convertToObject :: "bool \<Rightarrow> entry \<Rightarrow> (string \<times> json) list" where
  "convertToObject encodeName e =
     [if encodeName then (''name'', JString (base64_encode (string_bytes (Path e)))) else (''path'', JString (Path e)),
      (''size'', JNumber (Size e)), (''time'', JNumber (Time e)), (''mode'', JNumber (uint (Mode e))),
      (''hash'', JString (Hash e))] @
     (if IsLink e then [(''link'', JString (Link e))] else []) @
     (if IsFile e \<and> 0 < Size e then [(''content'', JString (content_string e))] else []) @
     (if UID e \<noteq> -1 \<and> GID e \<noteq> -1 then [(''uid'', JNumber (UID e)), (''gid'', JNumber (GID e))] else []) @
     (case Attributes e of Some as \<Rightarrow> if as \<noteq> [] then [(''attributes'', attributes_object as)] else [] | None \<Rightarrow> [])"

definition MarshalJSON_entry :: "json_codec \<Rightarrow> entry \<Rightarrow> goerror + bytes" where
  "MarshalJSON_entry codec e = json_Marshal codec (JObject (convertToObject True e))"

definition path_step :: "(string \<times> json) list \<Rightarrow> entry \<Rightarrow> goerror + entry" where
  "path_step kvs e =
     (case object_field kvs ''name'' of
        Some (JString s) \<Rightarrow>
          (case base64_decode s of
             None \<Rightarrow> Inl (GoErr ''Invalid name in the snapshot'')
           | Some path \<Rightarrow> Inr (e\<lparr>Path := bytes_string path\<rparr>))
      | Some _ \<Rightarrow> Inl (GoErr ''Name is not a string for a file in the snapshot'')
      | None \<Rightarrow>
          (case object_field kvs ''path'' of
             None \<Rightarrow> Inl (GoErr ''Path is not specified for a file in the snapshot'')
           | Some (JString s) \<Rightarrow> Inr (e\<lparr>Path := s\<rparr>)
           | Some _ \<Rightarrow> Inl (GoErr ''Path is not a string for a file in the snapshot'')))"

definition link_step :: "(string \<times> json) list \<Rightarrow> entry \<Rightarrow> goerror + entry" where
  "link_step kvs e =
     (case object_field kvs ''link'' of
        None \<Rightarrow> Inr e
      | Some (JString s) \<Rightarrow> Inr (e\<lparr>Link := s\<rparr>)
      | Some _ \<Rightarrow> Inl (GoErr ''Symlink is not a valid string for file''))"

definition number_field :: "(string \<times> json) list \<Rightarrow> string \<Rightarrow> string \<Rightarrow> goerror + int" where
  "number_field kvs key what =
     (case object_field kvs key of
        None \<Rightarrow> Inl (GoErr (what @ '' is not specified for file''))
      | Some (JNumber n) \<Rightarrow> Inr (int_of_float64 (float64 n))
      | Some _ \<Rightarrow> Inl (GoErr (what @ '' is not a valid integer for file'')))"

definition owner_field :: "(string \<times> json) list \<Rightarrow> string \<Rightarrow> int" where
  "owner_field kvs key =
     (case object_field kvs key of Some (JNumber n) \<Rightarrow> int_of_float64 (float64 n) | _ \<Rightarrow> -1)"

text \<open>Of several fields with the same name the last one is kept.\<close>

fun decode_attribute_fields :: "(string \<times> json) list \<Rightarrow> goerror + (string \<times> bytes) list" where
  "decode_attribute_fields [] = Inr []"
| "decode_attribute_fields ((name, v) # kvs) =
     bind_res (decode_attribute_fields kvs) (\<lambda>rest.
       if name \<in> fst ` set rest then Inr rest
       else case v of
         JNull \<Rightarrow> Inr ((name, []) # rest)
       | JString s \<Rightarrow>
           (case base64_decode s of
              None \<Rightarrow> Inl (GoErr ''Failed to decode attribute'')
            | Some attribute \<Rightarrow> Inr ((name, attribute) # rest))
       | _ \<Rightarrow> Inl (GoErr ''Attribute is invalid for file''))"

definition attributes_step :: "(string \<times> json) list \<Rightarrow> entry \<Rightarrow> goerror + entry" where
  "attributes_step kvs e =
     (case object_field kvs ''attributes'' of
        None \<Rightarrow> Inr e
      | Some (JObject as) \<Rightarrow> bind_res (decode_attribute_fields as) (\<lambda>as. Inr (e\<lparr>Attributes := Some as\<rparr>))
      | Some _ \<Rightarrow> Inl (GoErr ''Attributes are invalid for file''))"

text \<open>\<open>contentRegex\<close>: four decimal numbers separated by colons at the start of the string. A number
  out of range is read as the largest one, since the error of \<open>Atoi\<close> is ignored.\<close>

definition leading_number :: "string \<Rightarrow> (string \<times> string) option" where
  "leading_number s =
     (let d = takeWhile is_digit s in if d = [] then None else Some (d, dropWhile is_digit s))"

fun leading_numbers :: "nat \<Rightarrow> string \<Rightarrow> string list option" where
  "leading_numbers 0 s = Some []"
| "leading_numbers (Suc n) s =
     (case leading_number s of
        None \<Rightarrow> None
      | Some (d, rest) \<Rightarrow>
          if n = 0 then Some [d]
          else (case rest of
                  CHR '':'' # rest \<Rightarrow> map_option (\<lambda>ds. d # ds) (leading_numbers n rest)
                | _ \<Rightarrow> None))"

definition content_step :: "(string \<times> json) list \<Rightarrow> entry \<Rightarrow> goerror + entry" where
  "content_step kvs e =
     (if IsFile e \<and> 0 < Size e then
        (case object_field kvs ''content'' of
           None \<Rightarrow> Inl (GoErr ''Content is not specified for file'')
         | Some (JString content) \<Rightarrow>
             (case leading_numbers 4 content of
                Some [a, b, c, d] \<Rightarrow>
                  Inr (e\<lparr>StartChunk := Atoi_digits a, StartOffset := Atoi_digits b,
                         EndChunk := Atoi_digits c, EndOffset := Atoi_digits d\<rparr>)
              | _ \<Rightarrow> Inl (GoErr ''Content is specified in a wrong format for file''))
         | Some _ \<Rightarrow> Inl (GoErr ''Content is invalid for file''))
      else Inr e)"

definition entry_steps :: "(string \<times> json) list \<Rightarrow> (entry \<Rightarrow> goerror + entry) list" where
  "entry_steps kvs =
    [path_step kvs,
     \<lambda>e. bind_res (number_field kvs ''size'' ''Size'') (\<lambda>n. Inr (e\<lparr>Size := n\<rparr>)),
     \<lambda>e. bind_res (number_field kvs ''time'' ''Time'') (\<lambda>n. Inr (e\<lparr>Time := n\<rparr>)),
     \<lambda>e. bind_res (number_field kvs ''mode'' ''Mode'') (\<lambda>n. Inr (e\<lparr>Mode := of_int n\<rparr>)),
     \<lambda>e. (case object_field kvs ''hash'' of
            None \<Rightarrow> Inl (GoErr ''Hash is not specified for file'')
          | Some (JString s) \<Rightarrow> Inr (e\<lparr>Hash := s\<rparr>)
          | Some _ \<Rightarrow> Inl (GoErr ''Hash is not a string for file'')),
     link_step kvs,
     \<lambda>e. Inr (e\<lparr>UID := owner_field kvs ''uid''\<rparr>),
     \<lambda>e. Inr (e\<lparr>GID := owner_field kvs ''gid''\<rparr>),
     attributes_step kvs, content_step kvs]"

definition zero_entry :: entry where
  "zero_entry = \<lparr>Path = [], Size = 0, Time = 0, Mode = 0, Link = [], Hash = [], UID = 0, GID = 0,
     StartChunk = 0, StartOffset = 0, EndChunk = 0, EndOffset = 0, Attributes = None\<rparr>"

text \<open>The document is a JSON object; the entry is new.\<close>

definition unmarshal_entry :: "json \<Rightarrow> goerror + entry" where
  "unmarshal_entry v =
     (case v of JObject kvs \<Rightarrow> run_steps (entry_steps kvs) zero_entry
      | JNull \<Rightarrow> run_steps (entry_steps []) zero_entry
      | _ \<Rightarrow> Inl (GoErr ''json: cannot unmarshal into Go value''))"

definition UnmarshalJSON_entry :: "json_codec \<Rightarrow> bytes \<Rightarrow> goerror + entry" where
  "UnmarshalJSON_entry codec description = bind_res (json_Unmarshal codec description) unmarshal_entry"

section \<open>Round trips\<close>

lemma sextet_roundtrip: "n < 64 \<Longrightarrow> char_sextet (sextet_char n) = Some n"
  and sextet_no_padding: "n < 64 \<Longrightarrow> sextet_char n \<noteq> CHR ''='' \<and> sextet_char n \<noteq> CHR 0x0A \<and> sextet_char n \<noteq> CHR 0x0D"
proof -
  have "list_all (\<lambda>n. char_sextet (sextet_char n) = Some n \<and> sextet_char n \<noteq> CHR ''='' \<and>
      sextet_char n \<noteq> CHR 0x0A \<and> sextet_char n \<noteq> CHR 0x0D) [0..<64]" by code_simp
  then show "n < 64 \<Longrightarrow> char_sextet (sextet_char n) = Some n"
    "n < 64 \<Longrightarrow> sextet_char n \<noteq> CHR ''='' \<and> sextet_char n \<noteq> CHR 0x0A \<and> sextet_char n \<noteq> CHR 0x0D"
    by (simp_all add: list_all_iff)
qed

lemma sextet_bounds:
  fixes a b c :: byte
  shows "unat a div 4 < 64" "unat a mod 4 * 16 < 64" "unat a mod 4 * 16 + unat b div 16 < 64"
    "unat b mod 16 * 4 < 64" "unat b mod 16 * 4 + unat c div 64 < 64" "unat c mod 64 < 64"
proof -
  have "unat a < 256" "unat b < 256" "unat c < 256" by (rule unat_byte_less)+
  then have "unat a div 4 < 64" "unat b div 16 < 16" "unat c div 64 < 4" by (simp_all add: div_less_iff_less_mult)
  moreover have "unat a mod 4 < 4" "unat b mod 16 < 16" by simp_all
  ultimately show "unat a div 4 < 64" "unat a mod 4 * 16 < 64" "unat a mod 4 * 16 + unat b div 16 < 64"
    "unat b mod 16 * 4 < 64" "unat b mod 16 * 4 + unat c div 64 < 64" "unat c mod 64 < 64" by linarith+
qed

lemma byte_parts:
  fixes b :: byte
  shows "unat b div 16 div 16 = 0" "unat b div 16 mod 16 = unat b div 16"
    "unat b div 64 div 4 = 0" "unat b div 64 mod 4 = unat b div 64"
proof -
  have "unat b div 16 < 16" "unat b div 64 < 4"
    using unat_byte_less [of b] by (simp_all add: div_less_iff_less_mult)
  then show "unat b div 16 div 16 = 0" "unat b div 16 mod 16 = unat b div 16"
    "unat b div 64 div 4 = 0" "unat b div 64 mod 4 = unat b div 64" by simp_all
qed

lemma base64_quads: "decode_quads (base64_encode bs) = Some bs"
proof (induction bs rule: base64_encode.induct)
  case (2 a)
  then show ?case
    using sextet_bounds(1,2) [of a] by (simp add: sextet_roundtrip byte_parts del: of_nat_add of_nat_mult)
next
  case (3 a b)
  then show ?case
    using sextet_bounds(1) [of a] sextet_bounds(3) [of a b] sextet_bounds(4) [of b]
    by (simp add: sextet_roundtrip sextet_no_padding byte_parts del: of_nat_add of_nat_mult)
next
  case (4 a b c bs)
  then show ?case
    using sextet_bounds(1) [of a] sextet_bounds(3) [of a b] sextet_bounds(5) [of b c] sextet_bounds(6) [of c]
    by (simp add: sextet_roundtrip sextet_no_padding byte_parts del: of_nat_add of_nat_mult)
qed simp

lemma base64_no_newline: "\<forall>c \<in> set (base64_encode bs). c \<noteq> CHR 0x0A \<and> c \<noteq> CHR 0x0D"
  using sextet_bounds
  by (induction bs rule: base64_encode.induct) (simp_all add: sextet_no_padding)

lemma base64_roundtrip [simp, go_roundtrip]: "base64_decode (base64_encode bs) = Some bs"
proof -
  have "filter (\<lambda>c. c \<noteq> CHR 0x0A \<and> c \<noteq> CHR 0x0D) (base64_encode bs) = base64_encode bs"
    using base64_no_newline [of bs] by (simp add: filter_id_conv)
  then show ?thesis by (simp only: base64_decode_def base64_quads)
qed


definition content_numbers :: "entry \<Rightarrow> int list" where
  "content_numbers e = [StartChunk e, StartOffset e, EndChunk e, EndOffset e]"

definition exact_entry :: "entry \<Rightarrow> bool" where
  "exact_entry e \<longleftrightarrow> exact_number (Size e) \<and> exact_number (Time e) \<and> exact_number (UID e) \<and> exact_number (GID e) \<and>
     list_all (\<lambda>n. 0 \<le> n \<and> n \<le> max_int64) (content_numbers e) \<and>
     (case Attributes e of Some as \<Rightarrow> distinct (map fst as) | None \<Rightarrow> True)"

text \<open>What the JSON form keeps of an entry.\<close>

definition json_form :: "entry \<Rightarrow> entry" where
  "json_form e =
     (let file = IsFile e \<and> 0 < Size e; owned = UID e \<noteq> -1 \<and> GID e \<noteq> -1 in
      e\<lparr>Link := if IsLink e then Link e else [],
        UID := if owned then UID e else -1, GID := if owned then GID e else -1,
        StartChunk := if file then StartChunk e else 0, StartOffset := if file then StartOffset e else 0,
        EndChunk := if file then EndChunk e else 0, EndOffset := if file then EndOffset e else 0,
        Attributes := if Attributes e = Some [] then None else Attributes e\<rparr>)"

lemma leading_number_show:
  assumes "r = [] \<or> \<not> is_digit (hd r)"
  shows "leading_number (show_nat n @ r) = Some (show_nat n, r)"
proof -
  have all: "\<forall>c \<in> set (show_nat n). is_digit c" by (rule show_nat_digits)
  then have "takeWhile is_digit (show_nat n) = show_nat n" "dropWhile is_digit (show_nat n) = []"
    by (simp_all add: takeWhile_eq_all_conv dropWhile_eq_Nil_conv)
  with all assms have "takeWhile is_digit (show_nat n @ r) = show_nat n" "dropWhile is_digit (show_nat n @ r) = r"
    by (cases r; simp)+
  then show ?thesis by (simp only: leading_number_def Let_def show_nat_nonempty if_False)
qed

lemma colon_no_digit: "\<not> is_digit CHR '':''"
  by code_simp

lemma leading_numbers_content:
  assumes "list_all (\<lambda>n. 0 \<le> n) (content_numbers e)"
  shows "leading_numbers 4 (content_string e) = Some (map (\<lambda>n. show_nat (nat n)) (content_numbers e))"
proof -
  have "content_string e = show_nat (nat (StartChunk e)) @ CHR '':'' # show_nat (nat (StartOffset e)) @ CHR '':'' #
      show_nat (nat (EndChunk e)) @ CHR '':'' # show_nat (nat (EndOffset e)) @ []"
    using assms by (simp add: content_string_def content_numbers_def show_int_def)
  then show ?thesis
    by (simp add: eval_nat_numeral leading_number_show colon_no_digit content_numbers_def del: append_Nil2)
qed

lemma decode_attributes_object:
  "distinct (map fst as) \<Longrightarrow>
   decode_attribute_fields (map (\<lambda>(name, attribute). (name, JString (base64_encode attribute))) as) = Inr as"
  by (induction as) auto

lemma decoded_mode: "(of_int (int_of_float64 (float64 (uint (m :: 32 word)))) :: 32 word) = m"
proof -
  have "uint m < 2 ^ 32" "0 \<le> uint m" using uint_lt2p [of m] by simp_all
  then have "exact_number (uint m)" by (simp add: exact_number_def)
  then show ?thesis by (simp add: float64_exact)
qed

lemma bytes_string_of_string [simp]: "bytes_string (string_bytes s) = s"
  by (simp add: bytes_string_string_bytes)

definition first_of :: "'a option \<Rightarrow> 'a option \<Rightarrow> 'a option" where
  "first_of x y = (case x of Some v \<Rightarrow> Some v | None \<Rightarrow> y)"

lemma first_of_simps [simp]: "first_of None y = y" "first_of (Some v) y = Some v" "first_of x None = x"
  by (simp_all add: first_of_def split: option.splits)

lemma object_field_append:
  "object_field (kvs @ kvs') key = first_of (object_field kvs' key) (object_field kvs key)"
  by (simp add: object_field_def map_add_def first_of_def split: option.splits)

lemma object_field_Cons:
  "object_field ((k, v) # kvs) key = first_of (object_field kvs key) (if key = k then Some v else None)"
  "object_field [] key = None"
  by (simp_all add: object_field_def map_add_def first_of_def split: option.splits)

lemma optional_fields:
  "object_field (if c then [(k, v)] else []) key = (if key = k then if c then Some v else None else None)"
  "object_field (if c then [(k, v), (k', v')] else []) key =
     (if key = k' then if c then Some v' else None else if key = k then if c then Some v else None else None)"
  "object_field (case x of Some as \<Rightarrow> if as \<noteq> [] then [(k, f as)] else [] | None \<Rightarrow> []) key =
     (if key = k then (case x of Some as \<Rightarrow> if as \<noteq> [] then Some (f as) else None | None \<Rightarrow> None) else None)"
  by (simp_all add: object_field_def split: option.splits)

lemma run_entry_steps:
  assumes "exact_entry e"
  shows "run_steps (entry_steps (convertToObject True e)) zero_entry = Inr (json_form e)"
proof -
  let ?o = "convertToObject True e"
  have f: "object_field ?o ''name'' = Some (JString (base64_encode (string_bytes (Path e))))"
    "object_field ?o ''size'' = Some (JNumber (Size e))" "object_field ?o ''time'' = Some (JNumber (Time e))"
    "object_field ?o ''mode'' = Some (JNumber (uint (Mode e)))" "object_field ?o ''hash'' = Some (JString (Hash e))"
    "object_field ?o ''link'' = (if IsLink e then Some (JString (Link e)) else None)"
    "object_field ?o ''content'' = (if IsFile e \<and> 0 < Size e then Some (JString (content_string e)) else None)"
    "object_field ?o ''uid'' = (if UID e \<noteq> -1 \<and> GID e \<noteq> -1 then Some (JNumber (UID e)) else None)"
    "object_field ?o ''gid'' = (if UID e \<noteq> -1 \<and> GID e \<noteq> -1 then Some (JNumber (GID e)) else None)"
    "object_field ?o ''attributes'' =
       (case Attributes e of Some as \<Rightarrow> if as \<noteq> [] then Some (attributes_object as) else None | None \<Rightarrow> None)"
    by (simp_all add: convertToObject_def object_field_append object_field_Cons optional_fields split del: if_split)
  have n: "list_all (\<lambda>n. 0 \<le> n) (content_numbers e)"
    using assms by (simp add: exact_entry_def list_all_iff)
  note c = leading_numbers_content [OF n]
  have a: "Atoi_digits (show_nat (nat n)) = n" if "n \<in> set (content_numbers e)" for n
    using that assms Atoi_show_nat [of "nat n"] by (auto simp: exact_entry_def list_all_iff)
  have x: "int_of_float64 (float64 (Size e)) = Size e" "int_of_float64 (float64 (Time e)) = Time e"
    "int_of_float64 (float64 (UID e)) = UID e" "int_of_float64 (float64 (GID e)) = GID e"
    using assms by (simp_all add: exact_entry_def float64_exact)
  have at: "Attributes e = Some as \<Longrightarrow> distinct (map fst as)" for as using assms by (simp add: exact_entry_def)
  have attributes: "attributes_step ?o z = Inr (z\<lparr>Attributes := if Attributes e = Some [] then None else Attributes e\<rparr>)"
    if "Attributes z = None" for z
    using that f(10) at by (cases "Attributes e")
      (auto simp: attributes_step_def attributes_object_def decode_attributes_object)
  let ?file = "IsFile e \<and> 0 < Size e"
  have content: "content_step ?o z = Inr (z\<lparr>StartChunk := if ?file then StartChunk e else 0,
      StartOffset := if ?file then StartOffset e else 0, EndChunk := if ?file then EndChunk e else 0,
      EndOffset := if ?file then EndOffset e else 0\<rparr>)"
    if "Mode z = Mode e" "Size z = Size e" "content_numbers z = [0, 0, 0, 0]" for z
  proof -
    have isfile: "IsFile z = IsFile e" using that(1) by (simp add: IsFile_def)
    note n = a [unfolded content_numbers_def, of "StartChunk e"] a [unfolded content_numbers_def, of "StartOffset e"]
      a [unfolded content_numbers_def, of "EndChunk e"] a [unfolded content_numbers_def, of "EndOffset e"]
    show ?thesis
    proof (cases ?file)
      case True
      then have "content_step ?o z = (case leading_numbers 4 (content_string e) of
          Some [a, b, c, d] \<Rightarrow> Inr (z\<lparr>StartChunk := Atoi_digits a, StartOffset := Atoi_digits b,
            EndChunk := Atoi_digits c, EndOffset := Atoi_digits d\<rparr>)
        | _ \<Rightarrow> Inl (GoErr ''Content is specified in a wrong format for file''))"
        using that(2) isfile f(7) by (simp only: content_step_def simp_thms if_True option.case json.case)
      then show ?thesis using True c n by (simp add: content_numbers_def)
    next
      case False
      then have "content_step ?o z = Inr z" using that(2) isfile by (simp only: content_step_def simp_thms if_False)
      moreover have "z = z\<lparr>StartChunk := 0, StartOffset := 0, EndChunk := 0, EndOffset := 0\<rparr>"
        using that(3) by (cases z) (simp add: content_numbers_def)
      ultimately show ?thesis by (simp only: False if_False)
    qed
  qed
  have owner: "owner_field ?o ''uid'' = (if UID e \<noteq> -1 \<and> GID e \<noteq> -1 then UID e else -1)"
    "owner_field ?o ''gid'' = (if UID e \<noteq> -1 \<and> GID e \<noteq> -1 then GID e else -1)"
    using f(8,9) x by (simp_all add: owner_field_def)
  have num: "number_field ?o ''size'' w = Inr (Size e)" "number_field ?o ''time'' w = Inr (Time e)"
    "number_field ?o ''mode'' w = Inr (int_of_float64 (float64 (uint (Mode e))))" for w
    using f(2-4) x by (simp_all add: number_field_def)
  have link: "link_step ?o z = Inr (z\<lparr>Link := if IsLink e then Link e else []\<rparr>)" if "Link z = []" for z
    using f(6) that by (cases "IsLink e") (simp_all add: link_step_def)
  have path: "path_step ?o z = Inr (z\<lparr>Path := Path e\<rparr>)" for z
    using f(1) by (simp add: path_step_def)
  show ?thesis
    unfolding entry_steps_def zero_entry_def
    by (simp add: path num f(5) link owner attributes content content_numbers_def decoded_mode json_form_def Let_def split del: if_split)
qed

text \<open>C37: an entry written as JSON, as an old snapshot lists it, is read back: path, size, times, mode,
  owner, hash, symbolic link target, attributes and, for a non-empty file, the chunk range. The form has no place
  for hard-link markers, and the owner is kept only if both ids are known.\<close>

theorem entry_json_roundtrip:
  assumes "MarshalJSON_entry codec e = Inr bs" and "json_faithful codec (JObject (convertToObject True e))"
    and "exact_entry e"
  shows "UnmarshalJSON_entry codec bs = Inr (json_form e)"
  using assms run_entry_steps
  by (simp add: UnmarshalJSON_entry_def unmarshal_entry_def MarshalJSON_entry_def json_faithful_def)

definition sample_json_entry :: entry where
  "sample_json_entry = (CreateEntry ''dir/a'' 9 1700000000 0x1A4)\<lparr>Hash := ''ab'', UID := 1000, GID := 100,
     StartChunk := 3, StartOffset := 17, EndChunk := 4, EndOffset := 2, Attributes := Some [(''user.x'', [1, 2, 3, 255])]\<rparr>"

theorem entry_json_roundtrip_witness:
  "UnmarshalJSON_entry (table_codec [(JObject (convertToObject True sample_json_entry), [1])]) [1] = Inr sample_json_entry"
proof -
  let ?codec = "table_codec [(JObject (convertToObject True sample_json_entry), [1])]"
  have "MarshalJSON_entry ?codec sample_json_entry = Inr [1]"
    "json_faithful ?codec (JObject (convertToObject True sample_json_entry))"
    by (simp_all add: MarshalJSON_entry_def json_faithful_def table_codec_def)
  moreover have "exact_entry sample_json_entry" by code_simp
  ultimately have "UnmarshalJSON_entry ?codec [1] = Inr (json_form sample_json_entry)" by (rule entry_json_roundtrip)
  then show ?thesis by (simp add: json_form_def sample_json_entry_def CreateEntry_def IsFile_def IsLink_def mode_defs Let_def)
qed

end
