(* ===== verification/BackupCompare.thy ===== *)
theory BackupCompare
  imports EntryList Snapshot
begin

text \<open>
  The comparison of the local files with those of the previous backup: the loop of
  \<open>BackupManager.Backup\<close> (\<open>duplicacy_backupmanager.go\<close>) that fills the entry list.

  The two channels are the lists of the entries that are sent over them. A file that is unchanged by
  size and time takes over the chunks of its counterpart, which are copied to the preserved chunks of
  the entry list; every other file is marked as modified. A binary hash is a list of bytes in the
  snapshot and a string in the entry list.

  Shown here: when both listings are ordered by path, the loop finds the counterpart of every file
  that has one, and the chunk range a file is given in the preserved chunks holds the same hashes
  and lengths as the range of its counterpart in the previous snapshot.
\<close>

section \<open>The loop\<close>

text \<open>The inner loop: remote entries that sort before the local one are skipped. The result is the
  last comparison, the current remote entry and what the channel still delivers.\<close>

function counterpart :: "entry \<Rightarrow> entry option \<Rightarrow> entry list \<Rightarrow> int \<times> entry option \<times> entry list" where
  "counterpart l (Some r) remote =
     (if Compare l r \<le> 0 then (Compare l r, Some r, remote) else counterpart l None remote)"
| "counterpart l None [] = (-1, None, [])"
| "counterpart l None (r # remote) = counterpart l (Some r) remote"
  by pat_completeness auto
termination
  by (relation "measure (\<lambda>(_, current, remote). 2 * length remote + (if current = None then 0 else 1))") auto

record compare_state =
  remoteEntry :: "entry option"
  remoteListing :: "entry list"
  localEntryList :: entry_list
  lastPreservedChunk :: int
  totalModifiedFileSize :: int
  preservedFileSize :: int

definition preserve_chunk :: "snapshot \<Rightarrow> int \<Rightarrow> compare_state \<Rightarrow> compare_state res" where
  "preserve_chunk remoteSnapshot i cs =
     bind_res (index_slice (ChunkHashes remoteSnapshot) i) (\<lambda>hash.
     bind_res (index_slice (ChunkLengths remoteSnapshot) i) (\<lambda>size.
       Inr (cs\<lparr>localEntryList := AddPreservedChunk (bytes_string hash) size (localEntryList cs),
               lastPreservedChunk := i\<rparr>)))"

function preserve_loop :: "snapshot \<Rightarrow> int \<Rightarrow> int \<Rightarrow> compare_state \<Rightarrow> compare_state res" where
  "preserve_loop remoteSnapshot i endChunk cs =
     (if i \<le> endChunk
      then bind_res (preserve_chunk remoteSnapshot i cs) (preserve_loop remoteSnapshot (i + 1) endChunk)
      else Inr cs)"
  by pat_completeness auto
termination
  by (relation "measure (\<lambda>(_, i, endChunk, _). nat (endChunk + 1 - i))") auto

declare preserve_loop.simps [simp del]

definition preserve_entry ::
  "snapshot \<Rightarrow> entry \<Rightarrow> entry \<Rightarrow> compare_state \<Rightarrow> (entry \<times> compare_state) res" where
  "preserve_entry remoteSnapshot l r cs =
     (let l = l\<lparr>Hash := Hash r, StartOffset := StartOffset r, EndOffset := EndOffset r\<rparr>;
          delta = StartChunk r - int (length (PreservedChunkHashes (localEntryList cs)))
      in bind_res
           (if lastPreservedChunk cs \<noteq> StartChunk r
            then bind_res (preserve_chunk remoteSnapshot (StartChunk r) cs) (\<lambda>cs. Inr (delta, cs))
            else Inr (delta + 1, cs)) (\<lambda>(delta, cs).
         bind_res (preserve_loop remoteSnapshot (StartChunk r + 1) (EndChunk r) cs) (\<lambda>cs.
           Inr (l\<lparr>StartChunk := StartChunk r - delta, EndChunk := EndChunk r - delta\<rparr>,
                cs\<lparr>preservedFileSize := preservedFileSize cs + Size l\<rparr>))))"

definition mark_modified :: "entry \<Rightarrow> compare_state \<Rightarrow> entry \<times> compare_state" where
  "mark_modified l cs =
     (if 0 < Size l then l\<lparr>Size := -1\<rparr> else l,
      cs\<lparr>totalModifiedFileSize := totalModifiedFileSize cs + Size l\<rparr>)"

definition compare_entry :: "snapshot \<Rightarrow> entry \<Rightarrow> compare_state \<Rightarrow> (entry \<times> compare_state) res" where
  "compare_entry remoteSnapshot l cs =
     (case counterpart l (remoteEntry cs) (remoteListing cs) of (compareResult, current, remote) \<Rightarrow>
       let cs = cs\<lparr>remoteEntry := current, remoteListing := remote\<rparr> in
       if compareResult = 0 then
         (case current of
            None \<Rightarrow> Inl (Panic ''nil pointer dereference'')
          | Some r \<Rightarrow>
              let cs = cs\<lparr>remoteEntry := None\<rparr> in
              if IsSameAs l r \<and> IsFile l
              then if 0 < Size l then preserve_entry remoteSnapshot l r cs else Inr (l, cs)
              else Inr (mark_modified l cs))
       else Inr (mark_modified l cs))"

fun compare_loop ::
  "msgpack \<Rightarrow> (bytes \<Rightarrow> bytes) \<Rightarrow> goerror option \<Rightarrow> snapshot \<Rightarrow> entry list \<Rightarrow> compare_state \<Rightarrow> compare_state res" where
  "compare_loop mp sha256 open_error remoteSnapshot [] cs = Inr cs"
| "compare_loop mp sha256 open_error remoteSnapshot (l # localListing) cs =
     bind_res (compare_entry remoteSnapshot l cs) (\<lambda>(e, cs).
       compare_loop mp sha256 open_error remoteSnapshot localListing
         (cs\<lparr>localEntryList := snd (AddEntry mp sha256 open_error e (localEntryList cs))\<rparr>))"

definition start_compare :: "entry list \<Rightarrow> entry_list \<Rightarrow> compare_state" where
  "start_compare remote el =
     \<lparr>remoteEntry = None, remoteListing = remote, localEntryList = el, lastPreservedChunk = -1,
      totalModifiedFileSize = 0, preservedFileSize = 0\<rparr>"

section \<open>Finding the counterpart\<close>

definition pending :: "compare_state \<Rightarrow> entry list" where
  "pending cs = (case remoteEntry cs of None \<Rightarrow> remoteListing cs | Some r \<Rightarrow> r # remoteListing cs)"

lemma pending_localEntryList [simp]: "pending (cs\<lparr>localEntryList := el\<rparr>) = pending cs"
  by (cases "remoteEntry cs") (simp_all add: pending_def)

definition after :: "entry \<Rightarrow> entry list \<Rightarrow> entry list" where
  "after l = dropWhile (\<lambda>r. 0 < Compare l r)"

lemma counterpart_after:
  "counterpart l current remote =
     (case after l (case current of None \<Rightarrow> remote | Some r \<Rightarrow> r # remote) of
        [] \<Rightarrow> (-1, None, [])
      | r # remote' \<Rightarrow> (Compare l r, Some r, remote'))"
  by (induction l current remote rule: counterpart.induct) (auto simp: after_def)

definition by_path :: "entry list \<Rightarrow> bool" where
  "by_path es \<longleftrightarrow> paths.ordered (map Path es)"

lemma by_path_Cons:
  "by_path (e # es) \<longleftrightarrow> no_nul (Path e) \<and> (\<forall>f \<in> set es. Compare e f < 0) \<and> by_path es"
  by (auto simp: by_path_def paths.ordered_Cons Compare_def)

lemma by_path_after: "by_path es \<Longrightarrow> by_path (after l es)"
  by (induction es) (auto simp: after_def by_path_Cons)

definition same_path :: "entry \<Rightarrow> entry list \<Rightarrow> entry option" where
  "same_path l remote = List.find (\<lambda>r. Path r = Path l) remote"

lemma Compare_zero: "no_nul (Path l) \<Longrightarrow> no_nul (Path r) \<Longrightarrow> Compare l r = 0 \<longleftrightarrow> Path r = Path l"
  using paths.cmp_zero [of "Path l" "Path r"] by (auto simp: Compare_def)

lemma same_path_after:
  assumes "by_path remote" and "no_nul (Path l)"
  shows "same_path l (after l remote) = same_path l remote"
  using assms
proof (induction remote)
  case (Cons r remote)
  then show ?case
    using Compare_zero [of l r] by (auto simp: after_def same_path_def by_path_Cons)
qed (simp add: after_def)

lemma same_path_None:
  assumes "by_path (r # remote)" and "no_nul (Path l)" and "Compare l r < 0"
  shows "same_path l (r # remote) = None"
proof -
  have "Path l \<notin> set (map Path (r # remote))"
    using assms paths.before_head_not_in [of "Path r" "map Path remote" "Path l"]
    by (simp add: by_path_def Compare_def)
  then have "\<forall>x \<in> set (r # remote). Path x \<noteq> Path l" by (metis image_eqI set_map)
  then show ?thesis by (simp add: same_path_def find_None_iff)
qed

lemma Compare_trans:
  "no_nul (Path a) \<Longrightarrow> no_nul (Path b) \<Longrightarrow> no_nul (Path c) \<Longrightarrow> Compare a b < 0 \<Longrightarrow> Compare b c < 0 \<Longrightarrow>
   Compare a c < 0"
  using paths.cmp_trans [of "Path a" "Path b" "Path c"] by (simp add: Compare_def)

lemma Compare_flip: "no_nul (Path a) \<Longrightarrow> no_nul (Path b) \<Longrightarrow> 0 < Compare a b \<longleftrightarrow> Compare b a < 0"
  using paths.cmp_flip [of "Path b" "Path a"] by (simp add: Compare_def)

text \<open>What a local entry leaves behind does not matter to the local entries that follow.\<close>

lemma same_path_later:
  assumes "by_path remote" and "no_nul (Path l)" "no_nul (Path l')" and "Compare l l' < 0"
  shows "same_path l' (case after l remote of [] \<Rightarrow> [] | r # rest \<Rightarrow> if Compare l r = 0 then rest else r # rest)
    = same_path l' remote"
  using assms(1)
proof (induction remote)
  case (Cons r remote)
  have nul: "no_nul (Path r)" using Cons.prems by (simp add: by_path_Cons)
  show ?case
  proof (cases "0 < Compare l r")
    case True
    then have "Compare r l < 0" using Compare_flip assms(2) nul by blast
    then have "Compare r l' < 0" using Compare_trans assms nul by blast
    then have "Path r \<noteq> Path l'" using Compare_zero [of r l'] nul assms(3) by auto
    with True Cons show ?thesis by (simp add: after_def same_path_def by_path_Cons)
  next
    case False
    show ?thesis
    proof (cases "Compare l r = 0")
      case True
      then have "Path r = Path l" using Compare_zero assms(2) nul by blast
      then have "Path r \<noteq> Path l'" using assms by (auto simp: Compare_def ComparePaths_refl)
      with True show ?thesis by (simp add: after_def same_path_def)
    qed (use False in \<open>simp add: after_def\<close>)
  qed
qed (simp add: after_def)

section \<open>Taking over chunks\<close>

text \<open>The chunks, each with its length, from one index to another.\<close>

definition run :: "'a list \<Rightarrow> int \<Rightarrow> int \<Rightarrow> 'a list" where
  "run xs i j = take (nat (j + 1 - i)) (drop (nat i) xs)"

definition entry_run :: "'a list \<Rightarrow> entry \<Rightarrow> 'a list" where
  "entry_run xs e = run xs (StartChunk e) (EndChunk e)"

definition in_range :: "'a list \<Rightarrow> entry \<Rightarrow> bool" where
  "in_range xs e \<longleftrightarrow> 0 \<le> StartChunk e \<and> StartChunk e \<le> EndChunk e \<and> EndChunk e < int (length xs)"

definition remote_chunks :: "snapshot \<Rightarrow> (string \<times> int) list" where
  "remote_chunks s = zip (map bytes_string (ChunkHashes s)) (ChunkLengths s)"

definition preserved :: "entry_list \<Rightarrow> (string \<times> int) list" where
  "preserved el = zip (PreservedChunkHashes el) (PreservedChunkLengths el)"

definition add_preserved :: "(string \<times> int) list \<Rightarrow> entry_list \<Rightarrow> entry_list" where
  "add_preserved xs el =
     el\<lparr>PreservedChunkHashes := PreservedChunkHashes el @ map fst xs,
        PreservedChunkLengths := PreservedChunkLengths el @ map snd xs\<rparr>"

lemma run_empty [simp]: "j < i \<Longrightarrow> run xs i j = []"
  by (simp add: run_def)

lemma run_Cons:
  assumes "0 \<le> i" and "i \<le> j" and "i < int (length xs)"
  shows "run xs i j = xs ! nat i # run xs (i + 1) j"
proof -
  have "drop (nat i) xs = xs ! nat i # drop (nat (i + 1)) xs"
    using assms by (simp add: nat_add_distrib Cons_nth_drop_Suc)
  moreover have "nat (j + 1 - i) = Suc (nat (j + 1 - (i + 1)))" using assms by linarith
  ultimately show ?thesis by (simp add: run_def)
qed

lemma add_preserved_add: "add_preserved ys (add_preserved xs el) = add_preserved (xs @ ys) el"
  by (simp add: add_preserved_def)

lemma add_preserved_Nil [simp]: "add_preserved [] el = el"
  by (simp add: add_preserved_def)

lemma preserved_add:
  "length (PreservedChunkHashes el) = length (PreservedChunkLengths el) \<Longrightarrow>
   preserved (add_preserved xs el) = preserved el @ xs"
  by (simp add: preserved_def add_preserved_def zip_map_fst_snd)

lemma add_preserved_fields [simp]:
  "length (PreservedChunkHashes (add_preserved xs el)) = length (PreservedChunkHashes el) + length xs"
  "length (PreservedChunkLengths (add_preserved xs el)) = length (PreservedChunkLengths el) + length xs"
  "entries (add_preserved xs el) = entries el" "onDiskFile (add_preserved xs el) = onDiskFile el"
  "maximumInMemoryEntries (add_preserved xs el) = maximumInMemoryEntries el"
  "ModifiedEntries (add_preserved xs el) = ModifiedEntries el"
  by (simp_all add: add_preserved_def)

definition lengths_match :: "snapshot \<Rightarrow> bool" where
  "lengths_match s \<longleftrightarrow> length (ChunkHashes s) = length (ChunkLengths s)"

lemma length_remote_chunks [simp]: "lengths_match s \<Longrightarrow> length (remote_chunks s) = length (ChunkHashes s)"
  by (simp add: remote_chunks_def lengths_match_def)

lemma preserve_chunk_eq:
  assumes "lengths_match s" and "0 \<le> i" and "i < int (length (ChunkHashes s))"
  shows "preserve_chunk s i cs =
    Inr (cs\<lparr>localEntryList := add_preserved [remote_chunks s ! nat i] (localEntryList cs), lastPreservedChunk := i\<rparr>)"
  using assms
  by (simp add: preserve_chunk_def lengths_match_def remote_chunks_def AddPreservedChunk_def add_preserved_def)

lemma preserve_loop_run:
  assumes "lengths_match s" and "0 \<le> i" and "j < int (length (ChunkHashes s))"
  shows "preserve_loop s i j cs =
    Inr (cs\<lparr>localEntryList := add_preserved (run (remote_chunks s) i j) (localEntryList cs),
            lastPreservedChunk := if i \<le> j then j else lastPreservedChunk cs\<rparr>)"
  using assms(2)
proof (induction "nat (j + 1 - i)" arbitrary: i cs)
  case 0
  then show ?case by (simp add: preserve_loop.simps)
next
  case (Suc n)
  then have le: "i \<le> j" and n: "n = nat (j + 1 - (i + 1))" by simp_all
  with Suc.prems assms show ?case
    by (simp add: preserve_loop.simps [of s i] preserve_chunk_eq Suc.hyps(1) [OF n] add_preserved_add
        run_Cons [of i])
qed

text \<open>The last chunk that was taken over is the last one of the preserved chunks.\<close>

definition preserve_inv :: "snapshot \<Rightarrow> compare_state \<Rightarrow> bool" where
  "preserve_inv s cs \<longleftrightarrow>
     length (PreservedChunkHashes (localEntryList cs)) = length (PreservedChunkLengths (localEntryList cs)) \<and>
     (0 \<le> lastPreservedChunk cs \<longrightarrow>
        (\<exists>xs. preserved (localEntryList cs) = xs @ [remote_chunks s ! nat (lastPreservedChunk cs)]))"

lemma run_last:
  assumes "0 \<le> i" and "i \<le> j" and "j < int (length xs)"
  shows "run xs i j = run xs i (j - 1) @ [xs ! nat j]"
proof -
  have n: "nat (j + 1 - i) = Suc (nat (j - i))" "nat i + nat (j - i) = nat j" using assms by linarith+
  then have "nat (j - i) < length (drop (nat i) xs)" using assms by simp
  then have "take (Suc (nat (j - i))) (drop (nat i) xs) = take (nat (j - i)) (drop (nat i) xs) @ [drop (nat i) xs ! nat (j - i)]"
    by (rule take_Suc_conv_app_nth)
  with n assms show ?thesis by (simp add: run_def)
qed

lemma run_append: "int (length xs) = i \<Longrightarrow> length ys = nat (j + 1 - i) \<Longrightarrow> run (xs @ ys) i j = ys"
  by (auto simp: run_def)

lemma length_run: "0 \<le> i \<Longrightarrow> j < int (length xs) \<Longrightarrow> length (run xs i j) = nat (j + 1 - i)"
  by (auto simp: run_def nat_diff_distrib)

lemma preserve_entry_run:
  assumes s: "lengths_match s" and r: "in_range (remote_chunks s) r" and inv: "preserve_inv s cs"
  shows "\<exists>a b xs cs'. preserve_entry s l r cs =
      Inr (l\<lparr>Hash := Hash r, StartOffset := StartOffset r, EndOffset := EndOffset r, StartChunk := a, EndChunk := b\<rparr>, cs') \<and>
    cs' = cs\<lparr>localEntryList := add_preserved xs (localEntryList cs), lastPreservedChunk := lastPreservedChunk cs',
             preservedFileSize := preservedFileSize cs'\<rparr> \<and>
    preserve_inv s cs' \<and> 0 \<le> a \<and> a \<le> b \<and> b < int (length (preserved (localEntryList cs'))) \<and>
    run (preserved (localEntryList cs')) a b = entry_run (remote_chunks s) r"
proof -
  let ?S = "StartChunk r" and ?E = "EndChunk r" and ?R = "remote_chunks s" and ?el = "localEntryList cs"
  define p where "p = int (length (PreservedChunkHashes ?el))"
  have len: "length (PreservedChunkHashes ?el) = length (PreservedChunkLengths ?el)"
    using inv by (simp add: preserve_inv_def)
  then have p: "int (length (preserved ?el)) = p" by (simp add: preserved_def p_def)
  have r': "0 \<le> ?S" "?S \<le> ?E" "?E < int (length (ChunkHashes s))" "?E < int (length ?R)"
    using r s by (auto simp: in_range_def)
  have first: "run ?R ?S ?E = ?R ! nat ?S # run ?R (?S + 1) ?E" by (rule run_Cons) (use r' in auto)
  have final: "\<exists>zs. run ?R ?S ?E = zs @ [?R ! nat ?E]" using run_last r' by blast
  have n: "length (run ?R ?S ?E) = nat (?E + 1 - ?S)" using length_run r' by blast
  define fresh where "fresh \<longleftrightarrow> lastPreservedChunk cs \<noteq> ?S"
  define xs where "xs = (if fresh then run ?R ?S ?E else run ?R (?S + 1) ?E)"
  define a where "a = (if fresh then p else p - 1)"
  define b where "b = a + (?E - ?S)"
  define cs' where "cs' = cs\<lparr>localEntryList := add_preserved xs ?el, lastPreservedChunk := ?E,
    preservedFileSize := preservedFileSize cs + Size l\<rparr>"
  have "preserve_entry s l r cs =
      Inr (l\<lparr>Hash := Hash r, StartOffset := StartOffset r, EndOffset := EndOffset r, StartChunk := a, EndChunk := b\<rparr>, cs')"
    using r' by (simp add: preserve_entry_def Let_def preserve_chunk_eq [OF s] preserve_loop_run [OF s]
        fresh_def xs_def a_def b_def cs'_def p_def first add_preserved_add)
  moreover have "\<exists>ys. preserved ?el @ xs = ys @ run ?R ?S ?E \<and> int (length ys) = a"
  proof (cases fresh)
    case True
    then show ?thesis by (intro exI [of _ "preserved ?el"]) (simp add: xs_def a_def p)
  next
    case False
    then have "lastPreservedChunk cs = ?S" by (simp add: fresh_def)
    with inv r' obtain zs where "preserved ?el = zs @ [?R ! nat ?S]" by (auto simp: preserve_inv_def)
    with False p show ?thesis by (intro exI [of _ zs]) (simp add: xs_def a_def first)
  qed
  then obtain ys where ys: "preserved (localEntryList cs') = ys @ run ?R ?S ?E" "int (length ys) = a"
    using preserved_add [OF len] by (auto simp: cs'_def)
  moreover have "run (preserved (localEntryList cs')) a b = run ?R ?S ?E"
    unfolding ys(1) by (rule run_append) (use ys(2) n b_def in auto)
  moreover have "b < int (length (preserved (localEntryList cs')))"
    using ys n r' by (simp add: b_def)
  moreover have "preserve_inv s cs'"
    using len final ys(1) by (auto simp: preserve_inv_def cs'_def)
  moreover have "0 \<le> a" "a \<le> b" using ys(2) r' by (simp_all add: b_def)
  ultimately show ?thesis
    by (intro exI [of _ a] exI [of _ b] exI [of _ xs] exI [of _ cs']) (simp add: entry_run_def cs'_def)
qed

section \<open>The entry list after the comparison\<close>

definition unchanged :: "entry \<Rightarrow> entry list \<Rightarrow> entry option" where
  "unchanged l remote =
     (case same_path l remote of Some r \<Rightarrow> if IsSameAs l r \<and> IsFile l then Some r else None | None \<Rightarrow> None)"

text \<open>What the comparison makes of a local entry.\<close>

definition compared :: "snapshot \<Rightarrow> entry list \<Rightarrow> (string \<times> int) list \<Rightarrow> entry \<Rightarrow> entry \<Rightarrow> bool" where
  "compared s remote chunks l e \<longleftrightarrow>
     (case unchanged l remote of
        None \<Rightarrow> e = (if 0 < Size l then l\<lparr>Size := -1\<rparr> else l)
      | Some r \<Rightarrow>
          if 0 < Size l
          then e = l\<lparr>Hash := Hash r, StartOffset := StartOffset r, EndOffset := EndOffset r,
                     StartChunk := StartChunk e, EndChunk := EndChunk e\<rparr> \<and>
               in_range chunks e \<and> entry_run chunks e = entry_run (remote_chunks s) r
          else e = l)"

definition memory_list :: "entry_list \<Rightarrow> bool" where
  "memory_list el \<longleftrightarrow> onDiskFile el = None \<and> maximumInMemoryEntries el < 0 \<and>
     map Path (filter (\<lambda>e. \<not> IsComplete e) (entries el)) = map me_Path (ModifiedEntries el)"

lemma AddEntry_memory:
  assumes "memory_list el"
  shows "memory_list (snd (AddEntry mp sha256 err e el))"
    "entries (snd (AddEntry mp sha256 err e el)) = entries el @ [added e]"
    "preserved (snd (AddEntry mp sha256 err e el)) = preserved el"
    "PreservedChunkHashes (snd (AddEntry mp sha256 err e el)) = PreservedChunkHashes el"
    "PreservedChunkLengths (snd (AddEntry mp sha256 err e el)) = PreservedChunkLengths el"
  using assms
  by (auto simp: AddEntry_def Let_def memory_list_def added_def preserved_def IsComplete_def IsFile_def)

lemma memory_list_add_preserved: "memory_list el \<Longrightarrow> memory_list (add_preserved xs el)"
  by (simp add: memory_list_def)

lemma run_prefix: "0 \<le> i \<Longrightarrow> j < int (length xs) \<Longrightarrow> run (xs @ ys) i j = run xs i j"
  by (simp add: run_def)

lemma compared_more: "compared s remote chunks l e \<Longrightarrow> compared s remote (chunks @ xs) l e"
  by (auto simp: compared_def in_range_def entry_run_def run_prefix split: option.splits if_splits)

definition rest_after :: "entry \<Rightarrow> entry list \<Rightarrow> entry list" where
  "rest_after l remote =
     (case after l remote of [] \<Rightarrow> [] | r # rest \<Rightarrow> if Compare l r = 0 then rest else r # rest)"

lemma by_path_rest: "by_path remote \<Longrightarrow> by_path (rest_after l remote)"
  using by_path_after [of remote l] by (auto simp: rest_after_def by_path_Cons split: list.splits)

lemma unchanged_rest:
  assumes "by_path remote" and "no_nul (Path l)" "no_nul (Path l')" and "Compare l l' < 0"
  shows "unchanged l' (rest_after l remote) = unchanged l' remote"
  using same_path_later [OF assms] by (simp add: unchanged_def rest_after_def)

text \<open>The head of the pending entries decides whether there is a counterpart.\<close>

lemma same_path_head:
  assumes "by_path remote" and "no_nul (Path l)"
  shows "same_path l remote =
    (case after l remote of [] \<Rightarrow> None | r # rest \<Rightarrow> if Compare l r = 0 then Some r else None)"
proof (cases "after l remote")
  case Nil
  then show ?thesis using same_path_after [OF assms] by (simp add: same_path_def)
next
  case (Cons r rest)
  then have sorted: "by_path (r # rest)" using by_path_after [OF assms(1), of l] by simp
  then have nul: "no_nul (Path r)" by (simp add: by_path_Cons)
  have "\<not> 0 < Compare l r" using Cons unfolding after_def by (simp add: dropWhile_eq_Cons_conv)
  then show ?thesis
    using same_path_after [OF assms] same_path_None [OF sorted assms(2)] Compare_zero [OF assms(2) nul]
    by (auto simp: Cons same_path_def)
qed

lemma compare_entry_result:
  assumes s: "lengths_match s" and sorted: "by_path (pending cs)" "no_nul (Path l)" and inv: "preserve_inv s cs"
    and range: "\<And>r. unchanged l (pending cs) = Some r \<Longrightarrow> 0 < Size l \<Longrightarrow> in_range (remote_chunks s) r"
  shows "\<exists>e cs' xs. compare_entry s l cs = Inr (e, cs') \<and> pending cs' = rest_after l (pending cs) \<and>
     localEntryList cs' = add_preserved xs (localEntryList cs) \<and> preserve_inv s cs' \<and>
     compared s (pending cs) (preserved (localEntryList cs')) l e"
proof -
  define current where "current = fst (snd (counterpart l (remoteEntry cs) (remoteListing cs)))"
  define remote where "remote = snd (snd (counterpart l (remoteEntry cs) (remoteListing cs)))"
  define cs1 where "cs1 = cs\<lparr>remoteEntry := current, remoteListing := remote\<rparr>"
  have c: "counterpart l (remoteEntry cs) (remoteListing cs) =
     (case after l (pending cs) of [] \<Rightarrow> (-1, None, []) | r # rest \<Rightarrow> (Compare l r, Some r, rest))"
    unfolding counterpart_after pending_def by (rule refl)
  show ?thesis
  proof (cases "after l (pending cs)")
    case Nil
    then have "unchanged l (pending cs) = None"
      using same_path_head [OF sorted] by (simp add: unchanged_def)
    with Nil c inv show ?thesis
      by (intro exI [of _ "if 0 < Size l then l\<lparr>Size := -1\<rparr> else l"] exI
            [of _ "cs\<lparr>remoteEntry := None, remoteListing := [],
               totalModifiedFileSize := totalModifiedFileSize cs + Size l\<rparr>"] exI [of _ "[]"])
         (auto simp: compare_entry_def Let_def mark_modified_def rest_after_def pending_def preserve_inv_def compared_def)
  next
    case (Cons r rest)
    show ?thesis
    proof (cases "Compare l r = 0 \<and> IsSameAs l r \<and> IsFile l")
      case False
      then have "unchanged l (pending cs) = None"
        using same_path_head [OF sorted] Cons by (auto simp: unchanged_def)
      with False Cons c inv show ?thesis
        by (intro exI [of _ "if 0 < Size l then l\<lparr>Size := -1\<rparr> else l"] exI
              [of _ "cs\<lparr>remoteEntry := if Compare l r = 0 then None else Some r, remoteListing := rest,
                 totalModifiedFileSize := totalModifiedFileSize cs + Size l\<rparr>"] exI [of _ "[]"])
           (auto simp: compare_entry_def Let_def mark_modified_def rest_after_def pending_def preserve_inv_def compared_def)
    next
      case True
      then have u: "unchanged l (pending cs) = Some r"
        using same_path_head [OF sorted] Cons by (simp add: unchanged_def)
      define cs1 where "cs1 = cs\<lparr>remoteListing := rest, remoteEntry := None\<rparr>"
      have inv1: "preserve_inv s cs1" using inv by (simp add: cs1_def preserve_inv_def)
      have step: "compare_entry s l cs = (if 0 < Size l then preserve_entry s l r cs1 else Inr (l, cs1))"
        using True Cons c by (simp add: compare_entry_def Let_def cs1_def)
      have pend: "rest_after l (pending cs) = rest" using True Cons by (simp add: rest_after_def)
      show ?thesis
      proof (cases "0 < Size l")
        case False
        with step u pend inv1 show ?thesis
          by (intro exI [of _ l] exI [of _ cs1] exI [of _ "[]"]) (simp add: compared_def pending_def cs1_def)
      next
        case size: True
        from preserve_entry_run [OF s range [OF u size] inv1, of l] obtain a b xs cs' where
          e: "preserve_entry s l r cs1 = Inr (l\<lparr>Hash := Hash r, StartOffset := StartOffset r,
             EndOffset := EndOffset r, StartChunk := a, EndChunk := b\<rparr>, cs')"
          and cs': "cs' = cs1\<lparr>localEntryList := add_preserved xs (localEntryList cs1),
             lastPreservedChunk := lastPreservedChunk cs', preservedFileSize := preservedFileSize cs'\<rparr>"
          and ok: "preserve_inv s cs'" "0 \<le> a" "a \<le> b" "b < int (length (preserved (localEntryList cs')))"
            "run (preserved (localEntryList cs')) a b = entry_run (remote_chunks s) r" by blast
        have f: "pending cs' = rest" "localEntryList cs' = add_preserved xs (localEntryList cs)"
          by (subst cs', simp add: pending_def cs1_def)+
        have "compared s (pending cs) (preserved (localEntryList cs')) l (l\<lparr>Hash := Hash r,
            StartOffset := StartOffset r, EndOffset := EndOffset r, StartChunk := a, EndChunk := b\<rparr>)"
          using u size ok by (simp add: compared_def in_range_def entry_run_def)
        with step size e f ok(1) pend show ?thesis by auto
      qed
    qed
  qed
qed

text \<open>One round of the outer loop, on the conditions that the rest of the loop needs.\<close>

definition loop_inv :: "snapshot \<Rightarrow> entry list \<Rightarrow> entry list \<Rightarrow> compare_state \<Rightarrow> bool" where
  "loop_inv s remote localListing cs \<longleftrightarrow>
     by_path (pending cs) \<and> preserve_inv s cs \<and> memory_list (localEntryList cs) \<and>
     (\<forall>l \<in> set localListing. unchanged l (pending cs) = unchanged l remote)"

lemma preserve_inv_AddEntry:
  "memory_list (localEntryList cs) \<Longrightarrow> preserve_inv s cs \<Longrightarrow>
   preserve_inv s (cs\<lparr>localEntryList := snd (AddEntry mp sha256 err e (localEntryList cs))\<rparr>)"
  by (simp add: preserve_inv_def AddEntry_memory)

lemma compare_loop_result:
  assumes s: "lengths_match s" and sorted: "by_path localListing"
    and range: "\<And>l r. l \<in> set localListing \<Longrightarrow> unchanged l remote = Some r \<Longrightarrow> 0 < Size l \<Longrightarrow>
                  in_range (remote_chunks s) r"
    and inv: "loop_inv s remote localListing cs"
  shows "\<exists>cs' xs es. compare_loop mp sha256 err s localListing cs = Inr cs' \<and>
     preserved (localEntryList cs') = preserved (localEntryList cs) @ xs \<and>
     memory_list (localEntryList cs') \<and> preserve_inv s cs' \<and>
     entries (localEntryList cs') = entries (localEntryList cs) @ map added es \<and>
     list_all2 (compared s remote (preserved (localEntryList cs'))) localListing es"
  using assms(2-)
proof (induction localListing arbitrary: cs)
  case Nil
  then show ?case by (auto simp: loop_inv_def)
next
  case (Cons l ls)
  have nul: "no_nul (Path l)" "by_path ls" using Cons.prems(1) by (simp_all add: by_path_Cons)
  have inv: "by_path (pending cs)" "preserve_inv s cs" "memory_list (localEntryList cs)"
    "unchanged l (pending cs) = unchanged l remote" using Cons.prems(3) by (simp_all add: loop_inv_def)
  have "\<And>r. unchanged l (pending cs) = Some r \<Longrightarrow> 0 < Size l \<Longrightarrow> in_range (remote_chunks s) r"
    using Cons.prems(2) [of l] inv(4) by simp
  from compare_entry_result [OF s inv(1) nul(1) inv(2) this] obtain e cs1 xs where
    step: "compare_entry s l cs = Inr (e, cs1)" and cs1: "pending cs1 = rest_after l (pending cs)"
      "localEntryList cs1 = add_preserved xs (localEntryList cs)" "preserve_inv s cs1"
      "compared s (pending cs) (preserved (localEntryList cs1)) l e" by metis
  let ?cs = "cs1\<lparr>localEntryList := snd (AddEntry mp sha256 err e (localEntryList cs1))\<rparr>"
  have mem: "memory_list (localEntryList cs1)" using inv(3) cs1(2) memory_list_add_preserved by simp
  note add = AddEntry_memory [OF mem, of mp sha256 err e]
  have "unchanged l' (pending cs1) = unchanged l' remote" if "l' \<in> set ls" for l'
  proof -
    have "Compare l l' < 0" "no_nul (Path l')"
      using Cons.prems(1) that by (auto simp: by_path_def paths.ordered_def Compare_def)
    then have "unchanged l' (rest_after l (pending cs)) = unchanged l' (pending cs)"
      using unchanged_rest inv(1) nul(1) by blast
    with Cons.prems(3) that cs1(1) show ?thesis by (simp add: loop_inv_def)
  qed
  then have "loop_inv s remote ls ?cs"
    using cs1 inv by_path_rest preserve_inv_AddEntry [OF mem cs1(3)] add(1)
    by (simp add: loop_inv_def)
  moreover have "in_range (remote_chunks s) r" if "l' \<in> set ls" "unchanged l' remote = Some r" "0 < Size l'" for l' r
    using Cons.prems(2) [of l'] that by simp
  ultimately obtain cs' ys es where
    loop: "compare_loop mp sha256 err s ls ?cs = Inr cs'"
      "preserved (localEntryList cs') = preserved (localEntryList cs1) @ ys"
      "memory_list (localEntryList cs')" "preserve_inv s cs'"
      "entries (localEntryList cs') = entries (localEntryList cs1) @ added e # map added es"
      "list_all2 (compared s remote (preserved (localEntryList cs'))) ls es"
    using Cons.IH [OF nul(2), of ?cs] by (auto simp: add)
  have "compared s remote (preserved (localEntryList cs1)) l e"
    using cs1(4) inv(4) by (simp add: compared_def)
  then have "compared s remote (preserved (localEntryList cs')) l e"
    unfolding loop(2) by (rule compared_more)
  moreover have "preserved (localEntryList cs') = preserved (localEntryList cs) @ xs @ ys"
    using loop(2) cs1(2) preserved_add inv(2) by (simp add: preserve_inv_def)
  ultimately show ?case
    using step loop cs1(2) by (intro exI [of _ cs'] exI [of _ "xs @ ys"] exI [of _ "e # es"]) simp
qed

text \<open>C11: comparing the local files with the files of the previous snapshot, both listed in path
  order, always completes. It finds the counterpart of every file that has one: a file with the same
  size and modification time takes over the hash and the offsets of the counterpart, and its range
  in the preserved chunks of the entry list holds the same hashes and lengths as the counterpart's
  range in the previous snapshot. Every other non-empty file is marked as modified and recorded in
  \<open>ModifiedEntries\<close>, in order.\<close>

theorem compare_takes_over:
  assumes "lengths_match s" and "by_path localListing" and "by_path remote"
    and "\<And>l r. l \<in> set localListing \<Longrightarrow> unchanged l remote = Some r \<Longrightarrow> 0 < Size l \<Longrightarrow>
           in_range (remote_chunks s) r"
    and "CreateEntryList snapshotID token maximum = Inr el" and "maximum < 0"
  shows "\<exists>cs es. compare_loop mp sha256 err s localListing (start_compare remote el) = Inr cs \<and>
     list_all2 (compared s remote (preserved (localEntryList cs))) localListing es \<and>
     entries (localEntryList cs) = map added es \<and>
     map Path (filter (\<lambda>e. \<not> IsComplete e) (map added es)) = map me_Path (ModifiedEntries (localEntryList cs))"
proof -
  have el: "memory_list el" "preserved el = []" "entries el = []"
    "PreservedChunkHashes el = []" "PreservedChunkLengths el = []"
    using assms(5,6) by (cases token; auto simp: CreateEntryList_def empty_list_def memory_list_def preserved_def)+
  have "loop_inv s remote localListing (start_compare remote el)"
    using assms(3) el by (simp add: loop_inv_def start_compare_def pending_def preserve_inv_def)
  then have "\<exists>cs xs es. compare_loop mp sha256 err s localListing (start_compare remote el) = Inr cs \<and>
     preserved (localEntryList cs) = preserved (localEntryList (start_compare remote el)) @ xs \<and>
     memory_list (localEntryList cs) \<and> preserve_inv s cs \<and>
     entries (localEntryList cs) = entries (localEntryList (start_compare remote el)) @ map added es \<and>
     list_all2 (compared s remote (preserved (localEntryList cs))) localListing es"
    by (intro compare_loop_result) (use assms(1,2,4) in auto)
  then show ?thesis by (auto simp: start_compare_def el memory_list_def)
qed

text \<open>Four local files: one unchanged, one new, one that shares its first chunk with the unchanged one,
  and one whose time has changed.\<close>

definition sample_previous :: snapshot where
  "sample_previous = zero_snapshot\<lparr>ChunkHashes := [[1], [2], [3]], ChunkLengths := [5, 6, 7]\<rparr>"

definition sample_remote :: "entry list" where
  "sample_remote =
     [(CreateEntry ''a'' 9 100 0x1A4)\<lparr>Hash := ''ha'', EndChunk := 1, EndOffset := 4\<rparr>,
      (CreateEntry ''b'' 1 100 0x1A4)\<lparr>StartChunk := 1, StartOffset := 4, EndChunk := 1, EndOffset := 5\<rparr>,
      (CreateEntry ''d'' 8 100 0x1A4)\<lparr>Hash := ''hd'', StartChunk := 1, StartOffset := 5, EndChunk := 2, EndOffset := 7\<rparr>,
      (CreateEntry ''e'' 3 100 0x1A4)\<lparr>StartChunk := 2, EndChunk := 2, EndOffset := 3\<rparr>]"

definition sample_local :: "entry list" where
  "sample_local =
     [CreateEntry ''a'' 9 101 0x1A4, CreateEntry ''c'' 4 7 0x1A4, CreateEntry ''d'' 8 99 0x1A4,
      CreateEntry ''e'' 3 200 0x1A4]"

theorem compare_takes_over_witness:
  "\<exists>cs es. compare_loop sample_msgpack id None sample_previous sample_local
       (start_compare sample_remote (empty_list\<lparr>maximumInMemoryEntries := -1\<rparr>)) = Inr cs \<and>
     list_all2 (compared sample_previous sample_remote (preserved (localEntryList cs))) sample_local es \<and>
     entries (localEntryList cs) = map added es \<and>
     map Path (filter (\<lambda>e. \<not> IsComplete e) (map added es)) = map me_Path (ModifiedEntries (localEntryList cs))"
proof (rule compare_takes_over [where snapshotID = "[]" and token = "Inr []" and maximum = "-1"])
  show "by_path sample_local" "by_path sample_remote"
    by (simp only: by_path_def paths.ordered_def, code_simp)+
  show "in_range (remote_chunks sample_previous) r"
    if "l \<in> set sample_local" "unchanged l sample_remote = Some r" "0 < Size l" for l r
  proof -
    have "r \<in> set sample_remote"
      using that(2) by (auto simp: unchanged_def same_path_def find_Some_iff split: option.splits if_splits)
    then show ?thesis
      by (auto simp: sample_remote_def in_range_def remote_chunks_def sample_previous_def CreateEntry_def)
  qed
qed (simp_all add: sample_previous_def lengths_match_def CreateEntryList_def empty_list_def)

end
