(* ===== verification/BackupUpload.thy ===== *)
theory BackupUpload
  imports BackupCompare SnapshotManager
begin

text \<open>
  The file list of a snapshot: how \<open>BackupManager.UploadSnapshot\<close>
  (\<open>duplicacy_backupmanager.go\<close>) writes it and \<open>Snapshot.ListRemoteFiles\<close>
  (\<open>duplicacy_snapshot.go\<close>) reads it.

  While an entry list has the preserved chunks first and the uploaded ones after them, the chunks of
  the snapshot are listed in the order in which the files use them. \<open>uploadEntryInfo\<close> builds that
  list and turns the chunk range of each file into one that is relative to the end of the file before;
  a hard link is given the metadata and the range of its root. The table of the roots holds pointers
  to the entries, which are changed after they were put there: here it holds the changed entries.

  Shown here: decoding gives every file a range with the same hashes and lengths again, and every
  hard link what its root has.
\<close>

section \<open>Writing an entry\<close>

record upload_state =
  us_chunkHashes :: "bytes list"
  us_chunkLengths :: "int list"
  us_lastChunk :: int
  us_lastEndChunk :: int
  us_hardLinkTable :: "(entry \<times> int) list"

definition start_upload :: upload_state where
  "start_upload = \<lparr>us_chunkHashes = [], us_chunkLengths = [], us_lastChunk = -1, us_lastEndChunk = 0,
     us_hardLinkTable = []\<rparr>"

definition append_chunk :: "snapshot \<Rightarrow> int \<Rightarrow> upload_state \<Rightarrow> upload_state res" where
  "append_chunk snapshot i us =
     bind_res (index_slice (ChunkHashes snapshot) i) (\<lambda>hash.
     bind_res (index_slice (ChunkLengths snapshot) i) (\<lambda>len.
       Inr (us\<lparr>us_chunkHashes := us_chunkHashes us @ [hash], us_chunkLengths := us_chunkLengths us @ [len]\<rparr>)))"

function append_loop :: "snapshot \<Rightarrow> int \<Rightarrow> int \<Rightarrow> upload_state \<Rightarrow> upload_state res" where
  "append_loop snapshot i endChunk us =
     (if i \<le> endChunk then bind_res (append_chunk snapshot i us) (append_loop snapshot (i + 1) endChunk)
      else Inr us)"
  by pat_completeness auto
termination
  by (relation "measure (\<lambda>(_, i, endChunk, _). nat (endChunk + 1 - i))") auto

declare append_loop.simps [simp del]

definition upload_file_entry :: "snapshot \<Rightarrow> entry \<Rightarrow> upload_state \<Rightarrow> (entry \<times> upload_state) res" where
  "upload_file_entry snapshot e us =
     (let delta = StartChunk e - int (length (us_chunkHashes us)) + 1 in
      bind_res
        (if StartChunk e \<noteq> us_lastChunk us
         then bind_res (append_chunk snapshot (StartChunk e) us) (\<lambda>us. Inr (delta - 1, us))
         else Inr (delta, us)) (\<lambda>(delta, us).
      bind_res (append_loop snapshot (StartChunk e + 1) (EndChunk e) us) (\<lambda>us.
        let us = us\<lparr>us_lastChunk := EndChunk e\<rparr>;
            e = e\<lparr>StartChunk := StartChunk e - delta, EndChunk := EndChunk e - delta\<rparr>;
            delta = EndChunk e - StartChunk e;
            e' = e\<lparr>StartChunk := StartChunk e - us_lastEndChunk us, EndChunk := delta\<rparr>
        in Inr (e', us\<lparr>us_lastEndChunk := EndChunk e,
                       us_hardLinkTable := us_hardLinkTable us @
                         (if IsHardLinkRoot e then [(e', StartChunk e)] else [])\<rparr>))))"

definition upload_link_entry :: "entry \<Rightarrow> upload_state \<Rightarrow> (entry \<times> upload_state) res" where
  "upload_link_entry e us =
     (case GetHardLinkId e of
        Inl err \<Rightarrow> Inl (LogError ''SNAPSHOT_UPLOAD'')
      | Inr i \<Rightarrow>
          bind_res (index_slice (us_hardLinkTable us) i) (\<lambda>(target, start).
            if IsFile target \<and> 0 < Size target
            then Inr (HardLinkTo e target (start - us_lastEndChunk us) (EndChunk target),
                      us\<lparr>us_lastEndChunk := start + EndChunk target\<rparr>)
            else Inr (HardLinkTo e target 0 0, us)))"

definition uploadEntryInfo :: "snapshot \<Rightarrow> entry \<Rightarrow> upload_state \<Rightarrow> (entry \<times> upload_state) res" where
  "uploadEntryInfo snapshot e us =
     (if IsFile e \<and> 0 < Size e then upload_file_entry snapshot e us
      else if IsHardLinkChild e then upload_link_entry e us
      else Inr (e, if IsHardLinkRoot e then us\<lparr>us_hardLinkTable := us_hardLinkTable us @ [(e, 0)]\<rparr> else us))"

fun upload_entries :: "snapshot \<Rightarrow> entry list \<Rightarrow> upload_state \<Rightarrow> (entry list \<times> upload_state) res" where
  "upload_entries snapshot [] us = Inr ([], us)"
| "upload_entries snapshot (e # es) us =
     bind_res (uploadEntryInfo snapshot e us) (\<lambda>(e, us).
     bind_res (upload_entries snapshot es us) (\<lambda>(es, us). Inr (e # es, us)))"

section \<open>Reading an entry\<close>

definition absolute_range :: "entry \<Rightarrow> int \<Rightarrow> entry \<times> int" where
  "absolute_range e lastEndChunk =
     (if IsFile e then
        let start = StartChunk e + lastEndChunk; e = e\<lparr>StartChunk := start, EndChunk := EndChunk e + start\<rparr>
        in (e, EndChunk e)
      else (e, lastEndChunk))"

fun absolute_ranges :: "int \<Rightarrow> entry list \<Rightarrow> entry list" where
  "absolute_ranges lastEndChunk [] = []"
| "absolute_ranges lastEndChunk (e # es) =
     (case absolute_range e lastEndChunk of (e, lastEndChunk) \<Rightarrow> e # absolute_ranges lastEndChunk es)"

section \<open>What is read is what was written\<close>

text \<open>The list to be written: a hard link stands for the root that its number denotes.\<close>

fun resolve_links :: "entry list \<Rightarrow> entry list \<Rightarrow> entry list" where
  "resolve_links roots [] = []"
| "resolve_links roots (e # es) =
     (if IsHardLinkChild e \<and> \<not> (IsFile e \<and> 0 < Size e)
      then (case GetHardLinkId e of
              Inr i \<Rightarrow> let root = roots ! nat i in HardLinkTo e root (StartChunk root) (EndChunk root)
            | Inl _ \<Rightarrow> e) # resolve_links roots es
      else e # resolve_links (roots @ (if IsHardLinkRoot e then [e] else [])) es)"

text \<open>The entries that the lister and the entry list produce: a non-empty file has a range of
  chunks, an empty one the range zero, and the number of a hard link is that of a root before it.\<close>

fun linked_entries :: "'a list \<Rightarrow> entry list \<Rightarrow> entry list \<Rightarrow> bool" where
  "linked_entries chunks roots [] = True"
| "linked_entries chunks roots (e # es) =
     (if IsHardLinkChild e \<and> \<not> (IsFile e \<and> 0 < Size e)
      then (case GetHardLinkId e of Inr i \<Rightarrow> 0 \<le> i \<and> i < int (length roots) | Inl _ \<Rightarrow> False) \<and>
           linked_entries chunks roots es
      else (IsFile e \<longrightarrow> (if 0 < Size e then in_range chunks e else StartChunk e = 0 \<and> EndChunk e = 0)) \<and>
           linked_entries chunks (roots @ (if IsHardLinkRoot e then [e] else [])) es)"

text \<open>An entry that is read back, in the chunks \<open>new\<close>, and what was to be written, in the chunks
  \<open>old\<close>.\<close>

definition relisted :: "'a list \<Rightarrow> 'a list \<Rightarrow> entry \<Rightarrow> entry \<Rightarrow> bool" where
  "relisted old new e d \<longleftrightarrow>
     d = e\<lparr>StartChunk := StartChunk d, EndChunk := EndChunk d\<rparr> \<and>
     (if \<not> IsFile e then d = e
      else 0 < Size e \<longrightarrow> in_range new d \<and> entry_run new d = entry_run old e)"

definition snapshot_chunks :: "snapshot \<Rightarrow> (bytes \<times> int) list" where
  "snapshot_chunks s = zip (ChunkHashes s) (ChunkLengths s)"

definition listed_chunks :: "upload_state \<Rightarrow> (bytes \<times> int) list" where
  "listed_chunks us = zip (us_chunkHashes us) (us_chunkLengths us)"

definition add_chunks :: "(bytes \<times> int) list \<Rightarrow> upload_state \<Rightarrow> upload_state" where
  "add_chunks xs us =
     us\<lparr>us_chunkHashes := us_chunkHashes us @ map fst xs, us_chunkLengths := us_chunkLengths us @ map snd xs\<rparr>"

lemma length_snapshot_chunks [simp]: "lengths_match s \<Longrightarrow> length (snapshot_chunks s) = length (ChunkHashes s)"
  by (simp add: snapshot_chunks_def lengths_match_def)

lemma add_chunks_add: "add_chunks ys (add_chunks xs us) = add_chunks (xs @ ys) us"
  by (simp add: add_chunks_def)

lemma add_chunks_fields [simp]:
  "length (us_chunkHashes (add_chunks xs us)) = length (us_chunkHashes us) + length xs"
  "length (us_chunkLengths (add_chunks xs us)) = length (us_chunkLengths us) + length xs"
  "us_lastChunk (add_chunks xs us) = us_lastChunk us"
  "us_lastEndChunk (add_chunks xs us) = us_lastEndChunk us"
  "us_hardLinkTable (add_chunks xs us) = us_hardLinkTable us"
  "add_chunks [] us = us"
  by (simp_all add: add_chunks_def)

lemma listed_chunks_add:
  "length (us_chunkHashes us) = length (us_chunkLengths us) \<Longrightarrow> listed_chunks (add_chunks xs us) = listed_chunks us @ xs"
  by (simp add: listed_chunks_def add_chunks_def zip_map_fst_snd)

lemma append_chunk_eq:
  assumes "lengths_match s" and "0 \<le> i" and "i < int (length (ChunkHashes s))"
  shows "append_chunk s i us = Inr (add_chunks [snapshot_chunks s ! nat i] us)"
  using assms by (simp add: append_chunk_def lengths_match_def snapshot_chunks_def add_chunks_def)

lemma append_loop_run:
  assumes "lengths_match s" and "0 \<le> i" and "j < int (length (ChunkHashes s))"
  shows "append_loop s i j us = Inr (add_chunks (run (snapshot_chunks s) i j) us)"
  using assms(2)
proof (induction "nat (j + 1 - i)" arbitrary: i us)
  case 0
  then show ?case by (simp add: append_loop.simps)
next
  case (Suc n)
  then have le: "i \<le> j" and n: "n = nat (j + 1 - (i + 1))" by simp_all
  with Suc.prems assms show ?case
    by (simp add: append_loop.simps [of s i] append_chunk_eq Suc.hyps(1) [OF n] add_chunks_add run_Cons [of i])
qed

definition upload_inv :: "snapshot \<Rightarrow> upload_state \<Rightarrow> bool" where
  "upload_inv s us \<longleftrightarrow>
     length (us_chunkHashes us) = length (us_chunkLengths us) \<and>
     (0 \<le> us_lastChunk us \<longrightarrow> (\<exists>xs. listed_chunks us = xs @ [snapshot_chunks s ! nat (us_lastChunk us)]))"

text \<open>What the table holds for a root.\<close>

definition table_entry :: "'a list \<Rightarrow> 'a list \<Rightarrow> entry \<times> int \<Rightarrow> entry \<Rightarrow> bool" where
  "table_entry old new ts e \<longleftrightarrow>
     fst ts = e\<lparr>StartChunk := StartChunk (fst ts), EndChunk := EndChunk (fst ts)\<rparr> \<and>
     (if IsFile e \<and> 0 < Size e
      then relisted old new e ((fst ts)\<lparr>StartChunk := snd ts, EndChunk := EndChunk (fst ts) + snd ts\<rparr>)
      else fst ts = e)"

lemma relisted_more: "relisted old new e d \<Longrightarrow> relisted old (new @ xs) e d"
  by (auto simp: relisted_def in_range_def entry_run_def run_prefix split: if_splits)

lemma table_entry_more: "table_entry old new ts e \<Longrightarrow> table_entry old (new @ xs) ts e"
  by (auto simp: table_entry_def dest: relisted_more split: if_splits)

lemma table_more:
  "list_all2 (table_entry old new) ts es \<Longrightarrow> list_all2 (table_entry old (new @ xs)) ts es"
  by (erule list_all2_mono) (rule table_entry_more)

lemma IsFile_chunks [simp]:
  "IsFile (e\<lparr>StartChunk := a\<rparr>) = IsFile e" "IsFile (e\<lparr>EndChunk := b\<rparr>) = IsFile e"
  by (simp_all add: IsFile_def)

lemma IsHardLinkRoot_file: "IsFile e \<Longrightarrow> 0 \<le> EndChunk e \<Longrightarrow> IsHardLinkRoot e \<longleftrightarrow> Link e = ''/''"
  by (auto simp: IsHardLinkRoot_def entryHardLinkRootChunkMarker_def)

lemma upload_file_entry_run:
  assumes s: "lengths_match s" and e: "in_range (snapshot_chunks s) e" "IsFile e" "0 < Size e"
    and inv: "upload_inv s us"
  shows "\<exists>a b xs us'. upload_file_entry s e us =
      Inr (e\<lparr>StartChunk := a - us_lastEndChunk us, EndChunk := b - a\<rparr>, us') \<and>
    listed_chunks us' = listed_chunks us @ xs \<and> upload_inv s us' \<and> us_lastEndChunk us' = b \<and>
    relisted (snapshot_chunks s) (listed_chunks us') e (e\<lparr>StartChunk := a, EndChunk := b\<rparr>) \<and>
    us_hardLinkTable us' = us_hardLinkTable us @
      (if IsHardLinkRoot e then [(e\<lparr>StartChunk := a - us_lastEndChunk us, EndChunk := b - a\<rparr>, a)] else [])"
proof -
  let ?S = "StartChunk e" and ?E = "EndChunk e" and ?R = "snapshot_chunks s"
  define p where "p = int (length (us_chunkHashes us))"
  have len: "length (us_chunkHashes us) = length (us_chunkLengths us)"
    using inv by (simp add: upload_inv_def)
  then have p: "int (length (listed_chunks us)) = p" by (simp add: listed_chunks_def p_def)
  have r: "0 \<le> ?S" "?S \<le> ?E" "?E < int (length (ChunkHashes s))" "?E < int (length ?R)"
    using e s by (auto simp: in_range_def)
  have first: "run ?R ?S ?E = ?R ! nat ?S # run ?R (?S + 1) ?E" by (rule run_Cons) (use r in auto)
  have final: "\<exists>zs. run ?R ?S ?E = zs @ [?R ! nat ?E]" using run_last r by blast
  have n: "length (run ?R ?S ?E) = nat (?E + 1 - ?S)" using length_run r by blast
  define fresh where "fresh \<longleftrightarrow> ?S \<noteq> us_lastChunk us"
  define xs where "xs = (if fresh then run ?R ?S ?E else run ?R (?S + 1) ?E)"
  define a where "a = (if fresh then p else p - 1)"
  define b where "b = a + (?E - ?S)"
  define e' where "e' = e\<lparr>StartChunk := a - us_lastEndChunk us, EndChunk := b - a\<rparr>"
  define us' where "us' = (add_chunks xs us)\<lparr>us_lastChunk := ?E, us_lastEndChunk := b,
    us_hardLinkTable := us_hardLinkTable us @ (if IsHardLinkRoot e then [(e', a)] else [])\<rparr>"
  have "\<exists>ys. listed_chunks us @ xs = ys @ run ?R ?S ?E \<and> int (length ys) = a"
  proof (cases fresh)
    case True
    then show ?thesis by (intro exI [of _ "listed_chunks us"]) (simp add: xs_def a_def p)
  next
    case False
    then have "us_lastChunk us = ?S" by (simp add: fresh_def)
    with inv r obtain zs where "listed_chunks us = zs @ [?R ! nat ?S]" by (auto simp: upload_inv_def)
    with False p show ?thesis by (intro exI [of _ zs]) (simp add: xs_def a_def first)
  qed
  moreover have new: "listed_chunks us' = listed_chunks us @ xs"
    using listed_chunks_add [OF len, of xs] by (simp add: us'_def listed_chunks_def)
  ultimately obtain ys where ys: "listed_chunks us' = ys @ run ?R ?S ?E" "int (length ys) = a" by auto
  have ab: "0 \<le> a" "a \<le> b" using ys(2) r by (simp_all add: b_def)
  have root: "IsHardLinkRoot (e\<lparr>StartChunk := a, EndChunk := b\<rparr>) = IsHardLinkRoot e"
    using IsHardLinkRoot_file [OF e(2)] IsHardLinkRoot_file [of "e\<lparr>StartChunk := a, EndChunk := b\<rparr>"] e(2) r ab by simp
  have d1: "?S - (?S - p + 1) = a" "?E - (?S - p + 1) = b" if "\<not> fresh" using that by (simp_all add: a_def b_def)
  have d2: "?S - (?S - p) = a" "?E - (?S - p) = b" if fresh using that by (simp_all add: a_def b_def)
  have "upload_file_entry s e us = Inr (e', us')"
    using r d1 d2 root by (cases fresh)
      (simp_all add: upload_file_entry_def Let_def append_chunk_eq [OF s] append_loop_run [OF s] fresh_def
        p_def [symmetric] add_chunks_add first xs_def us'_def e'_def)
  moreover have "run (listed_chunks us') a b = run ?R ?S ?E"
    unfolding ys(1) by (rule run_append) (use ys(2) n b_def in auto)
  moreover have "b < int (length (listed_chunks us'))" using ys n r by (simp add: b_def)
  ultimately have "relisted ?R (listed_chunks us') e (e\<lparr>StartChunk := a, EndChunk := b\<rparr>)"
    using ab e by (simp add: relisted_def in_range_def entry_run_def)
  moreover have "upload_inv s us'"
    using len final ys(1) by (auto simp: upload_inv_def us'_def)
  ultimately show ?thesis
    using \<open>upload_file_entry s e us = Inr (e', us')\<close> new
    by (intro exI [of _ a] exI [of _ b] exI [of _ xs] exI [of _ us']) (simp add: e'_def us'_def)
qed

lemma absolute_range_file:
  "IsFile e \<Longrightarrow> absolute_range e n =
     (e\<lparr>StartChunk := StartChunk e + n, EndChunk := EndChunk e + (StartChunk e + n)\<rparr>, EndChunk e + (StartChunk e + n))"
  by (simp add: absolute_range_def Let_def)

lemma absolute_range_other: "\<not> IsFile e \<Longrightarrow> absolute_range e n = (e, n)"
  by (simp add: absolute_range_def)

lemma HardLinkTo_file:
  "IsFile t \<Longrightarrow> HardLinkTo e t a b = t\<lparr>Path := Path e, Link := Link e, StartChunk := a, EndChunk := b\<rparr>"
  by (simp add: HardLinkTo_def Let_def)

lemma HardLinkTo_other:
  "\<not> IsFile t \<Longrightarrow> HardLinkTo e t a b = t\<lparr>Path := Path e, EndChunk := EndChunk e, EndOffset := EndOffset e\<rparr>"
  by (simp add: HardLinkTo_def Let_def)

lemma IsFile_Path_Link [simp]:
  "IsFile (e\<lparr>Path := x\<rparr>) = IsFile e" "IsFile (e\<lparr>Link := x\<rparr>) = IsFile e" "IsFile (e\<lparr>EndOffset := z\<rparr>) = IsFile e"
  by (simp_all add: IsFile_def)

lemma upload_link_relisted:
  assumes "table_entry old new (t, st) root" and "us_hardLinkTable us ! nat i = (t, st)"
    and "GetHardLinkId e = Inr i" "0 \<le> i" "i < int (length (us_hardLinkTable us))"
  shows "\<exists>e' n. upload_link_entry e us = Inr (e', us\<lparr>us_lastEndChunk := n\<rparr>) \<and>
    (\<exists>d. absolute_range e' (us_lastEndChunk us) = (d, n) \<and>
       relisted old new (HardLinkTo e root (StartChunk root) (EndChunk root)) d)"
proof (cases "IsFile root \<and> 0 < Size root")
  case True
  then have t: "t = root\<lparr>StartChunk := StartChunk t, EndChunk := EndChunk t\<rparr>"
    "relisted old new root (t\<lparr>StartChunk := st, EndChunk := EndChunk t + st\<rparr>)"
    using assms(1) by (simp_all add: table_entry_def)
  then have f: "IsFile t" "Size t = Size root" using True by (metis IsFile_chunks, metis entry.ext_inject entry.surjective entry.update_convs(9,11))
  let ?e = "HardLinkTo e t (st - us_lastEndChunk us) (EndChunk t)"
  have "upload_link_entry e us = Inr (?e, us\<lparr>us_lastEndChunk := st + EndChunk t\<rparr>)"
    using assms f True by (simp add: upload_link_entry_def)
  moreover have "absolute_range ?e (us_lastEndChunk us) =
      (?e\<lparr>StartChunk := st, EndChunk := EndChunk t + st\<rparr>, st + EndChunk t)"
    using f by (simp add: absolute_range_file HardLinkTo_file)
  moreover have "relisted old new (HardLinkTo e root (StartChunk root) (EndChunk root))
      (?e\<lparr>StartChunk := st, EndChunk := EndChunk t + st\<rparr>)"
    using t(2) True f
    by (subst t(1)) (simp add: relisted_def HardLinkTo_file in_range_def entry_run_def)
  ultimately show ?thesis by blast
next
  case False
  then have t: "t = root" using assms(1) by (auto simp: table_entry_def)
  have "upload_link_entry e us = Inr (HardLinkTo e root 0 0, us\<lparr>us_lastEndChunk := us_lastEndChunk us\<rparr>)"
    using assms False t by (auto simp: upload_link_entry_def)
  moreover have "\<exists>d. absolute_range (HardLinkTo e root 0 0) (us_lastEndChunk us) = (d, us_lastEndChunk us) \<and>
      relisted old new (HardLinkTo e root (StartChunk root) (EndChunk root)) d"
    using False by (cases "IsFile root")
      (simp_all add: HardLinkTo_file HardLinkTo_other absolute_range_file absolute_range_other relisted_def)
  ultimately show ?thesis by blast
qed

lemma upload_inv_last [simp]: "upload_inv s (us\<lparr>us_lastEndChunk := n\<rparr>) = upload_inv s us"
  "listed_chunks (us\<lparr>us_lastEndChunk := n\<rparr>) = listed_chunks us"
  "upload_inv s (us\<lparr>us_hardLinkTable := t\<rparr>) = upload_inv s us"
  "listed_chunks (us\<lparr>us_hardLinkTable := t\<rparr>) = listed_chunks us"
  by (simp_all add: upload_inv_def listed_chunks_def)

lemma upload_entry_relisted:
  assumes s: "lengths_match s" and inv: "upload_inv s us"
    and e: "linked_entries (snapshot_chunks s) roots (e # es)"
    and table: "list_all2 (table_entry (snapshot_chunks s) (listed_chunks us)) (us_hardLinkTable us) roots"
  shows "\<exists>e' us' xs d roots' e0. uploadEntryInfo s e us = Inr (e', us') \<and>
    listed_chunks us' = listed_chunks us @ xs \<and> upload_inv s us' \<and>
    absolute_range e' (us_lastEndChunk us) = (d, us_lastEndChunk us') \<and>
    resolve_links roots (e # es) = e0 # resolve_links roots' es \<and>
    relisted (snapshot_chunks s) (listed_chunks us') e0 d \<and>
    linked_entries (snapshot_chunks s) roots' es \<and>
    list_all2 (table_entry (snapshot_chunks s) (listed_chunks us')) (us_hardLinkTable us') roots'"
proof -
  let ?R = "snapshot_chunks s" and ?roots = "roots @ (if IsHardLinkRoot e then [e] else [])"
  consider (full) "IsFile e" "0 < Size e" | (child) "IsHardLinkChild e" "\<not> (IsFile e \<and> 0 < Size e)"
    | (other) "\<not> IsHardLinkChild e" "\<not> (IsFile e \<and> 0 < Size e)" by blast
  then show ?thesis
  proof cases
    case full
    then have rest: "in_range ?R e" "linked_entries ?R ?roots es" using e by simp_all
    from upload_file_entry_run [OF s rest(1) full inv] obtain a b xs us' where
      up: "upload_file_entry s e us = Inr (e\<lparr>StartChunk := a - us_lastEndChunk us, EndChunk := b - a\<rparr>, us')"
        "listed_chunks us' = listed_chunks us @ xs" "upload_inv s us'" "us_lastEndChunk us' = b"
        "relisted ?R (listed_chunks us') e (e\<lparr>StartChunk := a, EndChunk := b\<rparr>)"
        "us_hardLinkTable us' = us_hardLinkTable us @
          (if IsHardLinkRoot e then [(e\<lparr>StartChunk := a - us_lastEndChunk us, EndChunk := b - a\<rparr>, a)] else [])"
      by blast
    have "list_all2 (table_entry ?R (listed_chunks us')) (us_hardLinkTable us') ?roots"
      using table_more [OF table, of xs] up(2,5,6) full
      by (auto intro!: list_all2_appendI simp: table_entry_def)
    with up rest(2) full show ?thesis
      by (intro exI [of _ "e\<lparr>StartChunk := a - us_lastEndChunk us, EndChunk := b - a\<rparr>"] exI [of _ us'] exI [of _ xs]
            exI [of _ "e\<lparr>StartChunk := a, EndChunk := b\<rparr>"] exI [of _ ?roots] exI [of _ e])
         (simp add: uploadEntryInfo_def absolute_range_file)
  next
    case child
    then obtain i where i: "GetHardLinkId e = Inr i" "0 \<le> i" "i < int (length roots)" "linked_entries ?R roots es"
      using e by (auto split: sum.splits)
    have len: "length (us_hardLinkTable us) = length roots" using table by (rule list_all2_lengthD)
    obtain t st where ts: "us_hardLinkTable us ! nat i = (t, st)" by fastforce
    have "table_entry ?R (listed_chunks us) (t, st) (roots ! nat i)"
      using list_all2_nthD2 [OF table, of "nat i"] i ts by simp
    from upload_link_relisted [OF this ts i(1,2)] i(3) len obtain e' n d where
      "upload_link_entry e us = Inr (e', us\<lparr>us_lastEndChunk := n\<rparr>)" "absolute_range e' (us_lastEndChunk us) = (d, n)"
      "relisted ?R (listed_chunks us) (HardLinkTo e (roots ! nat i) (StartChunk (roots ! nat i)) (EndChunk (roots ! nat i))) d"
      by auto
    with child i inv table show ?thesis
      by (rule_tac x = e' in exI, rule_tac x = "us\<lparr>us_lastEndChunk := n\<rparr>" in exI, rule_tac x = "[]" in exI,
          rule_tac x = d in exI, rule_tac x = roots in exI,
          rule_tac x = "HardLinkTo e (roots ! nat i) (StartChunk (roots ! nat i)) (EndChunk (roots ! nat i))" in exI)
         (use child in \<open>auto simp: uploadEntryInfo_def Let_def\<close>)
  next
    case other
    let ?us = "if IsHardLinkRoot e then us\<lparr>us_hardLinkTable := us_hardLinkTable us @ [(e, 0)]\<rparr> else us"
    have rest: "IsFile e \<Longrightarrow> StartChunk e = 0 \<and> EndChunk e = 0" "linked_entries ?R ?roots es"
      using e other by auto
    have "uploadEntryInfo s e us = Inr (e, ?us)" using other by (auto simp: uploadEntryInfo_def)
    moreover obtain d where "absolute_range e (us_lastEndChunk us) = (d, us_lastEndChunk ?us)"
        "relisted ?R (listed_chunks us) e d"
      using rest(1) other by (cases "IsFile e")
        (auto simp: absolute_range_file absolute_range_other relisted_def)
    moreover have "list_all2 (table_entry ?R (listed_chunks us)) (us_hardLinkTable ?us) ?roots"
      using table other by (auto intro!: list_all2_appendI simp: table_entry_def)
    ultimately show ?thesis
      using other inv rest(2)
      by (rule_tac x = e in exI, rule_tac x = ?us in exI, rule_tac x = "[]" in exI, rule_tac x = d in exI,
          rule_tac x = ?roots in exI, rule_tac x = e in exI) (cases "IsHardLinkRoot e"; simp)
  qed
qed

lemma upload_entries_relisted:
  assumes s: "lengths_match s"
  shows "upload_inv s us \<Longrightarrow> linked_entries (snapshot_chunks s) roots es \<Longrightarrow>
    list_all2 (table_entry (snapshot_chunks s) (listed_chunks us)) (us_hardLinkTable us) roots \<Longrightarrow>
    \<exists>out us' xs. upload_entries s es us = Inr (out, us') \<and> listed_chunks us' = listed_chunks us @ xs \<and>
      upload_inv s us' \<and>
      list_all2 (relisted (snapshot_chunks s) (listed_chunks us')) (resolve_links roots es)
        (absolute_ranges (us_lastEndChunk us) out)"
proof (induction es arbitrary: us roots)
  case (Cons e es)
  from upload_entry_relisted [OF s Cons.prems] obtain e' us1 xs d roots' e0 where
    one: "uploadEntryInfo s e us = Inr (e', us1)" "listed_chunks us1 = listed_chunks us @ xs" "upload_inv s us1"
      "absolute_range e' (us_lastEndChunk us) = (d, us_lastEndChunk us1)"
      "resolve_links roots (e # es) = e0 # resolve_links roots' es"
      "relisted (snapshot_chunks s) (listed_chunks us1) e0 d" "linked_entries (snapshot_chunks s) roots' es"
      "list_all2 (table_entry (snapshot_chunks s) (listed_chunks us1)) (us_hardLinkTable us1) roots'" by metis
  from Cons.IH [OF one(3,7,8)] obtain out us' ys where
    more: "upload_entries s es us1 = Inr (out, us')" "listed_chunks us' = listed_chunks us1 @ ys" "upload_inv s us'"
      "list_all2 (relisted (snapshot_chunks s) (listed_chunks us')) (resolve_links roots' es)
        (absolute_ranges (us_lastEndChunk us1) out)" by blast
  have "relisted (snapshot_chunks s) (listed_chunks us') e0 d"
    unfolding more(2) by (rule relisted_more) (rule one(6))
  with one more show ?case
    by (intro exI [of _ "e' # out"] exI [of _ us'] exI [of _ "xs @ ys"]) (simp del: resolve_links.simps)
qed simp

text \<open>The file list of a snapshot is read back as it was meant to be written. The entries come in
  the order of the list; every non-empty file has a range in the new list of chunks that holds the same
  hashes and lengths as its range in the old one; a hard link has the metadata and the range of the root
  with its number, under its own path; everything else is unchanged.\<close>

lemma file_list_relisted:
  assumes "lengths_match s" and "linked_entries (snapshot_chunks s) [] es"
  shows "\<exists>out us. upload_entries s es start_upload = Inr (out, us) \<and>
    list_all2 (relisted (snapshot_chunks s) (listed_chunks us)) (resolve_links [] es) (absolute_ranges 0 out)"
proof -
  have start: "upload_inv s start_upload" "us_hardLinkTable start_upload = []" "us_lastEndChunk start_upload = 0"
    by (simp_all add: upload_inv_def start_upload_def)
  then have "list_all2 (table_entry (snapshot_chunks s) (listed_chunks start_upload)) (us_hardLinkTable start_upload) []"
    by simp
  from upload_entries_relisted [OF assms(1) start(1) assms(2) this] start(3)
  show ?thesis by metis
qed

text \<open>A root with a hard link, a file in the uploaded chunks before one in the preserved chunks, and a
  symbolic link.\<close>

definition sample_linked :: "entry list" where
  "sample_linked =
     [(CreateEntry ''a'' 9 0 0x1A4)\<lparr>Link := ''/'', StartChunk := 1, EndChunk := 2, EndOffset := 4\<rparr>,
      (CreateEntry ''b'' 2 0 0x1A4)\<lparr>StartChunk := 2, StartOffset := 4, EndChunk := 2, EndOffset := 6\<rparr>,
      (CreateEntry ''c'' 0 0 0x1A4)\<lparr>Link := show_hex 0\<rparr>,
      (CreateEntry ''d'' 3 0 0x1A4)\<lparr>StartChunk := 0, EndChunk := 0, EndOffset := 3\<rparr>,
      (CreateEntry ''e'' 5 0 ModeSymlink)\<lparr>Link := ''a''\<rparr>]"

definition sample_chunked :: snapshot where
  "sample_chunked = zero_snapshot\<lparr>ChunkHashes := [[1], [2], [3]], ChunkLengths := [3, 5, 6]\<rparr>"

lemma sample_linked_ok: "linked_entries (snapshot_chunks sample_chunked) [] sample_linked"
  using ParseUint16_show_hex [of 0 64] show_hex_no_slash [of 0]
  by (simp add: sample_linked_def sample_chunked_def snapshot_chunks_def in_range_def CreateEntry_def IsFile_def
      IsDir_def IsHardLinkChild_def IsHardLinkRoot_def GetHardLinkId_def int_of_uint64_def mode_defs
      entryHardLinkRootChunkMarker_def entryHardLinkTargetChunkMarker_def)

end
