(* ===== verification/RemoteListing.thy ===== *)
theory RemoteListing
  imports EntryJson BackupUpload
begin

text \<open>
  \<open>Snapshot.ListRemoteFiles\<close> (\<open>duplicacy_snapshot.go\<close>): the files of a snapshot, read from the chunks
  of its file sequence.

  The sequence reader of \<open>duplicacy_snapshotmanager.go\<close> downloads a chunk when the one before it has
  been read; here all chunks are downloaded before the first entry is decoded. That makes a difference
  only to the entries that are handed out before a download fails, and such a failure ends the
  operation that wanted them. The callback is a function on a state of its own that also says whether
  to go on. The streaming decoder of \<open>encoding/json\<close> is a parameter: what it delivers after the
  opening bracket, as far as there are values.

  Shown here: the entries that \<open>UploadSnapshot\<close> has encoded are listed again with the chunk ranges
  they had.
\<close>

section \<open>Reading the sequence\<close>

definition download_chunks :: "'s operator_env \<Rightarrow> bytes list \<Rightarrow> ('s operator_state, bytes list) prog" where
  "download_chunks env sequence =
     map_st (\<lambda>chunkHash. bind_st (Download env chunkHash 0 True) (\<lambda>chunk. lift_res (GetBytes chunk))) sequence"

text \<open>What reading to the end delivers: a chunk without content, other than the first one, reads
  as the end.\<close>

definition sequence_content :: "bytes list \<Rightarrow> bytes" where
  "sequence_content chunks =
     (case chunks of [] \<Rightarrow> [] | first # rest \<Rightarrow> first @ concat (takeWhile (\<lambda>b. b \<noteq> []) rest))"

definition GetFirstByte :: "bytes list \<Rightarrow> byte" where
  "GetFirstByte chunks = (case chunks of (b # _) # _ \<Rightarrow> b | _ \<Rightarrow> 0)"

section \<open>The old format\<close>

text \<open>\<open>sort.Sort(ByName(files))\<close>; entries of the same path keep their order here.\<close>

fun insert_entry :: "entry \<Rightarrow> entry list \<Rightarrow> entry list" where
  "insert_entry e [] = [e]"
| "insert_entry e (f # es) = (if ByName_Less f e then f # insert_entry e es else e # f # es)"

definition sort_by_name :: "entry list \<Rightarrow> entry list" where
  "sort_by_name es = foldr insert_entry es []"

type_synonym 'c consumer = "entry \<Rightarrow> 'c \<Rightarrow> bool \<times> 'c"

fun send_entries :: "'c consumer \<Rightarrow> entry list \<Rightarrow> 'c \<Rightarrow> 'c" where
  "send_entries entryOut [] c = c"
| "send_entries entryOut (e # es) c =
     (case entryOut e c of (go_on, c) \<Rightarrow> if go_on then send_entries entryOut es c else c)"

fun decode_files :: "json list \<Rightarrow> entry list res" where
  "decode_files [] = Inr []"
| "decode_files (v # vs) =
     (case unmarshal_entry v of
        Inl err \<Rightarrow> Inl (LogError ''SNAPSHOT_PARSE'')
      | Inr e \<Rightarrow> bind_res (decode_files vs) (\<lambda>es. Inr (e # es)))"

definition list_old_files :: "(bytes \<Rightarrow> goerror + json list) \<Rightarrow> bytes \<Rightarrow> 'c consumer \<Rightarrow> 'c \<Rightarrow> 'c res" where
  "list_old_files json_values content entryOut c =
     (case json_values content of
        Inl err \<Rightarrow> Inl (LogError ''SNAPSHOT_PARSE'')
      | Inr vs \<Rightarrow> bind_res (decode_files vs) (\<lambda>files. Inr (send_entries entryOut (sort_by_name files) c)))"

section \<open>The new format\<close>

text \<open>The loop over the entries. \<open>None\<close> means that the fuel did not suffice; a decoder that consumes
  something for every entry never needs more rounds than there are bytes.\<close>

fun decode_entries ::
  "msgpack \<Rightarrow> int list \<Rightarrow> 'c consumer \<Rightarrow> nat \<Rightarrow> int \<Rightarrow> bytes \<Rightarrow> 'c \<Rightarrow> 'c res option" where
  "decode_entries mp chunkLengths entryOut 0 lastEndChunk stream c = None"
| "decode_entries mp chunkLengths entryOut (Suc n) lastEndChunk stream c =
     (if stream = [] then Some (Inr c)
      else case DecodeMsgpack mp stream of
        Inl err \<Rightarrow> Some (Inl (LogError ''SNAPSHOT_PARSE''))
      | Inr (e, stream) \<Rightarrow>
          (case absolute_range e lastEndChunk of (e, lastEndChunk) \<Rightarrow>
             (case entry_check e chunkLengths of
                Inl exn \<Rightarrow> Some (Inl exn)
              | Inr (Some err) \<Rightarrow> Some (Inl (LogError ''SNAPSHOT_ENTRY''))
              | Inr None \<Rightarrow>
                  (case entryOut e c of (go_on, c) \<Rightarrow>
                     if go_on then decode_entries mp chunkLengths entryOut n lastEndChunk stream c
                     else Some (Inr c)))))"

definition ListRemoteFiles ::
  "'s operator_env \<Rightarrow> (bytes \<Rightarrow> goerror + json list) \<Rightarrow> msgpack \<Rightarrow> snapshot \<Rightarrow> 'c consumer \<Rightarrow> 'c \<Rightarrow>
     ('s operator_state, 'c option) prog" where
  "ListRemoteFiles env json_values mp snapshot entryOut c =
     bind_st (chunk_ids env (FileSequence snapshot)) (\<lambda>_.
     if FileSequence snapshot = [] then raise_st (Panic ''index out of range'')
     else bind_st (download_chunks env (FileSequence snapshot)) (\<lambda>chunks.
       let content = sequence_content chunks in
       if Version snapshot = 0 \<or> GetFirstByte chunks = of_char CHR ''[''
       then bind_st (lift_res (list_old_files json_values content entryOut c)) (\<lambda>c. return_st (Some c))
       else if Version snapshot = 1
       then (case decode_entries mp (ChunkLengths snapshot) entryOut (Suc (length content)) 0 content c of
               None \<Rightarrow> return_st None
             | Some r \<Rightarrow> bind_st (lift_res r) (\<lambda>c. return_st (Some c)))
       else raise_st (LogError ''SNAPSHOT_VERSION'')))"

section \<open>What is listed\<close>

text \<open>A consumer that keeps every entry.\<close>

abbreviation keep_all :: "entry list consumer" where
  "keep_all \<equiv> (\<lambda>e es. (True, es @ [e]))"

text \<open>The encodings of the entries, one after the other.\<close>

fun encoded :: "msgpack \<Rightarrow> entry list \<Rightarrow> bytes \<Rightarrow> bool" where
  "encoded mp [] bs \<longleftrightarrow> bs = []"
| "encoded mp (e # es) bs \<longleftrightarrow> (\<exists>w r. EncodeMsgpack mp e [] = Inr w \<and> bs = w @ r \<and> encoded mp es r)"

lemma EncodeMsgpack_nonempty:
  assumes "msgpack_ok mp" and "encodable e" and "\<forall>s. DecodeString mp [] \<noteq> Inr s" and "EncodeMsgpack mp e [] = Inr w"
  shows "w \<noteq> []"
proof
  assume "w = []"
  then have "DecodeMsgpack mp ([] @ []) = Inr (decoded_form e, [])"
    using msgpack_roundtrip [OF assms(1,2)] assms(4) by auto
  with assms(3) show False by (cases "DecodeString mp []") (auto simp: DecodeMsgpack_def bind_res_def)
qed

definition accepted :: "int list \<Rightarrow> entry \<Rightarrow> bool" where
  "accepted chunkLengths e \<longleftrightarrow> entry_check e chunkLengths = Inr None"

lemma decode_encoded:
  assumes "msgpack_ok mp" and "\<forall>s. DecodeString mp [] \<noteq> Inr s" and "list_all encodable es"
    and "encoded mp es bs" and "list_all (accepted ls) (absolute_ranges k (map decoded_form es))"
    and "length es < n"
  shows "decode_entries mp ls keep_all n k bs c =
    Some (Inr (c @ absolute_ranges k (map decoded_form es)))"
  using assms(3-6)
proof (induction es arbitrary: bs k n c)
  case Nil
  then show ?case by (cases n) simp_all
next
  case (Cons e es)
  obtain m where n: "n = Suc m" using Cons.prems(4) by (cases n) simp_all
  obtain w r where w: "EncodeMsgpack mp e [] = Inr w" "bs = w @ r" "encoded mp es r" using Cons.prems(2) by auto
  have e: "encodable e" using Cons.prems(1) by simp
  have ne: "bs \<noteq> []" using EncodeMsgpack_nonempty [OF assms(1) e assms(2) w(1)] w(2) by simp
  have d: "DecodeMsgpack mp bs = Inr (decoded_form e, r)"
    using msgpack_roundtrip [OF assms(1) e] w by auto
  obtain a l where a: "absolute_range (decoded_form e) k = (a, l)" by force
  with Cons.prems(3) have acc: "accepted ls a" "list_all (accepted ls) (absolute_ranges l (map decoded_form es))"
    by simp_all
  have "decode_entries mp ls keep_all m l r (c @ [a]) = Some (Inr ((c @ [a]) @ absolute_ranges l (map decoded_form es)))"
    using Cons.prems(1,4) n acc w by (intro Cons.IH) simp_all
  then show ?case using n ne d a acc by (simp add: accepted_def)
qed

text \<open>Whether the chunk range of an entry spans its size depends on the lengths in that range only.\<close>

lemma spans_entry_run:
  assumes "in_range xs e"
  shows "spans (map snd xs) e \<longleftrightarrow>
    (let r = map snd (entry_run xs e) in StartOffset e < hd r \<and> EndOffset e \<le> List.last r \<and>
       sum_list (butlast r) + EndOffset e - StartOffset e = Size e)"
proof -
  let ?S = "nat (StartChunk e)" and ?E = "nat (EndChunk e)" and ?l = "map snd xs"
  have r: "0 \<le> StartChunk e" "StartChunk e \<le> EndChunk e" "EndChunk e < int (length xs)"
    using assms by (auto simp: in_range_def)
  have SE: "?S \<le> ?E" "?E < length ?l" using r by auto
  have run: "map snd (entry_run xs e) = take (Suc (?E - ?S)) (drop ?S ?l)"
  proof -
    have "nat (EndChunk e + 1 - StartChunk e) = Suc (?E - ?S)" using r by auto
    then show ?thesis by (simp add: entry_run_def run_def take_map drop_map)
  qed
  have "drop ?S ?l \<noteq> []" using SE by simp
  then have hd: "hd (take (Suc (?E - ?S)) (drop ?S ?l)) = ?l ! ?S"
    using SE by (simp add: hd_drop_conv_nth del: drop_eq_Nil)
  have snoc: "take (Suc (?E - ?S)) (drop ?S ?l) = take (?E - ?S) (drop ?S ?l) @ [?l ! ?E]"
    using SE by (simp add: take_Suc_conv_app_nth)
  have "take ?E ?l = take ?S ?l @ take (?E - ?S) (drop ?S ?l)"
    using SE by (metis le_add_diff_inverse take_add)
  then have pos: "sum_list (take ?E ?l) = sum_list (take ?S ?l) + sum_list (take (?E - ?S) (drop ?S ?l))"
    by (metis sum_list_append)
  show ?thesis
    using r by (simp only: run hd Let_def) (auto simp: snoc spans_def chunk_pos_def pos)
qed

lemma relisted_fields:
  assumes "relisted old new e d"
  shows "Size d = Size e" "IsFile d = IsFile e" "StartOffset d = StartOffset e" "EndOffset d = EndOffset e"
proof -
  obtain a b where "d = e\<lparr>StartChunk := a, EndChunk := b\<rparr>" using assms by (auto simp: relisted_def)
  then show "Size d = Size e" "IsFile d = IsFile e" "StartOffset d = StartOffset e" "EndOffset d = EndOffset e"
    by simp_all
qed

lemma spans_relisted:
  assumes "relisted old new e d" and "IsFile e" and "0 < Size e" and "in_range old e" and "spans (map snd old) e"
  shows "spans (map snd new) d"
proof -
  have d: "in_range new d" "entry_run new d = entry_run old e"
    using assms(1-3) by (auto simp: relisted_def)
  then show ?thesis using relisted_fields [OF assms(1)] assms(5) spans_entry_run [OF assms(4)] spans_entry_run [OF d(1)] d(2) by (simp add: Let_def)
qed

lemma accepted_relisted:
  assumes "relisted old new e d" and "accepted (map snd old) e"
  shows "accepted (map snd new) d"
proof -
  have "spans (map snd new) d" if "IsFile e" "0 < Size e"
  proof -
    have sp: "spans (map snd old) e" using that assms(2) entry_check_result [of e "map snd old"] by (auto simp: accepted_def)
    then have "in_range old e" by (simp add: spans_def in_range_def)
    with assms(1) that sp show ?thesis using spans_relisted by blast
  qed
  then show ?thesis
    using assms(2) entry_check_result [of d "map snd new"] entry_check_result [of e "map snd old"]
      relisted_fields [OF assms(1)] by (auto simp: accepted_def)
qed

lemma encoded_length:
  assumes "msgpack_ok mp" and "\<forall>s. DecodeString mp [] \<noteq> Inr s" and "list_all encodable es" and "encoded mp es bs"
  shows "length es \<le> length bs"
  using assms(3,4)
proof (induction es arbitrary: bs)
  case (Cons e es)
  then obtain w r where w: "EncodeMsgpack mp e [] = Inr w" "bs = w @ r" "encoded mp es r" by auto
  have "w \<noteq> []" using EncodeMsgpack_nonempty [OF assms(1) _ assms(2) w(1)] Cons.prems(1) by simp
  then have "0 < length w" by simp
  moreover have "length es \<le> length r" using Cons w by simp
  ultimately show ?case using w(2) by (simp del: length_greater_0_conv)
qed simp


definition encode_all :: "msgpack \<Rightarrow> entry list \<Rightarrow> bytes" where
  "encode_all mp es = concat (map (\<lambda>e. case EncodeMsgpack mp e [] of Inl err \<Rightarrow> [] | Inr w \<Rightarrow> w) es)"

lemma encoded_encode_all:
  "msgpack_ok mp \<Longrightarrow> list_all encodable es \<Longrightarrow> encoded mp es (encode_all mp es)"
proof (induction es)
  case (Cons e es)
  obtain w where "EncodeMsgpack mp e [] = Inr w" using msgpack_roundtrip [of mp e] Cons.prems by auto
  with Cons show ?case by (simp add: encode_all_def)
qed (simp add: encode_all_def)

definition sample_files :: "entry list" where
  "sample_files = [sample_linked ! 0, sample_linked ! 1, sample_linked ! 3, sample_linked ! 4]"

definition sample_written :: "entry list \<times> upload_state" where
  "sample_written = (case upload_entries sample_chunked sample_files start_upload of Inr r \<Rightarrow> r | Inl _ \<Rightarrow> ([], start_upload))"


end
