(* ===== verification/Backup.thy ===== *)
theory Backup
  imports RemoteListing Prune ChunkMaker
begin

text \<open>
  A backup: \<open>BackupManager.Backup\<close> and \<open>BackupManager.UploadSnapshot\<close>
  (\<open>duplicacy_backupmanager.go\<close>).

  A backup compares the local files with those of the last snapshot or of an interrupted backup, cuts the
  files that were modified into chunks, uploads the chunks that the storage does not have, and finally
  uploads the description of the new snapshot. The program is the composition of the theories before.

  The goroutines: the listings are complete before the comparison starts, and a chunk is uploaded, with
  the completion function called, when it is handed to the operator. What the code asks from its
  surroundings are parameters: the local listing with what was skipped, the content of a file when it is
  opened, the clock, the environment variables that make a backup fail for tests. The chunks that
  \<open>AddData\<close> has cut before a read fails are not uploaded here. Statistics that are only logged are left out,
  as is the shadow copy.
\<close>

section \<open>Parameters\<close>

record 's backup_env =
  be_operator :: "'s operator_env"
  be_codec :: json_codec
  be_values :: "bytes \<Rightarrow> goerror + json list"
  be_msgpack :: msgpack
  be_sha256 :: "bytes \<Rightarrow> bytes"
  be_skipFileHash :: bool
  be_listing :: "(entry list \<times> string list \<times> string list) res"
  be_open :: "string \<Rightarrow> goerror + reader"
  be_keepAlive :: "int \<Rightarrow> bool"
  be_chunkToFail :: int
  be_failSnapshot :: bool
  be_fastListing :: bool
  be_listBound :: nat
  be_openError :: "goerror option"
  be_closeError :: "goerror option"
  be_loadFaults :: load_faults
  be_saveFaults :: save_faults
  be_removeErrors :: "string \<Rightarrow> goerror option"
  be_encodeList :: "entry_list \<Rightarrow> goerror + bytes"
  be_decodeList :: "bytes \<Rightarrow> goerror + entry_list"
  be_token :: "goerror + string"
  be_startTime :: int
  be_endTime :: int
  be_stamp :: string
  be_os :: string
  be_hostname :: string

definition be_config :: "'s backup_env \<Rightarrow> config" where
  "be_config be = env_config (be_operator be)"

definition be_fileHash :: "'s backup_env \<Rightarrow> bytes \<Rightarrow> bytes" where
  "be_fileHash be = NewFileHasher (rt_hashes (env_runtime (be_operator be))) (be_skipFileHash be) (be_config be)"

section \<open>Uploading a chunk\<close>

text \<open>\<open>chunkOperator.Upload\<close> with the chunks for which it calls the completion function.\<close>

type_synonym completion = "chunk \<times> int \<times> bool \<times> nat \<times> nat"

definition upload_completed ::
  "'s operator_env \<Rightarrow> chunk \<Rightarrow> int \<Rightarrow> bool \<Rightarrow> ('s operator_state, completion list) prog" where
  "upload_completed env chunk chunkIndex isMetadata =
     bind_st (get_st (\<lambda>w. length (completed w))) (\<lambda>n.
     bind_st (Upload env chunk chunkIndex isMetadata) (\<lambda>_.
       get_st (\<lambda>w. drop n (completed w))))"

text \<open>\<open>AddData\<close> with the callback called for each chunk it sends. The fuel of \<open>AddData\<close> always suffices.\<close>

definition add_data ::
  "'s backup_env \<Rightarrow> ('w \<Rightarrow> maker) \<Rightarrow> (maker \<Rightarrow> 'w \<Rightarrow> 'w) \<Rightarrow> (chunk \<Rightarrow> ('w, unit) prog) \<Rightarrow> reader option \<Rightarrow>
     ('w, int \<times> string) prog" where
  "add_data be get put endOfChunk rd =
     bind_st (get_st get) (\<lambda>mk.
       case AddData (be_config be) (be_fileHash be) mk rd of
         None \<Rightarrow> raise_st (Panic ''unreachable'')
       | Some (Inl exn) \<Rightarrow> raise_st exn
       | Some (Inr (result, mk, chunks)) \<Rightarrow>
           bind_st (modify_st (put mk)) (\<lambda>_. bind_st (for_each chunks endOfChunk) (\<lambda>_. return_st result)))"

section \<open>Uploading the snapshot\<close>

record metadata_counts =
  totalMetadataChunkSize :: int
  numberOfNewMetadataChunks :: int
  totalUploadedMetadataChunkSize :: int
  totalUploadedMetadataChunkBytes :: int

definition no_counts :: metadata_counts where
  "no_counts = \<lparr>totalMetadataChunkSize = 0, numberOfNewMetadataChunks = 0, totalUploadedMetadataChunkSize = 0,
     totalUploadedMetadataChunkBytes = 0\<rparr>"

record 's snapshot_upload =
  su_operator :: "'s operator_state"
  su_chunkCache :: "string list"
  su_chunkIndex :: int
  su_chunkSequence :: "bytes list"
  su_maker :: maker
  su_entries :: upload_state
  su_counts :: metadata_counts
  su_failure :: "exn option"

definition on_upload :: "('s operator_state, 'a) prog \<Rightarrow> ('s snapshot_upload, 'a) prog" where
  "on_upload = zoom su_operator (\<lambda>w su. su\<lparr>su_operator := w\<rparr>)"

definition complete_metadata :: "completion \<Rightarrow> ('s snapshot_upload, unit) prog" where
  "complete_metadata = (\<lambda>(chunk, chunkIndex, inCache, chunkSize, uploadSize).
     modify_st (\<lambda>su. if \<not> inCache \<and> 0 < uploadSize then
       su\<lparr>su_counts := su_counts su\<lparr>numberOfNewMetadataChunks := numberOfNewMetadataChunks (su_counts su) + 1,
         totalUploadedMetadataChunkSize := totalUploadedMetadataChunkSize (su_counts su) + int chunkSize,
         totalUploadedMetadataChunkBytes := totalUploadedMetadataChunkBytes (su_counts su) + int uploadSize\<rparr>\<rparr>
       else su))"

definition upload_metadata_chunk :: "'s backup_env \<Rightarrow> chunk \<Rightarrow> ('s snapshot_upload, unit) prog" where
  "upload_metadata_chunk be chunk =
     bind_st (op_GetHash (be_operator be) chunk) (\<lambda>(hash, chunk).
     bind_st (op_GetID (be_operator be) chunk) (\<lambda>(chunkID, chunk).
     bind_st (modify_st (\<lambda>su. su\<lparr>su_chunkIndex := su_chunkIndex su + 1, su_counts := su_counts su
       \<lparr>totalMetadataChunkSize := totalMetadataChunkSize (su_counts su) + int (GetLength chunk)\<rparr>\<rparr>)) (\<lambda>_.
     bind_st (get_st su_chunkIndex) (\<lambda>chunkIndex.
     bind_st (get_st (\<lambda>su. chunkID \<in> set (su_chunkCache su))) (\<lambda>found.
     bind_st
       (if found then complete_metadata (chunk, chunkIndex, True, GetLength chunk, 0)
        else
          bind_st (modify_st (\<lambda>su. su\<lparr>su_chunkCache := chunkID # su_chunkCache su\<rparr>)) (\<lambda>_.
          bind_st (on_upload (upload_completed (be_operator be) chunk chunkIndex True)) (\<lambda>cs.
            for_each cs complete_metadata))) (\<lambda>_.
       modify_st (\<lambda>su. su\<lparr>su_chunkSequence := su_chunkSequence su @ [hash]\<rparr>)))))))"

definition add_metadata :: "'s backup_env \<Rightarrow> reader option \<Rightarrow> ('s snapshot_upload, unit) prog" where
  "add_metadata be rd =
     bind_st (add_data be su_maker (\<lambda>mk su. su\<lparr>su_maker := mk\<rparr>) (upload_metadata_chunk be) rd) (\<lambda>_. return_st ())"

definition upload_entry :: "'s backup_env \<Rightarrow> snapshot \<Rightarrow> entry \<Rightarrow> ('s snapshot_upload, unit) prog" where
  "upload_entry be snapshot e =
     bind_st (get_st su_entries) (\<lambda>us.
     bind_st (lift_res (uploadEntryInfo snapshot e us)) (\<lambda>(e, us).
     bind_st (modify_st (\<lambda>su. su\<lparr>su_entries := us\<rparr>)) (\<lambda>_.
       case EncodeMsgpack (be_msgpack be) e [] of
         Inl err \<Rightarrow> raise_st (LogError ''SNAPSHOT_UPLOAD'')
       | Inr bs \<Rightarrow> add_metadata be (Some [(bs, None)]))))"

text \<open>The callback of \<open>ReadEntries\<close>. A panic in it unwinds \<open>ReadEntries\<close>; here it is recorded and ends the
  reading like an error.\<close>

definition upload_callback :: "'s backup_env \<Rightarrow> snapshot \<Rightarrow> 's snapshot_upload callback" where
  "upload_callback be snapshot e su =
     (case upload_entry be snapshot e su of
        (Inr _, su) \<Rightarrow> Inr (None, su)
      | (Inl exn, su) \<Rightarrow> Inr (Some (GoErr ''panic''), su\<lparr>su_failure := Some exn\<rparr>))"

definition upload_list :: "'s backup_env \<Rightarrow> snapshot \<Rightarrow> entry_list \<Rightarrow> ('s snapshot_upload, entry_list) prog" where
  "upload_list be snapshot el su =
     (case ReadEntries (be_msgpack be) (be_sha256 be) (upload_callback be snapshot) el su of
        None \<Rightarrow> (Inl (Panic ''unreachable''), su)
      | Some (Inl exn) \<Rightarrow> (Inl exn, su)
      | Some (Inr (err, el, su)) \<Rightarrow>
          (case su_failure su of
             Some exn \<Rightarrow> (Inl exn, su)
           | None \<Rightarrow> if err \<noteq> None then (Inl (LogError ''SNAPSHOT_UPLOAD''), su) else (Inr el, su)))"

definition metadata_maker :: "'s backup_env \<Rightarrow> int \<Rightarrow> ('w, maker) prog" where
  "metadata_maker be metadataChunkSize =
     lift_res (CreateMetaDataChunkMaker (rt_hashes (env_runtime (be_operator be))) (be_config be) metadataChunkSize)"

text \<open>One of the sequences \<open>chunks\<close> and \<open>lengths\<close>.\<close>

definition upload_sequence ::
  "'s backup_env \<Rightarrow> int \<Rightarrow> string \<Rightarrow> snapshot \<Rightarrow> ('s snapshot_upload, snapshot) prog" where
  "upload_sequence be metadataChunkSize sequenceType snapshot =
     bind_st (modify_st (\<lambda>su. su\<lparr>su_chunkSequence := []\<rparr>)) (\<lambda>_.
       case MarshalSequence (be_codec be) sequenceType snapshot of
         Inl err \<Rightarrow> raise_st (LogError ''SNAPSHOT_MARSHAL'')
       | Inr contents \<Rightarrow>
           bind_st (metadata_maker be metadataChunkSize) (\<lambda>mk.
           bind_st (modify_st (\<lambda>su. su\<lparr>su_maker := mk\<rparr>)) (\<lambda>_.
           bind_st (add_metadata be (Some [(contents, None)])) (\<lambda>_.
           bind_st (add_metadata be None) (\<lambda>_.
             get_st (\<lambda>su. SetSequence sequenceType (su_chunkSequence su) snapshot))))))"

text \<open>The sequences are uploaded, and the snapshot is complete.\<close>

definition upload_sequences ::
  "'s backup_env \<Rightarrow> int \<Rightarrow> snapshot \<Rightarrow> entry_list \<Rightarrow> ('s snapshot_upload, snapshot \<times> entry_list) prog" where
  "upload_sequences be metadataChunkSize snapshot el =
     bind_st (upload_list be snapshot el) (\<lambda>el.
     bind_st (get_st su_entries) (\<lambda>us.
     let snapshot = snapshot\<lparr>ChunkHashes := us_chunkHashes us, ChunkLengths := us_chunkLengths us\<rparr> in
     bind_st (add_metadata be None) (\<lambda>_.
     bind_st (get_st (\<lambda>su. SetSequence ''files'' (su_chunkSequence su) snapshot)) (\<lambda>snapshot.
     bind_st (upload_sequence be metadataChunkSize ''chunks'' snapshot) (\<lambda>snapshot.
     bind_st (upload_sequence be metadataChunkSize ''lengths'' snapshot) (\<lambda>snapshot.
       return_st (snapshot, el)))))))"

definition start_snapshot_upload :: "string list \<Rightarrow> maker \<Rightarrow> 's operator_state \<Rightarrow> 's snapshot_upload" where
  "start_snapshot_upload chunkCache mk w =
     \<lparr>su_operator = w, su_chunkCache = chunkCache, su_chunkIndex = -1, su_chunkSequence = [],
      su_maker = mk, su_entries = start_upload, su_counts = no_counts, su_failure = None\<rparr>"

definition UploadSnapshot ::
  "'s backup_env \<Rightarrow> string \<Rightarrow> snapshot \<Rightarrow> entry_list \<Rightarrow> string list \<Rightarrow> int \<Rightarrow>
     ('s operator_state, (snapshot \<times> entry_list) \<times> metadata_counts) prog" where
  "UploadSnapshot be snapshotID snapshot el chunkCache metadataChunkSize =
     bind_st (metadata_maker be metadataChunkSize) (\<lambda>mk.
     bind_st (\<lambda>w. case upload_sequences be metadataChunkSize snapshot el (start_snapshot_upload chunkCache mk w) of
         (r, su) \<Rightarrow> (bind_res r (\<lambda>x. Inr (x, su_counts su)), su_operator su)) (\<lambda>((snapshot, el), counts).
     if be_failSnapshot be then raise_st (LogError ''SNAPSHOT_FAIL'')
     else case MarshalJSON_snapshot (be_codec be) snapshot of
       Inl err \<Rightarrow> raise_st (LogError ''SNAPSHOT_MARSHAL'')
     | Inr description \<Rightarrow>
         let path = snapshot_path snapshotID (Revision snapshot) in
         bind_st (if dryRun (be_config be) then return_st ()
                  else manager_UploadFile (be_operator be) path path description) (\<lambda>_.
           return_st ((snapshot, el), counts))))"

section \<open>Uploading the files\<close>

record 's backup_state =
  bs_operator :: "'s operator_state"
  bs_list :: entry_list
  bs_chunkCache :: "string list"
  bs_chunkIndex :: int
  bs_maker :: maker
  bs_skippedFiles :: "string list"

definition on_operator :: "('s operator_state, 'a) prog \<Rightarrow> ('s backup_state, 'a) prog" where
  "on_operator = zoom bs_operator (\<lambda>w bs. bs\<lparr>bs_operator := w\<rparr>)"

definition uploadChunkCompletion :: "'s backup_env \<Rightarrow> completion \<Rightarrow> ('s backup_state, unit) prog" where
  "uploadChunkCompletion be = (\<lambda>(chunk, chunkIndex, inCache, chunkSize, uploadSize).
     bind_st (op_GetHash (be_operator be) chunk) (\<lambda>(hash, chunk).
       modify_st (\<lambda>bs. bs\<lparr>bs_list := AddUploadedChunk (nat chunkIndex) (bytes_string hash) (int chunkSize) (bs_list bs)\<rparr>)))"

definition uploadChunk :: "'s backup_env \<Rightarrow> chunk \<Rightarrow> ('s backup_state, unit) prog" where
  "uploadChunk be chunk =
     bind_st (op_GetID (be_operator be) chunk) (\<lambda>(chunkID, chunk).
     bind_st (modify_st (\<lambda>bs. bs\<lparr>bs_chunkIndex := bs_chunkIndex bs + 1\<rparr>)) (\<lambda>_.
     bind_st (get_st bs_chunkIndex) (\<lambda>chunkIndex.
     bind_st (get_st (\<lambda>bs. chunkID \<in> set (bs_chunkCache bs) \<and> \<not> be_keepAlive be chunkIndex)) (\<lambda>found.
     bind_st
       (if found then uploadChunkCompletion be (chunk, chunkIndex, True, GetLength chunk, 0)
        else
          bind_st (modify_st (\<lambda>bs. bs\<lparr>bs_chunkCache := chunkID # bs_chunkCache bs\<rparr>)) (\<lambda>_.
          bind_st (on_operator (upload_completed (be_operator be) chunk chunkIndex False)) (\<lambda>cs.
            for_each cs (uploadChunkCompletion be)))) (\<lambda>_.
       if chunkIndex = be_chunkToFail be then raise_st (LogError ''SNAPSHOT_FAIL'') else return_st ())))))"

definition add_file_data :: "'s backup_env \<Rightarrow> reader option \<Rightarrow> ('s backup_state, int \<times> string) prog" where
  "add_file_data be rd = add_data be bs_maker (\<lambda>mk bs. bs\<lparr>bs_maker := mk\<rparr>) (uploadChunk be) rd"

text \<open>One of the \<open>ModifiedEntries\<close>, which have the size and the hash of the file afterwards.\<close>

definition pack_file :: "'s backup_env \<Rightarrow> nat \<Rightarrow> ('s backup_state, unit) prog" where
  "pack_file be i =
     bind_st (get_st (\<lambda>bs. ModifiedEntries (bs_list bs) ! i)) (\<lambda>e.
       case be_open be (me_Path e) of
         Inl err \<Rightarrow> modify_st (\<lambda>bs. bs\<lparr>bs_skippedFiles := bs_skippedFiles bs @ [me_Path e]\<rparr>)
       | Inr rd \<Rightarrow>
           bind_st (add_file_data be (Some rd)) (\<lambda>(sz, hash).
             modify_st (\<lambda>bs. bs\<lparr>bs_list := bs_list bs
               \<lparr>ModifiedEntries := (ModifiedEntries (bs_list bs))[i := e\<lparr>me_Size := sz, me_Hash := hash\<rparr>]\<rparr>\<rparr>)))"

definition pack_files :: "'s backup_env \<Rightarrow> ('s backup_state, unit) prog" where
  "pack_files be =
     bind_st (get_st (\<lambda>bs. length (ModifiedEntries (bs_list bs)))) (\<lambda>n.
     bind_st (for_each [0..<n] (pack_file be)) (\<lambda>_.
     bind_st (add_file_data be None) (\<lambda>_. return_st ())))"

section \<open>The backup\<close>

definition backup_options :: "bool \<Rightarrow> bool \<Rightarrow> string" where
  "backup_options hashMode shadowCopy =
     (let opts = (if hashMode then ''-hash'' else []) in
      if shadowCopy then (if opts = [] then ''-vss'' else opts @ '' -vss'') else opts)"

text \<open>The new snapshot, before its sequences are uploaded.\<close>

definition local_snapshot ::
  "'s backup_env \<Rightarrow> string \<Rightarrow> string \<Rightarrow> string \<Rightarrow> bool \<Rightarrow> bool \<Rightarrow> int \<Rightarrow> int \<Rightarrow> nat \<Rightarrow> entry_list \<Rightarrow> snapshot" where
  "local_snapshot be snapshotID topDir tag hashMode shadowCopy lastRevision preservedSize skippedFiles el =
     (CreateEmptySnapshot snapshotID (be_startTime be) (be_stamp be) (be_os be) (be_hostname be))
       \<lparr>Revision := lastRevision + 1, EndTime := be_endTime be, Tag := tag,
        Options := backup_options hashMode shadowCopy, Top := topDir,
        FileSize := preservedSize + sum_list (map me_Size (ModifiedEntries el)),
        NumberOfFiles := NumberOfEntries el - int skippedFiles,
        ChunkHashes := map string_bytes (PreservedChunkHashes el @ UploadedChunkHashes el),
        ChunkLengths := PreservedChunkLengths el @ UploadedChunkLengths el\<rparr>"

text \<open>The last snapshot, empty if there is none, and the ids of its chunks.\<close>

definition previous_snapshot ::
  "'s backup_env \<Rightarrow> string \<Rightarrow> ('s operator_state, snapshot \<times> string list) prog" where
  "previous_snapshot be snapshotID =
     bind_st (downloadLatestSnapshot (be_operator be) (be_codec be) None snapshotID) (\<lambda>latest.
       let remote = (case latest of Some s \<Rightarrow> s
             | None \<Rightarrow> CreateEmptySnapshot snapshotID (be_startTime be) (be_stamp be) (be_os be) (be_hostname be))
       in if 0 < Revision remote then
            bind_st (DownloadSnapshotSequences (be_operator be) (be_codec be) remote) (\<lambda>remote.
            bind_st (GetSnapshotChunks (be_operator be) (be_codec be) True remote) (\<lambda>(chunks, remote).
              return_st (remote, chunks)))
          else return_st (remote, []))"

text \<open>The ids of the chunks that \<open>ListAllFiles\<close> has found: paths of chunks without the slashes.\<close>

definition listed_chunk_ids :: "string list \<Rightarrow> string list" where
  "listed_chunk_ids files =
     map (\<lambda>c. remove_all c ''/'')
       (filter (\<lambda>c. c \<noteq> [] \<and> List.last c \<noteq> CHR ''/'' \<and> \<not> HasSuffix c ''.fsl'') files)"

definition known_chunks :: "'s backup_env \<Rightarrow> snapshot \<Rightarrow> string list \<Rightarrow> ('s operator_state, string list) prog" where
  "known_chunks be remote chunks =
     (if be_fastListing be \<and> Revision remote = 0 then
        bind_st (on_storage (all_files (be_listBound be) (env_storage (be_operator be)) chunkDir)) (\<lambda>files.
          return_st (listed_chunk_ids files))
      else return_st chunks)"

text \<open>The interrupted backup, unless it needs chunks that the storage does not have. The keyed hasher that
  computes the ids may fail.\<close>

definition usable_incomplete ::
  "'s backup_env \<Rightarrow> snapshot \<Rightarrow> string list \<Rightarrow> entry_list option \<Rightarrow> ('s operator_state, entry_list option) prog" where
  "usable_incomplete be remote chunkCache incomplete =
     (case incomplete of
        None \<Rightarrow> return_st None
      | Some el \<Rightarrow>
          if be_fastListing be \<and> Revision remote = 0 then
            bind_st (lift_res (NewKeyedHasher (rt_hashes (env_runtime (be_operator be))) (be_config be) (IDKey (be_config be)))) (\<lambda>h.
              return_st (if CheckChunks (\<lambda>hash. hex_encode (h (string_bytes hash))) (\<lambda>c. c \<in> set chunkCache) el
                then Some el else None))
          else return_st (Some el))"

text \<open>The listing to compare with: that of the interrupted backup, none in hash mode, or that of the last
  snapshot. The error that \<open>ReadEntries\<close> returns is ignored.\<close>

definition remote_listing ::
  "'s backup_env \<Rightarrow> bool \<Rightarrow> snapshot \<Rightarrow> entry_list option \<Rightarrow> ('s operator_state, entry list) prog" where
  "remote_listing be hashMode remote incomplete =
     (case incomplete of
        Some el \<Rightarrow>
          (case ReadEntries (be_msgpack be) (be_sha256 be) collect el [] of
             None \<Rightarrow> raise_st (Panic ''unreachable'')
           | Some r \<Rightarrow> bind_st (lift_res r) (\<lambda>(err, el, es). return_st es))
      | None \<Rightarrow>
          if hashMode then return_st []
          else bind_st (ListRemoteFiles (be_operator be) (be_values be) (be_msgpack be) remote keep_all []) (\<lambda>r.
            case r of None \<Rightarrow> raise_st (Panic ''unreachable'') | Some es \<Rightarrow> return_st es))"

definition with_incomplete :: "entry_list option \<Rightarrow> snapshot \<Rightarrow> snapshot" where
  "with_incomplete incomplete remote =
     (case incomplete of None \<Rightarrow> remote
      | Some el \<Rightarrow> remote\<lparr>ChunkHashes := map string_bytes (PreservedChunkHashes el @ UploadedChunkHashes el),
          ChunkLengths := PreservedChunkLengths el @ UploadedChunkLengths el\<rparr>)"

record 's backup_world =
  bw_operator :: "'s operator_state"
  bw_dir :: cache_dir

definition in_world :: "('s operator_state, 'a) prog \<Rightarrow> ('s backup_world, 'a) prog" where
  "in_world = zoom bw_operator (\<lambda>w b. b\<lparr>bw_operator := w\<rparr>)"

record backup_request =
  rq_snapshotID :: string
  rq_top :: string
  rq_quickMode :: bool
  rq_tag :: string
  rq_shadowCopy :: bool
  rq_enumOnly :: bool
  rq_metadataChunkSize :: int
  rq_maximumInMemoryEntries :: int

text \<open>What is known before files are uploaded: the chunks that need not be uploaded, the entry list after
  the comparison and the size of the files that are preserved.\<close>

record backup_plan =
  pl_remote :: snapshot
  pl_hashMode :: bool
  pl_chunkCache :: "string list"
  pl_list :: entry_list
  pl_preservedSize :: int
  pl_skippedFiles :: "string list"

definition plan_backup :: "'s backup_env \<Rightarrow> backup_request \<Rightarrow> ('s backup_world, backup_plan) prog" where
  "plan_backup be rq =
     bind_st (in_world (previous_snapshot be (rq_snapshotID rq))) (\<lambda>(remote, chunks).
     let hashMode = (Revision remote = 0 \<or> \<not> rq_quickMode rq) in
     bind_st
       (if hashMode then
          bind_st (get_st bw_dir) (\<lambda>dir.
            lift_res (loadIncompleteSnapshot (be_msgpack be) (be_sha256 be) (be_decodeList be) (be_loadFaults be) dir))
        else return_st None) (\<lambda>incomplete.
     bind_st (in_world (known_chunks be remote chunks)) (\<lambda>chunkCache.
     bind_st (in_world (usable_incomplete be remote chunkCache incomplete)) (\<lambda>incomplete.
     let remote = with_incomplete incomplete remote in
     bind_st (lift_res (be_listing be)) (\<lambda>(localListing, skippedDirectories, skippedFiles).
     bind_st (in_world (remote_listing be hashMode remote incomplete)) (\<lambda>remoteListing.
       case CreateEntryList (rq_snapshotID rq) (be_token be) (rq_maximumInMemoryEntries rq) of
         Inl err \<Rightarrow> raise_st (LogError ''BACKUP_CREATE'')
       | Inr el \<Rightarrow>
           bind_st (lift_res (compare_loop (be_msgpack be) (be_sha256 be) (be_openError be) remote localListing
               (start_compare remoteListing el))) (\<lambda>cs.
             return_st \<lparr>pl_remote = remote, pl_hashMode = hashMode, pl_chunkCache = chunkCache,
               pl_list = localEntryList cs, pl_preservedSize = preservedFileSize cs,
               pl_skippedFiles = skippedFiles\<rparr>)))))))"

text \<open>The uploads: the files, the sequences, the snapshot, and the cleaning of the cache.\<close>

definition finish_backup ::
  "'s backup_env \<Rightarrow> backup_request \<Rightarrow> backup_plan \<Rightarrow> ('s backup_state, snapshot) prog" where
  "finish_backup be rq pl =
     bind_st (pack_files be) (\<lambda>_.
     bind_st (get_st id) (\<lambda>bs.
     let snapshot = local_snapshot be (rq_snapshotID rq) (rq_top rq) (rq_tag rq) (pl_hashMode pl) (rq_shadowCopy rq)
           (Revision (pl_remote pl)) (pl_preservedSize pl) (length (bs_skippedFiles bs)) (bs_list bs) in
     bind_st (on_operator (UploadSnapshot be (rq_snapshotID rq) snapshot (bs_list bs) (bs_chunkCache bs)
         (rq_metadataChunkSize rq))) (\<lambda>((snapshot, el), counts).
     bind_st
       (if dryRun (be_config be) then return_st ()
        else on_operator (CleanSnapshotCache (be_operator be) (be_codec be) (be_listBound be) (Some snapshot) None)) (\<lambda>_.
       return_st snapshot))))"

definition start_backup :: "maker \<Rightarrow> backup_plan \<Rightarrow> 's operator_state \<Rightarrow> 's backup_state" where
  "start_backup mk pl w =
     \<lparr>bs_operator = w, bs_list = pl_list pl, bs_chunkCache = pl_chunkCache pl, bs_chunkIndex = -1, bs_maker = mk,
      bs_skippedFiles = pl_skippedFiles pl\<rparr>"

text \<open>\<open>RunAtError\<close>: when a backup in hash mode fails from here on, what has been uploaded is saved for the
  next one.\<close>

definition save_at_error :: "'s backup_env \<Rightarrow> bool \<Rightarrow> entry_list \<Rightarrow> cache_dir \<Rightarrow> cache_dir" where
  "save_at_error be hashMode el dir =
     (if hashMode \<and> \<not> dryRun (be_config be)
      then snd (SaveIncompleteSnapshot (be_msgpack be) (be_sha256 be) (be_encodeList be) (be_saveFaults be) el dir)
      else dir)"

definition run_backup ::
  "'s backup_env \<Rightarrow> backup_request \<Rightarrow> backup_plan \<Rightarrow> ('s backup_world, snapshot) prog" where
  "run_backup be rq pl b =
     (if NumberOfEntries (pl_list pl) = 0 then (Inl (LogError ''SNAPSHOT_EMPTY''), b)
      else case CreateFileChunkMaker (rt_hashes (env_runtime (be_operator be))) (be_config be) False of
        Inl exn \<Rightarrow> (Inl exn, b)
      | Inr mk \<Rightarrow>
          (case finish_backup be rq pl (start_backup mk pl (bw_operator b)) of
             (Inl exn, bs) \<Rightarrow>
               (Inl exn, b\<lparr>bw_operator := bs_operator bs,
                           bw_dir := save_at_error be (pl_hashMode pl) (bs_list bs) (bw_dir b)\<rparr>)
           | (Inr snapshot, bs) \<Rightarrow>
               (Inr snapshot, b\<lparr>bw_operator := bs_operator bs,
                                bw_dir := deleteIncompleteSnapshot (be_removeErrors be) (bw_dir b)\<rparr>)))"

definition Backup :: "'s backup_env \<Rightarrow> backup_request \<Rightarrow> ('s backup_world, bool) prog" where
  "Backup be rq =
     bind_st (plan_backup be rq) (\<lambda>pl.
       if rq_enumOnly rq then return_st True
       else bind_st (run_backup be rq pl) (\<lambda>_. return_st True))"

end
