(* ===== verification/BackupMetadata.thy ===== *)
theory BackupMetadata
  imports Backup PruneSafety
begin

text \<open>
  The second half of a backup on a reliable storage: rules for triples, what an upload of a chunk does to the
  storage, and \<open>UploadSnapshot\<close>. While chunks are uploaded, every file that was in the storage is still
  there and outside of the directory of the chunks nothing is new; the file of the snapshot is written when every
  chunk that the snapshot references is stored.
\<close>

section \<open>Rules for triples\<close>

named_theorems triple \<open>rules for \<open>valid\<close>\<close>

lemma valid_return [triple]: "(\<And>s. P s \<Longrightarrow> Q x s) \<Longrightarrow> valid P (return_st x) Q E"
  and valid_raise [triple]: "(\<And>s. P s \<Longrightarrow> E s) \<Longrightarrow> valid P (raise_st e) Q E"
  by (auto simp: valid_def)

lemma valid_get: "(\<And>s. P s \<Longrightarrow> Q (g s) s) \<Longrightarrow> valid P (get_st g) Q E"
  by (auto simp: valid_def)

lemma valid_modify: "(\<And>s. P s \<Longrightarrow> Q () (h s)) \<Longrightarrow> valid P (modify_st h) Q E"
  by (auto simp: valid_def)

lemma valid_lift:
  "(\<And>x s. r = Inr x \<Longrightarrow> P s \<Longrightarrow> Q x s) \<Longrightarrow> (\<And>s. P s \<Longrightarrow> E s) \<Longrightarrow> valid P (lift_res r) Q E"
  by (cases r) (auto simp: valid_def lift_res_def)

lemma valid_keeps: "keeps P m \<Longrightarrow> valid P m (\<lambda>_. P) P"
  by (simp add: keeps_valid)

lemma valid_if [triple]:
  "(b \<Longrightarrow> valid P m Q E) \<Longrightarrow> (\<not> b \<Longrightarrow> valid P n Q E) \<Longrightarrow> valid P (if b then m else n) Q E"
  by simp

lemma valid_case [triple]:
  "(\<And>a b. p = (a, b) \<Longrightarrow> valid P (g a b) Q E) \<Longrightarrow> valid P (case p of (a, b) \<Rightarrow> g a b) Q E"
  "(\<And>a. r = Inl a \<Longrightarrow> valid P (h a) Q E) \<Longrightarrow> (\<And>b. r = Inr b \<Longrightarrow> valid P (i b) Q E) \<Longrightarrow>
     valid P (case r of Inl a \<Rightarrow> h a | Inr b \<Rightarrow> i b) Q E"
  "(x = None \<Longrightarrow> valid P m Q E) \<Longrightarrow> (\<And>y. x = Some y \<Longrightarrow> valid P (j y) Q E) \<Longrightarrow>
     valid P (case x of None \<Rightarrow> m | Some y \<Rightarrow> j y) Q E"
  by (cases p, simp) (cases r, simp_all, cases x, simp_all)

lemma valid_for_each:
  "(\<And>x. x \<in> set xs \<Longrightarrow> valid P (f x) (\<lambda>_. P) E) \<Longrightarrow> valid P (for_each xs f) (\<lambda>_. P) E"
  by (induction xs) (auto intro!: triple valid_bind [where Q = "\<lambda>_. P"])

lemma valid_zoom:
  assumes "\<And>w. P w \<Longrightarrow> P' w (get w)" and "\<And>w0. P w0 \<Longrightarrow> valid (P' w0) m (Q' w0) (E' w0)"
    and "\<And>w x s. P w \<Longrightarrow> Q' w x s \<Longrightarrow> Q x (put s w)" and "\<And>w s. P w \<Longrightarrow> E' w s \<Longrightarrow> E (put s w)"
  shows "valid P (zoom get put m) Q E"
  unfolding valid_def
proof (intro allI impI)
  fix w assume "P w"
  obtain r s where m: "m (get w) = (r, s)" by (cases "m (get w)")
  with \<open>P w\<close> show "case zoom get put m w of (Inr x, t) \<Rightarrow> Q x t | (Inl e, t) \<Rightarrow> E t"
    using validD [OF assms(2) [OF \<open>P w\<close>] assms(1) [OF \<open>P w\<close>]] assms(3,4) [OF \<open>P w\<close>]
    by (cases r) (auto simp: zoom_def)
qed

text \<open>Sequences that start with a simple statement.\<close>

lemma valid_bind_lift:
  "(\<And>x. r = Inr x \<Longrightarrow> valid P (f x) Q E) \<Longrightarrow> (\<And>s. P s \<Longrightarrow> E s) \<Longrightarrow> valid P (bind_st (lift_res r) f) Q E"
  by (cases r) (simp_all add: valid_raise)

lemma valid_bind_keeps:
  "keeps P m \<Longrightarrow> (\<And>s. P s \<Longrightarrow> E s) \<Longrightarrow> (\<And>x. valid P (f x) Q E) \<Longrightarrow> valid P (bind_st m f) Q E"
  by (rule valid_bind [where Q = "\<lambda>_. P"]) (auto intro: valid_weaken [OF valid_keeps])

lemma valid_bind_get:
  "(\<And>x. valid (\<lambda>s. P s \<and> x = g s) (f x) Q E) \<Longrightarrow> valid P (bind_st (get_st g) f) Q E"
  by (simp add: valid_def)

lemma valid_bind_modify:
  "(\<And>s. P s \<Longrightarrow> R (h s)) \<Longrightarrow> valid R (f ()) Q E \<Longrightarrow> valid P (bind_st (modify_st h) f) Q E"
  by (simp add: valid_def)

lemma valid_state: "(\<And>s0. P s0 \<Longrightarrow> valid (\<lambda>s. s = s0) m Q E) \<Longrightarrow> valid P m Q E"
  by (auto simp: valid_def)

lemma valid_conj: "valid P m Q E \<Longrightarrow> keeps R m \<Longrightarrow> valid (\<lambda>s. P s \<and> R s) m (\<lambda>x s. Q x s \<and> R s) E"
  by (fastforce simp: valid_def keeps_def split: prod.splits sum.splits)

lemma valid_ex:
  assumes "\<And>a. valid (P a) m Q E"
  shows "valid (\<lambda>s. \<exists>a. P a s) m Q E"
  unfolding valid_def
proof (intro allI impI)
  fix s assume "\<exists>a. P a s"
  then obtain a where "P a s" ..
  then show "case m s of (Inr x, t) \<Rightarrow> Q x t | (Inl e, t) \<Rightarrow> E t" using assms [of a] by (simp add: valid_def)
qed

lemma valid_pure: "(b \<Longrightarrow> valid P m Q E) \<Longrightarrow> valid (\<lambda>s. b \<and> P s) m Q E"
  by (auto simp: valid_def)

lemma valid_pre: "valid P m Q E \<Longrightarrow> (\<And>s. P' s \<Longrightarrow> P s) \<Longrightarrow> valid P' m Q E"
  by (rule valid_weaken)

section \<open>Uploading keeps what is there\<close>

lemma GetHash_fields: "GetHash hs cfg chunk = Inr (h, chunk') \<Longrightarrow> chunk' = chunk\<lparr>chunk_hash := h\<rparr>"
  by (auto simp: GetHash_def bind_res_def split: sum.splits if_splits)

lemma GetHash_again:
  "GetHash hs cfg chunk = Inr (h, chunk') \<Longrightarrow> \<exists>c. GetHash hs cfg (chunk'\<lparr>chunk_buffer := b\<rparr>) = Inr (h, c)"
  by (auto simp: GetHash_def hasher_Sum_def bind_res_def split: sum.splits if_splits option.splits)

lemma Encrypt_fields:
  "Encrypt hs cr cfg ent ek dk m chunk = Inr (e, chunk') \<Longrightarrow> \<exists>b. chunk' = chunk\<lparr>chunk_buffer := b\<rparr>"
  by (auto simp: Encrypt_def bind_res_def Let_def split: sum.splits if_splits prod.splits)
     (metis chunk.surjective chunk.update_convs(1))+

definition has_hash :: "'s operator_env \<Rightarrow> chunk \<Rightarrow> bytes \<Rightarrow> bool" where
  "has_hash env chunk h \<longleftrightarrow> (\<exists>c. GetHash (rt_hashes (env_runtime env)) (env_config env) chunk = Inr (h, c))"

lemma has_hash_cong:
  "chunk_hash c = chunk_hash d \<Longrightarrow> chunk_hasher c = chunk_hasher d \<Longrightarrow> has_hash env c h = has_hash env d h"
  by (auto simp: has_hash_def GetHash_def hasher_Sum_def bind_res_def split: sum.splits option.splits)

lemma has_hash_buffer [simp]: "has_hash env (chunk\<lparr>chunk_buffer := b\<rparr>) h = has_hash env chunk h"
  by (rule has_hash_cong) simp_all

lemma has_hash_id [simp]: "has_hash env (chunk\<lparr>chunk_id := i\<rparr>) h = has_hash env chunk h"
  by (rule has_hash_cong) simp_all

lemma has_hash_again: "has_hash env chunk h \<Longrightarrow> has_hash env (chunk\<lparr>chunk_hash := h\<rparr>) h"
  by (auto simp: has_hash_def GetHash_def hasher_Sum_def bind_res_def split: sum.splits option.splits if_splits)

lemma has_hash_GetHash:
  "has_hash env chunk h \<Longrightarrow> GetHash (rt_hashes (env_runtime env)) (env_config env) chunk = Inr (h, chunk\<lparr>chunk_hash := h\<rparr>)"
  using GetHash_fields unfolding has_hash_def by blast

lemma has_hash_GetID:
  "has_hash env chunk h \<Longrightarrow> GetID (rt_hashes (env_runtime env)) (env_config env) chunk = Inr (i, chunk') \<Longrightarrow>
     has_hash env chunk' h"
  using has_hash_GetHash [of env chunk h] has_hash_again [of env chunk h]
  by (auto simp: GetID_def bind_res_def split: sum.splits if_splits)

lemma has_hash_VerifyID:
  "has_hash env chunk h \<Longrightarrow> VerifyID (rt_hashes (env_runtime env)) (env_config env) chunk = Inr chunk' \<Longrightarrow>
     has_hash env chunk' h"
  using has_hash_GetID [of env chunk h] by (auto simp: VerifyID_def bind_res_def split: sum.splits if_splits)

lemma has_hash_Encrypt:
  "has_hash env chunk h \<Longrightarrow> Encrypt hs cr cfg ent ek dk m chunk = Inr (e, chunk') \<Longrightarrow> has_hash env chunk' h"
  using Encrypt_fields by fastforce

text \<open>A chunk whose id is not known yet gets the one that belongs to its hash.\<close>

lemma GetID_hash_id:
  "has_hash env chunk h \<Longrightarrow> chunk_id chunk = [] \<Longrightarrow>
     GetID (rt_hashes (env_runtime env)) (env_config env) chunk = Inr (i, chunk') \<Longrightarrow> hash_id env h i"
  using has_hash_GetHash [of env chunk h]
  by (auto simp: GetID_def hash_id_def GetChunkIDFromHash_def bind_res_def split: sum.splits if_splits)

lemma hash_id_unique: "hash_id env h i \<Longrightarrow> hash_id env h j \<Longrightarrow> i = j"
  by (simp add: hash_id_def)

lemma keeps_on_cache_both: "keeps (\<lambda>w. P (op_storage w) (completed w)) (on_cache m)"
  by (auto simp: keeps_def on_cache_def split: option.splits prod.splits)

lemma keeps_entropy_both: "keeps (\<lambda>w. P (op_storage w) (completed w)) next_entropy"
  by (simp add: keeps_def next_entropy_def)

lemma has_hash_unique: "has_hash env chunk h \<Longrightarrow> has_hash env chunk h' \<Longrightarrow> h = h'"
  by (auto simp: has_hash_def)

lemma extend_to_append: "length xs = n \<Longrightarrow> (extend_to n x xs)[n := y] = xs @ [y]"
  by (simp add: extend_to_def list_update_append)

text \<open>Feeding the maker: \<open>I\<close> before and \<open>J\<close> while chunks are sent.\<close>

definition cutting :: "'s backup_env \<Rightarrow> maker \<Rightarrow> bool" where
  "cutting be mk \<longleftrightarrow> (\<exists>c. maker_inv (be_config be) c mk)"

lemma hold_all_fresh: "hold_all config bs out \<Longrightarrow> chunk \<in> set out \<Longrightarrow> chunk_id chunk = []"
  by (auto simp: hold_all_def holds_def list_all2_conv_all_nth in_set_conv_nth)

lemma AddData_fresh:
  assumes "cutting be mk" and "\<And>r. rd = Some r \<Longrightarrow> clean r"
  shows "\<exists>result mk' out. AddData (be_config be) (be_fileHash be) mk rd = Some (Inr (result, mk', out)) \<and>
    (\<forall>chunk \<in> set out. chunk_id chunk = []) \<and> (rd \<noteq> None \<longrightarrow> cutting be mk')"
proof -
  obtain c where c: "maker_inv (be_config be) c mk" using assms(1) by (auto simp: cutting_def)
  show ?thesis
  proof (cases rd)
    case None
    with AddData_nil [OF c, of "be_fileHash be"] hold_all_fresh show ?thesis by fastforce
  next
    case (Some r)
    obtain mk' c' bs out result where "AddData (be_config be) (be_fileHash be) mk rd = Some (Inr (result, mk', out))"
      "hold_all (be_config be) bs out" "maker_inv (be_config be) c' mk'"
      using AddData_reader [OF c, of r "be_fileHash be"] assms(2) [OF Some] Some by blast
    then show ?thesis using hold_all_fresh by (auto simp: cutting_def)
  qed
qed

lemma valid_add_data:
  assumes cut: "\<And>s. I s \<Longrightarrow> cutting be (get s)" and rd: "\<And>r. rd = Some r \<Longrightarrow> clean r"
    and put: "\<And>s mk. I s \<Longrightarrow> (rd \<noteq> None \<Longrightarrow> cutting be mk) \<Longrightarrow> J (put mk s)"
    and step: "\<And>chunk. chunk_id chunk = [] \<Longrightarrow> valid J (endOfChunk chunk) (\<lambda>_. J) E"
  shows "valid I (add_data be get put endOfChunk rd) (\<lambda>_. J) E"
  unfolding valid_def
proof (intro allI impI)
  fix s assume s: "I s"
  from AddData_fresh [OF cut [OF s] rd] obtain result mk out where
    a: "AddData (be_config be) (be_fileHash be) (get s) rd = Some (Inr (result, mk, out))"
    and out: "\<forall>chunk \<in> set out. chunk_id chunk = []" and mk: "rd \<noteq> None \<longrightarrow> cutting be mk" by blast
  have "valid J (bind_st (for_each out endOfChunk) (\<lambda>_. return_st result)) (\<lambda>_. J) E"
    by (rule valid_bind [OF valid_for_each]) (use out step in \<open>auto intro: triple\<close>)
  moreover have "J (put mk s)" using put [OF s] mk by simp
  ultimately show "case add_data be get put endOfChunk rd s of (Inr x, t) \<Rightarrow> J t | (Inl e, t) \<Rightarrow> E t"
    by (simp add: add_data_def a valid_def)
qed

text \<open>Reading an entry list with a callback that keeps \<open>I\<close> until it returns an error.\<close>

definition callback_inv :: "('s \<Rightarrow> bool) \<Rightarrow> ('s \<Rightarrow> bool) \<Rightarrow> 's callback \<Rightarrow> bool" where
  "callback_inv I J entryOut \<longleftrightarrow> (\<forall>e s err s'. I s \<longrightarrow> entryOut e s = Inr (err, s') \<longrightarrow> (if err = None then I s' else J s'))"

definition read_end :: "('s \<Rightarrow> bool) \<Rightarrow> ('s \<Rightarrow> bool) \<Rightarrow> goerror option \<Rightarrow> 's \<Rightarrow> bool" where
  "read_end I J err s \<longleftrightarrow> (if err = None then I s else I s \<or> J s)"

lemma fillAndSendEntry_inv:
  assumes "callback_inv I J entryOut" and "I s" and "fillAndSendEntry entryOut e el s = Inr (skipped, err, el', s')"
  shows "read_end I J err s'"
  using assms unfolding callback_inv_def read_end_def
  by (auto simp: fillAndSendEntry_def checkAndSend_def bind_res_def split: sum.splits if_splits prod.splits option.splits)

lemma read_entries_inv:
  assumes "callback_inv I J entryOut"
  shows "I s \<Longrightarrow> read_entries entryOut es el s = Inr (err, el', s') \<Longrightarrow> read_end I J err s'"
proof (induction es arbitrary: el s)
  case (Cons e es)
  from Cons.prems(2) obtain sk x el1 s1 where f: "fillAndSendEntry entryOut (Copy e) el s = Inr (sk, x, el1, s1)"
    and r: "(if x \<noteq> None then Inr (x, el1, s1) else read_entries entryOut es el1 s1) = Inr (err, el', s')"
    by (auto simp: bind_res_def split: sum.splits)
  have "read_end I J x s1" by (rule fillAndSendEntry_inv [OF assms Cons.prems(1) f])
  with r Cons.IH [of s1 el1] show ?case by (cases "x = None") (auto simp: read_end_def)
qed (auto simp: read_end_def)

lemma read_disk_inv:
  assumes "callback_inv I J entryOut"
  shows "I s \<Longrightarrow> read_disk mp sha n entryOut stream el s = Some (Inr (err, el', s')) \<Longrightarrow> read_end I J err s'"
proof (induction n arbitrary: stream el s)
  case (Suc n)
  show ?case
  proof (cases "stream = []")
    case True
    with Suc.prems show ?thesis by (auto simp: read_end_def)
  next
    case ne: False
    show ?thesis
    proof (cases "DecodeEntryWithHash mp sha stream")
      case (Inl x)
      with Suc.prems ne show ?thesis by (auto simp: read_end_def)
    next
      case (Inr p)
      obtain e rest where p: "p = (e, rest)" by force
      from Suc.prems(2) Inr p ne obtain sk x el1 s1 where f: "fillAndSendEntry entryOut e el s = Inr (sk, x, el1, s1)"
        and r: "(if x \<noteq> None then Some (Inr (x, el1, s1)) else read_disk mp sha n entryOut rest el1 s1) = Some (Inr (err, el', s'))"
        by (auto split: sum.splits)
      have "read_end I J x s1" by (rule fillAndSendEntry_inv [OF assms Suc.prems(1) f])
      with r Suc.IH [of s1 rest el1] show ?thesis by (cases "x = None") (auto simp: read_end_def)
    qed
  qed
qed simp

lemma ReadEntries_inv:
  assumes "callback_inv I J entryOut" and "I s" and "ReadEntries mp sha entryOut el s = Some (Inr (err, el', s'))"
  shows "read_end I J err s'"
proof (cases "onDiskFile (reset_indices el)")
  case None
  with assms(3) show ?thesis using read_entries_inv [OF assms(1,2)] by (auto simp: ReadEntries_def Let_def)
next
  case (Some disk)
  show ?thesis
  proof (cases "DecodeString mp disk")
    case (Inl x)
    with assms(2,3) Some show ?thesis by (auto simp: ReadEntries_def Let_def read_end_def)
  next
    case (Inr p)
    obtain a b where "p = (a, b)" by force
    with assms(3) Some Inr have "read_disk mp sha (Suc (length b)) entryOut b (reset_indices el) s = Some (Inr (err, el', s'))"
      by (simp add: ReadEntries_def Let_def del: read_disk.simps)
    then show ?thesis by (rule read_disk_inv [OF assms(1,2)])
  qed
qed

lemma metadata_maker_cutting:
  assumes "CreateMetaDataChunkMaker hs (be_config be) msize = Inr mk" and "4 \<le> msize"
  shows "cutting be mk"
  using assms by (auto simp: cutting_def maker_inv_def buf_ok_def CreateMetaDataChunkMaker_def CreateFileChunkMaker_def
      startNewChunk_def bind_res_def holds_def Reset_def CreateChunk_def split: if_splits)

text \<open>The hashes of all chunks that a snapshot references.\<close>

definition refs :: "snapshot \<Rightarrow> bytes set" where
  "refs sn = set (FileSequence sn @ ChunkSequence sn @ LengthSequence sn @ ChunkHashes sn)"

text \<open>The chunks of the new list are chunks of the snapshot.\<close>

lemma append_chunk_hashes:
  "append_chunk s i us = Inr us' \<Longrightarrow> set (us_chunkHashes us') \<subseteq> set (us_chunkHashes us) \<union> set (ChunkHashes s)"
  by (auto simp: append_chunk_def index_slice_def bind_res_def split: sum.splits if_splits)

lemma append_loop_hashes:
  "append_loop s i j us = Inr us' \<Longrightarrow> set (us_chunkHashes us') \<subseteq> set (us_chunkHashes us) \<union> set (ChunkHashes s)"
proof (induction s i j us rule: append_loop.induct)
  case (1 s i j us)
  show ?case
  proof (cases "i \<le> j")
    case True
    with "1.prems" obtain u where u: "append_chunk s i us = Inr u" "append_loop s (i + 1) j u = Inr us'"
      by (subst (asm) append_loop.simps) (auto simp: bind_res_def split: sum.splits)
    with "1.IH" [OF True u(2)] append_chunk_hashes [OF u(1)] show ?thesis by blast
  next
    case False
    with "1.prems" show ?thesis by (simp add: append_loop.simps [of s i j])
  qed
qed

lemma uploadEntryInfo_hashes:
  assumes "uploadEntryInfo s e us = Inr (e', us')" and "set (us_chunkHashes us) \<subseteq> set (ChunkHashes s)"
  shows "set (us_chunkHashes us') \<subseteq> set (ChunkHashes s)"
proof (cases "IsFile e \<and> 0 < Size e")
  case True
  with assms(1) obtain u v d where u: "(if StartChunk e \<noteq> us_lastChunk us
         then bind_res (append_chunk s (StartChunk e) us) (\<lambda>us. Inr (StartChunk e - int (length (us_chunkHashes (us :: upload_state))), us))
         else Inr (d, us)) = Inr v \<or> append_chunk s (StartChunk e) us = Inr (snd v) \<or> snd v = us"
    and l: "append_loop s (StartChunk e + 1) (EndChunk e) (snd v) = Inr u" and us': "us_chunkHashes us' = us_chunkHashes u"
    and v: "append_chunk s (StartChunk e) us = Inr (snd v) \<or> snd v = us"
    by (auto simp: uploadEntryInfo_def upload_file_entry_def Let_def bind_res_def split: sum.splits if_splits prod.splits)
  have "set (us_chunkHashes (snd v)) \<subseteq> set (ChunkHashes s)" using v append_chunk_hashes assms(2) by blast
  then show ?thesis using append_loop_hashes [OF l] us' by auto
next
  case False
  with assms show ?thesis
    by (auto simp: uploadEntryInfo_def upload_link_entry_def bind_res_def Let_def split: sum.splits if_splits prod.splits)
qed

lemma chunk_dir_prefix: "chunk_file a f l = q @ CHR ''/'' # r \<Longrightarrow> q = ''chunks'' \<or> HasPrefix q chunkDir"
  by (auto simp: chunk_file_def chunkDir_def HasPrefix_def append_eq_Cons_conv Cons_eq_append_conv)

context storage_laws begin

definition present :: "string \<Rightarrow> 's \<Rightarrow> bool" where
  "present i s \<longleftrightarrow> stored_at i False s \<noteq> []"

text \<open>The chunks can be looked for, every file that was there at first, other than temporary ones, is
  still there, and outside of the directory of the chunks nothing is new.\<close>

definition preserves :: "string set \<Rightarrow> 's \<Rightarrow> 's \<Rightarrow> bool" where
  "preserves ids s0 s \<longleftrightarrow> (\<forall>j \<in> ids. ready j s) \<and> readLevels st s = readLevels st s0 \<and>
     writeLevel st s = writeLevel st s0 \<and>
     (\<forall>p b. content s0 p = Some b \<longrightarrow> \<not> HasSuffix p ''.tmp'' \<longrightarrow> content s p = Some b) \<and>
     (\<forall>p. \<not> HasPrefix p chunkDir \<longrightarrow> \<not> HasSuffix p ''.tmp'' \<longrightarrow> content s p = content s0 p) \<and>
     (\<forall>q. isdir s q \<longrightarrow> isdir s0 q \<or> q = ''chunks'' \<or> HasPrefix q chunkDir)"

lemma preserves_refl: "(\<forall>j \<in> ids. ready j s) \<Longrightarrow> preserves ids s s"
  by (simp add: preserves_def)

lemma preserves_trans: "preserves ids s0 s \<Longrightarrow> preserves ids s t \<Longrightarrow> preserves ids s0 t"
  by (simp add: preserves_def) blast

lemma preserves_present:
  assumes "preserves ids s0 s" and "i \<in> ids" and "ready i s0" and "present i s0"
  shows "present i s"
proof -
  from assms(4) obtain l where l: "l \<in> set (stored_at i False s0)" unfolding present_def by (cases "stored_at i False s0") auto
  then have lv: "l \<in> set (readLevels st s0)" "content s0 (chunk_file i False l) \<noteq> None" by (simp_all add: stored_at_def)
  then have "content s (chunk_file i False l) \<noteq> None"
    using assms(1) ready_path(3) [OF assms(3) lv(1)] by (auto simp: preserves_def)
  with assms(1) lv(1) have "l \<in> set (stored_at i False s)" by (simp add: stored_at_def preserves_def)
  then show ?thesis by (auto simp: present_def)
qed

text \<open>A new file is put where there was none.\<close>

lemma preserves_new_file:
  assumes pr: "preserves ids s0 s" and "content s0 p = None" and "\<not> HasSuffix p ''.tmp''" and "HasPrefix p chunkDir"
    and set: "settled st ok content s (if e = None then (content s)(p \<mapsto> b) else content s) s'"
    and dirs: "\<And>q. isdir s' q \<Longrightarrow> isdir s q \<or> (\<exists>a f l r. valid_id a \<and> chunk_file a f l = q @ CHR ''/'' # r)"
  shows "preserves ids s0 s'"
proof -
  have "ready j s'" if "j \<in> ids" for j
    using pr that by (intro settled_ready [OF _ set dirs]) (auto simp: preserves_def)
  moreover have "content s' q = Some c" if "content s0 q = Some c" "\<not> HasSuffix q ''.tmp''" for q c
  proof -
    have "q \<noteq> p" using that assms(2) by auto
    moreover have "content s q = Some c" using pr that by (simp add: preserves_def)
    ultimately show ?thesis using settled_files [OF set that(2)] by simp
  qed
  moreover have "content s' q = content s0 q" if "\<not> HasPrefix q chunkDir" "\<not> HasSuffix q ''.tmp''" for q
    using settled_files [OF set that(2)] pr that assms(4) by (auto simp: preserves_def)
  moreover have "isdir s0 q \<or> q = ''chunks'' \<or> HasPrefix q chunkDir" if "isdir s' q" for q
    using dirs [OF that] pr by (auto simp: preserves_def dest: chunk_dir_prefix)
  ultimately show ?thesis using pr settled_levels [OF set] by (simp add: preserves_def)
qed

lemma chunk_file_prefix [simp]: "HasPrefix (chunk_file i f l) chunkDir"
  by (simp add: chunk_file_def HasPrefix_def chunkDir_def)

text \<open>The state of the operator during an upload.\<close>

definition uploading :: "string set \<Rightarrow> 's \<Rightarrow> completion list \<Rightarrow> 's operator_state \<Rightarrow> bool" where
  "uploading ids s0 C w \<longleftrightarrow> preserves ids s0 (op_storage w) \<and> completed w = C"

lemma keeps_uploading [hoare]:
  "keeps (uploading ids s0 C) (on_cache m)" "keeps (uploading ids s0 C) next_entropy"
  using keeps_on_cache_both [of "\<lambda>s c. preserves ids s0 s \<and> c = C"] keeps_entropy_both [of "\<lambda>s c. preserves ids s0 s \<and> c = C"]
  by (simp_all add: uploading_def [abs_def])

lemma valid_FindChunk:
  assumes "i \<in> ids"
    and "\<And>p n. valid (\<lambda>w. uploading ids s0 C w \<and> present i (op_storage w)) (g (Inr (p, True, n))) Q E"
    and "\<And>p. p = chunk_file i False (writeLevel st s0) \<Longrightarrow>
      valid (\<lambda>w. uploading ids s0 C w \<and> content (op_storage w) p = None) (g (Inr (p, False, 0))) Q E"
  shows "valid (uploading ids s0 C) (bind_st (on_storage (FindChunk st i False)) g) Q E"
  unfolding valid_def
proof (intro allI impI)
  fix w assume w: "uploading ids s0 C w"
  let ?s = "op_storage w"
  from w assms(1) have r: "ready i ?s" and wl: "writeLevel st ?s = writeLevel st s0"
    by (auto simp: uploading_def preserves_def)
  show "case bind_st (on_storage (FindChunk st i False)) g w of (Inr x, t) \<Rightarrow> Q x t | (Inl e, t) \<Rightarrow> E t"
  proof (cases "stored_at i False ?s")
    case Nil
    then have "content ?s (chunk_file i False (writeLevel st s0)) = None"
      using write_level_in [OF r] wl by (auto simp: stored_at_def filter_empty_conv)
    moreover have "on_storage (FindChunk st i False) w = (Inr (Inr (chunk_file i False (writeLevel st s0), False, 0)), w)"
      using ready_FindChunk [OF r, of False] Nil wl by (simp add: on_storage_run)
    ultimately show ?thesis using assms(3) [OF refl] w by (simp add: bind_st_run valid_def)
  next
    case (Cons l ls)
    then have "present i ?s" by (simp add: present_def)
    moreover obtain n where
      "on_storage (FindChunk st i False) w = (Inr (Inr (chunk_file i False l, True, n)), w)"
      using ready_FindChunk [OF r, of False] Cons by (simp add: on_storage_run)
    ultimately show ?thesis using assms(2) w by (simp add: bind_st_run valid_def)
  qed
qed

lemma valid_UploadFile:
  assumes "i \<in> ids" and "p = chunk_file i False (writeLevel st s0)"
  shows "valid (\<lambda>w. uploading ids s0 C w \<and> content (op_storage w) p = None) (on_storage (UploadFile st p b))
    (\<lambda>e w. uploading ids s0 C w \<and> (e = None \<longrightarrow> present i (op_storage w))) (uploading ids s0 C)"
  unfolding valid_def
proof (intro allI impI)
  fix w assume w: "uploading ids s0 C w \<and> content (op_storage w) p = None"
  let ?s = "op_storage w"
  from w assms(1) have pr: "preserves ids s0 ?s" and r: "ready i ?s" and wl: "writeLevel st ?s = writeLevel st s0"
    by (auto simp: uploading_def preserves_def)
  note p = ready_path [OF r write_level_in [OF r], of False, unfolded wl, folded assms(2)]
  obtain x s' where s': "UploadFile st p b ?s = (Inr x, s')"
    "settled st ok content ?s (if x = None then (content ?s)(p \<mapsto> b) else content ?s) s'"
    "\<And>q. isdir s' q \<Longrightarrow> isdir ?s q \<or> (\<exists>r. p = q @ CHR ''/'' # r)"
    using upload_file [OF _ p] r unfolding ready_def by blast
  have new: "content s0 p = None"
    using pr w p(3) by (auto simp: preserves_def intro: ccontr)
  have "preserves ids s0 s'"
    using preserves_new_file [OF pr new p(3) _ s'(2)] s'(3) r assms(2) chunk_file_prefix unfolding ready_def by metis
  moreover have "present i s'" if "x = None"
  proof -
    have "content s' p = Some b" using settled_files [OF s'(2) p(3)] that by simp
    then have "writeLevel st ?s \<in> set (stored_at i False s')"
      using write_level_in [OF r] settled_levels [OF s'(2)] wl assms(2) by (simp add: stored_at_def)
    then show ?thesis by (auto simp: present_def)
  qed
  ultimately show "case on_storage (UploadFile st p b) w of
      (Inr e, t) \<Rightarrow> uploading ids s0 C t \<and> (e = None \<longrightarrow> present i (op_storage t)) | (Inl e, t) \<Rightarrow> uploading ids s0 C t"
    using w s'(1) by (simp add: on_storage_def zoom_def uploading_def)
qed

text \<open>After an upload the operator has reported the chunk, and the storage has it, except in a dry run.\<close>

definition uploaded ::
  "'s operator_env \<Rightarrow> string set \<Rightarrow> 's \<Rightarrow> completion list \<Rightarrow> string \<Rightarrow> bytes \<Rightarrow> int \<Rightarrow> nat \<Rightarrow> 's operator_state \<Rightarrow> bool" where
  "uploaded env ids s0 C i h idx sz w \<longleftrightarrow> preserves ids s0 (op_storage w) \<and>
     (\<not> dryRun (env_config env) \<longrightarrow> present i (op_storage w)) \<and>
     (\<exists>chunk' n. completed w = C @ [(chunk', idx, False, sz, n)] \<and> has_hash env chunk' h)"

lemma valid_complete:
  assumes "has_hash env chunk' h"
  shows "valid (\<lambda>w. uploading ids s0 C w \<and> (\<not> dryRun (env_config env) \<longrightarrow> present i (op_storage w)))
    (bind_st (complete_upload chunk' idx sz n) (\<lambda>_. return_st b)) (\<lambda>_. uploaded env ids s0 C i h idx sz) (uploading ids s0 C)"
  unfolding complete_upload_def
  by (rule valid_bind_modify [where R = "uploaded env ids s0 C i h idx sz"])
     (use assms in \<open>auto simp: uploading_def uploaded_def intro: triple\<close>)

lemma valid_UploadChunk:
  assumes st: "env_storage env = st" and i: "task_chunkID task \<in> ids" and h: "has_hash env chunk h"
  shows "valid (uploading ids s0 C) (UploadChunk env task chunk)
    (\<lambda>_. uploaded env ids s0 C (task_chunkID task) h (task_chunkIndex task) (GetLength chunk)) (uploading ids s0 C)"
proof -
  let ?I = "uploading ids s0 C" and ?id = "task_chunkID task"
  let ?Q = "\<lambda>(_ :: bool). uploaded env ids s0 C ?id h (task_chunkIndex task) (GetLength chunk)"
  have cached: "keeps ?I (if b then upload_cached env ?id c else return_st ())" for b c
    by (auto simp: upload_cached_def intro!: hoare split: sum.splits bool.splits)
  have upload: "valid (\<lambda>w. ?I w \<and> content (op_storage w) p = None)
      (if dryRun (env_config env) then return_st None
       else bind_st (lift_res (GetBytes c)) (\<lambda>encrypted. on_storage (UploadFile st p encrypted)))
      (\<lambda>err w. ?I w \<and> (err = None \<longrightarrow> \<not> dryRun (env_config env) \<longrightarrow> present ?id (op_storage w))) ?I"
    if p: "p = chunk_file ?id False (writeLevel st s0)" for c p
    by (rule valid_if, rule valid_return, simp, rule valid_bind_lift, rule valid_weaken [OF valid_UploadFile [OF i p]]) auto
  have entropy: "keeps (\<lambda>w. ?I w \<and> content (op_storage w) p = None) next_entropy" for p
    using keeps_entropy_both [of "\<lambda>s c. preserves ids s0 s \<and> c = C \<and> content s p = None"]
    by (simp add: uploading_def conj_assoc)
  have rest: "valid (\<lambda>w. ?I w \<and> content (op_storage w) p = None)
      (bind_st (if dryRun (env_config env) then return_st None
                else bind_st (lift_res (GetBytes c)) (\<lambda>encrypted. on_storage (UploadFile st p encrypted))) (\<lambda>err.
         if err \<noteq> None then raise_st (LogError ''UPLOAD_CHUNK'')
         else bind_st (complete_upload c (task_chunkIndex task) (GetLength chunk) (GetLength c)) (\<lambda>_. return_st True))) ?Q ?I"
    if p: "p = chunk_file ?id False (writeLevel st s0)" and c: "has_hash env c h" for p c
    by (rule valid_bind [OF upload [OF p]], rule valid_if, rule valid_raise, simp, rule valid_pre [OF valid_complete [OF c]]) auto
  have missing: "valid (\<lambda>w. ?I w \<and> content (op_storage w) p = None)
      (bind_st (op_GetHash env c) (\<lambda>(hash, chunk'').
       bind_st (op_Encrypt env (ChunkKey (env_config env)) hash (task_isMetadata task) chunk'') (\<lambda>(err, chunk').
         if err \<noteq> None then raise_st (LogError ''UPLOAD_CHUNK'')
         else
           bind_st (if dryRun (env_config env) then return_st None
                    else bind_st (lift_res (GetBytes chunk')) (\<lambda>encrypted. on_storage (UploadFile st p encrypted))) (\<lambda>err.
             if err \<noteq> None then raise_st (LogError ''UPLOAD_CHUNK'')
             else bind_st (complete_upload chunk' (task_chunkIndex task) (GetLength chunk) (GetLength chunk')) (\<lambda>_.
               return_st True))))) ?Q ?I"
    if p: "p = chunk_file ?id False (writeLevel st s0)" and c: "has_hash env c h" for p c
    unfolding op_GetHash_def op_Encrypt_def bind_st_assoc
    by (rule valid_bind_lift, rule valid_case(1), rule valid_bind_keeps [OF entropy], simp,
        rule valid_bind_lift, rule valid_case(1), rule valid_if, rule valid_raise, simp, rule rest [OF p])
       (use c has_hash_again [OF c] has_hash_GetHash [OF c] has_hash_Encrypt in \<open>auto simp del: has_hash_buffer\<close>)
  have found: "valid ?I (bind_st (on_storage (FindChunk st ?id False)) (\<lambda>r.
        case r of
          Inl err \<Rightarrow> raise_st (LogError ''UPLOAD_CHUNK'')
        | Inr (chunkPath, True, _) \<Rightarrow>
            bind_st (complete_upload c (task_chunkIndex task) (GetLength chunk) 0) (\<lambda>_. return_st False)
        | Inr (chunkPath, False, _) \<Rightarrow>
            bind_st (op_GetHash env c) (\<lambda>(hash, chunk'').
            bind_st (op_Encrypt env (ChunkKey (env_config env)) hash (task_isMetadata task) chunk'') (\<lambda>(err, chunk').
              if err \<noteq> None then raise_st (LogError ''UPLOAD_CHUNK'')
              else
                bind_st (if dryRun (env_config env) then return_st None
                         else bind_st (lift_res (GetBytes chunk')) (\<lambda>encrypted.
                           on_storage (UploadFile st chunkPath encrypted))) (\<lambda>err.
                  if err \<noteq> None then raise_st (LogError ''UPLOAD_CHUNK'')
                  else bind_st (complete_upload chunk' (task_chunkIndex task) (GetLength chunk) (GetLength chunk')) (\<lambda>_.
                    return_st True)))))) ?Q ?I" if c: "has_hash env c h" for c
    by (rule valid_FindChunk [OF i]) (simp, rule valid_pre [OF valid_complete [OF c]], simp, simp only: sum.case prod.case bool.case, rule missing [OF _ c], rule refl)
  show ?thesis
    unfolding UploadChunk_def Let_def st
  proof (rule valid_bind [where Q = "\<lambda>c w. ?I w \<and> has_hash env c h"])
    show "valid ?I (if task_isMetadata task then lift_res (VerifyID (rt_hashes (env_runtime env)) (env_config env) chunk)
        else return_st chunk) (\<lambda>c w. ?I w \<and> has_hash env c h) ?I"
      by (rule valid_if, rule valid_lift, use h has_hash_VerifyID [OF h] in \<open>auto intro: triple\<close>)
  next
    fix c
    show "valid (\<lambda>w. ?I w \<and> has_hash env c h)
        (bind_st (get_st (\<lambda>w. snapshotCache w \<noteq> None \<and> IsCacheNeeded st (op_storage w))) (\<lambda>caching.
         bind_st (if task_isMetadata task \<and> caching then upload_cached env ?id c else return_st ()) (\<lambda>_.
         bind_st (on_storage (FindChunk st ?id False)) (\<lambda>r.
          case r of
            Inl err \<Rightarrow> raise_st (LogError ''UPLOAD_CHUNK'')
          | Inr (chunkPath, True, _) \<Rightarrow>
              bind_st (complete_upload c (task_chunkIndex task) (GetLength chunk) 0) (\<lambda>_. return_st False)
          | Inr (chunkPath, False, _) \<Rightarrow>
              bind_st (op_GetHash env c) (\<lambda>(hash, chunk'').
              bind_st (op_Encrypt env (ChunkKey (env_config env)) hash (task_isMetadata task) chunk'') (\<lambda>(err, chunk').
                if err \<noteq> None then raise_st (LogError ''UPLOAD_CHUNK'')
                else
                  bind_st (if dryRun (env_config env) then return_st None
                           else bind_st (lift_res (GetBytes chunk')) (\<lambda>encrypted.
                             on_storage (UploadFile st chunkPath encrypted))) (\<lambda>err.
                    if err \<noteq> None then raise_st (LogError ''UPLOAD_CHUNK'')
                    else bind_st (complete_upload chunk' (task_chunkIndex task) (GetLength chunk) (GetLength chunk')) (\<lambda>_.
                      return_st True)))))))) ?Q ?I"
    proof (cases "has_hash env c h")
      case True
      show ?thesis
        by (rule valid_pre [where P = ?I], rule valid_bind_get, rule valid_pre [where P = ?I],
            rule valid_bind_keeps [OF cached], assumption, rule found [OF True]) simp_all
    qed (simp add: valid_def)
  qed
qed

definition hash_stored :: "'s operator_env \<Rightarrow> 's \<Rightarrow> bytes \<Rightarrow> bool" where
  "hash_stored env s h \<longleftrightarrow> (\<exists>i. hash_id env h i \<and> present i s)"

lemma valid_Upload:
  assumes st: "env_storage env = st" and ids: "all_ids env \<subseteq> ids"
  shows "valid (uploading ids s0 C) (Upload env chunk idx m)
    (\<lambda>_ w. \<exists>h i. has_hash env chunk h \<and> hash_id env h i \<and> uploaded env ids s0 C i h idx (GetLength chunk) w)
    (uploading ids s0 C)"
  unfolding Upload_def op_GetHash_def
proof (rule valid_bind_lift, rule valid_case(1), rule valid_bind_lift)
  fix r h c i
  assume "GetHash (rt_hashes (env_runtime env)) (env_config env) chunk = Inr r" "r = (h, c)"
    and "GetChunkIDFromHash (rt_hashes (env_runtime env)) (env_config env) h = Inr i"
  then have h: "has_hash env chunk h" "c = chunk\<lparr>chunk_hash := h\<rparr>" and i: "hash_id env h i"
    using GetHash_fields by (auto simp: has_hash_def hash_id_def)
  have l: "GetLength c = GetLength chunk" by (simp add: h(2) GetLength_def cong: option.case_cong)
  from i ids have "i \<in> ids" by (auto simp: all_ids_def)
  then have "valid (uploading ids s0 C) (UploadChunk env \<lparr>operation = ChunkOperationUpload, task_chunkID = i,
      task_chunkHash = h, task_chunkIndex = idx, task_filePath = [], task_isMetadata = m, task_chunk = Some c\<rparr> c)
      (\<lambda>_. uploaded env ids s0 C i h idx (GetLength chunk)) (uploading ids s0 C)"
    using valid_UploadChunk [OF st, of "\<lparr>operation = ChunkOperationUpload, task_chunkID = i,
      task_chunkHash = h, task_chunkIndex = idx, task_filePath = [], task_isMetadata = m, task_chunk = Some c\<rparr>" ids c h s0 C]
      has_hash_again [OF h(1)] h(2) l by simp
  then show "valid (uploading ids s0 C)
      (bind_st (Run env \<lparr>operation = ChunkOperationUpload, task_chunkID = i, task_chunkHash = h, task_chunkIndex = idx,
         task_filePath = [], task_isMetadata = m, task_chunk = Some c\<rparr>) (\<lambda>_. return_st ()))
      (\<lambda>_ w. \<exists>h i. has_hash env chunk h \<and> hash_id env h i \<and> uploaded env ids s0 C i h idx (GetLength chunk) w)
      (uploading ids s0 C)"
    unfolding Run_def task.select_convs operation.case option.case bind_st_assoc st_simps
    by (rule valid_bind) (rule valid_return, use h(1) i in blast)
qed simp_all

text \<open>The same with the completions delivered.\<close>

lemma valid_upload_completed:
  assumes "env_storage env = st" and "all_ids env \<subseteq> ids"
  shows "valid (\<lambda>w. preserves ids s0 (op_storage w)) (upload_completed env chunk idx m)
    (\<lambda>cs w. preserves ids s0 (op_storage w) \<and> (\<exists>h i chunk' n. has_hash env chunk h \<and> hash_id env h i \<and>
       (\<not> dryRun (env_config env) \<longrightarrow> present i (op_storage w)) \<and> cs = [(chunk', idx, False, GetLength chunk, n)] \<and>
       has_hash env chunk' h))
    (\<lambda>w. preserves ids s0 (op_storage w))"
  unfolding valid_def
proof (intro allI impI)
  fix w :: "'s operator_state" assume w: "preserves ids s0 (op_storage w)"
  obtain r t where u: "Upload env chunk idx m w = (r, t)" by force
  note v = validD [OF valid_Upload [OF assms, of s0 "completed w" chunk idx m], of w, unfolded uploading_def, OF conjI [OF w refl]]
  show "case upload_completed env chunk idx m w of
      (Inr cs, w) \<Rightarrow> preserves ids s0 (op_storage w) \<and> (\<exists>h i chunk' n. has_hash env chunk h \<and> hash_id env h i \<and>
         (\<not> dryRun (env_config env) \<longrightarrow> present i (op_storage w)) \<and> cs = [(chunk', idx, False, GetLength chunk, n)] \<and>
         has_hash env chunk' h)
    | (Inl e, w) \<Rightarrow> preserves ids s0 (op_storage w)"
  proof (cases r)
    case (Inl e)
    with v(2) u show ?thesis by (simp add: upload_completed_def bind_st_run)
  next
    case (Inr x)
    with v(1) u show ?thesis by (fastforce simp: upload_completed_def bind_st_run uploaded_def)
  qed
qed

section \<open>The files and the sequences\<close>

text \<open>What is known to be stored while files are uploaded: the chunks in the cache, and the uploaded and the
  preserved ones.\<close>

definition all_stored :: "'s operator_env \<Rightarrow> 's \<Rightarrow> bytes set \<Rightarrow> string set \<Rightarrow> bool" where
  "all_stored env s hs ids \<longleftrightarrow> \<not> dryRun (env_config env) \<longrightarrow> (\<forall>h \<in> hs. hash_stored env s h) \<and> (\<forall>i \<in> ids. present i s)"

lemma all_stored_mono:
  assumes "all_stored env s hs is" and "preserves ids s t" and "all_ids env \<subseteq> ids" and "is \<subseteq> ids"
    and "\<forall>i \<in> ids. ready i s"
  shows "all_stored env t hs is"
  using assms unfolding all_stored_def hash_stored_def all_ids_def by (blast intro: preserves_present)

lemma all_stored_more:
  "all_stored env s hs is \<Longrightarrow> hash_id env h i \<Longrightarrow> (\<not> dryRun (env_config env) \<longrightarrow> present i s) \<Longrightarrow>
     all_stored env s (insert h hs) (insert i is)"
  by (auto simp: all_stored_def hash_stored_def)

lemma valid_upload_stored:
  assumes st: "env_storage env = st" and ids: "all_ids env \<subseteq> ids" and "is \<subseteq> ids"
  shows "valid (\<lambda>w. preserves ids s0 (op_storage w) \<and> all_stored env (op_storage w) hs is)
    (upload_completed env chunk idx m)
    (\<lambda>cs w. preserves ids s0 (op_storage w) \<and> (\<exists>h i chunk' n. has_hash env chunk h \<and> hash_id env h i \<and>
       all_stored env (op_storage w) (insert h hs) (insert i is) \<and>
       cs = [(chunk', idx, False, GetLength chunk, n)] \<and> has_hash env chunk' h))
    (\<lambda>w. preserves ids s0 (op_storage w))"
proof (rule valid_state)
  fix w0 :: "'s operator_state"
  assume w0: "preserves ids s0 (op_storage w0) \<and> all_stored env (op_storage w0) hs is"
  then have r: "\<forall>i \<in> ids. ready i (op_storage w0)" by (simp add: preserves_def)
  note mono = all_stored_mono [OF conjunct2 [OF w0] _ ids assms(3) r]
  show "valid (\<lambda>s. s = w0) (upload_completed env chunk idx m)
    (\<lambda>cs w. preserves ids s0 (op_storage w) \<and> (\<exists>h i chunk' n. has_hash env chunk h \<and> hash_id env h i \<and>
       all_stored env (op_storage w) (insert h hs) (insert i is) \<and>
       cs = [(chunk', idx, False, GetLength chunk, n)] \<and> has_hash env chunk' h))
    (\<lambda>w. preserves ids s0 (op_storage w))"
  proof (rule valid_weaken [OF valid_upload_completed [OF st ids, of "op_storage w0" chunk idx m]], goal_cases)
    case (1 s)
    then show ?case using preserves_refl [OF r] by simp
  next
    case (2 cs w)
    then show ?case using w0 preserves_trans mono all_stored_more by metis
  next
    case (3 w)
    then show ?case using w0 preserves_trans by metis
  qed
qed

text \<open>The state while metadata is uploaded: \<open>hs\<close> are the hashes of the chunks that were uploaded before.\<close>

definition meta_inv ::
  "'s backup_env \<Rightarrow> string set \<Rightarrow> 's \<Rightarrow> bytes set \<Rightarrow> 's snapshot_upload \<Rightarrow> bool" where
  "meta_inv be ids s0 hs su \<longleftrightarrow> preserves ids s0 (op_storage (su_operator su)) \<and> set (su_chunkCache su) \<subseteq> ids \<and>
     all_stored (be_operator be) (op_storage (su_operator su)) (hs \<union> set (su_chunkSequence su)) (set (su_chunkCache su))"

definition meta_kept :: "string set \<Rightarrow> 's \<Rightarrow> 's snapshot_upload \<Rightarrow> bool" where
  "meta_kept ids s0 su \<longleftrightarrow> preserves ids s0 (op_storage (su_operator su))"

lemma meta_kept: "meta_inv be ids s0 hs su \<Longrightarrow> meta_kept ids s0 su"
  by (simp add: meta_inv_def meta_kept_def)

text \<open>Statements that do not touch what the invariant is about.\<close>

lemma meta_inv_updates [simp]:
  "meta_inv be ids s0 hs (su\<lparr>su_maker := mk\<rparr>) = meta_inv be ids s0 hs su"
  "meta_inv be ids s0 hs (su\<lparr>su_entries := us\<rparr>) = meta_inv be ids s0 hs su"
  "meta_inv be ids s0 hs (su\<lparr>su_counts := c\<rparr>) = meta_inv be ids s0 hs su"
  "meta_inv be ids s0 hs (su\<lparr>su_chunkIndex := i\<rparr>) = meta_inv be ids s0 hs su"
  "meta_inv be ids s0 hs (su\<lparr>su_failure := x\<rparr>) = meta_inv be ids s0 hs su"
  by (simp_all add: meta_inv_def)

lemma meta_inv_complete: "keeps (meta_inv be ids s0 hs) (complete_metadata c)"
  unfolding complete_metadata_def by (intro hoare keeps_modify) simp

lemma valid_metadata_chunk:
  assumes st: "env_storage (be_operator be) = st" and ids: "all_ids (be_operator be) \<subseteq> ids" and fresh: "chunk_id chunk = []"
  shows "valid (meta_inv be ids s0 hs) (upload_metadata_chunk be chunk) (\<lambda>_. meta_inv be ids s0 hs) (meta_kept ids s0)"
  unfolding upload_metadata_chunk_def op_GetHash_def op_GetID_def
proof (rule valid_bind_lift, rule valid_case(1), rule valid_bind_lift, rule valid_case(1))
  let ?env = "be_operator be"
  fix r h c r2 i d
  assume "GetHash (rt_hashes (env_runtime ?env)) (env_config ?env) chunk = Inr r" "r = (h, c)"
    and g: "GetID (rt_hashes (env_runtime ?env)) (env_config ?env) c = Inr r2" "r2 = (i, d)"
  then have h: "has_hash ?env chunk h" "c = chunk\<lparr>chunk_hash := h\<rparr>" using GetHash_fields by (auto simp: has_hash_def)
  then have c: "has_hash ?env c h" "chunk_id c = []" using has_hash_again fresh by auto
  with g have i: "hash_id ?env h i" and d: "has_hash ?env d h" using GetID_hash_id has_hash_GetID by blast+
  have iids: "i \<in> ids" using i ids by (auto simp: all_ids_def)
  let ?I = "meta_inv be ids s0 (insert h hs)"
  have last: "valid ?I (modify_st (\<lambda>su. su\<lparr>su_chunkSequence := su_chunkSequence su @ [h]\<rparr>)) (\<lambda>_. meta_inv be ids s0 hs) (meta_kept ids s0)"
    by (rule valid_modify) (simp add: meta_inv_def insert_commute)
  have new: "valid (meta_inv be ids s0 hs) (bind_st (modify_st (\<lambda>su. su\<lparr>su_chunkCache := i # su_chunkCache su\<rparr>)) (\<lambda>_.
          bind_st (on_upload (upload_completed ?env d idx True)) (\<lambda>cs. for_each cs complete_metadata))) (\<lambda>_. ?I) (meta_kept ids s0)"
    for idx
  proof (rule valid_bind_modify)
    let ?R = "\<lambda>su. \<exists>cs. su_chunkCache su = i # cs \<and> set cs \<subseteq> ids \<and> preserves ids s0 (op_storage (su_operator su)) \<and>
      all_stored ?env (op_storage (su_operator su)) (hs \<union> set (su_chunkSequence su)) (set cs)"
    show "?R (su\<lparr>su_chunkCache := i # su_chunkCache su\<rparr>)" if "meta_inv be ids s0 hs su" for su
      using that by (simp add: meta_inv_def)
    have "valid ?R (on_upload (upload_completed ?env d idx True)) (\<lambda>_. ?I) (meta_kept ids s0)"
      unfolding on_upload_def
    proof (rule valid_zoom [where P' = "\<lambda>su w. preserves ids s0 (op_storage w) \<and>
          all_stored ?env (op_storage w) (hs \<union> set (su_chunkSequence su)) (set (tl (su_chunkCache su)))"])
      fix su :: "'s snapshot_upload"
      assume "?R su"
      then have "set (tl (su_chunkCache su)) \<subseteq> ids" by auto
      then show "valid (\<lambda>w. preserves ids s0 (op_storage w) \<and>
          all_stored ?env (op_storage w) (hs \<union> set (su_chunkSequence su)) (set (tl (su_chunkCache su))))
          (upload_completed ?env d idx True)
          (\<lambda>_ w. preserves ids s0 (op_storage w) \<and>
            all_stored ?env (op_storage w) (insert h (hs \<union> set (su_chunkSequence su))) (insert i (set (tl (su_chunkCache su)))))
          (\<lambda>w. preserves ids s0 (op_storage w))"
        using has_hash_unique [OF d] hash_id_unique [OF i]
        by (intro valid_weaken [OF valid_upload_stored [OF st ids]]) blast+
    qed (use iids in \<open>auto simp: meta_inv_def meta_kept_def\<close>)
    then show "valid ?R (bind_st (on_upload (upload_completed ?env d idx True)) (\<lambda>cs. for_each cs complete_metadata))
        (\<lambda>_. ?I) (meta_kept ids s0)"
      by (rule valid_bind)
        (rule valid_weaken [OF valid_keeps [OF keeps_for_each [OF meta_inv_complete]]], auto simp: meta_kept)
  qed
  have known: "?I su" if "meta_inv be ids s0 hs su" "i \<in> set (su_chunkCache su)" for su
    using that i by (auto simp: meta_inv_def all_stored_def hash_stored_def)
  show "valid (meta_inv be ids s0 hs)
      (bind_st (modify_st (\<lambda>su. su\<lparr>su_chunkIndex := su_chunkIndex su + 1, su_counts := su_counts su
         \<lparr>totalMetadataChunkSize := totalMetadataChunkSize (su_counts su) + int (GetLength d)\<rparr>\<rparr>)) (\<lambda>_.
       bind_st (get_st su_chunkIndex) (\<lambda>chunkIndex.
       bind_st (get_st (\<lambda>su. i \<in> set (su_chunkCache su))) (\<lambda>found.
       bind_st
         (if found then complete_metadata (d, chunkIndex, True, GetLength d, 0)
          else
            bind_st (modify_st (\<lambda>su. su\<lparr>su_chunkCache := i # su_chunkCache su\<rparr>)) (\<lambda>_.
            bind_st (on_upload (upload_completed ?env d chunkIndex True)) (\<lambda>cs.
              for_each cs complete_metadata))) (\<lambda>_.
         modify_st (\<lambda>su. su\<lparr>su_chunkSequence := su_chunkSequence su @ [h]\<rparr>))))))
      (\<lambda>_. meta_inv be ids s0 hs) (meta_kept ids s0)"
  proof (rule valid_bind_modify [where R = "meta_inv be ids s0 hs"], simp, rule valid_bind_get, rule valid_bind_get,
      rule valid_bind [OF _ last], rule valid_if)
    fix idx found
    assume found
    show "valid (\<lambda>s. (meta_inv be ids s0 hs s \<and> idx = su_chunkIndex s) \<and> found = (i \<in> set (su_chunkCache s)))
      (complete_metadata (d, idx, True, GetLength d, 0)) (\<lambda>_. ?I) (meta_kept ids s0)"
      by (rule valid_weaken [OF valid_keeps [OF meta_inv_complete]]) (use \<open>found\<close> known in \<open>auto simp: meta_kept\<close>)
  next
    fix idx found
    show "valid (\<lambda>s. (meta_inv be ids s0 hs s \<and> idx = su_chunkIndex s) \<and> found = (i \<in> set (su_chunkCache s)))
      (bind_st (modify_st (\<lambda>su. su\<lparr>su_chunkCache := i # su_chunkCache su\<rparr>)) (\<lambda>_.
            bind_st (on_upload (upload_completed ?env d idx True)) (\<lambda>cs.
              for_each cs complete_metadata))) (\<lambda>_. ?I) (meta_kept ids s0)"
      by (rule valid_pre [OF new]) simp
  qed
qed (simp_all add: meta_kept)

section \<open>The metadata\<close>

text \<open>The setting: the storage of the operator is the one of the laws, and the chunk ids can be looked for.\<close>

definition backup_ok :: "'s backup_env \<Rightarrow> string set \<Rightarrow> bool" where
  "backup_ok be ids \<longleftrightarrow> env_storage (be_operator be) = st \<and> all_ids (be_operator be) \<subseteq> ids \<and>
     ids \<noteq> {} \<and> \<not> rewriteChunks (be_operator be) \<and> (\<forall>p r. be_open be p = Inr r \<longrightarrow> clean r)"

text \<open>Sending a chunk leaves the other variables alone.\<close>

lemma keeps_metadata_chunk:
  "keeps (\<lambda>su. R (su_maker su) (su_entries su) (su_failure su)) (upload_metadata_chunk be chunk)"
  unfolding upload_metadata_chunk_def op_GetHash_def op_GetID_def complete_metadata_def on_upload_def
  by (intro hoare keeps_modify keeps_zoom [where R = "\<lambda>_. True"] | simp add: keeps_def [of "\<lambda>_. True"])+

lemma valid_add_metadata:
  assumes ok: "backup_ok be ids" and rd: "\<And>r. rd = Some r \<Longrightarrow> clean r"
  shows "valid (\<lambda>su. (meta_inv be ids s0 hs su \<and> cutting be (su_maker su)) \<and> R (su_entries su) (su_failure su)) (add_metadata be rd)
    (\<lambda>_ su. (meta_inv be ids s0 hs su \<and> (rd \<noteq> None \<longrightarrow> cutting be (su_maker su))) \<and> R (su_entries su) (su_failure su)) (meta_kept ids s0)"
  unfolding add_metadata_def
proof (rule valid_bind [OF valid_add_data [where J = "\<lambda>su. meta_inv be ids s0 hs su \<and>
    ((rd \<noteq> None \<longrightarrow> cutting be (su_maker su)) \<and> R (su_entries su) (su_failure su))"]], goal_cases)
  case (4 chunk)
  then show ?case
    using valid_conj [OF valid_metadata_chunk [of be ids chunk s0 hs] keeps_metadata_chunk [of "\<lambda>m e f. (rd \<noteq> None \<longrightarrow> cutting be m) \<and> R e f"]]
      ok by (simp add: backup_ok_def)
qed (use rd in \<open>auto intro!: valid_return\<close>)

definition listing_inv :: "'s backup_env \<Rightarrow> string set \<Rightarrow> 's \<Rightarrow> bytes set \<Rightarrow> snapshot \<Rightarrow> 's snapshot_upload \<Rightarrow> bool" where
  "listing_inv be ids s0 hs s su \<longleftrightarrow> (meta_inv be ids s0 hs su \<and> cutting be (su_maker su)) \<and>
     (set (us_chunkHashes (su_entries su)) \<subseteq> set (ChunkHashes s) \<and> su_failure su = None)"

lemma listing_kept: "listing_inv be ids s0 hs s su \<Longrightarrow> meta_kept ids s0 su"
  by (auto simp: listing_inv_def intro: meta_kept)

lemma valid_upload_entry:
  assumes "backup_ok be ids"
  shows "valid (listing_inv be ids s0 hs s) (upload_entry be s e) (\<lambda>_. listing_inv be ids s0 hs s) (meta_kept ids s0)"
proof -
  have bytes: "valid (listing_inv be ids s0 hs s) (add_metadata be (Some [(bs, None)])) (\<lambda>_. listing_inv be ids s0 hs s) (meta_kept ids s0)" for bs
    using valid_add_metadata [OF assms, of "Some [(bs, None)]" s0 hs
      "\<lambda>us f. set (us_chunkHashes us) \<subseteq> set (ChunkHashes s) \<and> f = None"]
    by (simp add: listing_inv_def [abs_def])
  have set_entries: "set (us_chunkHashes us) \<subseteq> set (ChunkHashes s) \<Longrightarrow> listing_inv be ids s0 hs s su \<Longrightarrow>
      listing_inv be ids s0 hs s (su\<lparr>su_entries := us\<rparr>)" for us su
    by (simp add: listing_inv_def)
  have next_entry: "valid (listing_inv be ids s0 hs s) (bind_st (modify_st (\<lambda>su. su\<lparr>su_entries := us\<rparr>)) (\<lambda>_.
       case EncodeMsgpack (be_msgpack be) d [] of
         Inl err \<Rightarrow> raise_st (LogError ''SNAPSHOT_UPLOAD'')
       | Inr bs \<Rightarrow> add_metadata be (Some [(bs, None)]))) (\<lambda>_. listing_inv be ids s0 hs s) (meta_kept ids s0)"
    if "set (us_chunkHashes us) \<subseteq> set (ChunkHashes s)" for us d
    by (rule valid_bind_modify [where R = "listing_inv be ids s0 hs s"])
       (use that set_entries in \<open>auto intro!: triple bytes intro: listing_kept\<close>)
  show ?thesis
    unfolding upload_entry_def valid_def
  proof (intro allI impI)
    fix su assume su: "listing_inv be ids s0 hs s su"
    show "case bind_st (get_st su_entries) (\<lambda>us. bind_st (lift_res (uploadEntryInfo s e us)) (\<lambda>(e, us).
        bind_st (modify_st (\<lambda>su. su\<lparr>su_entries := us\<rparr>)) (\<lambda>_. case EncodeMsgpack (be_msgpack be) e [] of
           Inl err \<Rightarrow> raise_st (LogError ''SNAPSHOT_UPLOAD'') | Inr bs \<Rightarrow> add_metadata be (Some [(bs, None)])))) su of
      (Inr x, t) \<Rightarrow> listing_inv be ids s0 hs s t | (Inl e, t) \<Rightarrow> meta_kept ids s0 t"
    proof (cases "uploadEntryInfo s e (su_entries su)")
      case (Inl x)
      then show ?thesis using listing_kept [OF su] by simp
    next
      case (Inr p)
      obtain d us where p: "p = (d, us)" by force
      with Inr su have "set (us_chunkHashes us) \<subseteq> set (ChunkHashes s)"
        using uploadEntryInfo_hashes by (auto simp: listing_inv_def)
      from next_entry [OF this, of d] su show ?thesis by (simp add: Inr p valid_def)
    qed
  qed
qed

lemma valid_upload_list:
  assumes "backup_ok be ids"
  shows "valid (listing_inv be ids s0 hs s) (upload_list be s el) (\<lambda>_. listing_inv be ids s0 hs s) (meta_kept ids s0)"
  unfolding valid_def
proof (intro allI impI)
  fix su assume su: "listing_inv be ids s0 hs s su"
  have cb: "callback_inv (listing_inv be ids s0 hs s) (meta_kept ids s0) (upload_callback be s)"
    unfolding callback_inv_def
  proof (intro allI impI)
    fix e su err su'
    assume "listing_inv be ids s0 hs s su" "upload_callback be s e su = Inr (err, su')"
    with validD [OF valid_upload_entry [OF assms, of s0 hs s e]] 
    show "if err = None then listing_inv be ids s0 hs s su' else meta_kept ids s0 su'"
      by (auto simp: upload_callback_def meta_kept_def split: prod.splits sum.splits)
  qed
  have "meta_kept ids s0 su" using su by (rule listing_kept)
  with ReadEntries_inv [OF cb su] show "case upload_list be s el su of
      (Inr x, t) \<Rightarrow> listing_inv be ids s0 hs s t | (Inl e, t) \<Rightarrow> meta_kept ids s0 t"
    by (fastforce simp: upload_list_def read_end_def listing_kept split: option.splits sum.splits prod.splits if_splits)
qed

text \<open>The sequences: \<open>hs\<close> are the hashes of all chunks that were uploaded before.\<close>

definition meta_known :: "'s backup_env \<Rightarrow> string set \<Rightarrow> 's \<Rightarrow> bytes set \<Rightarrow> 's snapshot_upload \<Rightarrow> bool" where
  "meta_known be ids s0 hs su \<longleftrightarrow> meta_inv be ids s0 hs (su\<lparr>su_chunkSequence := []\<rparr>)"

lemma meta_known_inv: "meta_inv be ids s0 hs su \<Longrightarrow> meta_known be ids s0 (hs \<union> set (su_chunkSequence su)) su"
  by (simp add: meta_known_def meta_inv_def)

lemma meta_known_kept: "meta_known be ids s0 hs su \<Longrightarrow> meta_kept ids s0 su"
  by (simp add: meta_known_def meta_inv_def meta_kept_def)

lemma meta_known_subset: "meta_known be ids s0 hs su \<Longrightarrow> hs' \<subseteq> hs \<Longrightarrow> meta_known be ids s0 hs' su"
  by (auto simp: meta_known_def meta_inv_def all_stored_def)

lemma valid_upload_sequence:
  assumes ok: "backup_ok be ids" and sz: "4 \<le> msize"
  shows "valid (meta_known be ids s0 hs) (upload_sequence be msize ty sn)
    (\<lambda>sn' su. \<exists>seq. sn' = SetSequence ty seq sn \<and> meta_known be ids s0 (hs \<union> set seq) su) (meta_kept ids s0)"
proof -
  let ?M = "\<lambda>su. meta_inv be ids s0 hs su"
  have data: "valid (\<lambda>su. ?M su \<and> cutting be (su_maker su)) (add_metadata be rd)
      (\<lambda>_ su. ?M su \<and> (rd \<noteq> None \<longrightarrow> cutting be (su_maker su))) (meta_kept ids s0)" if "\<And>r. rd = Some r \<Longrightarrow> clean r" for rd
    using valid_add_metadata [OF ok that, of rd s0 hs "\<lambda>_ _. True"] by simp
  have flush: "valid (\<lambda>su. ?M su \<and> cutting be (su_maker su))
      (bind_st (add_metadata be None) (\<lambda>_. get_st (\<lambda>su. SetSequence ty (su_chunkSequence su) sn)))
      (\<lambda>sn' su. \<exists>seq. sn' = SetSequence ty seq sn \<and> meta_known be ids s0 (hs \<union> set seq) su) (meta_kept ids s0)"
    by (rule valid_bind [OF data [of None, simplified]], rule valid_get) (use meta_known_inv in blast)
  have body: "valid (\<lambda>su. ?M su \<and> cutting be (su_maker su))
      (bind_st (add_metadata be (Some [(c, None)])) (\<lambda>_. bind_st (add_metadata be None) (\<lambda>_.
         get_st (\<lambda>su. SetSequence ty (su_chunkSequence su) sn))))
      (\<lambda>sn' su. \<exists>seq. sn' = SetSequence ty seq sn \<and> meta_known be ids s0 (hs \<union> set seq) su) (meta_kept ids s0)" for c
    by (rule valid_bind [OF data [of "Some [(c, None)]", simplified] flush])
  show ?thesis
    unfolding upload_sequence_def metadata_maker_def
    by (rule valid_bind_modify [where R = ?M], simp add: meta_known_def, rule valid_case(2), rule valid_raise, erule meta_kept,
        rule valid_bind_lift, rule valid_bind_modify [OF _ body])
      (use metadata_maker_cutting [OF _ sz] in \<open>auto intro: meta_kept\<close>)
qed

lemma SetSequence_fields [simp]:
  "ChunkHashes (SetSequence ty seq sn) = ChunkHashes sn" "Revision (SetSequence ty seq sn) = Revision sn"
  by (simp_all add: SetSequence_def)

lemma valid_upload_sequences:
  assumes ok: "backup_ok be ids" and sz: "4 \<le> msize"
  shows "valid (listing_inv be ids s0 (set (ChunkHashes sn)) sn) (upload_sequences be msize sn el)
    (\<lambda>(sn', el) su. meta_known be ids s0 (refs sn') su \<and> Revision sn' = Revision sn) (meta_kept ids s0)"
proof -
  let ?H = "set (ChunkHashes sn)" and ?E = "meta_kept ids s0"
  let ?Q = "\<lambda>(sn', el :: entry_list) su. meta_known be ids s0 (refs sn') su \<and> Revision sn' = Revision sn"
  have lengths: "valid (meta_known be ids s0 hs)
      (bind_st (upload_sequence be msize ''lengths'' s2) (\<lambda>s3. return_st (s3, el))) ?Q ?E"
    if "set (FileSequence s2) \<union> set (ChunkSequence s2) \<union> set (ChunkHashes s2) \<subseteq> hs" "Revision s2 = Revision sn" for hs s2 el
    by (rule valid_bind [OF valid_upload_sequence [OF ok sz]], rule valid_return)
      (use that in \<open>auto simp: refs_def SetSequence_def elim!: meta_known_subset\<close>)
  have chunks: "valid (meta_known be ids s0 hs)
      (bind_st (upload_sequence be msize ''chunks'' s1) (\<lambda>s2.
       bind_st (upload_sequence be msize ''lengths'' s2) (\<lambda>s3. return_st (s3, el)))) ?Q ?E"
    if "set (FileSequence s1) \<union> set (ChunkHashes s1) \<subseteq> hs" "Revision s1 = Revision sn" for hs s1 el
  proof (rule valid_bind [OF valid_upload_sequence [OF ok sz]], rule valid_ex, rule valid_pure)
    fix s2 seq assume "s2 = SetSequence ''chunks'' seq s1"
    then show "valid (meta_known be ids s0 (hs \<union> set seq))
        (bind_st (upload_sequence be msize ''lengths'' s2) (\<lambda>s3. return_st (s3, el))) ?Q ?E"
      using that by (intro lengths) (auto simp: SetSequence_def)
  qed
  have tail: "valid (\<lambda>su. meta_inv be ids s0 ?H su \<and> cutting be (su_maker su))
      (bind_st (add_metadata be None) (\<lambda>_.
       bind_st (get_st (\<lambda>su. SetSequence ''files'' (su_chunkSequence su) s)) (\<lambda>s1.
       bind_st (upload_sequence be msize ''chunks'' s1) (\<lambda>s2.
       bind_st (upload_sequence be msize ''lengths'' s2) (\<lambda>s3. return_st (s3, el)))))) ?Q ?E"
    if s: "set (ChunkHashes s) \<subseteq> ?H" "FileSequence s = FileSequence sn" "Revision s = Revision sn" for s el
  proof (rule valid_bind [where Q = "\<lambda>_. meta_inv be ids s0 ?H"])
    show "valid (\<lambda>su. meta_inv be ids s0 ?H su \<and> cutting be (su_maker su)) (add_metadata be None) (\<lambda>_. meta_inv be ids s0 ?H) ?E"
      using valid_add_metadata [OF ok, of None s0 ?H "\<lambda>_ _. True"] by simp
    show "valid (meta_inv be ids s0 ?H) (bind_st (get_st (\<lambda>su. SetSequence ''files'' (su_chunkSequence su) s)) (\<lambda>s1.
       bind_st (upload_sequence be msize ''chunks'' s1) (\<lambda>s2.
       bind_st (upload_sequence be msize ''lengths'' s2) (\<lambda>s3. return_st (s3, el))))) ?Q ?E"
    proof (rule valid_bind_get, rule valid_pre, rule valid_ex, rule valid_pure)
      fix s1 seq assume "s1 = SetSequence ''files'' seq s"
      then show "valid (meta_known be ids s0 (?H \<union> set seq))
          (bind_st (upload_sequence be msize ''chunks'' s1) (\<lambda>s2.
           bind_st (upload_sequence be msize ''lengths'' s2) (\<lambda>s3. return_st (s3, el)))) ?Q ?E"
        using s by (intro chunks) (auto simp: SetSequence_def)
    next
      fix s1 su
      assume "meta_inv be ids s0 ?H su \<and> s1 = SetSequence ''files'' (su_chunkSequence su) s"
      then show "\<exists>seq. s1 = SetSequence ''files'' seq s \<and> meta_known be ids s0 (?H \<union> set seq) su"
        using meta_known_inv by blast
    qed
  qed
  show ?thesis
    unfolding upload_sequences_def Let_def
  proof (rule valid_bind [OF valid_upload_list [OF ok]], rule valid_bind_get, rule valid_pre, rule valid_pure)
    fix el us
    assume "set (us_chunkHashes us) \<subseteq> ?H"
    then show "valid (\<lambda>su. meta_inv be ids s0 ?H su \<and> cutting be (su_maker su))
      (bind_st (add_metadata be None) (\<lambda>_.
       bind_st (get_st (\<lambda>su. SetSequence ''files'' (su_chunkSequence su)
         (sn\<lparr>ChunkHashes := us_chunkHashes us, ChunkLengths := us_chunkLengths us\<rparr>))) (\<lambda>s1.
       bind_st (upload_sequence be msize ''chunks'' s1) (\<lambda>s2.
       bind_st (upload_sequence be msize ''lengths'' s2) (\<lambda>s3. return_st (s3, el)))))) ?Q ?E"
      by (intro tail) simp_all
  qed (simp add: listing_inv_def)
qed

section \<open>The snapshot\<close>

text \<open>A place where a snapshot file can be written.\<close>

definition free_place :: "string \<Rightarrow> 's \<Rightarrow> bool" where
  "free_place p s \<longleftrightarrow> plain p \<and> content s p = None \<and> \<not> isdir s p \<and> \<not> HasPrefix p chunkDir \<and> p \<noteq> ''chunks'' \<and>
     \<not> HasSuffix p ''.tmp''"

text \<open>All chunks that a snapshot references are stored.\<close>

definition complete :: "'s operator_env \<Rightarrow> 's \<Rightarrow> snapshot \<Rightarrow> bool" where
  "complete env s sn \<longleftrightarrow> (\<forall>h \<in> refs sn. hash_stored env s h)"

text \<open>The state when the snapshot may have been written: everything that was there is still there, and
  if there is a file at the place of the snapshot, it is the description of a complete snapshot.\<close>

definition described_by :: "'s backup_env \<Rightarrow> string \<Rightarrow> 's \<Rightarrow> snapshot \<Rightarrow> bool" where
  "described_by be path s sn \<longleftrightarrow> complete (be_operator be) s sn \<and>
     (\<exists>description ent chunk chunk' encrypted. MarshalJSON_snapshot (be_codec be) sn = Inr description \<and>
        chunk_buffer chunk = Some description \<and>
        Encrypt (rt_hashes (env_runtime (be_operator be))) (rt_codecs (env_runtime (be_operator be))) (be_config be) ent
          (FileKey (be_config be)) (short_key path) True chunk = Inr (None, chunk') \<and>
        chunk_buffer chunk' = Some encrypted \<and> content s path = Some encrypted)"

definition published :: "'s backup_env \<Rightarrow> string set \<Rightarrow> 's \<Rightarrow> string \<Rightarrow> 's \<Rightarrow> bool" where
  "published be ids s0 path s \<longleftrightarrow> (\<forall>j \<in> ids. ready j s) \<and>
     (\<forall>p b. content s0 p = Some b \<longrightarrow> \<not> HasSuffix p ''.tmp'' \<longrightarrow> content s p = Some b) \<and>
     (content s path \<noteq> None \<longrightarrow> dryRun (be_config be) \<or> (\<exists>sn. described_by be path s sn))"

lemma published_preserves: "preserves ids s0 s \<Longrightarrow> free_place path s0 \<Longrightarrow> published be ids s0 path s"
  by (auto simp: preserves_def published_def free_place_def)

lemma upload_other_file:
  assumes pr: "preserves ids s0 s" and fp: "free_place p s0" and up: "UploadFile st p b s = (r, s')" and "ids \<noteq> {}"
  shows "\<exists>e. r = Inr e \<and> (\<forall>j \<in> ids. ready j s') \<and> readLevels st s' = readLevels st s \<and>
    (\<forall>q c. content s q = Some c \<longrightarrow> \<not> HasSuffix q ''.tmp'' \<longrightarrow> content s' q = Some c) \<and>
    content s' p = (if e = None then Some b else None)"
proof -
  from pr fp have p: "content s p = None" "\<not> isdir s p" by (auto simp: preserves_def free_place_def)
  have pl: "plain p" "\<not> HasSuffix p ''.tmp''" using fp by (simp_all add: free_place_def)
  obtain j where "j \<in> ids" using assms(4) by blast
  with pr have "ok s" by (auto simp: preserves_def ready_def)
  from upload_file [OF this pl(1) p(2) pl(2), of b] up obtain e where e: "r = Inr e"
    and set: "settled st ok content s (if e = None then (content s)(p \<mapsto> b) else content s) s'"
    and dirs: "\<And>q. isdir s' q \<Longrightarrow> isdir s q \<or> (\<exists>r. p = q @ CHR ''/'' # r)" by auto
  have "ready j s'" if j: "j \<in> ids" for j
  proof -
    have r: "ready j s" using pr j by (simp add: preserves_def)
    have "\<not> isdir s' (chunk_file j f l)" if "l \<in> set (readLevels st s)" for f l
    proof
      assume "isdir s' (chunk_file j f l)"
      with dirs ready_path(2) [OF r that] obtain x where "p = chunk_file j f l @ CHR ''/'' # x" by blast
      then have "HasPrefix p chunkDir" by (simp add: chunk_file_def chunkDir_def HasPrefix_def)
      with fp show False by (simp add: free_place_def)
    qed
    with r settled_levels [OF set] set show ?thesis by (auto simp: ready_def clear_def settled_def)
  qed
  moreover have "content s' q = Some c" if "content s q = Some c" "\<not> HasSuffix q ''.tmp''" for q c
    using settled_files [OF set that(2)] that(1) p(1) by auto
  moreover have "content s' p = (if e = None then Some b else None)"
    using settled_files [OF set pl(2)] p(1) by simp
  ultimately show ?thesis using e settled_levels [OF set] by blast
qed

lemma present_kept:
  assumes "present i s" and "ready i s" and "readLevels st s' = readLevels st s"
    and "\<forall>q c. content s q = Some c \<longrightarrow> \<not> HasSuffix q ''.tmp'' \<longrightarrow> content s' q = Some c"
  shows "present i s'"
proof -
  from assms(1) obtain l where "l \<in> set (stored_at i False s)" unfolding present_def by (cases "stored_at i False s") auto
  then have l: "l \<in> set (readLevels st s)" "content s (chunk_file i False l) \<noteq> None" by (simp_all add: stored_at_def)
  then have "content s' (chunk_file i False l) \<noteq> None" using assms(4) ready_path(3) [OF assms(2) l(1)] by auto
  with l(1) assms(3) have "l \<in> set (stored_at i False s')" by (simp add: stored_at_def)
  then show ?thesis by (auto simp: present_def)
qed

definition snapshot_ready :: "'s backup_env \<Rightarrow> string set \<Rightarrow> 's \<Rightarrow> snapshot \<Rightarrow> 's operator_state \<Rightarrow> bool" where
  "snapshot_ready be ids s0 sn w \<longleftrightarrow> preserves ids s0 (op_storage w) \<and> complete (be_operator be) (op_storage w) sn"

lemma keeps_snapshot_ready [hoare]:
  "keeps (snapshot_ready be ids s0 sn) (on_cache m)" "keeps (snapshot_ready be ids s0 sn) next_entropy"
  using keeps_on_cache [of "\<lambda>s. preserves ids s0 s \<and> complete (be_operator be) s sn"]
    keeps_next_entropy [of "\<lambda>s. preserves ids s0 s \<and> complete (be_operator be) s sn"]
  by (simp_all add: snapshot_ready_def [abs_def])

lemma valid_write_snapshot:
  assumes ok: "backup_ok be ids" and fp: "free_place path s0"
    and m: "MarshalJSON_snapshot (be_codec be) sn = Inr description" and c: "chunk_buffer chunk = Some description"
    and e: "Encrypt (rt_hashes (env_runtime (be_operator be))) (rt_codecs (env_runtime (be_operator be))) (be_config be) ent
          (FileKey (be_config be)) (short_key path) True chunk = Inr (None, chunk')"
    and b: "GetBytes chunk' = Inr encrypted"
  shows "valid (snapshot_ready be ids s0 sn) (on_storage (UploadFile st path encrypted))
    (\<lambda>e w. published be ids s0 path (op_storage w) \<and> (e = None \<longrightarrow> content (op_storage w) path \<noteq> None))
    (\<lambda>w. published be ids s0 path (op_storage w))"
  unfolding valid_def
proof (intro allI impI)
  fix w assume w: "snapshot_ready be ids s0 sn w"
  let ?s = "op_storage w"
  obtain r s' where u: "UploadFile st path encrypted ?s = (r, s')" by force
  have pr: "preserves ids s0 ?s" and ne: "ids \<noteq> {}" using w ok by (simp_all add: snapshot_ready_def backup_ok_def)
  from upload_other_file [OF pr fp u ne] obtain x where x: "r = Inr x" and s': "\<forall>j \<in> ids. ready j s'"
    "readLevels st s' = readLevels st ?s"
    "\<forall>q c. content ?s q = Some c \<longrightarrow> \<not> HasSuffix q ''.tmp'' \<longrightarrow> content s' q = Some c"
    "content s' path = (if x = None then Some encrypted else None)" by blast
  have "present i s'" if "present i ?s" "i \<in> ids" for i
    using present_kept [OF that(1) _ s'(2,3)] pr that(2) by (simp add: preserves_def)
  moreover have "all_ids (be_operator be) \<subseteq> ids" using ok by (simp add: backup_ok_def)
  moreover have "complete (be_operator be) ?s sn" using w by (simp add: snapshot_ready_def)
  ultimately have "complete (be_operator be) s' sn"
    unfolding complete_def hash_stored_def all_ids_def by blast
  moreover have "chunk_buffer chunk' = Some encrypted" using b by (auto simp: GetBytes_def split: option.splits)
  ultimately have "described_by be path s' sn" if "x = None" using that m c e s'(4) unfolding described_by_def by auto
  then have "published be ids s0 path s'" using s' pr by (auto simp: published_def preserves_def)
  then show "case on_storage (UploadFile st path encrypted) w of
      (Inr e, t) \<Rightarrow> published be ids s0 path (op_storage t) \<and> (e = None \<longrightarrow> content (op_storage t) path \<noteq> None)
    | (Inl e, t) \<Rightarrow> published be ids s0 path (op_storage t)"
    using u x s'(4) by (simp add: on_storage_def zoom_def)
qed

lemma snapshot_ready_published:
  "snapshot_ready be ids s0 sn w \<Longrightarrow> free_place path s0 \<Longrightarrow> published be ids s0 path (op_storage w)"
  by (simp add: snapshot_ready_def published_preserves)

lemma valid_manager_UploadFile:
  assumes ok: "backup_ok be ids" and fp: "free_place path s0"
    and m: "MarshalJSON_snapshot (be_codec be) sn = Inr description"
  shows "valid (snapshot_ready be ids s0 sn) (manager_UploadFile (be_operator be) path path description)
    (\<lambda>_ w. published be ids s0 path (op_storage w) \<and> content (op_storage w) path \<noteq> None)
    (\<lambda>w. published be ids s0 path (op_storage w))"
proof -
  let ?env = "be_operator be" and ?P = "\<lambda>w. published be ids s0 path (op_storage w)"
  let ?W = "\<lambda>(_ :: unit) w. ?P w \<and> content (op_storage w) path \<noteq> None"
  let ?chunk = "chunk_Write description (Reset (env_config ?env) False (CreateChunk True))"
  have st: "env_storage ?env = st" using ok by (simp add: backup_ok_def)
  have buf: "chunk_buffer ?chunk = Some description" by (simp add: chunk_Write_def Reset_def CreateChunk_def Let_def)
  have cache: "keeps (snapshot_ready be ids s0 sn)
      (if b then bind_st (on_cache (UploadFile FileStorage path description)) (\<lambda>_. return_st ()) else return_st ())" for b
    by (intro hoare)
  have written: "valid (snapshot_ready be ids s0 sn)
      (if err \<noteq> None then raise_st (LogError ''UPLOAD_File'')
       else bind_st (lift_res (GetBytes c)) (\<lambda>encrypted.
         bind_st (on_storage (UploadFile st path encrypted)) (\<lambda>err.
           if err \<noteq> None then raise_st (LogError ''UPLOAD_File'') else return_st ()))) ?W ?P"
    if "Encrypt (rt_hashes (env_runtime ?env)) (rt_codecs (env_runtime ?env)) (be_config be) ent
          (FileKey (be_config be)) (short_key path) True ?chunk = Inr (err, c)" for ent err c
  proof (rule valid_if, rule valid_raise, erule snapshot_ready_published [OF _ fp], rule valid_bind_lift)
    fix encrypted assume "\<not> err \<noteq> None" "GetBytes c = Inr encrypted"
    then show "valid (snapshot_ready be ids s0 sn) (bind_st (on_storage (UploadFile st path encrypted)) (\<lambda>err.
           if err \<noteq> None then raise_st (LogError ''UPLOAD_File'') else return_st ())) ?W ?P"
      using that by (intro valid_bind [OF valid_write_snapshot [OF ok fp m buf]]) (auto intro: triple)
  qed (erule snapshot_ready_published [OF _ fp])
  show ?thesis
    unfolding manager_UploadFile_def op_Encrypt_def bind_st_assoc st
    by (rule valid_bind_get, rule valid_pre [where P = "snapshot_ready be ids s0 sn"], rule valid_bind_keeps [OF cache],
        erule snapshot_ready_published [OF _ fp], rule valid_bind_keeps, rule hoare, erule snapshot_ready_published [OF _ fp],
        rule valid_bind_lift, rule valid_case(1), rule written)
      (auto simp: be_config_def intro: snapshot_ready_published [OF _ fp])
qed

lemma valid_UploadSnapshot:
  assumes ok: "backup_ok be ids" and sz: "4 \<le> msize" and fp: "free_place path s0"
    and path: "path = snapshot_path sid (Revision sn)" and cache: "set cache \<subseteq> ids"
  shows "valid (\<lambda>w. preserves ids s0 (op_storage w) \<and>
      all_stored (be_operator be) (op_storage w) (set (ChunkHashes sn)) (set cache))
    (UploadSnapshot be sid sn el cache msize)
    (\<lambda>_ w. published be ids s0 path (op_storage w) \<and> (\<not> dryRun (be_config be) \<longrightarrow> content (op_storage w) path \<noteq> None))
    (\<lambda>w. published be ids s0 path (op_storage w))"
proof -
  let ?P = "\<lambda>w :: 's operator_state. published be ids s0 path (op_storage w)"
  let ?I = "\<lambda>w :: 's operator_state. preserves ids s0 (op_storage w) \<and> all_stored (be_operator be) (op_storage w) (set (ChunkHashes sn)) (set cache)"
  let ?R = "\<lambda>((sn', el :: entry_list), counts :: metadata_counts) (w :: 's operator_state). preserves ids s0 (op_storage w) \<and>
    (\<not> dryRun (be_config be) \<longrightarrow> complete (be_operator be) (op_storage w) sn') \<and> Revision sn' = Revision sn"
  have sequences: "valid ?I (\<lambda>w. case upload_sequences be msize sn el (start_snapshot_upload cache mk w) of
         (r, su) \<Rightarrow> (bind_res r (\<lambda>x. Inr (x, su_counts su)), su_operator su)) ?R ?P"
    if "cutting be mk" for mk
    unfolding valid_def
  proof (intro allI impI)
    fix w assume w: "?I w"
    then have "listing_inv be ids s0 (set (ChunkHashes sn)) sn (start_snapshot_upload cache mk w)"
      using that cache by (auto simp: listing_inv_def meta_inv_def start_snapshot_upload_def start_upload_def)
    note v = validD [OF valid_upload_sequences [OF ok sz] this]
    obtain r su where u: "upload_sequences be msize sn el (start_snapshot_upload cache mk w) = (r, su)" by force
    show "case case upload_sequences be msize sn el (start_snapshot_upload cache mk w) of
         (r, su) \<Rightarrow> (bind_res r (\<lambda>x. Inr (x, su_counts su)), su_operator su) of
       (Inr x, t) \<Rightarrow> ?R x t | (Inl e, t) \<Rightarrow> ?P t"
    proof (cases r)
      case (Inl e)
      with v(2) u show ?thesis by (auto simp: bind_res_def meta_kept_def intro: published_preserves [OF _ fp])
    next
      case (Inr x)
      with v(1) u show ?thesis
        by (cases x) (auto simp: bind_res_def meta_known_def meta_inv_def all_stored_def complete_def be_config_def)
    qed
  qed
  have finish: "valid (?R ((sn', el'), counts))
      (if be_failSnapshot be then raise_st (LogError ''SNAPSHOT_FAIL'')
       else case MarshalJSON_snapshot (be_codec be) sn' of
         Inl err \<Rightarrow> raise_st (LogError ''SNAPSHOT_MARSHAL'')
       | Inr description \<Rightarrow>
           bind_st (if dryRun (be_config be) then return_st ()
                    else manager_UploadFile (be_operator be) (snapshot_path sid (Revision sn')) (snapshot_path sid (Revision sn')) description) (\<lambda>_.
             return_st ((sn', el'), counts)))
      (\<lambda>_ w. ?P w \<and> (\<not> dryRun (be_config be) \<longrightarrow> content (op_storage w) path \<noteq> None)) ?P" for sn' el' counts
  proof (cases "Revision sn' = Revision sn")
    case True
    have pub: "?P w" if "?R ((sn', el'), counts) w" for w using that published_preserves [OF _ fp] by simp
    have w: "valid (?R ((sn', el'), counts)) (if dryRun (be_config be) then return_st ()
         else manager_UploadFile (be_operator be) path path description)
        (\<lambda>_ w. ?P w \<and> (\<not> dryRun (be_config be) \<longrightarrow> content (op_storage w) path \<noteq> None)) ?P"
      if "MarshalJSON_snapshot (be_codec be) sn' = Inr description" for description
      by (rule valid_if, rule valid_return, use pub in blast)
        (rule valid_weaken [OF valid_manager_UploadFile [OF ok fp that]], auto simp: snapshot_ready_def)
    show ?thesis
      unfolding True path [symmetric]
      by (rule valid_if, rule valid_raise, erule pub, rule valid_case(2), rule valid_raise, erule pub,
          rule valid_bind [OF w], assumption, rule valid_return, assumption)
  qed (simp add: valid_def)
  show ?thesis
    unfolding UploadSnapshot_def Let_def metadata_maker_def
  proof (rule valid_bind_lift, rule valid_bind [OF sequences])
    fix mk x
    assume "CreateMetaDataChunkMaker (rt_hashes (env_runtime (be_operator be))) (be_config be) msize = Inr mk"
    then show "cutting be mk" by (rule metadata_maker_cutting [OF _ sz])
  next
    fix x :: "(snapshot \<times> entry_list) \<times> metadata_counts"
    obtain sn' el' counts where x: "x = ((sn', el'), counts)" by (cases x) auto
    from finish [of sn' el' counts] show "valid (?R x) (case x of (x, xa) \<Rightarrow> (case x of (snapshot, el) \<Rightarrow> \<lambda>counts.
        if be_failSnapshot be then raise_st (LogError ''SNAPSHOT_FAIL'')
        else case MarshalJSON_snapshot (be_codec be) snapshot of
          Inl err \<Rightarrow> raise_st (LogError ''SNAPSHOT_MARSHAL'')
        | Inr description \<Rightarrow>
            bind_st (if dryRun (be_config be) then return_st ()
                     else manager_UploadFile (be_operator be) (snapshot_path sid (Revision snapshot)) (snapshot_path sid (Revision snapshot)) description) (\<lambda>_.
              return_st ((snapshot, el), counts))) xa)
      (\<lambda>_ w. ?P w \<and> (\<not> dryRun (be_config be) \<longrightarrow> content (op_storage w) path \<noteq> None)) ?P"
      unfolding x prod.case .
  qed (auto intro: published_preserves [OF _ fp])
qed

end

end
