(* ===== verification/BackupSafety.thy ===== *)
theory BackupSafety
  imports BackupMetadata PruneExamples
begin

text \<open>
  What a backup guarantees on a reliable storage: it never changes or removes a file that is already in the
  storage, and the file of the new snapshot appears only when every chunk that the snapshot references is
  in the storage, whether the backup succeeds or fails.
\<close>

section \<open>Uploading the files\<close>

context storage_laws begin

text \<open>The state while files are packed: the chunks in the cache, the uploaded ones and those in \<open>hs\<close> are
  stored; the uploaded ones are listed in the order of their indices.\<close>

definition pack_inv ::
  "'s backup_env \<Rightarrow> string set \<Rightarrow> 's \<Rightarrow> string list \<Rightarrow> 's backup_state \<Rightarrow> bool" where
  "pack_inv be ids s0 pres bs \<longleftrightarrow> preserves ids s0 (op_storage (bs_operator bs)) \<and> set (bs_chunkCache bs) \<subseteq> ids \<and>
     PreservedChunkHashes (bs_list bs) = pres \<and>
     int (length (UploadedChunkHashes (bs_list bs))) = bs_chunkIndex bs + 1 \<and>
     all_stored (be_operator be) (op_storage (bs_operator bs))
       (string_bytes ` (set pres \<union> set (UploadedChunkHashes (bs_list bs)))) (set (bs_chunkCache bs))"

definition pack_kept :: "string set \<Rightarrow> 's \<Rightarrow> 's backup_state \<Rightarrow> bool" where
  "pack_kept ids s0 bs \<longleftrightarrow> preserves ids s0 (op_storage (bs_operator bs))"

lemma pack_inv_kept: "pack_inv be ids s0 pres bs \<Longrightarrow> pack_kept ids s0 bs"
  by (simp add: pack_inv_def pack_kept_def)

text \<open>The completion of the chunk with the next index.\<close>

lemma valid_completion:
  assumes "has_hash (be_operator be) chunk h"
  shows "valid (\<lambda>bs. preserves ids s0 (op_storage (bs_operator bs)) \<and> set (bs_chunkCache bs) \<subseteq> ids \<and>
      PreservedChunkHashes (bs_list bs) = pres \<and> idx = bs_chunkIndex bs \<and>
      int (length (UploadedChunkHashes (bs_list bs))) = bs_chunkIndex bs \<and>
      all_stored (be_operator be) (op_storage (bs_operator bs))
        (insert h (string_bytes ` (set pres \<union> set (UploadedChunkHashes (bs_list bs))))) (set (bs_chunkCache bs)))
    (uploadChunkCompletion be (chunk, idx, inCache, sz, n)) (\<lambda>_. pack_inv be ids s0 pres) (pack_kept ids s0)"
  unfolding uploadChunkCompletion_def op_GetHash_def prod.case
proof (rule valid_bind_lift, rule valid_case(1), rule valid_modify)
  fix r h' c and bs :: "'s backup_state"
  assume "GetHash (rt_hashes (env_runtime (be_operator be))) (env_config (be_operator be)) chunk = Inr r" "r = (h', c)"
    and bs: "preserves ids s0 (op_storage (bs_operator bs)) \<and> set (bs_chunkCache bs) \<subseteq> ids \<and>
      PreservedChunkHashes (bs_list bs) = pres \<and> idx = bs_chunkIndex bs \<and>
      int (length (UploadedChunkHashes (bs_list bs))) = bs_chunkIndex bs \<and>
      all_stored (be_operator be) (op_storage (bs_operator bs))
        (insert h (string_bytes ` (set pres \<union> set (UploadedChunkHashes (bs_list bs))))) (set (bs_chunkCache bs))"
  then have "h' = h" using assms by (auto simp: has_hash_def)
  moreover have "length (UploadedChunkHashes (bs_list bs)) = nat idx" using bs by auto
  ultimately show "pack_inv be ids s0 pres
      (bs\<lparr>bs_list := AddUploadedChunk (nat idx) (bytes_string h') (int sz) (bs_list bs)\<rparr>)"
    using bs by (simp add: pack_inv_def AddUploadedChunk_def extend_to_append)
qed (auto simp: pack_kept_def)

lemma valid_uploadChunk:
  assumes ok: "backup_ok be ids" and fresh: "chunk_id chunk = []"
  shows "valid (pack_inv be ids s0 pres) (uploadChunk be chunk) (\<lambda>_. pack_inv be ids s0 pres) (pack_kept ids s0)"
  unfolding uploadChunk_def op_GetID_def
proof (rule valid_bind_lift, rule valid_case(1))
  let ?env = "be_operator be" and ?I = "pack_inv be ids s0 pres"
  fix r i d
  assume g: "GetID (rt_hashes (env_runtime ?env)) (env_config ?env) chunk = Inr r" "r = (i, d)"
  then obtain h where h: "has_hash ?env chunk h"
    using fresh by (auto simp: GetID_def has_hash_def bind_res_def split: sum.splits)
  with g fresh have i: "hash_id ?env h i" and d: "has_hash ?env d h" using GetID_hash_id has_hash_GetID by blast+
  have st: "env_storage ?env = st" and ids: "all_ids ?env \<subseteq> ids" using ok by (simp_all add: backup_ok_def)
  with i have iids: "i \<in> ids" by (auto simp: all_ids_def)
  text \<open>The state after the index has been increased.\<close>
  let ?P = "\<lambda>idx hs cs (bs :: 's backup_state). preserves ids s0 (op_storage (bs_operator bs)) \<and> set (bs_chunkCache bs) \<subseteq> ids \<and>
      PreservedChunkHashes (bs_list bs) = pres \<and> idx = bs_chunkIndex bs \<and>
      int (length (UploadedChunkHashes (bs_list bs))) = bs_chunkIndex bs \<and>
      all_stored ?env (op_storage (bs_operator bs))
        (hs \<union> (string_bytes ` (set pres \<union> set (UploadedChunkHashes (bs_list bs))))) cs"
  have new: "valid (\<lambda>bs. ?P idx {} (set (bs_chunkCache bs)) bs)
      (bind_st (modify_st (\<lambda>bs. bs\<lparr>bs_chunkCache := i # bs_chunkCache bs\<rparr>)) (\<lambda>_.
       bind_st (on_operator (upload_completed ?env d idx False)) (\<lambda>cs. for_each cs (uploadChunkCompletion be))))
      (\<lambda>_. ?I) (pack_kept ids s0)" for idx
  proof (rule valid_bind_modify)
    let ?R = "\<lambda>bs. \<exists>cs. bs_chunkCache bs = i # cs \<and> ?P idx {} (set cs) bs"
    show "?R (bs\<lparr>bs_chunkCache := i # bs_chunkCache bs\<rparr>)" if "?P idx {} (set (bs_chunkCache bs)) bs" for bs
      using that iids by simp
    have "valid ?R (on_operator (upload_completed ?env d idx False))
        (\<lambda>cs bs. ?P idx {h} (set (bs_chunkCache bs)) bs \<and> (\<exists>c n. cs = [(c, idx, False, GetLength d, n)] \<and> has_hash ?env c h))
        (pack_kept ids s0)"
      unfolding on_operator_def
    proof (rule valid_zoom [where P' = "\<lambda>bs w. preserves ids s0 (op_storage w) \<and> all_stored ?env (op_storage w)
          (string_bytes ` (set pres \<union> set (UploadedChunkHashes (bs_list bs)))) (set (tl (bs_chunkCache bs)))"])
      fix bs :: "'s backup_state"
      assume "?R bs"
      then have "set (tl (bs_chunkCache bs)) \<subseteq> ids" by auto
      then show "valid (\<lambda>w. preserves ids s0 (op_storage w) \<and> all_stored ?env (op_storage w)
            (string_bytes ` (set pres \<union> set (UploadedChunkHashes (bs_list bs)))) (set (tl (bs_chunkCache bs))))
          (upload_completed ?env d idx False)
          (\<lambda>cs w. preserves ids s0 (op_storage w) \<and> all_stored ?env (op_storage w)
            (insert h (string_bytes ` (set pres \<union> set (UploadedChunkHashes (bs_list bs))))) (insert i (set (tl (bs_chunkCache bs)))) \<and>
            (\<exists>c n. cs = [(c, idx, False, GetLength d, n)] \<and> has_hash ?env c h))
          (\<lambda>w. preserves ids s0 (op_storage w))"
        using has_hash_unique [OF d] hash_id_unique [OF i]
        by (intro valid_weaken [OF valid_upload_stored [OF st ids]]) blast+
    qed (auto simp: pack_kept_def)
    then show "valid ?R (bind_st (on_operator (upload_completed ?env d idx False)) (\<lambda>cs. for_each cs (uploadChunkCompletion be)))
        (\<lambda>_. ?I) (pack_kept ids s0)"
    proof (rule valid_bind)
      fix cs
      show "valid (\<lambda>bs. ?P idx {h} (set (bs_chunkCache bs)) bs \<and> (\<exists>c n. cs = [(c, idx, False, GetLength d, n)] \<and> has_hash ?env c h))
          (for_each cs (uploadChunkCompletion be)) (\<lambda>_. ?I) (pack_kept ids s0)"
      proof (cases "\<exists>c n. cs = [(c, idx, False, GetLength d, n)] \<and> has_hash ?env c h")
        case True
        then obtain c n where c: "cs = [(c, idx, False, GetLength d, n)]" "has_hash ?env c h" by blast
        have "valid (\<lambda>bs. ?P idx {h} (set (bs_chunkCache bs)) bs) (uploadChunkCompletion be (c, idx, False, GetLength d, n)) (\<lambda>_. ?I) (pack_kept ids s0)"
          by (rule valid_pre [OF valid_completion [OF c(2)]]) simp
        then have "valid (\<lambda>bs. ?P idx {h} (set (bs_chunkCache bs)) bs) (for_each cs (uploadChunkCompletion be)) (\<lambda>_. ?I) (pack_kept ids s0)"
          unfolding c(1) for_each.simps by (rule valid_bind) (rule valid_return)
        then show ?thesis by (rule valid_pre) blast
      next
        case False
        then show ?thesis unfolding valid_def by blast
      qed
    qed
  qed
  have known: "valid (\<lambda>bs. ?P idx {} (set (bs_chunkCache bs)) bs \<and> i \<in> set (bs_chunkCache bs))
      (uploadChunkCompletion be (d, idx, True, GetLength d, 0)) (\<lambda>_. ?I) (pack_kept ids s0)" for idx
    by (rule valid_pre [OF valid_completion [OF d]]) (use i in \<open>auto simp: all_stored_def hash_stored_def\<close>)
  show "valid ?I (bind_st (modify_st (\<lambda>bs. bs\<lparr>bs_chunkIndex := bs_chunkIndex bs + 1\<rparr>)) (\<lambda>_.
     bind_st (get_st bs_chunkIndex) (\<lambda>chunkIndex.
     bind_st (get_st (\<lambda>bs. i \<in> set (bs_chunkCache bs) \<and> \<not> be_keepAlive be chunkIndex)) (\<lambda>found.
     bind_st
       (if found then uploadChunkCompletion be (d, chunkIndex, True, GetLength d, 0)
        else
          bind_st (modify_st (\<lambda>bs. bs\<lparr>bs_chunkCache := i # bs_chunkCache bs\<rparr>)) (\<lambda>_.
          bind_st (on_operator (upload_completed ?env d chunkIndex False)) (\<lambda>cs.
            for_each cs (uploadChunkCompletion be)))) (\<lambda>_.
       if chunkIndex = be_chunkToFail be then raise_st (LogError ''SNAPSHOT_FAIL'') else return_st ())))))
     (\<lambda>_. ?I) (pack_kept ids s0)"
  proof (rule valid_bind_modify [where R = "\<lambda>bs. ?P (bs_chunkIndex bs) {} (set (bs_chunkCache bs)) bs"],
      simp add: pack_inv_def, rule valid_bind_get, rule valid_bind_get)
    fix idx found
    have "valid (\<lambda>bs. (?P (bs_chunkIndex bs) {} (set (bs_chunkCache bs)) bs \<and> idx = bs_chunkIndex bs) \<and>
          found = (i \<in> set (bs_chunkCache bs) \<and> \<not> be_keepAlive be idx))
        (if found then uploadChunkCompletion be (d, idx, True, GetLength d, 0)
        else
          bind_st (modify_st (\<lambda>bs. bs\<lparr>bs_chunkCache := i # bs_chunkCache bs\<rparr>)) (\<lambda>_.
          bind_st (on_operator (upload_completed ?env d idx False)) (\<lambda>cs.
            for_each cs (uploadChunkCompletion be)))) (\<lambda>_. ?I) (pack_kept ids s0)"
      by (rule valid_if, rule valid_pre [OF known], blast, rule valid_pre [OF new], blast)
    then show "valid (\<lambda>bs. (?P (bs_chunkIndex bs) {} (set (bs_chunkCache bs)) bs \<and> idx = bs_chunkIndex bs) \<and>
          found = (i \<in> set (bs_chunkCache bs) \<and> \<not> be_keepAlive be idx))
       (bind_st
       (if found then uploadChunkCompletion be (d, idx, True, GetLength d, 0)
        else
          bind_st (modify_st (\<lambda>bs. bs\<lparr>bs_chunkCache := i # bs_chunkCache bs\<rparr>)) (\<lambda>_.
          bind_st (on_operator (upload_completed ?env d idx False)) (\<lambda>cs.
            for_each cs (uploadChunkCompletion be)))) (\<lambda>_.
       if idx = be_chunkToFail be then raise_st (LogError ''SNAPSHOT_FAIL'') else return_st ()))
       (\<lambda>_. ?I) (pack_kept ids s0)"
      by (rule valid_bind) (auto intro!: triple intro: pack_inv_kept)
  qed
qed (auto intro: pack_inv_kept)

lemma keeps_uploadChunk: "keeps (\<lambda>bs. R (bs_maker bs)) (uploadChunk be chunk)"
  unfolding uploadChunk_def op_GetID_def uploadChunkCompletion_def on_operator_def op_GetHash_def
  by (intro hoare keeps_modify keeps_zoom [where R = "\<lambda>_. True"] | simp add: keeps_def [of "\<lambda>_. True"])+

lemma valid_add_file_data:
  assumes ok: "backup_ok be ids" and rd: "\<And>r. rd = Some r \<Longrightarrow> clean r"
  shows "valid (\<lambda>bs. pack_inv be ids s0 pres bs \<and> cutting be (bs_maker bs)) (add_file_data be rd)
    (\<lambda>_ bs. pack_inv be ids s0 pres bs \<and> (rd \<noteq> None \<longrightarrow> cutting be (bs_maker bs))) (pack_kept ids s0)"
  unfolding add_file_data_def
proof (rule valid_add_data [where J = "\<lambda>bs. pack_inv be ids s0 pres bs \<and> (rd \<noteq> None \<longrightarrow> cutting be (bs_maker bs))"], goal_cases)
  case (4 chunk)
  then show ?case using valid_conj [OF valid_uploadChunk [OF ok] keeps_uploadChunk [of "\<lambda>mk. rd \<noteq> None \<longrightarrow> cutting be mk"]] by simp
qed (use rd in \<open>auto simp: pack_inv_def\<close>)

lemma valid_pack_file:
  assumes ok: "backup_ok be ids"
  shows "valid (\<lambda>bs. pack_inv be ids s0 pres bs \<and> cutting be (bs_maker bs)) (pack_file be i)
    (\<lambda>_ bs. pack_inv be ids s0 pres bs \<and> cutting be (bs_maker bs)) (pack_kept ids s0)"
  unfolding pack_file_def
proof (rule valid_bind_get, rule valid_case(2))
  fix e :: modified_entry and x :: goerror
  show "valid (\<lambda>bs. (pack_inv be ids s0 pres bs \<and> cutting be (bs_maker bs)) \<and> e = ModifiedEntries (bs_list bs) ! i)
    (modify_st (\<lambda>bs. bs\<lparr>bs_skippedFiles := bs_skippedFiles bs @ [me_Path e]\<rparr>))
    (\<lambda>_ bs. pack_inv be ids s0 pres bs \<and> cutting be (bs_maker bs)) (pack_kept ids s0)"
    by (rule valid_modify) (simp add: pack_inv_def)
next
  fix e :: modified_entry and rd
  assume "be_open be (me_Path e) = Inr rd"
  then have "clean rd" using ok by (auto simp: backup_ok_def)
  then have "valid (\<lambda>bs. (pack_inv be ids s0 pres bs \<and> cutting be (bs_maker bs)) \<and> e = ModifiedEntries (bs_list bs) ! i)
    (add_file_data be (Some rd)) (\<lambda>_ bs. pack_inv be ids s0 pres bs \<and> cutting be (bs_maker bs)) (pack_kept ids s0)"
    by (intro valid_weaken [OF valid_add_file_data [OF ok, of "Some rd" s0 pres]]) auto
  then show "valid (\<lambda>bs. (pack_inv be ids s0 pres bs \<and> cutting be (bs_maker bs)) \<and> e = ModifiedEntries (bs_list bs) ! i)
    (bind_st (add_file_data be (Some rd)) (\<lambda>(sz, hash). modify_st (\<lambda>bs. bs\<lparr>bs_list := bs_list bs
       \<lparr>ModifiedEntries := (ModifiedEntries (bs_list bs))[i := e\<lparr>me_Size := sz, me_Hash := hash\<rparr>]\<rparr>\<rparr>)))
    (\<lambda>_ bs. pack_inv be ids s0 pres bs \<and> cutting be (bs_maker bs)) (pack_kept ids s0)"
    by (rule valid_bind) (rule valid_case(1), rule valid_modify, simp add: pack_inv_def)
qed

lemma valid_pack_files:
  assumes ok: "backup_ok be ids"
  shows "valid (\<lambda>bs. pack_inv be ids s0 pres bs \<and> cutting be (bs_maker bs)) (pack_files be) (\<lambda>_. pack_inv be ids s0 pres) (pack_kept ids s0)"
proof -
  have flush: "valid (\<lambda>bs. pack_inv be ids s0 pres bs \<and> cutting be (bs_maker bs))
      (bind_st (add_file_data be None) (\<lambda>_. return_st ())) (\<lambda>_. pack_inv be ids s0 pres) (pack_kept ids s0)"
    by (rule valid_bind [OF valid_add_file_data [OF ok]]) (auto intro: triple)
  show ?thesis
    unfolding pack_files_def
    by (rule valid_bind_get, rule valid_pre, rule valid_bind [OF valid_for_each flush], rule valid_pack_file [OF ok]) simp
qed

section \<open>The whole upload\<close>

definition finished :: "'s backup_env \<Rightarrow> string set \<Rightarrow> 's \<Rightarrow> string \<Rightarrow> 's backup_state \<Rightarrow> bool" where
  "finished be ids s0 path bs \<longleftrightarrow> published be ids s0 path (op_storage (bs_operator bs))"

lemma local_snapshot_fields [simp]:
  "Revision (local_snapshot be sid td tag hm sc r ps n el) = r + 1"
  "ChunkHashes (local_snapshot be sid td tag hm sc r ps n el) =
     map string_bytes (PreservedChunkHashes el @ UploadedChunkHashes el)"
  by (simp_all add: local_snapshot_def)

lemma keeps_sequence_complete:
  assumes "env_storage env = st"
  shows "keeps (\<lambda>w. same_state s (op_storage w)) (sequence_complete env ids)"
proof (induction ids)
  case (Cons i ids)
  then show ?case unfolding sequence_complete.simps chunk_exists_def assms by (intro hoare reads)
qed (simp add: hoare)

lemma keeps_CleanSnapshotCache:
  assumes "env_storage env = st" and "\<not> rewriteChunks env"
  shows "keeps (\<lambda>w. same_state s (op_storage w)) (CleanSnapshotCache env codec n latest all)"
  unfolding CleanSnapshotCache_def Let_def clean_snapshot_file_def clean_chunk_file_def
  by (intro hoare keeps_GetSnapshotChunks [OF assms] keeps_sequence_complete [OF assms(1)])

lemma valid_clean_cache:
  assumes ok: "backup_ok be ids"
  shows "valid (\<lambda>bs. finished be ids s0 path bs \<and> R (op_storage (bs_operator bs)))
    (on_operator (CleanSnapshotCache (be_operator be) codec n latest all))
    (\<lambda>_ bs. finished be ids s0 path bs \<and> R (op_storage (bs_operator bs))) (finished be ids s0 path)"
  unfolding on_operator_def
proof (rule valid_zoom [where P' = "\<lambda>bs w. same_state (op_storage (bs_operator bs)) (op_storage w)"])
  fix bs :: "'s backup_state" assume "finished be ids s0 path bs \<and> R (op_storage (bs_operator bs))"
  moreover obtain j where "j \<in> ids" using ok by (auto simp: backup_ok_def)
  ultimately show "same_state (op_storage (bs_operator bs)) (op_storage (bs_operator bs))"
    by (auto simp: same_state_def finished_def published_def ready_def)
next
  fix bs :: "'s backup_state"
  show "valid (\<lambda>w. same_state (op_storage (bs_operator bs)) (op_storage w)) (CleanSnapshotCache (be_operator be) codec n latest all)
      (\<lambda>_ w. op_storage w = op_storage (bs_operator bs)) (\<lambda>w. op_storage w = op_storage (bs_operator bs))"
    by (rule valid_weaken [OF valid_keeps [OF keeps_CleanSnapshotCache]]) (use ok in \<open>auto simp: backup_ok_def same_state_def\<close>)
qed (auto simp: finished_def)

lemma valid_finish_backup:
  assumes ok: "backup_ok be ids" and sz: "4 \<le> rq_metadataChunkSize rq" and fp: "free_place path s0"
    and path: "path = snapshot_path (rq_snapshotID rq) (Revision (pl_remote pl) + 1)"
  shows "valid (\<lambda>bs. pack_inv be ids s0 pres bs \<and> cutting be (bs_maker bs)) (finish_backup be rq pl)
    (\<lambda>_ bs. finished be ids s0 path bs \<and> (\<not> dryRun (be_config be) \<longrightarrow> content (op_storage (bs_operator bs)) path \<noteq> None))
    (finished be ids s0 path)"
proof -
  let ?D = "\<lambda>s. \<not> dryRun (be_config be) \<longrightarrow> content s path \<noteq> None"
  let ?Q = "\<lambda>bs :: 's backup_state. finished be ids s0 path bs \<and> ?D (op_storage (bs_operator bs))"
  have upload: "valid (\<lambda>bs. pack_inv be ids s0 pres bs \<and> el = bs_list bs \<and> cache = bs_chunkCache bs)
      (on_operator (UploadSnapshot be (rq_snapshotID rq) sn el cache (rq_metadataChunkSize rq))) (\<lambda>_. ?Q) (finished be ids s0 path)"
    if sn: "Revision sn = Revision (pl_remote pl) + 1" "set (ChunkHashes sn) \<subseteq> string_bytes ` (set pres \<union> set (UploadedChunkHashes el))"
    for sn el cache
    unfolding on_operator_def
  proof (rule valid_zoom [where P' = "\<lambda>bs w. preserves ids s0 (op_storage w) \<and>
      all_stored (be_operator be) (op_storage w) (set (ChunkHashes sn)) (set cache)"])
    fix bs :: "'s backup_state" assume bs: "pack_inv be ids s0 pres bs \<and> el = bs_list bs \<and> cache = bs_chunkCache bs"
    then show "preserves ids s0 (op_storage (bs_operator bs)) \<and>
        all_stored (be_operator be) (op_storage (bs_operator bs)) (set (ChunkHashes sn)) (set cache)"
      using sn(2) unfolding pack_inv_def all_stored_def by blast
    from bs have c: "set cache \<subseteq> ids" by (simp add: pack_inv_def)
    have p: "path = snapshot_path (rq_snapshotID rq) (Revision sn)" using path sn(1) by simp
    show "valid (\<lambda>w. preserves ids s0 (op_storage w) \<and>
        all_stored (be_operator be) (op_storage w) (set (ChunkHashes sn)) (set cache))
      (UploadSnapshot be (rq_snapshotID rq) sn el cache (rq_metadataChunkSize rq))
      (\<lambda>_ w. published be ids s0 path (op_storage w) \<and> ?D (op_storage w)) (\<lambda>w. published be ids s0 path (op_storage w))"
      by (rule valid_UploadSnapshot [OF ok sz fp p c])
  qed (simp_all add: finished_def)
  have pub: "finished be ids s0 path bs" if "pack_kept ids s0 bs" for bs
    using that published_preserves [OF _ fp] by (simp add: pack_kept_def finished_def)
  have clean: "valid ?Q (bind_st
       (if dryRun (be_config be) then return_st ()
        else on_operator (CleanSnapshotCache (be_operator be) (be_codec be) (be_listBound be) (Some sn) None)) (\<lambda>_.
       return_st sn)) (\<lambda>_. ?Q) (finished be ids s0 path)" for sn
    by (rule valid_bind [where Q = "\<lambda>_. ?Q"], rule valid_if, rule valid_return, assumption, rule valid_clean_cache [OF ok],
        rule valid_return, assumption)
  show ?thesis
    unfolding finish_backup_def Let_def
  proof (rule valid_bind [where Q = "\<lambda>_. pack_inv be ids s0 pres"])
    show "valid (\<lambda>bs. pack_inv be ids s0 pres bs \<and> cutting be (bs_maker bs)) (pack_files be) (\<lambda>_. pack_inv be ids s0 pres)
        (finished be ids s0 path)"
      by (rule valid_weaken [OF valid_pack_files [OF ok]]) (auto intro: pub)
  next
    fix x :: unit
    let ?sn = "\<lambda>bs. local_snapshot be (rq_snapshotID rq) (rq_top rq) (rq_tag rq) (pl_hashMode pl) (rq_shadowCopy rq)
        (Revision (pl_remote pl)) (pl_preservedSize pl) (length (bs_skippedFiles bs)) (bs_list bs)"
    have tail: "valid (\<lambda>bs. pack_inv be ids s0 pres bs \<and> id bs = bs0) (bind_st (on_operator (UploadSnapshot be (rq_snapshotID rq) (?sn bs0)
          (bs_list bs0) (bs_chunkCache bs0) (rq_metadataChunkSize rq))) (\<lambda>((snapshot, el), counts).
        bind_st (if dryRun (be_config be) then return_st ()
          else on_operator (CleanSnapshotCache (be_operator be) (be_codec be) (be_listBound be) (Some snapshot) None)) (\<lambda>_.
         return_st snapshot))) (\<lambda>_. ?Q) (finished be ids s0 path)" for bs0 :: "'s backup_state"
    proof (cases "PreservedChunkHashes (bs_list bs0) = pres")
      case True
      show ?thesis
      proof (rule valid_bind)
        show "valid (\<lambda>bs. pack_inv be ids s0 pres bs \<and> id bs = bs0) (on_operator (UploadSnapshot be (rq_snapshotID rq) (?sn bs0)
            (bs_list bs0) (bs_chunkCache bs0) (rq_metadataChunkSize rq))) (\<lambda>_. ?Q) (finished be ids s0 path)"
          by (rule valid_pre [OF upload]) (use True in auto)
        show "valid ?Q (case y of (y, z) \<Rightarrow> (case y of (snapshot, el) \<Rightarrow> \<lambda>counts.
            bind_st (if dryRun (be_config be) then return_st ()
              else on_operator (CleanSnapshotCache (be_operator be) (be_codec be) (be_listBound be) (Some snapshot) None)) (\<lambda>_.
             return_st snapshot)) z) (\<lambda>_. ?Q) (finished be ids s0 path)" for y
          by (cases y; cases "fst y") (simp only: prod.case fst_conv clean)
      qed
    qed (auto simp: valid_def pack_inv_def)
    show "valid (pack_inv be ids s0 pres) (bind_st (get_st id) (\<lambda>bs. bind_st (on_operator (UploadSnapshot be (rq_snapshotID rq) (?sn bs)
          (bs_list bs) (bs_chunkCache bs) (rq_metadataChunkSize rq))) (\<lambda>((snapshot, el), counts).
        bind_st (if dryRun (be_config be) then return_st ()
          else on_operator (CleanSnapshotCache (be_operator be) (be_codec be) (be_listBound be) (Some snapshot) None)) (\<lambda>_.
         return_st snapshot)))) (\<lambda>_. ?Q) (finished be ids s0 path)"
      by (rule valid_bind_get, rule valid_pre [OF tail]) simp
  qed
qed

text \<open>The hypotheses about the plan: the chunks in the cache and the preserved ones are stored, and
  nothing has been uploaded yet.\<close>

definition plan_stored :: "'s backup_env \<Rightarrow> string set \<Rightarrow> backup_plan \<Rightarrow> 's \<Rightarrow> bool" where
  "plan_stored be ids pl s \<longleftrightarrow> set (pl_chunkCache pl) \<subseteq> ids \<and> UploadedChunkHashes (pl_list pl) = [] \<and>
     (\<forall>i \<in> set (pl_chunkCache pl). present i s) \<and>
     (\<forall>h \<in> set (PreservedChunkHashes (pl_list pl)). hash_stored (be_operator be) s (string_bytes h))"

lemma run_backup_finished:
  assumes ok: "backup_ok be ids" and ready: "\<forall>j \<in> ids. ready j (op_storage (bw_operator b))"
    and sizes: "0 < MinimumChunkSize (be_config be)" "MinimumChunkSize (be_config be) < MaximumChunkSize (be_config be)"
      "4 \<le> rq_metadataChunkSize rq"
    and fp: "free_place path (op_storage (bw_operator b))"
    and path: "path = snapshot_path (rq_snapshotID rq) (Revision (pl_remote pl) + 1)"
    and pl: "plan_stored be ids pl (op_storage (bw_operator b))"
    and run: "run_backup be rq pl b = (r, b')"
  shows "published be ids (op_storage (bw_operator b)) path (op_storage (bw_operator b')) \<and>
    ((\<exists>sn. r = Inr sn) \<longrightarrow> \<not> dryRun (be_config be) \<longrightarrow> content (op_storage (bw_operator b')) path \<noteq> None)"
proof -
  let ?s = "op_storage (bw_operator b)"
  have same: "published be ids ?s path ?s" using published_preserves [OF preserves_refl [OF ready] fp] .
  show ?thesis
  proof (cases "NumberOfEntries (pl_list pl) = 0 \<or>
      (\<exists>exn. CreateFileChunkMaker (rt_hashes (env_runtime (be_operator be))) (be_config be) False = Inl exn)")
    case True
    with run same show ?thesis by (auto simp: run_backup_def split: if_splits)
  next
    case False
    then obtain mk where n: "NumberOfEntries (pl_list pl) \<noteq> 0"
      and mk: "CreateFileChunkMaker (rt_hashes (env_runtime (be_operator be))) (be_config be) False = Inr mk"
      by (metis obj_sumE)
    then have cut: "cutting be mk" using created_maker_inv(1) [OF mk sizes(1,2)] by (auto simp: cutting_def)
    let ?bs = "start_backup mk pl (bw_operator b)"
    have start: "pack_inv be ids ?s (PreservedChunkHashes (pl_list pl)) ?bs \<and> cutting be (bs_maker ?bs)"
      using pl cut preserves_refl [OF ready] by (auto simp: pack_inv_def start_backup_def plan_stored_def all_stored_def)
    note v = validD [OF valid_finish_backup [OF ok sizes(3) fp path] start]
    obtain x bs where f: "finish_backup be rq pl ?bs = (x, bs)" by force
    show ?thesis
    proof (cases x)
      case (Inl e)
      with run n mk f v(2) show ?thesis by (auto simp: run_backup_def finished_def)
    next
      case (Inr sn)
      with run n mk f v(1) show ?thesis by (auto simp: run_backup_def finished_def)
    qed
  qed
qed

end

text \<open>C1: a backup never leaves a snapshot behind whose chunks are not all in the storage. Whatever the outcome of
  the part of a backup that uploads, success or a failure at any point: all files that were in the storage
  are still there with the same content; if there is a file for the new snapshot afterwards, it is the encrypted
  description of a snapshot all of whose chunks, those of its three sequences and those of its files, are
  stored; and if the backup succeeds, there is such a file. This holds when the chunks in the cache, those of the
  previous snapshot, and the preserved chunks were in the storage.\<close>

theorem backup_publishes_complete_snapshot:
  assumes "disk.backup_ok be ids" and "\<forall>j \<in> ids. disk.ready j (op_storage (bw_operator b))"
    and "0 < MinimumChunkSize (be_config be)" and "MinimumChunkSize (be_config be) < MaximumChunkSize (be_config be)"
    and "4 \<le> rq_metadataChunkSize rq" and "\<not> dryRun (be_config be)"
    and "path = snapshot_path (rq_snapshotID rq) (Revision (pl_remote pl) + 1)"
    and "disk.free_place path (op_storage (bw_operator b))"
    and "disk.plan_stored be ids pl (op_storage (bw_operator b))"
    and "run_backup be rq pl b = (r, b')"
  shows "(\<forall>p c. file_content (op_storage (bw_operator b)) p = Some c \<longrightarrow> \<not> HasSuffix p ''.tmp'' \<longrightarrow>
      file_content (op_storage (bw_operator b')) p = Some c) \<and>
    (file_content (op_storage (bw_operator b')) path \<noteq> None \<longrightarrow>
      (\<exists>sn. disk.described_by be path (op_storage (bw_operator b')) sn)) \<and>
    ((\<exists>sn. r = Inr sn) \<longrightarrow> file_content (op_storage (bw_operator b')) path \<noteq> None)"
  using disk.run_backup_finished [OF assms(1-5,8,7,9,10)] assms(6) unfolding disk.published_def by blast

text \<open>A backup of two files, of which one cannot be opened, to a storage that has two chunks.\<close>

definition example_backup_env :: "file_storage backup_env" where
  "example_backup_env = \<lparr>
     be_operator = padded_env\<lparr>env_config := CreateConfig\<lparr>AverageChunkSize := 4, MinimumChunkSize := 2, MaximumChunkSize := 8\<rparr>\<rparr>,
     be_codec = \<lparr>json_Marshal = (\<lambda>v. Inr [1, 2, 3]), json_Unmarshal = (\<lambda>bs. Inl (GoErr ''json''))\<rparr>,
     be_values = (\<lambda>bs. Inl EOF), be_msgpack = sample_msgpack, be_sha256 = id, be_skipFileHash = False,
     be_listing = Inr ([], [], []),
     be_open = (\<lambda>p. if p = ''b'' then Inr [([7], None), ([8, 9], Some EOF)] else Inl (GoErr ''permission denied'')),
     be_keepAlive = (\<lambda>i. False), be_chunkToFail = -1, be_failSnapshot = False, be_fastListing = False, be_listBound = 100,
     be_openError = None, be_closeError = None, be_loadFaults = no_load_faults, be_saveFaults = no_save_faults,
     be_removeErrors = (\<lambda>f. None), be_encodeList = (\<lambda>el. Inr []), be_decodeList = (\<lambda>bs. Inl EOF),
     be_token = Inr ''t'', be_startTime = 1, be_endTime = 2, be_stamp = ''x'', be_os = ''linux'', be_hostname = ''h''\<rparr>"

definition example_plan :: backup_plan where
  "example_plan = \<lparr>pl_remote = zero_snapshot, pl_hashMode = True, pl_chunkCache = [chunk7],
     pl_list = empty_list\<lparr>
       entries := [CreateEntry ''a'' (-1) 0 0x1A4, CreateEntry ''b'' (-1) 0 0x1A4],
       ModifiedEntries := [\<lparr>me_Path = ''a'', me_Size = -1, me_Hash = []\<rparr>, \<lparr>me_Path = ''b'', me_Size = -1, me_Hash = []\<rparr>],
       NumberOfEntries := 2\<rparr>,
     pl_preservedSize = 0, pl_skippedFiles = []\<rparr>"

definition example_request :: backup_request where
  "example_request = \<lparr>rq_snapshotID = ''s'', rq_top = ''/top'', rq_quickMode = True, rq_tag = [], rq_shadowCopy = False,
     rq_enumOnly = False, rq_metadataChunkSize = 16, rq_maximumInMemoryEntries = -1\<rparr>"

definition example_world :: "file_storage backup_world" where
  "example_world = \<lparr>bw_operator = example_state\<lparr>snapshotCache := Some (sample_store
       \<lparr>fileTree := [([''store''], Dir), ([''store'', ''chunks''], Dir), ([''store'', ''snapshots''], Dir)]\<rparr>)\<rparr>,
     bw_dir = (\<lambda>f. None)\<rparr>"

lemma example_id: "chunk7 \<in> all_ids padded_env"
  unfolding all_ids_def padded_id using example_hex(1) [symmetric] by (intro CollectI exI)

lemma example_backup_ok: "disk.backup_ok example_backup_env (all_ids padded_env)"
proof -
  have "hash_id (be_operator example_backup_env) = hash_id padded_env"
    by (intro ext) (simp add: hash_id_def example_backup_env_def padded_env_def GetChunkIDFromHash_def NewKeyedHasher_def
      CreateConfig_def zero_config_def)
  then have "all_ids (be_operator example_backup_env) = all_ids padded_env" by (simp add: all_ids_def)
  then show ?thesis
    using example_id by (auto simp: disk.backup_ok_def example_backup_env_def padded_env_def split: if_splits)
qed

lemma example_sizes:
  "0 < MinimumChunkSize (be_config example_backup_env)"
  "MinimumChunkSize (be_config example_backup_env) < MaximumChunkSize (be_config example_backup_env)"
  "4 \<le> rq_metadataChunkSize example_request" "\<not> dryRun (be_config example_backup_env)"
  "snapshot_path ''s'' 1 = snapshot_path (rq_snapshotID example_request) (Revision (pl_remote example_plan) + 1)"
  by (code_simp; simp)+

lemma example_backup_ready: "\<forall>j \<in> all_ids padded_env. disk.ready j (op_storage (bw_operator example_world))"
  using example_ready by (simp add: example_world_def example_pe_def)

lemma example_free_place: "disk.free_place (snapshot_path ''s'' 1) (op_storage (bw_operator example_world))"
  unfolding disk.free_place_def by code_simp

lemma example_plan_stored: "disk.plan_stored example_backup_env (all_ids padded_env) example_plan (op_storage (bw_operator example_world))"
  using example_id example_stored by (simp add: disk.plan_stored_def disk.present_def example_plan_def example_world_def empty_list_def)

theorem backup_publishes_complete_snapshot_witness:
  "case run_backup example_backup_env example_request example_plan example_world of (r, b') \<Rightarrow>
    (\<forall>p c. file_content (op_storage (bw_operator example_world)) p = Some c \<longrightarrow> \<not> HasSuffix p ''.tmp'' \<longrightarrow>
      file_content (op_storage (bw_operator b')) p = Some c) \<and>
    (file_content (op_storage (bw_operator b')) (snapshot_path ''s'' 1) \<noteq> None \<longrightarrow>
      (\<exists>sn. disk.described_by example_backup_env (snapshot_path ''s'' 1) (op_storage (bw_operator b')) sn)) \<and>
    ((\<exists>sn. r = Inr sn) \<longrightarrow> file_content (op_storage (bw_operator b')) (snapshot_path ''s'' 1) \<noteq> None)"
  using backup_publishes_complete_snapshot [OF example_backup_ok example_backup_ready example_sizes example_free_place
      example_plan_stored surjective_pairing [of "run_backup example_backup_env example_request example_plan example_world"]]
  by (simp add: case_prod_beta)

end
