(* ===== verification/Filters.thy ===== *)
theory Filters
  imports Wildcard StateExn FileSystem
begin

text \<open>
  The filters that decide which files are backed up or restored: \<open>ProcessFilters\<close> and the functions it
  uses (\<open>duplicacy_snapshot.go\<close>), which read the patterns from a file and the files it includes, and
  \<open>MatchPath\<close> (\<open>duplicacy_utils.go\<close>), which applies them to a path.

  The state is \<open>RegexMap\<close>, the compiled regular expressions by their source. The package \<open>regexp\<close> is a
  parameter \<open>compile\<close>; a compiled expression is the predicate that its \<open>MatchString\<close> decides. The files are
  an association list from paths to contents, and \<open>getwd\<close> is the current directory. \<open>strings.TrimSpace\<close> is
  that of ASCII text.

  Shown here: whatever files include each other, reading the filters ends; what it returns are patterns
  without duplicates each of which starts with one of the four marks and, if it is a regular expression, is in
  the map; and for such patterns \<open>MatchPath\<close> decides by the first one that matches.
\<close>

section \<open>Paths as strings\<close>

text \<open>\<open>path.Clean\<close>: \<open>..\<close> removes the component before it, unless there is none or it is \<open>..\<close> itself.\<close>

fun clean_component :: "bool \<Rightarrow> string list \<Rightarrow> string \<Rightarrow> string list" where
  "clean_component rooted out c =
     (if c = [] \<or> c = ''.'' then out
      else if c = ''..'' then
        (if out \<noteq> [] \<and> last out \<noteq> ''..'' then butlast out else if rooted then out else out @ [c])
      else out @ [c])"

definition Clean :: "string \<Rightarrow> string" where
  "Clean path =
     (let rooted = HasPrefix path ''/''; cs = foldl (clean_component rooted) [] (split_slash path);
          s = join_slash cs
      in if rooted then ''/'' @ s else if s = [] then ''.'' else s)"

definition joinPath :: "string \<Rightarrow> string \<Rightarrow> string" where
  "joinPath a b =
     (if a = [] \<and> b = [] then [] else if a = [] then Clean b else if b = [] then Clean a else Clean (a @ ''/'' @ b))"

text \<open>\<open>filepath.Dir\<close>: the path up to and including the last slash, cleaned.\<close>

definition path_Dir :: "string \<Rightarrow> string" where
  "path_Dir path = Clean (rev (dropWhile (\<lambda>c. c \<noteq> CHR ''/'') (rev path)))"

section \<open>Reading the filters\<close>

type_synonym regex = "string \<Rightarrow> bool"
type_synonym regex_map = "(string \<times> regex) list"

record filter_env =
  fe_compile :: "string \<Rightarrow> goerror + regex"
  fe_files :: "(string \<times> string) list"
  fe_getwd :: string

definition AppendPattern :: "string list \<Rightarrow> string \<Rightarrow> string list" where
  "AppendPattern patterns new_pattern =
     (if new_pattern \<in> set patterns then patterns else patterns @ [new_pattern])"

definition IsEmptyFilter :: "string \<Rightarrow> bool" where
  "IsEmptyFilter pattern \<longleftrightarrow> pattern = ''+'' \<or> pattern = ''-'' \<or> pattern = ''i:'' \<or> pattern = ''e:''"

definition is_regex :: "string \<Rightarrow> bool" where
  "is_regex pattern \<longleftrightarrow> HasPrefix pattern ''i:'' \<or> HasPrefix pattern ''e:''"

definition IsUnspecifiedFilter :: "string \<Rightarrow> bool" where
  "IsUnspecifiedFilter pattern \<longleftrightarrow>
     \<not> HasPrefix pattern ''+'' \<and> \<not> HasPrefix pattern ''-'' \<and> \<not> HasPrefix pattern ''i:'' \<and> \<not> HasPrefix pattern ''e:''"

definition IsValidRegex :: "filter_env \<Rightarrow> string \<Rightarrow> (regex_map, bool \<times> goerror option) prog" where
  "IsValidRegex fe pattern =
     bind_st (get_st (\<lambda>m. map_of m pattern)) (\<lambda>re.
       case re of
         Some _ \<Rightarrow> return_st (True, None)
       | None \<Rightarrow>
           (case fe_compile fe pattern of
              Inl err \<Rightarrow> return_st (False, Some err)
            | Inr re \<Rightarrow> bind_st (modify_st (\<lambda>m. (pattern, re) # m)) (\<lambda>_. return_st (True, None))))"

text \<open>A line that is a pattern: the mark \<open>+\<close> is added where none is given.\<close>

definition filter_pattern :: "filter_env \<Rightarrow> string \<Rightarrow> string list \<Rightarrow> (regex_map, string list) prog" where
  "filter_pattern fe pattern patterns =
     (let pattern = (if IsUnspecifiedFilter pattern then ''+'' @ pattern else pattern) in
      if IsEmptyFilter pattern then return_st patterns
      else if is_regex pattern then
        bind_st (IsValidRegex fe (drop 2 pattern)) (\<lambda>(valid, err).
          if \<not> valid \<or> err \<noteq> None then raise_st (LogError ''SNAPSHOT_FILTER'')
          else return_st (AppendPattern patterns pattern))
      else return_st (AppendPattern patterns pattern))"

text \<open>The name of the file that a line starting with \<open>@\<close> includes, relative to the including file.\<close>

definition include_path :: "filter_env \<Rightarrow> string list \<Rightarrow> string \<Rightarrow> string" where
  "include_path fe includedFiles name =
     (if HasPrefix name ''/'' then name
      else joinPath (if includedFiles = [] then fe_getwd fe else path_Dir (last includedFiles)) name)"

text \<open>\<open>strings.Split(content, "\\n")\<close>.\<close>

fun split_lines :: "string \<Rightarrow> string list" where
  "split_lines [] = [[]]"
| "split_lines (c # s) =
     (if c = CHR 0x0A then [] # split_lines s
      else case split_lines s of [] \<Rightarrow> [[c]] | l # ls \<Rightarrow> (c # l) # ls)"

definition files_left :: "filter_env \<Rightarrow> string list \<Rightarrow> nat" where
  "files_left fe includedFiles = card (fst ` set (fe_files fe) - set includedFiles)"

text \<open>The loop over the lines, with \<open>ProcessFilterFile\<close> for an included file. The files that can still be read
  become fewer with every file included, since a file that has been included raises an error.\<close>

function ProcessFilterLines ::
  "filter_env \<Rightarrow> string list \<Rightarrow> string list \<Rightarrow> string list \<Rightarrow> (regex_map, string list) prog"
and ProcessFilterFile :: "filter_env \<Rightarrow> string \<Rightarrow> string list \<Rightarrow> (regex_map, string list) prog" where
  "ProcessFilterLines fe [] includedFiles patterns = return_st patterns"
| "ProcessFilterLines fe (line # lines) includedFiles patterns =
     (let pattern = TrimSpace line in
      if pattern = [] then ProcessFilterLines fe lines includedFiles patterns
      else if HasPrefix pattern ''@'' then
        (let name = TrimSpace (drop 1 pattern) in
         if name = [] then ProcessFilterLines fe lines includedFiles patterns
         else bind_st (ProcessFilterFile fe (include_path fe includedFiles name) includedFiles) (\<lambda>included.
           ProcessFilterLines fe lines includedFiles (foldl AppendPattern patterns included)))
      else if HasPrefix pattern ''#'' then ProcessFilterLines fe lines includedFiles patterns
      else bind_st (filter_pattern fe pattern patterns) (ProcessFilterLines fe lines includedFiles))"
| "ProcessFilterFile fe patternFile includedFiles =
     (if patternFile \<in> set includedFiles then raise_st (LogError ''SNAPSHOT_FILTER'')
      else case map_of (fe_files fe) patternFile of
        None \<Rightarrow> return_st []
      | Some content \<Rightarrow> ProcessFilterLines fe (split_lines content) (includedFiles @ [patternFile]) [])"
  by pat_completeness auto
termination
proof (relation "measures
    [\<lambda>x. case x of Inl (fe, _, inc, _) \<Rightarrow> files_left fe inc | Inr (fe, _, inc) \<Rightarrow> files_left fe inc,
     \<lambda>x. case x of Inl (_, ls, _) \<Rightarrow> length ls | Inr _ \<Rightarrow> 0]", goal_cases)
  case (8 fe patternFile includedFiles content)
  then have "patternFile \<in> fst ` set (fe_files fe) - set includedFiles"
    by (auto dest!: map_of_SomeD intro: rev_image_eqI)
  then have "fst ` set (fe_files fe) - set (includedFiles @ [patternFile]) \<subset> fst ` set (fe_files fe) - set includedFiles"
    by auto
  then show ?case by (simp add: files_left_def psubset_card_mono)
qed auto

definition ProcessFilters :: "filter_env \<Rightarrow> string \<Rightarrow> (regex_map, string list) prog" where
  "ProcessFilters fe filtersFile = ProcessFilterFile fe filtersFile []"

section \<open>Matching a path\<close>

text \<open>Whether a regular expression matches; one that is not in the map is compiled together with its mark.\<close>

definition match_regex :: "(string \<Rightarrow> goerror + regex) \<Rightarrow> string \<Rightarrow> string \<Rightarrow> (regex_map, bool) prog" where
  "match_regex compile filePath pattern =
     bind_st (get_st (\<lambda>m. map_of m (drop 2 pattern))) (\<lambda>re.
       case re of
         Some re \<Rightarrow> return_st (re filePath)
       | None \<Rightarrow>
           (case compile pattern of
              Inl err \<Rightarrow> raise_st (LogError ''REGEX_ERROR'')
            | Inr re \<Rightarrow> bind_st (modify_st (\<lambda>m. (pattern, re) # m)) (\<lambda>_. return_st (re filePath))))"

text \<open>The wildcard matcher always returns (\<open>matchPattern_total\<close>).\<close>

definition wildcard :: "string \<Rightarrow> string \<Rightarrow> bool" where
  "wildcard filePath pattern \<longleftrightarrow> matchPattern filePath pattern = Some True"

fun match_patterns ::
  "(string \<Rightarrow> goerror + regex) \<Rightarrow> string \<Rightarrow> bool \<Rightarrow> string list \<Rightarrow> (regex_map, bool) prog" where
  "match_patterns compile filePath allIncludes [] = return_st (\<not> allIncludes)"
| "match_patterns compile filePath allIncludes (pattern # patterns) =
     (case pattern of
        [] \<Rightarrow> raise_st (Panic ''index out of range'')
      | mark # rest \<Rightarrow>
          if mark = CHR ''+'' then
            (if wildcard filePath rest then return_st True
             else match_patterns compile filePath allIncludes patterns)
          else if mark = CHR ''-'' then
            (if wildcard filePath rest then return_st False
             else match_patterns compile filePath False patterns)
          else if is_regex pattern then
            bind_st (match_regex compile filePath pattern) (\<lambda>matched.
              if matched then return_st (HasPrefix pattern ''i:'')
              else match_patterns compile filePath (allIncludes \<and> \<not> HasPrefix pattern ''e:'') patterns)
          else match_patterns compile filePath allIncludes patterns)"

definition MatchPath :: "(string \<Rightarrow> goerror + regex) \<Rightarrow> string \<Rightarrow> string list \<Rightarrow> (regex_map, bool) prog" where
  "MatchPath compile filePath patterns = match_patterns compile filePath True patterns"

section \<open>What the filters decide\<close>

text \<open>The patterns that the reader produces: marked, without duplicates, and compiled.\<close>

definition marked :: "string \<Rightarrow> bool" where
  "marked p \<longleftrightarrow> HasPrefix p ''+'' \<or> HasPrefix p ''-'' \<or> is_regex p"

definition compiled :: "regex_map \<Rightarrow> string \<Rightarrow> bool" where
  "compiled m p \<longleftrightarrow> (is_regex p \<longrightarrow> map_of m (drop 2 p) \<noteq> None)"

definition usable :: "regex_map \<Rightarrow> string list \<Rightarrow> bool" where
  "usable m ps \<longleftrightarrow> distinct ps \<and> (\<forall>p \<in> set ps. marked p \<and> compiled m p)"

definition faithful_map :: "filter_env \<Rightarrow> regex_map \<Rightarrow> bool" where
  "faithful_map fe m \<longleftrightarrow> (\<forall>p re. map_of m p = Some re \<longrightarrow> fe_compile fe p = Inr re)"

text \<open>Whether a pattern applies to a path, and the decision of the first one that does. Without one the path
  is excluded if there are only patterns that include.\<close>

definition applies :: "filter_env \<Rightarrow> string \<Rightarrow> string \<Rightarrow> bool" where
  "applies fe path p =
     (if is_regex p then (case fe_compile fe (drop 2 p) of Inr re \<Rightarrow> re path | Inl _ \<Rightarrow> False)
      else wildcard path (drop 1 p))"

definition is_include :: "string \<Rightarrow> bool" where
  "is_include p \<longleftrightarrow> HasPrefix p ''+'' \<or> HasPrefix p ''i:''"

definition included :: "filter_env \<Rightarrow> string list \<Rightarrow> string \<Rightarrow> bool" where
  "included fe ps path =
     (case List.find (applies fe path) ps of
        Some p \<Rightarrow> is_include p
      | None \<Rightarrow> \<not> list_all is_include ps)"

lemma marks:
  "HasPrefix (c # s) ''+'' \<longleftrightarrow> c = CHR ''+''" "HasPrefix (c # s) ''-'' \<longleftrightarrow> c = CHR ''-''"
  "is_regex (c # s) \<Longrightarrow> c \<noteq> CHR ''+'' \<and> c \<noteq> CHR ''-''"
  "is_regex [] \<longleftrightarrow> False" "HasPrefix [] ''+'' \<longleftrightarrow> False" "HasPrefix [] ''-'' \<longleftrightarrow> False"
  by (auto simp: HasPrefix_def is_regex_def)

lemma regex_marks: "is_regex p \<Longrightarrow> HasPrefix p ''i:'' \<longleftrightarrow> \<not> HasPrefix p ''e:''"
  by (auto simp: HasPrefix_def is_regex_def)

lemma match_patterns_run:
  assumes "\<forall>p \<in> set ps. marked p \<and> compiled m p" and "faithful_map fe m"
  shows "match_patterns (fe_compile fe) path b ps m =
    (Inr (case List.find (applies fe path) ps of Some p \<Rightarrow> is_include p | None \<Rightarrow> \<not> (b \<and> list_all is_include ps)), m)"
  using assms(1)
proof (induction ps arbitrary: b)
  case (Cons p ps)
  obtain mark rest where p: "p = mark # rest" using Cons.prems by (cases p) (auto simp: marked_def marks)
  note IH = Cons.IH [OF ballI [OF bspec [OF Cons.prems]], simplified]
  show ?case
  proof (cases "is_regex p")
    case True
    then obtain re where re: "map_of m (drop 2 p) = Some re" "fe_compile fe (drop 2 p) = Inr re"
      using Cons.prems assms(2) by (auto simp: compiled_def faithful_map_def)
    have "match_regex (fe_compile fe) path p m = (Inr (re path), m)" by (simp add: match_regex_def re(1))
    moreover have "applies fe path p = re path" using True re(2) by (simp add: applies_def)
    moreover have "is_include p \<longleftrightarrow> HasPrefix p ''i:''" "HasPrefix p ''e:'' \<longleftrightarrow> \<not> is_include p"
      using True marks(3) [of mark rest] regex_marks [of p] by (auto simp: is_include_def p marks(1))
    ultimately show ?thesis
      using True marks(3) [of mark rest] by (auto simp: p IH bind_st_def split: option.splits)
  next
    case False
    then have "mark = CHR ''+'' \<or> mark = CHR ''-''" using Cons.prems by (auto simp: p marked_def marks)
    moreover have "applies fe path p = wildcard path rest" using False by (simp add: applies_def p)
    moreover have "is_include p \<longleftrightarrow> mark = CHR ''+''"
      using False by (auto simp: is_include_def p marks(1) is_regex_def)
    ultimately show ?thesis by (auto simp: p IH split: option.splits)
  qed
qed simp

lemma MatchPath_run:
  assumes "usable m ps" and "faithful_map fe m"
  shows "MatchPath (fe_compile fe) path ps m = (Inr (included fe ps path), m)"
  using assms match_patterns_run [of ps m fe path True] by (simp add: MatchPath_def usable_def included_def split: option.split)

section \<open>What the reader produces\<close>

definition grows :: "regex_map \<Rightarrow> regex_map \<Rightarrow> bool" where
  "grows m m' \<longleftrightarrow> (\<forall>p re. map_of m p = Some re \<longrightarrow> map_of m' p = Some re)"

text \<open>What reading does to the map, and its outcome: usable patterns or the error of the reader.\<close>

definition reads :: "filter_env \<Rightarrow> regex_map \<Rightarrow> string list res \<times> regex_map \<Rightarrow> bool" where
  "reads fe m x = (case x of (r, m') \<Rightarrow> faithful_map fe m' \<and> grows m m' \<and>
     (case r of Inl e \<Rightarrow> e = LogError ''SNAPSHOT_FILTER'' | Inr ps \<Rightarrow> usable m' ps))"

lemma grows_trans: "grows m m' \<Longrightarrow> grows m' m'' \<Longrightarrow> grows m m''"
  and grows_refl [simp]: "grows m m"
  by (auto simp: grows_def)

lemma usable_grows: "usable m ps \<Longrightarrow> grows m m' \<Longrightarrow> usable m' ps"
  by (fastforce simp: usable_def compiled_def grows_def)

lemma usable_Append: "usable m ps \<Longrightarrow> marked p \<Longrightarrow> compiled m p \<Longrightarrow> usable m (AppendPattern ps p)"
  by (auto simp: usable_def AppendPattern_def)

lemma usable_appends: "usable m ps \<Longrightarrow> usable m qs \<Longrightarrow> usable m (foldl AppendPattern ps qs)"
proof (induction qs arbitrary: ps)
  case (Cons q qs)
  have "usable m (AppendPattern ps q)"
    using usable_Append [OF Cons.prems(1), of q] Cons.prems(2) by (simp add: usable_def [of m "q # qs"])
  moreover have "usable m qs" using Cons.prems(2) by (simp add: usable_def)
  ultimately show ?case using Cons.IH by simp
qed simp

lemma reads_bind:
  assumes "reads fe m (mm m)"
    and "\<And>ps m'. usable m' ps \<Longrightarrow> faithful_map fe m' \<Longrightarrow> grows m m' \<Longrightarrow> reads fe m' (f ps m')"
  shows "reads fe m (bind_st mm f m)"
proof -
  obtain r m' where mm: "mm m = (r, m')" by force
  show ?thesis
  proof (cases r)
    case (Inl e)
    with assms(1) mm show ?thesis by (simp add: reads_def bind_st_def)
  next
    case (Inr ps)
    with assms(1) mm have g: "usable m' ps" "faithful_map fe m'" "grows m m'" by (auto simp: reads_def)
    obtain r2 m2 where f: "f ps m' = (r2, m2)" by force
    with assms(2) [OF g] have "reads fe m' (r2, m2)" by simp
    then show ?thesis using g(3) by (simp add: bind_st_run(1) [of mm m ps m'] mm Inr f reads_def) (blast intro: grows_trans)
  qed
qed

lemma filter_pattern_reads:
  assumes "faithful_map fe m" and "usable m ps" and "p \<noteq> []"
  shows "reads fe m (filter_pattern fe p ps m)"
proof -
  let ?p = "if IsUnspecifiedFilter p then ''+'' @ p else p"
  have mk: "marked ?p" by (auto simp: IsUnspecifiedFilter_def marked_def is_regex_def HasPrefix_def)
  consider "IsEmptyFilter ?p" | "\<not> IsEmptyFilter ?p" "\<not> is_regex ?p" | "\<not> IsEmptyFilter ?p" "is_regex ?p" by blast
  then show ?thesis
  proof cases
    case 3
    have add: "grows m ((k, re) # m)" "faithful_map fe ((k, re) # m)" if "map_of m k = None" "fe_compile fe k = Inr re" for k re
      using that assms(1) by (auto simp: grows_def faithful_map_def)
    have "usable ((drop 2 ?p, re) # m) (AppendPattern ps ?p)" if "map_of m (drop 2 ?p) = None" "fe_compile fe (drop 2 ?p) = Inr re" for re
      using usable_Append [OF usable_grows [OF assms(2) add(1) [OF that]] mk] by (simp add: compiled_def)
    moreover have "usable m (AppendPattern ps ?p)" if "map_of m (drop 2 ?p) = Some re" for re
      using usable_Append [OF assms(2) mk] that by (simp add: compiled_def)
    ultimately show ?thesis
      using 3 add assms(1) unfolding filter_pattern_def Let_def
      by (cases "map_of m (drop 2 ?p)"; cases "fe_compile fe (drop 2 ?p)")
        (simp_all add: IsValidRegex_def reads_def bind_st_def split del: if_split)
  qed (use assms mk usable_Append [OF assms(2) mk] in \<open>auto simp: filter_pattern_def reads_def compiled_def Let_def split del: if_split\<close>)
qed

lemma reading:
  "faithful_map fe m \<Longrightarrow> usable m ps \<Longrightarrow> reads fe m (ProcessFilterLines fe ls inc ps m)"
  "faithful_map fe m' \<Longrightarrow> reads fe m' (ProcessFilterFile fe f inc m')"
proof (induction fe ls inc ps and fe f inc arbitrary: m and m' rule: ProcessFilterLines_ProcessFilterFile.induct)
  case (1 fe inc ps)
  then show ?case by (simp add: reads_def)
next
  case (2 fe l ls inc ps)
  let ?p = "TrimSpace l" and ?n = "TrimSpace (drop 1 (TrimSpace l))"
  consider (skip) "?p = [] \<or> (?p \<noteq> [] \<and> HasPrefix ?p ''@'' \<and> ?n = []) \<or> (?p \<noteq> [] \<and> \<not> HasPrefix ?p ''@'' \<and> HasPrefix ?p ''#'')"
    | (sub) "?p \<noteq> []" "HasPrefix ?p ''@''" "?n \<noteq> []"
    | (pattern) "?p \<noteq> []" "\<not> HasPrefix ?p ''@''" "\<not> HasPrefix ?p ''#''" by blast
  then show ?case
  proof cases
    case skip
    then show ?thesis using "2.IH"(1,2,5) "2.prems" by (auto simp: Let_def)
  next
    case sub
    have "reads fe m (bind_st (ProcessFilterFile fe (include_path fe inc ?n) inc)
        (\<lambda>included. ProcessFilterLines fe ls inc (foldl AppendPattern ps included)) m)"
    proof (rule reads_bind)
      show "reads fe m (ProcessFilterFile fe (include_path fe inc ?n) inc m)"
        by (rule "2.IH"(3) [OF refl sub(1,2) refl sub(3) "2.prems"(1)])
      show "reads fe m1 (ProcessFilterLines fe ls inc (foldl AppendPattern ps qs) m1)"
        if "usable m1 qs" "faithful_map fe m1" "grows m m1" for m1 qs
        by (rule "2.IH"(4) [OF refl sub(1,2) refl sub(3) that(2) usable_appends [OF usable_grows [OF "2.prems"(2) that(3)] that(1)]])
    qed
    with sub show ?thesis by (simp add: Let_def)
  next
    case pattern
    have "reads fe m (bind_st (filter_pattern fe ?p ps) (ProcessFilterLines fe ls inc) m)"
      by (rule reads_bind, rule filter_pattern_reads [OF "2.prems" pattern(1)])
        (rule "2.IH"(6) [OF refl pattern])
    with pattern show ?thesis by (simp add: Let_def)
  qed
next
  case (3 fe f inc)
  then show ?case
    by (cases "map_of (fe_files fe) f") (auto simp: reads_def usable_def)
qed

text \<open>C22: reading the filters ends for all files, also those that include each other. It either fails with
  the error of the reader or returns patterns without duplicates, and for these \<open>MatchPath\<close> never fails and
  leaves the map alone: the first pattern that applies decides, and without one the path is included
  exactly if there is a pattern that excludes.\<close>

theorem filters_decide:
  assumes "faithful_map fe m"
  shows "case ProcessFilters fe filtersFile m of
      (Inl e, m') \<Rightarrow> e = LogError ''SNAPSHOT_FILTER''
    | (Inr ps, m') \<Rightarrow> distinct ps \<and>
        (\<forall>path. MatchPath (fe_compile fe) path ps m' = (Inr (included fe ps path), m'))"
  using reading(2) [OF assms, of filtersFile "[]"]
  by (auto simp: ProcessFilters_def reads_def MatchPath_run usable_def split: prod.splits sum.splits)

definition sample_filters :: filter_env where
  "sample_filters = \<lparr>fe_compile = (\<lambda>src. Inr (\<lambda>path. Contains path src)),
     fe_files = [(''/p/filters'', ''@more'' @ [CHR 0x0A] @ ''-*.tmp'' @ [CHR 0x0A] @ ''# notes'' @ [CHR 0x0A] @ ''+a*''),
                 (''/p/more'', '' e:cache '' @ [CHR 0x0A, CHR 0x0A] @ ''a*'')],
     fe_getwd = ''/''\<rparr>"

theorem filters_decide_witness:
  "fst (ProcessFilters sample_filters ''/p/filters'' []) = Inr [''e:cache'', ''+a*'', ''-*.tmp''] \<and>
   (case ProcessFilters sample_filters ''/p/filters'' [] of
      (Inl e, m') \<Rightarrow> e = LogError ''SNAPSHOT_FILTER''
    | (Inr ps, m') \<Rightarrow> distinct ps \<and>
        (\<forall>path. MatchPath (fe_compile sample_filters) path ps m' = (Inr (included sample_filters ps path), m'))) \<and>
   \<not> included sample_filters [''e:cache'', ''+a*'', ''-*.tmp''] ''a/cache/x'' \<and>
   included sample_filters [''e:cache'', ''+a*'', ''-*.tmp''] ''a/x.tmp'' \<and>
   included sample_filters [''e:cache'', ''+a*'', ''-*.tmp''] ''b/x''"
proof -
  have "fst (ProcessFilters sample_filters ''/p/filters'' []) = Inr [''e:cache'', ''+a*'', ''-*.tmp'']"
    by code_simp
  moreover have "\<not> included sample_filters [''e:cache'', ''+a*'', ''-*.tmp''] ''a/cache/x''"
    "included sample_filters [''e:cache'', ''+a*'', ''-*.tmp''] ''a/x.tmp''"
    "included sample_filters [''e:cache'', ''+a*'', ''-*.tmp''] ''b/x''"
    by code_simp+
  ultimately show ?thesis
    using filters_decide [of sample_filters "[]" "''/p/filters''"] by (simp add: faithful_map_def)
qed

text \<open>A regular expression that the filter reader has not compiled is compiled together with its mark, so that
  it matches only paths with the mark in them.\<close>

lemma MatchPath_compiles_mark:
  assumes "is_regex p" and "map_of m (drop 2 p) = None" and "compile p = Inr re"
  shows "MatchPath compile path [p] m =
    (Inr (if re path then HasPrefix p ''i:'' else HasPrefix p ''e:''), (p, re) # m)"
proof -
  obtain mark rest where p: "p = mark # rest" using assms(1) by (cases p) (auto simp: marks)
  have "match_regex compile path p m = (Inr (re path), (p, re) # m)" using assms by (simp add: match_regex_def)
  then show ?thesis
    using assms(1) marks(3) [of mark rest] by (simp add: MatchPath_def p bind_st_def)
qed

end
