(* ===== verification/Attributes.thy ===== *)
theory Attributes
  imports Entry StateExn
begin

text \<open>
  The metadata of a file other than its content: the extended attributes and inode flags
  (\<open>duplicacy_xattr_linux.go\<close>, \<open>duplicacy_utils_linux.go\<close>) and \<open>RestoreMetadata\<close> (\<open>duplicacy_entry.go\<close>)
  with \<open>SetOwner\<close> (\<open>duplicacy_utils_others.go\<close>). The variants of other systems are not modelled.

  The system calls on one file are the parameter \<open>file_calls\<close>, functions on the state \<open>'f\<close> of that file;
  the locale \<open>attribute_store\<close> states what the calls for attributes promise, in terms of the attributes that a
  file has, and \<open>posix_calls\<close> is an instance. \<open>setAttributesToFile\<close> changes the map of the entry; the
  map it leaves behind is part of the result.
\<close>

section \<open>System calls\<close>

datatype flags_error = NotSupported | FlagsError goerror

record 'f file_calls =
  fc_LList :: "'f \<Rightarrow> goerror + string list"
  fc_LGet :: "string \<Rightarrow> 'f \<Rightarrow> goerror + bytes"
  fc_LSet :: "string \<Rightarrow> bytes \<Rightarrow> 'f \<Rightarrow> goerror option \<times> 'f"
  fc_LRemove :: "string \<Rightarrow> 'f \<Rightarrow> goerror option \<times> 'f"
  fc_open :: "'f \<Rightarrow> goerror option"
  fc_GetFlags :: "'f \<Rightarrow> flags_error + 32 word"
  fc_SetFlags :: "32 word \<Rightarrow> 'f \<Rightarrow> goerror option \<times> 'f"
  fc_Lstat :: "'f \<Rightarrow> goerror + file_info"
  fc_Lchown :: "int \<Rightarrow> int \<Rightarrow> 'f \<Rightarrow> goerror option \<times> 'f"
  fc_Chmod :: "32 word \<Rightarrow> 'f \<Rightarrow> goerror option \<times> 'f"
  fc_Chtimes :: "int \<Rightarrow> 'f \<Rightarrow> goerror option \<times> 'f"

text \<open>A call that changes the file.\<close>

definition call :: "('f \<Rightarrow> goerror option \<times> 'f) \<Rightarrow> ('f, goerror option) prog" where
  "call m f = (case m f of (err, f) \<Rightarrow> (Inr err, f))"

text \<open>\<open>errors.Join\<close>: no error exactly if both are none.\<close>

definition Join :: "goerror option \<Rightarrow> goerror option \<Rightarrow> goerror option" where
  "Join err err' = (case err of None \<Rightarrow> err' | Some e \<Rightarrow> Some e)"

section \<open>Flags\<close>

definition FS_SECRM :: "32 word" where "FS_SECRM = 0x00000001"
definition FS_UNRM :: "32 word" where "FS_UNRM = 0x00000002"
definition FS_COMPR :: "32 word" where "FS_COMPR = 0x00000004"
definition FS_SYNC :: "32 word" where "FS_SYNC = 0x00000008"
definition FS_IMMUTABLE :: "32 word" where "FS_IMMUTABLE = 0x00000010"
definition FS_APPEND :: "32 word" where "FS_APPEND = 0x00000020"
definition FS_NODUMP :: "32 word" where "FS_NODUMP = 0x00000040"
definition FS_NOATIME :: "32 word" where "FS_NOATIME = 0x00000080"
definition FS_NOCOMP :: "32 word" where "FS_NOCOMP = 0x00000400"
definition FS_JOURNAL_DATA :: "32 word" where "FS_JOURNAL_DATA = 0x00004000"
definition FS_NOTAIL :: "32 word" where "FS_NOTAIL = 0x00008000"
definition FS_DIRSYNC :: "32 word" where "FS_DIRSYNC = 0x00010000"
definition FS_TOPDIR :: "32 word" where "FS_TOPDIR = 0x00020000"
definition FS_NOCOW :: "32 word" where "FS_NOCOW = 0x00800000"
definition FS_PROJINHERIT :: "32 word" where "FS_PROJINHERIT = 0x20000000"
definition FS_CASEFOLD :: "32 word" where "FS_CASEFOLD = 0x40000000"

definition linuxIocFlagsFileEarly :: "32 word" where
  "linuxIocFlagsFileEarly = FS_SECRM OR FS_UNRM OR FS_COMPR OR FS_NODUMP OR FS_NOATIME OR FS_NOCOMP OR
     FS_JOURNAL_DATA OR FS_NOTAIL OR FS_NOCOW"

definition linuxIocFlagsDirEarly :: "32 word" where
  "linuxIocFlagsDirEarly = FS_TOPDIR OR FS_PROJINHERIT OR FS_CASEFOLD"

definition linuxIocFlagsLate :: "32 word" where
  "linuxIocFlagsLate = FS_SYNC OR FS_IMMUTABLE OR FS_APPEND OR FS_DIRSYNC"

lemmas flag_defs = FS_SECRM_def FS_UNRM_def FS_COMPR_def FS_SYNC_def FS_IMMUTABLE_def FS_APPEND_def FS_NODUMP_def
  FS_NOATIME_def FS_NOCOMP_def FS_JOURNAL_DATA_def FS_NOTAIL_def FS_DIRSYNC_def FS_TOPDIR_def FS_NOCOW_def
  FS_PROJINHERIT_def FS_CASEFOLD_def linuxIocFlagsFileEarly_def linuxIocFlagsDirEarly_def linuxIocFlagsLate_def

definition linuxFileFlagsKey :: string where
  "linuxFileFlagsKey = [CHR 0x00, CHR ''L'']"

definition LittleEndian_Uint32 :: "bytes \<Rightarrow> 32 word res" where
  "LittleEndian_Uint32 v =
     (if length v < 4 then Inl (Panic ''index out of range'') else Inr (of_nat (le_nat (take 4 v))))"

section \<open>Reading\<close>

text \<open>The map of the attributes, which is created if there is none.\<close>

definition put_attribute :: "string \<Rightarrow> bytes \<Rightarrow> entry \<Rightarrow> entry" where
  "put_attribute name v e =
     e\<lparr>Attributes := Some (AList.update name v (case Attributes e of None \<Rightarrow> [] | Some as \<Rightarrow> as))\<rparr>"

fun read_each :: "'f file_calls \<Rightarrow> 'f \<Rightarrow> string list \<Rightarrow> goerror option \<Rightarrow> entry \<Rightarrow> goerror option \<times> entry" where
  "read_each c f [] allErrors e = (allErrors, e)"
| "read_each c f (name # names) allErrors e =
     (case fc_LGet c name f of
        Inl err \<Rightarrow> read_each c f names (Join allErrors (Some err)) e
      | Inr v \<Rightarrow> read_each c f names allErrors (put_attribute name v e))"

definition readAttributes :: "'f file_calls \<Rightarrow> 'f \<Rightarrow> entry \<Rightarrow> goerror option \<times> entry" where
  "readAttributes c f e =
     (case fc_LList c f of
        Inl err \<Rightarrow> (Some err, e)
      | Inr names \<Rightarrow> read_each c f names None (if names \<noteq> [] then e\<lparr>Attributes := Some []\<rparr> else e))"

definition readFileFlags :: "'f file_calls \<Rightarrow> 'f \<Rightarrow> entry \<Rightarrow> goerror option \<times> entry" where
  "readFileFlags c f e =
     (if \<not> (IsFile e \<or> IsDir e) then (None, e)
      else case fc_open c f of
        Some err \<Rightarrow> (Some err, e)
      | None \<Rightarrow>
          (case fc_GetFlags c f of
             Inl NotSupported \<Rightarrow> (None, e)
           | Inl (FlagsError err) \<Rightarrow> (Some err, e)
           | Inr flags \<Rightarrow>
               let flags = flags AND (linuxIocFlagsDirEarly OR linuxIocFlagsFileEarly OR linuxIocFlagsDirEarly)
               in if flags \<noteq> 0 then (None, put_attribute linuxFileFlagsKey (le_bytes 4 (unat flags)) e) else (None, e)))"

definition excludedByAttribute :: "(string \<times> bytes) list \<Rightarrow> bool res" where
  "excludedByAttribute attributes =
     (if map_of attributes ''user.duplicacy_exclude'' \<noteq> None then Inr True
      else case map_of attributes linuxFileFlagsKey of
        None \<Rightarrow> Inr False
      | Some flags \<Rightarrow> bind_res (LittleEndian_Uint32 flags) (\<lambda>w. Inr (w AND FS_NODUMP \<noteq> 0)))"

section \<open>Restoring attributes\<close>

text \<open>The attributes that the file has: those of the entry are set and taken out of its map, the others are
  removed.\<close>

fun set_existing ::
  "'f file_calls \<Rightarrow> string list \<Rightarrow> goerror option \<Rightarrow> (string \<times> bytes) list \<Rightarrow>
     ('f, goerror option \<times> (string \<times> bytes) list) prog" where
  "set_existing c [] err attributes = return_st (err, attributes)"
| "set_existing c (name # names) err attributes =
     (case map_of attributes name of
        Some newAttribute \<Rightarrow>
          bind_st (get_st (\<lambda>f. case fc_LGet c name f of Inl _ \<Rightarrow> [] | Inr v \<Rightarrow> v)) (\<lambda>oldAttribute.
          bind_st
            (if oldAttribute \<noteq> newAttribute
             then bind_st (call (fc_LSet c name newAttribute)) (\<lambda>e. return_st (Join err e))
             else return_st err) (\<lambda>err.
            set_existing c names err (AList.delete name attributes)))
      | None \<Rightarrow>
          bind_st (call (fc_LRemove c name)) (\<lambda>e. set_existing c names (Join err e) attributes))"

text \<open>The remaining ones, in the order of the list; that of a Go map is not determined.\<close>

fun set_remaining ::
  "'f file_calls \<Rightarrow> (string \<times> bytes) list \<Rightarrow> goerror option \<Rightarrow> ('f, goerror option) prog" where
  "set_remaining c [] err = return_st err"
| "set_remaining c ((name, attribute) # attributes) err =
     (if name \<noteq> [] \<and> hd name = CHR 0x00 then set_remaining c attributes err
      else bind_st (call (fc_LSet c name attribute)) (\<lambda>e. set_remaining c attributes (Join err e)))"

definition setAttributesToFile :: "'f file_calls \<Rightarrow> entry \<Rightarrow> ('f, goerror option \<times> entry) prog" where
  "setAttributesToFile c e =
     (case Attributes e of
        None \<Rightarrow> return_st (None, e)
      | Some attributes \<Rightarrow>
          if attributes = [] then return_st (None, e)
          else if map_of attributes linuxFileFlagsKey \<noteq> None \<and> length attributes \<le> 1 then return_st (None, e)
          else
            bind_st (get_st (fc_LList c)) (\<lambda>r.
              case r of
                Inl err \<Rightarrow> return_st (Some err, e)
              | Inr names \<Rightarrow>
                  bind_st (set_existing c names None attributes) (\<lambda>(err, attributes).
                  bind_st (set_remaining c attributes err) (\<lambda>err.
                    return_st (err, e\<lparr>Attributes := Some attributes\<rparr>)))))"

text \<open>The flags of a file are set before its content is written or after everything else. \<open>allowed\<close> are the
  flags of the stage.\<close>

definition stored_flags :: "entry \<Rightarrow> 32 word \<Rightarrow> 32 word \<Rightarrow> 32 word res" where
  "stored_flags e allowed excluded =
     (case Attributes e of
        None \<Rightarrow> Inr 0
      | Some attributes \<Rightarrow>
          (case map_of attributes linuxFileFlagsKey of
             None \<Rightarrow> Inr 0
           | Some v \<Rightarrow> bind_res (LittleEndian_Uint32 v) (\<lambda>w. Inr (w AND allowed AND (NOT excluded)))))"

definition restore_flags :: "'f file_calls \<Rightarrow> entry \<Rightarrow> 32 word \<Rightarrow> 32 word \<Rightarrow> ('f, goerror option) prog" where
  "restore_flags c e allowed excluded =
     (if Attributes e = None \<or> excluded = -1 then return_st None
      else bind_st (lift_res (stored_flags e allowed excluded)) (\<lambda>flags.
        if flags = 0 then return_st None
        else bind_st (get_st (fc_open c)) (\<lambda>err.
          if err \<noteq> None then return_st err else call (fc_SetFlags c flags))))"

definition restoreEarlyDirFlags :: "'f file_calls \<Rightarrow> entry \<Rightarrow> 32 word \<Rightarrow> ('f, goerror option) prog" where
  "restoreEarlyDirFlags c e excluded = restore_flags c e linuxIocFlagsDirEarly excluded"

text \<open>The file is open already.\<close>

definition restoreEarlyFileFlags :: "'f file_calls \<Rightarrow> entry \<Rightarrow> 32 word \<Rightarrow> ('f, goerror option) prog" where
  "restoreEarlyFileFlags c e excluded = restore_flags (c\<lparr>fc_open := (\<lambda>_. None)\<rparr>) e linuxIocFlagsFileEarly excluded"

definition restoreLateFileFlags :: "'f file_calls \<Rightarrow> entry \<Rightarrow> 32 word \<Rightarrow> ('f, goerror option) prog" where
  "restoreLateFileFlags c e excluded =
     (if IsLink e then return_st None
      else restore_flags c e (linuxIocFlagsFileEarly OR linuxIocFlagsDirEarly OR linuxIocFlagsLate) excluded)"

section \<open>Restoring the metadata\<close>

record metadata_options =
  opt_SetOwner :: bool
  opt_ExcludeXattrs :: bool
  opt_IncludeFileFlags :: bool
  opt_FileFlagsMask :: "32 word"

definition SetOwner :: "'f file_calls \<Rightarrow> entry \<Rightarrow> file_info \<Rightarrow> ('f, unit) prog" where
  "SetOwner c e fileInfo =
     (if (fi_uid fileInfo \<noteq> UID e \<or> fi_gid fileInfo \<noteq> GID e) \<and> UID e \<noteq> -1 \<and> GID e \<noteq> -1
      then bind_st (call (fc_Lchown c (UID e) (GID e))) (\<lambda>err.
        if err = None then return_st () else raise_st (LogError ''RESTORE_CHOWN''))
      else return_st ())"

definition RestoreMetadata ::
  "'f file_calls \<Rightarrow> file_info option \<Rightarrow> metadata_options \<Rightarrow> entry \<Rightarrow> ('f, entry) prog" where
  "RestoreMetadata c fileInfo options e =
     bind_st
       (case fileInfo of
          Some fi \<Rightarrow> return_st fi
        | None \<Rightarrow> bind_st (get_st (fc_Lstat c)) (\<lambda>r.
            case r of Inl err \<Rightarrow> raise_st (LogError ''RESTORE_STAT'') | Inr fi \<Rightarrow> return_st fi)) (\<lambda>fi.
     bind_st (if opt_ExcludeXattrs options then return_st (None, e) else setAttributesToFile c e) (\<lambda>(err, e).
     bind_st (if opt_SetOwner options then SetOwner c e fi else return_st ()) (\<lambda>_.
     bind_st
       (if \<not> IsLink e \<and> fi_mode fi AND fileModeMask \<noteq> GetPermissions e
        then bind_st (call (fc_Chmod c (GetPermissions e))) (\<lambda>err.
          if err = None then return_st () else raise_st (LogError ''RESTORE_CHMOD''))
        else return_st ()) (\<lambda>_.
     bind_st
       (if \<not> IsLink e \<and> fi_mtime fi \<noteq> Time e
        then bind_st (call (fc_Chtimes c (Time e))) (\<lambda>err.
          if err = None then return_st () else raise_st (LogError ''RESTORE_CHTIME''))
        else return_st ()) (\<lambda>_.
     bind_st
       (if opt_IncludeFileFlags options then restoreLateFileFlags c e (opt_FileFlagsMask options)
        else return_st None) (\<lambda>err.
       return_st e))))))"

section \<open>What restoring achieves\<close>

lemma Join_None [simp]: "Join err err' = None \<longleftrightarrow> err = None \<and> err' = None"
  by (cases err) (simp_all add: Join_def)

lemma call_run: "call m f = (Inr (fst (m f)), snd (m f))"
  by (simp add: call_def split: prod.split)

lemma set_existing_no_error: "set_existing c names err as f = (Inr (None, as'), f') \<Longrightarrow> err = None"
proof (induction names arbitrary: err as f)
  case (Cons name names)
  then show ?case using Join_None [of err] by (fastforce simp: bind_st_def call_run split: option.splits if_splits)
qed simp

lemma set_remaining_no_error: "set_remaining c as err f = (Inr None, f') \<Longrightarrow> err = None"
proof (induction c as err arbitrary: f rule: set_remaining.induct)
  case (2 c name attribute attributes err)
  then show ?case using Join_None [of err] by (fastforce simp: bind_st_def call_run split: if_splits)
qed simp

text \<open>The attributes of an entry that are attributes of the file, not flags.\<close>

definition internal :: "string \<Rightarrow> bool" where
  "internal n \<longleftrightarrow> n \<noteq> [] \<and> hd n = CHR 0x00"

definition file_attributes :: "(string \<times> bytes) list \<Rightarrow> (string \<times> bytes) list" where
  "file_attributes as = filter (\<lambda>a. \<not> internal (fst a)) as"

lemma map_of_file_attributes: "map_of (file_attributes as) n = (if internal n then None else map_of as n)"
  by (induction as) (auto simp: file_attributes_def)

text \<open>The interface to the attributes of a file: \<open>view\<close> are those it has.\<close>

locale attribute_store =
  fixes c :: "'f file_calls" and view :: "'f \<Rightarrow> string \<Rightarrow> bytes option"
  assumes list_law: "fc_LList c f = Inr names \<Longrightarrow> distinct names \<and> set names = dom (view f)"
    and name_law: "view f name \<noteq> None \<Longrightarrow> CHR 0x00 \<notin> set name"
    and get_law: "view f name = Some v \<Longrightarrow> fc_LGet c name f = Inr v"
    and set_law: "fc_LSet c name v f = (None, f') \<Longrightarrow> view f' = (view f)(name \<mapsto> v)"
    and remove_law: "fc_LRemove c name f = (None, f') \<Longrightarrow> view f' = (view f)(name := None)"
begin

lemma set_existing_view:
  assumes "set_existing c names err as f = (Inr (None, as'), f')" and "distinct names" and "set names \<subseteq> dom (view f)"
    and "distinct (map fst as)"
  shows "view f' = (\<lambda>n. if n \<in> set names then map_of as n else view f n) \<and>
    map_of as' = map_of as |` (- set names) \<and> distinct (map fst as')"
  using assms
proof (induction names arbitrary: err as f)
  case Nil
  then show ?case by auto
next
  case (Cons name names)
  show ?case
  proof (cases "map_of as name")
    case None
    obtain e g where g: "fc_LRemove c name f = (e, g)" by force
    with Cons.prems(1) None have run: "set_existing c names (Join err e) as g = (Inr (None, as'), f')"
      by (simp add: bind_st_def call_def)
    then have vg: "view g = (view f)(name := None)" using set_existing_no_error g remove_law by fastforce
    then have sub: "set names \<subseteq> dom (view g)" using Cons.prems(2,3) by auto
    from Cons.IH [OF run _ sub Cons.prems(4)] Cons.prems(2) None show ?thesis
      by (auto simp: vg fun_eq_iff restrict_map_def)
  next
    case (Some new)
    from Cons.prems(3) obtain old where old: "view f name = Some old" by auto
    have "\<exists>err g. set_existing c names err (AList.delete name as) g = (Inr (None, as'), f') \<and> view g = (view f)(name \<mapsto> new)"
    proof (cases "old = new")
      case True
      with Cons.prems(1) Some get_law [OF old] old show ?thesis by (auto simp: bind_st_def fun_upd_idem)
    next
      case False
      obtain e g where g: "fc_LSet c name new f = (e, g)" by force
      with Cons.prems(1) Some get_law [OF old] False
      have run: "set_existing c names (Join err e) (AList.delete name as) g = (Inr (None, as'), f')"
        by (simp add: bind_st_def call_def)
      then have "view g = (view f)(name \<mapsto> new)" using set_existing_no_error g set_law by fastforce
      with run show ?thesis by blast
    qed
    then obtain err g where run: "set_existing c names err (AList.delete name as) g = (Inr (None, as'), f')"
      and g: "view g = (view f)(name \<mapsto> new)" by blast
    have sub: "set names \<subseteq> dom (view g)" using g Cons.prems(2,3) by auto
    have "distinct (map fst (AList.delete name as))" using Cons.prems(4) by (rule distinct_delete)
    from Cons.IH [OF run _ sub this] Cons.prems(2) Some show ?thesis
      by (auto simp: g fun_eq_iff restrict_map_def delete_conv)
  qed
qed

lemma set_remaining_view:
  assumes "set_remaining c as err f = (Inr None, f')" and "distinct (map fst as)"
  shows "view f' = view f ++ map_of (file_attributes as)"
  using assms
proof (induction as arbitrary: err f)
  case (Cons a as)
  obtain name v where a: "a = (name, v)" by force
  show ?case
  proof (cases "name \<noteq> [] \<and> hd name = CHR 0x00")
    case True
    with Cons a show ?thesis by (auto simp: file_attributes_def internal_def)
  next
    case False
    obtain e g where g: "fc_LSet c name v f = (e, g)" by force
    with Cons.prems(1) False a have run: "set_remaining c as (Join err e) g = (Inr None, f')"
      by (auto simp: bind_st_def call_def split: if_splits)
    then have "view g = (view f)(name \<mapsto> v)" using set_remaining_no_error [OF run] g set_law by simp
    moreover have "map_of as name = None" using Cons.prems(2) a by (force simp: map_of_eq_None_iff)
    ultimately show ?thesis
      using Cons.IH [OF run] Cons.prems(2) False a
      by (auto simp: map_add_def fun_eq_iff map_of_file_attributes internal_def split: option.split)
  qed
qed (simp add: file_attributes_def)

lemma attributes_after:
  assumes "setAttributesToFile c e f = (Inr (None, e'), f')" and "Attributes e = Some as" and "distinct (map fst as)"
    and "\<exists>n \<in> fst ` set as. n \<noteq> linuxFileFlagsKey"
  shows "view f' = map_of (file_attributes as)"
proof -
  have go: "as \<noteq> []" "\<not> (map_of as linuxFileFlagsKey \<noteq> None \<and> length as \<le> 1)"
    using assms(4) by (cases as; cases "tl as"; auto)+
  with assms(1,2) obtain names err as' g where names: "fc_LList c f = Inr names"
    and ex: "set_existing c names None as f = (Inr (err, as'), g)" and re: "set_remaining c as' err g = (Inr None, f')"
    by (auto simp: setAttributesToFile_def bind_st_def split: sum.splits prod.splits)
  note err = set_remaining_no_error [OF re]
  have dom: "distinct names" "set names = dom (view f)" using list_law [OF names] by auto
  note ex' = set_existing_view [OF ex [unfolded err] dom(1) _ assms(3)]
  have 1: "view g = (\<lambda>n. if n \<in> dom (view f) then map_of as n else None)" and 2: "map_of as' = map_of as |` (- dom (view f))"
    and 3: "distinct (map fst as')" using ex' dom(2) by (auto simp: fun_eq_iff)
  have "\<not> internal n" if "n \<in> dom (view f)" for n
    using name_law [of f n] that by (cases n) (auto simp: internal_def)
  then show ?thesis
    using set_remaining_view [OF re 3]
    by (auto simp: fun_eq_iff 1 2 map_of_file_attributes map_add_def restrict_map_def split: option.split if_splits)
qed

end

section \<open>A file of a POSIX system\<close>

text \<open>No call fails; changing the owner clears the bits for setting ids, as Linux does.\<close>

record file_meta =
  fm_xattrs :: "(string \<times> bytes) list"
  fm_flags :: "32 word"
  fm_info :: file_info

definition posix_calls :: "file_meta file_calls" where
  "posix_calls = \<lparr>
     fc_LList = (\<lambda>f. Inr (remdups (map fst (filter (\<lambda>a. CHR 0x00 \<notin> set (fst a)) (fm_xattrs f))))),
     fc_LGet = (\<lambda>name f. case map_of (fm_xattrs f) name of
        None \<Rightarrow> Inl (GoErr ''no data available'') | Some v \<Rightarrow> Inr v),
     fc_LSet = (\<lambda>name v f. if CHR 0x00 \<in> set name then (Some (GoErr ''invalid argument''), f)
        else (None, f\<lparr>fm_xattrs := AList.update name v (fm_xattrs f)\<rparr>)),
     fc_LRemove = (\<lambda>name f. (None, f\<lparr>fm_xattrs := AList.delete name (fm_xattrs f)\<rparr>)),
     fc_open = (\<lambda>f. None),
     fc_GetFlags = (\<lambda>f. Inr (fm_flags f)),
     fc_SetFlags = (\<lambda>w f. (None, f\<lparr>fm_flags := w\<rparr>)),
     fc_Lstat = (\<lambda>f. Inr (fm_info f)),
     fc_Lchown = (\<lambda>uid gid f. (None, f\<lparr>fm_info := (fm_info f)\<lparr>fi_uid := uid, fi_gid := gid,
        fi_mode := fi_mode (fm_info f) AND NOT (ModeSetuid OR ModeSetgid)\<rparr>\<rparr>)),
     fc_Chmod = (\<lambda>mode f. (None, f\<lparr>fm_info := (fm_info f)
        \<lparr>fi_mode := (fi_mode (fm_info f) AND NOT fileModeMask) OR mode\<rparr>\<rparr>)),
     fc_Chtimes = (\<lambda>t f. (None, f\<lparr>fm_info := (fm_info f)\<lparr>fi_mtime := t\<rparr>\<rparr>))\<rparr>"

definition posix_view :: "file_meta \<Rightarrow> string \<Rightarrow> bytes option" where
  "posix_view f n = (if CHR 0x00 \<in> set n then None else map_of (fm_xattrs f) n)"

interpretation posix: attribute_store posix_calls posix_view
proof
  fix f names
  show "fc_LList posix_calls f = Inr names \<Longrightarrow> distinct names \<and> set names = dom (posix_view f)"
    by (force simp: posix_calls_def posix_view_def dom_def dest: map_of_SomeD split: if_splits intro: weak_map_of_SomeI)
qed (auto simp: posix_calls_def posix_view_def fun_eq_iff update_conv' delete_conv' split: if_splits)

text \<open>C23: restoring the extended attributes of an entry without an error leaves the file with exactly these
  attributes, whatever it had before; only the flags, which the entry keeps under a name of their own, are
  not among them. An entry without attributes other than the flags leaves the file alone.\<close>

theorem attributes_restored:
  assumes "attribute_store c view" and "setAttributesToFile c e f = (Inr (None, e'), f')"
    and "Attributes e = Some as" and "distinct (map fst as)"
  shows "if \<exists>n \<in> fst ` set as. n \<noteq> linuxFileFlagsKey then view f' = map_of (file_attributes as) else f' = f"
proof (cases "\<exists>n \<in> fst ` set as. n \<noteq> linuxFileFlagsKey")
  case True
  with attribute_store.attributes_after [OF assms] show ?thesis by simp
next
  case False
  then have "as = [] \<or> (\<exists>v. as = [(linuxFileFlagsKey, v)])"
    using assms(4) by (cases as; cases "tl as") auto
  with False assms(2,3) show ?thesis by (auto simp: setAttributesToFile_def)
qed

definition sample_meta :: file_meta where
  "sample_meta = \<lparr>fm_xattrs = [(''user.a'', [1]), (''user.old'', [2]), (''user.same'', [3])], fm_flags = FS_NODUMP OR FS_SYNC,
     fm_info = \<lparr>fi_name = ''f'', fi_size = 3, fi_mtime = 50, fi_mode = 0x8001ED, fi_uid = 1, fi_gid = 1, fi_nlink = 1,
       fi_dev = 1, fi_ino = 2, fi_rdev = 0\<rparr>\<rparr>"

definition sample_attributed :: entry where
  "sample_attributed = (CreateEntry ''f'' 3 50 0x8001ED)\<lparr>UID := 7, GID := 7, Attributes := Some
     [(''user.same'', [3]), (''user.a'', [9]), (linuxFileFlagsKey, [64, 0, 0, 0]), (''user.new'', [4])]\<rparr>"

definition sample_restored :: "(goerror option \<times> entry) res \<times> file_meta" where
  "sample_restored = setAttributesToFile posix_calls sample_attributed sample_meta"

theorem attributes_restored_witness:
  "posix_view (snd sample_restored) = map_of [(''user.same'', [3]), (''user.a'', [9]), (''user.new'', [4])]"
proof -
  have "fst (case fst sample_restored of Inr x \<Rightarrow> x) = None" "\<not> (case fst sample_restored of Inl e \<Rightarrow> True | Inr x \<Rightarrow> False)"
    by code_simp+
  then obtain e' f' where "sample_restored = (Inr (None, e'), f')"
    by (metis (no_types, lifting) obj_sumE old.sum.simps(5,6) prod.exhaust_sel)
  moreover have "Attributes sample_attributed =
      Some [(''user.same'', [3]), (''user.a'', [9]), (linuxFileFlagsKey, [64, 0, 0, 0]), (''user.new'', [4])]"
    by (simp add: sample_attributed_def)
  ultimately show ?thesis
    using attributes_restored [OF posix.attribute_store_axioms, of sample_attributed sample_meta e' f']
    by (simp add: sample_restored_def linuxFileFlagsKey_def file_attributes_def internal_def)
qed

text \<open>Of the flags a file can have, the ones for which the code has the last stage are not read: an
  immutable, append-only or synchronous file is backed up without them.\<close>

lemma late_flags_not_read:
  assumes "fc_open c f = None" and "fc_GetFlags c f = Inr w" and "w AND (linuxIocFlagsFileEarly OR linuxIocFlagsDirEarly) = 0"
  shows "readFileFlags c f e = (None, e)"
proof -
  have "w AND (linuxIocFlagsDirEarly OR linuxIocFlagsFileEarly OR linuxIocFlagsDirEarly) = 0"
    using assms(3) by (simp add: or.commute or.left_commute)
  then show ?thesis using assms(1,2) by (simp add: readFileFlags_def)
qed

text \<open>The flags that are read are set again, except the masked ones.\<close>

lemma flags_roundtrip:
  assumes "fc_open c f = None" and "fc_GetFlags c f = Inr w" and "IsFile e \<or> IsDir e"
    and "(case Attributes e of None \<Rightarrow> True | Some as \<Rightarrow> map_of as linuxFileFlagsKey = None)"
  shows "stored_flags (snd (readFileFlags c f e)) allowed excluded =
    Inr ((w AND (linuxIocFlagsDirEarly OR linuxIocFlagsFileEarly)) AND allowed AND NOT excluded)"
proof -
  let ?w = "w AND (linuxIocFlagsDirEarly OR linuxIocFlagsFileEarly OR linuxIocFlagsDirEarly)"
  have m: "linuxIocFlagsDirEarly OR linuxIocFlagsFileEarly OR linuxIocFlagsDirEarly = linuxIocFlagsDirEarly OR linuxIocFlagsFileEarly"
    by (simp add: or.commute or.left_commute)
  have le: "LittleEndian_Uint32 (le_bytes 4 (unat v)) = Inr v" for v :: "32 word"
    
  proof -
    have "unat v < 256 ^ 4" using unsigned_less [of v, where ?'a = nat] by simp
    then have "le_nat (le_bytes 4 (unat v)) = unat v" by (rule le_nat_le_bytes_id)
    then show ?thesis by (simp add: LittleEndian_Uint32_def)
  qed
  show ?thesis
  proof (cases "?w = 0")
    case True
    then have "w AND (linuxIocFlagsDirEarly OR linuxIocFlagsFileEarly) = 0" by (simp add: m)
    with True assms show ?thesis by (auto simp: readFileFlags_def stored_flags_def split: option.splits)
  next
    case False
    with assms show ?thesis
      by (auto simp: readFileFlags_def stored_flags_def put_attribute_def update_conv' le m split: option.splits)
  qed
qed

text \<open>The mode is compared with that of before the change of the owner: if only the owner differs, the bits for
  setting ids are lost.\<close>

lemma setuid_lost:
  "let options = \<lparr>opt_SetOwner = True, opt_ExcludeXattrs = True, opt_IncludeFileFlags = False, opt_FileFlagsMask = 0\<rparr>;
       (r, f) = RestoreMetadata posix_calls None options sample_attributed sample_meta
   in r = Inr sample_attributed \<and> fi_uid (fm_info f) = UID sample_attributed \<and>
      GetPermissions sample_attributed = 0x8001ED \<and> fi_mode (fm_info f) = 0x1ED"
  by (simp add: RestoreMetadata_def bind_st_def sample_attributed_def CreateEntry_def SetOwner_def call_def posix_calls_def sample_meta_def
      IsLink_def GetPermissions_def fileModeMask_def mode_defs)

end
