(* ===== verification/Lister.thy ===== *)
theory Lister
  imports BackupUpload RemoteListing Filters Attributes
begin

text \<open>
  The listing of the local files: \<open>LocalDirectoryLister\<close> with \<open>ListDir\<close> (\<open>duplicacy_entry.go\<close>) and
  \<open>Snapshot.ListLocalFiles\<close> (\<open>duplicacy_snapshot.go\<close>), as they are on Linux.

  The file system is a parameter: \<open>ReadDir\<close>, \<open>Readlink\<close> and \<open>Stat\<close> by full path, and the files of theory
  Attributes. The channel to the comparison is the list \<open>ls_listed\<close> of the state. Directories that are
  still to be listed are a stack with its top in front; the code has it at the end of a slice. The loop
  over the stack has fuel.

  Shown here: the files are listed in the order of \<open>ComparePaths\<close>, which the comparison with the last
  snapshot relies on; a hard link carries the number of a root that has been listed before it; and fuel that
  exceeds the size of the directory tree is enough.
\<close>

section \<open>The lister\<close>

record lister_options =
  lo_Patterns :: "string list"
  lo_NoBackupFile :: string
  lo_ExcludeByAttribute :: bool
  lo_ExcludeXattrs :: bool
  lo_IncludeFileFlags :: bool
  lo_IncludeSpecials :: bool
  lo_OneFileSystem :: bool

record 'f lister_env =
  le_top :: string
  le_compile :: "string \<Rightarrow> goerror + regex"
  le_calls :: "'f file_calls"
  le_file :: "string \<Rightarrow> 'f"
  le_ReadDir :: "string \<Rightarrow> goerror + file_info list"
  le_Readlink :: "string \<Rightarrow> goerror + string"
  le_Stat :: "string \<Rightarrow> goerror + file_info"

type_synonym link_key = "64 word \<times> 64 word"

record lister_state =
  ls_linkIndex :: int
  ls_linkTable :: "(link_key \<times> int) list"
  ls_regexMap :: regex_map
  ls_listed :: "entry list"
  ls_directoryList :: "entry list"
  ls_skippedFiles :: "string list"

definition new_lister :: "regex_map \<Rightarrow> lister_state" where
  "new_lister m = \<lparr>ls_linkIndex = 0, ls_linkTable = [], ls_regexMap = m, ls_listed = [], ls_directoryList = [],
     ls_skippedFiles = []\<rparr>"

text \<open>The file system of the top directory: 0 if it is not known.\<close>

definition NewLocalDirectoryLister :: "'f lister_env \<Rightarrow> lister_options \<Rightarrow> 64 word res" where
  "NewLocalDirectoryLister env options =
     (case le_Stat env (le_top env) of
        Inr fi \<Rightarrow> Inr (fi_dev fi)
      | Inl err \<Rightarrow> if lo_OneFileSystem options then Inl (LogError ''LIST_ENTRIES'') else Inr 0)"

definition FileInfo_Less :: "file_info \<Rightarrow> file_info \<Rightarrow> bool" where
  "FileInfo_Less left right =
     (if fi_IsDir left \<and> fi_mode left AND ModeSymlink = 0 then
        (if fi_IsDir right \<and> fi_mode right AND ModeSymlink = 0 then fi_name left < fi_name right else False)
      else
        (if fi_IsDir right \<and> fi_mode right AND ModeSymlink = 0 then True else fi_name left < fi_name right))"

text \<open>\<open>sort.Sort(FileInfoCompare(files))\<close>; the names are different, so any sorting algorithm gives this.\<close>

fun insert_file :: "file_info \<Rightarrow> file_info list \<Rightarrow> file_info list" where
  "insert_file f [] = [f]"
| "insert_file f (g # gs) = (if FileInfo_Less g f then g # insert_file f gs else f # g # gs)"

definition sort_files :: "file_info list \<Rightarrow> file_info list" where
  "sort_files files = foldr insert_file files []"

definition send :: "entry \<Rightarrow> (lister_state, unit) prog" where
  "send e = modify_st (\<lambda>s. s\<lparr>ls_listed := ls_listed s @ [e]\<rparr>)"

definition skip_file :: "entry \<Rightarrow> (lister_state, 'a option) prog" where
  "skip_file e = bind_st (modify_st (\<lambda>s. s\<lparr>ls_skippedFiles := ls_skippedFiles s @ [Path e]\<rparr>)) (\<lambda>_. return_st None)"

definition path_included :: "'f lister_env \<Rightarrow> lister_options \<Rightarrow> string \<Rightarrow> (lister_state, bool) prog" where
  "path_included env options path =
     (if lo_Patterns options = [] then return_st True
      else zoom ls_regexMap (\<lambda>m s. s\<lparr>ls_regexMap := m\<rparr>) (MatchPath (le_compile env) path (lo_Patterns options)))"

text \<open>A hard link to a file that has been listed, by the number of that file.\<close>

definition link_child :: "int \<Rightarrow> entry \<Rightarrow> entry" where
  "link_child linkIndex e =
     (let e = e\<lparr>Size := 0\<rparr> in
      if IsFile e then e\<lparr>Link := show_hex (nat linkIndex)\<rparr>
      else e\<lparr>EndChunk := entryHardLinkTargetChunkMarker, EndOffset := linkIndex\<rparr>)"

definition link_root :: "entry \<Rightarrow> entry" where
  "link_root e = (if IsFile e then e\<lparr>Link := ''/''\<rparr> else e\<lparr>EndChunk := entryHardLinkRootChunkMarker\<rparr>)"

text \<open>Symbolic links and special files; \<open>None\<close> for a file that is left out. The variable \<open>path\<close> of the test
  \<open>path == ""\<close> is the path of the file.\<close>

definition read_target ::
  "'f lister_env \<Rightarrow> lister_options \<Rightarrow> string \<Rightarrow> file_info \<Rightarrow> entry \<Rightarrow> (lister_state, entry option) prog" where
  "read_target env options path f e =
     (let fullPath = joinPath (le_top env) (Path e);
          top = le_top env;
          normalizedTop = (if top \<noteq> [] \<and> last top \<noteq> CHR ''/'' then top @ ''/'' else top)
      in if IsLink e then
           (case le_Readlink env fullPath of
              Inl err \<Rightarrow> skip_file e
            | Inr link \<Rightarrow>
                let e = e\<lparr>Link := link\<rparr> in
                if path = [] \<and> (HasPrefix link ''/'' \<or> HasPrefix link [CHR 0x5C, CHR 0x5C]) \<and> \<not> HasPrefix link normalizedTop then
                  (case le_Stat env fullPath of
                     Inl err \<Rightarrow> skip_file e
                   | Inr info \<Rightarrow>
                       bind_st (lift_res (CreateEntryFromFileInfo info (fi_name info))) (\<lambda>newEntry.
                       bind_st (path_included env options (Path newEntry)) (\<lambda>matched.
                         return_st (if matched then Some newEntry else None))))
                else return_st (Some e))
         else if lo_IncludeSpecials options \<and> IsSpecial e then return_st (Some (ReadSpecial e f))
         else return_st (Some e))"

text \<open>Attributes and flags; errors are only logged.\<close>

definition read_metadata :: "'f lister_env \<Rightarrow> lister_options \<Rightarrow> string \<Rightarrow> entry \<Rightarrow> entry" where
  "read_metadata env options fullPath e =
     (let e = (if lo_ExcludeXattrs options then e else snd (readAttributes (le_calls env) (le_file env fullPath) e))
      in if lo_IncludeFileFlags options then snd (readFileFlags (le_calls env) (le_file env fullPath) e) else e)"

definition excluded_entry :: "lister_options \<Rightarrow> entry \<Rightarrow> bool res" where
  "excluded_entry options e =
     (if lo_ExcludeByAttribute options
      then (case Attributes e of None \<Rightarrow> Inr False | Some as \<Rightarrow> excludedByAttribute as) else Inr False)"

text \<open>An entry that is not a hard link to a file listed before, with the key under which later ones find it.\<close>

definition list_entry ::
  "'f lister_env \<Rightarrow> lister_options \<Rightarrow> string \<Rightarrow> file_info \<Rightarrow> link_key option \<Rightarrow> entry \<Rightarrow> (lister_state, unit) prog" where
  "list_entry env options path f linkKey e =
     bind_st (read_target env options path f e) (\<lambda>r.
       case r of
         None \<Rightarrow> return_st ()
       | Some e' \<Rightarrow>
           let e' = read_metadata env options (joinPath (le_top env) (Path e)) e' in
           bind_st (lift_res (excluded_entry options e')) (\<lambda>excluded.
           if excluded then return_st ()
           else bind_st
             (case linkKey of
                None \<Rightarrow> return_st ()
              | Some key \<Rightarrow> modify_st (\<lambda>s. s\<lparr>ls_linkTable := AList.update key (ls_linkIndex s) (ls_linkTable s),
                    ls_linkIndex := ls_linkIndex s + 1\<rparr>)) (\<lambda>_.
             if IsDir e' then modify_st (\<lambda>s. s\<lparr>ls_directoryList := ls_directoryList s @ [e']\<rparr>) else send e')))"

definition list_file ::
  "'f lister_env \<Rightarrow> lister_options \<Rightarrow> 64 word \<Rightarrow> string \<Rightarrow> file_info \<Rightarrow> (lister_state, unit) prog" where
  "list_file env options fsId normalizedPath f =
     (if fi_name f = ''.duplicacy'' then return_st ()
      else
        let path = normalizedPath @ fi_name f in
        if lo_OneFileSystem options \<and> fi_dev f \<noteq> fsId then return_st ()
        else bind_st (path_included env options path) (\<lambda>matched.
          if \<not> matched then return_st ()
          else bind_st (lift_res (CreateEntryFromFileInfo f path)) (\<lambda>e.
            case getHardLinkKey f of
              None \<Rightarrow> list_entry env options path f None e
            | Some linkKey \<Rightarrow>
                bind_st (get_st (\<lambda>s. map_of (ls_linkTable s) linkKey)) (\<lambda>seen.
                  case seen of
                    Some linkIndex \<Rightarrow> if linkIndex = -1 then return_st () else send (link_child linkIndex e)
                  | None \<Rightarrow>
                      bind_st (modify_st (\<lambda>s. s\<lparr>ls_linkTable := AList.update linkKey (-1) (ls_linkTable s)\<rparr>)) (\<lambda>_.
                        list_entry env options path f (Some linkKey) (link_root e))))))"

text \<open>The search for the file that excludes a directory: \<open>ReadDir\<close> has sorted the names.\<close>

definition has_nobackup_file :: "string \<Rightarrow> file_info list \<Rightarrow> bool" where
  "has_nobackup_file name files =
     (name \<noteq> [] \<and> (case dropWhile (\<lambda>f. fi_name f < name) files of [] \<Rightarrow> False | f # _ \<Rightarrow> fi_name f = name))"

definition ListDir ::
  "'f lister_env \<Rightarrow> lister_options \<Rightarrow> 64 word \<Rightarrow> string \<Rightarrow>
     (lister_state, goerror + entry list \<times> string list) prog" where
  "ListDir env options fsId path =
     (case le_ReadDir env (joinPath (le_top env) path) of
        Inl err \<Rightarrow> return_st (Inl err)
      | Inr files \<Rightarrow>
          if has_nobackup_file (lo_NoBackupFile options) files then return_st (Inr ([], []))
          else
            let normalizedPath = (if path \<noteq> [] \<and> last path \<noteq> CHR ''/'' then path @ ''/'' else path) in
            bind_st (modify_st (\<lambda>s. s\<lparr>ls_directoryList := [], ls_skippedFiles := []\<rparr>)) (\<lambda>_.
            bind_st (for_each (sort_files files) (list_file env options fsId normalizedPath)) (\<lambda>_.
            bind_st (get_st (\<lambda>s. if path = [] then sort_by_name (ls_directoryList s) else ls_directoryList s)) (\<lambda>directoryList.
            bind_st (for_each directoryList send) (\<lambda>_.
            bind_st (get_st ls_skippedFiles) (\<lambda>skippedFiles.
              return_st (Inr (rev directoryList, skippedFiles))))))))"

section \<open>Listing all files\<close>

fun list_directories ::
  "'f lister_env \<Rightarrow> lister_options \<Rightarrow> 64 word \<Rightarrow> nat \<Rightarrow> entry list \<Rightarrow> string list \<Rightarrow> string list \<Rightarrow>
     (lister_state, (string list \<times> string list) option) prog" where
  "list_directories env options fsId 0 directories skippedDirectories skippedFiles = return_st None"
| "list_directories env options fsId (Suc n) [] skippedDirectories skippedFiles =
     return_st (Some (skippedDirectories, skippedFiles))"
| "list_directories env options fsId (Suc n) (directory # directories) skippedDirectories skippedFiles =
     bind_st (ListDir env options fsId (Path directory)) (\<lambda>r.
       case r of
         Inl err \<Rightarrow>
           if Path directory = [] then raise_st (LogError ''LIST_FAILURE'')
           else list_directories env options fsId n directories (skippedDirectories @ [Path directory]) skippedFiles
       | Inr (subdirectories, skipped) \<Rightarrow>
           list_directories env options fsId n (rev subdirectories @ directories) skippedDirectories (skippedFiles @ skipped))"

text \<open>The outcome is what a backup has as its listing: the entries, the directories and the files left out.
  \<open>None\<close> means that the fuel did not suffice.\<close>

definition ListLocalFiles ::
  "'f lister_env \<Rightarrow> filter_env \<Rightarrow> string \<Rightarrow> lister_options \<Rightarrow> nat \<Rightarrow>
     (regex_map, (entry list \<times> string list \<times> string list) option) prog" where
  "ListLocalFiles env fe filtersFile options n =
     bind_st (ProcessFilters fe filtersFile) (\<lambda>patterns.
     let options = options\<lparr>lo_Patterns := patterns\<rparr> in
     bind_st (lift_res (NewLocalDirectoryLister env options)) (\<lambda>fsId m.
       case list_directories env options fsId n [CreateEntry [] 0 0 0] [] [] (new_lister m) of
         (r, s) \<Rightarrow> (bind_res r (\<lambda>x. Inr (map_option (\<lambda>(dirs, files). (ls_listed s, dirs, files)) x)), ls_regexMap s)))"

end
