(* ===== verification/ListerOrder.thy ===== *)
theory ListerOrder
  imports Lister "HOL-Library.Sublist" "HOL-Library.Multiset"
begin

text \<open>
  The order in which the local files are listed, and the numbers of the hard links (theory Lister). The
  directories that \<open>ReadDir\<close> returns are assumed to have different names without slashes and NUL bytes,
  and the tree of directories to be finite: \<open>tree_size\<close> gives every directory of a set that contains the top
  directory a size that exceeds those of its subdirectories together.
\<close>

section \<open>Sorting\<close>

definition dirlike :: "file_info \<Rightarrow> bool" where
  "dirlike f \<longleftrightarrow> fi_IsDir f \<and> fi_mode f AND ModeSymlink = 0"

definition file_key :: "file_info \<Rightarrow> bool \<times> string" where
  "file_key f = (dirlike f, fi_name f)"

definition tidy :: "file_info list \<Rightarrow> bool" where
  "tidy files \<longleftrightarrow> distinct (map fi_name files) \<and>
     (\<forall>f \<in> set files. fi_name f \<noteq> [] \<and> CHR ''/'' \<notin> set (fi_name f) \<and> no_nul (fi_name f))"

lemma FileInfo_Less_key: "FileInfo_Less a b \<longleftrightarrow> file_key a < file_key b"
  by (auto simp: FileInfo_Less_def file_key_def dirlike_def)

lemma insert_file_insort: "insert_file f gs = insort_key file_key f gs"
  by (induction gs) (auto simp: FileInfo_Less_key)

lemma sort_files_key: "sort_files files = sort_key file_key files"
  by (simp add: sort_files_def sort_key_def insert_file_insort [abs_def])

lemma sort_files_sorted:
  assumes "tidy files"
  shows "sorted_wrt (\<lambda>f g. file_key f < file_key g) (sort_files files)" and "set (sort_files files) = set files"
    and "tidy (sort_files files)"
proof -
  have "distinct (map fi_name (sort_files files))"
    using assms by (simp add: tidy_def sort_files_key distinct_map)
  moreover from this have "distinct (map file_key (sort_files files))"
    by (auto simp: distinct_map inj_on_def file_key_def)
  moreover have "sorted (map file_key (sort_files files))" by (simp add: sort_files_key)
  ultimately show "sorted_wrt (\<lambda>f g. file_key f < file_key g) (sort_files files)"
    using strict_sorted_iff [of "map file_key (sort_files files)"] by (simp add: sorted_wrt_map)
  show "set (sort_files files) = set files" by (simp add: sort_files_key)
  with \<open>distinct (map fi_name _)\<close> assms show "tidy (sort_files files)" by (simp add: tidy_def)
qed

section \<open>The order of paths\<close>

text \<open>A directory, as a prefix of paths, and what is below it.\<close>

definition base :: "string \<Rightarrow> bool" where
  "base D \<longleftrightarrow> no_nul D \<and> (D = [] \<or> last D = CHR ''/'')"

definition below :: "string \<Rightarrow> string \<Rightarrow> bool" where
  "below D x \<longleftrightarrow> (\<exists>q. x = D @ q \<and> q \<noteq> [] \<and> no_nul q)"

definition entry_path :: "string \<Rightarrow> file_info \<Rightarrow> string" where
  "entry_path D f = D @ fi_name f @ (if dirlike f then ''/'' else [])"

definition precedes :: "string \<Rightarrow> string \<Rightarrow> bool" where
  "precedes x y \<longleftrightarrow> ComparePaths x y < 0"

lemma no_nul_append [simp]: "no_nul (x @ y) \<longleftrightarrow> no_nul x \<and> no_nul y"
  by (auto simp: no_nul_def)

lemma no_nul_Cons [simp]: "no_nul (c # s) \<longleftrightarrow> c \<noteq> CHR 0x00 \<and> no_nul s"
  by (auto simp: no_nul_def)

lemma precedes_append [simp]: "precedes (p @ x) (p @ y) = precedes x y"
  by (simp add: precedes_def ComparePaths_append)

lemma precedes_key: "no_nul x \<Longrightarrow> no_nul y \<Longrightarrow> precedes x y \<longleftrightarrow> path_key x < path_key y"
  by (simp add: precedes_def ComparePaths_less)

lemma name_key:
  assumes "fi_name f \<noteq> []" and "CHR ''/'' \<notin> set (fi_name f)"
  shows "path_key (fi_name f @ (if dirlike f then ''/'' else [])) = [(False, file_key f)]"
  using assms path_key_name [of "fi_name f" "[]"] path_key_file [of "fi_name f"] by (simp add: file_key_def)

lemma path_key_below:
  assumes "CHR ''/'' \<notin> set n" and "q \<noteq> []"
  shows "path_key (n @ ''/'' @ q) = (True, True, n) # path_key q"
  using path_key_name [OF assms(1), of q] assms(2) by simp

lemma siblings:
  assumes "tidy fs" and "f \<in> set fs" and "g \<in> set fs" and "base D"
  shows "file_key f < file_key g \<Longrightarrow> precedes (entry_path D f) (entry_path D g)"
    and "dirlike g \<Longrightarrow> below (entry_path D g) x \<Longrightarrow> precedes (entry_path D f) x"
    and "dirlike f \<Longrightarrow> dirlike g \<Longrightarrow> file_key f < file_key g \<Longrightarrow> below (entry_path D f) x \<Longrightarrow> below (entry_path D g) y \<Longrightarrow>
      precedes x y"
    and "below D (entry_path D f)" and "base (entry_path D f) \<or> \<not> dirlike f" and "no_nul (entry_path D f)"
    and "dirlike f \<Longrightarrow> below (entry_path D f) x \<Longrightarrow> below D x"
proof -
  have n: "fi_name f \<noteq> []" "CHR ''/'' \<notin> set (fi_name f)" "no_nul (fi_name f)"
    and m: "fi_name g \<noteq> []" "CHR ''/'' \<notin> set (fi_name g)" "no_nul (fi_name g)"
    using assms(1-3) by (auto simp: tidy_def)
  have nul: "no_nul (fi_name f @ (if dirlike f then ''/'' else []))" "no_nul (fi_name g @ (if dirlike g then ''/'' else []))"
    using n m by (auto simp: no_nul_def)
  have slash: "no_nul ''/''" by (simp add: no_nul_def)
  show "file_key f < file_key g \<Longrightarrow> precedes (entry_path D f) (entry_path D g)"
    by (simp add: entry_path_def precedes_key [OF nul] name_key [OF n(1,2)] name_key [OF m(1,2)])
  show "below D (entry_path D f)" "no_nul (entry_path D f)"
    using nul(1) n(1) assms(4) by (auto simp: below_def entry_path_def base_def)
  show "base (entry_path D f) \<or> \<not> dirlike f" using nul(1) assms(4) by (auto simp: base_def entry_path_def)
  show "dirlike f \<Longrightarrow> below (entry_path D f) x \<Longrightarrow> below D x"
    using n slash by (auto simp: below_def entry_path_def)
  show "dirlike g \<Longrightarrow> below (entry_path D g) x \<Longrightarrow> precedes (entry_path D f) x"
  proof -
    assume "dirlike g" and "below (entry_path D g) x"
    then obtain q where x: "x = D @ (fi_name g @ ''/'' @ q)" "q \<noteq> []" "no_nul q" by (auto simp: below_def entry_path_def)
    have "no_nul (fi_name g @ ''/'' @ q)" using m(3) slash x(3) by simp
    then show ?thesis
      by (simp only: entry_path_def x(1) precedes_append precedes_key [OF nul(1)] name_key [OF n(1,2)] path_key_below [OF m(2) x(2)])
        (simp add: file_key_def)
  qed
  show "precedes x y" if k: "dirlike f" "dirlike g" "file_key f < file_key g" and b: "below (entry_path D f) x" "below (entry_path D g) y"
  proof -
    obtain p q where x: "x = D @ (fi_name f @ ''/'' @ p)" "p \<noteq> []" "no_nul p" and y: "y = D @ (fi_name g @ ''/'' @ q)" "q \<noteq> []" "no_nul q"
      using k b by (auto simp: below_def entry_path_def)
    have "no_nul (fi_name f @ ''/'' @ p)" "no_nul (fi_name g @ ''/'' @ q)" using n(3) m(3) slash x(3) y(3) by simp_all
    with k show ?thesis
      by (simp only: x(1) y(1) precedes_append precedes_key path_key_below [OF n(2) x(2)] path_key_below [OF m(2) y(2)])
        (simp add: file_key_def)
  qed
qed

section \<open>What listing a file does\<close>

definition same_kind :: "entry \<Rightarrow> entry \<Rightarrow> bool" where
  "same_kind e e' \<longleftrightarrow> Path e' = Path e \<and> Mode e' = Mode e \<and> EndChunk e' = EndChunk e \<and> (\<not> IsLink e \<longrightarrow> Link e' = Link e)"

lemma put_attribute_kind [simp]: "same_kind e (put_attribute n v e') \<longleftrightarrow> same_kind e e'"
  by (simp add: same_kind_def put_attribute_def)

lemma read_each_kind: "same_kind e (snd (read_each c f names err e')) \<longleftrightarrow> same_kind e e'"
  by (induction c f names err e' rule: read_each.induct) (auto split: sum.splits)

lemma read_metadata_kind: "same_kind e (read_metadata env options p e') \<longleftrightarrow> same_kind e e'"
proof -
  have 1: "same_kind e (snd (readAttributes c f x)) \<longleftrightarrow> same_kind e x" for c f x
    by (auto simp: readAttributes_def read_each_kind split: sum.splits) (auto simp: same_kind_def)
  have 2: "same_kind e (snd (readFileFlags c f x)) \<longleftrightarrow> same_kind e x" for c f x
    by (auto simp: readFileFlags_def Let_def split: option.splits sum.splits flags_error.splits)
  show ?thesis by (simp add: read_metadata_def Let_def 1 2)
qed

lemma read_target_effect:
  assumes "read_target env options path f e s = (r, s')" and "path \<noteq> []"
  shows "(\<exists>sk. s' = s\<lparr>ls_skippedFiles := sk\<rparr>) \<and> (\<exists>x. r = Inr x \<and> (\<forall>e'. x = Some e' \<longrightarrow> same_kind e e'))"
proof -
  have u: "\<exists>sk. s = s\<lparr>ls_skippedFiles := sk\<rparr>" by (rule exI [of _ "ls_skippedFiles s"]) simp
  have "same_kind e (ReadSpecial e f)" by (simp add: same_kind_def ReadSpecial_def Let_def)
  then show ?thesis
    using assms u by (auto simp: read_target_def Let_def skip_file_def same_kind_def split: if_splits sum.splits)
qed

text \<open>The effect of listing an entry: none but the record of a skipped file, or the entry is sent or is a
  directory, with the number of its inode noted.\<close>

definition noted :: "link_key option \<Rightarrow> lister_state \<Rightarrow> lister_state" where
  "noted linkKey s = (case linkKey of None \<Rightarrow> s
     | Some key \<Rightarrow> s\<lparr>ls_linkTable := AList.update key (ls_linkIndex s) (ls_linkTable s), ls_linkIndex := ls_linkIndex s + 1\<rparr>)"

definition emitted :: "entry \<Rightarrow> lister_state \<Rightarrow> lister_state" where
  "emitted e s = (if IsDir e then s\<lparr>ls_directoryList := ls_directoryList s @ [e]\<rparr> else s\<lparr>ls_listed := ls_listed s @ [e]\<rparr>)"

lemma list_entry_effect:
  assumes "list_entry env options path f linkKey e s = (r, s')" and "path \<noteq> []"
  shows "\<exists>sk. s' = s\<lparr>ls_skippedFiles := sk\<rparr> \<or>
    (r = Inr () \<and> (\<exists>e'. same_kind e e' \<and> s' = emitted e' (noted linkKey (s\<lparr>ls_skippedFiles := sk\<rparr>))))"
proof -
  obtain r1 s1 where t: "read_target env options path f e s = (r1, s1)" by force
  from read_target_effect [OF this assms(2)] obtain sk x where s1: "s1 = s\<lparr>ls_skippedFiles := sk\<rparr>"
    and x: "r1 = Inr x" "\<And>e'. x = Some e' \<Longrightarrow> same_kind e e'" by blast
  show ?thesis
  proof (cases x)
    case None
    with assms(1) t x(1) s1 show ?thesis by (auto simp: list_entry_def bind_st_run)
  next
    case (Some e')
    let ?e = "read_metadata env options (joinPath (le_top env) (Path e)) e'"
    have k: "same_kind e ?e" using x(2) [OF Some] by (simp add: read_metadata_kind)
    have "\<exists>b. excluded_entry options ?e = b" by blast
    then show ?thesis
      using assms(1) t x(1) s1 Some k
      by (cases "excluded_entry options ?e"; cases linkKey)
        (auto simp: list_entry_def bind_st_run Let_def send_def emitted_def noted_def split: if_splits)
  qed
qed

text \<open>The bit of a directory is cleared for a symbolic link.\<close>

definition made :: "string \<Rightarrow> file_info \<Rightarrow> entry \<Rightarrow> bool" where
  "made D f e \<longleftrightarrow> CreateEntryFromFileInfo f (D @ fi_name f) = Inr e"

lemma dir_bit: "m AND ModeDir = 0 \<longleftrightarrow> \<not> bit m 31"
  using and_exp_eq_0_iff_not_bit [of m 31] by (simp add: ModeDir_def)

lemma made_entry:
  assumes "made D f e" and "fi_name f \<noteq> []" and "CHR ''/'' \<notin> set (fi_name f)"
  shows "Path e = entry_path D f" and "IsDir e \<longleftrightarrow> dirlike f" and "EndChunk e = 0" and "Link e = []"
    and "IsFile e \<Longrightarrow> \<not> IsLink e"
proof -
  have "last (D @ fi_name f) \<noteq> CHR ''/''" using assms(2,3) by (metis last_append last_in_set)
  moreover have "bit ModeDir 31" by (simp add: ModeDir_def)
  moreover have "\<not> bit (ModeDir XOR ModeDir) 31" by simp
  ultimately show "Path e = entry_path D f" "IsDir e \<longleftrightarrow> dirlike f" "EndChunk e = 0" "Link e = []"
    using assms(1,2)
    by (auto simp: made_def CreateEntryFromFileInfo_def Let_def GetOwner_def entry_path_def dirlike_def fi_IsDir_def IsDir_def
        dir_bit bit_xor_iff split: if_splits)
  show "IsFile e \<Longrightarrow> \<not> IsLink e"
  proof -
    assume f: "IsFile e"
    have "Mode e AND ModeSymlink = (Mode e AND ModeType) AND ModeSymlink"
      by (simp add: and.assoc) (simp add: mode_defs)
    then show ?thesis using f by (simp add: IsFile_def IsLink_def)
  qed
qed

lemma path_included_effect:
  assumes "path_included env options p s = (r, s')"
  shows "\<exists>m. s' = s\<lparr>ls_regexMap := m\<rparr>"
proof (cases "lo_Patterns options = []")
  case True
  with assms have "s' = s\<lparr>ls_regexMap := ls_regexMap s\<rparr>" by (simp add: path_included_def)
  then show ?thesis by blast
next
  case False
  with assms show ?thesis by (auto simp: path_included_def zoom_def split: prod.splits)
qed

lemma list_file_effect:
  assumes "list_file env options fsId D f s = (r, s')" and "fi_name f \<noteq> []"
  obtains m sk where "s' = s\<lparr>ls_regexMap := m, ls_skippedFiles := sk\<rparr>"
  | m sk key where "getHardLinkKey f = Some key" "map_of (ls_linkTable s) key = None"
      "s' = s\<lparr>ls_regexMap := m, ls_skippedFiles := sk, ls_linkTable := AList.update key (-1) (ls_linkTable s)\<rparr>"
  | m sk key i e where "getHardLinkKey f = Some key" "map_of (ls_linkTable s) key = Some i" "i \<noteq> -1" "made D f e"
      "s' = s\<lparr>ls_regexMap := m, ls_skippedFiles := sk, ls_listed := ls_listed s @ [link_child i e]\<rparr>"
  | m sk e e' where "getHardLinkKey f = None" "made D f e" "same_kind e e'"
      "s' = emitted e' (s\<lparr>ls_regexMap := m, ls_skippedFiles := sk\<rparr>)"
  | m sk key e e' where "getHardLinkKey f = Some key" "map_of (ls_linkTable s) key = None" "made D f e"
      "same_kind (link_root e) e'"
      "s' = emitted e' (noted (Some key)
        (s\<lparr>ls_regexMap := m, ls_skippedFiles := sk, ls_linkTable := AList.update key (-1) (ls_linkTable s)\<rparr>))"
proof -
  let ?path = "D @ fi_name f"
  have u: "s = s\<lparr>ls_regexMap := ls_regexMap s, ls_skippedFiles := ls_skippedFiles s\<rparr>" by simp
  show thesis
  proof (cases "fi_name f = ''.duplicacy'' \<or> lo_OneFileSystem options \<and> fi_dev f \<noteq> fsId")
    case True
    then have "list_file env options fsId D f s = (Inr (), s)"
      by (cases "fi_name f = ''.duplicacy''") (simp_all add: list_file_def Let_def)
    with assms(1) have "s' = s" by simp
    then show thesis using u that(1) by metis
  next
    case go: False
    obtain r1 s1 where pi: "path_included env options ?path s = (r1, s1)" by force
    from path_included_effect [OF this] obtain m where s1: "s1 = s\<lparr>ls_regexMap := m\<rparr>" by blast
    then have s1': "s1 = s\<lparr>ls_regexMap := m, ls_skippedFiles := ls_skippedFiles s\<rparr>" by simp
    show thesis
    proof (cases "r1 = Inr True \<and> (\<exists>e. made D f e)")
      case False
      with go pi assms(1) have "s' = s1"
        by (cases r1; cases "CreateEntryFromFileInfo f ?path") (auto simp: list_file_def Let_def bind_st_run made_def split: if_splits)
      then show thesis using that(1) s1' by metis
    next
      case True
      then obtain e where e: "made D f e" and r1: "r1 = Inr True" by blast
      show thesis
      proof (cases "getHardLinkKey f")
        case None
        with go pi assms(1) e r1 have "list_entry env options ?path f None e s1 = (r, s')"
          by (auto simp: list_file_def Let_def bind_st_run made_def)
        from list_entry_effect [OF this] assms(2) obtain sk where
          "s' = s1\<lparr>ls_skippedFiles := sk\<rparr> \<or> (\<exists>e'. same_kind e e' \<and> s' = emitted e' (s1\<lparr>ls_skippedFiles := sk\<rparr>))"
          by (auto simp: noted_def)
        then show thesis using that(1,4) None e by (auto simp: s1)
      next
        case (Some key)
        show thesis
        proof (cases "map_of (ls_linkTable s) key")
          case None
          let ?s = "s1\<lparr>ls_linkTable := AList.update key (-1) (ls_linkTable s)\<rparr>"
          from Some None go pi assms(1) e r1 have "list_entry env options ?path f (Some key) (link_root e) ?s = (r, s')"
            by (auto simp: list_file_def Let_def bind_st_run made_def s1)
          from list_entry_effect [OF this] assms(2) obtain sk where
            "s' = ?s\<lparr>ls_skippedFiles := sk\<rparr> \<or> (\<exists>e'. same_kind (link_root e) e' \<and> s' = emitted e' (noted (Some key) (?s\<lparr>ls_skippedFiles := sk\<rparr>)))"
            by auto
          moreover have "?s\<lparr>ls_skippedFiles := sk\<rparr> =
              s\<lparr>ls_regexMap := m, ls_skippedFiles := sk, ls_linkTable := AList.update key (-1) (ls_linkTable s)\<rparr>" by (simp add: s1)
          ultimately show thesis using that(2) [OF Some None] that(5) [OF Some None e] by metis
        next
          fix i assume i: "map_of (ls_linkTable s) key = Some i"
          with Some go pi assms(1) e r1 have "s' = (if i = -1 then s1 else s1\<lparr>ls_listed := ls_listed s @ [link_child i e]\<rparr>)"
            by (auto simp: list_file_def Let_def bind_st_run made_def s1 send_def)
          moreover have "s1\<lparr>ls_listed := l\<rparr> =
              s\<lparr>ls_regexMap := m, ls_skippedFiles := ls_skippedFiles s, ls_listed := l\<rparr>" for l by (simp add: s1)
          ultimately show thesis using that(1) that(3) [OF Some i _ e] s1' by (cases "i = -1") metis+
        qed
      qed
    qed
  qed
qed

section \<open>What listing a directory does\<close>

lemma same_kind_dir: "same_kind e e' \<Longrightarrow> IsDir e' = IsDir e"
  by (simp add: same_kind_def IsDir_def)

lemma link_fields [simp]:
  "Path (link_root e) = Path e" "Mode (link_root e) = Mode e" "Path (link_child i e) = Path e" "Mode (link_child i e) = Mode e"
  by (simp_all add: link_root_def link_child_def Let_def)

lemma hard_linked_not_dir: "getHardLinkKey f = Some key \<Longrightarrow> \<not> dirlike f"
  by (auto simp: getHardLinkKey_def dirlike_def split: if_splits)

text \<open>The files and the directories of \<open>fs\<close> for which entries are added.\<close>

definition adds :: "string \<Rightarrow> file_info list \<Rightarrow> lister_state \<Rightarrow> lister_state \<Rightarrow> bool" where
  "adds D fs s s' \<longleftrightarrow> (\<exists>es ds gs hs. ls_listed s' = ls_listed s @ es \<and> ls_directoryList s' = ls_directoryList s @ ds \<and>
     map Path es = map (entry_path D) gs \<and> map Path ds = map (entry_path D) hs \<and>
     subseq gs (filter (\<lambda>f. \<not> dirlike f) fs) \<and> subseq hs (filter dirlike fs))"

lemma addsI:
  assumes "ls_listed s' = ls_listed s @ es" and "ls_directoryList s' = ls_directoryList s @ ds"
    and "map Path es = map (entry_path D) gs" and "map Path ds = map (entry_path D) hs"
    and "subseq gs (filter (\<lambda>f. \<not> dirlike f) fs)" and "subseq hs (filter dirlike fs)"
  shows "adds D fs s s'"
  using assms unfolding adds_def by blast

lemma adds_none: "ls_listed s' = ls_listed s \<Longrightarrow> ls_directoryList s' = ls_directoryList s \<Longrightarrow> adds D fs s s'"
  by (rule addsI [of s' s "[]" "[]" D "[]" "[]"]) simp_all

lemma adds_emitted:
  assumes "IsDir e \<longleftrightarrow> dirlike f" and "Path e = entry_path D f" and "ls_listed t = ls_listed s" "ls_directoryList t = ls_directoryList s"
  shows "adds D [f] s (emitted e t)"
proof (cases "dirlike f")
  case True
  with assms show ?thesis by (intro addsI [of _ s "[]" "[e]" D "[]" "[f]"]) (simp_all add: emitted_def)
next
  case False
  with assms show ?thesis by (intro addsI [of _ s "[e]" "[]" D "[f]" "[]"]) (simp_all add: emitted_def)
qed

lemma adds_trans:
  assumes "adds D fs s t" and "adds D gs t u"
  shows "adds D (fs @ gs) s u"
proof -
  obtain es ds xs ys where 1: "ls_listed t = ls_listed s @ es" "ls_directoryList t = ls_directoryList s @ ds"
    "map Path es = map (entry_path D) xs" "map Path ds = map (entry_path D) ys"
    "subseq xs (filter (\<lambda>f. \<not> dirlike f) fs)" "subseq ys (filter dirlike fs)" using assms(1) by (auto simp: adds_def)
  obtain es' ds' xs' ys' where 2: "ls_listed u = ls_listed t @ es'" "ls_directoryList u = ls_directoryList t @ ds'"
    "map Path es' = map (entry_path D) xs'" "map Path ds' = map (entry_path D) ys'"
    "subseq xs' (filter (\<lambda>f. \<not> dirlike f) gs)" "subseq ys' (filter dirlike gs)" using assms(2) by (auto simp: adds_def)
  show ?thesis
    by (rule addsI [of u s "es @ es'" "ds @ ds'" D "xs @ xs'" "ys @ ys'"])
      (simp_all add: 1 2 list_emb_append_mono)
qed

lemma list_file_adds:
  assumes "list_file env options fsId D f s = (r, s')" and f: "fi_name f \<noteq> []" "CHR ''/'' \<notin> set (fi_name f)"
  shows "adds D [f] s s'"
  using assms(1) f(1)
proof (cases rule: list_file_effect)
  case (3 m sk key i e)
  then have "adds D [f] s (emitted (link_child i e) (s\<lparr>ls_regexMap := m, ls_skippedFiles := sk\<rparr>))"
    using made_entry(1,2) [OF 3(4) f] hard_linked_not_dir
    by (intro adds_emitted) (auto simp: IsDir_def)
  moreover have "\<not> IsDir (link_child i e)" using made_entry(2) [OF 3(4) f] hard_linked_not_dir [OF 3(1)] by (simp add: IsDir_def)
  ultimately show ?thesis by (simp add: emitted_def 3(5))
next
  case (4 m sk e e')
  then show ?thesis
    using made_entry(1,2) [OF 4(2) f] same_kind_dir [OF 4(3)] by (auto intro!: adds_emitted simp: same_kind_def)
next
  case (5 m sk key e e')
  have "IsDir (link_root e) = IsDir e" by (simp add: IsDir_def)
  with 5 show ?thesis
    using made_entry(1,2) [OF 5(3) f] same_kind_dir [OF 5(4)] by (auto intro!: adds_emitted simp: same_kind_def noted_def)
qed (auto intro: adds_none)

lemma list_files_adds:
  assumes "for_each fs (list_file env options fsId D) s = (r, s')" and "tidy fs"
  shows "adds D fs s s'"
  using assms
proof (induction fs arbitrary: s)
  case (Cons f fs)
  have f: "fi_name f \<noteq> []" "CHR ''/'' \<notin> set (fi_name f)" and tidy: "tidy fs" using Cons.prems(2) by (auto simp: tidy_def)
  obtain r1 s1 where s1: "list_file env options fsId D f s = (r1, s1)" by force
  note a = list_file_adds [OF s1 f]
  show ?case
  proof (cases r1)
    case (Inl e)
    with s1 Cons.prems(1) have "s' = s1" by (simp add: bind_st_run)
    moreover have "adds D fs s1 s1" by (rule adds_none) simp_all
    ultimately show ?thesis using adds_trans [OF a] by simp
  next
    case (Inr u)
    with s1 Cons.prems(1) have "for_each fs (list_file env options fsId D) s1 = (r, s')" by (simp add: bind_st_run)
    then show ?thesis using adds_trans [OF a Cons.IH [OF _ tidy]] by simp
  qed
qed (auto intro: adds_none)

lemma subseq_member: "subseq gs fs \<Longrightarrow> g \<in> set gs \<Longrightarrow> g \<in> set fs"
  using list_emb_set [of "(=)" gs fs g] by auto

lemma subseq_sorted: "subseq gs fs \<Longrightarrow> sorted_wrt P fs \<Longrightarrow> sorted_wrt P gs"
proof (induction rule: list_emb.induct)
  case (list_emb_Cons2 x y xs ys)
  then show ?case using subseq_member [of xs ys] by simp
qed simp_all

lemma subseq_sum: "subseq gs fs \<Longrightarrow> sum_list (map h gs) \<le> (sum_list (map h fs) :: nat)"
  by (induction rule: list_emb.induct) auto

lemma subseq_in: "subseq gs (filter P fs) \<Longrightarrow> g \<in> set gs \<Longrightarrow> g \<in> set fs \<and> P g"
  using subseq_member [of gs "filter P fs" g] by simp

lemma by_path_iff: "by_path es \<longleftrightarrow> (\<forall>e \<in> set es. no_nul (Path e)) \<and> sorted_wrt (\<lambda>e f. precedes (Path e) (Path f)) es"
  by (simp add: by_path_def paths.ordered_def sorted_wrt_map precedes_def)

lemma sort_by_name_sorted: "by_path es \<Longrightarrow> sort_by_name es = es"
proof (induction es)
  case (Cons e es)
  then show ?case
    using Compare_flip [of e "hd es"]
    by (cases es) (auto simp: sort_by_name_def by_path_Cons ByName_Less_def)
qed (simp add: sort_by_name_def)

lemma send_each: "for_each es send s = (Inr (), s\<lparr>ls_listed := ls_listed s @ es\<rparr>)"
  by (induction es arbitrary: s) (simp_all add: send_def)

text \<open>The names of a directory.\<close>

definition tidy_env :: "'f lister_env \<Rightarrow> bool" where
  "tidy_env env \<longleftrightarrow> (\<forall>p files. le_ReadDir env p = Inr files \<longrightarrow> tidy files)"

lemma ListDir_adds:
  assumes "ListDir env options fsId D s = (Inr (Inr (subs, skipped)), s')" and "tidy_env env" and "base D"
  obtains files es gs hs where "le_ReadDir env (joinPath (le_top env) D) = Inr files" "ls_listed s' = ls_listed s @ es @ rev subs"
    "map Path es = map (entry_path D) gs" "map Path (rev subs) = map (entry_path D) hs"
    "subseq gs (filter (\<lambda>f. \<not> dirlike f) (sort_files files))" "subseq hs (filter dirlike (sort_files files))"
proof -
  obtain files where files: "le_ReadDir env (joinPath (le_top env) D) = Inr files"
    using assms(1) by (auto simp: ListDir_def split: sum.splits)
  show thesis
  proof (cases "has_nobackup_file (lo_NoBackupFile options) files")
    case True
    with assms(1) files have "subs = []" "s' = s" by (auto simp: ListDir_def)
    then show thesis using that [OF files, of "[]" "[]" "[]"] by simp
  next
    case False
    have tidy: "tidy (sort_files files)" "sorted_wrt (\<lambda>f g. file_key f < file_key g) (sort_files files)"
      using assms(2) files sort_files_sorted [of files] by (auto simp: tidy_env_def)
    have np: "(if D \<noteq> [] \<and> last D \<noteq> CHR ''/'' then D @ ''/'' else D) = D" using assms(3) by (auto simp: base_def)
    let ?s0 = "s\<lparr>ls_directoryList := [], ls_skippedFiles := []\<rparr>"
    obtain r1 s1 where s1: "for_each (sort_files files) (list_file env options fsId D) ?s0 = (r1, s1)" by force
    obtain es ds gs hs where a: "ls_listed s1 = ls_listed s @ es" "ls_directoryList s1 = ds" "map Path es = map (entry_path D) gs"
      "map Path ds = map (entry_path D) hs" "subseq gs (filter (\<lambda>f. \<not> dirlike f) (sort_files files))"
      "subseq hs (filter dirlike (sort_files files))"
      using list_files_adds [OF s1 tidy(1)] by (auto simp: adds_def)
    have "by_path ds"
    proof -
      have "sorted_wrt (\<lambda>f g. file_key f < file_key g) hs" using subseq_sorted [OF a(6) sorted_wrt_filter [OF tidy(2)]] .
      then have "sorted_wrt (\<lambda>f g. precedes (entry_path D f) (entry_path D g)) hs"
        using siblings(1) [OF tidy(1) _ _ assms(3)] subseq_in [OF a(6)] by (auto intro: sorted_wrt_mono_rel [rotated])
      then have "sorted_wrt precedes (map Path ds)" by (simp add: a(4) sorted_wrt_map)
      moreover have "\<forall>p \<in> set (map Path ds). no_nul p"
        unfolding a(4) using siblings(6) [OF tidy(1) _ _ assms(3)] subseq_in [OF a(6)] by auto
      ultimately show ?thesis by (simp add: by_path_iff sorted_wrt_map)
    qed
    then have ds: "(if D = [] then sort_by_name (ls_directoryList s1) else ls_directoryList s1) = ds"
      by (simp add: a(2) sort_by_name_sorted)
    have "subs = rev ds \<and> ls_listed s' = ls_listed s @ es @ ds"
    proof (cases r1)
      case (Inl e)
      with assms(1) files False s1 show ?thesis by (simp add: ListDir_def np bind_st_run)
    next
      case (Inr u)
      with assms(1) files False s1 ds a(1) show ?thesis
        by (auto simp: ListDir_def np bind_st_run send_each)
    qed
    then show thesis using that [OF files, of es gs hs] a by simp
  qed
qed

section \<open>The loop over the directories\<close>

text \<open>The entries are in order, and they precede whatever is listed from the stack, directory by directory.\<close>

definition pending_after :: "string \<Rightarrow> string list \<Rightarrow> bool" where
  "pending_after p Ds \<longleftrightarrow> (\<forall>D \<in> set Ds. \<forall>x. below D x \<longrightarrow> precedes p x)"

definition separate :: "string \<Rightarrow> string \<Rightarrow> bool" where
  "separate D E \<longleftrightarrow> (\<forall>x y. below D x \<longrightarrow> below E y \<longrightarrow> precedes x y)"

definition order_inv :: "entry list \<Rightarrow> string list \<Rightarrow> bool" where
  "order_inv es Ds \<longleftrightarrow> by_path es \<and> (\<forall>D \<in> set Ds. base D) \<and> (\<forall>e \<in> set es. pending_after (Path e) Ds) \<and>
     sorted_wrt separate Ds"

lemma order_inv_step:
  assumes inv: "order_inv listed (D # Ds)" and fs: "tidy fs" "sorted_wrt (\<lambda>f g. file_key f < file_key g) fs"
    and es: "map Path es = map (entry_path D) gs" "subseq gs (filter (\<lambda>f. \<not> dirlike f) fs)"
    and ds: "map Path ds = map (entry_path D) hs" "subseq hs (filter dirlike fs)"
  shows "order_inv (listed @ es @ ds) (map Path ds @ Ds)"
proof -
  have D: "base D" and old: "by_path listed" "\<And>e. e \<in> set listed \<Longrightarrow> pending_after (Path e) (D # Ds)"
    and Ds: "\<And>E. E \<in> set Ds \<Longrightarrow> base E" "\<And>E. E \<in> set Ds \<Longrightarrow> separate D E" "sorted_wrt separate Ds"
    using inv by (auto simp: order_inv_def)
  note sib = siblings [OF fs(1) _ _ D]
  have g: "\<And>g. g \<in> set gs \<Longrightarrow> g \<in> set fs \<and> \<not> dirlike g" and h: "\<And>h. h \<in> set hs \<Longrightarrow> h \<in> set fs \<and> dirlike h"
    using subseq_in [OF es(2)] subseq_in [OF ds(2)] by auto
  have sorted: "sorted_wrt (\<lambda>f g. file_key f < file_key g) (gs @ hs)"
    using subseq_sorted [OF es(2) sorted_wrt_filter [OF fs(2)]] subseq_sorted [OF ds(2) sorted_wrt_filter [OF fs(2)]] g h
    by (auto simp: sorted_wrt_append file_key_def)
  have new: "map Path (es @ ds) = map (entry_path D) (gs @ hs)" by (simp add: es(1) ds(1))
  have member: "\<exists>f \<in> set fs. Path e = entry_path D f" if "e \<in> set (es @ ds)" for e
  proof -
    have "Path e \<in> set (map Path (es @ ds))" using that unfolding set_map by (rule imageI)
    then show ?thesis unfolding new using g h by auto
  qed
  have "by_path (es @ ds)"
  proof -
    have "sorted_wrt (\<lambda>f g. precedes (entry_path D f) (entry_path D g)) (gs @ hs)"
      using sib(1) g h by (intro sorted_wrt_mono_rel [OF _ sorted]) auto
    then have "sorted_wrt precedes (map Path (es @ ds))" by (simp only: new sorted_wrt_map)
    moreover have "\<forall>e \<in> set (es @ ds). no_nul (Path e)" using member sib(6) by metis
    ultimately show ?thesis by (simp only: by_path_iff sorted_wrt_map)
  qed
  moreover have "precedes (Path e) (Path e')" if "e \<in> set listed" "e' \<in> set (es @ ds)" for e e'
    using old(2) [OF that(1)] member [OF that(2)] sib(4) by (auto simp: pending_after_def)
  ultimately have "by_path (listed @ es @ ds)" using old(1) by (auto simp: by_path_iff sorted_wrt_append)
  moreover have dir: "\<exists>k \<in> set fs. dirlike k \<and> E = entry_path D k" if "E \<in> set (map Path ds)" for E
    using that h unfolding ds(1) by auto
  moreover have "base E" if "E \<in> set (map Path ds @ Ds)" for E using that dir Ds(1) sib(5) by fastforce
  moreover have "pending_after (Path e) (map Path ds @ Ds)" if "e \<in> set (listed @ es @ ds)" for e
  proof -
    have "precedes (Path e) x" if "below E x" "E \<in> set (map Path ds)" for E x
    proof -
      obtain k where k: "k \<in> set fs" "dirlike k" "E = entry_path D k" using dir [OF \<open>E \<in> _\<close>] by blast
      show ?thesis
      proof (cases "e \<in> set listed")
        case True
        then show ?thesis using old(2) [OF True] sib(7) [OF k(1) k(1) k(2)] that(1) k(3) by (auto simp: pending_after_def)
      next
        case False
        with \<open>e \<in> _\<close> obtain f where "f \<in> set fs" "Path e = entry_path D f" using member [of e] by auto
        then show ?thesis using sib(2) [OF _ k(1) k(2)] that(1) k(3) by auto
      qed
    qed
    moreover have "precedes (Path e) x" if "below E x" "E \<in> set Ds" for E x
    proof (cases "e \<in> set listed")
      case True
      then show ?thesis using old(2) [OF True] that by (auto simp: pending_after_def)
    next
      case False
      with \<open>e \<in> _\<close> have "below D (Path e)" using member [of e] sib(4) by auto
      then show ?thesis using Ds(2) [OF that(2)] that(1) by (auto simp: separate_def)
    qed
    ultimately show ?thesis by (auto simp: pending_after_def)
  qed
  moreover have "sorted_wrt separate (map Path ds @ Ds)"
  proof -
    have "sorted_wrt (\<lambda>f g. separate (entry_path D f) (entry_path D g)) hs"
    proof (rule sorted_wrt_mono_rel)
      show "sorted_wrt (\<lambda>f g. file_key f < file_key g) hs" using sorted by (simp add: sorted_wrt_append)
      show "separate (entry_path D f) (entry_path D g)" if "f \<in> set hs" "g \<in> set hs" "file_key f < file_key g" for f g
        using sib(3) [of f g] h that by (auto simp: separate_def)
    qed
    then have "sorted_wrt separate (map Path ds)" by (simp add: ds(1) sorted_wrt_map)
    moreover have "separate E F" if "E \<in> set (map Path ds)" "F \<in> set Ds" for E F
      using dir [OF that(1)] Ds(2) [OF that(2)] sib(7) by (auto simp: separate_def)
    ultimately show ?thesis using Ds(3) by (simp add: sorted_wrt_append)
  qed
  ultimately show ?thesis by (auto simp: order_inv_def)
qed

lemma ListDir_error: "ListDir env options fsId D s = (Inr (Inl err), s') \<Longrightarrow> s' = s"
  by (auto simp: ListDir_def bind_st_def send_each Let_def split: sum.splits if_splits prod.splits)

text \<open>One round of the loop.\<close>

lemma list_round:
  assumes "list_directories env options fsId (Suc n) (d # ds) sd sf s = (Inr x, s')"
    and "tidy_env env" and "base (Path d)"
  obtains sd' sf' s1 es ds' gs hs fs where "list_directories env options fsId n (ds' @ ds) sd' sf' s1 = (Inr x, s')"
    and "ls_listed s1 = ls_listed s @ es @ ds'" and "map Path es = map (entry_path (Path d)) gs"
    and "map Path ds' = map (entry_path (Path d)) hs" and "subseq gs (filter (\<lambda>f. \<not> dirlike f) (sort_files fs))"
    and "subseq hs (filter dirlike (sort_files fs))" and "tidy fs"
    and "hs = [] \<or> le_ReadDir env (joinPath (le_top env) (Path d)) = Inr fs"
proof -
  obtain r s1 where ld: "ListDir env options fsId (Path d) s = (r, s1)" by force
  then obtain r' where r: "r = Inr r'" using assms(1) by (cases r) (auto simp: bind_st_def)
  show thesis
  proof (cases r')
    case (Inl err)
    with ld r ListDir_error have s1: "s1 = s" by blast
    with assms(1) ld r Inl have "list_directories env options fsId n ds (sd @ [Path d]) sf s = (Inr x, s')"
      by (auto simp: bind_st_def split: if_splits)
    then show thesis using that [of "[]" "sd @ [Path d]" sf s "[]" "[]" "[]" "[]"] by (simp add: tidy_def sort_files_def)
  next
    case (Inr y)
    obtain subs sk where y: "y = (subs, sk)" by force
    from ld r Inr y have l: "ListDir env options fsId (Path d) s = (Inr (Inr (subs, sk)), s1)" by simp
    with assms(1) have run: "list_directories env options fsId n (rev subs @ ds) sd (sf @ sk) s1 = (Inr x, s')"
      by (simp add: bind_st_def)
    from l show thesis
      using assms(2,3)
    proof (rule ListDir_adds)
      fix fs es gs hs
      assume "le_ReadDir env (joinPath (le_top env) (Path d)) = Inr fs" and "ls_listed s1 = ls_listed s @ es @ rev subs"
        and "map Path es = map (entry_path (Path d)) gs" and "map Path (rev subs) = map (entry_path (Path d)) hs"
        and "subseq gs (filter (\<lambda>f. \<not> dirlike f) (sort_files fs))" and "subseq hs (filter dirlike (sort_files fs))"
      then show thesis using that [OF run] assms(2) by (auto simp: tidy_env_def)
    qed
  qed
qed

lemma list_directories_order:
  assumes "list_directories env options fsId n dirs sd sf s = (Inr (Some x), s')" and "tidy_env env"
    and "order_inv (ls_listed s) (map Path dirs)"
  shows "by_path (ls_listed s')"
  using assms(1,3)
proof (induction n arbitrary: dirs sd sf s)
  case (Suc n)
  show ?case
  proof (cases dirs)
    case Nil
    with Suc.prems show ?thesis by (simp add: order_inv_def)
  next
    case (Cons d ds)
    then have D: "base (Path d)" using Suc.prems(2) by (simp add: order_inv_def)
    from Suc.prems(1) Cons assms(2) D show ?thesis
      unfolding Cons
    proof (elim list_round)
      fix sd' sf' s1 es ds' gs hs fs
      assume run: "list_directories env options fsId n (ds' @ ds) sd' sf' s1 = (Inr (Some x), s')"
        and a: "ls_listed s1 = ls_listed s @ es @ ds'" "map Path es = map (entry_path (Path d)) gs"
          "map Path ds' = map (entry_path (Path d)) hs" "subseq gs (filter (\<lambda>f. \<not> dirlike f) (sort_files fs))"
          "subseq hs (filter dirlike (sort_files fs))" and fs: "tidy fs"
      have "order_inv (ls_listed s1) (map Path (ds' @ ds))"
        unfolding a(1) map_append
        using order_inv_step [OF _ sort_files_sorted(3,1) [OF fs] a(2,4,3,5)] Suc.prems(2) Cons by simp
      then show ?thesis by (rule Suc.IH [OF run])
    qed
  qed
qed simp

text \<open>A size for every directory, larger than those of its subdirectories together.\<close>

definition tree_size :: "'f lister_env \<Rightarrow> string set \<Rightarrow> (string \<Rightarrow> nat) \<Rightarrow> bool" where
  "tree_size env Ds sz \<longleftrightarrow> (\<forall>D \<in> Ds. 0 < sz D \<and> (\<forall>files. le_ReadDir env (joinPath (le_top env) D) = Inr files \<longrightarrow>
     (\<forall>f \<in> set files. dirlike f \<longrightarrow> entry_path D f \<in> Ds) \<and>
     sum_list (map (\<lambda>f. sz (entry_path D f)) (filter dirlike files)) < sz D))"

lemma sum_sorted: "sum_list (map h (filter P (sort_files files))) = (sum_list (map h (filter P files)) :: nat)"
proof -
  have "mset (sort_files files) = mset files" by (simp add: sort_files_key)
  then have "mset (map h (filter P (sort_files files))) = mset (map h (filter P files))" by (simp add: mset_filter)
  then show ?thesis by (metis sum_mset_sum_list)
qed

lemma list_directories_returns:
  assumes "tidy_env env" and "tree_size env Ds sz" and "\<forall>d \<in> set dirs. base (Path d) \<and> Path d \<in> Ds" and "sum_list (map (sz \<circ> Path) dirs) < n"
  shows "fst (list_directories env options fsId n dirs sd sf s) \<noteq> Inr None"
  using assms(3,4)
proof (induction n arbitrary: dirs sd sf s)
  case (Suc n)
  show ?case
  proof (cases dirs)
    case (Cons d ds)
    show ?thesis
    proof
      assume none: "fst (list_directories env options fsId (Suc n) dirs sd sf s) = Inr None"
      then obtain s' where "list_directories env options fsId (Suc n) (d # ds) sd sf s = (Inr None, s')"
        unfolding Cons by (metis prod.collapse)
      moreover have d: "base (Path d)" "Path d \<in> Ds" using Suc.prems(1) Cons by simp_all
      ultimately show False
        using assms(1)
      proof (elim list_round)
        fix sd' sf' s1 es ds' gs hs fs
        assume run: "list_directories env options fsId n (ds' @ ds) sd' sf' s1 = (Inr None, s')"
          and a: "map Path ds' = map (entry_path (Path d)) hs" "subseq hs (filter dirlike (sort_files fs))" "tidy fs"
            "hs = [] \<or> le_ReadDir env (joinPath (le_top env) (Path d)) = Inr fs"
        have "sum_list (map (sz \<circ> Path) ds') = sum_list (map (\<lambda>f. sz (entry_path (Path d) f)) hs)"
          using arg_cong [OF a(1), of "map sz"] by (simp add: comp_def)
        also have "\<dots> < sz (Path d)"
          using a(4) subseq_sum [OF a(2), of "\<lambda>f. sz (entry_path (Path d) f)"] assms(2) d(2)
          by (auto simp: tree_size_def sum_sorted intro: le_less_trans)
        finally have "sum_list (map (sz \<circ> Path) (ds' @ ds)) < n" using Suc.prems(2) Cons by (simp add: comp_def)
        moreover have "base (Path e) \<and> Path e \<in> Ds" if "e \<in> set ds'" for e
        proof -
          have "Path e \<in> entry_path (Path d) ` set hs" using that a(1) by (metis imageI set_map)
          then obtain h where h: "h \<in> set hs" "Path e = entry_path (Path d) h" by blast
          have m: "h \<in> set (sort_files fs)" "dirlike h" using subseq_in [OF a(2) h(1)] by auto
          from siblings(5) [OF sort_files_sorted(3) [OF a(3)] m(1) m(1) d(1)] have "base (Path e)" using m(2) h(2) by simp
          moreover have "Path e \<in> Ds"
            using a(4) assms(2) d(2) m h sort_files_sorted(2) [OF a(3)] by (auto simp: tree_size_def)
          ultimately show ?thesis by simp
        qed
        moreover have "\<forall>e \<in> set ds. base (Path e) \<and> Path e \<in> Ds" using Suc.prems(1) Cons by simp
        ultimately have "fst (list_directories env options fsId n (ds' @ ds) sd' sf' s1) \<noteq> Inr None"
          by (intro Suc.IH) (auto simp: comp_def)
        then show False by (simp add: run)
      qed
    qed
  qed simp
qed simp

section \<open>Hard links\<close>

text \<open>Every hard link has the number of a root before it in the list; \<open>n\<close> roots precede the list.\<close>

fun numbered :: "int \<Rightarrow> entry list \<Rightarrow> bool" where
  "numbered n [] = True"
| "numbered n (e # es) =
     ((IsHardLinkChild e \<longrightarrow> (case GetHardLinkId e of Inr i \<Rightarrow> 0 \<le> i \<and> i < n | Inl _ \<Rightarrow> False)) \<and>
      numbered (if IsHardLinkRoot e then n + 1 else n) es)"

definition roots :: "entry list \<Rightarrow> int" where
  "roots es = int (length (filter IsHardLinkRoot es))"

lemma roots_simps [simp]: "roots [] = 0" "roots (es @ fs) = roots es + roots fs" "0 \<le> roots es"
  "roots [e] = (if IsHardLinkRoot e then 1 else 0)"
  by (simp_all add: roots_def)

lemma numbered_snoc:
  "numbered n (es @ [e]) \<longleftrightarrow> numbered n es \<and>
     (IsHardLinkChild e \<longrightarrow> (case GetHardLinkId e of Inr i \<Rightarrow> 0 \<le> i \<and> i < n + roots es | Inl _ \<Rightarrow> False))"
  by (induction es arbitrary: n) (auto simp: roots_def split: sum.splits)

lemma file_not_dir: "IsFile e \<Longrightarrow> \<not> IsDir e"
proof -
  assume "IsFile e"
  moreover have "Mode e AND ModeDir = (Mode e AND ModeType) AND ModeDir" by (simp add: and.assoc) (simp add: mode_defs)
  ultimately show ?thesis by (simp add: IsFile_def IsDir_def)
qed

lemma dir_no_link: "IsDir e \<Longrightarrow> \<not> IsHardLinkRoot e \<and> \<not> IsHardLinkChild e"
  using file_not_dir by (auto simp: IsHardLinkRoot_def IsHardLinkChild_def)

lemma numbered_dirs: "\<forall>d \<in> set ds. IsDir d \<Longrightarrow> numbered n es \<Longrightarrow> numbered n (es @ ds) \<and> roots (es @ ds) = roots es"
proof (induction ds rule: rev_induct)
  case (snoc d ds)
  then show ?case using numbered_snoc [of n "es @ ds" d] dir_no_link [of d] by simp
qed simp

text \<open>The numbers in the table are those of roots that have been sent, or -1.\<close>

definition link_table :: "int \<Rightarrow> (link_key \<times> int) list \<Rightarrow> bool" where
  "link_table n T \<longleftrightarrow> (\<forall>k v. map_of T k = Some v \<longrightarrow> v = -1 \<or> (0 \<le> v \<and> v < n))"

lemma link_table_update: "link_table n T \<Longrightarrow> v = -1 \<or> (0 \<le> v \<and> v < n) \<Longrightarrow> link_table n (AList.update k v T)"
  by (simp add: link_table_def update_conv')

lemma link_table_more: "link_table n T \<Longrightarrow> n \<le> m \<Longrightarrow> link_table m T"
  by (fastforce simp: link_table_def)

lemma link_tableD: "link_table n T \<Longrightarrow> map_of T k = Some v \<Longrightarrow> v \<noteq> -1 \<Longrightarrow> 0 \<le> v \<and> v < n"
  unfolding link_table_def by blast

definition link_inv :: "lister_state \<Rightarrow> bool" where
  "link_inv s \<longleftrightarrow> ls_linkIndex s = roots (ls_listed s) \<and> (\<forall>d \<in> set (ls_directoryList s). IsDir d) \<and>
     link_table (ls_linkIndex s) (ls_linkTable s) \<and>
     (int (length (ls_listed s)) < 2 ^ 63 \<longrightarrow> numbered 0 (ls_listed s))"

lemma roots_length: "roots es \<le> int (length es)"
  by (simp add: roots_def)

lemma plain_entry:
  assumes "same_kind e e'" and "Link e = []" and "EndChunk e = 0" and "IsFile e \<Longrightarrow> \<not> IsLink e"
  shows "\<not> IsHardLinkRoot e' \<and> \<not> IsHardLinkChild e'"
  using assms
  by (auto simp: same_kind_def IsHardLinkRoot_def IsHardLinkChild_def IsFile_def IsDir_def entryHardLinkRootChunkMarker_def
      entryHardLinkTargetChunkMarker_def)

lemma root_entry:
  assumes "same_kind (link_root e) e'" and "EndChunk e = 0" and "IsFile e \<Longrightarrow> \<not> IsLink e" and "\<not> IsDir e"
  shows "IsHardLinkRoot e' \<and> \<not> IsHardLinkChild e' \<and> \<not> IsDir e'"
  using assms
  by (auto simp: same_kind_def IsHardLinkRoot_def IsHardLinkChild_def IsFile_def IsDir_def IsLink_def link_root_def
      entryHardLinkRootChunkMarker_def entryHardLinkTargetChunkMarker_def split: if_splits)

lemma child_entry:
  assumes "0 \<le> i" and "\<not> IsDir e" and "EndChunk e = 0"
  shows "\<not> IsHardLinkRoot (link_child i e)" and "i < 2 ^ 63 \<Longrightarrow> GetHardLinkId (link_child i e) = Inr i"
proof -
  have "show_hex (nat i) \<noteq> ''/''" using show_hex_no_slash [of "nat i"] by auto
  then show "\<not> IsHardLinkRoot (link_child i e)"
    using assms by (auto simp: link_child_def Let_def IsHardLinkRoot_def IsFile_def IsDir_def
        entryHardLinkTargetChunkMarker_def entryHardLinkRootChunkMarker_def)
  have "i < 2 ^ 63 \<Longrightarrow> ParseUint16 64 (show_hex (nat i)) = Inr (nat i)"
    by (rule ParseUint16_show_hex) (use assms(1) in simp)
  then show "i < 2 ^ 63 \<Longrightarrow> GetHardLinkId (link_child i e) = Inr i"
    using assms by (auto simp: link_child_def Let_def GetHardLinkId_def IsFile_def int_of_uint64_def)
qed

lemma list_file_links:
  assumes "list_file env options fsId D f s = (r, s')" and f: "fi_name f \<noteq> []" "CHR ''/'' \<notin> set (fi_name f)" and inv: "link_inv s"
  shows "link_inv s'"
  using assms(1) f(1)
proof (cases rule: list_file_effect)
  case (2 m sk key)
  with inv show ?thesis by (auto simp: link_inv_def intro!: link_table_update)
next
  case (3 m sk key i e)
  have "0 \<le> i \<and> i < roots (ls_listed s)" using inv link_tableD [OF _ 3(2,3)] by (auto simp: link_inv_def)
  moreover have "\<not> IsDir e" using made_entry(2) [OF 3(4) f] hard_linked_not_dir [OF 3(1)] by simp
  moreover note made_entry(3) [OF 3(4) f] roots_length [of "ls_listed s"]
  ultimately show ?thesis
    using inv child_entry [of i e] by (auto simp: link_inv_def 3(5) numbered_snoc)
next
  case (4 m sk e e')
  with inv plain_entry [OF 4(3) made_entry(4,3,5) [OF 4(2) f]] show ?thesis
    by (auto simp: link_inv_def emitted_def numbered_snoc)
next
  case (5 m sk key e e')
  have "\<not> IsDir e" using made_entry(2) [OF 5(3) f] hard_linked_not_dir [OF 5(1)] by simp
  with inv root_entry [OF 5(4) made_entry(3,5) [OF 5(3) f]] show ?thesis
    by (auto simp: link_inv_def emitted_def noted_def numbered_snoc 5(5) intro!: link_table_update intro: link_table_more)
qed (use inv in \<open>auto simp: link_inv_def\<close>)

lemma list_files_links:
  assumes "for_each fs (list_file env options fsId D) s = (r, s')" and "tidy fs" and "link_inv s"
  shows "link_inv s'"
  using assms
proof (induction fs arbitrary: s)
  case (Cons f fs)
  have f: "fi_name f \<noteq> []" "CHR ''/'' \<notin> set (fi_name f)" and tidy: "tidy fs" using Cons.prems(2) by (auto simp: tidy_def)
  obtain r1 s1 where s1: "list_file env options fsId D f s = (r1, s1)" by force
  note inv = list_file_links [OF s1 f Cons.prems(3)]
  show ?case
  proof (cases r1)
    case (Inl e)
    with s1 Cons.prems(1) inv show ?thesis by (simp add: bind_st_run)
  next
    case (Inr u)
    with s1 Cons.prems(1) Cons.IH [OF _ tidy inv] show ?thesis by (simp add: bind_st_run)
  qed
qed simp

lemma link_inv_send:
  assumes "link_inv s" and "\<forall>d \<in> set ds. IsDir d"
  shows "link_inv (s\<lparr>ls_listed := ls_listed s @ ds\<rparr>)"
  using assms numbered_dirs [OF assms(2), of 0 "ls_listed s"] numbered_dirs [OF assms(2), of 0 "[]"] by (auto simp: link_inv_def)

lemma set_sort_by_name: "set (sort_by_name es) = set es"
proof -
  have "set (insert_entry e es) = insert e (set es)" for e es by (induction es) auto
  then show ?thesis by (induction es) (auto simp: sort_by_name_def)
qed

lemma ListDir_links:
  assumes "ListDir env options fsId D s = (r, s')" and "tidy_env env" and "link_inv s"
  shows "link_inv s'"
proof -
  show ?thesis
  proof (cases "\<exists>files. le_ReadDir env (joinPath (le_top env) D) = Inr files \<and> \<not> has_nobackup_file (lo_NoBackupFile options) files")
    case False
    with assms(1) have "s' = s" by (auto simp: ListDir_def split: sum.splits if_splits)
    with assms(3) show ?thesis by simp
  next
    case True
    then obtain files where files: "le_ReadDir env (joinPath (le_top env) D) = Inr files"
      "\<not> has_nobackup_file (lo_NoBackupFile options) files" by blast
    let ?np = "if D \<noteq> [] \<and> last D \<noteq> CHR ''/'' then D @ ''/'' else D"
    let ?s0 = "s\<lparr>ls_directoryList := [], ls_skippedFiles := []\<rparr>"
    obtain r1 s1 where s1: "for_each (sort_files files) (list_file env options fsId ?np) ?s0 = (r1, s1)" by force
    have "link_inv ?s0" using assms(3) by (auto simp: link_inv_def)
    then have inv: "link_inv s1"
      using list_files_links [OF s1 sort_files_sorted(3)] assms(2) files(1) by (auto simp: tidy_env_def)
    let ?ds = "if D = [] then sort_by_name (ls_directoryList s1) else ls_directoryList s1"
    have ds: "\<forall>d \<in> set ?ds. IsDir d" using inv by (auto simp: link_inv_def set_sort_by_name)
    have "s' = s1 \<or> s' = s1\<lparr>ls_listed := ls_listed s1 @ ?ds\<rparr>"
    proof (cases r1)
      case (Inl e)
      with assms(1) files s1 show ?thesis by (simp add: ListDir_def Let_def bind_st_run split del: if_split)
    next
      case (Inr u)
      with assms(1) files s1 show ?thesis by (simp add: ListDir_def Let_def bind_st_run send_each split del: if_split)
    qed
    with link_inv_send [OF inv ds] inv show ?thesis by metis
  qed
qed

lemma list_directories_links:
  assumes "list_directories env options fsId n dirs sd sf s = (r, s')" and "tidy_env env" and "link_inv s"
  shows "link_inv s'"
  using assms(1,3)
proof (induction n arbitrary: dirs sd sf s)
  case (Suc n)
  show ?case
  proof (cases dirs)
    case Nil
    with Suc.prems show ?thesis by simp
  next
    case (Cons d ds)
    obtain r1 s1 where ld: "ListDir env options fsId (Path d) s = (r1, s1)" by force
    note inv = ListDir_links [OF ld assms(2) Suc.prems(2)]
    show ?thesis
      using Suc.prems(1) ld Cons inv Suc.IH [OF _ inv]
      by (auto simp: bind_st_def split: sum.splits if_splits prod.splits)
  qed
qed simp

section \<open>The listing of the repository\<close>

lemma ListLocalFiles_cases:
  assumes "ListLocalFiles env fe filtersFile options n m = (Inr x, m')"
  obtains fsId ps m1 y s' where "list_directories env (options\<lparr>lo_Patterns := ps\<rparr>) fsId n [CreateEntry [] 0 0 0] [] [] (new_lister m1) = (Inr y, s')"
    and "x = map_option (\<lambda>(dirs, files). (ls_listed s', dirs, files)) y"
  using assms by (auto simp: ListLocalFiles_def Let_def bind_st_def lift_res_def bind_res_Inr_iff split: prod.splits sum.splits)

text \<open>C20: the local files are listed in the order of paths, strictly increasing and so without duplicates: the
  order in which the comparison with the last snapshot expects both of its lists. Listing ends when the
  fuel exceeds the size of the tree of directories.\<close>

theorem local_files_in_order:
  assumes "tidy_env env" and "tree_size env Ds sz" and "[] \<in> Ds" and "sz [] < n"
  shows "case fst (ListLocalFiles env fe filtersFile options n m) of
      Inl e \<Rightarrow> True | Inr None \<Rightarrow> False | Inr (Some (es, dirs, files)) \<Rightarrow> by_path es"
proof (cases "fst (ListLocalFiles env fe filtersFile options n m)")
  case (Inr x)
  then obtain m' where "ListLocalFiles env fe filtersFile options n m = (Inr x, m')" by (metis prod.collapse)
  then show ?thesis
  proof (rule ListLocalFiles_cases)
    fix fsId ps m1 y s'
    assume run: "list_directories env (options\<lparr>lo_Patterns := ps\<rparr>) fsId n [CreateEntry [] 0 0 0] [] [] (new_lister m1) = (Inr y, s')"
      and x: "x = map_option (\<lambda>(dirs, files). (ls_listed s', dirs, files)) y"
    have root: "Path (CreateEntry [] 0 0 0) = []" by (simp add: CreateEntry_def)
    have "fst (list_directories env (options\<lparr>lo_Patterns := ps\<rparr>) fsId n [CreateEntry [] 0 0 0] [] [] (new_lister m1)) \<noteq> Inr None"
      by (rule list_directories_returns [OF assms(1,2)]) (use assms(3,4) in \<open>simp_all add: root base_def no_nul_def\<close>)
    then obtain z where y: "y = Some z" using run by auto
    have "order_inv (ls_listed (new_lister m1)) (map Path [CreateEntry [] 0 0 0])"
      by (simp add: order_inv_def new_lister_def root base_def no_nul_def by_path_iff)
    then have "by_path (ls_listed s')" using list_directories_order [OF run [unfolded y] assms(1)] by simp
    then show ?thesis by (simp add: Inr x y split: prod.split)
  qed
qed simp

text \<open>C21: every hard link in the listing has the number of a file listed before it as a root, so that \<open>UploadSnapshot\<close>
  finds an entry under this number; a file that was excluded or could not be read is not counted.\<close>

theorem hard_links_numbered:
  assumes "tidy_env env" and "fst (ListLocalFiles env fe filtersFile options n m) = Inr (Some (es, dirs, files))"
    and "int (length es) < 2 ^ 63"
  shows "numbered 0 es"
proof -
  obtain m' where "ListLocalFiles env fe filtersFile options n m = (Inr (Some (es, dirs, files)), m')"
    using assms(2) by (metis prod.collapse)
  then show ?thesis
  proof (rule ListLocalFiles_cases)
    fix fsId ps m1 y s'
    assume run: "list_directories env (options\<lparr>lo_Patterns := ps\<rparr>) fsId n [CreateEntry [] 0 0 0] [] [] (new_lister m1) = (Inr y, s')"
      and x: "Some (es, dirs, files) = map_option (\<lambda>(dirs, files). (ls_listed s', dirs, files)) y"
    have "link_inv (new_lister m1)" by (simp add: link_inv_def new_lister_def link_table_def)
    then have "link_inv s'" by (rule list_directories_links [OF run assms(1)])
    moreover have "es = ls_listed s'" using x by (cases y) auto
    ultimately show ?thesis using assms(3) by (simp add: link_inv_def)
  qed
qed

section \<open>An example\<close>

text \<open>A file with two names, one of them in a subdirectory, and a file that the filters exclude.\<close>

definition sample_info :: "string \<Rightarrow> 32 word \<Rightarrow> int \<Rightarrow> 64 word \<Rightarrow> file_info" where
  "sample_info name mode nlink ino = \<lparr>fi_name = name, fi_size = 3, fi_mtime = 50, fi_mode = mode, fi_uid = 1, fi_gid = 1,
     fi_nlink = nlink, fi_dev = 1, fi_ino = ino, fi_rdev = 0\<rparr>"

definition sample_lister :: "file_meta lister_env" where
  "sample_lister = \<lparr>le_top = ''/t'', le_compile = fe_compile sample_filters, le_calls = posix_calls, le_file = (\<lambda>p. sample_meta),
     le_ReadDir = (\<lambda>p. if p = ''/t'' then Inr [sample_info ''a'' 0x800001ED 1 1, sample_info ''b'' 0x1A4 2 5, sample_info ''c.tmp'' 0x1A4 1 6]
        else if p = ''/t/a'' then Inr [sample_info ''z'' 0x1A4 2 5] else Inl (GoErr ''no such file'')),
     le_Readlink = (\<lambda>p. Inl (GoErr ''invalid argument'')), le_Stat = (\<lambda>p. Inr (sample_info ''t'' 0x800001ED 1 0))\<rparr>"

definition sample_lister_options :: lister_options where
  "sample_lister_options = \<lparr>lo_Patterns = [], lo_NoBackupFile = [], lo_ExcludeByAttribute = False, lo_ExcludeXattrs = True,
     lo_IncludeFileFlags = False, lo_IncludeSpecials = False, lo_OneFileSystem = True\<rparr>"

definition tmp_filters :: filter_env where
  "tmp_filters = sample_filters\<lparr>fe_files := [(''/p/filters'', ''-*.tmp'')]\<rparr>"

definition sample_local :: "(entry list \<times> string list \<times> string list) option res" where
  "sample_local = fst (ListLocalFiles sample_lister tmp_filters ''/p/filters'' sample_lister_options 3 [])"

lemma sample_tidy: "tidy_env sample_lister"
  by (auto simp: tidy_env_def sample_lister_def tidy_def sample_info_def no_nul_def split: if_splits)

lemma sample_listed: "map_option (map Path \<circ> fst) (case sample_local of Inr x \<Rightarrow> x | Inl e \<Rightarrow> None) = Some [''b'', ''a/'', ''a/z'']"
  by code_simp

lemma sample_tree: "tree_size sample_lister {[], ''a/''} (\<lambda>D. if D = [] then 2 else 1)"
proof -
  have "joinPath ''/t'' [] = ''/t''" "joinPath ''/t'' ''a/'' = ''/t/a''" by code_simp+
  moreover have "dirlike (sample_info ''a'' 0x800001ED 1 1)" "\<not> dirlike (sample_info ''b'' 0x1A4 2 5)"
    "\<not> dirlike (sample_info ''c.tmp'' 0x1A4 1 6)" "\<not> dirlike (sample_info ''z'' 0x1A4 2 5)"
    "entry_path [] (sample_info ''a'' 0x800001ED 1 1) = ''a/''" by code_simp+
  ultimately show ?thesis by (simp add: tree_size_def sample_lister_def) auto
qed

lemma sample_run:
  obtains es dirs files where "fst (ListLocalFiles sample_lister tmp_filters ''/p/filters'' sample_lister_options 3 [])
      = Inr (Some (es, dirs, files))" and "map Path es = [''b'', ''a/'', ''a/z'']"
proof -
  obtain x where x: "(case sample_local of Inr x \<Rightarrow> x | Inl e \<Rightarrow> None) = Some x" and p: "map Path (fst x) = [''b'', ''a/'', ''a/z'']"
    using sample_listed unfolding map_option_eq_Some by fastforce
  then have "sample_local = Inr (Some x)" by (simp split: sum.splits)
  then have "fst (ListLocalFiles sample_lister tmp_filters ''/p/filters'' sample_lister_options 3 [])
      = Inr (Some (fst x, fst (snd x), snd (snd x)))" by (simp add: sample_local_def)
  then show thesis using p by (rule that)
qed

lemma local_files_in_order_witness:
  "case sample_local of Inr (Some (es, dirs, files)) \<Rightarrow> by_path es \<and> map Path es = [''b'', ''a/'', ''a/z''] | _ \<Rightarrow> False"
proof (rule sample_run)
  fix es dirs files
  assume r: "fst (ListLocalFiles sample_lister tmp_filters ''/p/filters'' sample_lister_options 3 []) = Inr (Some (es, dirs, files))"
    and p: "map Path es = [''b'', ''a/'', ''a/z'']"
  have "by_path es"
    using local_files_in_order [OF sample_tidy sample_tree, of 3 tmp_filters "''/p/filters''" sample_lister_options "[]"]
    by (simp add: r)
  then show ?thesis using p by (simp add: sample_local_def r)
qed

lemma hard_links_numbered_witness:
  "case sample_local of Inr (Some (es, dirs, files)) \<Rightarrow> numbered 0 es \<and> map Path es = [''b'', ''a/'', ''a/z''] | _ \<Rightarrow> False"
proof (rule sample_run)
  fix es dirs files
  assume r: "fst (ListLocalFiles sample_lister tmp_filters ''/p/filters'' sample_lister_options 3 []) = Inr (Some (es, dirs, files))"
    and p: "map Path es = [''b'', ''a/'', ''a/z'']"
  have "length es = 3" using arg_cong [OF p, of length] by simp
  then have "numbered 0 es" using hard_links_numbered [OF sample_tidy r] by simp
  then show ?thesis using p by (simp add: sample_local_def r)
qed

end
