(* ===== verification/Downloader.thy ===== *)
theory Downloader
  imports PruneSafety BackupUpload
begin

text \<open>
  The chunk downloader of a restore (\<open>duplicacy_chunkdownloader.go\<close>): the list of the chunks that the files
  need, in the order of the files, with prefetching by the threads of the chunk operator.

  A download is performed when it is requested; its chunk arrives through the completion channel later, in an
  order that the function \<open>de_arrives\<close> of the environment decides. Whatever order that is, waiting for a chunk
  ends, and the chunk that is returned is the requested one.
\<close>

section \<open>State\<close>

record download_task =
  dt_chunk :: "chunk option"
  dt_chunkIndex :: nat
  dt_chunkHash :: bytes
  dt_chunkLength :: int
  dt_needed :: bool
  dt_isDownloading :: bool

record 's downloader =
  dl_operator :: "'s operator_state"
  dl_totalChunkSize :: int
  dl_taskList :: "download_task list"
  dl_completedTasks :: "nat list"
  dl_lastChunkIndex :: int
  dl_channel :: "(nat \<times> chunk) list"
  dl_numberOfDownloadedChunks :: int
  dl_numberOfDownloadingChunks :: int
  dl_numberOfActiveChunks :: int

record 's download_env =
  de_operator :: "'s operator_env"
  de_threads :: int
  de_arrives :: "(nat \<times> chunk) list \<Rightarrow> nat"

definition CreateChunkDownloader :: "'s operator_state \<Rightarrow> 's downloader" where
  "CreateChunkDownloader operator =
     \<lparr>dl_operator = operator, dl_totalChunkSize = 0, dl_taskList = [], dl_completedTasks = [], dl_lastChunkIndex = 0,
      dl_channel = [], dl_numberOfDownloadedChunks = 0, dl_numberOfDownloadingChunks = 0, dl_numberOfActiveChunks = 0\<rparr>"

definition set_task :: "nat \<Rightarrow> (download_task \<Rightarrow> download_task) \<Rightarrow> 's downloader \<Rightarrow> 's downloader" where
  "set_task i f dl = dl\<lparr>dl_taskList := (dl_taskList dl)[i := f (dl_taskList dl ! i)]\<rparr>"

definition task_at :: "int \<Rightarrow> ('s downloader, download_task) prog" where
  "task_at i dl = (index_slice (dl_taskList dl) i, dl)"

section \<open>The list of the chunks\<close>

text \<open>One chunk of a file: a new task, unless the file before it ended with the same chunk. The accumulator is
  \<open>lastChunkIndex\<close>, the task list and the total size.\<close>

type_synonym task_list = "int \<times> download_task list \<times> int"

definition add_chunk :: "snapshot \<Rightarrow> int \<Rightarrow> task_list \<Rightarrow> task_list res" where
  "add_chunk s i = (\<lambda>(lastChunkIndex, tasks, total).
     if lastChunkIndex \<noteq> i then
       bind_res (index_slice (ChunkHashes s) i) (\<lambda>hash.
       bind_res (index_slice (ChunkLengths s) i) (\<lambda>len.
         Inr (i, tasks @ [\<lparr>dt_chunk = None, dt_chunkIndex = length tasks, dt_chunkHash = hash, dt_chunkLength = len,
                           dt_needed = False, dt_isDownloading = False\<rparr>], total + len)))
     else if tasks = [] then Inl (Panic ''index out of range'')
     else Inr (i, butlast tasks @ [(last tasks)\<lparr>dt_needed := True\<rparr>], total))"

fun add_chunks_from :: "snapshot \<Rightarrow> int list \<Rightarrow> task_list \<Rightarrow> task_list res" where
  "add_chunks_from s [] acc = Inr acc"
| "add_chunks_from s (i # is) acc = bind_res (add_chunk s i acc) (add_chunks_from s is)"

definition add_download :: "snapshot \<Rightarrow> entry \<Rightarrow> task_list \<Rightarrow> (entry \<times> task_list) res" where
  "add_download s f acc =
     (if Size f = 0 then Inr (f, acc)
      else bind_res (add_chunks_from s [StartChunk f..EndChunk f] acc) (\<lambda>acc.
        let n = int (length (fst (snd acc))) in
        Inr (f\<lparr>StartChunk := n - (EndChunk f - StartChunk f) - 1, EndChunk := n - 1\<rparr>, acc)))"

fun add_downloads :: "snapshot \<Rightarrow> entry list \<Rightarrow> task_list \<Rightarrow> (entry list \<times> task_list) res" where
  "add_downloads s [] acc = Inr ([], acc)"
| "add_downloads s (f # fs) acc =
     bind_res (add_download s f acc) (\<lambda>(f, acc).
     bind_res (add_downloads s fs acc) (\<lambda>(fs, acc). Inr (f # fs, acc)))"

text \<open>The files are returned with their ranges in the task list.\<close>

definition AddFiles :: "snapshot \<Rightarrow> entry list \<Rightarrow> ('s downloader, entry list) prog" where
  "AddFiles s files =
     bind_st (lift_res (add_downloads s files (-1, [], 0))) (\<lambda>(files, _, tasks, total).
     bind_st (modify_st (\<lambda>dl. dl\<lparr>dl_taskList := tasks, dl_totalChunkSize := total\<rparr>)) (\<lambda>_.
       return_st files))"

section \<open>Downloading\<close>

text \<open>Requesting the download of a chunk.\<close>

definition request :: "'s download_env \<Rightarrow> nat \<Rightarrow> download_task \<Rightarrow> ('s downloader, unit) prog" where
  "request de i task =
     bind_st (zoom dl_operator (\<lambda>w dl. dl\<lparr>dl_operator := w\<rparr>)
         (Download (de_operator de) (dt_chunkHash task) (int i) False)) (\<lambda>chunk.
       modify_st (\<lambda>dl. set_task i (\<lambda>t. t\<lparr>dt_isDownloading := True\<rparr>) dl
         \<lparr>dl_channel := dl_channel dl @ [(i, chunk)],
          dl_numberOfDownloadingChunks := dl_numberOfDownloadingChunks dl + 1,
          dl_numberOfActiveChunks := dl_numberOfActiveChunks dl + 1\<rparr>))"

text \<open>\<open>Reclaim\<close>: the chunks before the index are released.\<close>

definition reclaimed :: "int \<Rightarrow> 's downloader \<Rightarrow> nat \<Rightarrow> bool" where
  "reclaimed chunkIndex dl i \<longleftrightarrow> int i < chunkIndex \<and> dt_chunk (dl_taskList dl ! i) \<noteq> None"

definition release :: "int \<Rightarrow> 's downloader \<Rightarrow> 's downloader" where
  "release chunkIndex dl =
     (let gone = filter (reclaimed chunkIndex dl) (dl_completedTasks dl) in
      fold (\<lambda>i. set_task i (\<lambda>t. t\<lparr>dt_chunk := None\<rparr>)) gone
        (dl\<lparr>dl_completedTasks := filter (\<lambda>i. \<not> reclaimed chunkIndex dl i) (dl_completedTasks dl),
            dl_numberOfActiveChunks := dl_numberOfActiveChunks dl - int (length gone)\<rparr>))"

definition skip_chunk :: "int \<Rightarrow> ('s downloader, unit) prog" where
  "skip_chunk i =
     bind_st (task_at i) (\<lambda>task.
       if dt_isDownloading task then return_st ()
       else modify_st (\<lambda>dl. dl\<lparr>dl_totalChunkSize := dl_totalChunkSize dl - dt_chunkLength task\<rparr>))"

definition Reclaim :: "int \<Rightarrow> ('s downloader, unit) prog" where
  "Reclaim chunkIndex =
     bind_st (get_st dl_lastChunkIndex) (\<lambda>lastChunkIndex.
       if chunkIndex \<le> lastChunkIndex then return_st ()
       else
         bind_st (modify_st (release chunkIndex)) (\<lambda>_.
         bind_st (for_each [lastChunkIndex..chunkIndex - 1] skip_chunk) (\<lambda>_.
           modify_st (\<lambda>dl. dl\<lparr>dl_lastChunkIndex := chunkIndex\<rparr>))))"

fun prefetch_loop :: "'s download_env \<Rightarrow> int list \<Rightarrow> ('s downloader, unit) prog" where
  "prefetch_loop de [] = return_st ()"
| "prefetch_loop de (i # is) =
     bind_st (task_at i) (\<lambda>task.
       if dt_needed task \<and> \<not> dt_isDownloading task then
         bind_st (get_st dl_numberOfActiveChunks) (\<lambda>active.
           if de_threads de \<le> active then return_st ()
           else bind_st (request de (nat i) task) (\<lambda>_. prefetch_loop de is))
       else prefetch_loop de is)"

definition Prefetch :: "'s download_env \<Rightarrow> entry \<Rightarrow> ('s downloader, unit) prog" where
  "Prefetch de f =
     bind_st (Reclaim (StartChunk f)) (\<lambda>_. prefetch_loop de [StartChunk f..EndChunk f])"

definition GetLastDownloadedChunk :: "('s downloader, chunk option \<times> bytes) prog" where
  "GetLastDownloadedChunk =
     bind_st (get_st id) (\<lambda>dl.
       if int (length (dl_taskList dl)) \<le> dl_lastChunkIndex dl then return_st (None, [])
       else bind_st (task_at (dl_lastChunkIndex dl)) (\<lambda>task. return_st (dt_chunk task, dt_chunkHash task)))"

section \<open>Waiting\<close>

text \<open>The chunks after the one that is waited for.\<close>

fun look_ahead :: "'s download_env \<Rightarrow> int list \<Rightarrow> ('s downloader, unit) prog" where
  "look_ahead de [] = return_st ()"
| "look_ahead de (i # is) =
     bind_st (get_st dl_numberOfActiveChunks) (\<lambda>active.
       if de_threads de \<le> active then return_st ()
       else bind_st (task_at i) (\<lambda>task.
         if \<not> dt_needed task then return_st ()
         else bind_st (if dt_isDownloading task then return_st () else request de (dt_chunkIndex task) task) (\<lambda>_.
           look_ahead de is)))"

text \<open>Receiving from the completion channel.\<close>

definition receive :: "'s download_env \<Rightarrow> ('s downloader, nat \<times> chunk) prog" where
  "receive de =
     bind_st (get_st dl_channel) (\<lambda>channel.
       if channel = [] then raise_st (Panic ''all goroutines are asleep - deadlock!'')
       else
         let k = de_arrives de channel mod length channel in
         bind_st (modify_st (\<lambda>dl. dl\<lparr>dl_channel := take k channel @ drop (Suc k) channel,
             dl_numberOfDownloadedChunks := dl_numberOfDownloadedChunks dl + 1,
             dl_numberOfDownloadingChunks := dl_numberOfDownloadingChunks dl - 1\<rparr>)) (\<lambda>_.
           return_st (channel ! k)))"

text \<open>The loop that receives until the chunk is there. There are at most as many rounds as chunks under way.\<close>

fun wait_loop :: "'s download_env \<Rightarrow> nat \<Rightarrow> nat \<Rightarrow> ('s downloader, unit) prog" where
  "wait_loop de n chunkIndex =
     bind_st (get_st dl_completedTasks) (\<lambda>completed.
       if chunkIndex \<in> set completed then return_st ()
       else case n of
         0 \<Rightarrow> raise_st (Panic ''all goroutines are asleep - deadlock!'')
       | Suc n \<Rightarrow>
           bind_st (receive de) (\<lambda>(i, chunk).
           bind_st (modify_st (\<lambda>dl. set_task i (\<lambda>t. t\<lparr>dt_chunk := Some chunk\<rparr>) dl
               \<lparr>dl_completedTasks := List.insert i (dl_completedTasks dl)\<rparr>)) (\<lambda>_.
             wait_loop de n chunkIndex)))"

declare wait_loop.simps [simp del]

text \<open>The result is the field of the task, nil if the chunk has been released.\<close>

definition WaitForChunk :: "'s download_env \<Rightarrow> int \<Rightarrow> ('s downloader, chunk option) prog" where
  "WaitForChunk de chunkIndex =
     bind_st (Reclaim chunkIndex) (\<lambda>_.
     bind_st (task_at chunkIndex) (\<lambda>task.
     bind_st (if dt_isDownloading task then return_st () else request de (nat chunkIndex) task) (\<lambda>_.
     bind_st (get_st (\<lambda>dl. int (length (dl_taskList dl)))) (\<lambda>n.
     bind_st (look_ahead de [chunkIndex + 1..n - 1]) (\<lambda>_.
     bind_st (get_st (\<lambda>dl. length (dl_channel dl))) (\<lambda>pending.
     bind_st (wait_loop de pending (nat chunkIndex)) (\<lambda>_.
     bind_st (task_at chunkIndex) (\<lambda>task. return_st (dt_chunk task)))))))))"

text \<open>\<open>WaitForCompletion\<close>: all tasks that are left are downloaded and dropped. In every round a chunk arrives or
  the index grows.\<close>

fun complete_loop :: "'s download_env \<Rightarrow> nat \<Rightarrow> ('s downloader, unit option) prog" where
  "complete_loop de 0 = return_st None"
| "complete_loop de (Suc n) =
     bind_st (get_st id) (\<lambda>dl.
       if \<not> (0 < dl_numberOfActiveChunks dl \<or> dl_lastChunkIndex dl + 1 < int (length (dl_taskList dl)))
       then return_st (Some ())
       else
         bind_st
           (if 0 < dl_numberOfActiveChunks dl then
              bind_st (receive de) (\<lambda>_. modify_st (\<lambda>dl. dl\<lparr>dl_numberOfActiveChunks := dl_numberOfActiveChunks dl - 1\<rparr>))
            else return_st ()) (\<lambda>_.
         bind_st
           (if dl_lastChunkIndex dl + 1 < int (length (dl_taskList dl)) then
              bind_st (task_at (dl_lastChunkIndex dl + 1)) (\<lambda>task.
              bind_st (if dt_isDownloading task then return_st () else request de (dt_chunkIndex task) task) (\<lambda>_.
                modify_st (\<lambda>dl. dl\<lparr>dl_lastChunkIndex := dl_lastChunkIndex dl + 1\<rparr>)))
            else return_st ()) (\<lambda>_.
           complete_loop de n)))"

definition downloader_WaitForCompletion :: "'s download_env \<Rightarrow> nat \<Rightarrow> ('s downloader, unit option) prog" where
  "downloader_WaitForCompletion de n =
     bind_st (modify_st (\<lambda>dl. dl
         \<lparr>dl_numberOfActiveChunks := dl_numberOfActiveChunks dl - int (length (dl_completedTasks dl)),
          dl_lastChunkIndex := foldl max (dl_lastChunkIndex dl) (map int (dl_completedTasks dl))\<rparr>)) (\<lambda>_.
       complete_loop de n)"

section \<open>What the task list holds\<close>

definition task_key :: "download_task \<Rightarrow> bytes \<times> int" where
  "task_key t = (dt_chunkHash t, dt_chunkLength t)"

definition chunk_key :: "snapshot \<Rightarrow> int \<Rightarrow> bytes \<times> int" where
  "chunk_key s i = (ChunkHashes s ! nat i, ChunkLengths s ! nat i)"

definition chunk_range :: "snapshot \<Rightarrow> int \<Rightarrow> bool" where
  "chunk_range s i \<longleftrightarrow> 0 \<le> i \<and> i < int (length (ChunkHashes s)) \<and> i < int (length (ChunkLengths s))"

text \<open>A list of tasks that wait for their download, and the chunk that the last one is for.\<close>

definition fresh_tasks :: "download_task list \<Rightarrow> bool" where
  "fresh_tasks tasks \<longleftrightarrow> (\<forall>j < length tasks. dt_chunkIndex (tasks ! j) = j \<and> dt_chunk (tasks ! j) = None \<and> \<not> dt_isDownloading (tasks ! j))"

definition list_inv :: "snapshot \<Rightarrow> task_list \<Rightarrow> bool" where
  "list_inv s = (\<lambda>(i, tasks, amount). fresh_tasks tasks \<and>
     (i = -1 \<or> tasks \<noteq> [] \<and> task_key (last tasks) = chunk_key s i))"

lemma fresh_snoc: "fresh_tasks tasks \<Longrightarrow> dt_chunkIndex t = length tasks \<Longrightarrow> dt_chunk t = None \<Longrightarrow> \<not> dt_isDownloading t \<Longrightarrow> fresh_tasks (tasks @ [t])"
  by (auto simp: fresh_tasks_def nth_append less_Suc_eq)

lemma fresh_needed:
  assumes "fresh_tasks tasks" and "tasks \<noteq> []"
  shows "fresh_tasks (butlast tasks @ [(last tasks)\<lparr>dt_needed := True\<rparr>])"
proof -
  have "last tasks = tasks ! (length tasks - 1)" using assms(2) by (simp add: last_conv_nth)
  with assms show ?thesis by (auto simp: fresh_tasks_def nth_append nth_butlast)
qed

lemma add_chunk_run:
  assumes "list_inv s (l, tasks, amount)" and "chunk_range s i"
  obtains tasks' amount' where "add_chunk s i (l, tasks, amount) = Inr (i, tasks', amount')" and "list_inv s (i, tasks', amount')"
    and "map task_key tasks' = (if l = i then map task_key tasks else map task_key tasks @ [chunk_key s i])"
proof (cases "l = i")
  case True
  then have t: "tasks \<noteq> []" "task_key (last tasks) = chunk_key s i" "fresh_tasks tasks"
    using assms by (auto simp: list_inv_def chunk_range_def)
  let ?t = "butlast tasks @ [(last tasks)\<lparr>dt_needed := True\<rparr>]"
  have "map task_key ?t = map task_key (butlast tasks @ [last tasks])" by (simp add: task_key_def)
  then have "map task_key ?t = map task_key tasks" using t(1) by simp
  moreover have "list_inv s (i, ?t, amount)" using t fresh_needed [of tasks] by (simp add: list_inv_def task_key_def)
  ultimately show ?thesis using that [of ?t amount] True t(1) by (simp add: add_chunk_def)
next
  case False
  let ?t = "\<lparr>dt_chunk = None, dt_chunkIndex = length tasks, dt_chunkHash = ChunkHashes s ! nat i, dt_chunkLength = ChunkLengths s ! nat i,
    dt_needed = False, dt_isDownloading = False\<rparr>"
  have "list_inv s (i, tasks @ [?t], amount + ChunkLengths s ! nat i)"
    using assms by (auto simp: list_inv_def task_key_def chunk_key_def intro!: fresh_snoc)
  with False assms(2) show ?thesis
    by (intro that [of "tasks @ [?t]" "amount + ChunkLengths s ! nat i"]) (simp_all add: add_chunk_def chunk_range_def task_key_def chunk_key_def)
qed

lemma add_chunks_run:
  assumes "list_inv s (l, tasks, amount)" and "\<forall>i \<in> set is. chunk_range s i" and "is \<noteq> []" and "distinct is"
  obtains tasks' amount' where "add_chunks_from s is (l, tasks, amount) = Inr (last is, tasks', amount')"
    and "list_inv s (last is, tasks', amount')"
    and "map task_key tasks' = map task_key tasks @ map (chunk_key s) (if l = hd is then tl is else is)"
  using assms
proof (induction "is" arbitrary: l tasks amount thesis)
  case (Cons i js)
  from Cons.prems(2,3) obtain t1 n1 where 1: "add_chunk s i (l, tasks, amount) = Inr (i, t1, n1)" "list_inv s (i, t1, n1)"
    "map task_key t1 = (if l = i then map task_key tasks else map task_key tasks @ [chunk_key s i])"
    by (auto elim: add_chunk_run [of s l tasks amount i])
  show ?case
  proof (cases "js = []")
    case True
    then show ?thesis using Cons.prems(1) [of t1 n1] 1 by (auto split: if_splits)
  next
    case False
    with 1(2) Cons.prems(3,5) obtain t2 n2 where "add_chunks_from s js (i, t1, n1) = Inr (last js, t2, n2)"
      "list_inv s (last js, t2, n2)" "map task_key t2 = map task_key t1 @ map (chunk_key s) (if i = hd js then tl js else js)"
      by (auto elim!: Cons.IH [of i t1 n1] dest: list.set_sel(2))
    moreover have "i \<noteq> hd js" using False Cons.prems(5) by (cases js) auto
    ultimately show ?thesis using Cons.prems(1) [of t2 n2] 1 False by (auto split: if_splits)
  qed
qed simp

text \<open>Where a file is in the task list.\<close>

definition file_tasks :: "snapshot \<Rightarrow> download_task list \<Rightarrow> entry \<Rightarrow> entry \<Rightarrow> bool" where
  "file_tasks s tasks f f' \<longleftrightarrow> (\<exists>a b. f' = f\<lparr>StartChunk := a, EndChunk := b\<rparr> \<and>
     (Size f \<noteq> 0 \<longrightarrow> 0 \<le> a \<and> b < int (length tasks) \<and> b - a = EndChunk f - StartChunk f \<and>
       (\<forall>k. a \<le> k \<and> k \<le> b \<longrightarrow> task_key (tasks ! nat k) = chunk_key s (StartChunk f + (k - a)))))"

definition file_range :: "snapshot \<Rightarrow> entry \<Rightarrow> bool" where
  "file_range s f \<longleftrightarrow> (Size f \<noteq> 0 \<longrightarrow> StartChunk f \<le> EndChunk f \<and> chunk_range s (StartChunk f) \<and> chunk_range s (EndChunk f))"

lemma file_tasks_more:
  assumes "file_tasks s tasks f f'" and "map task_key tasks' = map task_key tasks @ extra"
  shows "file_tasks s tasks' f f'"
proof -
  have len: "length tasks \<le> length tasks'" using arg_cong [OF assms(2), of length] by simp
  have key: "task_key (tasks' ! j) = task_key (tasks ! j)" if "j < length tasks" for j
    using arg_cong [OF assms(2), of "\<lambda>l. l ! j"] that len by (simp add: nth_append)
  from assms(1) obtain a b where ab: "f' = f\<lparr>StartChunk := a, EndChunk := b\<rparr>"
    "Size f \<noteq> 0 \<longrightarrow> 0 \<le> a \<and> b < int (length tasks) \<and> b - a = EndChunk f - StartChunk f \<and>
       (\<forall>k. a \<le> k \<and> k \<le> b \<longrightarrow> task_key (tasks ! nat k) = chunk_key s (StartChunk f + (k - a)))"
    unfolding file_tasks_def by blast
  have "Size f \<noteq> 0 \<longrightarrow> 0 \<le> a \<and> b < int (length tasks') \<and> b - a = EndChunk f - StartChunk f \<and>
       (\<forall>k. a \<le> k \<and> k \<le> b \<longrightarrow> task_key (tasks' ! nat k) = chunk_key s (StartChunk f + (k - a)))"
    using ab(2) len key by auto
  with ab(1) show ?thesis unfolding file_tasks_def by blast
qed

lemma map_hd_tl: "xs \<noteq> [] \<Longrightarrow> map f xs = f (hd xs) # map f (tl xs)"
  by (cases xs) auto

lemma add_download_run:
  assumes "list_inv s (l, tasks, amount)" and "file_range s f"
  obtains f' l' tasks' amount' extra where "add_download s f (l, tasks, amount) = Inr (f', l', tasks', amount')"
    and "list_inv s (l', tasks', amount')" and "map task_key tasks' = map task_key tasks @ extra"
    and "file_tasks s tasks' f f'" and "Size f \<noteq> 0 \<longrightarrow> int (length tasks) - 1 \<le> StartChunk f' \<and> EndChunk f' = int (length tasks') - 1"
proof (cases "Size f = 0")
  case True
  have "file_tasks s tasks f f" using True unfolding file_tasks_def by (intro exI [of _ "StartChunk f"] exI [of _ "EndChunk f"]) simp
  with True assms(1) show ?thesis by (intro that [of f l tasks amount "[]"]) (simp_all add: add_download_def)
next
  case False
  let ?is = "[StartChunk f..EndChunk f]"
  have r: "StartChunk f \<le> EndChunk f" "\<forall>i \<in> set ?is. chunk_range s i" using assms(2) False by (auto simp: file_range_def chunk_range_def)
  then have ne: "?is \<noteq> []" "hd ?is = StartChunk f" "tl ?is = [StartChunk f + 1..EndChunk f]" "last ?is = EndChunk f"
    by (simp_all add: upto_rec1 [of "StartChunk f"]) (simp add: upto_rec2)
  obtain tasks' amount' where run: "add_chunks_from s ?is (l, tasks, amount) = Inr (last ?is, tasks', amount')"
    and inv: "list_inv s (last ?is, tasks', amount')"
    and key: "map task_key tasks' = map task_key tasks @ map (chunk_key s) (if l = hd ?is then tl ?is else ?is)"
    by (rule add_chunks_run [OF assms(1) r(2) ne(1)]) auto
  let ?d = "EndChunk f - StartChunk f" and ?n = "int (length tasks')"
  let ?f = "f\<lparr>StartChunk := ?n - ?d - 1, EndChunk := ?n - 1\<rparr>"
  obtain pre where pre: "map task_key tasks' = pre @ map (chunk_key s) ?is" "length tasks - 1 \<le> length pre"
  proof (cases "l = hd ?is")
    case True
    then have "tasks \<noteq> []" "task_key (last tasks) = chunk_key s (hd ?is)"
      using assms False by (auto simp: list_inv_def file_range_def chunk_range_def ne(2))
    then have "map task_key tasks = map task_key (butlast tasks) @ [chunk_key s (hd ?is)]"
      by (metis append_butlast_last_id list.simps(8,9) map_append)
    moreover note map_hd_tl [OF ne(1), of "chunk_key s"]
    ultimately have "map task_key tasks' = map task_key (butlast tasks) @ map (chunk_key s) ?is"
      using key True by (simp only: refl if_True append.assoc append_Cons append_Nil)
    then show ?thesis by (rule that) simp
  next
    case False
    with key have "map task_key tasks' = map task_key tasks @ map (chunk_key s) ?is" by simp
    then show ?thesis by (rule that) simp
  qed
  have len: "?n = int (length pre) + ?d + 1"
    using arg_cong [OF pre(1), of length] r(1) by simp
  have "task_key (tasks' ! nat k) = chunk_key s (StartChunk f + (k - (?n - ?d - 1)))" if k: "?n - ?d - 1 \<le> k" "k \<le> ?n - 1" for k
  proof -
    have n: "nat k < length tasks'" using k len r(1) by linarith
    then have "task_key (tasks' ! nat k) = (pre @ map (chunk_key s) ?is) ! nat k" by (metis pre(1) nth_map)
    also have "\<dots> = chunk_key s (?is ! (nat k - length pre))"
      using k len r(1) by (auto simp: nth_append)
    also have "?is ! (nat k - length pre) = StartChunk f + int (nat k - length pre)"
      using k len r(1) by (intro nth_upto) linarith
    finally show ?thesis using k len r(1) by (simp add: of_nat_diff)
  qed
  then have "file_tasks s tasks' f ?f"
    unfolding file_tasks_def using len r(1)
    by (intro exI [of _ "?n - ?d - 1"] exI [of _ "?n - 1"]) auto
  moreover have "add_download s f (l, tasks, amount) = Inr (?f, last ?is, tasks', amount')"
    using False run by (simp add: add_download_def Let_def)
  moreover have "int (length tasks) - 1 \<le> StartChunk ?f" using pre(2) len by simp
  ultimately show ?thesis using that inv key by fastforce
qed

text \<open>The ranges of consecutive files do not go backwards.\<close>

definition forward :: "entry list \<Rightarrow> bool" where
  "forward files \<longleftrightarrow> sorted_wrt (\<lambda>f g. EndChunk f \<le> StartChunk g) (filter (\<lambda>f. Size f \<noteq> 0) files)"

lemma add_downloads_run:
  assumes "list_inv s (l, tasks, amount)" and "\<forall>f \<in> set files. file_range s f"
  obtains files' l' tasks' amount' extra where "add_downloads s files (l, tasks, amount) = Inr (files', l', tasks', amount')"
    and "list_inv s (l', tasks', amount')" and "map task_key tasks' = map task_key tasks @ extra"
    and "list_all2 (file_tasks s tasks') files files'"
    and "\<forall>f \<in> set files'. Size f \<noteq> 0 \<longrightarrow> int (length tasks) - 1 \<le> StartChunk f" and "forward files'"
  using assms
proof (induction files arbitrary: l tasks amount thesis)
  case Nil
  then show ?case by (auto simp: forward_def)
next
  case (Cons f fs)
  have range: "file_range s f" using Cons.prems(3) by simp
  obtain f1 l1 t1 n1 e1 where 1: "add_download s f (l, tasks, amount) = Inr (f1, l1, t1, n1)"
    "list_inv s (l1, t1, n1)" "map task_key t1 = map task_key tasks @ e1" "file_tasks s t1 f f1"
    "Size f \<noteq> 0 \<longrightarrow> int (length tasks) - 1 \<le> StartChunk f1 \<and> EndChunk f1 = int (length t1) - 1"
    by (rule add_download_run [OF Cons.prems(2) range])
  from 1(2) Cons.prems(3) obtain fs2 l2 t2 n2 e2 where 2: "add_downloads s fs (l1, t1, n1) = Inr (fs2, l2, t2, n2)"
    "list_inv s (l2, t2, n2)" "map task_key t2 = map task_key t1 @ e2" "list_all2 (file_tasks s t2) fs fs2"
    "\<forall>f \<in> set fs2. Size f \<noteq> 0 \<longrightarrow> int (length t1) - 1 \<le> StartChunk f" "forward fs2"
    by (auto elim!: Cons.IH [of l1 t1 n1])
  have size: "Size f1 = Size f" using 1(4) by (auto simp: file_tasks_def)
  have len: "length tasks \<le> length t1" using arg_cong [OF 1(3), of length] by simp
  have "forward (f1 # fs2)"
    using 2(5,6) 1(5) size by (auto simp: forward_def)
  moreover have "\<forall>g \<in> set (f1 # fs2). Size g \<noteq> 0 \<longrightarrow> int (length tasks) - 1 \<le> StartChunk g"
    using 1(5) size 2(5) len by fastforce
  moreover have "map task_key t2 = map task_key tasks @ (e1 @ e2)" using 1(3) 2(3) by simp
  ultimately show ?case
    using Cons.prems(1) [of "f1 # fs2" l2 t2 n2 "e1 @ e2"] 1(1) 2(1,2,4) file_tasks_more [OF 1(4) 2(3)] by simp
qed

lemma AddFiles_run:
  assumes "\<forall>f \<in> set files. file_range s f"
  obtains files' tasks amount where "AddFiles s files dl = (Inr files', dl\<lparr>dl_taskList := tasks, dl_totalChunkSize := amount\<rparr>)"
    and "list_all2 (file_tasks s tasks) files files'" and "forward files'" and "fresh_tasks tasks"
proof -
  have "list_inv s (-1, [], 0)" by (simp add: list_inv_def fresh_tasks_def)
  then obtain files' l' tasks' amount' extra where "add_downloads s files (-1, [], 0) = Inr (files', l', tasks', amount')"
    "list_inv s (l', tasks', amount')" "list_all2 (file_tasks s tasks') files files'" "forward files'"
    by (rule add_downloads_run [OF _ assms])
  then show thesis
    by (intro that [of files' amount' tasks']) (auto simp: AddFiles_def bind_st_run list_inv_def lift_res_def)
qed

text \<open>C19: the task list has the chunks of every file in order at the range that the file is given, and the ranges of
  consecutive files do not go backwards: a file starts with the last chunk of the one before it or after it.\<close>

theorem AddFiles_tasks:
  assumes "\<forall>f \<in> set files. file_range s f"
  shows "case AddFiles s files dl of (Inl e, dl') \<Rightarrow> False
    | (Inr files', dl') \<Rightarrow> list_all2 (file_tasks s (dl_taskList dl')) files files' \<and> forward files' \<and> fresh_tasks (dl_taskList dl')"
  by (rule AddFiles_run [OF assms, of dl]) simp

section \<open>Waiting for a chunk\<close>

text \<open>A program that, started in a state with \<open>P\<close>, returns a value and a state with \<open>Q\<close> or fails with an
  exception and a state with \<open>F\<close>.\<close>

definition runs :: "('s \<Rightarrow> bool) \<Rightarrow> ('s, 'a) prog \<Rightarrow> ('a \<Rightarrow> 's \<Rightarrow> bool) \<Rightarrow> (exn \<Rightarrow> 's \<Rightarrow> bool) \<Rightarrow> bool" where
  "runs P m Q F \<longleftrightarrow> (\<forall>s. P s \<longrightarrow> (case m s of (Inr x, t) \<Rightarrow> Q x t | (Inl e, t) \<Rightarrow> F e t))"

lemma runsD: "runs P m Q F \<Longrightarrow> P s \<Longrightarrow> m s = (Inr x, t) \<Longrightarrow> Q x t"
  by (force simp: runs_def)

lemma runs_bind:
  assumes "runs P m R F" and "\<And>x. runs (R x) (f x) Q F"
  shows "runs P (bind_st m f) Q F"
proof -
  have "case bind_st m f s of (Inr x, t) \<Rightarrow> Q x t | (Inl e, t) \<Rightarrow> F e t" if "P s" for s
  proof -
    obtain r s1 where m: "m s = (r, s1)" by force
    have r: "case (r, s1) of (Inr x, t) \<Rightarrow> R x t | (Inl e, t) \<Rightarrow> F e t" using assms(1) that m by (metis runs_def)
    show ?thesis
    proof (cases r)
      case (Inl e)
      with r m show ?thesis by (simp add: bind_st_def)
    next
      case (Inr x)
      with r have "R x s1" by simp
      with assms(2) [of x] have "case f x s1 of (Inr x, t) \<Rightarrow> Q x t | (Inl e, t) \<Rightarrow> F e t" by (simp add: runs_def)
      with m Inr show ?thesis by (simp add: bind_st_def)
    qed
  qed
  then show ?thesis by (simp add: runs_def)
qed

lemma runs_return: "(\<And>s. P s \<Longrightarrow> Q x s) \<Longrightarrow> runs P (return_st x) Q F"
  by (simp add: runs_def return_st_def)

lemma runs_modify: "(\<And>s. P s \<Longrightarrow> Q () (f s)) \<Longrightarrow> runs P (modify_st f) Q F"
  by (simp add: runs_def modify_st_def)

lemma runs_get: "runs P (get_st f) (\<lambda>x s. P s \<and> x = f s) F"
  by (simp add: runs_def get_st_def)

lemma runs_if: "(c \<Longrightarrow> runs P m Q F) \<Longrightarrow> (\<not> c \<Longrightarrow> runs P m' Q F) \<Longrightarrow> runs P (if c then m else m') Q F"
  by simp

lemma runs_pre: "runs P m Q F \<Longrightarrow> (\<And>s. P' s \<Longrightarrow> P s) \<Longrightarrow> runs P' m Q F"
  by (simp add: runs_def)

lemma runs_post: "runs P m Q F \<Longrightarrow> (\<And>x s. Q x s \<Longrightarrow> Q' x s) \<Longrightarrow> runs P m Q' F"
  by (fastforce simp: runs_def split: prod.splits sum.splits)

lemma runs_state: "(\<And>s. P s \<Longrightarrow> runs (\<lambda>t. t = s) m Q F) \<Longrightarrow> runs P m Q F"
  by (simp add: runs_def)

lemma runs_for_each: "(\<And>x. x \<in> set xs \<Longrightarrow> runs P (f x) (\<lambda>_. P) F) \<Longrightarrow> runs P (for_each xs f) (\<lambda>_. P) F"
  by (induction xs) (auto intro: runs_return runs_bind)

text \<open>A chunk for a hash, and the exceptions of a download.\<close>

definition chunk_for :: "'s operator_env \<Rightarrow> bytes \<Rightarrow> chunk \<Rightarrow> bool" where
  "chunk_for env hash chunk \<longleftrightarrow>
     (if chunk_isBroken chunk then allowFailures env else \<exists>i. hash_id env hash i \<and> has_id env i chunk)"

definition download_exn :: "'s operator_env \<Rightarrow> exn \<Rightarrow> bool" where
  "download_exn env e \<longleftrightarrow> (\<exists>hash i w w'. Download env hash i False w = (Inl e, w'))"

lemma Download_chunk_for: "Download env hash i m w = (Inr chunk, w') \<Longrightarrow> chunk_for env hash chunk"
proof -
  assume r: "Download env hash i m w = (Inr chunk, w')"
  then obtain cid where cid: "GetChunkIDFromHash (rt_hashes (env_runtime env)) (env_config env) hash = Inr cid"
    by (cases "GetChunkIDFromHash (rt_hashes (env_runtime env)) (env_config env) hash") (auto simp: Download_def)
  let ?task = "\<lparr>operation = ChunkOperationDownload, task_chunkID = cid, task_chunkHash = hash, task_chunkIndex = i,
    task_filePath = [], task_isMetadata = m, task_chunk = None\<rparr>"
  from r cid have "DownloadChunk env ?task w = (Inr chunk, w')"
    by (auto simp: Download_def Run_def bind_st_def split: prod.splits sum.splits)
  then have "if chunk_isBroken chunk then allowFailures env else has_id env cid chunk"
    using yieldsD [OF yields_DownloadChunk] by fastforce
  with cid show ?thesis by (auto simp: chunk_for_def hash_id_def)
qed

text \<open>The state of the downloader: a chunk from \<open>m\<close> on that has been requested has arrived or is under way.\<close>

definition dl_ok :: "'s download_env \<Rightarrow> int \<Rightarrow> 's downloader \<Rightarrow> bool" where
  "dl_ok de m dl \<longleftrightarrow> (let ts = dl_taskList dl in
     (\<forall>j < length ts. dt_chunkIndex (ts ! j) = j) \<and>
     (\<forall>j \<in> set (dl_completedTasks dl). j < length ts \<and>
        (\<exists>c. dt_chunk (ts ! j) = Some c \<and> chunk_for (de_operator de) (dt_chunkHash (ts ! j)) c)) \<and>
     (\<forall>(j, c) \<in> set (dl_channel dl). j < length ts \<and> chunk_for (de_operator de) (dt_chunkHash (ts ! j)) c) \<and>
     (\<forall>j < length ts. m \<le> int j \<and> dt_isDownloading (ts ! j) \<longrightarrow> j \<in> set (dl_completedTasks dl) \<or> j \<in> fst ` set (dl_channel dl)))"

definition task_keys :: "'s downloader \<Rightarrow> (bytes \<times> int) list" where
  "task_keys dl = map task_key (dl_taskList dl)"

definition dl_inv :: "'s download_env \<Rightarrow> int \<Rightarrow> int \<Rightarrow> (bytes \<times> int) list \<Rightarrow> 's downloader \<Rightarrow> bool" where
  "dl_inv de m l K dl \<longleftrightarrow> dl_ok de m dl \<and> dl_lastChunkIndex dl = l \<and> task_keys dl = K"

lemma set_task_fields [simp]:
  "dl_operator (set_task i f dl) = dl_operator dl" "dl_completedTasks (set_task i f dl) = dl_completedTasks dl"
  "dl_channel (set_task i f dl) = dl_channel dl" "dl_lastChunkIndex (set_task i f dl) = dl_lastChunkIndex dl"
  "dl_taskList (set_task i f dl) = (dl_taskList dl)[i := f (dl_taskList dl ! i)]"
  by (simp_all add: set_task_def)

lemma length_task_keys: "length (dl_taskList dl) = length (task_keys dl)"
  by (simp add: task_keys_def)

lemma set_task_keys: "(\<And>t. task_key (f t) = task_key t) \<Longrightarrow> task_keys (set_task i f dl) = task_keys dl"
  by (cases "i < length (dl_taskList dl)") (simp_all add: task_keys_def map_update list_update_same_conv list_update_beyond)

lemma dl_ok_mono: "dl_ok de m dl \<Longrightarrow> m \<le> m' \<Longrightarrow> dl_ok de m' dl"
  by (auto simp: dl_ok_def Let_def)

text \<open>Besides, the chunks in \<open>D\<close> have been requested.\<close>

definition dl_state :: "'s download_env \<Rightarrow> int \<Rightarrow> int \<Rightarrow> (bytes \<times> int) list \<Rightarrow> nat set \<Rightarrow> 's downloader \<Rightarrow> bool" where
  "dl_state de m l K D dl \<longleftrightarrow> dl_inv de m l K dl \<and> (\<forall>j \<in> D. dt_isDownloading (dl_taskList dl ! j))"

lemma runs_task_at: "0 \<le> i \<Longrightarrow> i < int (length K) \<Longrightarrow>
   runs (dl_state de m l K D) (task_at i) (\<lambda>t dl. dl_state de m l K D dl \<and> t = dl_taskList dl ! nat i) F"
  by (auto simp: runs_def task_at_def dl_inv_def dl_state_def length_task_keys)

lemma runs_request:
  assumes "i < length K"
  shows "runs (\<lambda>dl. dl_state de m l K D dl \<and> t = dl_taskList dl ! i) (request de i t)
    (\<lambda>_. dl_state de m l K (insert i D)) (\<lambda>e _. download_exn (de_operator de) e)"
proof (rule runs_state)
  fix dl
  assume dl: "dl_state de m l K D dl \<and> t = dl_taskList dl ! i"
  obtain r w where d: "Download (de_operator de) (dt_chunkHash t) (int i) False (dl_operator dl) = (r, w)" by force
  have i: "i < length (dl_taskList dl)" using assms dl by (simp add: dl_state_def dl_inv_def length_task_keys)
  show "runs (\<lambda>x. x = dl) (request de i t) (\<lambda>_. dl_state de m l K (insert i D)) (\<lambda>e _. download_exn (de_operator de) e)"
  proof (cases r)
    case (Inl e)
    then show ?thesis using d by (auto simp: runs_def request_def zoom_def bind_st_def download_exn_def)
  next
    case (Inr c)
    with d have "chunk_for (de_operator de) (dt_chunkHash t) c" using Download_chunk_for by blast
    with dl i Inr d show ?thesis
      apply (simp add: runs_def request_def zoom_def bind_st_def modify_st_def)
      apply (auto simp: dl_state_def dl_inv_def dl_ok_def Let_def nth_list_update task_keys_def list_eq_iff_nth_eq task_key_def)
      done
  qed
qed

lemma release_list:
  "dl_taskList (fold (\<lambda>i. set_task i (\<lambda>t. t\<lparr>dt_chunk := None\<rparr>)) gone dl) =
     map (\<lambda>(j, t). if j \<in> set gone then t\<lparr>dt_chunk := None\<rparr> else t) (enumerate 0 (dl_taskList dl))"
proof (induction gone arbitrary: dl)
  case Nil
  show ?case by (simp add: list_eq_iff_nth_eq nth_enumerate_eq)
next
  case (Cons i gone)
  show ?case
    unfolding fold_simps comp_apply Cons
    by (cases "i < length (dl_taskList dl)")
      (auto simp: list_eq_iff_nth_eq nth_enumerate_eq nth_list_update list_update_beyond)
qed

lemma release_fields:
  "dl_operator (fold (\<lambda>i. set_task i f) gone dl) = dl_operator dl"
  "dl_completedTasks (fold (\<lambda>i. set_task i f) gone dl) = dl_completedTasks dl"
  "dl_channel (fold (\<lambda>i. set_task i f) gone dl) = dl_channel dl"
  "dl_lastChunkIndex (fold (\<lambda>i. set_task i f) gone dl) = dl_lastChunkIndex dl"
  by (induction gone arbitrary: dl) auto

lemma release_inv:
  assumes "dl_inv de m l K dl" and "m \<le> i"
  shows "dl_inv de i l K (release i dl)"
proof -
  let ?gone = "filter (reclaimed i dl) (dl_completedTasks dl)"
  have ts: "dl_taskList (release i dl) =
      map (\<lambda>(j, t). if j \<in> set ?gone then t\<lparr>dt_chunk := None\<rparr> else t) (enumerate 0 (dl_taskList dl))"
    by (simp add: release_def Let_def release_list)
  have nth: "dl_taskList (release i dl) ! j = (if j \<in> set ?gone then (dl_taskList dl ! j)\<lparr>dt_chunk := None\<rparr> else dl_taskList dl ! j)"
    if "j < length (dl_taskList dl)" for j
    using that by (simp add: ts nth_enumerate_eq)
  have len: "length (dl_taskList (release i dl)) = length (dl_taskList dl)" by (simp add: ts)
  have rest: "dl_completedTasks (release i dl) = filter (\<lambda>j. \<not> reclaimed i dl j) (dl_completedTasks dl)"
    "dl_channel (release i dl) = dl_channel dl" "dl_lastChunkIndex (release i dl) = dl_lastChunkIndex dl"
    by (simp_all add: release_def Let_def release_fields)
  have "task_keys (release i dl) = task_keys dl"
    by (auto simp: task_keys_def list_eq_iff_nth_eq len nth Let_def task_key_def)
  moreover have "dl_ok de i (release i dl)"
    using assms unfolding dl_inv_def dl_ok_def Let_def len rest
    by (auto simp: nth Let_def reclaimed_def split: if_splits)
  ultimately show ?thesis using assms by (simp add: dl_inv_def rest)
qed

lemma runs_Reclaim:
  assumes "l \<le> i" and "0 \<le> l" and "i \<le> int (length K)"
  shows "runs (dl_state de l l K {}) (Reclaim i) (\<lambda>_. dl_state de i i K {}) F"
proof (cases "i \<le> l")
  case True
  then have "i = l" using assms(1) by simp
  then show ?thesis by (auto simp: runs_def Reclaim_def bind_st_run get_st_def dl_state_def dl_inv_def return_st_def)
next
  case False
  have skip: "runs (dl_state de i l K {}) (skip_chunk j) (\<lambda>_. dl_state de i l K {}) F" if "j \<in> set [l..i - 1]" for j
    unfolding skip_chunk_def using that assms
    by (intro runs_bind [OF runs_task_at] runs_if runs_return runs_modify) (auto simp: dl_state_def dl_inv_def dl_ok_def task_keys_def)
  have "runs (\<lambda>dl. dl_state de l l K {} dl \<and> x = dl_lastChunkIndex dl) (if i \<le> x then return_st ()
         else bind_st (modify_st (release i)) (\<lambda>_. bind_st (for_each [x..i - 1] skip_chunk) (\<lambda>_. modify_st (\<lambda>dl. dl\<lparr>dl_lastChunkIndex := i\<rparr>))))
      (\<lambda>_. dl_state de i i K {}) F" for x
  proof (cases "x = l")
    case True
    have "runs (dl_state de l l K {}) (bind_st (modify_st (release i)) (\<lambda>_. bind_st (for_each [l..i - 1] skip_chunk) (\<lambda>_. modify_st (\<lambda>dl. dl\<lparr>dl_lastChunkIndex := i\<rparr>))))
      (\<lambda>_. dl_state de i i K {}) F"
    proof (intro runs_bind)
      show "runs (dl_state de l l K {}) (modify_st (release i)) (\<lambda>_. dl_state de i l K {}) F"
        by (rule runs_modify) (use release_inv assms(1) in \<open>auto simp: dl_state_def\<close>)
      show "runs (dl_state de i l K {}) (for_each [l..i - 1] skip_chunk) (\<lambda>_. dl_state de i l K {}) F"
        by (rule runs_for_each [OF skip])
      show "runs (dl_state de i l K {}) (modify_st (\<lambda>dl. dl\<lparr>dl_lastChunkIndex := i\<rparr>)) (\<lambda>_. dl_state de i i K {}) F"
        by (rule runs_modify) (auto simp: dl_state_def dl_inv_def dl_ok_def task_keys_def)
    qed
    with True False show ?thesis by (auto intro: runs_pre)
  next
    case False
    then show ?thesis by (auto simp: runs_def dl_state_def dl_inv_def)
  qed
  then show ?thesis unfolding Reclaim_def by (rule runs_bind [OF runs_get])
qed

text \<open>\<open>arriving i\<close>: the chunk has arrived or is under way.\<close>

definition arriving :: "nat \<Rightarrow> 's downloader \<Rightarrow> bool" where
  "arriving i dl \<longleftrightarrow> i \<in> set (dl_completedTasks dl) \<or> i \<in> fst ` set (dl_channel dl)"

lemma requested_arriving:
  "dl_state de m l K D dl \<Longrightarrow> i \<in> D \<Longrightarrow> m \<le> int i \<Longrightarrow> i < length K \<Longrightarrow> arriving i dl"
  by (auto simp: dl_state_def dl_inv_def dl_ok_def Let_def arriving_def length_task_keys)

lemma dl_state_subset: "dl_state de m l K D dl \<Longrightarrow> D' \<subseteq> D \<Longrightarrow> dl_state de m l K D' dl"
  by (auto simp: dl_state_def)

lemma task_index: "dl_state de m l K D dl \<Longrightarrow> i < length K \<Longrightarrow> dt_chunkIndex (dl_taskList dl ! i) = i"
  by (auto simp: dl_state_def dl_inv_def dl_ok_def Let_def length_task_keys)

lemma runs_request_keeps:
  assumes "i < length K"
  shows "runs (\<lambda>dl. dl_state de m l K D dl \<and> t = dl_taskList dl ! i) (request de i t) (\<lambda>_. dl_state de m l K D) (\<lambda>e _. download_exn (de_operator de) e)"
  by (rule runs_post [OF runs_request [OF assms]]) (auto elim: dl_state_subset)

lemma runs_look_ahead:
  assumes "\<forall>j \<in> set js. 0 \<le> j \<and> j < int (length K)"
  shows "runs (dl_state de m l K D) (look_ahead de js) (\<lambda>_. dl_state de m l K D) (\<lambda>e _. download_exn (de_operator de) e)"
  using assms
proof (induction js)
  case Nil
  show ?case unfolding look_ahead.simps by (rule runs_return)
next
  case (Cons j js)
  have IH: "runs (dl_state de m l K D) (look_ahead de js) (\<lambda>_. dl_state de m l K D) (\<lambda>e _. download_exn (de_operator de) e)"
    using Cons by simp
  have j: "0 \<le> j" "j < int (length K)" "nat j < length K" using Cons.prems by auto
  have req: "runs (\<lambda>dl. dl_state de m l K D dl \<and> t = dl_taskList dl ! nat j)
      (if dt_isDownloading t then return_st () else request de (dt_chunkIndex t) t) (\<lambda>_. dl_state de m l K D) (\<lambda>e _. download_exn (de_operator de) e)" for t
  proof (rule runs_if)
    show "runs (\<lambda>dl. dl_state de m l K D dl \<and> t = dl_taskList dl ! nat j) (return_st ()) (\<lambda>_. dl_state de m l K D) (\<lambda>e _. download_exn (de_operator de) e)"
      by (auto intro: runs_return)
    show "runs (\<lambda>dl. dl_state de m l K D dl \<and> t = dl_taskList dl ! nat j) (request de (dt_chunkIndex t) t) (\<lambda>_. dl_state de m l K D) (\<lambda>e _. download_exn (de_operator de) e)"
    proof (cases "dt_chunkIndex t = nat j")
      case True
      then show ?thesis
        using runs_request_keeps [OF j(3)] by simp
    next
      case False
      then have "\<not> (dl_state de m l K D dl \<and> t = dl_taskList dl ! nat j)" for dl using task_index [OF _ j(3)] by blast
      then show ?thesis unfolding runs_def by blast
    qed
  qed
  have step: "runs (\<lambda>dl. dl_state de m l K D dl \<and> t = dl_taskList dl ! nat j)
      (if \<not> dt_needed t then return_st ()
       else bind_st (if dt_isDownloading t then return_st () else request de (dt_chunkIndex t) t) (\<lambda>_. look_ahead de js))
      (\<lambda>_. dl_state de m l K D) (\<lambda>e _. download_exn (de_operator de) e)" for t
    by (rule runs_if [OF runs_return runs_bind [OF req IH]]) simp
  show ?case
    unfolding look_ahead.simps
    by (intro runs_bind [OF runs_get] runs_if runs_return runs_pre [OF runs_bind [OF runs_task_at [OF j(1,2)] step]]) auto
qed

lemma runs_prefetch:
  assumes "\<forall>j \<in> set js. 0 \<le> j \<and> j < int (length K)"
  shows "runs (dl_state de m l K D) (prefetch_loop de js) (\<lambda>_. dl_state de m l K D) (\<lambda>e _. download_exn (de_operator de) e)"
  using assms
proof (induction js)
  case Nil
  show ?case unfolding prefetch_loop.simps by (rule runs_return)
next
  case (Cons j js)
  have IH: "runs (dl_state de m l K D) (prefetch_loop de js) (\<lambda>_. dl_state de m l K D) (\<lambda>e _. download_exn (de_operator de) e)"
    using Cons by simp
  have j: "0 \<le> j" "j < int (length K)" "nat j < length K" using Cons.prems by auto
  have req: "runs (\<lambda>dl. dl_state de m l K D dl \<and> t = dl_taskList dl ! nat j) (request de (nat j) t) (\<lambda>_. dl_state de m l K D) (\<lambda>e _. download_exn (de_operator de) e)" for t
    by (rule runs_request_keeps [OF j(3)])
  show ?case
    unfolding prefetch_loop.simps
    by (intro runs_bind [OF runs_task_at [OF j(1,2)]] runs_if runs_bind [OF runs_get] runs_return runs_pre [OF runs_bind [OF req]] IH runs_pre [OF IH]) auto
qed

text \<open>Receiving a chunk and noting it.\<close>

lemma receive_arrived:
  assumes dl: "dl_state de m l K {} dl" and ch: "dl_channel dl \<noteq> []"
  obtains j c dl' where "receive de dl = (Inr (j, c), dl')"
    and "dl_state de m l K {} (set_task j (\<lambda>t. t\<lparr>dt_chunk := Some c\<rparr>) dl'\<lparr>dl_completedTasks := List.insert j (dl_completedTasks dl')\<rparr>)"
    and "\<And>i. arriving i dl \<Longrightarrow> arriving i (set_task j (\<lambda>t. t\<lparr>dt_chunk := Some c\<rparr>) dl'\<lparr>dl_completedTasks := List.insert j (dl_completedTasks dl')\<rparr>)"
    and "Suc (length (dl_channel dl')) = length (dl_channel dl)"
proof -
  let ?ch = "dl_channel dl"
  let ?k = "de_arrives de ?ch mod length ?ch"
  obtain j c where jc: "?ch ! ?k = (j, c)" by force
  have k: "?k < length ?ch" using ch by simp
  obtain rest where rest: "rest = take ?k ?ch @ drop (Suc ?k) ?ch" by simp
  have split: "?ch = take ?k ?ch @ (j, c) # drop (Suc ?k) ?ch" using id_take_nth_drop [OF k] jc by simp
  have sub: "set ?ch = insert (j, c) (set rest)" by (subst split) (auto simp: rest)
  then have sub': "fst ` set ?ch = insert j (fst ` set rest)" by simp
  let ?dl' = "dl\<lparr>dl_channel := rest, dl_numberOfDownloadedChunks := dl_numberOfDownloadedChunks dl + 1,
     dl_numberOfDownloadingChunks := dl_numberOfDownloadingChunks dl - 1\<rparr>"
  let ?new = "set_task j (\<lambda>t. t\<lparr>dt_chunk := Some c\<rparr>) ?dl'\<lparr>dl_completedTasks := List.insert j (dl_completedTasks ?dl')\<rparr>"
  have run: "receive de dl = (Inr (j, c), ?dl')" using ch jc by (simp add: rest receive_def bind_st_run Let_def get_st_def modify_st_def return_st_def)
  have j: "j < length (dl_taskList dl)" "chunk_for (de_operator de) (dt_chunkHash (dl_taskList dl ! j)) c"
    using dl sub by (auto simp: dl_state_def dl_inv_def dl_ok_def Let_def)
  have "dl_ok de m ?new"
    using dl j(1) sub unfolding dl_state_def dl_inv_def dl_ok_def Let_def sub'
    by (auto simp: nth_list_update j(2))
  moreover have "task_keys ?new = task_keys dl"
    using j(1) by (auto simp: task_keys_def list_eq_iff_nth_eq nth_list_update task_key_def)
  ultimately have "dl_state de m l K {} ?new" using dl by (simp add: dl_state_def dl_inv_def)
  moreover have "arriving i ?new" if "arriving i dl" for i
    using that sub' by (auto simp: arriving_def)
  moreover have "Suc (length rest) = length ?ch" using k by (simp add: rest)
  ultimately show ?thesis using that [OF run] by simp
qed

lemma runs_wait_loop:
  shows "runs (\<lambda>dl. dl_state de m l K {} dl \<and> arriving i dl \<and> length (dl_channel dl) \<le> n) (wait_loop de n i)
    (\<lambda>_ dl. dl_state de m l K {} dl \<and> i \<in> set (dl_completedTasks dl)) F"
proof (rule runs_state)
  fix dl
  show "dl_state de m l K {} dl \<and> arriving i dl \<and> length (dl_channel dl) \<le> n \<Longrightarrow>
    runs (\<lambda>t. t = dl) (wait_loop de n i) (\<lambda>_ dl. dl_state de m l K {} dl \<and> i \<in> set (dl_completedTasks dl)) F"
  proof (induction n arbitrary: dl)
    case 0
    then show ?case by (subst wait_loop.simps) (auto simp: runs_def bind_st_run get_st_def arriving_def return_st_def)
  next
    case (Suc n)
    show ?case
    proof (cases "i \<in> set (dl_completedTasks dl)")
      case True
      with Suc.prems show ?thesis by (subst wait_loop.simps) (simp add: runs_def bind_st_run get_st_def return_st_def)
    next
      case False
      with Suc.prems have ch: "dl_channel dl \<noteq> []" by (auto simp: arriving_def)
      have state: "dl_state de m l K {} dl" "arriving i dl" using Suc.prems by simp_all
      obtain j c dl' where r: "receive de dl = (Inr (j, c), dl')"
        and new: "dl_state de m l K {} (set_task j (\<lambda>t. t\<lparr>dt_chunk := Some c\<rparr>) dl'\<lparr>dl_completedTasks := List.insert j (dl_completedTasks dl')\<rparr>)"
          "arriving i (set_task j (\<lambda>t. t\<lparr>dt_chunk := Some c\<rparr>) dl'\<lparr>dl_completedTasks := List.insert j (dl_completedTasks dl')\<rparr>)"
          "Suc (length (dl_channel dl')) = length (dl_channel dl)"
        by (rule receive_arrived [OF state(1) ch]) (use state(2) in blast)
      let ?new = "set_task j (\<lambda>t. t\<lparr>dt_chunk := Some c\<rparr>) dl'\<lparr>dl_completedTasks := List.insert j (dl_completedTasks dl')\<rparr>"
      have "wait_loop de (Suc n) i dl = wait_loop de n i ?new"
        using False r by (subst wait_loop.simps) (simp add: bind_st_run get_st_def modify_st_def)
      moreover have "runs (\<lambda>t. t = ?new) (wait_loop de n i) (\<lambda>_ dl. dl_state de m l K {} dl \<and> i \<in> set (dl_completedTasks dl)) F"
        using new Suc.prems by (intro Suc.IH) simp
      ultimately show ?thesis by (simp add: runs_def)
    qed
  qed
qed

lemma runs_WaitForChunk:
  assumes "0 \<le> l" and "l \<le> i" and "i < int (length K)"
  shows "runs (dl_state de l l K {}) (WaitForChunk de i)
    (\<lambda>x dl. dl_state de i i K {} dl \<and> (\<exists>c. x = Some c \<and> chunk_for (de_operator de) (fst (K ! nat i)) c))
    (\<lambda>e _. download_exn (de_operator de) e)"
proof -
  have i: "0 \<le> i" "nat i < length K" "i \<le> int (nat i)" "i \<le> int (length K)" using assms by auto
  have fetch: "runs (\<lambda>dl. dl_state de i i K {} dl \<and> t = dl_taskList dl ! nat i)
      (if dt_isDownloading t then return_st () else request de (nat i) t) (\<lambda>_. dl_state de i i K {nat i}) (\<lambda>e _. download_exn (de_operator de) e)" for t
    by (intro runs_if runs_return runs_request [OF i(2)]) (auto simp: dl_state_def)
  have ahead: "runs (\<lambda>dl. dl_state de i i K {nat i} dl \<and> n = int (length (dl_taskList dl))) (look_ahead de [i + 1..n - 1])
      (\<lambda>_. dl_state de i i K {nat i}) (\<lambda>e _. download_exn (de_operator de) e)" for n
  proof (cases "n = int (length K)")
    case True
    then show ?thesis using i(1) by (intro runs_pre [OF runs_look_ahead]) auto
  next
    case False
    then show ?thesis by (auto simp: runs_def dl_state_def dl_inv_def length_task_keys)
  qed
  have wait: "runs (\<lambda>dl. dl_state de i i K {nat i} dl \<and> p = length (dl_channel dl)) (wait_loop de p (nat i))
      (\<lambda>_ dl. dl_state de i i K {} dl \<and> nat i \<in> set (dl_completedTasks dl)) (\<lambda>e _. download_exn (de_operator de) e)" for p
    by (rule runs_pre [OF runs_wait_loop]) (use i requested_arriving [of de i i K "{nat i}" _ "nat i"] dl_state_subset [of de i i K "{nat i}" _ "{}"] in auto)
  have found: "runs (\<lambda>dl. dl_state de i i K {} dl \<and> nat i \<in> set (dl_completedTasks dl)) (bind_st (task_at i) (\<lambda>t. return_st (dt_chunk t)))
    (\<lambda>x dl. dl_state de i i K {} dl \<and> (\<exists>c. x = Some c \<and> chunk_for (de_operator de) (fst (K ! nat i)) c)) (\<lambda>e _. download_exn (de_operator de) e)"
  proof (rule runs_state)
    fix dl
    assume dl: "dl_state de i i K {} dl \<and> nat i \<in> set (dl_completedTasks dl)"
    then have n: "nat i < length (dl_taskList dl)" using i(2) by (simp add: dl_state_def dl_inv_def length_task_keys)
    with dl have "fst (K ! nat i) = dt_chunkHash (dl_taskList dl ! nat i)"
      by (auto simp: dl_state_def dl_inv_def task_keys_def task_key_def)
    moreover have "\<exists>c. dt_chunk (dl_taskList dl ! nat i) = Some c \<and> chunk_for (de_operator de) (dt_chunkHash (dl_taskList dl ! nat i)) c"
      using dl by (auto simp: dl_state_def dl_inv_def dl_ok_def Let_def)
    moreover have "bind_st (task_at i) (\<lambda>t. return_st (dt_chunk t)) dl = (Inr (dt_chunk (dl_taskList dl ! nat i)), dl)"
      using n i(1) by (simp add: bind_st_def task_at_def return_st_def)
    ultimately show "runs (\<lambda>t. t = dl) (bind_st (task_at i) (\<lambda>t. return_st (dt_chunk t)))
      (\<lambda>x dl. dl_state de i i K {} dl \<and> (\<exists>c. x = Some c \<and> chunk_for (de_operator de) (fst (K ! nat i)) c)) (\<lambda>e _. download_exn (de_operator de) e)"
      using dl by (simp add: runs_def)
  qed
  show ?thesis
    unfolding WaitForChunk_def
    by (intro runs_bind [OF runs_Reclaim [OF assms(2,1) i(4)]] runs_bind [OF runs_task_at [OF i(1) assms(3)]] runs_bind [OF fetch]
        runs_bind [OF runs_get] runs_bind [OF ahead] runs_bind [OF wait] found)
qed

lemma runs_Prefetch:
  assumes "0 \<le> l" and "l \<le> StartChunk f" and "StartChunk f \<le> EndChunk f" and "EndChunk f < int (length K)"
  shows "runs (dl_state de l l K {}) (Prefetch de f) (\<lambda>_. dl_state de (StartChunk f) (StartChunk f) K {}) (\<lambda>e _. download_exn (de_operator de) e)"
  unfolding Prefetch_def
  by (intro runs_bind [OF runs_Reclaim] runs_prefetch) (use assms in auto)

text \<open>C18: waiting for a chunk ends, in whatever order the downloads complete and however many threads there are:
  the only exceptions are those of a download, in particular there is no deadlock and no chunk is missing. The chunk
  delivered is the one that was asked for, or is marked as broken if failures are allowed.\<close>

theorem WaitForChunk_delivers:
  assumes "dl_ok de (dl_lastChunkIndex dl) dl" and "0 \<le> dl_lastChunkIndex dl" and "dl_lastChunkIndex dl \<le> i"
    and "i < int (length (dl_taskList dl))"
  shows "case WaitForChunk de i dl of
      (Inl e, dl') \<Rightarrow> \<exists>hash k w w'. Download (de_operator de) hash k False w = (Inl e, w')
    | (Inr x, dl') \<Rightarrow> (\<exists>c. x = Some c \<and> chunk_for (de_operator de) (dt_chunkHash (dl_taskList dl ! nat i)) c) \<and>
        dl_ok de (dl_lastChunkIndex dl') dl' \<and> dl_lastChunkIndex dl' = i \<and> task_keys dl' = task_keys dl"
proof -
  have "dl_state de (dl_lastChunkIndex dl) (dl_lastChunkIndex dl) (task_keys dl) {} dl"
    using assms(1) by (simp add: dl_state_def dl_inv_def)
  moreover have "fst (task_keys dl ! nat i) = dt_chunkHash (dl_taskList dl ! nat i)"
    using assms(2-4) by (simp add: task_keys_def task_key_def)
  moreover obtain r dl' where r: "WaitForChunk de i dl = (r, dl')" by force
  moreover have "i < int (length (task_keys dl))" using assms(4) by (simp add: length_task_keys)
  ultimately have "case (r, dl') of (Inl e, dl') \<Rightarrow> download_exn (de_operator de) e
    | (Inr x, dl') \<Rightarrow> dl_state de i i (task_keys dl) {} dl' \<and> (\<exists>c. x = Some c \<and> chunk_for (de_operator de) (dt_chunkHash (dl_taskList dl ! nat i)) c)"
    using runs_WaitForChunk [OF assms(2,3), of "task_keys dl" de] unfolding runs_def
    by (cases r) (force+)
  then show ?thesis by (cases r) (auto simp: r dl_state_def dl_inv_def download_exn_def)
qed

section \<open>An example\<close>

text \<open>Three files of which the first two share a chunk, and an empty one.\<close>

definition sample_files :: "entry list" where
  "sample_files = [(CreateEntry ''a'' 3 50 0x1A4)\<lparr>StartChunk := 0, EndChunk := 1, EndOffset := 1\<rparr>,
     (CreateEntry ''b'' 1 50 0x1A4)\<lparr>StartChunk := 1, StartOffset := 1, EndChunk := 1, EndOffset := 2\<rparr>,
     CreateEntry ''c'' 0 50 0x1A4,
     (CreateEntry ''d'' 2 50 0x1A4)\<lparr>StartChunk := 0, EndChunk := 0, EndOffset := 2\<rparr>]"

definition sample_source :: snapshot where
  "sample_source = (CreateEmptySnapshot ''home'' 1700000000 ''dupluxy'' ''linux'' ''host'')
     \<lparr>ChunkHashes := [sample_hash, sample_hash], ChunkLengths := [2, 2]\<rparr>"

definition sample_download_env :: "file_storage download_env" where
  "sample_download_env = \<lparr>de_operator = sample_env, de_threads = 2, de_arrives = (\<lambda>ch. length ch - 1)\<rparr>"

definition sample_downloader :: "file_storage downloader" where
  "sample_downloader = snd (AddFiles sample_source sample_files (CreateChunkDownloader uploaded_state))"

lemma sample_file_range: "\<forall>f \<in> set sample_files. file_range sample_source f"
  by (simp add: sample_files_def sample_source_def file_range_def chunk_range_def CreateEntry_def)

lemma AddFiles_tasks_witness:
  "\<exists>files'. AddFiles sample_source sample_files (CreateChunkDownloader uploaded_state) = (Inr files', sample_downloader) \<and>
     map (\<lambda>f. (StartChunk f, EndChunk f)) files' = [(0, 1), (1, 1), (0, 0), (2, 2)] \<and>
     list_all2 (file_tasks sample_source (dl_taskList sample_downloader)) sample_files files' \<and> forward files'"
proof -
  have "case fst (AddFiles sample_source sample_files (CreateChunkDownloader uploaded_state)) of
      Inr fs \<Rightarrow> map (\<lambda>f. (StartChunk f, EndChunk f)) fs = [(0, 1), (1, 1), (0, 0), (2, 2)] | Inl e \<Rightarrow> False"
    by code_simp
  moreover obtain r where r: "AddFiles sample_source sample_files (CreateChunkDownloader uploaded_state) = (r, sample_downloader)"
    by (metis prod.collapse sample_downloader_def)
  moreover note AddFiles_tasks [OF sample_file_range, of "CreateChunkDownloader uploaded_state"]
  ultimately show ?thesis by (cases r) auto
qed

lemma sample_downloader_ok: "dl_ok sample_download_env (dl_lastChunkIndex sample_downloader) sample_downloader"
  "dl_lastChunkIndex sample_downloader = 0" "map dt_chunkHash (dl_taskList sample_downloader) = [sample_hash, sample_hash, sample_hash]"
proof -
  show last: "dl_lastChunkIndex sample_downloader = 0" by code_simp
  show "map dt_chunkHash (dl_taskList sample_downloader) = [sample_hash, sample_hash, sample_hash]" by code_simp
  have "dl_completedTasks sample_downloader = []" "dl_channel sample_downloader = []" by code_simp+
  moreover have "fresh_tasks (dl_taskList sample_downloader)"
    by (rule AddFiles_run [OF sample_file_range, of "CreateChunkDownloader uploaded_state"]) (simp add: sample_downloader_def)
  ultimately show "dl_ok sample_download_env (dl_lastChunkIndex sample_downloader) sample_downloader"
    by (simp add: dl_ok_def fresh_tasks_def Let_def)
qed

lemma WaitForChunk_delivers_witness:
  "case fst (WaitForChunk sample_download_env 0 sample_downloader) of
      Inr (Some c) \<Rightarrow> chunk_for sample_env sample_hash c \<and> chunk_buffer c = Some sample_content | _ \<Rightarrow> False"
proof -
  have len: "length (dl_taskList sample_downloader) = 3" using arg_cong [OF sample_downloader_ok(3), of length] by simp
  have hash: "dt_chunkHash (dl_taskList sample_downloader ! 0) = sample_hash"
    using arg_cong [OF sample_downloader_ok(3), of "\<lambda>l. l ! 0"] len by simp
  have "case fst (WaitForChunk sample_download_env 0 sample_downloader) of
      Inr (Some c) \<Rightarrow> chunk_buffer c = Some sample_content | _ \<Rightarrow> False" by code_simp
  moreover have "case WaitForChunk sample_download_env 0 sample_downloader of (Inl e, dl') \<Rightarrow> True
      | (Inr x, dl') \<Rightarrow> \<exists>c. x = Some c \<and> chunk_for sample_env sample_hash c"
    using WaitForChunk_delivers [OF sample_downloader_ok(1), of 0] len hash
    by (auto simp: sample_downloader_ok(2) sample_download_env_def split: prod.splits sum.splits)
  ultimately show ?thesis by (auto split: prod.splits sum.splits option.splits)
qed

end
