(* ===== verification/RestoreFile.thy ===== *)
theory RestoreFile
  imports Downloader ChunkMaker Attributes Filters
begin

text \<open>
  Restoring the content of a file: \<open>BackupManager.RestoreFile\<close> (\<open>duplicacy_backupmanager.go\<close>).

  The local files are reached by the calls of a record \<open>local_calls\<close>, on a state of type \<open>'w\<close>; what the calls
  do to the contents of files is stated by the locale \<open>local_files\<close>, which is interpreted on the directory tree
  of theory FileSystem. An open file is known by its path; the function holds at most one handle to a path.
\<close>

section \<open>Local files\<close>

record 'w local_calls =
  lc_Open :: "string \<Rightarrow> 'w \<Rightarrow> errno option"
  lc_OpenRDWR :: "string \<Rightarrow> 'w \<Rightarrow> errno option"
  lc_Create :: "string \<Rightarrow> 'w \<Rightarrow> errno option \<times> 'w"
  lc_ReadAt :: "string \<Rightarrow> int \<Rightarrow> int \<Rightarrow> 'w \<Rightarrow> goerror + bytes"
  lc_reader :: "string \<Rightarrow> 'w \<Rightarrow> reader"
  lc_WriteAt :: "string \<Rightarrow> int \<Rightarrow> bytes \<Rightarrow> 'w \<Rightarrow> errno option \<times> 'w"
  lc_Truncate :: "string \<Rightarrow> int \<Rightarrow> 'w \<Rightarrow> errno option \<times> 'w"
  lc_Remove :: "string \<Rightarrow> 'w \<Rightarrow> errno option \<times> 'w"
  lc_Rename :: "string \<Rightarrow> string \<Rightarrow> 'w \<Rightarrow> errno option \<times> 'w"
  lc_file :: "string \<Rightarrow> 'w file_calls"

record ('w, 's) restore_env =
  re_download :: "'s download_env"
  re_calls :: "'w local_calls"
  re_skipFileHash :: bool
  re_preferencePath :: string
  re_top :: string

record ('w, 's) restore_state =
  rs_local :: 'w
  rs_downloader :: "'s downloader"
  rs_maker :: maker

text \<open>The arguments of \<open>RestoreFile\<close> that do not change from file to file.\<close>

record file_options =
  fo_inPlace :: bool
  fo_overwrite :: bool
  fo_allowFailures :: bool
  fo_fileFlagsMask :: "32 word"

definition re_config :: "('w, 's) restore_env \<Rightarrow> config" where
  "re_config re = env_config (de_operator (re_download re))"

definition re_hashes :: "('w, 's) restore_env \<Rightarrow> hashes" where
  "re_hashes re = rt_hashes (env_runtime (de_operator (re_download re)))"

definition re_fileHash :: "('w, 's) restore_env \<Rightarrow> bytes \<Rightarrow> bytes" where
  "re_fileHash re = NewFileHasher (re_hashes re) (re_skipFileHash re) (re_config re)"

definition full_path :: "('w, 's) restore_env \<Rightarrow> entry \<Rightarrow> string" where
  "full_path re e = joinPath (re_top re) (Path e)"

definition temporary_path :: "('w, 's) restore_env \<Rightarrow> string" where
  "temporary_path re = joinPath (re_preferencePath re) ''temporary''"

definition on_local :: "('w, 'a) prog \<Rightarrow> (('w, 's) restore_state, 'a) prog" where
  "on_local = zoom rs_local (\<lambda>w rs. rs\<lparr>rs_local := w\<rparr>)"

definition on_downloader :: "('s downloader, 'a) prog \<Rightarrow> (('w, 's) restore_state, 'a) prog" where
  "on_downloader = zoom rs_downloader (\<lambda>dl rs. rs\<lparr>rs_downloader := dl\<rparr>)"

text \<open>A call that returns an error number.\<close>

definition local_call :: "('w \<Rightarrow> errno option \<times> 'w) \<Rightarrow> (('w, 's) restore_state, errno option) prog" where
  "local_call f = on_local (\<lambda>w. case f w of (err, w) \<Rightarrow> (Inr err, w))"

definition or_raise :: "string \<Rightarrow> (('w, 's) restore_state, errno option) prog \<Rightarrow> (('w, 's) restore_state, unit) prog" where
  "or_raise logID m = bind_st m (\<lambda>err. if err = None then return_st () else raise_st (LogError logID))"

text \<open>\<open>LOG_WERROR\<close>: a warning if failures are allowed.\<close>

definition LOG_WERROR :: "bool \<Rightarrow> string \<Rightarrow> ('s, unit) prog" where
  "LOG_WERROR isWarning logID = (if isWarning then return_st () else raise_st (LogError logID))"

text \<open>\<open>defer\<close>: the cleanup runs after returns and exceptions alike.\<close>

definition defer_st :: "('s, unit) prog \<Rightarrow> ('s, 'a) prog \<Rightarrow> ('s, 'a) prog" where
  "defer_st cleanup m s = (case m s of (r, t) \<Rightarrow> (r, snd (cleanup t)))"

section \<open>The existing file\<close>

text \<open>\<open>existingChunks\<close> with \<open>existingLengths\<close>, \<open>offsetMap\<close>, \<open>lengthMap\<close> and \<open>offset\<close>.\<close>

record existing =
  ex_chunks :: "(bytes \<times> int) list"
  ex_offsets :: "(bytes \<times> int) list"
  ex_lengths :: "(bytes \<times> int) list"
  ex_offset :: int

definition no_existing :: existing where
  "no_existing = \<lparr>ex_chunks = [], ex_offsets = [], ex_lengths = [], ex_offset = 0\<rparr>"

definition note_chunk :: "bytes \<Rightarrow> int \<Rightarrow> existing \<Rightarrow> existing" where
  "note_chunk hash sz ex =
     ex\<lparr>ex_chunks := ex_chunks ex @ [(hash, sz)], ex_offsets := AList.update hash (ex_offset ex) (ex_offsets ex),
        ex_lengths := AList.update hash sz (ex_lengths ex), ex_offset := ex_offset ex + sz\<rparr>"

text \<open>Setting the flags that must be there before the file is written; an error is only logged.\<close>

definition early_flags :: "('w, 's) restore_env \<Rightarrow> file_options \<Rightarrow> string \<Rightarrow> entry \<Rightarrow> (('w, 's) restore_state, unit) prog" where
  "early_flags re fo path e =
     bind_st (on_local (restoreEarlyFileFlags (lc_file (re_calls re) path) e (fo_fileFlagsMask fo))) (\<lambda>_. return_st ())"

text \<open>An empty sparse file of the right size, for a large file that is new.\<close>

definition create_sparse :: "('w, 's) restore_env \<Rightarrow> file_options \<Rightarrow> entry \<Rightarrow> (('w, 's) restore_state, unit) prog" where
  "create_sparse re fo e =
     (let path = full_path re e; n = (if Size e mod 2 ^ 32 = 0 \<and> 0 < Size e div 2 ^ 32 then 2 else 1) in
      bind_st (or_raise ''DOWNLOAD_CREATE'' (local_call (lc_Create (re_calls re) path))) (\<lambda>_.
      bind_st (early_flags re fo path e) (\<lambda>_.
      bind_st (or_raise ''DOWNLOAD_CREATE'' (local_call (lc_WriteAt (re_calls re) path (Size e - n) (replicate (nat n) 0)))) (\<lambda>_.
        or_raise ''DOWNLOAD_OPEN'' (on_local (get_st (lc_Open (re_calls re) path)))))))"

text \<open>Whether there is an existing file and whether it has just been created.\<close>

definition open_existing :: "('w, 's) restore_env \<Rightarrow> file_options \<Rightarrow> entry \<Rightarrow> (('w, 's) restore_state, bool \<times> bool) prog" where
  "open_existing re fo e =
     bind_st (on_local (get_st (lc_Open (re_calls re) (full_path re e)))) (\<lambda>err.
       case err of
         None \<Rightarrow> return_st (True, False)
       | Some err \<Rightarrow>
           if err = ENOENT \<and> fo_inPlace fo \<and> 100 * 1024 * 1024 < Size e
           then bind_st (create_sparse re fo e) (\<lambda>_. return_st (True, True))
           else return_st (False, False))"

section \<open>Splitting the existing file at the offsets of the backup\<close>

record split_state =
  sp_existing :: existing
  sp_knownHashes :: "(int \<times> bytes) list"
  sp_isSkipped :: bool
  sp_position :: int
  sp_read :: bytes

definition start_split :: split_state where
  "start_split = \<lparr>sp_existing = no_existing, sp_knownHashes = [], sp_isSkipped = False, sp_position = 0, sp_read = []\<rparr>"

definition split_size :: "entry \<Rightarrow> int \<Rightarrow> ('s downloader, int) prog" where
  "split_size e i =
     (if i = StartChunk e then bind_st (task_at i) (\<lambda>t. return_st (dt_chunkLength t - StartOffset e))
      else if i = EndChunk e then return_st (EndOffset e)
      else if StartChunk e < i \<and> i < EndChunk e then bind_st (task_at i) (\<lambda>t. return_st (dt_chunkLength t))
      else return_st 1)"

text \<open>The inner loop reads until the size is reached or the file ends; nothing is read for a size of 0 or less.\<close>

definition read_part :: "('w, 's) restore_env \<Rightarrow> string \<Rightarrow> int \<Rightarrow> int \<Rightarrow> (('w, 's) restore_state, bytes) prog" where
  "read_part re path position sz =
     (if sz \<le> 0 then return_st []
      else bind_st (on_local (get_st (lc_ReadAt (re_calls re) path position sz))) (\<lambda>r.
        case r of Inl err \<Rightarrow> raise_st (LogError ''DOWNLOAD_SPLIT'') | Inr bs \<Rightarrow> return_st bs))"

definition note_part :: "bool \<Rightarrow> (bytes \<Rightarrow> bytes) \<Rightarrow> int \<Rightarrow> int \<Rightarrow> split_state \<Rightarrow> bytes \<Rightarrow> split_state" where
  "note_part isNewFile hasher position chunkSize sp bs =
     sp\<lparr>sp_isSkipped := False, sp_position := position + int (length bs), sp_read := sp_read sp @ bs,
        sp_existing := (if bs = [] then sp_existing sp else note_chunk (hasher bs) chunkSize (sp_existing sp)),
        sp_knownHashes := (if bs \<noteq> [] \<and> isNewFile
          then AList.update chunkSize (hasher bs) (sp_knownHashes sp) else sp_knownHashes sp)\<rparr>"

definition split_step ::
  "('w, 's) restore_env \<Rightarrow> bool \<Rightarrow> entry \<Rightarrow> int \<Rightarrow> split_state \<Rightarrow> (('w, 's) restore_state, split_state) prog" where
  "split_step re isNewFile e i sp =
     bind_st (lift_res (NewKeyedHasher (re_hashes re) (re_config re) (HashKey (re_config re)))) (\<lambda>hasher.
     bind_st (on_downloader (split_size e i)) (\<lambda>chunkSize.
       case (if isNewFile then map_of (sp_knownHashes sp) chunkSize else None) of
         Some hash \<Rightarrow> return_st (sp\<lparr>sp_existing := note_chunk hash chunkSize (sp_existing sp), sp_isSkipped := True\<rparr>)
       | None \<Rightarrow>
           if sp_isSkipped sp \<and> ex_offset (sp_existing sp) < 0 then raise_st (LogError ''DOWNLOAD_SEEK'')
           else
             let position = (if sp_isSkipped sp then ex_offset (sp_existing sp) else sp_position sp) in
             bind_st (read_part re (full_path re e) position chunkSize) (\<lambda>bs.
               return_st (note_part isNewFile hasher position chunkSize sp bs))))"

text \<open>The result is that of \<open>RestoreFile\<close> if it ends here: whether the file was restored, and the error.\<close>

type_synonym restored = "bool \<times> goerror option"

definition split_in_place ::
  "('w, 's) restore_env \<Rightarrow> file_options \<Rightarrow> bool \<Rightarrow> entry \<Rightarrow> (('w, 's) restore_state, restored + existing) prog" where
  "split_in_place re fo isNewFile e =
     bind_st (fold_st (split_step re isNewFile e) [StartChunk e..EndChunk e + 1] start_split) (\<lambda>sp.
       let fileHash = hex_encode (re_fileHash re (sp_read sp)) in
       if fileHash = Hash e \<and> fileHash \<noteq> [] then return_st (Inl (False, None))
       else if \<not> fo_overwrite fo \<and> \<not> isNewFile then
         bind_st (LOG_WERROR (fo_allowFailures fo) ''DOWNLOAD_OVERWRITE'') (\<lambda>_.
           return_st (Inl (False, Some (GoErr ''file exists''))))
       else return_st (Inr (sp_existing sp)))"

section \<open>Splitting the existing file by content\<close>

definition make_chunks :: "('w, 's) restore_env \<Rightarrow> reader option \<Rightarrow> (('w, 's) restore_state, chunk list) prog" where
  "make_chunks re rd =
     bind_st (get_st rs_maker) (\<lambda>mk.
       case AddData (re_config re) (re_fileHash re) mk rd of
         None \<Rightarrow> raise_st (Panic ''unreachable'')
       | Some r \<Rightarrow>
           bind_st (lift_res r) (\<lambda>(_, mk, chunks).
           bind_st (modify_st (\<lambda>rs. rs\<lparr>rs_maker := mk\<rparr>)) (\<lambda>_. return_st chunks)))"

definition note_made_chunk :: "('w, 's) restore_env \<Rightarrow> chunk \<Rightarrow> existing \<Rightarrow> (('w, 's) restore_state, existing) prog" where
  "note_made_chunk re chunk ex =
     bind_st (lift_res (GetHash (re_hashes re) (re_config re) chunk)) (\<lambda>(hash, chunk).
       return_st (note_chunk hash (int (GetLength chunk)) ex))"

definition split_by_content :: "('w, 's) restore_env \<Rightarrow> entry \<Rightarrow> (('w, 's) restore_state, existing) prog" where
  "split_by_content re e =
     bind_st (on_local (get_st (lc_reader (re_calls re) (full_path re e)))) (\<lambda>rd.
     bind_st (make_chunks re (Some rd)) (\<lambda>chunks.
     bind_st (make_chunks re None) (\<lambda>more_chunks.
       fold_st (note_made_chunk re) (chunks @ more_chunks) no_existing)))"

text \<open>The chunks that the existing file does not have are needed.\<close>

definition mark_needed :: "existing \<Rightarrow> int \<Rightarrow> ('s downloader, unit) prog" where
  "mark_needed ex i =
     bind_st (task_at i) (\<lambda>t.
       if map_of (ex_offsets ex) (dt_chunkHash t) = None
       then modify_st (set_task (nat i) (\<lambda>t. t\<lparr>dt_needed := True\<rparr>)) else return_st ())"

section \<open>Writing the file\<close>

definition chunk_id_of :: "('w, 's) restore_env \<Rightarrow> bytes \<Rightarrow> (('w, 's) restore_state, string) prog" where
  "chunk_id_of re hash = lift_res (GetChunkIDFromHash (re_hashes re) (re_config re) hash)"

text \<open>\<open>b[start:end]\<close>; an end beyond the length is taken as a panic.\<close>

definition part :: "bytes \<Rightarrow> int \<Rightarrow> int \<Rightarrow> bytes res" where
  "part b start stop =
     (if 0 \<le> start \<and> start \<le> stop \<and> stop \<le> int (length b) then Inr (take (nat (stop - start)) (drop (nat start) b))
      else Inl (Panic ''slice bounds out of range''))"

text \<open>The part of a chunk that has been waited for, or the error for a broken one. \<open>None\<close> as \<open>stop\<close> is the length
  of the chunk.\<close>

definition fetch_part ::
  "('w, 's) restore_env \<Rightarrow> int \<Rightarrow> bytes \<Rightarrow> int \<Rightarrow> int option \<Rightarrow> (('w, 's) restore_state, goerror + bytes) prog" where
  "fetch_part re i hash start stop =
     bind_st (on_downloader (WaitForChunk (re_download re) i)) (\<lambda>r.
       case r of
         None \<Rightarrow> raise_st (Panic ''nil pointer dereference'')
       | Some chunk \<Rightarrow>
           if chunk_isBroken chunk then
             bind_st (chunk_id_of re hash) (\<lambda>chunkID. return_st (Inl (GoErr (''chunk '' @ chunkID @ '' is corrupted''))))
           else bind_st (lift_res (bind_res (GetBytes chunk) (\<lambda>b. part b start (case stop of None \<Rightarrow> int (length b) | Some n \<Rightarrow> n))))
             (\<lambda>bs. return_st (Inr bs)))"

text \<open>The comparison of the hash at the end.\<close>

definition check_hash :: "('w, 's) restore_env \<Rightarrow> file_options \<Rightarrow> entry \<Rightarrow> bytes \<Rightarrow> (('w, 's) restore_state, goerror option) prog" where
  "check_hash re fo e bs =
     (let hash = hex_encode (re_fileHash re bs) in
      if hash \<noteq> Hash e \<and> hash \<noteq> [] \<and> Hash e \<noteq> [] \<and> \<not> HasPrefix (Hash e) ''#'' then
        bind_st (LOG_WERROR (fo_allowFailures fo) ''DOWNLOAD_HASH'') (\<lambda>_.
          return_st (Some (GoErr ''file corrupt (hash mismatch)'')))
      else return_st None)"

text \<open>The loop of the existing chunks that ends at the offset of the next chunk.\<close>

fun advance :: "int \<Rightarrow> (bytes \<times> int) list \<Rightarrow> int \<Rightarrow> int \<times> (bytes \<times> int) list" where
  "advance offset [] existingOffset = (existingOffset, [])"
| "advance offset ((hash, sz) # chunks) existingOffset =
     (if existingOffset < offset then advance offset chunks (existingOffset + sz)
      else (existingOffset, (hash, sz) # chunks))"

record place_state =
  ps_chunks :: "(bytes \<times> int) list"
  ps_offset :: int
  ps_existingOffset :: int
  ps_hashed :: bytes

definition chunk_part :: "entry \<Rightarrow> int \<Rightarrow> download_task \<Rightarrow> int \<times> int" where
  "chunk_part e i t =
     (if i = StartChunk e then StartOffset e else 0, if i = EndChunk e then EndOffset e else dt_chunkLength t)"

text \<open>A chunk that is there already is only hashed; another one is waited for and written.\<close>

definition keep_part :: "('w, 's) restore_env \<Rightarrow> string \<Rightarrow> int \<Rightarrow> place_state \<Rightarrow> (('w, 's) restore_state, goerror + place_state) prog" where
  "keep_part re path stop ps =
     bind_st (on_local (get_st (lc_ReadAt (re_calls re) path (ps_offset ps) stop))) (\<lambda>r.
       case r of
         Inl err \<Rightarrow> raise_st (LogError ''DOWNLOAD_READ'')
       | Inr bs \<Rightarrow>
           if int (length bs) < stop then raise_st (LogError ''DOWNLOAD_READ'')
           else return_st (Inr (ps\<lparr>ps_hashed := ps_hashed ps @ bs, ps_offset := ps_offset ps + stop\<rparr>)))"

definition write_part ::
  "('w, 's) restore_env \<Rightarrow> string \<Rightarrow> int \<Rightarrow> bytes \<Rightarrow> int \<Rightarrow> int \<Rightarrow> place_state \<Rightarrow>
     (('w, 's) restore_state, goerror + place_state) prog" where
  "write_part re path i hash start stop ps =
     bind_st (fetch_part re i hash start (Some stop)) (\<lambda>r.
       case r of
         Inl err \<Rightarrow> return_st (Inl err)
       | Inr bs \<Rightarrow>
           bind_st (or_raise ''DOWNLOAD_WRITE'' (local_call (lc_WriteAt (re_calls re) path (ps_offset ps) bs))) (\<lambda>_.
             return_st (Inr (ps\<lparr>ps_hashed := ps_hashed ps @ bs, ps_offset := ps_offset ps + (stop - start)\<rparr>))))"

text \<open>One chunk in place. \<open>j\<close> of the code is the number of existing chunks before \<open>ps_chunks\<close>.\<close>

definition place_chunk ::
  "('w, 's) restore_env \<Rightarrow> entry \<Rightarrow> int \<Rightarrow> place_state \<Rightarrow> (('w, 's) restore_state, goerror + place_state) prog" where
  "place_chunk re e i ps =
     (let (existingOffset, chunks) = advance (ps_offset ps) (ps_chunks ps) (ps_existingOffset ps);
          ps = ps\<lparr>ps_existingOffset := existingOffset, ps_chunks := chunks\<rparr>
      in bind_st (on_downloader (task_at i)) (\<lambda>t.
         let (start, stop) = chunk_part e i t; hash = dt_chunkHash t in
         if ps_offset ps < 0 then raise_st (LogError ''DOWNLOAD_SEEK'')
         else if existingOffset = ps_offset ps \<and> start = 0 \<and> chunks \<noteq> [] \<and> hd chunks = (hash, stop)
         then keep_part re (full_path re e) stop ps
         else write_part re (full_path re e) i hash start stop ps))"

text \<open>A loop that an error ends.\<close>

fun until_error :: "('a \<Rightarrow> 'b \<Rightarrow> ('s, goerror + 'b) prog) \<Rightarrow> 'a list \<Rightarrow> 'b \<Rightarrow> ('s, goerror + 'b) prog" where
  "until_error f [] b = return_st (Inr b)"
| "until_error f (x # xs) b =
     bind_st (f x b) (\<lambda>r. case r of Inl err \<Rightarrow> return_st (Inl err) | Inr b \<Rightarrow> until_error f xs b)"

definition open_in_place ::
  "('w, 's) restore_env \<Rightarrow> bool \<Rightarrow> entry \<Rightarrow> (('w, 's) restore_state, unit) prog" where
  "open_in_place re exists e =
     (if exists then or_raise ''DOWNLOAD_OPEN'' (on_local (get_st (lc_OpenRDWR (re_calls re) (full_path re e))))
      else or_raise ''DOWNLOAD_CREATE'' (local_call (lc_Create (re_calls re) (full_path re e))))"

definition write_in_place ::
  "('w, 's) restore_env \<Rightarrow> file_options \<Rightarrow> bool \<Rightarrow> existing \<Rightarrow> entry \<Rightarrow> (('w, 's) restore_state, restored) prog" where
  "write_in_place re fo exists ex e =
     bind_st (open_in_place re exists e) (\<lambda>_.
     bind_st (early_flags re fo (full_path re e) e) (\<lambda>_.
     bind_st (until_error (place_chunk re e) [StartChunk e..EndChunk e]
         \<lparr>ps_chunks = ex_chunks ex, ps_offset = 0, ps_existingOffset = 0, ps_hashed = []\<rparr>) (\<lambda>r.
       case r of
         Inl err \<Rightarrow> return_st (False, Some err)
       | Inr ps \<Rightarrow>
           bind_st (or_raise ''DOWNLOAD_TRUNCATE'' (local_call (lc_Truncate (re_calls re) (full_path re e) (ps_offset ps)))) (\<lambda>_.
           bind_st (check_hash re fo e (ps_hashed ps)) (\<lambda>err.
             return_st (if err = None then (True, None) else (False, err)))))))"

text \<open>A local copy of a chunk: all of it, whatever part of the chunk the file has.\<close>

definition local_copy ::
  "('w, 's) restore_env \<Rightarrow> bool \<Rightarrow> existing \<Rightarrow> string \<Rightarrow> bytes \<Rightarrow> (('w, 's) restore_state, bytes option) prog" where
  "local_copy re exists ex path hash =
     (case (if exists then map_of (ex_offsets ex) hash else None) of
        None \<Rightarrow> return_st None
      | Some offset \<Rightarrow>
          let len = (case map_of (ex_lengths ex) hash of None \<Rightarrow> 0 | Some n \<Rightarrow> n) in
          bind_st (on_local (get_st (lc_ReadAt (re_calls re) path offset len))) (\<lambda>r.
            return_st (case r of Inl err \<Rightarrow> None | Inr bs \<Rightarrow> if int (length bs) < len then None else Some bs)))"

definition copy_chunk ::
  "('w, 's) restore_env \<Rightarrow> bool \<Rightarrow> existing \<Rightarrow> entry \<Rightarrow> int \<Rightarrow> bytes \<Rightarrow> (('w, 's) restore_state, goerror + bytes) prog" where
  "copy_chunk re exists ex e i written =
     bind_st (on_downloader (task_at i)) (\<lambda>t.
     bind_st (local_copy re exists ex (full_path re e) (dt_chunkHash t)) (\<lambda>copied.
     bind_st
       (case copied of
          Some bs \<Rightarrow> return_st (Inr bs)
        | None \<Rightarrow> fetch_part re i (dt_chunkHash t) (if i = StartChunk e then StartOffset e else 0)
            (if i = EndChunk e then Some (EndOffset e) else None)) (\<lambda>r.
       case r of
         Inl err \<Rightarrow> return_st (Inl err)
       | Inr bs \<Rightarrow>
           bind_st (or_raise ''DOWNLOAD_WRITE''
               (local_call (lc_WriteAt (re_calls re) (temporary_path re) (int (length written)) bs))) (\<lambda>_.
             return_st (Inr (written @ bs))))))"

text \<open>The temporary file takes the place of the existing one.\<close>

definition replace_file :: "('w, 's) restore_env \<Rightarrow> entry \<Rightarrow> (('w, 's) restore_state, unit) prog" where
  "replace_file re e =
     bind_st (local_call (lc_Remove (re_calls re) (full_path re e))) (\<lambda>err.
       if err \<noteq> None \<and> err \<noteq> Some ENOENT then raise_st (LogError ''DOWNLOAD_REMOVE'')
       else or_raise ''DOWNLOAD_RENAME'' (local_call (lc_Rename (re_calls re) (temporary_path re) (full_path re e))))"

definition write_copy ::
  "('w, 's) restore_env \<Rightarrow> file_options \<Rightarrow> bool \<Rightarrow> existing \<Rightarrow> entry \<Rightarrow> (('w, 's) restore_state, restored) prog" where
  "write_copy re fo exists ex e =
     bind_st (or_raise ''DOWNLOAD_OPEN'' (local_call (lc_Create (re_calls re) (temporary_path re)))) (\<lambda>_.
     bind_st (early_flags re fo (temporary_path re) e) (\<lambda>_.
     bind_st (until_error (copy_chunk re exists ex e) [StartChunk e..EndChunk e] []) (\<lambda>r.
       case r of
         Inl err \<Rightarrow> return_st (False, Some err)
       | Inr written \<Rightarrow>
           bind_st (check_hash re fo e written) (\<lambda>err.
             if err \<noteq> None then return_st (False, err)
             else bind_st (replace_file re e) (\<lambda>_. return_st (True, None))))))"

section \<open>RestoreFile\<close>

definition split_existing ::
  "('w, 's) restore_env \<Rightarrow> file_options \<Rightarrow> bool \<Rightarrow> bool \<Rightarrow> entry \<Rightarrow> (('w, 's) restore_state, restored + existing) prog" where
  "split_existing re fo exists isNewFile e =
     (if \<not> exists then return_st (Inr no_existing)
      else if fo_inPlace fo then split_in_place re fo isNewFile e
      else bind_st (split_by_content re e) (\<lambda>ex. return_st (Inr ex)))"

definition remove_temporary :: "('w, 's) restore_env \<Rightarrow> entry \<Rightarrow> (('w, 's) restore_state, unit) prog" where
  "remove_temporary re e =
     (if temporary_path re \<noteq> full_path re e
      then bind_st (local_call (lc_Remove (re_calls re) (temporary_path re))) (\<lambda>_. return_st ()) else return_st ())"

definition RestoreFile ::
  "('w, 's) restore_env \<Rightarrow> file_options \<Rightarrow> entry \<Rightarrow> (('w, 's) restore_state, restored) prog" where
  "RestoreFile re fo e =
     defer_st (remove_temporary re e)
       (bind_st (open_existing re fo e) (\<lambda>(exists, isNewFile).
        bind_st (split_existing re fo exists isNewFile e) (\<lambda>r.
          case r of
            Inl result \<Rightarrow> return_st result
          | Inr ex \<Rightarrow>
              bind_st (on_downloader (for_each [StartChunk e..EndChunk e] (mark_needed ex))) (\<lambda>_.
              bind_st (on_downloader (Prefetch (re_download re) e)) (\<lambda>_.
                if fo_inPlace fo then write_in_place re fo exists ex e else write_copy re fo exists ex e)))))"

end
