(* ===== verification/RestoreSafety.thy ===== *)
theory RestoreSafety
  imports RestoreFile
begin

text \<open>
  What \<open>RestoreFile\<close> does to the local files, proved from the laws of the file calls (locale \<open>local_files\<close>) and
  for every behaviour of the storage and the downloader: a file is replaced or rewritten only as far as the result
  says, with the right hash if the result is that it has been restored; everything else but the temporary file is
  as before. The locale is interpreted on the directory tree of theory FileSystem with the attributes of theory
  Attributes. The rules \<open>runs_*\<close> extend those of theory Downloader.
\<close>

section \<open>Rules\<close>

lemma runs_exn: "runs P m Q F \<Longrightarrow> (\<And>e s. F e s \<Longrightarrow> F' e s) \<Longrightarrow> runs P m Q F'"
  by (fastforce simp: runs_def split: prod.splits sum.splits)

lemma runs_raise: "(\<And>s. P s \<Longrightarrow> F e s) \<Longrightarrow> runs P (raise_st e) Q F"
  by (simp add: runs_def raise_st_def)

lemma runs_lift: "(\<And>s x. P s \<Longrightarrow> r = Inr x \<Longrightarrow> Q x s) \<Longrightarrow> (\<And>s e. P s \<Longrightarrow> r = Inl e \<Longrightarrow> F e s) \<Longrightarrow> runs P (lift_res r) Q F"
  by (cases r) (auto simp: runs_def lift_res_def)

lemma runs_ex: "(\<And>x. runs (P x) m Q F) \<Longrightarrow> runs (\<lambda>s. \<exists>x. P x s) m Q F"
proof -
  assume "\<And>x. runs (P x) m Q F"
  then have "case m s of (Inr y, t) \<Rightarrow> Q y t | (Inl e, t) \<Rightarrow> F e t" if "P x s" for x s
    using that unfolding runs_def by simp
  then show ?thesis unfolding runs_def by metis
qed

lemma runs_pure: "(A \<Longrightarrow> runs P m Q F) \<Longrightarrow> runs (\<lambda>s. P s \<and> A) m Q F"
  by (simp add: runs_def)

lemma runs_fold:
  assumes "\<And>x b. x \<in> set xs \<Longrightarrow> runs P (f x b) (\<lambda>_. P) F"
  shows "runs P (fold_st f xs b) (\<lambda>_. P) F"
  using assms by (induction xs arbitrary: b) (auto intro: runs_return runs_bind)

text \<open>Predicates on the local files alone.\<close>

definition loc :: "('w \<Rightarrow> bool) \<Rightarrow> ('w, 's) restore_state \<Rightarrow> bool" where
  "loc X rs \<longleftrightarrow> X (rs_local rs)"

lemma runs_downloader: "runs (loc X) (on_downloader m) (\<lambda>_. loc X) (\<lambda>_. loc X)"
  by (auto simp: runs_def on_downloader_def zoom_def loc_def split: prod.splits sum.splits)

lemma runs_local_get: "runs (loc X) (on_local (get_st f)) (\<lambda>x. loc (\<lambda>w. X w \<and> x = f w)) F"
  by (auto simp: runs_def on_local_def zoom_def loc_def get_st_def)

lemma runs_local_call:
  assumes "\<And>w err w'. X w \<Longrightarrow> f w = (err, w') \<Longrightarrow> Y err w'"
  shows "runs (loc X) (local_call f) (\<lambda>err. loc (Y err)) F"
  using assms by (auto simp: runs_def local_call_def on_local_def zoom_def loc_def split: prod.splits)

lemma runs_or_raise:
  assumes "runs P m (\<lambda>err s. if err = None then Q s else F (LogError logID) s) F"
  shows "runs P (or_raise logID m) (\<lambda>_. Q) F"
  unfolding or_raise_def by (rule runs_bind [OF assms]) (auto simp: runs_def return_st_def raise_st_def)

definition write_at :: "bytes \<Rightarrow> nat \<Rightarrow> bytes \<Rightarrow> bytes" where
  "write_at b i bs = take i b @ replicate (i - length b) 0 @ bs @ drop (i + length bs) b"

text \<open>The hash of the content is that of the entry, if the entry has one.\<close>

definition right_hash :: "('w, 's) restore_env \<Rightarrow> entry \<Rightarrow> bytes \<Rightarrow> bool" where
  "right_hash re e b \<longleftrightarrow> (let h = hex_encode (re_fileHash re b) in h = Hash e \<or> h = [] \<or> Hash e = [] \<or> HasPrefix (Hash e) ''#'')"

locale local_files =
  fixes lc :: "'w local_calls" and ok :: "'w \<Rightarrow> bool" and content :: "'w \<Rightarrow> string \<Rightarrow> bytes option"
  assumes rdwr_law: "ok w \<Longrightarrow> lc_OpenRDWR lc p w = None \<Longrightarrow> content w p \<noteq> None"
    and create_law: "ok w \<Longrightarrow> lc_Create lc p w = (err, w') \<Longrightarrow>
      ok w' \<and> content w' = (if err = None then (content w)(p \<mapsto> []) else content w)"
    and read_law: "ok w \<Longrightarrow> content w p = Some b \<Longrightarrow> 0 \<le> i \<Longrightarrow> lc_ReadAt lc p i n w = Inr bs \<Longrightarrow>
      bs = take (nat n) (drop (nat i) b)"
    and write_law: "ok w \<Longrightarrow> content w p = Some b \<Longrightarrow> 0 \<le> i \<Longrightarrow> lc_WriteAt lc p i bs w = (err, w') \<Longrightarrow>
      ok w' \<and> (\<exists>c. content w' = (content w)(p \<mapsto> c) \<and> (err = None \<longrightarrow> c = write_at b (nat i) bs))"
    and truncate_law: "ok w \<Longrightarrow> content w p = Some b \<Longrightarrow> 0 \<le> n \<Longrightarrow> lc_Truncate lc p n w = (err, w') \<Longrightarrow>
      ok w' \<and> (\<exists>c. content w' = (content w)(p \<mapsto> c) \<and> (err = None \<and> nat n \<le> length b \<longrightarrow> c = take (nat n) b))"
    and remove_law: "ok w \<Longrightarrow> lc_Remove lc p w = (err, w') \<Longrightarrow>
      ok w' \<and> content w' = (if err = None then (content w)(p := None) else content w)"
    and rename_law: "ok w \<Longrightarrow> content w p = Some b \<Longrightarrow> p \<noteq> q \<Longrightarrow> lc_Rename lc p q w = (err, w') \<Longrightarrow>
      ok w' \<and> content w' = (if err = None then (content w)(p := None, q \<mapsto> b) else content w)"
    and flags_law: "ok w \<Longrightarrow> fc_SetFlags (lc_file lc p) v w = (r, w') \<Longrightarrow> ok w' \<and> content w' = content w"
begin

definition holding :: "(string \<Rightarrow> bytes option) \<Rightarrow> 'w \<Rightarrow> bool" where
  "holding c w \<longleftrightarrow> ok w \<and> content w = c"

lemma runs_early_flags:
  assumes "re_calls re = lc" and "\<And>w w'. X w \<Longrightarrow> ok w' \<Longrightarrow> content w' = content w \<Longrightarrow> X w'" and "\<And>w. X w \<Longrightarrow> ok w"
  shows "runs (loc X) (early_flags re fo p e) (\<lambda>_. loc X) (\<lambda>_. loc X)"
proof -
  have "ok w' \<and> content w' = content w" if "ok w" "restoreEarlyFileFlags (lc_file lc p) e x w = (r, w')" for r x w w'
    using that(2,1) flags_law
    by (auto simp: restoreEarlyFileFlags_def restore_flags_def bind_st_def lift_res_def return_st_def get_st_def call_def
        split: if_splits prod.splits sum.splits)
  then have flag: "X w'" if "X w" "restoreEarlyFileFlags (lc_file lc p) e x w = (r, w')" for r x w w'
    using that assms(2,3) by blast
  show ?thesis
    unfolding early_flags_def assms(1)
    by (rule runs_bind [of _ _ "\<lambda>_. loc X"]) (use flag in \<open>auto simp: runs_def on_local_def zoom_def loc_def return_st_def split: prod.splits sum.splits\<close>)
qed

text \<open>What a failing program leaves: everything but the temporary file is as before.\<close>

definition untouched :: "string \<Rightarrow> (string \<Rightarrow> bytes option) \<Rightarrow> 'w \<Rightarrow> bool" where
  "untouched tmp c w \<longleftrightarrow> ok w \<and> (\<forall>q. q \<noteq> tmp \<longrightarrow> content w q = c q)"

lemma holding_untouched: "holding c w \<Longrightarrow> untouched tmp c w" "holding (c(tmp := x)) w \<Longrightarrow> untouched tmp c w"
  by (auto simp: holding_def untouched_def)

lemma runs_keeps_local:
  assumes "\<And>x. runs (loc X) (f x) (\<lambda>_. loc X) F"
  shows "runs (loc X) (bind_st (on_downloader m) f) (\<lambda>_. loc X) (\<lambda>e s. F e s \<or> loc X s)"
  by (rule runs_bind [of _ _ "\<lambda>_. loc X"]) (auto intro: runs_exn [OF runs_downloader] runs_exn [OF assms])

lemma runs_chunk_id: "runs (loc X) (chunk_id_of re h) (\<lambda>_. loc X) (\<lambda>_. loc X)"
  unfolding chunk_id_of_def by (rule runs_lift)

lemma runs_fetch_part: "runs (loc X) (fetch_part re i h start stop) (\<lambda>_. loc X) (\<lambda>_. loc X)"
  unfolding fetch_part_def
  by (intro runs_bind [OF runs_downloader])
    (auto split: option.splits intro!: runs_raise runs_bind [OF runs_chunk_id] runs_return runs_bind [of "loc X" _ "\<lambda>_. loc X"] runs_lift)

lemma runs_local_copy: "runs (loc X) (local_copy re ex_ist ex p h) (\<lambda>_. loc X) F"
  unfolding local_copy_def Let_def
  by (auto split: option.splits intro!: runs_return runs_bind [OF runs_local_get]) (auto simp: runs_def loc_def return_st_def)

lemma check_hash_result:
  "runs (loc X) (check_hash re fo e bs)
    (\<lambda>err s. loc X s \<and> (err = None \<longrightarrow> (let h = hex_encode (re_fileHash re bs) in h = Hash e \<or> h = [] \<or> Hash e = [] \<or> HasPrefix (Hash e) ''#'')))
    (\<lambda>_. loc X)"
  by (auto simp: check_hash_def Let_def LOG_WERROR_def runs_def bind_st_def return_st_def raise_st_def)

lemma write_snoc: "write_at b (length b) bs = b @ bs"
  by (simp add: write_at_def)

lemma runs_copy_chunk:
  assumes "re_calls re = lc" and "tmp = temporary_path re"
  shows "runs (loc (holding (c(tmp \<mapsto> written)))) (copy_chunk re ex_ist ex e i written)
    (\<lambda>r. loc (case r of Inl err \<Rightarrow> untouched tmp c | Inr b \<Rightarrow> holding (c(tmp \<mapsto> b)))) (\<lambda>_. loc (untouched tmp c))"
proof -
  let ?X = "holding (c(tmp \<mapsto> written))"
  have weak: "loc ?X s \<Longrightarrow> loc (untouched tmp c) s" for s :: "('w, 'b) restore_state"
    using holding_untouched(2) by (auto simp: loc_def)
  have wr: "runs (loc ?X) (local_call (lc_WriteAt (re_calls re) (temporary_path re) (int (length written)) bs))
      (\<lambda>err s. if err = None then loc (holding (c(tmp \<mapsto> written @ bs))) s else loc (untouched tmp c) s) (\<lambda>_. loc (untouched tmp c))" for bs
  proof (rule runs_post [OF runs_local_call])
    fix w err w'
    assume w: "?X w" "lc_WriteAt (re_calls re) (temporary_path re) (int (length written)) bs w = (err, w')"
    show "if err = None then holding (c(tmp \<mapsto> written @ bs)) w' else untouched tmp c w'"
      using w assms write_law [of w tmp written "int (length written)" bs err w'] write_snoc [of written bs]
      by (auto simp: holding_def untouched_def)
  qed (simp add: loc_def)
  have got: "runs (loc ?X)
      (case r of Inl err \<Rightarrow> return_st (Inl err)
       | Inr bs \<Rightarrow> bind_st (or_raise ''DOWNLOAD_WRITE'' (local_call (lc_WriteAt (re_calls re) (temporary_path re) (int (length written)) bs)))
           (\<lambda>_. return_st (Inr (written @ bs))))
      (\<lambda>r. loc (case r of Inl err \<Rightarrow> untouched tmp c | Inr b \<Rightarrow> holding (c(tmp \<mapsto> b)))) (\<lambda>_. loc (untouched tmp c))" for r
  proof (cases r)
    case (Inl err)
    then show ?thesis by (auto intro!: runs_return weak)
  next
    case (Inr bs)
    show ?thesis unfolding Inr sum.case
      by (rule runs_bind [OF runs_or_raise [OF wr]], rule runs_return) (simp only: sum.case)
  qed
  have part: "runs (loc ?X) (case copied of Some bs \<Rightarrow> return_st (Inr bs) | None \<Rightarrow> fetch_part re i h a b) (\<lambda>_. loc ?X) (\<lambda>_. loc (untouched tmp c))" for copied h a b
    by (cases copied) (auto intro: runs_return runs_exn [OF runs_fetch_part] weak)
  show ?thesis
    unfolding copy_chunk_def
    by (intro runs_bind [OF runs_exn [OF runs_downloader weak]] runs_bind [OF runs_local_copy] runs_bind [OF part got])
qed

lemma runs_until_error:
  assumes "\<And>x b. x \<in> set xs \<Longrightarrow> runs (P b) (f x b) (\<lambda>r s. case r of Inl err \<Rightarrow> E s | Inr b \<Rightarrow> P b s) F"
  shows "runs (P b) (until_error f xs b) (\<lambda>r s. case r of Inl err \<Rightarrow> E s | Inr b \<Rightarrow> P b s) F"
  using assms
proof (induction xs arbitrary: b)
  case Nil
  show ?case unfolding until_error.simps by (rule runs_return) simp
next
  case (Cons x xs)
  have "runs (\<lambda>s. case r of Inl err \<Rightarrow> E s | Inr b \<Rightarrow> P b s)
      (case r of Inl err \<Rightarrow> return_st (Inl err) | Inr b \<Rightarrow> until_error f xs b) (\<lambda>r s. case r of Inl err \<Rightarrow> E s | Inr b \<Rightarrow> P b s) F" for r
    using Cons.IH [OF Cons.prems] by (cases r) (auto intro!: runs_return)
  with Cons.prems [of x] show ?case unfolding until_error.simps by (intro runs_bind) auto
qed

definition copy_lost :: "string \<Rightarrow> string \<Rightarrow> (string \<Rightarrow> bytes option) \<Rightarrow> exn \<Rightarrow> ('w, 's) restore_state \<Rightarrow> bool" where
  "copy_lost tmp full c e s \<longleftrightarrow> loc (untouched tmp c) s \<or>
     e = LogError ''DOWNLOAD_RENAME'' \<and> loc (untouched tmp (c(full := None))) s"

lemma runs_replace_file:
  assumes "re_calls re = lc" and "tmp = temporary_path re" and "full = full_path re e" and "full \<noteq> tmp"
  shows "runs (loc (holding (c(tmp \<mapsto> b)))) (replace_file re e)
    (\<lambda>_. loc (holding (c(tmp := None, full \<mapsto> b)))) (copy_lost tmp full c)"
proof -
  let ?X = "c(tmp \<mapsto> b)"
  have remove: "runs (loc (holding ?X)) (local_call (lc_Remove (re_calls re) (full_path re e)))
      (\<lambda>err. loc (holding (if err = None then ?X(full := None) else ?X))) (copy_lost tmp full c)"
    using assms(1,3) by (intro runs_local_call) (auto simp: holding_def dest: remove_law)
  have rename: "runs (loc (holding Y)) (local_call (lc_Rename (re_calls re) (temporary_path re) (full_path re e)))
      (\<lambda>err s. if err = None then loc (holding (c(tmp := None, full \<mapsto> b))) s else copy_lost tmp full c (LogError ''DOWNLOAD_RENAME'') s)
      (copy_lost tmp full c)" if Y: "Y = ?X \<or> Y = ?X(full := None)" for Y
  proof (rule runs_post [OF runs_local_call [where Y = "\<lambda>err w. holding (if err = None then c(tmp := None, full \<mapsto> b) else Y) w"]])
    fix w err w'
    assume w: "holding Y w" "lc_Rename (re_calls re) (temporary_path re) (full_path re e) w = (err, w')"
    have "Y tmp = Some b" using Y assms(4) by auto
    moreover have "Y(tmp := None, full \<mapsto> b) = c(tmp := None, full \<mapsto> b)" using Y assms(4) by (auto simp: fun_eq_iff)
    ultimately show "holding (if err = None then c(tmp := None, full \<mapsto> b) else Y) w'"
      using w rename_law [of w tmp b full err w'] assms by (auto simp: holding_def)
  next
    fix err s
    assume "loc (holding (if err = None then c(tmp := None, full \<mapsto> b) else Y)) s"
    then show "if err = None then loc (holding (c(tmp := None, full \<mapsto> b))) s else copy_lost tmp full c (LogError ''DOWNLOAD_RENAME'') s"
      using Y assms(4) by (auto simp: copy_lost_def loc_def holding_def untouched_def split: if_splits)
  qed
  have fail: "runs (loc (holding ?X)) (raise_st (LogError ''DOWNLOAD_REMOVE'')) Q (copy_lost tmp full c)" for Q
    by (rule runs_raise) (auto simp: copy_lost_def loc_def holding_def untouched_def)
  have step: "runs (loc (holding (if err = None then ?X(full := None) else ?X)))
      (if err \<noteq> None \<and> err \<noteq> Some ENOENT then raise_st (LogError ''DOWNLOAD_REMOVE'')
       else or_raise ''DOWNLOAD_RENAME'' (local_call (lc_Rename (re_calls re) (temporary_path re) (full_path re e))))
      (\<lambda>_. loc (holding (c(tmp := None, full \<mapsto> b)))) (copy_lost tmp full c)" for err
  proof -
    consider "err = None" | "err = Some ENOENT" | "err \<noteq> None" "err \<noteq> Some ENOENT" by blast
    then show ?thesis
    proof cases
      case 1
      then show ?thesis
        by (simp only: refl if_True not_True_eq_False simp_thms if_False) (rule runs_or_raise [OF rename [OF disjI2 [OF refl]]])
    next
      case 2
      then show ?thesis
        by (simp only: refl if_True not_True_eq_False simp_thms if_False option.distinct) (rule runs_or_raise [OF rename [OF disjI1 [OF refl]]])
    next
      case 3
      then show ?thesis by (simp only: simp_thms if_True if_False) (rule fail)
    qed
  qed
  show ?thesis unfolding replace_file_def by (rule runs_bind [OF remove step])
qed

definition copy_result :: "('w, 's) restore_env \<Rightarrow> entry \<Rightarrow> (string \<Rightarrow> bytes option) \<Rightarrow> restored \<Rightarrow> ('w, 's) restore_state \<Rightarrow> bool" where
  "copy_result re e c = (\<lambda>(downloaded, err) s.
     if downloaded then err = None \<and> (\<exists>b. right_hash re e b \<and> loc (untouched (temporary_path re) (c(full_path re e \<mapsto> b))) s)
     else loc (untouched (temporary_path re) c) s)"

lemma runs_write_copy:
  assumes "re_calls re = lc" and "tmp = temporary_path re" and "full = full_path re e" and "full \<noteq> tmp"
  shows "runs (loc (holding c)) (write_copy re fo ex_ist ex e) (copy_result re e c) (copy_lost tmp full c)"
proof -
  have lost: "copy_lost tmp full c err s" if "loc (untouched tmp c) s" for err s using that by (simp add: copy_lost_def)
  have held: "loc (untouched tmp c) s" if "loc (holding (c(tmp := x))) s" for x and s :: "('w, 'a) restore_state"
    using that holding_untouched(2) by (auto simp: loc_def)
  have create: "runs (loc (holding c)) (local_call (lc_Create (re_calls re) (temporary_path re)))
      (\<lambda>err s. if err = None then loc (holding (c(tmp \<mapsto> []))) s else copy_lost tmp full c (LogError ''DOWNLOAD_OPEN'') s) (copy_lost tmp full c)"
  proof (rule runs_post [OF runs_local_call [where Y = "\<lambda>err. holding (if err = None then c(tmp \<mapsto> []) else c)"]])
    show "holding (if err = None then c(tmp \<mapsto> []) else c) w'"
      if "holding c w" "lc_Create (re_calls re) (temporary_path re) w = (err, w')" for w err w'
      using that assms(1,2) create_law [of w tmp err w'] by (auto simp: holding_def)
    show "if err = None then loc (holding (c(tmp \<mapsto> []))) s else copy_lost tmp full c (LogError ''DOWNLOAD_OPEN'') s"
      if "loc (holding (if err = None then c(tmp \<mapsto> []) else c)) s" for err s
      using that by (auto simp: copy_lost_def loc_def holding_def untouched_def split: if_splits)
  qed
  have flags: "runs (loc (holding (c(tmp \<mapsto> [])))) (early_flags re fo (temporary_path re) e)
      (\<lambda>_. loc (holding (c(tmp \<mapsto> [])))) (copy_lost tmp full c)"
    by (rule runs_exn [OF runs_early_flags [OF assms(1)]]) (auto simp: holding_def intro: lost [OF held])
  have chunks: "runs (loc (holding (c(tmp \<mapsto> [])))) (until_error (copy_chunk re ex_ist ex e) xs [])
      (\<lambda>r s. case r of Inl err \<Rightarrow> loc (untouched tmp c) s | Inr b \<Rightarrow> loc (holding (c(tmp \<mapsto> b))) s) (copy_lost tmp full c)" for xs
  proof (rule runs_until_error)
    fix x b
    show "runs (loc (holding (c(tmp \<mapsto> b)))) (copy_chunk re ex_ist ex e x b)
      (\<lambda>r s. case r of Inl err \<Rightarrow> loc (untouched tmp c) s | Inr b \<Rightarrow> loc (holding (c(tmp \<mapsto> b))) s) (copy_lost tmp full c)"
      by (rule runs_post [OF runs_exn [OF runs_copy_chunk [OF assms(1,2)] lost]]) (simp_all split: sum.splits)
  qed
  have replace: "runs (loc (holding (c(tmp \<mapsto> b)))) (bind_st (replace_file re e) (\<lambda>_. return_st (True, None)))
      (copy_result re e c) (copy_lost tmp full c)" if "right_hash re e b" for b
  proof (rule runs_bind [OF runs_replace_file [OF assms]], rule runs_return)
    show "copy_result re e c (True, None) s" if "loc (holding (c(tmp := None, full \<mapsto> b))) s" for s
      using that \<open>right_hash re e b\<close> assms(2-4) by (auto simp: copy_result_def loc_def holding_def untouched_def)
  qed
  have check: "runs (loc (holding (c(tmp \<mapsto> b))))
      (bind_st (check_hash re fo e b) (\<lambda>err. if err \<noteq> None then return_st (False, err) else bind_st (replace_file re e) (\<lambda>_. return_st (True, None))))
      (copy_result re e c) (copy_lost tmp full c)" for b
  proof (rule runs_bind [OF runs_exn [OF check_hash_result lost [OF held]]], assumption)
    fix err
    show "runs (\<lambda>s. loc (holding (c(tmp \<mapsto> b))) s \<and> (err = None \<longrightarrow> (let h = hex_encode (re_fileHash re b) in h = Hash e \<or> h = [] \<or> Hash e = [] \<or> HasPrefix (Hash e) ''#'')))
      (if err \<noteq> None then return_st (False, err) else bind_st (replace_file re e) (\<lambda>_. return_st (True, None)))
      (copy_result re e c) (copy_lost tmp full c)"
    proof (cases "err = None")
      case True
      then show ?thesis using replace [of b] by (intro runs_pure) (simp add: right_hash_def)
    next
      case False
      then show ?thesis using held assms(2) by (auto intro!: runs_return simp: copy_result_def)
    qed
  qed
  have rest: "runs (\<lambda>s. case r of Inl err \<Rightarrow> loc (untouched tmp c) s | Inr b \<Rightarrow> loc (holding (c(tmp \<mapsto> b))) s)
      (case r of Inl err \<Rightarrow> return_st (False, Some err) | Inr written \<Rightarrow>
         bind_st (check_hash re fo e written) (\<lambda>err. if err \<noteq> None then return_st (False, err) else bind_st (replace_file re e) (\<lambda>_. return_st (True, None))))
      (copy_result re e c) (copy_lost tmp full c)" for r
  proof (cases r)
    case (Inl err)
    then show ?thesis using assms(2) by (auto intro!: runs_return simp: copy_result_def)
  next
    case (Inr b)
    then show ?thesis using check [of b] by (simp only: sum.case)
  qed
  show ?thesis
    unfolding write_copy_def by (rule runs_bind [OF runs_or_raise [OF create] runs_bind [OF flags runs_bind [OF chunks rest]]])
qed

lemma runs_defer:
  assumes "runs P m Q F" and "\<And>x. keeps (Q x) cleanup" and "\<And>e. keeps (F e) cleanup"
  shows "runs P (defer_st cleanup m) Q F"
  unfolding runs_def
proof (intro allI impI)
  fix s assume "P s"
  obtain r t where m: "m s = (r, t)" by force
  have "case (r, t) of (Inr x, t) \<Rightarrow> Q x t | (Inl e, t) \<Rightarrow> F e t" using assms(1) \<open>P s\<close> m unfolding runs_def by metis
  then show "case defer_st cleanup m s of (Inr x, t) \<Rightarrow> Q x t | (Inl e, t) \<Rightarrow> F e t"
    using assms(2,3) by (cases r) (simp_all add: defer_st_def m keeps_def)
qed

lemma runs_make_chunks: "runs (loc X) (make_chunks re rd) (\<lambda>_. loc X) (\<lambda>_. loc X)"
proof -
  have m: "runs (\<lambda>s. loc X s \<and> mk = rs_maker s)
      (case AddData (re_config re) (re_fileHash re) mk rd of None \<Rightarrow> raise_st (Panic ''unreachable'')
       | Some r \<Rightarrow> bind_st (lift_res r) (\<lambda>(_, mk, chunks). bind_st (modify_st (\<lambda>rs. rs\<lparr>rs_maker := mk\<rparr>)) (\<lambda>_. return_st chunks)))
      (\<lambda>_. loc X) (\<lambda>_. loc X)" for mk
    by (auto split: option.splits intro!: runs_raise runs_bind [of _ _ "\<lambda>_. loc X"] runs_lift)
      (auto simp: runs_def bind_st_def modify_st_def return_st_def loc_def)
  show ?thesis unfolding make_chunks_def by (rule runs_bind [OF runs_get m])
qed

lemma runs_split_by_content: "runs (loc X) (split_by_content re e) (\<lambda>_. loc X) (\<lambda>_. loc X)"
proof -
  have noted: "runs (loc X) (note_made_chunk re ch ex) (\<lambda>_. loc X) (\<lambda>_. loc X)" for ch ex
    unfolding note_made_chunk_def
    by (rule runs_bind [of _ _ "\<lambda>_. loc X"]) (auto intro: runs_lift runs_return)
  have "runs (loc (\<lambda>w. X w \<and> rd = f w)) (bind_st (make_chunks re (Some rd)) (\<lambda>chunks. bind_st (make_chunks re None)
      (\<lambda>more_chunks. fold_st (note_made_chunk re) (chunks @ more_chunks) no_existing))) (\<lambda>_. loc X) (\<lambda>_. loc X)" for rd f
    by (rule runs_pre [OF runs_bind [OF runs_make_chunks runs_bind [OF runs_make_chunks runs_fold [OF noted]]]]) (simp add: loc_def)
  then show ?thesis unfolding split_by_content_def by (rule runs_bind [OF runs_local_get])
qed

lemma loc_mono: "loc X s \<Longrightarrow> (\<And>w. X w \<Longrightarrow> Y w) \<Longrightarrow> loc Y s"
  by (simp add: loc_def)

lemma keeps_remove_temporary:
  assumes "re_calls re = lc" and "tmp = temporary_path re"
  shows "keeps (loc (untouched tmp c)) (remove_temporary re e)"
proof -
  have "untouched tmp c w'" if "untouched tmp c w" "lc_Remove lc tmp w = (err, w')" for w err w'
    using that remove_law [of w tmp err w'] by (auto simp: untouched_def split: if_splits)
  then show ?thesis
    using assms by (auto simp: keeps_def remove_temporary_def bind_st_def local_call_def on_local_def zoom_def loc_def return_st_def split: prod.splits)
qed

lemma runs_RestoreFile_copy:
  assumes "re_calls re = lc" and "full_path re e \<noteq> temporary_path re" and "\<not> fo_inPlace fo"
  shows "runs (loc (holding c)) (RestoreFile re fo e) (copy_result re e c) (copy_lost (temporary_path re) (full_path re e) c)"
proof -
  let ?X = "holding c" and ?tmp = "temporary_path re" and ?full = "full_path re e"
  let ?F = "copy_lost ?tmp ?full c"
  have held: "loc ?X s \<Longrightarrow> ?F e s" for e and s :: "('w, 'b) restore_state"
    using holding_untouched(1) by (auto simp: copy_lost_def loc_def)
  have open_file: "runs (loc ?X) (open_existing re fo e) (\<lambda>_. loc ?X) ?F"
    unfolding open_existing_def using assms(3)
    by (intro runs_bind [OF runs_local_get]) (auto split: option.splits intro!: runs_return elim: loc_mono)
  have split: "runs (loc ?X) (split_existing re fo ex_ist new e) (\<lambda>r s. loc ?X s \<and> (\<exists>ex. r = Inr ex)) ?F" for ex_ist new
    unfolding split_existing_def using assms(3)
    by (auto intro!: runs_return runs_bind [OF runs_exn [OF runs_split_by_content held]])
  have writes: "runs (loc ?X) (bind_st (on_downloader m1) (\<lambda>_. bind_st (on_downloader m2) (\<lambda>_.
       if fo_inPlace fo then write_in_place re fo ex_ist ex e else write_copy re fo ex_ist ex e)))
      (copy_result re e c) ?F" for m1 m2 ex_ist ex
    unfolding if_not_P [OF assms(3)]
    by (intro runs_bind [OF runs_exn [OF runs_downloader held]] runs_write_copy [OF assms(1) refl refl assms(2)])
  have rest: "runs (\<lambda>s. loc ?X s \<and> (\<exists>ex. r = Inr ex)) (case r of Inl result \<Rightarrow> return_st result
      | Inr ex \<Rightarrow> bind_st (on_downloader (for_each [StartChunk e..EndChunk e] (mark_needed ex))) (\<lambda>_.
          bind_st (on_downloader (Prefetch (re_download re) e)) (\<lambda>_.
            if fo_inPlace fo then write_in_place re fo ex_ist ex e else write_copy re fo ex_ist ex e)))
      (copy_result re e c) ?F" for r ex_ist
  proof (cases r)
    case (Inl x)
    then show ?thesis by (simp add: runs_def)
  next
    case (Inr ex)
    show ?thesis unfolding Inr sum.case by (rule runs_pre [OF writes]) simp
  qed
  show ?thesis
    unfolding RestoreFile_def
  proof (rule runs_defer)
    show "runs (loc ?X) (bind_st (open_existing re fo e) (\<lambda>(exists, isNewFile).
        bind_st (split_existing re fo exists isNewFile e) (\<lambda>r.
          case r of
            Inl result \<Rightarrow> return_st result
          | Inr ex \<Rightarrow>
              bind_st (on_downloader (for_each [StartChunk e..EndChunk e] (mark_needed ex))) (\<lambda>_.
              bind_st (on_downloader (Prefetch (re_download re) e)) (\<lambda>_.
                if fo_inPlace fo then write_in_place re fo exists ex e else write_copy re fo exists ex e)))))
      (copy_result re e c) ?F"
      by (rule runs_bind [OF open_file]) (auto intro: runs_bind [OF split rest])
    have kept: "loc (untouched ?tmp d) (snd (remove_temporary re e s))" if "loc (untouched ?tmp d) s" for d s
      using keeps_remove_temporary [OF assms(1) refl] that unfolding keeps_def by blast
    show "keeps (copy_result re e c x) (remove_temporary re e)" for x
      using kept by (cases x) (fastforce simp: keeps_def copy_result_def split: if_splits)
    show "keeps (?F err) (remove_temporary re e)" for err
      using kept by (auto simp: keeps_def copy_lost_def)
  qed
qed

section \<open>In place\<close>

definition elsewhere :: "string \<Rightarrow> (string \<Rightarrow> bytes option) \<Rightarrow> 'w \<Rightarrow> bool" where
  "elsewhere full c w \<longleftrightarrow> ok w \<and> (\<forall>q. q \<noteq> full \<longrightarrow> content w q = c q)"

lemma holding_elsewhere: "holding (c(full := x)) w \<Longrightarrow> elsewhere full c w" "holding c w \<Longrightarrow> elsewhere full c w"
  by (auto simp: holding_def elsewhere_def)

text \<open>The file begins with what has been hashed.\<close>

definition placed :: "string \<Rightarrow> (string \<Rightarrow> bytes option) \<Rightarrow> int \<Rightarrow> bytes \<Rightarrow> 'w \<Rightarrow> bool" where
  "placed full c offset hashed w \<longleftrightarrow> ok w \<and> 0 \<le> offset \<and>
     (\<exists>b. content w = c(full \<mapsto> b) \<and> nat offset \<le> length b \<and> hashed = take (nat offset) b)"

lemma placed_elsewhere: "placed full c offset hashed w \<Longrightarrow> elsewhere full c w"
  by (auto simp: placed_def elsewhere_def)

lemma placed_write:
  assumes "placed full c offset hashed w" and "lc_WriteAt lc full offset bs w = (err, w')"
  shows "if err = None then placed full c (offset + int (length bs)) (hashed @ bs) w' else elsewhere full c w'"
proof -
  from assms(1) obtain b where b: "ok w" "0 \<le> offset" "content w = c(full \<mapsto> b)" "nat offset \<le> length b" "hashed = take (nat offset) b"
    by (auto simp: placed_def)
  have "content w full = Some b" using b(3) by simp
  from write_law [OF b(1) this b(2) assms(2)] obtain d where d: "ok w'" "content w' = c(full \<mapsto> d)"
    "err = None \<Longrightarrow> d = write_at b (nat offset) bs" using b(3) by auto
  have "nat (offset + int (length bs)) = nat offset + length bs" using b(2) by simp
  then show ?thesis
    using d b(2,4,5) by (auto simp: placed_def elsewhere_def write_at_def)
qed

lemma placed_read:
  assumes "placed full c offset hashed w" and "lc_ReadAt lc full offset n w = Inr bs" and "0 \<le> n" and "n \<le> int (length bs)"
  shows "placed full c (offset + n) (hashed @ bs) w"
proof -
  from assms(1) obtain b where b: "ok w" "0 \<le> offset" "content w = c(full \<mapsto> b)" "nat offset \<le> length b" "hashed = take (nat offset) b"
    by (auto simp: placed_def)
  have "content w full = Some b" using b(3) by simp
  from read_law [OF b(1) this b(2) assms(2)] have bs: "bs = take (nat n) (drop (nat offset) b)" .
  have "nat (offset + n) = nat offset + nat n" "nat n \<le> length b - nat offset" using b(2) assms(3,4) bs by auto
  then show ?thesis using b bs assms(3) by (auto simp: placed_def take_add)
qed

lemma placed_truncate:
  assumes "placed full c offset hashed w" and "lc_Truncate lc full offset w = (err, w')"
  shows "if err = None then holding (c(full \<mapsto> hashed)) w' else elsewhere full c w'"
proof -
  from assms(1) obtain b where b: "ok w" "0 \<le> offset" "content w = c(full \<mapsto> b)" "nat offset \<le> length b" "hashed = take (nat offset) b"
    by (auto simp: placed_def)
  have "content w full = Some b" using b(3) by simp
  from truncate_law [OF b(1) this b(2) assms(2)] show ?thesis
    using b by (auto simp: holding_def elsewhere_def)
qed

lemma advance_subset: "set (snd (advance offset chunks k)) \<subseteq> set chunks"
  by (induction offset chunks k rule: advance.induct) auto

definition sized :: "(bytes \<times> int) list \<Rightarrow> bool" where
  "sized chunks \<longleftrightarrow> (\<forall>(h, n) \<in> set chunks. 0 < n)"

definition placing :: "string \<Rightarrow> (string \<Rightarrow> bytes option) \<Rightarrow> place_state \<Rightarrow> ('w, 's) restore_state \<Rightarrow> bool" where
  "placing full c ps s \<longleftrightarrow> sized (ps_chunks ps) \<and> loc (placed full c (ps_offset ps) (ps_hashed ps)) s"

lemma loc_place: "loc (placed full c o' h) s \<Longrightarrow> loc (elsewhere full c) s"
  by (rule loc_mono [OF _ placed_elsewhere])

definition placed_or :: "string \<Rightarrow> (string \<Rightarrow> bytes option) \<Rightarrow> goerror + place_state \<Rightarrow> ('w, 's) restore_state \<Rightarrow> bool" where
  "placed_or full c r s = (case r of Inl err \<Rightarrow> loc (elsewhere full c) s | Inr ps \<Rightarrow> placing full c ps s)"

lemma runs_keep_part:
  assumes "re_calls re = lc" and "sized (ps_chunks ps)" and "0 < stop"
  shows "runs (loc (placed full c (ps_offset ps) (ps_hashed ps))) (keep_part re full stop ps) (placed_or full c) (\<lambda>_. loc (elsewhere full c))"
proof -
  let ?X = "placed full c (ps_offset ps) (ps_hashed ps)"
  have "runs (loc (\<lambda>w. ?X w \<and> r = lc_ReadAt (re_calls re) full (ps_offset ps) stop w))
       (case r of Inl err \<Rightarrow> raise_st (LogError ''DOWNLOAD_READ'')
        | Inr bs \<Rightarrow> if int (length bs) < stop then raise_st (LogError ''DOWNLOAD_READ'')
           else return_st (Inr (ps\<lparr>ps_hashed := ps_hashed ps @ bs, ps_offset := ps_offset ps + stop\<rparr>)))
       (placed_or full c) (\<lambda>_. loc (elsewhere full c))" for r
    using assms placed_elsewhere placed_read [of full c "ps_offset ps" "ps_hashed ps" _ stop]
    by (cases r) (auto simp: runs_def raise_st_def return_st_def loc_def placed_or_def placing_def)
  then show ?thesis unfolding keep_part_def by (rule runs_bind [OF runs_local_get])
qed

lemma part_length: "part b start stop = Inr bs \<Longrightarrow> stop - start = int (length bs)"
  by (auto simp: part_def split: if_splits)

lemma runs_fetch_stop:
  "runs (loc X) (fetch_part re i h start (Some stop)) (\<lambda>r s. loc X s \<and> (\<forall>bs. r = Inr bs \<longrightarrow> stop - start = int (length bs))) (\<lambda>_. loc X)"
  unfolding fetch_part_def
  by (intro runs_bind [OF runs_downloader])
    (auto split: option.splits intro!: runs_raise runs_bind [OF runs_chunk_id] runs_return
      runs_bind [of "loc X" _ "\<lambda>bs s. loc X s \<and> stop - start = int (length bs)"] runs_lift elim!: bind_resE dest!: part_length)

lemma runs_write_part:
  assumes "re_calls re = lc" and "sized (ps_chunks ps)"
  shows "runs (loc (placed full c (ps_offset ps) (ps_hashed ps))) (write_part re full i hash start stop ps) (placed_or full c) (\<lambda>_. loc (elsewhere full c))"
proof -
  let ?X = "placed full c (ps_offset ps) (ps_hashed ps)"
  have wr: "runs (loc ?X) (local_call (lc_WriteAt (re_calls re) full (ps_offset ps) bs))
      (\<lambda>err s. if err = None then loc (placed full c (ps_offset ps + int (length bs)) (ps_hashed ps @ bs)) s else loc (elsewhere full c) s)
      (\<lambda>_. loc (elsewhere full c))" for bs
    by (rule runs_post [OF runs_local_call [OF placed_write]]) (auto simp: assms(1) loc_def)
  have "runs (\<lambda>s. loc ?X s \<and> (\<forall>bs. r = Inr bs \<longrightarrow> stop - start = int (length bs)))
      (case r of Inl err \<Rightarrow> return_st (Inl err)
       | Inr bs \<Rightarrow> bind_st (or_raise ''DOWNLOAD_WRITE'' (local_call (lc_WriteAt (re_calls re) full (ps_offset ps) bs))) (\<lambda>_.
           return_st (Inr (ps\<lparr>ps_hashed := ps_hashed ps @ bs, ps_offset := ps_offset ps + (stop - start)\<rparr>))))
      (placed_or full c) (\<lambda>_. loc (elsewhere full c))" for r
  proof (cases r)
    case (Inl err)
    then show ?thesis by (auto intro!: runs_return dest: loc_place simp: placed_or_def)
  next
    case (Inr bs)
    show ?thesis
      unfolding Inr sum.case
    proof (intro runs_pure)
      assume len: "\<forall>b. Inr bs = (Inr b :: goerror + bytes) \<longrightarrow> stop - start = int (length b)"
      show "runs (loc ?X) (bind_st (or_raise ''DOWNLOAD_WRITE'' (local_call (lc_WriteAt (re_calls re) full (ps_offset ps) bs))) (\<lambda>_.
           return_st (Inr (ps\<lparr>ps_hashed := ps_hashed ps @ bs, ps_offset := ps_offset ps + (stop - start)\<rparr>))))
        (placed_or full c) (\<lambda>_. loc (elsewhere full c))"
        by (rule runs_bind [OF runs_or_raise [OF wr] runs_return]) (use len assms(2) in \<open>simp add: placed_or_def placing_def\<close>)
    qed
  qed
  moreover have "runs (loc ?X) (fetch_part re i hash start (Some stop)) (\<lambda>r s. loc ?X s \<and> (\<forall>bs. r = Inr bs \<longrightarrow> stop - start = int (length bs)))
      (\<lambda>_. loc (elsewhere full c))"
    by (rule runs_exn [OF runs_fetch_stop]) (rule loc_place)
  ultimately show ?thesis unfolding write_part_def by (intro runs_bind)
qed

lemma runs_place_chunk:
  assumes "re_calls re = lc" and "full = full_path re e"
  shows "runs (placing full c ps) (place_chunk re e i ps) (placed_or full c) (\<lambda>_. loc (elsewhere full c))"
proof -
  obtain k chunks where adv: "advance (ps_offset ps) (ps_chunks ps) (ps_existingOffset ps) = (k, chunks)" by force
  let ?ps = "ps\<lparr>ps_existingOffset := k, ps_chunks := chunks\<rparr>"
  let ?X = "loc (placed full c (ps_offset ps) (ps_hashed ps))"
  let ?part = "\<lambda>hash start stop. if ps_offset ?ps < 0 then raise_st (LogError ''DOWNLOAD_SEEK'')
     else if k = ps_offset ?ps \<and> start = 0 \<and> chunks \<noteq> [] \<and> hd chunks = (hash, stop)
     then keep_part re full stop ?ps else write_part re full i hash start stop ?ps"
  have part: "runs ?X (?part hash start stop) (placed_or full c) (\<lambda>_. loc (elsewhere full c))" if "sized chunks" for hash start stop
  proof (intro runs_if)
    show "runs ?X (raise_st (LogError ''DOWNLOAD_SEEK'')) (placed_or full c) (\<lambda>_. loc (elsewhere full c))"
      by (rule runs_raise) (rule loc_place)
    show "runs ?X (keep_part re full stop ?ps) (placed_or full c) (\<lambda>_. loc (elsewhere full c))"
      if "k = ps_offset ?ps \<and> start = 0 \<and> chunks \<noteq> [] \<and> hd chunks = (hash, stop)"
    proof -
      have "(hash, stop) \<in> set chunks" using that by (metis hd_in_set)
      with \<open>sized chunks\<close> have "0 < stop" by (auto simp: sized_def)
      with runs_keep_part [OF assms(1), of ?ps stop full c] \<open>sized chunks\<close> show ?thesis by simp
    qed
    show "runs ?X (write_part re full i hash start stop ?ps) (placed_or full c) (\<lambda>_. loc (elsewhere full c))"
      using runs_write_part [OF assms(1), of ?ps full c i hash start stop] that by simp
  qed
  have body: "runs ?X (place_chunk re e i ps) (placed_or full c) (\<lambda>_. loc (elsewhere full c))" if "sized chunks"
    unfolding place_chunk_def adv Let_def prod.case assms(2) [symmetric]
  proof (rule runs_bind [OF runs_exn [OF runs_downloader loc_place]])
    fix t
    show "runs ?X (case chunk_part e i t of (start, stop) \<Rightarrow> ?part (dt_chunkHash t) start stop) (placed_or full c) (\<lambda>_. loc (elsewhere full c))"
      by (cases "chunk_part e i t") (use part [OF that] in \<open>simp only: prod.case\<close>)
  qed
  have sub: "sized chunks" if "sized (ps_chunks ps)"
    using that advance_subset [of "ps_offset ps" "ps_chunks ps" "ps_existingOffset ps"] by (auto simp: adv sized_def)
  show ?thesis
  proof (cases "sized (ps_chunks ps)")
    case True
    show ?thesis by (rule runs_pre [OF body [OF sub [OF True]]]) (simp add: placing_def)
  qed (simp add: placing_def runs_def)
qed

lemma start_placed: "elsewhere full c w \<Longrightarrow> content w full = Some b \<Longrightarrow> placed full c 0 [] w"
  by (auto simp: elsewhere_def placed_def fun_eq_iff)

lemma runs_open_in_place:
  assumes "re_calls re = lc" and "full = full_path re e"
  shows "runs (loc (elsewhere full c)) (open_in_place re ex_ist e) (\<lambda>_. loc (placed full c 0 [])) (\<lambda>_. loc (elsewhere full c))"
proof -
  have "runs (loc (elsewhere full c)) (on_local (get_st (lc_OpenRDWR (re_calls re) (full_path re e))))
      (\<lambda>err s. if err = None then loc (placed full c 0 []) s else loc (elsewhere full c) s) (\<lambda>_. loc (elsewhere full c))"
    using assms rdwr_law start_placed
    by (intro runs_post [OF runs_local_get]) (fastforce simp: loc_def elsewhere_def)
  moreover have "runs (loc (elsewhere full c)) (local_call (lc_Create (re_calls re) (full_path re e)))
      (\<lambda>err s. if err = None then loc (placed full c 0 []) s else loc (elsewhere full c) s) (\<lambda>_. loc (elsewhere full c))"
  proof (rule runs_post [OF runs_local_call [where Y = "\<lambda>err w. if err = None then placed full c 0 [] w else elsewhere full c w"]])
    fix w err w'
    assume w: "elsewhere full c w" "lc_Create (re_calls re) (full_path re e) w = (err, w')"
    show "if err = None then placed full c 0 [] w' else elsewhere full c w'"
      using w create_law [of w full err w'] assms start_placed [of full c w' "[]"] by (auto simp: elsewhere_def)
  qed (simp add: loc_def split: if_splits)
  ultimately show ?thesis unfolding open_in_place_def by (auto intro: runs_or_raise)
qed

definition place_result :: "('w, 's) restore_env \<Rightarrow> entry \<Rightarrow> (string \<Rightarrow> bytes option) \<Rightarrow> restored \<Rightarrow> ('w, 's) restore_state \<Rightarrow> bool" where
  "place_result re e c = (\<lambda>(downloaded, err) s.
     if downloaded then err = None \<and> (\<exists>b. right_hash re e b \<and> loc (holding (c(full_path re e \<mapsto> b))) s)
     else loc (elsewhere (full_path re e) c) s)"

lemma runs_write_in_place:
  assumes "re_calls re = lc" and "sized (ex_chunks ex)"
  shows "runs (loc (elsewhere (full_path re e) c)) (write_in_place re fo ex_ist ex e) (place_result re e c) (\<lambda>_. loc (elsewhere (full_path re e) c))"
proof -
  let ?full = "full_path re e"
  let ?F = "\<lambda>_. loc (elsewhere (full_path re e) c)"
  have flags: "runs (loc (placed ?full c 0 [])) (early_flags re fo ?full e) (\<lambda>_. loc (placed ?full c 0 [])) ?F"
    by (rule runs_exn [OF runs_early_flags [OF assms(1)]]) (auto simp: placed_def intro: loc_place)
  have chunks: "runs (placing ?full c ps) (until_error (place_chunk re e) xs ps) (placed_or ?full c) ?F" for ps xs
    unfolding placed_or_def [abs_def]
    by (rule runs_until_error) (rule runs_place_chunk [OF assms(1) refl, unfolded placed_or_def [abs_def]])
  have check: "runs (loc (holding (c(?full \<mapsto> b)))) (bind_st (check_hash re fo e b) (\<lambda>err. return_st (if err = None then (True, None) else (False, err))))
      (place_result re e c) ?F" for b
  proof (rule runs_bind [OF runs_exn [OF check_hash_result]])
    show "loc (elsewhere ?full c) s" if "loc (holding (c(?full \<mapsto> b))) s" for s
      using that by (rule loc_mono) (rule holding_elsewhere(1))
    then show "runs (\<lambda>s. loc (holding (c(?full \<mapsto> b))) s \<and> (err = None \<longrightarrow> (let h = hex_encode (re_fileHash re b) in h = Hash e \<or> h = [] \<or> Hash e = [] \<or> HasPrefix (Hash e) ''#'')))
        (return_st (if err = None then (True, None) else (False, err))) (place_result re e c) ?F" for err
      by (intro runs_return) (auto simp: place_result_def right_hash_def simp del: fun_upd_apply)
  qed
  have finish: "runs (loc (placed ?full c n b)) (bind_st (or_raise ''DOWNLOAD_TRUNCATE'' (local_call (lc_Truncate (re_calls re) ?full n)))
      (\<lambda>_. bind_st (check_hash re fo e b) (\<lambda>err. return_st (if err = None then (True, None) else (False, err))))) (place_result re e c) ?F" for n b
  proof (rule runs_bind [OF runs_or_raise check], rule runs_post [OF runs_local_call])
    show "if err = None then holding (c(?full \<mapsto> b)) w' else elsewhere ?full c w'"
      if "placed ?full c n b w" "lc_Truncate (re_calls re) ?full n w = (err, w')" for w err w'
      using placed_truncate that assms(1) by simp
  qed (simp add: loc_def)
  have rest: "runs (placed_or ?full c r)
      (case r of Inl err \<Rightarrow> return_st (False, Some err)
       | Inr ps \<Rightarrow> bind_st (or_raise ''DOWNLOAD_TRUNCATE'' (local_call (lc_Truncate (re_calls re) ?full (ps_offset ps))))
          (\<lambda>_. bind_st (check_hash re fo e (ps_hashed ps)) (\<lambda>err. return_st (if err = None then (True, None) else (False, err)))))
      (place_result re e c) ?F" for r
  proof (cases r)
    case (Inl err)
    then show ?thesis by (auto simp: placed_or_def [abs_def] place_result_def intro: runs_return)
  next
    case (Inr ps)
    show ?thesis unfolding Inr sum.case by (rule runs_pre [OF finish]) (simp add: placed_or_def placing_def)
  qed
  have start: "runs (loc (placed ?full c 0 [])) (until_error (place_chunk re e) xs \<lparr>ps_chunks = ex_chunks ex, ps_offset = 0, ps_existingOffset = 0, ps_hashed = []\<rparr>)
      (placed_or ?full c) ?F" for xs
    by (rule runs_pre [OF chunks]) (simp add: placing_def assms(2))
  show ?thesis
    unfolding write_in_place_def
    by (rule runs_bind [OF runs_open_in_place [OF assms(1) refl] runs_bind [OF flags runs_bind [OF start rest]]])
qed

lemma runs_fold_inv:
  assumes "\<And>x b. x \<in> set xs \<Longrightarrow> I b \<Longrightarrow> runs P (f x b) (\<lambda>b s. P s \<and> I b) F" and "I b"
  shows "runs P (fold_st f xs b) (\<lambda>b s. P s \<and> I b) F"
  using assms
proof (induction xs arbitrary: b)
  case Nil
  then show ?case unfolding fold_st.simps by (intro runs_return) simp
next
  case (Cons x xs)
  have "runs (\<lambda>s. P s \<and> I y) (fold_st f xs y) (\<lambda>b s. P s \<and> I b) F" for y
    by (rule runs_pure) (rule Cons.IH [OF Cons.prems(1)], auto)
  with Cons.prems show ?case unfolding fold_st.simps by (intro runs_bind) auto
qed

text \<open>The sizes that are noted are positive.\<close>

definition split_inv :: "split_state \<Rightarrow> bool" where
  "split_inv sp \<longleftrightarrow> sized (ex_chunks (sp_existing sp)) \<and> (\<forall>n h. map_of (sp_knownHashes sp) n = Some h \<longrightarrow> 0 < n)"

lemma sized_note: "sized (ex_chunks ex) \<Longrightarrow> 0 < n \<Longrightarrow> sized (ex_chunks (note_chunk h n ex))"
  by (simp add: sized_def note_chunk_def)

lemma runs_read_part: "runs (loc X) (read_part re p i n) (\<lambda>bs s. loc X s \<and> (bs \<noteq> [] \<longrightarrow> 0 < n)) (\<lambda>_. loc X)"
proof -
  have "runs (loc (\<lambda>w. X w \<and> r = f w)) (case r of Inl err \<Rightarrow> raise_st (LogError ''DOWNLOAD_SPLIT'') | Inr bs \<Rightarrow> return_st bs)
      (\<lambda>bs s. loc X s) (\<lambda>_. loc X)" for r f
    by (cases r) (auto simp: loc_def [abs_def] intro!: runs_raise runs_return)
  then have "runs (loc X) (bind_st (on_local (get_st (lc_ReadAt (re_calls re) p i n))) (\<lambda>r.
      case r of Inl err \<Rightarrow> raise_st (LogError ''DOWNLOAD_SPLIT'') | Inr bs \<Rightarrow> return_st bs)) (\<lambda>bs s. loc X s) (\<lambda>_. loc X)"
    by (rule runs_bind [OF runs_local_get])
  then show ?thesis
    unfolding read_part_def by (auto intro!: runs_return intro: runs_post)
qed

lemma runs_split_step:
  assumes "split_inv sp"
  shows "runs (loc X) (split_step re isNew e i sp) (\<lambda>sp s. loc X s \<and> split_inv sp) (\<lambda>_. loc X)"
proof -
  let ?Q = "\<lambda>sp s. loc X s \<and> split_inv sp"
  have known: "runs (loc X) (return_st (sp\<lparr>sp_existing := note_chunk hash n (sp_existing sp), sp_isSkipped := True\<rparr>)) ?Q (\<lambda>_. loc X)"
    if "(if isNew then map_of (sp_knownHashes sp) n else None) = Some hash" for n hash
    using that assms by (intro runs_return) (auto simp: split_inv_def sized_note split: if_splits)
  have parted: "runs (loc X) (bind_st (read_part re p position n) (\<lambda>bs. return_st (note_part isNew hasher position n sp bs))) ?Q (\<lambda>_. loc X)"
    for p position n hasher
    using assms by (intro runs_bind [OF runs_read_part] runs_return) (auto simp: note_part_def split_inv_def sized_note update_conv' split: if_splits)
  have step: "runs (loc X)
      (case k of Some hash \<Rightarrow> return_st (sp\<lparr>sp_existing := note_chunk hash n (sp_existing sp), sp_isSkipped := True\<rparr>)
       | None \<Rightarrow> if sp_isSkipped sp \<and> ex_offset (sp_existing sp) < 0 then raise_st (LogError ''DOWNLOAD_SEEK'')
           else bind_st (read_part re p (position) n) (\<lambda>bs. return_st (note_part isNew hasher position n sp bs)))
      ?Q (\<lambda>_. loc X)" if "k = (if isNew then map_of (sp_knownHashes sp) n else None)" for k n p position hasher
  proof (cases k)
    case None
    show ?thesis unfolding None option.case by (intro runs_if runs_raise parted)
  next
    case (Some hash)
    show ?thesis unfolding Some option.case by (rule known) (use that Some in simp)
  qed
  show ?thesis
    unfolding split_step_def Let_def
    by (intro runs_bind [of _ _ "\<lambda>_. loc X"] runs_lift runs_bind [OF runs_downloader step]) simp_all
qed

definition split_result :: "file_options \<Rightarrow> bool \<Rightarrow> restored + existing \<Rightarrow> bool" where
  "split_result fo isNew r \<longleftrightarrow>
     (case r of Inl (d, err) \<Rightarrow> \<not> d | Inr ex \<Rightarrow> sized (ex_chunks ex) \<and> (fo_overwrite fo \<or> isNew))"

lemma runs_split_in_place:
  "runs (loc X) (split_in_place re fo isNew e) (\<lambda>r s. loc X s \<and> split_result fo isNew r) (\<lambda>_. loc X)"
proof -
  have fold: "runs (loc X) (fold_st (split_step re isNew e) xs start_split) (\<lambda>sp s. loc X s \<and> split_inv sp) (\<lambda>_. loc X)" for xs
    by (rule runs_fold_inv [of _ split_inv, OF runs_split_step])
      (simp_all add: split_inv_def start_split_def no_existing_def sized_def)
  have warn: "runs (\<lambda>s. loc X s \<and> I) (bind_st (LOG_WERROR b logID) (\<lambda>_. return_st (Inl (False, err))))
      (\<lambda>r s. loc X s \<and> split_result fo isNew r) (\<lambda>_. loc X)" for b logID err I
    by (auto simp: runs_def LOG_WERROR_def bind_st_def return_st_def raise_st_def split_result_def)
  have stop: "runs (\<lambda>s. loc X s \<and> I) (return_st (Inl (False, None))) (\<lambda>r s. loc X s \<and> split_result fo isNew r) (\<lambda>_. loc X)" for I
    by (rule runs_return) (simp add: split_result_def)
  have go: "runs (\<lambda>s. loc X s \<and> split_inv sp) (return_st (Inr (sp_existing sp))) (\<lambda>r s. loc X s \<and> split_result fo isNew r) (\<lambda>_. loc X)"
    if "\<not> (\<not> fo_overwrite fo \<and> \<not> isNew)" for sp
    using that by (intro runs_return) (simp add: split_result_def split_inv_def)
  show ?thesis
    unfolding split_in_place_def Let_def by (rule runs_bind [OF fold]) (intro runs_if stop warn go)
qed

text \<open>Opening: a new sparse file is the only change.\<close>

lemma runs_create_sparse:
  assumes "re_calls re = lc" and "0 \<le> Size e - 2"
  shows "runs (loc (holding c)) (create_sparse re fo e) (\<lambda>_. loc (elsewhere (full_path re e) c)) (\<lambda>_. loc (elsewhere (full_path re e) c))"
proof -
  let ?full = "full_path re e"
  have weak: "loc (holding (c(?full \<mapsto> b))) s \<Longrightarrow> loc (elsewhere ?full c) s" for b s
    by (rule loc_mono [OF _ holding_elsewhere(1)])
  have create: "runs (loc (holding c)) (local_call (lc_Create (re_calls re) ?full))
      (\<lambda>err s. if err = None then loc (holding (c(?full \<mapsto> []))) s else loc (elsewhere ?full c) s) (\<lambda>_. loc (elsewhere ?full c))"
  proof (rule runs_post [OF runs_local_call [where Y = "\<lambda>err w. if err = None then holding (c(?full \<mapsto> [])) w else elsewhere ?full c w"]])
    fix w err w'
    assume w: "holding c w" "lc_Create (re_calls re) ?full w = (err, w')"
    show "if err = None then holding (c(?full \<mapsto> [])) w' else elsewhere ?full c w'"
      using w create_law [of w ?full err w'] assms by (auto simp: elsewhere_def holding_def)
  qed (simp add: loc_def split: if_splits)
  have flags: "runs (loc (holding (c(?full \<mapsto> [])))) (early_flags re fo ?full e) (\<lambda>_. loc (holding (c(?full \<mapsto> [])))) (\<lambda>_. loc (elsewhere ?full c))"
    by (rule runs_exn [OF runs_early_flags [OF assms(1)]]) (auto simp: holding_def intro: weak)
  have wr: "runs (loc (holding (c(?full \<mapsto> [])))) (local_call (lc_WriteAt (re_calls re) ?full (Size e - n) bs))
      (\<lambda>err. loc (elsewhere ?full c)) (\<lambda>_. loc (elsewhere ?full c))" if "n \<le> 2" for n bs
  proof (rule runs_local_call)
    fix w err w'
    assume w: "holding (c(?full \<mapsto> [])) w" "lc_WriteAt (re_calls re) ?full (Size e - n) bs w = (err, w')"
    then show "elsewhere ?full c w'"
      using write_law [of w ?full "[]" "Size e - n" bs err w'] that assms by (auto simp: elsewhere_def holding_def)
  qed
  have opened: "runs (loc (elsewhere ?full c)) (or_raise ''DOWNLOAD_OPEN'' (on_local (get_st (lc_Open (re_calls re) ?full))))
      (\<lambda>_. loc (elsewhere ?full c)) (\<lambda>_. loc (elsewhere ?full c))"
    by (rule runs_or_raise) (rule runs_post [OF runs_local_get], auto elim: loc_mono)
  have wr': "runs (loc (holding (c(?full \<mapsto> [])))) (or_raise ''DOWNLOAD_CREATE'' (local_call (lc_WriteAt (re_calls re) ?full (Size e - n) bs)))
      (\<lambda>_. loc (elsewhere ?full c)) (\<lambda>_. loc (elsewhere ?full c))" if "n \<le> 2" for n bs
    by (rule runs_or_raise) (rule runs_post [OF wr [OF that]], auto)
  show ?thesis
    unfolding create_sparse_def Let_def
    by (rule runs_bind [OF runs_or_raise [OF create] runs_bind [OF flags runs_bind [OF wr' opened]]]) simp
qed

lemma runs_open_existing:
  assumes "re_calls re = lc"
  shows "runs (loc (holding c)) (open_existing re fo e)
    (\<lambda>(ex_ist, isNew) s. loc (elsewhere (full_path re e) c) s \<and> (\<not> isNew \<longrightarrow> loc (holding c) s)) (\<lambda>_. loc (elsewhere (full_path re e) c))"
proof -
  let ?full = "full_path re e"
  let ?Q = "\<lambda>(ex_ist, isNew) s. loc (elsewhere ?full c) s \<and> (\<not> isNew \<longrightarrow> loc (holding c) s)"
  have pre: "loc (\<lambda>w. holding c w \<and> A w) s \<Longrightarrow> loc (elsewhere ?full c) s \<and> loc (holding c) s" for A s
    by (auto simp: loc_def holding_def elsewhere_def)
  have fin: "runs (loc (\<lambda>w. holding c w \<and> A w)) (return_st (b, False)) ?Q (\<lambda>_. loc (elsewhere ?full c))" for A b
    by (rule runs_return) (use pre in fastforce)
  have sparse: "runs (loc (\<lambda>w. holding c w \<and> A w)) (bind_st (create_sparse re fo e) (\<lambda>_. return_st (True, True))) ?Q (\<lambda>_. loc (elsewhere ?full c))"
    if "100 * 1024 * 1024 < Size e" for A
    by (rule runs_pre [OF runs_bind [OF runs_create_sparse [OF assms] runs_return]]) (use that pre in \<open>auto dest: pre\<close>)
  have "runs (loc (\<lambda>w. holding c w \<and> err = f w)) (case err of None \<Rightarrow> return_st (True, False)
      | Some err \<Rightarrow> if err = ENOENT \<and> fo_inPlace fo \<and> 100 * 1024 * 1024 < Size e
          then bind_st (create_sparse re fo e) (\<lambda>_. return_st (True, True)) else return_st (False, False)) ?Q (\<lambda>_. loc (elsewhere ?full c))" for err f
  proof (cases err)
    case None
    show ?thesis unfolding None option.case by (rule fin)
  next
    case (Some n)
    show ?thesis unfolding Some option.case by (intro runs_if sparse fin) simp
  qed
  then show ?thesis unfolding open_existing_def by (rule runs_bind [OF runs_local_get])
qed

lemma runs_open_there:
  "runs (loc (\<lambda>w. X w \<and> lc_Open (re_calls re) (full_path re e) w = None)) (open_existing re fo e)
    (\<lambda>r s. loc X s \<and> r = (True, False)) (\<lambda>_. loc X)"
  by (auto simp: runs_def open_existing_def bind_st_def on_local_def zoom_def get_st_def return_st_def loc_def split: option.splits)

text \<open>The file may have changed, everything else but the temporary file has not.\<close>

definition beside :: "string \<Rightarrow> string \<Rightarrow> (string \<Rightarrow> bytes option) \<Rightarrow> ('w, 's) restore_state \<Rightarrow> bool" where
  "beside tmp full c s \<longleftrightarrow> (\<exists>x. loc (untouched tmp (c(full := x))) s)"

lemma elsewhere_beside: "loc (elsewhere full c) s \<Longrightarrow> beside tmp full c s"
proof -
  assume "loc (elsewhere full c) s"
  then have "loc (untouched tmp (c(full := content (rs_local s) full))) s"
    by (auto simp: loc_def elsewhere_def untouched_def)
  then show ?thesis unfolding beside_def by blast
qed

definition in_place_result :: "('w, 's) restore_env \<Rightarrow> entry \<Rightarrow> (string \<Rightarrow> bytes option) \<Rightarrow> restored \<Rightarrow> ('w, 's) restore_state \<Rightarrow> bool" where
  "in_place_result re e c = (\<lambda>(downloaded, err) s.
     if downloaded then err = None \<and> (\<exists>b. right_hash re e b \<and> loc (untouched (temporary_path re) (c(full_path re e \<mapsto> b))) s)
     else beside (temporary_path re) (full_path re e) c s)"

lemma place_in_place: "place_result re e c r s \<Longrightarrow> in_place_result re e c r s"
  using elsewhere_beside holding_untouched(1)
  by (cases r) (auto simp: place_result_def in_place_result_def elim!: loc_mono split: if_splits)

lemma keeps_in_place:
  assumes "re_calls re = lc"
  shows "keeps (beside (temporary_path re) full c) (remove_temporary re e)" and "keeps (in_place_result re e c r) (remove_temporary re e)"
proof -
  have kept: "loc (untouched (temporary_path re) d) (snd (remove_temporary re e s))" if "loc (untouched (temporary_path re) d) s" for d s
    using keeps_remove_temporary [OF assms refl] that unfolding keeps_def by blast
  show beside: "keeps (beside (temporary_path re) full c) (remove_temporary re e)" for full c
    unfolding keeps_def beside_def using kept by blast
  obtain downloaded err where r: "r = (downloaded, err)" by force
  show "keeps (in_place_result re e c r) (remove_temporary re e)"
  proof (cases downloaded)
    case True
    then show ?thesis unfolding keeps_def in_place_result_def r prod.case using kept by auto
  next
    case False
    then show ?thesis using beside unfolding keeps_def in_place_result_def r prod.case by simp
  qed
qed

lemma runs_write_to_place:
  assumes "re_calls re = lc" and "sized (ex_chunks ex)"
  shows "runs (loc (elsewhere (full_path re e) c)) (bind_st (on_downloader m1) (\<lambda>_. bind_st (on_downloader m2) (\<lambda>_.
      write_in_place re fo ex_ist ex e))) (place_result re e c) (\<lambda>_. loc (elsewhere (full_path re e) c))"
  by (intro runs_bind [OF runs_downloader] runs_write_in_place [OF assms])

lemma runs_RestoreFile_in_place:
  assumes "re_calls re = lc" and "full_path re e \<noteq> temporary_path re" and "fo_inPlace fo"
  shows "runs (loc (holding c)) (RestoreFile re fo e) (in_place_result re e c) (\<lambda>_. beside (temporary_path re) (full_path re e) c)"
proof -
  let ?full = "full_path re e" and ?tmp = "temporary_path re"
  let ?F = "\<lambda>_. loc (elsewhere ?full c)"
  have split: "runs (loc (elsewhere ?full c)) (split_existing re fo ex_ist new e)
      (\<lambda>r s. loc (elsewhere ?full c) s \<and> (case r of Inl (d, err) \<Rightarrow> \<not> d | Inr ex \<Rightarrow> sized (ex_chunks ex))) ?F" for ex_ist new
    unfolding split_existing_def using assms(3)
    by (auto simp: no_existing_def sized_def split_result_def intro!: runs_return runs_post [OF runs_split_in_place] split: sum.splits)
  have rest: "runs (\<lambda>s. loc (elsewhere ?full c) s \<and> (case r of Inl (d, err) \<Rightarrow> \<not> d | Inr ex \<Rightarrow> sized (ex_chunks ex)))
      (case r of Inl result \<Rightarrow> return_st result
       | Inr ex \<Rightarrow> bind_st (on_downloader (for_each [StartChunk e..EndChunk e] (mark_needed ex))) (\<lambda>_.
          bind_st (on_downloader (Prefetch (re_download re) e)) (\<lambda>_.
            if fo_inPlace fo then write_in_place re fo ex_ist ex e else write_copy re fo ex_ist ex e)))
      (place_result re e c) ?F" for r ex_ist
  proof (cases r)
    case (Inl x)
    then show ?thesis by (cases x) (auto simp: place_result_def intro!: runs_return)
  next
    case (Inr ex)
    show ?thesis
      unfolding Inr sum.case using assms(3) by (intro runs_pure) (simp add: runs_write_to_place [OF assms(1)])
  qed
  have opened: "runs (loc (holding c)) (open_existing re fo e) (\<lambda>_. loc (elsewhere ?full c)) ?F"
    by (rule runs_post [OF runs_open_existing [OF assms(1)]]) auto
  have body: "runs (loc (holding c)) (bind_st (open_existing re fo e) (\<lambda>(exists, isNewFile).
        bind_st (split_existing re fo exists isNewFile e) (\<lambda>r.
          case r of
            Inl result \<Rightarrow> return_st result
          | Inr ex \<Rightarrow>
              bind_st (on_downloader (for_each [StartChunk e..EndChunk e] (mark_needed ex))) (\<lambda>_.
              bind_st (on_downloader (Prefetch (re_download re) e)) (\<lambda>_.
                if fo_inPlace fo then write_in_place re fo exists ex e else write_copy re fo exists ex e)))))
      (place_result re e c) ?F"
    by (rule runs_bind [OF opened]) (auto intro: runs_bind [OF split rest])
  show ?thesis
    unfolding RestoreFile_def
  proof (rule runs_defer)
    show "keeps (in_place_result re e c x) (remove_temporary re e)" for x by (rule keeps_in_place [OF assms(1)])
    show "keeps (beside ?tmp ?full c) (remove_temporary re e)" by (rule keeps_in_place [OF assms(1)])
  qed (rule runs_exn [OF runs_post [OF body place_in_place] elsewhere_beside])
qed

lemma runs_RestoreFile_kept:
  assumes "re_calls re = lc" and "fo_inPlace fo" and "\<not> fo_overwrite fo"
  shows "runs (loc (\<lambda>w. holding c w \<and> lc_Open lc (full_path re e) w = None)) (RestoreFile re fo e)
    (\<lambda>(downloaded, err) s. \<not> downloaded \<and> loc (untouched (temporary_path re) c) s) (\<lambda>_. loc (untouched (temporary_path re) c))"
proof -
  have split: "runs (loc (holding c)) (split_existing re fo True False e)
      (\<lambda>r s. loc (holding c) s \<and> (\<exists>err. r = Inl (False, err))) (\<lambda>_. loc (holding c))"
    unfolding split_existing_def using assms(2,3)
    by (auto simp: split_result_def intro!: runs_post [OF runs_split_in_place] split: sum.splits)
  have rest: "runs (\<lambda>s. loc (holding c) s \<and> (\<exists>err. r = Inl (False, err))) (case r of Inl result \<Rightarrow> return_st result | Inr ex \<Rightarrow> f ex)
      (\<lambda>(downloaded, err) s. \<not> downloaded \<and> loc (holding c) s) (\<lambda>_. loc (holding c))" for r f
    by (cases r) (auto simp: runs_def return_st_def)
  have body: "runs (\<lambda>s. loc (holding c) s \<and> x = (True, False)) (case x of (exists, isNewFile) \<Rightarrow>
        bind_st (split_existing re fo exists isNewFile e) (\<lambda>r. case r of Inl result \<Rightarrow> return_st result | Inr ex \<Rightarrow> f exists ex))
      (\<lambda>(downloaded, err) s. \<not> downloaded \<and> loc (holding c) s) (\<lambda>_. loc (holding c))" for x f
    by (rule runs_pure) (auto intro: runs_bind [OF split rest])
  have kept: "keeps (loc (untouched (temporary_path re) c)) (remove_temporary re e)"
    by (rule keeps_remove_temporary [OF assms(1) refl])
  have weak: "loc (holding c) s \<Longrightarrow> loc (untouched (temporary_path re) c) s" for s
    by (erule loc_mono) (rule holding_untouched(1))
  show ?thesis
    unfolding RestoreFile_def assms(1) [symmetric]
  proof (rule runs_defer)
    show "keeps (case x of (downloaded, err) \<Rightarrow> \<lambda>s. \<not> downloaded \<and> loc (untouched (temporary_path re) c) s) (remove_temporary re e)" for x
      using kept by (cases x) (auto simp: keeps_def)
  qed (use kept in \<open>auto intro!: runs_exn [OF runs_post [OF runs_bind [OF runs_open_there body]]] dest: weak\<close>)
qed

end

section \<open>Files of a POSIX system\<close>

text \<open>The directory tree with the attributes of the files. A path is absolute; its components are those between
  the slashes.\<close>

record local_disk =
  ld_files :: files
  ld_meta :: "string \<Rightarrow> file_meta"

definition on_meta :: "string \<Rightarrow> (file_meta \<Rightarrow> 'a \<times> file_meta) \<Rightarrow> local_disk \<Rightarrow> 'a \<times> local_disk" where
  "on_meta p f w = (case f (ld_meta w p) of (x, m) \<Rightarrow> (x, w\<lparr>ld_meta := (ld_meta w)(p := m)\<rparr>))"

definition disk_file :: "string \<Rightarrow> local_disk file_calls" where
  "disk_file p = \<lparr>
     fc_LList = (\<lambda>w. fc_LList posix_calls (ld_meta w p)),
     fc_LGet = (\<lambda>name w. fc_LGet posix_calls name (ld_meta w p)),
     fc_LSet = (\<lambda>name v. on_meta p (fc_LSet posix_calls name v)),
     fc_LRemove = (\<lambda>name. on_meta p (fc_LRemove posix_calls name)),
     fc_open = (\<lambda>w. fc_open posix_calls (ld_meta w p)),
     fc_GetFlags = (\<lambda>w. fc_GetFlags posix_calls (ld_meta w p)),
     fc_SetFlags = (\<lambda>v. on_meta p (fc_SetFlags posix_calls v)),
     fc_Lstat = (\<lambda>w. fc_Lstat posix_calls (ld_meta w p)),
     fc_Lchown = (\<lambda>uid gid. on_meta p (fc_Lchown posix_calls uid gid)),
     fc_Chmod = (\<lambda>mode. on_meta p (fc_Chmod posix_calls mode)),
     fc_Chtimes = (\<lambda>t. on_meta p (fc_Chtimes posix_calls t))\<rparr>"

definition on_files :: "(files \<Rightarrow> errno + files) \<Rightarrow> local_disk \<Rightarrow> errno option \<times> local_disk" where
  "on_files f w = (case f (ld_files w) of Inl err \<Rightarrow> (Some err, w) | Inr fs \<Rightarrow> (None, w\<lparr>ld_files := fs\<rparr>))"

definition error_of :: "errno + 'a \<Rightarrow> errno option" where
  "error_of r = (case r of Inl err \<Rightarrow> Some err | Inr x \<Rightarrow> None)"

text \<open>A change of the content of a file that is there.\<close>

definition os_change :: "path \<Rightarrow> (bytes \<Rightarrow> bytes) \<Rightarrow> files \<Rightarrow> errno + files" where
  "os_change p f fs = (case os_read p fs of Inl err \<Rightarrow> Inl err | Inr b \<Rightarrow> os_write p (f b) fs)"

definition disk_calls :: "local_disk local_calls" where
  "disk_calls = \<lparr>
     lc_Open = (\<lambda>p w. error_of (stat (ld_files w) (split_slash p))),
     lc_OpenRDWR = (\<lambda>p w. error_of (os_read (split_slash p) (ld_files w))),
     lc_Create = (\<lambda>p. on_files (os_write (split_slash p) [])),
     lc_ReadAt = (\<lambda>p i n w. case os_read (split_slash p) (ld_files w) of
        Inl err \<Rightarrow> Inl (GoErr ''read'') | Inr b \<Rightarrow> Inr (take (nat n) (drop (nat i) b))),
     lc_reader = (\<lambda>p w. case os_read (split_slash p) (ld_files w) of
        Inl err \<Rightarrow> [([], Some (GoErr ''read''))] | Inr b \<Rightarrow> [(b, None)]),
     lc_WriteAt = (\<lambda>p i bs. on_files (if i < 0 then (\<lambda>_. Inl EINVAL)
        else os_change (split_slash p) (\<lambda>b. write_at b (nat i) bs))),
     lc_Truncate = (\<lambda>p n. on_files (if n < 0 then (\<lambda>_. Inl EINVAL)
        else os_change (split_slash p) (\<lambda>b. take (nat n) b @ replicate (nat n - length b) 0))),
     lc_Remove = (\<lambda>p. on_files (os_remove (split_slash p))),
     lc_Rename = (\<lambda>p q. on_files (os_rename (split_slash p) (split_slash q))),
     lc_file = disk_file\<rparr>"

definition disk_ok :: "local_disk \<Rightarrow> bool" where
  "disk_ok w \<longleftrightarrow> tree (ld_files w)"

definition disk_content :: "local_disk \<Rightarrow> string \<Rightarrow> bytes option" where
  "disk_content w p = content_at (ld_files w) (split_slash p)"

lemma write_content:
  assumes "tree fs" and "os_write p b fs = Inr fs'"
  shows "tree fs'" and "content_at fs' = (content_at fs)(p \<mapsto> b)"
  using os_write_at [OF assms] by (auto simp: content_at_def fun_eq_iff)

lemma change_content:
  assumes "tree fs" and "os_change p f fs = Inr fs'" and "content_at fs p = Some b"
  shows "tree fs'" and "content_at fs' = (content_at fs)(p \<mapsto> f b)"
proof -
  have "os_read p fs = Inr b" using assms(1,3) by (simp add: os_read_iff)
  then have "os_write p (f b) fs = Inr fs'" using assms(2) by (simp add: os_change_def)
  from write_content [OF assms(1) this] show "tree fs'" "content_at fs' = (content_at fs)(p \<mapsto> f b)" .
qed

lemma remove_content:
  assumes "tree fs" and "os_remove p fs = Inr fs'"
  shows "tree fs'" and "content_at fs' = (content_at fs)(p := None)"
  using os_remove_at [OF assms] by (auto simp: content_at_def fun_eq_iff)

lemma rename_content:
  assumes "tree fs" and "os_rename p q fs = Inr fs'" and "content_at fs p = Some b" and "p \<noteq> q"
  shows "tree fs'" and "content_at fs' = (content_at fs)(p := None, q \<mapsto> b)"
proof -
  have "at_path fs p = Some (File b)" using assms(3) by (auto simp: content_at_def split: option.splits node.splits)
  from os_rename_file_at [OF assms(1,2) this] assms(4)
  show "tree fs'" "content_at fs' = (content_at fs)(p := None, q \<mapsto> b)"
    by (auto simp: content_at_def fun_eq_iff)
qed

text \<open>A call either fails and changes nothing or does what it says.\<close>

lemma on_files_law:
  assumes "disk_ok w" and "on_files f w = (err, w')"
    and "\<And>fs fs'. tree fs \<Longrightarrow> content_at fs = content_at (ld_files w) \<Longrightarrow> f fs = Inr fs' \<Longrightarrow> tree fs' \<and> (\<forall>q. content_at fs' (split_slash q) = C q)"
  shows "disk_ok w' \<and> disk_content w' = (if err = None then C else disk_content w)"
  using assms by (auto simp: disk_ok_def on_files_def disk_content_def [abs_def] fun_eq_iff split: sum.splits)

interpretation disk_files: local_files disk_calls disk_ok disk_content
proof
  fix w w' p q err b i bs n v r
  assume ok: "disk_ok w"
  then have t: "tree (ld_files w)" by (simp add: disk_ok_def)
  show "disk_content w p \<noteq> None" if "lc_OpenRDWR disk_calls p w = None"
    using that t by (cases "os_read (split_slash p) (ld_files w)") (simp_all add: disk_calls_def error_of_def disk_content_def os_read_iff)
  show "disk_ok w' \<and> disk_content w' = (if err = None then (disk_content w)(p \<mapsto> []) else disk_content w)"
    if "lc_Create disk_calls p w = (err, w')"
    using that by (intro on_files_law [OF ok, of "os_write (split_slash p) []"])
      (auto simp: disk_calls_def disk_content_def dest: write_content)
  show "disk_ok w' \<and> disk_content w' = (if err = None then (disk_content w)(p := None) else disk_content w)"
    if "lc_Remove disk_calls p w = (err, w')"
    using that by (intro on_files_law [OF ok, of "os_remove (split_slash p)"])
      (auto simp: disk_calls_def disk_content_def dest: remove_content)
  show "bs = take (nat n) (drop (nat i) b)" if "disk_content w p = Some b" "lc_ReadAt disk_calls p i n w = Inr bs"
    using that t by (auto simp: disk_calls_def disk_content_def os_read_iff [symmetric])
  show "disk_ok w' \<and> (\<exists>c. disk_content w' = (disk_content w)(p \<mapsto> c) \<and> (err = None \<longrightarrow> c = write_at b (nat i) bs))"
    if c: "disk_content w p = Some b" and "0 \<le> i" "lc_WriteAt disk_calls p i bs w = (err, w')"
  proof -
    have "disk_ok w' \<and> disk_content w' = (if err = None then (disk_content w)(p \<mapsto> write_at b (nat i) bs) else disk_content w)"
      using that by (intro on_files_law [OF ok, of "os_change (split_slash p) (\<lambda>b. write_at b (nat i) bs)"])
        (auto simp: disk_calls_def disk_content_def dest: change_content [where b = b])
    with c show ?thesis by (cases err) (auto simp: fun_upd_idem intro: exI [of _ b])
  qed
  show "disk_ok w' \<and> (\<exists>c. disk_content w' = (disk_content w)(p \<mapsto> c) \<and> (err = None \<and> nat n \<le> length b \<longrightarrow> c = take (nat n) b))"
    if c: "disk_content w p = Some b" and "0 \<le> n" "lc_Truncate disk_calls p n w = (err, w')"
  proof -
    have "disk_ok w' \<and> disk_content w' = (if err = None then (disk_content w)(p \<mapsto> take (nat n) b @ replicate (nat n - length b) 0) else disk_content w)"
      using that by (intro on_files_law [OF ok, of "os_change (split_slash p) (\<lambda>b. take (nat n) b @ replicate (nat n - length b) 0)"])
        (auto simp: disk_calls_def disk_content_def dest: change_content [where b = b])
    with c show ?thesis by (cases err) (auto simp: fun_upd_idem intro: exI [of _ b])
  qed
  show "disk_ok w' \<and> disk_content w' = (if err = None then (disk_content w)(p := None, q \<mapsto> b) else disk_content w)"
    if "disk_content w p = Some b" "p \<noteq> q" "lc_Rename disk_calls p q w = (err, w')"
    using that by (intro on_files_law [OF ok, of "os_rename (split_slash p) (split_slash q)"])
      (auto simp: disk_calls_def disk_content_def dest: rename_content [where b = b])
  show "disk_ok w' \<and> disk_content w' = disk_content w" if "fc_SetFlags (lc_file disk_calls p) v w = (r, w')"
    using that ok by (auto simp: disk_calls_def disk_file_def on_meta_def disk_ok_def disk_content_def [abs_def] split: prod.splits)
qed

section \<open>RestoreFile on the disk\<close>

text \<open>C15: \<open>RestoreFile\<close> that does not write in place, whatever the storage and the downloads do: if it reports the
  file as restored, the file has a content with the right hash; otherwise the file is as it was before, unless the
  last step, giving the new file its name, fails, and then it is gone. Nothing else changes but the temporary file.\<close>

theorem RestoreFile_replaces:
  assumes "re_calls re = disk_calls" and "tree (ld_files (rs_local s))" and "full_path re e \<noteq> temporary_path re"
    and "\<not> fo_inPlace fo" and "RestoreFile re fo e s = (r, s')"
  shows "let c = disk_content (rs_local s); c' = disk_content (rs_local s'); p = full_path re e in
    tree (ld_files (rs_local s')) \<and> (\<forall>q. q \<noteq> p \<and> q \<noteq> temporary_path re \<longrightarrow> c' q = c q) \<and>
    (if \<exists>err. r = Inr (True, err) then r = Inr (True, None) \<and> (\<exists>b. c' p = Some b \<and> right_hash re e b)
     else c' p = c p \<or> r = Inl (LogError ''DOWNLOAD_RENAME'') \<and> c' p = None)"
proof -
  have "case (r, s') of
      (Inr x, t) \<Rightarrow> disk_files.copy_result re e (disk_content (rs_local s)) x t
    | (Inl x, t) \<Rightarrow> disk_files.copy_lost (temporary_path re) (full_path re e) (disk_content (rs_local s)) x t"
    using disk_files.runs_RestoreFile_copy [OF assms(1,3,4), of "disk_content (rs_local s)"] assms(2,5)
    by (auto simp: runs_def loc_def disk_files.holding_def disk_ok_def)
  then show ?thesis
    using assms(3)
    by (cases r)
      (auto simp: disk_files.copy_result_def disk_files.copy_lost_def loc_def disk_files.untouched_def disk_ok_def Let_def split: if_splits)
qed

text \<open>C16: \<open>RestoreFile\<close> in place, whatever the storage and the downloads do: if it reports the file as restored, the
  file has a content with the right hash; nothing but the file and the temporary file changes in any case.\<close>

theorem RestoreFile_in_place:
  assumes "re_calls re = disk_calls" and "tree (ld_files (rs_local s))" and "full_path re e \<noteq> temporary_path re"
    and "fo_inPlace fo" and "RestoreFile re fo e s = (r, s')"
  shows "let c = disk_content (rs_local s); c' = disk_content (rs_local s'); p = full_path re e in
    tree (ld_files (rs_local s')) \<and> (\<forall>q. q \<noteq> p \<and> q \<noteq> temporary_path re \<longrightarrow> c' q = c q) \<and>
    (\<forall>err. r = Inr (True, err) \<longrightarrow> err = None \<and> (\<exists>b. c' p = Some b \<and> right_hash re e b))"
proof -
  have "case (r, s') of
      (Inr x, t) \<Rightarrow> disk_files.in_place_result re e (disk_content (rs_local s)) x t
    | (Inl x, t) \<Rightarrow> disk_files.beside (temporary_path re) (full_path re e) (disk_content (rs_local s)) t"
    using disk_files.runs_RestoreFile_in_place [OF assms(1,3,4), of "disk_content (rs_local s)"] assms(2,5)
    by (auto simp: runs_def loc_def disk_files.holding_def disk_ok_def)
  then show ?thesis
    using assms(3)
    by (cases r)
      (auto simp: disk_files.in_place_result_def disk_files.beside_def loc_def disk_files.untouched_def disk_ok_def Let_def split: if_splits)
qed


section \<open>An example\<close>

text \<open>A file of two bytes; the existing file is longer.\<close>

definition sample_d :: entry where
  "sample_d = (CreateEntry ''d'' 2 50 0x1A4)\<lparr>StartChunk := 0, EndChunk := 0, EndOffset := 2, Hash := hex_encode sample_content\<rparr>"

definition sample_restore_env :: "(local_disk, file_storage) restore_env" where
  "sample_restore_env = \<lparr>re_download = sample_download_env, re_calls = disk_calls, re_skipFileHash = False,
     re_preferencePath = ''pref'', re_top = ''home''\<rparr>"

definition sample_disk :: "bytes option \<Rightarrow> local_disk" where
  "sample_disk d = \<lparr>ld_files = [([''home''], Dir), ([''home'', ''x''], File [5]), ([''pref''], Dir)] @
       (case d of None \<Rightarrow> [] | Some b \<Rightarrow> [([''home'', ''d''], File b)]),
     ld_meta = (\<lambda>p. sample_meta)\<rparr>"

definition sample_restore :: "bytes option \<Rightarrow> (local_disk, file_storage) restore_state" where
  "sample_restore d = \<lparr>rs_local = sample_disk d,
     rs_downloader = snd (AddFiles sample_source [sample_d] (CreateChunkDownloader uploaded_state)),
     rs_maker = sample_fixed_maker\<rparr>"


definition sample_options :: "bool \<Rightarrow> bool \<Rightarrow> file_options" where
  "sample_options inPlace overwrite = \<lparr>fo_inPlace = inPlace, fo_overwrite = overwrite, fo_allowFailures = False, fo_fileFlagsMask = 0\<rparr>"

definition sample_run :: "bytes option \<Rightarrow> bool \<Rightarrow> bool \<Rightarrow> restored res \<times> (local_disk, file_storage) restore_state" where
  "sample_run d inPlace overwrite =
     RestoreFile sample_restore_env (sample_options inPlace overwrite) sample_d (sample_restore d)"

lemma sample_restore_ready:
  "re_calls sample_restore_env = disk_calls" "tree (ld_files (rs_local (sample_restore d)))"
  "full_path sample_restore_env sample_d = ''home/d''" "temporary_path sample_restore_env = ''pref/temporary''"
proof -
  show "re_calls sample_restore_env = disk_calls" by (simp add: sample_restore_env_def)
  show "tree (ld_files (rs_local (sample_restore d)))"
    by (auto simp: sample_restore_def sample_disk_def tree_def at_path_def split: option.splits)
  show "full_path sample_restore_env sample_d = ''home/d''" "temporary_path sample_restore_env = ''pref/temporary''" by code_simp+
qed

theorem RestoreFile_replaces_witness:
  "case sample_run (Some [1, 2, 3, 4]) False False of (r, s') \<Rightarrow> r = Inr (True, None) \<and>
     disk_content (rs_local s') ''home/x'' = Some [5] \<and>
     (\<exists>b. disk_content (rs_local s') ''home/d'' = Some b \<and> right_hash sample_restore_env sample_d b)"
proof -
  obtain r s' where run: "sample_run (Some [1, 2, 3, 4]) False False = (r, s')" by force
  have "fst (sample_run (Some [1, 2, 3, 4]) False False) = Inr (True, None)" by code_simp
  then have r: "r = Inr (True, None)" using run by simp
  have x: "disk_content (rs_local (sample_restore (Some [1, 2, 3, 4]))) ''home/x'' = Some [5]" by code_simp
  show ?thesis
    using RestoreFile_replaces [OF sample_restore_ready(1,2) _ _ run [unfolded sample_run_def]] run r x
    by (simp add: sample_restore_ready sample_options_def Let_def)
qed

theorem RestoreFile_in_place_witness:
  "case sample_run (Some [1, 2, 3, 4]) True True of (r, s') \<Rightarrow> r = Inr (True, None) \<and>
     disk_content (rs_local s') ''home/x'' = Some [5] \<and>
     (\<exists>b. disk_content (rs_local s') ''home/d'' = Some b \<and> right_hash sample_restore_env sample_d b)"
proof -
  obtain r s' where run: "sample_run (Some [1, 2, 3, 4]) True True = (r, s')" by force
  have "fst (sample_run (Some [1, 2, 3, 4]) True True) = Inr (True, None)" by code_simp
  then have r: "r = Inr (True, None)" using run by simp
  have x: "disk_content (rs_local (sample_restore (Some [1, 2, 3, 4]))) ''home/x'' = Some [5]" by code_simp
  show ?thesis
    using RestoreFile_in_place [OF sample_restore_ready(1,2) _ _ run [unfolded sample_run_def]] run r x
    by (simp add: sample_restore_ready sample_options_def Let_def)
qed


end
