(* ===== verification/RestoreContent.thy ===== *)
theory RestoreContent
  imports RestoreSafety
begin

text \<open>
  What \<open>RestoreFile\<close> writes in place: the content of the file is made of the right parts of the right chunks,
  those that were there already included. The proof follows the local files and the downloader together
  (\<open>during\<close>): what has been written so far are the parts of the chunks so far, and the rest of the file
  is what it was when its chunks were noted.
\<close>

section \<open>Parts\<close>

text \<open>The part of a file that comes from a task, by its hash and the length of its chunk.\<close>

definition part_of :: "('w, 's) restore_env \<Rightarrow> entry \<Rightarrow> (int \<Rightarrow> bytes \<times> int) \<Rightarrow> int \<Rightarrow> bytes \<Rightarrow> bool" where
  "part_of re e key i bs \<longleftrightarrow>
     (let (hash, len) = key i; start = (if i = StartChunk e then StartOffset e else 0); stop = (if i = EndChunk e then EndOffset e else len) in
      int (length bs) = stop - start \<and>
      ((\<exists>chunk b. chunk_for (de_operator (re_download re)) hash chunk \<and> \<not> chunk_isBroken chunk \<and>
          GetBytes chunk = Inr b \<and> part b start stop = Inr bs) \<or>
       start = 0 \<and> (\<exists>hasher. NewKeyedHasher (re_hashes re) (re_config re) (HashKey (re_config re)) = Inr hasher \<and> hasher bs = hash)))"

text \<open>The chunks noted for a file with content \<open>b\<close> from the offset \<open>k\<close> on have the right hashes.\<close>

fun sound :: "(bytes \<Rightarrow> bytes) \<Rightarrow> bytes \<Rightarrow> int \<Rightarrow> (bytes \<times> int) list \<Rightarrow> bool" where
  "sound hasher b k [] \<longleftrightarrow> True"
| "sound hasher b k ((h, n) # rest) \<longleftrightarrow>
     0 < n \<and> (k + n \<le> int (length b) \<longrightarrow> h = hasher (take (nat n) (drop (nat k) b))) \<and> sound hasher b (k + n) rest"

lemma sound_snoc: "sound hasher b k (cs @ [(h, n)]) \<longleftrightarrow> sound hasher b k cs \<and> 0 < n \<and>
    (let j = k + sum_list (map snd cs) in j + n \<le> int (length b) \<longrightarrow> h = hasher (take (nat n) (drop (nat j) b)))"
  by (induction hasher b k cs rule: sound.induct) (auto simp: Let_def add.assoc)

lemma sound_advance: "sound hasher b k cs \<Longrightarrow> advance offset cs k = (k', cs') \<Longrightarrow> sound hasher b k' cs'"
  by (induction offset cs k rule: advance.induct) (auto split: if_splits)

text \<open>Programs that leave all or a part of the state alone.\<close>

definition read_only :: "('s, 'a) prog \<Rightarrow> bool" where
  "read_only m \<longleftrightarrow> (\<forall>s. snd (m s) = s)"

lemma read_only_bind: "read_only m \<Longrightarrow> (\<And>x. read_only (f x)) \<Longrightarrow> read_only (bind_st m f)"
  unfolding read_only_def bind_st_def by (auto split: prod.splits sum.splits) (metis snd_conv)+

lemma read_only_base: "read_only (return_st x)" "read_only (raise_st e)" "read_only (get_st f)" "read_only (lift_res r)" "read_only (task_at i)"
  by (simp_all add: read_only_def return_st_def raise_st_def get_st_def lift_res_def task_at_def)

lemma read_only_if: "read_only m \<Longrightarrow> read_only n \<Longrightarrow> read_only (if c then m else n)"
  by simp

lemma read_only_local: "read_only m \<Longrightarrow> read_only (on_local m)"
  by (simp add: read_only_def on_local_def zoom_def split_beta)

lemma read_only_downloader: "read_only m \<Longrightarrow> read_only (on_downloader m)"
  by (simp add: read_only_def on_downloader_def zoom_def split_beta)

lemma read_only_fold: "(\<And>x b. read_only (f x b)) \<Longrightarrow> read_only (fold_st f xs b)"
  by (induction xs arbitrary: b) (simp_all add: read_only_base read_only_bind)

lemma runs_read_only:
  assumes "read_only m" and "runs P m Q F"
  shows "runs (\<lambda>s. P s \<and> D s) m (\<lambda>x s. Q x s \<and> D s) (\<lambda>e s. F e s)"
  unfolding runs_def
proof (intro allI impI)
  fix s assume s: "P s \<and> D s"
  obtain r t where r: "m s = (r, t)" by force
  then have "t = s" using assms(1) unfolding read_only_def by (metis snd_conv)
  with s r assms(2) show "case m s of (Inr x, t) \<Rightarrow> Q x t \<and> D t | (Inl e, t) \<Rightarrow> F e t"
    unfolding runs_def by (cases r) force+
qed

definition local_only :: "(('w, 's) restore_state, 'a) prog \<Rightarrow> bool" where
  "local_only m \<longleftrightarrow> (\<forall>s. rs_downloader (snd (m s)) = rs_downloader s)"

lemma local_only_bind: "local_only m \<Longrightarrow> (\<And>x. local_only (f x)) \<Longrightarrow> local_only (bind_st m f)"
  unfolding local_only_def bind_st_def by (auto split: prod.splits sum.splits) (metis snd_conv)+

lemma local_only_base: "read_only m \<Longrightarrow> local_only m" "local_only (on_local m')" "local_only (local_call f)"
  by (auto simp: local_only_def read_only_def on_local_def zoom_def local_call_def split: prod.splits)

lemma local_only_or_raise: "local_only m \<Longrightarrow> local_only (or_raise logID m)"
  unfolding or_raise_def by (rule local_only_bind) (auto intro: local_only_base read_only_base)

lemma local_only_early_flags: "local_only (early_flags re fo p e)"
  unfolding early_flags_def by (intro local_only_bind local_only_base(2) local_only_base(1) read_only_base)

lemma runs_local_only:
  assumes "local_only m" and "runs (loc X) m Q F"
  shows "runs (\<lambda>s. loc X s \<and> D (rs_downloader s)) m (\<lambda>x s. Q x s \<and> D (rs_downloader s)) (\<lambda>e s. F e s)"
  unfolding runs_def
proof (intro allI impI)
  fix s assume s: "loc X s \<and> D (rs_downloader s)"
  obtain r t where r: "m s = (r, t)" by force
  then have "rs_downloader t = rs_downloader s" using assms(1) unfolding local_only_def by (metis snd_conv)
  with s r assms(2) show "case m s of (Inr x, t) \<Rightarrow> Q x t \<and> D (rs_downloader t) | (Inl e, t) \<Rightarrow> F e t"
    unfolding runs_def by (cases r) force+
qed

lemma runs_on_downloader:
  assumes "runs D m Q F"
  shows "runs (\<lambda>s. loc X s \<and> D (rs_downloader s)) (on_downloader m) (\<lambda>x s. loc X s \<and> Q x (rs_downloader s)) (\<lambda>_ _. True)"
  unfolding runs_def
proof (intro allI impI)
  fix s assume s: "loc X s \<and> D (rs_downloader s)"
  obtain r t where r: "m (rs_downloader s) = (r, t)" by force
  then show "case on_downloader m s of (Inr x, t) \<Rightarrow> loc X t \<and> Q x (rs_downloader t) | (Inl e, t) \<Rightarrow> True"
    using s assms unfolding runs_def on_downloader_def zoom_def by (cases r) (force simp: loc_def)+
qed

lemma runs_until_upto:
  assumes "\<And>i b. lo \<le> i \<Longrightarrow> i \<le> hi \<Longrightarrow> runs (P i b) (f i b) (\<lambda>r s. case r of Inl err \<Rightarrow> E s | Inr b \<Rightarrow> P (i + 1) b s) F" and "lo \<le> hi + 1"
  shows "runs (P lo b) (until_error f [lo..hi] b) (\<lambda>r s. case r of Inl err \<Rightarrow> E s | Inr b \<Rightarrow> P (hi + 1) b s) F"
  using assms
proof (induction "nat (hi + 1 - lo)" arbitrary: lo b)
  case 0
  then have "lo = hi + 1" by simp
  then show ?case by (simp add: runs_def return_st_def)
next
  case (Suc n)
  then have lo: "lo \<le> hi" by linarith
  have IH: "runs (P (lo + 1) y) (until_error f [lo + 1..hi] y) (\<lambda>r s. case r of Inl err \<Rightarrow> E s | Inr b \<Rightarrow> P (hi + 1) b s) F" for y
    using Suc.hyps(2) Suc.prems(1) lo by (intro Suc.hyps(1)) auto
  have "runs (\<lambda>s. case r of Inl err \<Rightarrow> E s | Inr b \<Rightarrow> P (lo + 1) b s)
      (case r of Inl err \<Rightarrow> return_st (Inl err) | Inr b \<Rightarrow> until_error f [lo + 1..hi] b)
      (\<lambda>r s. case r of Inl err \<Rightarrow> E s | Inr b \<Rightarrow> P (hi + 1) b s) F" for r
    using IH by (cases r) (auto intro: runs_return)
  with Suc.prems(1) [of lo b] lo show ?case
    unfolding upto_rec1 [OF lo] until_error.simps by (intro runs_bind) auto
qed

lemma mark_needed_state: "dl_state de m l K D dl \<Longrightarrow> dl_state de m l K D (set_task i (\<lambda>t. t\<lparr>dt_needed := True\<rparr>) dl)"
proof -
  assume dl: "dl_state de m l K D dl"
  let ?f = "\<lambda>t. t\<lparr>dt_needed := True\<rparr>"
  have keys: "task_keys (set_task i ?f dl) = task_keys dl" by (rule set_task_keys) (simp add: task_key_def)
  have nth: "(dl_taskList dl)[i := ?f (dl_taskList dl ! i)] ! j = (if j = i \<and> j < length (dl_taskList dl) then ?f (dl_taskList dl ! j) else dl_taskList dl ! j)" for j
    by (cases "j = i") (auto simp: nth_list_update list_update_beyond)
  show ?thesis using dl keys by (auto simp: dl_state_def dl_inv_def dl_ok_def Let_def nth)
qed


text \<open>The chunks noted so far are consecutive, and the reading goes on behind them or has reached the end. Of a new
  file, which has only zeros, a hash is known for a size; it is the right one unless the end has been passed.\<close>

definition split_ok :: "(bytes \<Rightarrow> bytes) \<Rightarrow> bytes \<Rightarrow> bool \<Rightarrow> split_state \<Rightarrow> bool" where
  "split_ok hasher b isNew sp \<longleftrightarrow> (let offset = ex_offset (sp_existing sp) in
     sound hasher b 0 (ex_chunks (sp_existing sp)) \<and> offset = sum_list (map snd (ex_chunks (sp_existing sp))) \<and>
     (if sp_isSkipped sp then isNew else 0 \<le> sp_position sp \<and> (sp_position sp = offset \<or> int (length b) \<le> sp_position sp)) \<and>
     (isNew \<longrightarrow> b = replicate (length b) 0 \<and>
       (\<forall>n h. map_of (sp_knownHashes sp) n = Some h \<longrightarrow> 0 < n \<and> (h = hasher (replicate (nat n) 0) \<or> int (length b) < offset))))"

lemma sound_positive: "sound hasher b k cs \<Longrightarrow> 0 \<le> sum_list (map snd cs)"
  by (induction hasher b k cs rule: sound.induct) auto

lemma split_ok_offset: "split_ok hasher b isNew sp \<Longrightarrow> 0 \<le> ex_offset (sp_existing sp)"
  using sound_positive by (fastforce simp: split_ok_def Let_def)

definition split_position :: "split_state \<Rightarrow> int" where
  "split_position sp = (if sp_isSkipped sp then ex_offset (sp_existing sp) else sp_position sp)"

lemma split_ok_position:
  "split_ok hasher b isNew sp \<Longrightarrow> 0 \<le> split_position sp \<and>
     (split_position sp = ex_offset (sp_existing sp) \<or> int (length b) \<le> split_position sp)"
  using split_ok_offset [of hasher b isNew sp] by (auto simp: split_position_def split_ok_def Let_def)

lemma split_ok_part:
  assumes "split_ok hasher b isNew sp" and "bs = (if n \<le> 0 then [] else take (nat n) (drop (nat (split_position sp)) b))"
  shows "split_ok hasher b isNew (note_part isNew hasher (split_position sp) n sp bs)"
proof (cases "bs = []")
  case True
  then show ?thesis using assms(1) split_ok_position [OF assms(1)] by (auto simp: split_ok_def note_part_def Let_def)
next
  case False
  let ?pos = "split_position sp" and ?ex = "sp_existing sp"
  have n: "0 < n" and bs: "bs = take (nat n) (drop (nat ?pos) b)" using assms(2) False by (auto split: if_splits)
  then have pos: "0 \<le> ?pos" "?pos = ex_offset ?ex" "?pos < int (length b)"
    using split_ok_position [OF assms(1)] False by (auto simp: not_le)
  have len: "int (length bs) = min n (int (length b) - ?pos)" using n bs pos by auto
  then have position: "?pos + int (length bs) = ex_offset ?ex + n \<or> int (length b) \<le> ?pos + int (length bs)" "0 \<le> ?pos + int (length bs)"
    using pos by linarith+
  have hash: "hasher bs = hasher (take (nat n) (drop (nat (sum_list (map snd (ex_chunks ?ex)))) b))"
    using bs pos assms(1) by (simp add: split_ok_def Let_def)
  have zeros: "hasher bs = hasher (replicate (nat n) 0) \<or> int (length b) < ex_offset ?ex + n" if "isNew"
  proof (cases "int (length b) < ex_offset ?ex + n")
    case False
    have "b = replicate (length b) 0" using assms(1) that by (auto simp: split_ok_def Let_def)
    then have "bs = replicate (length bs) 0" using bs by (metis drop_replicate take_replicate length_replicate)
    moreover have "length bs = nat n" using len False pos n by simp
    ultimately show ?thesis by simp
  qed simp
  show ?thesis
    using assms(1) False n position hash zeros
    by (auto simp: split_ok_def note_part_def note_chunk_def sound_snoc Let_def update_conv' split: if_splits)
qed

lemma split_ok_known:
  assumes "split_ok hasher b True sp" and "map_of (sp_knownHashes sp) n = Some h"
  shows "split_ok hasher b True (sp\<lparr>sp_existing := note_chunk h n (sp_existing sp), sp_isSkipped := True\<rparr>)"
proof -
  let ?k = "ex_offset (sp_existing sp)"
  have k: "0 \<le> ?k" "?k = sum_list (map snd (ex_chunks (sp_existing sp)))" "0 < n" "b = replicate (length b) 0"
    "h = hasher (replicate (nat n) 0) \<or> int (length b) < ?k"
    using assms split_ok_offset [OF assms(1)] by (auto simp: split_ok_def Let_def)
  have "h = hasher (take (nat n) (drop (nat ?k) b))" if "?k + n \<le> int (length b)"
  proof -
    have "nat n \<le> length b - nat ?k" using that k(1) by linarith
    moreover have "drop (nat ?k) b = replicate (length b - nat ?k) 0" by (subst k(4)) simp
    ultimately have "take (nat n) (drop (nat ?k) b) = replicate (nat n) 0" by simp
    then show ?thesis using k(3,5) that by auto
  qed
  then show ?thesis
    using assms(1) k by (auto simp: split_ok_def note_chunk_def sound_snoc Let_def)
qed

definition existing_ok :: "('w, 's) restore_env \<Rightarrow> bytes \<Rightarrow> int \<Rightarrow> (bytes \<times> int) list \<Rightarrow> bool" where
  "existing_ok re b k cs \<longleftrightarrow> cs = [] \<or>
     (\<exists>hasher. NewKeyedHasher (re_hashes re) (re_config re) (HashKey (re_config re)) = Inr hasher \<and> sound hasher b k cs)"

lemma existing_ok_advance: "existing_ok re b k cs \<Longrightarrow> advance offset cs k = (k', cs') \<Longrightarrow> existing_ok re b k' cs'"
  using sound_advance [of _ b k cs offset k' cs'] by (cases "cs = []") (auto simp: existing_ok_def)

context local_files begin

lemma sound_sized: "sound hasher b k cs \<Longrightarrow> sized cs"
  by (induction hasher b k cs rule: sound.induct) (auto simp: sized_def)

section \<open>Splitting\<close>

lemma read_only_read_part: "read_only (read_part re p i n)"
  unfolding read_part_def
  by (auto intro!: read_only_base read_only_bind read_only_local split: sum.splits)

lemma read_only_split_size: "read_only (split_size e i)"
  unfolding split_size_def by (intro read_only_if read_only_bind read_only_base)

lemma read_only_split_step: "read_only (split_step re isNew e i sp)"
  unfolding split_step_def Let_def
  by (intro read_only_bind) (auto intro!: read_only_base read_only_downloader read_only_split_size read_only_bind read_only_read_part split: option.splits)

lemma read_only_split_in_place: "read_only (split_in_place re fo isNew e)"
  unfolding split_in_place_def Let_def LOG_WERROR_def
  by (intro read_only_bind read_only_fold read_only_split_step read_only_if read_only_base)

lemma runs_read_part_content:
  assumes "re_calls re = lc" and "c p = Some b" and "0 \<le> i"
  shows "runs (loc (holding c)) (read_part re p i n)
    (\<lambda>bs s. loc (holding c) s \<and> bs = (if n \<le> 0 then [] else take (nat n) (drop (nat i) b))) (\<lambda>_ _. True)"
proof -
  have "runs (loc (\<lambda>w. holding c w \<and> r = lc_ReadAt (re_calls re) p i n w))
      (case r of Inl err \<Rightarrow> raise_st (LogError ''DOWNLOAD_SPLIT'') | Inr bs \<Rightarrow> return_st bs)
      (\<lambda>bs s. loc (holding c) s \<and> bs = take (nat n) (drop (nat i) b)) (\<lambda>_ _. True)" for r
    using assms read_law [of _ p b i n] by (cases r) (auto simp: runs_def raise_st_def return_st_def loc_def holding_def)
  then have "runs (loc (holding c)) (bind_st (on_local (get_st (lc_ReadAt (re_calls re) p i n))) (\<lambda>r.
      case r of Inl err \<Rightarrow> raise_st (LogError ''DOWNLOAD_SPLIT'') | Inr bs \<Rightarrow> return_st bs))
      (\<lambda>bs s. loc (holding c) s \<and> bs = take (nat n) (drop (nat i) b)) (\<lambda>_ _. True)"
    by (rule runs_bind [OF runs_local_get])
  then show ?thesis unfolding read_part_def by (auto simp: runs_def return_st_def)
qed

lemma runs_split_step_content:
  assumes "re_calls re = lc" and "c (full_path re e) = Some b" and "split_ok hasher b isNew sp"
    and hasher: "NewKeyedHasher (re_hashes re) (re_config re) (HashKey (re_config re)) = Inr hasher"
  shows "runs (loc (holding c)) (split_step re isNew e i sp) (\<lambda>sp s. loc (holding c) s \<and> split_ok hasher b isNew sp) (\<lambda>_ _. True)"
proof -
  let ?pos = "split_position sp"
  let ?Q = "\<lambda>sp s. loc (holding c) s \<and> split_ok hasher b isNew sp"
  have pos: "0 \<le> ?pos" using split_ok_position [OF assms(3)] by simp
  have part: "runs (loc (holding c)) (bind_st (read_part re (full_path re e) ?pos n) (\<lambda>bs. return_st (note_part isNew hasher ?pos n sp bs)))
      ?Q (\<lambda>_ _. True)" for n
    by (rule runs_bind [OF runs_read_part_content [where c = c and p = "full_path re e" and b = b, OF assms(1,2) pos]], rule runs_return)
      (erule conjE, rule conjI, assumption, erule split_ok_part [OF assms(3)])
  have step: "runs (loc (holding c)) (case (if isNew then map_of (sp_knownHashes sp) n else None) of
         Some hash \<Rightarrow> return_st (sp\<lparr>sp_existing := note_chunk hash n (sp_existing sp), sp_isSkipped := True\<rparr>)
       | None \<Rightarrow>
           if sp_isSkipped sp \<and> ex_offset (sp_existing sp) < 0 then raise_st (LogError ''DOWNLOAD_SEEK'')
           else bind_st (read_part re (full_path re e) ?pos n) (\<lambda>bs. return_st (note_part isNew hasher ?pos n sp bs))) ?Q (\<lambda>_ _. True)" for n
  proof (cases "if isNew then map_of (sp_knownHashes sp) n else None")
    case None
    show ?thesis unfolding None option.case by (intro runs_if runs_raise TrueI part)
  next
    case (Some hash)
    then have "isNew" "map_of (sp_knownHashes sp) n = Some hash" by (simp_all split: if_splits)
    then show ?thesis using split_ok_known [of hasher b sp n hash] assms(3) by (auto intro!: runs_return)
  qed
  show ?thesis
    unfolding split_step_def hasher Let_def st_simps split_position_def [symmetric]
    by (rule runs_bind [OF runs_exn [OF runs_downloader] step]) simp
qed

lemma runs_split_content:
  assumes "re_calls re = lc" and "c (full_path re e) = Some b" and "isNew \<longrightarrow> b = replicate (length b) 0"
  shows "runs (loc (holding c)) (split_in_place re fo isNew e)
    (\<lambda>r s. loc (holding c) s \<and> (\<forall>ex. r = Inr ex \<longrightarrow> existing_ok re b 0 (ex_chunks ex))) (\<lambda>_ _. True)"
proof -
  let ?I = "\<lambda>sp. existing_ok re b 0 (ex_chunks (sp_existing sp))"
  have "runs (loc (holding c)) (fold_st (split_step re isNew e) xs start_split) (\<lambda>sp s. loc (holding c) s \<and> ?I sp) (\<lambda>_ _. True)" for xs
  proof (cases "NewKeyedHasher (re_hashes re) (re_config re) (HashKey (re_config re))")
    case (Inl err)
    then show ?thesis
      by (intro runs_fold_inv) (auto simp: split_step_def runs_def raise_st_def start_split_def no_existing_def existing_ok_def)
  next
    case (Inr hasher)
    have "runs (loc (holding c)) (fold_st (split_step re isNew e) xs start_split) (\<lambda>sp s. loc (holding c) s \<and> split_ok hasher b isNew sp) (\<lambda>_ _. True)"
      by (rule runs_fold_inv [OF runs_split_step_content [OF assms(1), of c e b, OF assms(2) _ Inr]])
        (use assms(3) in \<open>auto simp: split_ok_def start_split_def no_existing_def Let_def\<close>)
    then show ?thesis by (rule runs_post) (use Inr in \<open>auto simp: split_ok_def existing_ok_def Let_def\<close>)
  qed
  then show ?thesis
    unfolding split_in_place_def Let_def LOG_WERROR_def
    by (rule runs_bind) (auto simp: runs_def return_st_def raise_st_def bind_st_def)
qed

section \<open>Placing the chunks\<close>

text \<open>The first part of the file has been written, the rest is as it was.\<close>

definition at_offset :: "string \<Rightarrow> (string \<Rightarrow> bytes option) \<Rightarrow> bytes \<Rightarrow> int \<Rightarrow> bytes \<Rightarrow> 'w \<Rightarrow> bool" where
  "at_offset full c b0 k hashed w \<longleftrightarrow> ok w \<and> 0 \<le> k \<and>
     (\<exists>b. content w = c(full \<mapsto> b) \<and> nat k \<le> length b \<and> take (nat k) b = hashed \<and> drop (nat k) b = drop (nat k) b0)"

lemma at_offset_write:
  assumes "at_offset full c b0 k hashed w" and "lc_WriteAt lc full k bs w = (None, w')"
  shows "at_offset full c b0 (k + int (length bs)) (hashed @ bs) w'"
proof -
  from assms(1) obtain b where b: "ok w" "0 \<le> k" "content w = c(full \<mapsto> b)" "nat k \<le> length b" "take (nat k) b = hashed"
    "drop (nat k) b = drop (nat k) b0" by (auto simp: at_offset_def)
  have "content w full = Some b" using b(3) by simp
  from write_law [OF b(1) this b(2) assms(2)] have d: "ok w'" "content w' = c(full \<mapsto> write_at b (nat k) bs)" using b(3) by auto
  have n: "nat (k + int (length bs)) = length bs + nat k" using b(2) by simp
  have "drop (length bs + nat k) b = drop (length bs + nat k) b0"
    using arg_cong [OF b(6), of "drop (length bs)"] by simp
  then show ?thesis
    using d b(2,4,5) n by (auto simp: at_offset_def write_at_def add.commute)
qed

lemma at_offset_read:
  assumes "at_offset full c b0 k hashed w" and "lc_ReadAt lc full k n w = Inr bs" and "0 < n" and "n \<le> int (length bs)"
  shows "at_offset full c b0 (k + n) (hashed @ bs) w" and "bs = take (nat n) (drop (nat k) b0)" and "k + n \<le> int (length b0)"
    and "int (length bs) = n"
proof -
  from assms(1) obtain b where b: "ok w" "0 \<le> k" "content w = c(full \<mapsto> b)" "nat k \<le> length b" "take (nat k) b = hashed"
    "drop (nat k) b = drop (nat k) b0" by (auto simp: at_offset_def)
  have "content w full = Some b" using b(3) by simp
  from read_law [OF b(1) this b(2) assms(2)] have bs: "bs = take (nat n) (drop (nat k) b)" .
  then show "bs = take (nat n) (drop (nat k) b0)" using b(6) by simp
  have "length b - nat k = length b0 - nat k" using arg_cong [OF b(6), of length] by simp
  moreover have "length bs = min (length b - nat k) (nat n)" using bs by simp
  moreover have "nat n \<le> length bs" using assms(4) by (simp add: nat_le_iff)
  ultimately have len: "nat n \<le> length b - nat k" "nat n \<le> length b0 - nat k" "int (length bs) = n" using assms(3) by simp_all
  then show "k + n \<le> int (length b0)" "int (length bs) = n" using assms(3) by linarith+
  have n: "nat (k + n) = nat k + nat n" using b(2) assms(3) by simp
  have "nat k + nat n \<le> length b" using len(1) b(4) by linarith
  moreover have "drop (nat k + nat n) b = drop (nat k + nat n) b0" using arg_cong [OF b(6), of "drop (nat n)"] by (simp add: add.commute)
  ultimately show "at_offset full c b0 (k + n) (hashed @ bs) w"
    using b n len bs assms(3) by (auto simp: at_offset_def take_add intro!: exI [of _ b])
qed

lemma runs_keep_content:
  assumes "re_calls re = lc" and "existing_ok re b0 (ps_offset ps) ((h, stop) # cs)"
  shows "runs (loc (at_offset full c b0 (ps_offset ps) (ps_hashed ps))) (keep_part re full stop ps)
    (\<lambda>r s. \<exists>bs. r = Inr (ps\<lparr>ps_hashed := ps_hashed ps @ bs, ps_offset := ps_offset ps + stop\<rparr>) \<and>
       loc (at_offset full c b0 (ps_offset ps + stop) (ps_hashed ps @ bs)) s \<and> int (length bs) = stop \<and>
       (\<exists>hasher. NewKeyedHasher (re_hashes re) (re_config re) (HashKey (re_config re)) = Inr hasher \<and> hasher bs = h)) (\<lambda>_ _. True)"
proof -
  let ?X = "at_offset full c b0 (ps_offset ps) (ps_hashed ps)"
  let ?Q = "\<lambda>r s. \<exists>bs. r = Inr (ps\<lparr>ps_hashed := ps_hashed ps @ bs, ps_offset := ps_offset ps + stop\<rparr>) \<and>
       loc (at_offset full c b0 (ps_offset ps + stop) (ps_hashed ps @ bs)) s \<and> int (length bs) = stop \<and>
       (\<exists>hasher. NewKeyedHasher (re_hashes re) (re_config re) (HashKey (re_config re)) = Inr hasher \<and> hasher bs = h)"
  obtain hasher where hasher: "NewKeyedHasher (re_hashes re) (re_config re) (HashKey (re_config re)) = Inr hasher"
    "0 < stop" "ps_offset ps + stop \<le> int (length b0) \<Longrightarrow> h = hasher (take (nat stop) (drop (nat (ps_offset ps)) b0))"
    using assms(2) by (auto simp: existing_ok_def)
  have got: "?Q (Inr (ps\<lparr>ps_hashed := ps_hashed ps @ bs, ps_offset := ps_offset ps + stop\<rparr>)) s"
    if "loc ?X s" "lc_ReadAt lc full (ps_offset ps) stop (rs_local s) = Inr bs" "stop \<le> int (length bs)" for bs and s :: "('w, 'b) restore_state"
  proof -
    note read = at_offset_read [OF that(1) [unfolded loc_def] that(2) hasher(2) that(3)]
    then have "hasher bs = h" using hasher(3) by simp
    with read hasher(1) show ?thesis by (auto simp: loc_def)
  qed
  have "runs (loc (\<lambda>w. ?X w \<and> r = lc_ReadAt (re_calls re) full (ps_offset ps) stop w))
       (case r of Inl err \<Rightarrow> raise_st (LogError ''DOWNLOAD_READ'')
        | Inr bs \<Rightarrow> if int (length bs) < stop then raise_st (LogError ''DOWNLOAD_READ'')
           else return_st (Inr (ps\<lparr>ps_hashed := ps_hashed ps @ bs, ps_offset := ps_offset ps + stop\<rparr>))) ?Q (\<lambda>_ _. True)" for r
  proof (cases r)
    case (Inl err)
    then show ?thesis by (simp add: runs_def raise_st_def)
  next
    case (Inr bs)
    show ?thesis unfolding Inr sum.case
      by (intro runs_if runs_raise runs_return TrueI got) (use assms(1) in \<open>auto simp: loc_def\<close>)
  qed
  then show ?thesis unfolding keep_part_def by (rule runs_bind [OF runs_local_get])
qed

text \<open>The local files and the downloader.\<close>

definition during :: "('w \<Rightarrow> bool) \<Rightarrow> ('w, 's) restore_env \<Rightarrow> (bytes \<times> int) list \<Rightarrow> int \<Rightarrow> ('w, 's) restore_state \<Rightarrow> bool" where
  "during X re K l s \<longleftrightarrow> loc X s \<and> dl_state (re_download re) l l K {} (rs_downloader s)"

lemma runs_during_local:
  assumes "local_only m" and "runs (loc X) m (\<lambda>x. loc (Y x)) F"
  shows "runs (during X re K l) m (\<lambda>x. during (Y x) re K l) (\<lambda>_ _. True)"
  using runs_exn [OF runs_local_only [OF assms, of "dl_state (re_download re) l l K {}"], of "\<lambda>_ _. True"] unfolding during_def [abs_def] by simp

lemma runs_during_dl:
  assumes "runs (dl_state (re_download re) l l K {}) m (\<lambda>x dl. dl_state (re_download re) l' l' K {} dl \<and> A x) F"
  shows "runs (during X re K l) (on_downloader m) (\<lambda>x s. during X re K l' s \<and> A x) (\<lambda>_ _. True)"
  using runs_post [OF runs_on_downloader [OF assms, of X], of "\<lambda>x s. during X re K l' s \<and> A x"] unfolding during_def [abs_def] by simp

lemma at_offset_truncate:
  assumes "at_offset full c b0 k hashed w" and "lc_Truncate lc full k w = (None, w')"
  shows "holding (c(full \<mapsto> hashed)) w'"
proof -
  from assms(1) obtain b where b: "ok w" "0 \<le> k" "content w = c(full \<mapsto> b)" "nat k \<le> length b" "take (nat k) b = hashed"
    by (auto simp: at_offset_def)
  have "content w full = Some b" using b(3) by simp
  from truncate_law [OF b(1) this b(2) assms(2)] b show ?thesis by (auto simp: holding_def)
qed

text \<open>A part of a chunk that has been fetched.\<close>

definition fetched :: "('w, 's) restore_env \<Rightarrow> bytes \<Rightarrow> int \<Rightarrow> int \<Rightarrow> bytes \<Rightarrow> bool" where
  "fetched re hash start stop bs \<longleftrightarrow> (\<exists>chunk b. chunk_for (de_operator (re_download re)) hash chunk \<and> \<not> chunk_isBroken chunk \<and>
          GetBytes chunk = Inr b \<and> part b start stop = Inr bs)"

lemma runs_fetch_content:
  assumes "0 \<le> l" and "l \<le> i" and "i < int (length K)"
  shows "runs (during X re K l) (fetch_part re i hash start (Some stop))
    (\<lambda>r s. during X re K i s \<and> (\<forall>bs. r = Inr bs \<longrightarrow> fetched re (fst (K ! nat i)) start stop bs)) (\<lambda>_ _. True)"
proof -
  let ?A = "\<lambda>x. \<exists>c. x = Some c \<and> chunk_for (de_operator (re_download re)) (fst (K ! nat i)) c"
  have wait: "runs (during X re K l) (on_downloader (WaitForChunk (re_download re) i)) (\<lambda>x s. during X re K i s \<and> ?A x) (\<lambda>_ _. True)"
    by (rule runs_during_dl [OF runs_WaitForChunk [OF assms]])
  have read: "runs (\<lambda>s. during X re K i s \<and> ?A (Some c))
      (if chunk_isBroken c then bind_st (chunk_id_of re hash) (\<lambda>chunkID. return_st (Inl (GoErr (''chunk '' @ chunkID @ '' is corrupted''))))
       else bind_st (lift_res (bind_res (GetBytes c) (\<lambda>b. part b start stop))) (\<lambda>bs. return_st (Inr bs)))
      (\<lambda>r s. during X re K i s \<and> (\<forall>bs. r = Inr bs \<longrightarrow> fetched re (fst (K ! nat i)) start stop bs)) (\<lambda>_ _. True)" for c
    unfolding chunk_id_of_def
    by (auto simp: runs_def bind_st_def return_st_def lift_res_def fetched_def elim!: bind_resE split: sum.splits)
  have "runs (\<lambda>s. during X re K i s \<and> ?A x)
      (case x of None \<Rightarrow> raise_st (Panic ''nil pointer dereference'')
       | Some c \<Rightarrow> if chunk_isBroken c then bind_st (chunk_id_of re hash) (\<lambda>chunkID. return_st (Inl (GoErr (''chunk '' @ chunkID @ '' is corrupted''))))
         else bind_st (lift_res (bind_res (GetBytes c) (\<lambda>b. part b start stop))) (\<lambda>bs. return_st (Inr bs)))
      (\<lambda>r s. during X re K i s \<and> (\<forall>bs. r = Inr bs \<longrightarrow> fetched re (fst (K ! nat i)) start stop bs)) (\<lambda>_ _. True)" for x
    using read by (cases x) (simp_all add: runs_def)
  then show ?thesis unfolding fetch_part_def option.case by (rule runs_bind [OF wait])
qed

text \<open>The state before the chunk \<open>i\<close> is placed.\<close>

definition file_parts :: "('w, 's) restore_env \<Rightarrow> entry \<Rightarrow> (bytes \<times> int) list \<Rightarrow> int \<Rightarrow> bytes \<Rightarrow> bool" where
  "file_parts re e K i hashed \<longleftrightarrow>
     (\<exists>parts. list_all2 (part_of re e (\<lambda>i. K ! nat i)) [StartChunk e..i - 1] parts \<and> concat parts = hashed)"

text \<open>Nothing but the file has changed, and the downloader has not gone beyond its last chunk.\<close>

definition gave_up :: "('w, 's) restore_env \<Rightarrow> entry \<Rightarrow> (bytes \<times> int) list \<Rightarrow> (string \<Rightarrow> bytes option) \<Rightarrow> ('w, 's) restore_state \<Rightarrow> bool" where
  "gave_up re e K c s \<longleftrightarrow> (\<exists>x l. 0 \<le> l \<and> l \<le> EndChunk e \<and> during (holding (c(full_path re e := x))) re K l s)"

lemma at_offset_gave_up:
  "during (at_offset (full_path re e) c b0 k hashed) re K l s \<Longrightarrow> 0 \<le> l \<Longrightarrow> l \<le> EndChunk e \<Longrightarrow> gave_up re e K c s"
  unfolding gave_up_def during_def loc_def at_offset_def holding_def by blast

definition placing_at ::
  "('w, 's) restore_env \<Rightarrow> entry \<Rightarrow> (bytes \<times> int) list \<Rightarrow> (string \<Rightarrow> bytes option) \<Rightarrow> bytes \<Rightarrow> int \<Rightarrow> place_state \<Rightarrow> ('w, 's) restore_state \<Rightarrow> bool" where
  "placing_at re e K c b0 i ps s \<longleftrightarrow> existing_ok re b0 (ps_existingOffset ps) (ps_chunks ps) \<and> file_parts re e K i (ps_hashed ps) \<and>
     (\<exists>l. 0 \<le> l \<and> l \<le> max (StartChunk e) (i - 1) \<and> during (at_offset (full_path re e) c b0 (ps_offset ps) (ps_hashed ps)) re K l s)"

lemma file_parts_next:
  assumes "file_parts re e K i hashed" and "StartChunk e \<le> i" and "part_of re e (\<lambda>i. K ! nat i) i bs"
  shows "file_parts re e K (i + 1) (hashed @ bs)"
proof -
  from assms(1) obtain parts where parts: "list_all2 (part_of re e (\<lambda>i. K ! nat i)) [StartChunk e..i - 1] parts" "concat parts = hashed"
    unfolding file_parts_def by blast
  have "list_all2 (part_of re e (\<lambda>i. K ! nat i)) [StartChunk e..i] (parts @ [bs])"
    unfolding upto_rec2 [OF assms(2)] by (rule list_all2_appendI [OF parts(1)]) (simp add: assms(3))
  then show ?thesis using parts(2) unfolding file_parts_def by (intro exI [of _ "parts @ [bs]"]) simp
qed

lemma runs_write_content:
  assumes "re_calls re = lc" and "0 \<le> l" and "l \<le> i" and "i < int (length K)"
  shows "runs (during (at_offset full c b0 (ps_offset ps) (ps_hashed ps)) re K l) (write_part re full i hash start stop ps)
    (\<lambda>r s. case r of Inl err \<Rightarrow> during (at_offset full c b0 (ps_offset ps) (ps_hashed ps)) re K i s | Inr ps' \<Rightarrow> \<exists>bs. ps' = ps\<lparr>ps_hashed := ps_hashed ps @ bs, ps_offset := ps_offset ps + (stop - start)\<rparr> \<and>
       fetched re (fst (K ! nat i)) start stop bs \<and>
       during (at_offset full c b0 (ps_offset ps + (stop - start)) (ps_hashed ps @ bs)) re K i s) (\<lambda>_ _. True)"
    (is "runs (during ?X re K l) _ ?Q _")
proof -
  have wr: "runs (during ?X re K i) (or_raise ''DOWNLOAD_WRITE'' (local_call (lc_WriteAt (re_calls re) full (ps_offset ps) bs)))
      (\<lambda>_. during (at_offset full c b0 (ps_offset ps + int (length bs)) (ps_hashed ps @ bs)) re K i) (\<lambda>_ _. True)" for bs
  proof (rule runs_during_local [OF local_only_or_raise [OF local_only_base(3)]])
    show "runs (loc ?X) (or_raise ''DOWNLOAD_WRITE'' (local_call (lc_WriteAt (re_calls re) full (ps_offset ps) bs)))
        (\<lambda>_. loc (at_offset full c b0 (ps_offset ps + int (length bs)) (ps_hashed ps @ bs))) (\<lambda>_ _. True)"
      by (rule runs_or_raise, rule runs_post, rule runs_local_call [where Y = "\<lambda>err w. err = None \<longrightarrow>
          at_offset full c b0 (ps_offset ps + int (length bs)) (ps_hashed ps @ bs) w"])
        (use assms(1) at_offset_write in \<open>auto simp: loc_def\<close>)
  qed
  have "runs (\<lambda>s. during ?X re K i s \<and> (\<forall>bs. r = Inr bs \<longrightarrow> fetched re (fst (K ! nat i)) start stop bs))
      (case r of Inl err \<Rightarrow> return_st (Inl err)
       | Inr bs \<Rightarrow> bind_st (or_raise ''DOWNLOAD_WRITE'' (local_call (lc_WriteAt (re_calls re) full (ps_offset ps) bs))) (\<lambda>_.
           return_st (Inr (ps\<lparr>ps_hashed := ps_hashed ps @ bs, ps_offset := ps_offset ps + (stop - start)\<rparr>)))) ?Q (\<lambda>_ _. True)" for r
  proof (cases r)
    case (Inl err)
    then show ?thesis by (simp add: runs_def return_st_def)
  next
    case (Inr bs)
    show ?thesis
      unfolding Inr sum.case
    proof (rule runs_pure)
      assume "\<forall>b. Inr bs = (Inr b :: goerror + bytes) \<longrightarrow> fetched re (fst (K ! nat i)) start stop b"
      then have f: "fetched re (fst (K ! nat i)) start stop bs" by simp
      then have "stop - start = int (length bs)" by (auto simp: fetched_def part_length)
      with f show "runs (during ?X re K i) (bind_st (or_raise ''DOWNLOAD_WRITE'' (local_call (lc_WriteAt (re_calls re) full (ps_offset ps) bs))) (\<lambda>_.
           return_st (Inr (ps\<lparr>ps_hashed := ps_hashed ps @ bs, ps_offset := ps_offset ps + (stop - start)\<rparr>)))) ?Q (\<lambda>_ _. True)"
        by (intro runs_bind [OF wr] runs_return) auto
    qed
  qed
  then show ?thesis unfolding write_part_def by (rule runs_bind [OF runs_fetch_content [OF assms(2-4)]])
qed

lemma runs_place_content:
  assumes "re_calls re = lc" and "StartChunk e \<le> i" and "i \<le> EndChunk e" and "i < int (length K)" and "0 \<le> StartChunk e"
  shows "runs (placing_at re e K c b0 i ps) (place_chunk re e i ps)
    (\<lambda>r s. case r of Inl err \<Rightarrow> gave_up re e K c s | Inr ps \<Rightarrow> placing_at re e K c b0 (i + 1) ps s) (\<lambda>_ _. True)"
    (is "runs ?P _ ?Q _")
proof -
  let ?full = "full_path re e"
  obtain k cs where adv: "advance (ps_offset ps) (ps_chunks ps) (ps_existingOffset ps) = (k, cs)" by force
  let ?ps = "ps\<lparr>ps_existingOffset := k, ps_chunks := cs\<rparr>"
  let ?X = "at_offset ?full c b0 (ps_offset ps) (ps_hashed ps)"
  obtain start stop where ss: "start = (if i = StartChunk e then StartOffset e else 0)"
    "stop = (if i = EndChunk e then EndOffset e else snd (K ! nat i))" by blast
  have body: "runs (during ?X re K l) (place_chunk re e i ps) ?Q (\<lambda>_ _. True)"
    if pre: "existing_ok re b0 k cs" "file_parts re e K i (ps_hashed ps)" "0 \<le> l" "l \<le> i" for l
  proof -
    have next_ps: "?Q (Inr (?ps\<lparr>ps_hashed := ps_hashed ps @ bs, ps_offset := j\<rparr>)) s"
      if "part_of re e (\<lambda>i. K ! nat i) i bs" "during (at_offset ?full c b0 j (ps_hashed ps @ bs)) re K l' s" "0 \<le> l'" "l' \<le> i" for bs j l' s
      using that pre file_parts_next [OF pre(2) assms(2) that(1)] unfolding placing_at_def sum.case by (auto intro: exI [of _ l'])
    have keep: "runs (during ?X re K l) (keep_part re ?full stop ?ps) ?Q (\<lambda>_ _. True)"
      if hd: "k = ps_offset ps" "start = 0" "cs \<noteq> []" "hd cs = (fst (K ! nat i), stop)"
    proof -
      have "existing_ok re b0 (ps_offset ?ps) ((fst (K ! nat i), stop) # tl cs)" using pre(1) hd by (cases cs) auto
      then have k: "runs (loc ?X) (keep_part re ?full stop ?ps)
        (\<lambda>r s. \<exists>bs. r = Inr (?ps\<lparr>ps_hashed := ps_hashed ps @ bs, ps_offset := ps_offset ps + stop\<rparr>) \<and>
          loc (at_offset ?full c b0 (ps_offset ps + stop) (ps_hashed ps @ bs)) s \<and> int (length bs) = stop \<and>
          (\<exists>hasher. NewKeyedHasher (re_hashes re) (re_config re) (HashKey (re_config re)) = Inr hasher \<and> hasher bs = fst (K ! nat i))) (\<lambda>_ _. True)"
        using runs_keep_content [OF assms(1), of b0 ?ps "fst (K ! nat i)" stop "tl cs" ?full c] by simp
      have kept: "?Q r s" if "(\<exists>bs. r = Inr (?ps\<lparr>ps_hashed := ps_hashed ps @ bs, ps_offset := ps_offset ps + stop\<rparr>) \<and>
         loc (at_offset ?full c b0 (ps_offset ps + stop) (ps_hashed ps @ bs)) s \<and> int (length bs) = stop \<and>
         (\<exists>hasher. NewKeyedHasher (re_hashes re) (re_config re) (HashKey (re_config re)) = Inr hasher \<and> hasher bs = fst (K ! nat i))) \<and>
         dl_state (re_download re) l l K {} (rs_downloader s)" for r :: "goerror + place_state" and s
      proof -
        from that obtain bs where bs: "r = Inr (?ps\<lparr>ps_hashed := ps_hashed ps @ bs, ps_offset := ps_offset ps + stop\<rparr>)"
          "during (at_offset ?full c b0 (ps_offset ps + stop) (ps_hashed ps @ bs)) re K l s" "int (length bs) = stop"
          "\<exists>hasher. NewKeyedHasher (re_hashes re) (re_config re) (HashKey (re_config re)) = Inr hasher \<and> hasher bs = fst (K ! nat i)"
          by (auto simp: during_def)
        have "part_of re e (\<lambda>i. K ! nat i) i bs" using bs(3,4) hd(2) ss by (auto simp: part_of_def Let_def split: prod.splits)
        from next_ps [OF this bs(2) pre(3,4)] show ?thesis unfolding bs(1) .
      qed
      have lo: "local_only (keep_part re ?full stop ?ps)"
        unfolding keep_part_def by (intro local_only_bind local_only_base(2)) (auto intro!: local_only_base read_only_base split: sum.splits)
      show ?thesis
        unfolding during_def [abs_def] by (rule runs_post [OF runs_local_only [OF lo k] kept])
    qed
    have wr: "runs (during ?X re K l) (write_part re ?full i (fst (K ! nat i)) start stop ?ps) ?Q (\<lambda>_ _. True)"
    proof (rule runs_post)
      show "runs (during ?X re K l) (write_part re ?full i (fst (K ! nat i)) start stop ?ps)
        (\<lambda>r s. case r of Inl err \<Rightarrow> during ?X re K i s | Inr ps' \<Rightarrow> \<exists>bs. ps' = ?ps\<lparr>ps_hashed := ps_hashed ps @ bs, ps_offset := ps_offset ps + (stop - start)\<rparr> \<and>
           fetched re (fst (K ! nat i)) start stop bs \<and>
           during (at_offset ?full c b0 (ps_offset ps + (stop - start)) (ps_hashed ps @ bs)) re K i s) (\<lambda>_ _. True)"
        using runs_write_content [OF assms(1) pre(3,4) assms(4), of ?full c b0 ?ps "fst (K ! nat i)" start stop] by (simp cong: sum.case_cong)
      fix r :: "goerror + place_state" and s
      assume r: "case r of Inl err \<Rightarrow> during ?X re K i s | Inr ps' \<Rightarrow> \<exists>bs. ps' = ?ps\<lparr>ps_hashed := ps_hashed ps @ bs, ps_offset := ps_offset ps + (stop - start)\<rparr> \<and>
           fetched re (fst (K ! nat i)) start stop bs \<and>
           during (at_offset ?full c b0 (ps_offset ps + (stop - start)) (ps_hashed ps @ bs)) re K i s"
      show "?Q r s"
      proof (cases r)
        case (Inr ps')
        with r obtain bs where bs: "ps' = ?ps\<lparr>ps_hashed := ps_hashed ps @ bs, ps_offset := ps_offset ps + (stop - start)\<rparr>"
          "fetched re (fst (K ! nat i)) start stop bs" "during (at_offset ?full c b0 (ps_offset ps + (stop - start)) (ps_hashed ps @ bs)) re K i s" by auto
        have part: "int (length bs) = stop - start" using bs(2) by (auto simp: fetched_def dest: part_length)
        have "part_of re e (\<lambda>i. K ! nat i) i bs"
          using part bs(2) ss by (auto simp: part_of_def Let_def fetched_def split: prod.splits)
        from next_ps [OF this bs(3)] show ?thesis unfolding Inr bs(1) using assms(2,5) by simp
      next
        case (Inl err)
        then show ?thesis using r at_offset_gave_up assms(2,3,5) by fastforce
      qed
    qed
    have cases: "runs (during ?X re K l) (if ps_offset ?ps < 0 then raise_st (LogError ''DOWNLOAD_SEEK'')
       else if k = ps_offset ?ps \<and> start = 0 \<and> cs \<noteq> [] \<and> hd cs = (fst (K ! nat i), stop)
       then keep_part re ?full stop ?ps else write_part re ?full i (fst (K ! nat i)) start stop ?ps) ?Q (\<lambda>_ _. True)"
      by (intro runs_if runs_raise TrueI keep wr) simp_all
    have tk: "runs (during ?X re K l) (on_downloader (task_at i)) (\<lambda>t s. during ?X re K l s \<and> task_key t = K ! nat i) (\<lambda>_ _. True)"
    proof (rule runs_during_dl, rule runs_post [OF runs_task_at])
      show "dl_state (re_download re) l l K {} dl \<and> task_key t = K ! nat i"
        if "dl_state (re_download re) l l K {} dl \<and> t = dl_taskList dl ! nat i" for t dl
        using that assms(2,4,5) by (auto simp: dl_state_def dl_inv_def task_keys_def)
    qed (use assms in auto)
    show ?thesis
      unfolding place_chunk_def adv Let_def prod.case
    proof (rule runs_bind [OF tk], rule runs_pure)
      fix t assume "task_key t = K ! nat i"
      then have "K ! nat i = (dt_chunkHash t, dt_chunkLength t)" by (simp add: task_key_def)
      then have "dt_chunkHash t = fst (K ! nat i)" "chunk_part e i t = (start, stop)" using ss by (simp_all add: chunk_part_def)
      with cases show "runs (during ?X re K l) (case chunk_part e i t of (start, stop) \<Rightarrow>
          if ps_offset ?ps < 0 then raise_st (LogError ''DOWNLOAD_SEEK'')
          else if k = ps_offset ?ps \<and> start = 0 \<and> cs \<noteq> [] \<and> hd cs = (dt_chunkHash t, stop)
          then keep_part re ?full stop ?ps else write_part re ?full i (dt_chunkHash t) start stop ?ps) ?Q (\<lambda>_ _. True)"
        by (simp only: prod.case)
    qed
  qed
  show ?thesis
  proof (rule runs_state)
    fix s
    assume "?P s"
    then obtain l where l: "existing_ok re b0 (ps_existingOffset ps) (ps_chunks ps)" "file_parts re e K i (ps_hashed ps)" "0 \<le> l" "l \<le> i" "during ?X re K l s"
      using assms(2) by (auto simp: placing_at_def le_max_iff_disj)
    from runs_pre [OF body [OF existing_ok_advance [OF l(1) adv] l(2-4)], of "\<lambda>t. t = s"] l(5) show "runs (\<lambda>t. t = s) (place_chunk re e i ps) ?Q (\<lambda>_ _. True)" by simp
  qed
qed

section \<open>The whole file\<close>

definition old_content :: "('w, 's) restore_env \<Rightarrow> bool \<Rightarrow> entry \<Rightarrow> (string \<Rightarrow> bytes option) \<Rightarrow> bytes" where
  "old_content re exists e c = (case c (full_path re e) of Some b \<Rightarrow> if exists then b else [] | None \<Rightarrow> [])"

lemma runs_open_content:
  assumes "re_calls re = lc"
  shows "runs (loc (holding c)) (open_in_place re ex_ist e)
    (\<lambda>_. loc (\<lambda>w. at_offset (full_path re e) c (old_content re ex_ist e c) 0 [] w \<and> (ex_ist \<longrightarrow> c (full_path re e) \<noteq> None))) (\<lambda>_ _. True)"
proof (cases ex_ist)
  case True
  have "runs (loc (holding c)) (or_raise ''DOWNLOAD_OPEN'' (on_local (get_st (lc_OpenRDWR (re_calls re) (full_path re e)))))
    (\<lambda>_. loc (\<lambda>w. at_offset (full_path re e) c (old_content re ex_ist e c) 0 [] w \<and> (ex_ist \<longrightarrow> c (full_path re e) \<noteq> None))) (\<lambda>_ _. True)"
  proof (rule runs_or_raise, rule runs_post [OF runs_local_get])
    fix err :: "errno option" and s :: "('w, 'b) restore_state"
    assume s: "loc (\<lambda>w. holding c w \<and> err = lc_OpenRDWR (re_calls re) (full_path re e) w) s"
    show "if err = None then loc (\<lambda>w. at_offset (full_path re e) c (old_content re ex_ist e c) 0 [] w \<and> (ex_ist \<longrightarrow> c (full_path re e) \<noteq> None)) s else True"
    proof (cases "err = None")
      case True
      with s assms have w: "ok (rs_local s)" "content (rs_local s) = c" "lc_OpenRDWR lc (full_path re e) (rs_local s) = None"
        by (auto simp: loc_def holding_def)
      from rdwr_law [OF w(1,3)] w(2) obtain b where "c (full_path re e) = Some b" by auto
      with w \<open>ex_ist\<close> show ?thesis by (auto simp: loc_def at_offset_def old_content_def fun_upd_idem)
    qed auto
  qed
  with True show ?thesis by (simp add: open_in_place_def)
next
  case False
  have "runs (loc (holding c)) (or_raise ''DOWNLOAD_CREATE'' (local_call (lc_Create (re_calls re) (full_path re e))))
    (\<lambda>_. loc (\<lambda>w. at_offset (full_path re e) c (old_content re ex_ist e c) 0 [] w \<and> (ex_ist \<longrightarrow> c (full_path re e) \<noteq> None))) (\<lambda>_ _. True)"
  proof (rule runs_or_raise, rule runs_post)
    show "runs (loc (holding c)) (local_call (lc_Create (re_calls re) (full_path re e)))
      (\<lambda>err. loc (\<lambda>w. err = None \<longrightarrow> at_offset (full_path re e) c (old_content re ex_ist e c) 0 [] w)) (\<lambda>_ _. True)"
      by (rule runs_local_call) (use assms False create_law in \<open>fastforce simp: holding_def at_offset_def old_content_def split: option.splits\<close>)
  qed (use False in \<open>auto simp: loc_def\<close>)
  with False show ?thesis by (simp add: open_in_place_def)
qed

text \<open>The result that is claimed: the parts if the file has been restored; in any case nothing else has changed, and
  the downloader has not gone beyond the last chunk of the file.\<close>

definition written ::
  "('w, 's) restore_env \<Rightarrow> entry \<Rightarrow> (bytes \<times> int) list \<Rightarrow> (bytes option \<Rightarrow> 'w \<Rightarrow> bool) \<Rightarrow> restored \<Rightarrow> ('w, 's) restore_state \<Rightarrow> bool" where
  "written re e K X = (\<lambda>(downloaded, err) s. \<exists>x l. 0 \<le> l \<and> l \<le> EndChunk e \<and> during (X x) re K l s \<and>
     (downloaded \<longrightarrow> err = None \<and> (\<exists>b. x = Some b \<and> file_parts re e K (EndChunk e + 1) b)))"

abbreviation held :: "('w, 's) restore_env \<Rightarrow> entry \<Rightarrow> (string \<Rightarrow> bytes option) \<Rightarrow> bytes option \<Rightarrow> 'w \<Rightarrow> bool" where
  "held re e c x \<equiv> holding (c(full_path re e := x))"

lemma gave_up_written: "gave_up re e K c s \<Longrightarrow> written re e K (held re e c) (False, err) s"
  unfolding gave_up_def written_def by auto

lemma runs_write_in_place_content:
  assumes "re_calls re = lc" and "0 \<le> l" and "l \<le> StartChunk e" and "StartChunk e \<le> EndChunk e" and "EndChunk e < int (length K)"
    and "(ex_ist \<and> c (full_path re e) = None) \<or> existing_ok re (old_content re ex_ist e c) 0 (ex_chunks ex)"
  shows "runs (during (holding c) re K l) (write_in_place re fo ex_ist ex e)
    (written re e K (held re e c)) (\<lambda>_ _. True)"
proof -
  let ?full = "full_path re e" and ?b0 = "old_content re ex_ist e c"
  let ?R = "written re e K (held re e c)"
  let ?ps = "\<lparr>ps_chunks = ex_chunks ex, ps_offset = 0, ps_existingOffset = 0, ps_hashed = []\<rparr>"
  let ?X = "\<lambda>w. at_offset ?full c ?b0 0 [] w \<and> (ex_ist \<longrightarrow> c ?full \<noteq> None)"
  have opened: "runs (during (holding c) re K l) (open_in_place re ex_ist e) (\<lambda>_. during ?X re K l) (\<lambda>_ _. True)"
  proof (rule runs_during_local [OF _ runs_open_content [OF assms(1)]])
    show "local_only (open_in_place re ex_ist e)"
      unfolding open_in_place_def by (auto intro: local_only_or_raise local_only_base)
  qed
  have flags: "runs (during ?X re K l) (early_flags re fo ?full e) (\<lambda>_. during ?X re K l) (\<lambda>_ _. True)"
    by (rule runs_during_local [OF local_only_early_flags runs_early_flags [OF assms(1)]]) (auto simp: at_offset_def)
  have start: "runs (during ?X re K l) (until_error (place_chunk re e) [StartChunk e..EndChunk e] ?ps)
      (\<lambda>r s. case r of Inl err \<Rightarrow> gave_up re e K c s | Inr ps \<Rightarrow> placing_at re e K c ?b0 (EndChunk e + 1) ps s) (\<lambda>_ _. True)"
  proof (rule runs_pre [OF runs_until_upto [where P = "placing_at re e K c ?b0"]])
    show "runs (placing_at re e K c ?b0 i b) (place_chunk re e i b)
        (\<lambda>r s. case r of Inl err \<Rightarrow> gave_up re e K c s | Inr b \<Rightarrow> placing_at re e K c ?b0 (i + 1) b s) (\<lambda>_ _. True)"
      if "StartChunk e \<le> i" "i \<le> EndChunk e" for i b
      using that assms by (intro runs_place_content) auto
    show "placing_at re e K c ?b0 (StartChunk e) ?ps s" if "during ?X re K l s" for s
      using that assms(2,3,6) by (auto simp: placing_at_def file_parts_def during_def loc_def)
  qed (use assms in simp)
  have finish: "runs (placing_at re e K c ?b0 (EndChunk e + 1) ps)
      (bind_st (or_raise ''DOWNLOAD_TRUNCATE'' (local_call (lc_Truncate (re_calls re) ?full (ps_offset ps)))) (\<lambda>_.
       bind_st (check_hash re fo e (ps_hashed ps)) (\<lambda>err. return_st (if err = None then (True, None) else (False, err))))) ?R (\<lambda>_ _. True)" for ps
  proof (rule runs_state)
    fix s
    assume "placing_at re e K c ?b0 (EndChunk e + 1) ps s"
    then obtain m where m: "file_parts re e K (EndChunk e + 1) (ps_hashed ps)" "0 \<le> m" "m \<le> EndChunk e"
      "during (at_offset ?full c ?b0 (ps_offset ps) (ps_hashed ps)) re K m s" using assms(4) by (auto simp: placing_at_def)
    have trunc: "runs (during (at_offset ?full c ?b0 (ps_offset ps) (ps_hashed ps)) re K m)
        (or_raise ''DOWNLOAD_TRUNCATE'' (local_call (lc_Truncate (re_calls re) ?full (ps_offset ps))))
        (\<lambda>_. during (holding (c(?full \<mapsto> ps_hashed ps))) re K m) (\<lambda>_ _. True)"
    proof (rule runs_during_local [OF local_only_or_raise [OF local_only_base(3)]], rule runs_or_raise, rule runs_post)
      show "runs (loc (at_offset ?full c ?b0 (ps_offset ps) (ps_hashed ps))) (local_call (lc_Truncate (re_calls re) ?full (ps_offset ps)))
        (\<lambda>err. loc (\<lambda>w. err = None \<longrightarrow> holding (c(?full \<mapsto> ps_hashed ps)) w)) (\<lambda>_ _. True)"
        by (rule runs_local_call) (use assms(1) at_offset_truncate in auto)
    qed (auto simp: loc_def)
    have check: "runs (during (holding (c(?full \<mapsto> ps_hashed ps))) re K m)
       (bind_st (check_hash re fo e (ps_hashed ps)) (\<lambda>err. return_st (if err = None then (True, None) else (False, err))))
       (\<lambda>x s. during (holding (c(?full \<mapsto> ps_hashed ps))) re K m s \<and> (fst x \<longrightarrow> snd x = None)) (\<lambda>_ _. True)"
      by (auto simp: runs_def check_hash_def Let_def LOG_WERROR_def bind_st_def return_st_def raise_st_def)
    have "runs (during (at_offset ?full c ?b0 (ps_offset ps) (ps_hashed ps)) re K m)
      (bind_st (or_raise ''DOWNLOAD_TRUNCATE'' (local_call (lc_Truncate (re_calls re) ?full (ps_offset ps)))) (\<lambda>_.
       bind_st (check_hash re fo e (ps_hashed ps)) (\<lambda>err. return_st (if err = None then (True, None) else (False, err)))))
      (\<lambda>x s. during (holding (c(?full \<mapsto> ps_hashed ps))) re K m s \<and> (fst x \<longrightarrow> snd x = None)) (\<lambda>_ _. True)"
      by (rule runs_bind [OF trunc check])
    then show "runs (\<lambda>t. t = s) (bind_st (or_raise ''DOWNLOAD_TRUNCATE'' (local_call (lc_Truncate (re_calls re) ?full (ps_offset ps)))) (\<lambda>_.
       bind_st (check_hash re fo e (ps_hashed ps)) (\<lambda>err. return_st (if err = None then (True, None) else (False, err))))) ?R (\<lambda>_ _. True)"
    proof (rule runs_pre [OF runs_post])
      show "?R x s'" if "during (holding (c(?full \<mapsto> ps_hashed ps))) re K m s' \<and> (fst x \<longrightarrow> snd x = None)" for x s'
        using that m(1-3) unfolding written_def by (cases x) (auto simp del: fun_upd_apply)
    qed (use m(4) in simp)
  qed
  show ?thesis
    unfolding write_in_place_def
  proof (rule runs_bind [OF opened runs_bind [OF flags runs_bind [OF start]]])
    show "runs (\<lambda>s. case r of Inl err \<Rightarrow> gave_up re e K c s | Inr ps \<Rightarrow> placing_at re e K c ?b0 (EndChunk e + 1) ps s)
      (case r of Inl err \<Rightarrow> return_st (False, Some err)
       | Inr ps \<Rightarrow> bind_st (or_raise ''DOWNLOAD_TRUNCATE'' (local_call (lc_Truncate (re_calls re) ?full (ps_offset ps)))) (\<lambda>_.
          bind_st (check_hash re fo e (ps_hashed ps)) (\<lambda>err. return_st (if err = None then (True, None) else (False, err))))) ?R (\<lambda>_ _. True)" for r
      using finish by (cases r) (auto simp: gave_up_written intro: runs_return)
  qed
qed

lemma local_only_open: "local_only (open_existing re fo e)"
proof -
  have "local_only (create_sparse re fo e)"
    unfolding create_sparse_def Let_def
    by (intro local_only_bind local_only_or_raise local_only_early_flags local_only_base(2,3))
  then have "local_only (bind_st (create_sparse re fo e) (\<lambda>_. return_st (True, True)))"
    by (rule local_only_bind) (rule local_only_base(1) [OF read_only_base(1)])
  then show ?thesis
    unfolding open_existing_def
    by (intro local_only_bind local_only_base(2)) (simp add: local_only_base(1) [OF read_only_base(1)] split: option.split)
qed

text \<open>A new sparse file has zeros only.\<close>

definition zeros_of :: "('w, 's) restore_env \<Rightarrow> entry \<Rightarrow> bool \<Rightarrow> (string \<Rightarrow> bytes option) \<Rightarrow> string \<Rightarrow> bytes option" where
  "zeros_of re e isNew c = (if isNew then c(full_path re e \<mapsto> replicate (nat (Size e)) 0) else c)"

lemma write_zeros: "2 \<le> m \<Longrightarrow> n = 1 \<or> n = 2 \<Longrightarrow> write_at [] (nat (m - n)) (replicate (nat n) 0) = replicate (nat m) 0"
proof -
  assume "2 \<le> m" "n = 1 \<or> n = 2"
  then have "nat m = nat (m - n) + nat n" by auto
  then show ?thesis by (simp add: write_at_def replicate_add)
qed

lemma runs_create_zeros:
  assumes "re_calls re = lc" and "2 \<le> Size e"
  shows "runs (loc (holding c)) (create_sparse re fo e) (\<lambda>_. loc (holding (zeros_of re e True c))) (\<lambda>_ _. True)"
proof -
  let ?full = "full_path re e"
  have create: "runs (loc (holding c)) (or_raise ''DOWNLOAD_CREATE'' (local_call (lc_Create (re_calls re) ?full)))
      (\<lambda>_. loc (holding (c(?full \<mapsto> [])))) (\<lambda>_ _. True)"
    by (rule runs_or_raise, rule runs_post, rule runs_local_call [where Y = "\<lambda>err w. err = None \<longrightarrow> holding (c(?full \<mapsto> [])) w"])
      (use assms(1) create_law in \<open>fastforce simp: loc_def holding_def\<close>)+
  have flags: "runs (loc (holding (c(?full \<mapsto> [])))) (early_flags re fo ?full e) (\<lambda>_. loc (holding (c(?full \<mapsto> [])))) (\<lambda>_ _. True)"
    by (rule runs_exn [OF runs_early_flags [OF assms(1)]]) (auto simp: holding_def)
  have wr: "runs (loc (holding (c(?full \<mapsto> [])))) (or_raise ''DOWNLOAD_CREATE'' (local_call (lc_WriteAt (re_calls re) ?full (Size e - n) (replicate (nat n) 0))))
      (\<lambda>_. loc (holding (zeros_of re e True c))) (\<lambda>_ _. True)" if n: "n = 1 \<or> n = 2" for n
  proof (rule runs_or_raise, rule runs_post, rule runs_local_call [where Y = "\<lambda>err w. err = None \<longrightarrow> holding (zeros_of re e True c) w"])
    fix w err w'
    assume w: "holding (c(?full \<mapsto> [])) w" "lc_WriteAt (re_calls re) ?full (Size e - n) (replicate (nat n) 0) w = (err, w')"
    then show "err = None \<longrightarrow> holding (zeros_of re e True c) w'"
      using write_law [of w ?full "[]" "Size e - n" "replicate (nat n) 0" err w'] n assms write_zeros [OF assms(2) n]
      by (auto simp: holding_def zeros_of_def)
  qed (auto simp: loc_def)
  have opened: "runs (loc (holding (zeros_of re e True c))) (or_raise ''DOWNLOAD_OPEN'' (on_local (get_st (lc_Open (re_calls re) ?full))))
      (\<lambda>_. loc (holding (zeros_of re e True c))) (\<lambda>_ _. True)"
    by (rule runs_or_raise, rule runs_post, rule runs_local_get) (auto simp: loc_def)
  have n: "(if b then 2 else 1 :: int) = 1 \<or> (if b then 2 else 1 :: int) = 2" for b by simp
  show ?thesis
    unfolding create_sparse_def Let_def
    by (rule runs_bind [OF create], rule runs_bind [OF flags], rule runs_bind [OF wr [OF n]], rule opened)
qed

lemma runs_open_old:
  assumes "re_calls re = lc"
  shows "runs (loc (holding c)) (open_existing re fo e) (\<lambda>p s. loc (holding (zeros_of re e (snd p) c)) s \<and> (snd p \<longrightarrow> fst p)) (\<lambda>_ _. True)"
proof -
  let ?Q = "\<lambda>p s. loc (holding (zeros_of re e (snd p) c)) s \<and> (snd p \<longrightarrow> fst p)"
  have sparse: "runs (loc (holding c)) (bind_st (create_sparse re fo e) (\<lambda>_. return_st (True, True))) ?Q (\<lambda>_ _. True)"
    if "100 * 1024 * 1024 < Size e"
    by (rule runs_bind [OF runs_create_zeros [OF assms] runs_return]) (use that in auto)
  have old: "runs (loc (holding c)) (return_st (b, False)) ?Q (\<lambda>_ _. True)" for b
    by (rule runs_return) (simp add: zeros_of_def)
  have "runs (loc (\<lambda>w. holding c w \<and> err = f w)) (case err of None \<Rightarrow> return_st (True, False)
      | Some err \<Rightarrow> if err = ENOENT \<and> fo_inPlace fo \<and> 100 * 1024 * 1024 < Size e
          then bind_st (create_sparse re fo e) (\<lambda>_. return_st (True, True)) else return_st (False, False)) ?Q (\<lambda>_ _. True)" for err f
  proof (rule runs_pre [where P = "loc (holding c)"])
    show "runs (loc (holding c)) (case err of None \<Rightarrow> return_st (True, False)
      | Some err \<Rightarrow> if err = ENOENT \<and> fo_inPlace fo \<and> 100 * 1024 * 1024 < Size e
          then bind_st (create_sparse re fo e) (\<lambda>_. return_st (True, True)) else return_st (False, False)) ?Q (\<lambda>_ _. True)"
    proof (cases err)
      case None
      show ?thesis unfolding None option.case by (rule old)
    next
      case (Some n)
      show ?thesis unfolding Some option.case by (intro runs_if sparse old) simp
    qed
  qed (simp add: loc_def)
  then show ?thesis unfolding open_existing_def by (rule runs_bind [OF runs_local_get])
qed

lemma runs_split_old:
  assumes "re_calls re = lc" and "fo_inPlace fo"
    and "isNew \<longrightarrow> ex_ist \<and> c (full_path re e) = Some (replicate (nat (Size e)) 0)"
  shows "runs (loc (holding c)) (split_existing re fo ex_ist isNew e)
    (\<lambda>r s. loc (holding c) s \<and> (case r of Inl (d, err) \<Rightarrow> \<not> d
       | Inr ex \<Rightarrow> (ex_ist \<and> c (full_path re e) = None) \<or> existing_ok re (old_content re ex_ist e c) 0 (ex_chunks ex))) (\<lambda>_ _. True)"
    (is "runs _ _ (\<lambda>r s. _ \<and> ?R r) _")
proof (cases ex_ist)
  case False
  then show ?thesis by (simp add: split_existing_def runs_def return_st_def no_existing_def existing_ok_def)
next
  case True
  have 1: "runs (loc (holding c)) (split_in_place re fo isNew e) (\<lambda>r s. loc (holding c) s \<and> split_result fo isNew r) (\<lambda>_ _. True)"
    by (rule runs_exn [OF runs_split_in_place]) simp
  have 2: "runs (loc (holding c)) (split_in_place re fo isNew e)
      (\<lambda>r s. loc (holding c) s \<and> (\<forall>ex. r = Inr ex \<longrightarrow> c (full_path re e) = None \<or> existing_ok re (old_content re ex_ist e c) 0 (ex_chunks ex))) (\<lambda>_ _. True)"
  proof (cases "c (full_path re e)")
    case None
    show ?thesis by (rule runs_post [OF 1]) (use None in simp)
  next
    case (Some b)
    then have "isNew \<longrightarrow> b = replicate (length b) 0" using assms(3) by auto
    from runs_split_content [where c = c and b = b, OF assms(1) Some this] show ?thesis
      by (rule runs_post) (use True Some in \<open>auto simp: old_content_def\<close>)
  qed
  have "runs (loc (holding c)) (split_in_place re fo isNew e) (\<lambda>r s. loc (holding c) s \<and> ?R r) (\<lambda>_ _. True)"
    using 1 2 True unfolding runs_def split_result_def by (fastforce split: sum.splits prod.splits)
  with True assms(2) show ?thesis by (simp add: split_existing_def)
qed

abbreviation held_beside :: "('w, 's) restore_env \<Rightarrow> entry \<Rightarrow> (string \<Rightarrow> bytes option) \<Rightarrow> bytes option \<Rightarrow> 'w \<Rightarrow> bool" where
  "held_beside re e c x \<equiv> untouched (temporary_path re) (c(full_path re e := x))"

lemma held_weaken: "written re e K (held re e c) r s \<Longrightarrow> written re e K (held_beside re e c) r s"
  using holding_untouched(1) unfolding written_def during_def loc_def by (cases r) blast

lemma keeps_written:
  assumes "re_calls re = lc"
  shows "keeps (written re e K (held_beside re e c) x) (remove_temporary re e)"
proof -
  have lo: "local_only (remove_temporary re e)"
    unfolding remove_temporary_def
    by (auto intro!: local_only_bind [OF local_only_base(3)] intro: local_only_base(1) [OF read_only_base(1)])
  have "during (untouched (temporary_path re) d) re K l (snd (remove_temporary re e s))" if "during (untouched (temporary_path re) d) re K l s" for d l s
    using that lo keeps_remove_temporary [OF assms refl, of d e] by (simp add: during_def keeps_def local_only_def)
  then show ?thesis unfolding keeps_def written_def by (cases x) fastforce
qed

lemma runs_RestoreFile_content:
  assumes "re_calls re = lc" and "fo_inPlace fo"
    and "0 \<le> l" and "l \<le> StartChunk e" and "StartChunk e \<le> EndChunk e" and "EndChunk e < int (length K)"
  shows "runs (during (holding c) re K l) (RestoreFile re fo e) (written re e K (held_beside re e c)) (\<lambda>_ _. True)"
proof -
  let ?full = "full_path re e" and ?W = "written re e K (held re e c)"
  let ?D = "dl_state (re_download re) l l K {}"
  let ?S = "\<lambda>isNew. during (holding (zeros_of re e isNew c)) re K l"
  have upd: "(zeros_of re e isNew c)(?full := x) = c(?full := x)" for isNew x by (simp add: zeros_of_def)
  have opened: "runs (during (holding c) re K l) (open_existing re fo e) (\<lambda>p s. ?S (snd p) s \<and> (snd p \<longrightarrow> fst p)) (\<lambda>_ _. True)"
    unfolding during_def [abs_def] by (rule runs_post [OF runs_local_only [OF local_only_open runs_open_old [OF assms(1)]]]) auto
  have split: "runs (?S isNew) (split_existing re fo ex_ist isNew e)
      (\<lambda>r s. ?S isNew s \<and> (case r of Inl (d, err) \<Rightarrow> \<not> d
       | Inr ex \<Rightarrow> (ex_ist \<and> zeros_of re e isNew c ?full = None) \<or> existing_ok re (old_content re ex_ist e (zeros_of re e isNew c)) 0 (ex_chunks ex))) (\<lambda>_ _. True)"
    if "isNew \<longrightarrow> ex_ist" for ex_ist isNew
  proof -
    have "isNew \<longrightarrow> ex_ist \<and> zeros_of re e isNew c ?full = Some (replicate (nat (Size e)) 0)" using that by (simp add: zeros_of_def)
    note s = runs_split_old [where c = "zeros_of re e isNew c" and ex_ist = ex_ist, OF assms(1,2) this]
    have "read_only (split_existing re fo ex_ist isNew e)"
      using assms(2) by (simp add: split_existing_def read_only_base read_only_split_in_place)
    from runs_read_only [OF this s, of "\<lambda>s. ?D (rs_downloader s)"] show ?thesis
      unfolding during_def [abs_def] by (rule runs_post) auto
  qed
  have marked: "runs (?S isNew) (on_downloader (for_each [StartChunk e..EndChunk e] (mark_needed ex))) (\<lambda>_. ?S isNew) (\<lambda>_ _. True)" for isNew ex
  proof -
    have "runs ?D (mark_needed ex i) (\<lambda>_. ?D) (\<lambda>_ _. True)" if "StartChunk e \<le> i" "i \<le> EndChunk e" for i
      unfolding mark_needed_def
      by (rule runs_bind [OF runs_task_at]) (use that assms in \<open>auto intro!: runs_modify runs_return mark_needed_state\<close>)
    then have "runs ?D (for_each [StartChunk e..EndChunk e] (mark_needed ex)) (\<lambda>_. ?D) (\<lambda>_ _. True)"
      by (intro runs_for_each) auto
    from runs_post [OF runs_on_downloader [OF this, of "holding (zeros_of re e isNew c)"]] show ?thesis unfolding during_def [abs_def] by auto
  qed
  have prefetched: "runs (?S isNew) (on_downloader (Prefetch (re_download re) e)) (\<lambda>_. during (holding (zeros_of re e isNew c)) re K (StartChunk e)) (\<lambda>_ _. True)" for isNew
    using runs_post [OF runs_on_downloader [OF runs_Prefetch [OF assms(3-6), of "re_download re"], of "holding (zeros_of re e isNew c)"]]
    unfolding during_def [abs_def] by auto
  have wr: "runs (during (holding (zeros_of re e isNew c)) re K (StartChunk e)) (write_in_place re fo ex_ist ex e) ?W (\<lambda>_ _. True)"
    if "(ex_ist \<and> zeros_of re e isNew c ?full = None) \<or> existing_ok re (old_content re ex_ist e (zeros_of re e isNew c)) 0 (ex_chunks ex)" for isNew ex_ist ex
    using runs_write_in_place_content [OF assms(1) _ _ assms(5,6) that] assms(3,4) by (simp add: upd)
  have rest: "runs (\<lambda>s. ?S isNew s \<and> (case r of Inl (d, err) \<Rightarrow> \<not> d
       | Inr ex \<Rightarrow> (ex_ist \<and> zeros_of re e isNew c ?full = None) \<or> existing_ok re (old_content re ex_ist e (zeros_of re e isNew c)) 0 (ex_chunks ex)))
      (case r of Inl result \<Rightarrow> return_st result
       | Inr ex \<Rightarrow> bind_st (on_downloader (for_each [StartChunk e..EndChunk e] (mark_needed ex))) (\<lambda>_.
          bind_st (on_downloader (Prefetch (re_download re) e)) (\<lambda>_.
            if fo_inPlace fo then write_in_place re fo ex_ist ex e else write_copy re fo ex_ist ex e))) ?W (\<lambda>_ _. True)" for r ex_ist isNew
  proof (cases r)
    case (Inl x)
    have "?W (False, err) s" if "?S isNew s" for err s
    proof (rule gave_up_written)
      have "zeros_of re e isNew c = c(?full := zeros_of re e isNew c ?full)" by (auto simp: zeros_of_def fun_eq_iff)
      with that have "during (holding (c(?full := zeros_of re e isNew c ?full))) re K l s" by simp
      moreover have "l \<le> EndChunk e" using assms(4,5) by simp
      ultimately show "gave_up re e K c s" using assms(3) unfolding gave_up_def by blast
    qed
    then show ?thesis unfolding Inl sum.case by (cases x) (auto intro: runs_return)
  next
    case (Inr ex)
    show ?thesis
      unfolding Inr sum.case if_P [OF assms(2)]
      by (rule runs_pure) (rule runs_bind [OF marked runs_bind [OF prefetched wr]])
  qed
  have pair: "runs (\<lambda>s. ?S (snd p) s \<and> (snd p \<longrightarrow> fst p)) (case p of (exists, isNewFile) \<Rightarrow>
      bind_st (split_existing re fo exists isNewFile e) (\<lambda>r.
          case r of
            Inl result \<Rightarrow> return_st result
          | Inr ex \<Rightarrow>
              bind_st (on_downloader (for_each [StartChunk e..EndChunk e] (mark_needed ex))) (\<lambda>_.
              bind_st (on_downloader (Prefetch (re_download re) e)) (\<lambda>_.
                if fo_inPlace fo then write_in_place re fo exists ex e else write_copy re fo exists ex e)))) ?W (\<lambda>_ _. True)" for p
  proof (cases p)
    case (Pair ex_ist isNew)
    show ?thesis unfolding Pair prod.case fst_conv snd_conv by (rule runs_pure) (rule runs_bind [OF split rest])
  qed
  have "runs (during (holding c) re K l) (bind_st (open_existing re fo e) (\<lambda>(exists, isNewFile).
      bind_st (split_existing re fo exists isNewFile e) (\<lambda>r.
          case r of
            Inl result \<Rightarrow> return_st result
          | Inr ex \<Rightarrow>
              bind_st (on_downloader (for_each [StartChunk e..EndChunk e] (mark_needed ex))) (\<lambda>_.
              bind_st (on_downloader (Prefetch (re_download re) e)) (\<lambda>_.
                if fo_inPlace fo then write_in_place re fo exists ex e else write_copy re fo exists ex e)))))
      (written re e K (held_beside re e c)) (\<lambda>_ _. True)"
    by (rule runs_post [OF runs_bind [OF opened pair] held_weaken])
  then show ?thesis
    unfolding RestoreFile_def
    by (rule runs_defer [OF _ keeps_written [OF assms(1)]]) (simp add: keeps_def)
qed

end

text \<open>C14: the content of a file that \<open>RestoreFile\<close> has restored in place, whatever the order in which the chunks
  arrive and whether there was a file before: it is made of the parts, one for every chunk of the entry, and every
  part is the right one. It comes from a chunk with the id of the task, or it was in the file already and has the
  hash of the task itself. Whatever is returned, no other file has changed, and the downloader is ready for the
  next file.\<close>

theorem RestoreFile_content:
  assumes "re_calls re = disk_calls" and "tree (ld_files (rs_local s))" and "full_path re e \<noteq> temporary_path re" and "fo_inPlace fo"
    and "dl = rs_downloader s" and "dl_ok (re_download re) (dl_lastChunkIndex dl) dl"
    and "0 \<le> dl_lastChunkIndex dl" and "dl_lastChunkIndex dl \<le> StartChunk e"
    and "StartChunk e \<le> EndChunk e" and "EndChunk e < int (length (dl_taskList dl))"
    and "RestoreFile re fo e s = (Inr (downloaded, err), s')"
  shows "(downloaded \<longrightarrow> err = None \<and>
       (\<exists>parts. list_all2 (part_of re e (\<lambda>i. task_key (dl_taskList dl ! nat i))) [StartChunk e..EndChunk e] parts \<and>
         disk_content (rs_local s') (full_path re e) = Some (concat parts))) \<and>
     (\<forall>q. q \<noteq> full_path re e \<and> q \<noteq> temporary_path re \<longrightarrow> disk_content (rs_local s') q = disk_content (rs_local s) q) \<and>
     (let dl' = rs_downloader s' in task_keys dl' = task_keys dl \<and> dl_ok (re_download re) (dl_lastChunkIndex dl') dl' \<and>
       0 \<le> dl_lastChunkIndex dl' \<and> dl_lastChunkIndex dl' \<le> EndChunk e)"
proof -
  let ?c = "disk_content (rs_local s)" and ?full = "full_path re e" and ?K = "task_keys dl"
  have pre: "disk_files.during (disk_files.holding ?c) re ?K (dl_lastChunkIndex dl) s"
    using assms(2,5,6) by (auto simp: disk_files.during_def loc_def disk_files.holding_def disk_ok_def dl_state_def dl_inv_def)
  have "EndChunk e < int (length ?K)" using assms(10) by (simp add: length_task_keys)
  from disk_files.runs_RestoreFile_content [OF assms(1,4,7,8,9) this, of ?c] pre assms(11)
  have "disk_files.written re e ?K (disk_files.held_beside re e ?c) (downloaded, err) s'"
    unfolding runs_def by fastforce
  then obtain x l where r: "0 \<le> l" "l \<le> EndChunk e"
    "disk_files.during (disk_files.untouched (temporary_path re) (?c(?full := x))) re ?K l s'"
    "downloaded \<Longrightarrow> err = None" "downloaded \<Longrightarrow> \<exists>b. x = Some b \<and> disk_files.file_parts re e ?K (EndChunk e + 1) b"
    by (auto simp: disk_files.written_def)
  have c: "disk_content (rs_local s') ?full = x" "\<forall>q. q \<noteq> ?full \<and> q \<noteq> temporary_path re \<longrightarrow> disk_content (rs_local s') q = ?c q"
    using r(3) assms(3) by (auto simp: disk_files.during_def loc_def disk_files.untouched_def)
  have key: "part_of re e (\<lambda>i. ?K ! nat i) i y = part_of re e (\<lambda>i. task_key (dl_taskList dl ! nat i)) i y"
    if "i \<in> set [StartChunk e..EndChunk e]" for i y
    using that assms(7-10) by (auto simp: part_of_def task_keys_def)
  have "\<exists>parts. list_all2 (part_of re e (\<lambda>i. task_key (dl_taskList dl ! nat i))) [StartChunk e..EndChunk e] parts \<and>
      disk_content (rs_local s') ?full = Some (concat parts)" if dn: "downloaded"
  proof -
    obtain parts where "list_all2 (part_of re e (\<lambda>i. ?K ! nat i)) [StartChunk e..EndChunk e] parts" "x = Some (concat parts)"
      using r(5) [OF dn] by (auto simp: disk_files.file_parts_def)
    with key c(1) show ?thesis by (intro exI [of _ parts]) (auto simp: list_all2_conv_all_nth)
  qed
  then show ?thesis
    using r c by (auto simp: Let_def disk_files.during_def dl_state_def dl_inv_def)
qed

lemma sample_restore_downloader:
  assumes "dl = rs_downloader (sample_restore d)"
  shows "dl_ok sample_download_env (dl_lastChunkIndex dl) dl" "dl_lastChunkIndex dl = 0" "length (dl_taskList dl) = 1"
proof -
  have range: "\<forall>f \<in> set [sample_d]. file_range sample_source f"
    by (simp add: sample_d_def sample_source_def file_range_def chunk_range_def CreateEntry_def)
  have dl: "dl = snd (AddFiles sample_source [sample_d] (CreateChunkDownloader uploaded_state))"
    by (simp add: assms sample_restore_def)
  show last: "dl_lastChunkIndex dl = 0" "length (dl_taskList dl) = 1" unfolding dl by code_simp+
  have "dl_completedTasks dl = []" "dl_channel dl = []" unfolding dl by code_simp+
  moreover have "fresh_tasks (dl_taskList dl)"
    by (rule AddFiles_run [OF range, of "CreateChunkDownloader uploaded_state"]) (simp add: dl)
  ultimately show "dl_ok sample_download_env (dl_lastChunkIndex dl) dl"
    by (simp add: dl_ok_def fresh_tasks_def Let_def)
qed

theorem RestoreFile_content_witness:
  "\<exists>part. disk_content (rs_local (snd (sample_run (Some [7, 8, 9]) True True))) ''home/d'' = Some part \<and>
     part_of sample_restore_env sample_d (\<lambda>i. (sample_hash, 2)) 0 part"
proof -
  let ?s = "sample_restore (Some [7, 8, 9])" and ?dl = "rs_downloader (sample_restore (Some [7, 8, 9]))"
  obtain r s' where run: "sample_run (Some [7, 8, 9]) True True = (r, s')" by force
  have "fst (sample_run (Some [7, 8, 9]) True True) = Inr (True, None)" by code_simp
  then have r: "RestoreFile sample_restore_env (sample_options True True) sample_d ?s = (Inr (True, None), s')"
    using run by (simp add: sample_run_def)
  have env: "re_download sample_restore_env = sample_download_env" by (simp add: sample_restore_env_def)
  have e: "StartChunk sample_d = 0" "EndChunk sample_d = 0" "Size sample_d = 2" by code_simp+
  have "map task_key (dl_taskList ?dl) = [(sample_hash, 2)]" by code_simp
  then have key: "task_key (dl_taskList ?dl ! 0) = (sample_hash, 2)"
    using sample_restore_downloader(3) [OF refl] by (metis length_greater_0_conv list.size(3) nth_Cons_0 nth_map zero_neq_one)
  have "\<exists>parts. list_all2 (part_of sample_restore_env sample_d (\<lambda>i. task_key (dl_taskList ?dl ! nat i))) [0..0] parts \<and>
      disk_content (rs_local s') ''home/d'' = Some (concat parts)"
    using RestoreFile_content [OF sample_restore_ready(1,2) _ _ refl _ _ _ _ _ r] sample_restore_downloader [OF refl] e
    by (simp add: sample_restore_ready sample_options_def env)
  then show ?thesis
    using run key by (auto simp: list_all2_Cons1 part_of_def)
qed

end
