(* ===== verification/Restore.thy ===== *)
theory Restore
  imports RestoreFile RemoteListing SnapshotManager Lister
begin

text \<open>
  Restoring a snapshot: \<open>BackupManager.Restore\<close> (\<open>duplicacy_backupmanager.go\<close>).

  The entries of the snapshot are compared with the local listing, which is a list that another goroutine delivers
  while the loop runs; here both lists are there at the start. Directories, symbolic links and special files are
  restored in this loop, files afterwards in the order of their chunks, then the hard links to them; at the end
  the local files that the snapshot does not have are deleted, if that has been asked for. The statistics are left
  out, but for the number of files that failed.
\<close>

section \<open>Local files\<close>

record 'w host_calls =
  hc_Stat :: "string \<Rightarrow> 'w \<Rightarrow> errno + file_info"
  hc_Lstat :: "string \<Rightarrow> 'w \<Rightarrow> errno + file_info"
  hc_Mkdir :: "string \<Rightarrow> 'w \<Rightarrow> errno option \<times> 'w"
  hc_MkdirAll :: "string \<Rightarrow> 'w \<Rightarrow> errno option \<times> 'w"
  hc_Readlink :: "string \<Rightarrow> 'w \<Rightarrow> errno + string"
  hc_Symlink :: "string \<Rightarrow> string \<Rightarrow> 'w \<Rightarrow> errno option \<times> 'w"
  hc_Link :: "string \<Rightarrow> string \<Rightarrow> 'w \<Rightarrow> errno option \<times> 'w"
  hc_Mknod :: "string \<Rightarrow> 32 word \<Rightarrow> 64 word \<Rightarrow> 'w \<Rightarrow> errno option \<times> 'w"
  hc_CreateEmpty :: "string \<Rightarrow> 32 word \<Rightarrow> 'w \<Rightarrow> errno option \<times> 'w"

record restore_options =
  ro_Threads :: int
  ro_Patterns :: "string list"
  ro_InPlace :: bool
  ro_QuickMode :: bool
  ro_Overwrite :: bool
  ro_DeleteMode :: bool
  ro_AllowFailures :: bool
  ro_ShowStatistics :: bool

record ('w, 's) restore_all =
  ra_file :: "('w, 's) restore_env"
  ra_host :: "'w host_calls"
  ra_codec :: json_codec
  ra_values :: "bytes \<Rightarrow> goerror + json list"
  ra_msgpack :: msgpack
  ra_compile :: "string \<Rightarrow> goerror + regex"
  ra_listing :: "entry list res"
  ra_metadata :: metadata_options
  ra_includeSpecials :: bool

definition entry_path :: "('w, 's) restore_all \<Rightarrow> entry \<Rightarrow> string" where
  "entry_path ra e = joinPath (re_top (ra_file ra)) (Path e)"

text \<open>A call on the disk that returns an error number.\<close>

definition host_call :: "('w \<Rightarrow> errno option \<times> 'w) \<Rightarrow> ('w, errno option) prog" where
  "host_call f w = (case f w of (err, w) \<Rightarrow> (Inr err, w))"

definition must :: "string \<Rightarrow> ('w, errno option) prog \<Rightarrow> ('w, unit) prog" where
  "must logID m = bind_st m (\<lambda>err. if err = None then return_st () else raise_st (LogError logID))"

text \<open>\<open>os.IsExist\<close>.\<close>

definition IsExist :: "errno \<Rightarrow> bool" where
  "IsExist err \<longleftrightarrow> err = EEXIST \<or> err = ENOTEMPTY"

definition restore_metadata :: "('w, 's) restore_all \<Rightarrow> string \<Rightarrow> file_info option \<Rightarrow> entry \<Rightarrow> ('w, unit) prog" where
  "restore_metadata ra path fileInfo e =
     bind_st (RestoreMetadata (lc_file (re_calls (ra_file ra)) path) fileInfo (ra_metadata ra) e) (\<lambda>_. return_st ())"

text \<open>\<open>Entry.RestoreSpecial\<close> on Linux.\<close>

definition S_IFIFO :: "32 word" where "S_IFIFO = 0x1000"
definition S_IFCHR :: "32 word" where "S_IFCHR = 0x2000"
definition S_IFBLK :: "32 word" where "S_IFBLK = 0x6000"
definition S_IFSOCK :: "32 word" where "S_IFSOCK = 0xC000"

definition node_type :: "entry \<Rightarrow> 32 word option" where
  "node_type e =
     (if Mode e AND ModeNamedPipe \<noteq> 0 then Some S_IFIFO
      else if Mode e AND ModeCharDevice \<noteq> 0 then Some S_IFCHR
      else if Mode e AND ModeDevice \<noteq> 0 then Some S_IFBLK
      else if Mode e AND ModeSocket \<noteq> 0 then Some S_IFSOCK
      else None)"

definition RestoreSpecial :: "('w, 's) restore_all \<Rightarrow> string \<Rightarrow> entry \<Rightarrow> ('w, errno option) prog" where
  "RestoreSpecial ra path e =
     (case node_type e of
        None \<Rightarrow> return_st None
      | Some t \<Rightarrow> host_call (hc_Mknod (ra_host ra) path ((Mode e AND fileModeMask) OR t) (GetRdev e)))"

section \<open>The plan\<close>

text \<open>\<open>localEntry\<close> is the first of the local entries that are left. An entry of the table of hard links is a root
  with \<open>willExist\<close>.\<close>

record restore_plan =
  rp_local :: "entry list"
  rp_extraFiles :: "string list"
  rp_fileEntries :: "entry list"
  rp_directoryEntries :: "entry list"
  rp_hardLinkTable :: "(entry \<times> bool) list"
  rp_hardLinks :: "entry list"

definition start_plan :: "entry list \<Rightarrow> restore_plan" where
  "start_plan listing = \<lparr>rp_local = listing, rp_extraFiles = [], rp_fileEntries = [], rp_directoryEntries = [],
     rp_hardLinkTable = [], rp_hardLinks = []\<rparr>"

text \<open>The loop that looks for the local entry with the path of the remote one; 1 if there is none.\<close>

fun next_local :: "entry \<Rightarrow> entry list \<Rightarrow> string list \<Rightarrow> int \<times> entry list \<times> string list" where
  "next_local e [] extraFiles = (1, [], extraFiles)"
| "next_local e (l # ls) extraFiles =
     (let c = Compare l e in
      if c < 0 then next_local e ls (extraFiles @ [Path l]) else (c, l # ls, extraFiles))"

definition match_local :: "entry \<Rightarrow> restore_plan \<Rightarrow> entry option \<times> restore_plan" where
  "match_local e p =
     (case next_local e (rp_local p) (rp_extraFiles p) of (c, ls, extraFiles) \<Rightarrow>
        if c = 0 then (Some (hd ls), p\<lparr>rp_local := tl ls, rp_extraFiles := extraFiles\<rparr>)
        else (None, p\<lparr>rp_local := ls, rp_extraFiles := extraFiles\<rparr>))"

definition add_root :: "entry \<Rightarrow> restore_plan \<Rightarrow> restore_plan" where
  "add_root e p = (if IsHardLinkRoot e then p\<lparr>rp_hardLinkTable := rp_hardLinkTable p @ [(e, False)]\<rparr> else p)"

definition root_exists :: "entry \<Rightarrow> restore_plan \<Rightarrow> restore_plan res" where
  "root_exists e p =
     (if \<not> IsHardLinkRoot e then Inr p
      else if rp_hardLinkTable p = [] then Inl (Panic ''index out of range'')
      else Inr (p\<lparr>rp_hardLinkTable := butlast (rp_hardLinkTable p) @ [(fst (last (rp_hardLinkTable p)), True)]\<rparr>))"

definition link_slot :: "entry \<Rightarrow> restore_plan \<Rightarrow> (int \<times> entry \<times> bool) res" where
  "link_slot e p =
     (case GetHardLinkId e of
        Inl err \<Rightarrow> Inl (LogError ''RESTORE_HARDLINK'')
      | Inr i \<Rightarrow> bind_res (index_slice (rp_hardLinkTable p) i) (\<lambda>(root, willExist). Inr (i, root, willExist)))"

definition take_slot :: "int \<Rightarrow> entry \<Rightarrow> restore_plan \<Rightarrow> restore_plan" where
  "take_slot i e p = p\<lparr>rp_hardLinkTable := (rp_hardLinkTable p)[nat i := (e, True)]\<rparr>"

text \<open>\<open>restoreHardLink\<close>: whether the entry has been linked.\<close>

definition restoreHardLink :: "('w, 's) restore_all \<Rightarrow> entry \<Rightarrow> restore_plan \<Rightarrow> ('w, bool \<times> restore_plan) prog" where
  "restoreHardLink ra e p =
     (if IsHardLinkRoot e then bind_st (lift_res (root_exists e p)) (\<lambda>p. return_st (False, p))
      else if IsHardLinkChild e then
        bind_st (lift_res (link_slot e p)) (\<lambda>(i, root, willExist).
          if \<not> willExist then return_st (False, take_slot i e p)
          else bind_st (must ''RESTORE_HARDLINK'' (host_call (hc_Link (ra_host ra) (entry_path ra root) (entry_path ra e)))) (\<lambda>_.
            return_st (True, p)))
      else return_st (False, p))"

section \<open>Symbolic links and special files\<close>

text \<open>What is there already: kept if it is the same, removed if it may be overwritten. \<open>Some\<close> is the plan to go on
  with if the entry is done.\<close>

definition existing_node ::
  "('w, 's) restore_all \<Rightarrow> restore_options \<Rightarrow> entry \<Rightarrow> restore_plan \<Rightarrow> bool \<Rightarrow> file_info option \<Rightarrow> ('w, restore_plan option) prog" where
  "existing_node ra ro e p same fileInfo =
     (if same then
        bind_st (restore_metadata ra (entry_path ra e) fileInfo e) (\<lambda>_.
        bind_st (lift_res (root_exists e p)) (\<lambda>p. return_st (Some p)))
      else if \<not> ro_Overwrite ro then
        bind_st (LOG_WERROR (ro_AllowFailures ro) ''DOWNLOAD_OVERWRITE'') (\<lambda>_. return_st (Some p))
      else bind_st (host_call (lc_Remove (re_calls (ra_file ra)) (entry_path ra e))) (\<lambda>_. return_st None))"

definition new_node :: "('w, 's) restore_all \<Rightarrow> entry \<Rightarrow> restore_plan \<Rightarrow> ('w, unit) prog \<Rightarrow> ('w, restore_plan) prog" where
  "new_node ra e p mknode =
     bind_st (restoreHardLink ra e p) (\<lambda>(linked, p).
       if linked then return_st p
       else bind_st mknode (\<lambda>_. bind_st (restore_metadata ra (entry_path ra e) None e) (\<lambda>_. return_st p)))"

definition restore_symlink :: "('w, 's) restore_all \<Rightarrow> restore_options \<Rightarrow> entry \<Rightarrow> restore_plan \<Rightarrow> ('w, restore_plan) prog" where
  "restore_symlink ra ro e p =
     (let path = entry_path ra e; mknode = must ''RESTORE_SYMLINK'' (host_call (hc_Symlink (ra_host ra) (Link e) path)) in
      bind_st (get_st (hc_Lstat (ra_host ra) path)) (\<lambda>r.
        case r of
          Inl err \<Rightarrow> new_node ra e p mknode
        | Inr st \<Rightarrow>
            bind_st (get_st (\<lambda>w. fi_mode st AND ModeSymlink \<noteq> 0 \<and> hc_Readlink (ra_host ra) path w = Inr (Link e))) (\<lambda>same.
            bind_st (existing_node ra ro e p same (Some st)) (\<lambda>p'.
              case p' of None \<Rightarrow> new_node ra e p mknode | Some p \<Rightarrow> return_st p))))"

definition restore_special :: "('w, 's) restore_all \<Rightarrow> restore_options \<Rightarrow> entry \<Rightarrow> restore_plan \<Rightarrow> ('w, restore_plan) prog" where
  "restore_special ra ro e p =
     (let path = entry_path ra e; mknode = must ''RESTORE_SPECIAL'' (RestoreSpecial ra path e) in
      bind_st (get_st (hc_Lstat (ra_host ra) path)) (\<lambda>r.
        case r of
          Inl err \<Rightarrow> new_node ra e p mknode
        | Inr st \<Rightarrow>
            bind_st (existing_node ra ro e p (IsSameSpecial e st) None) (\<lambda>p'.
              case p' of None \<Rightarrow> new_node ra e p mknode | Some p \<Rightarrow> return_st p)))"

section \<open>Directories and files\<close>

definition restore_directory :: "('w, 's) restore_all \<Rightarrow> entry \<Rightarrow> restore_plan \<Rightarrow> ('w, restore_plan) prog" where
  "restore_directory ra e p =
     (let path = entry_path ra e in
      bind_st (get_st (hc_Stat (ra_host ra) path)) (\<lambda>r.
      bind_st
        (case r of
           Inr st \<Rightarrow> if fi_IsDir st then return_st () else raise_st (LogError ''RESTORE_NOTDIR'')
         | Inl err \<Rightarrow>
             if err \<noteq> ENOENT then return_st ()
             else bind_st (host_call (hc_MkdirAll (ra_host ra) path)) (\<lambda>err.
               case err of
                 None \<Rightarrow> return_st ()
               | Some err \<Rightarrow> if IsExist err then return_st () else raise_st (LogError ''RESTORE_MKDIR''))) (\<lambda>_.
      bind_st
        (if opt_IncludeFileFlags (ra_metadata ra)
         then bind_st (restoreEarlyDirFlags (lc_file (re_calls (ra_file ra)) path) e (opt_FileFlagsMask (ra_metadata ra))) (\<lambda>_. return_st ())
         else return_st ()) (\<lambda>_.
        return_st (p\<lparr>rp_directoryEntries := rp_directoryEntries p @ [e]\<rparr>)))))"

text \<open>A hard link to a file that will exist is made at the end.\<close>

definition plan_file :: "entry \<Rightarrow> restore_plan \<Rightarrow> restore_plan res" where
  "plan_file e p =
     (let add = (\<lambda>p. p\<lparr>rp_fileEntries := rp_fileEntries p @ [e]\<rparr>) in
      if IsHardLinkRoot e then bind_res (root_exists e p) (\<lambda>p. Inr (add p))
      else if IsHardLinkChild e then
        bind_res (link_slot e p) (\<lambda>(i, root, willExist).
          if \<not> willExist then Inr (add (take_slot i e p)) else Inr (p\<lparr>rp_hardLinks := rp_hardLinks p @ [e]\<rparr>))
      else Inr (add p))"

section \<open>The loop over the snapshot\<close>

record ('w, 's) restore_world =
  rw_local :: 'w
  rw_operator :: "'s operator_state"
  rw_regexes :: regex_map

definition on_disk :: "('w, 'a) prog \<Rightarrow> (('w, 's) restore_world, 'a) prog" where
  "on_disk = zoom rw_local (\<lambda>w rw. rw\<lparr>rw_local := w\<rparr>)"

definition selected :: "('w, 's) restore_all \<Rightarrow> restore_options \<Rightarrow> entry \<Rightarrow> (('w, 's) restore_world, bool) prog" where
  "selected ra ro e =
     (if ro_Patterns ro = [] then return_st True
      else zoom rw_regexes (\<lambda>m rw. rw\<lparr>rw_regexes := m\<rparr>) (MatchPath (ra_compile ra) (Path e) (ro_Patterns ro)))"

definition plan_matched ::
  "('w, 's) restore_all \<Rightarrow> restore_options \<Rightarrow> entry \<Rightarrow> restore_plan \<Rightarrow> (('w, 's) restore_world, restore_plan) prog" where
  "plan_matched ra ro e p =
     (if IsLink e then on_disk (restore_symlink ra ro e p)
      else if IsDir e then on_disk (restore_directory ra e p)
      else if IsSpecial e \<and> ra_includeSpecials ra then on_disk (restore_special ra ro e p)
      else lift_res (plan_file e p))"

definition plan_entry ::
  "('w, 's) restore_all \<Rightarrow> restore_options \<Rightarrow> entry \<Rightarrow> restore_plan \<Rightarrow> (('w, 's) restore_world, restore_plan) prog" where
  "plan_entry ra ro e p =
     (let p = add_root e p in
      bind_st (selected ra ro e) (\<lambda>chosen.
        if \<not> chosen then return_st p
        else
          (case match_local e p of
             (Some l, p) \<Rightarrow> if ro_QuickMode ro \<and> IsFile l \<and> IsSameAs l e then return_st p else plan_matched ra ro e p
           | (None, p) \<Rightarrow> plan_matched ra ro e p)))"

definition plan_restore ::
  "('w, 's) restore_all \<Rightarrow> restore_options \<Rightarrow> entry list \<Rightarrow> entry list \<Rightarrow> (('w, 's) restore_world, restore_plan) prog" where
  "plan_restore ra ro listing remote =
     bind_st (fold_st (plan_entry ra ro) remote (start_plan listing)) (\<lambda>p.
       return_st (p\<lparr>rp_extraFiles := rp_extraFiles p @ map Path (rp_local p), rp_local := []\<rparr>))"

section \<open>The order of the files\<close>

text \<open>\<open>chunkMap\<close>: the first occurrence of a hash.\<close>

fun first_index :: "bytes \<Rightarrow> bytes list \<Rightarrow> int" where
  "first_index h [] = 0"
| "first_index h (x # xs) = (if x = h then 0 else 1 + first_index h xs)"

definition use_first_chunk :: "snapshot \<Rightarrow> entry \<Rightarrow> entry res" where
  "use_first_chunk s f =
     (if StartChunk f = EndChunk f then
        bind_res (index_slice (ChunkHashes s) (StartChunk f)) (\<lambda>hash.
          let i = first_index hash (ChunkHashes s) in Inr (f\<lparr>StartChunk := i, EndChunk := i\<rparr>))
      else Inr f)"

fun use_first_chunks :: "snapshot \<Rightarrow> entry list \<Rightarrow> entry list res" where
  "use_first_chunks s [] = Inr []"
| "use_first_chunks s (f # fs) =
     bind_res (use_first_chunk s f) (\<lambda>f. bind_res (use_first_chunks s fs) (\<lambda>fs. Inr (f # fs)))"

text \<open>The order of files with the same start is that of the listing here; \<open>sort.Sort\<close> may choose another one.\<close>

fun insert_by_chunk :: "entry \<Rightarrow> entry list \<Rightarrow> entry list" where
  "insert_by_chunk e [] = [e]"
| "insert_by_chunk e (f # fs) = (if ByChunk_Less f e then f # insert_by_chunk e fs else e # f # fs)"

definition sort_by_chunk :: "entry list \<Rightarrow> entry list" where
  "sort_by_chunk es = foldr insert_by_chunk es []"

section \<open>Restoring the files\<close>

text \<open>\<open>path.Split\<close>: the part up to the last slash.\<close>

definition split_dir :: "string \<Rightarrow> string" where
  "split_dir p = rev (dropWhile (\<lambda>c. c \<noteq> CHR ''/'') (rev p))"

definition file_options_of :: "('w, 's) restore_all \<Rightarrow> restore_options \<Rightarrow> file_options" where
  "file_options_of ra ro =
     \<lparr>fo_inPlace = ro_InPlace ro, fo_overwrite = ro_Overwrite ro, fo_allowFailures = ro_AllowFailures ro,
      fo_fileFlagsMask = (if opt_IncludeFileFlags (ra_metadata ra) then opt_FileFlagsMask (ra_metadata ra) else -1)\<rparr>"

text \<open>\<open>failedFileCount\<close> and \<open>downloadedFiles\<close>.\<close>

type_synonym restore_counts = "int \<times> entry list"

definition unchanged_file :: "restore_options \<Rightarrow> entry \<Rightarrow> errno + file_info \<Rightarrow> bool" where
  "unchanged_file ro f r \<longleftrightarrow>
     (case r of Inl err \<Rightarrow> False | Inr st \<Rightarrow> (ro_QuickMode ro \<or> Size f = 0) \<and> IsSameAsFileInfo f st)"

definition restore_one ::
  "('w, 's) restore_all \<Rightarrow> restore_options \<Rightarrow> entry \<Rightarrow> restore_counts \<Rightarrow> (('w, 's) restore_state, restore_counts) prog" where
  "restore_one ra ro f = (\<lambda>(failed, downloadedFiles).
     let path = entry_path ra f in
     bind_st (on_local (get_st (hc_Stat (ra_host ra) path))) (\<lambda>r.
       if unchanged_file ro f r then return_st (failed, downloadedFiles)
       else
         bind_st
           (case r of
              Inr st \<Rightarrow> return_st ()
            | Inl err \<Rightarrow> on_local (must ''DOWNLOAD_MKDIR'' (host_call (hc_MkdirAll (ra_host ra) (split_dir path))))) (\<lambda>_.
         if Size f = 0 then
           bind_st (on_local (must ''DOWNLOAD_OPEN'' (host_call (hc_CreateEmpty (ra_host ra) path (GetPermissions f))))) (\<lambda>_.
           bind_st (on_local (restore_metadata ra path None f)) (\<lambda>_.
             return_st (failed, if ro_ShowStatistics ro then downloadedFiles else downloadedFiles @ [f])))
         else
           bind_st (RestoreFile (ra_file ra) (file_options_of ra ro) f) (\<lambda>(downloaded, err).
             if err \<noteq> None then return_st (failed + 1, downloadedFiles)
             else bind_st (on_local (restore_metadata ra path None f)) (\<lambda>_.
               return_st (failed, if downloaded then downloadedFiles @ [f] else downloadedFiles))))))"

definition restore_files ::
  "('w, 's) restore_all \<Rightarrow> restore_options \<Rightarrow> snapshot \<Rightarrow> entry list \<Rightarrow> (('w, 's) restore_state, restore_counts) prog" where
  "restore_files ra ro s fs =
     bind_st (on_downloader (AddFiles s fs)) (\<lambda>fs. fold_st (restore_one ra ro) fs (0, []))"

section \<open>Hard links, deletions and directories\<close>

definition same_file :: "file_info \<Rightarrow> file_info \<Rightarrow> bool" where
  "same_file a b \<longleftrightarrow> fi_dev a = fi_dev b \<and> fi_ino a = fi_ino b"

definition make_link :: "('w, 's) restore_all \<Rightarrow> string \<Rightarrow> string \<Rightarrow> ('w, unit) prog" where
  "make_link ra source path = must ''RESTORE_HARDLINK'' (host_call (hc_Link (ra_host ra) source path))"

definition restore_link :: "('w, 's) restore_all \<Rightarrow> restore_options \<Rightarrow> restore_plan \<Rightarrow> entry \<Rightarrow> ('w, unit) prog" where
  "restore_link ra ro p e =
     (let i = (case GetHardLinkId e of Inl err \<Rightarrow> 0 | Inr i \<Rightarrow> i) in
      bind_st (lift_res (index_slice (rp_hardLinkTable p) i)) (\<lambda>(root, _).
      let source = entry_path ra root; path = entry_path ra e in
      bind_st (get_st (hc_Lstat (ra_host ra) path)) (\<lambda>r.
        case r of
          Inl err \<Rightarrow> make_link ra source path
        | Inr st \<Rightarrow>
            bind_st (get_st (hc_Lstat (ra_host ra) source)) (\<lambda>src.
              case src of
                Inl err \<Rightarrow> LOG_WERROR (ro_AllowFailures ro) ''RESTORE_HARDLINK''
              | Inr source_st \<Rightarrow>
                  if same_file st source_st then return_st ()
                  else if \<not> ro_Overwrite ro then LOG_WERROR (ro_AllowFailures ro) ''DOWNLOAD_OVERWRITE''
                  else bind_st (host_call (lc_Remove (re_calls (ra_file ra)) path)) (\<lambda>_. make_link ra source path)))))"

text \<open>In the reverse order, so that directories are empty before they are deleted.\<close>

definition delete_extra :: "('w, 's) restore_all \<Rightarrow> string list \<Rightarrow> ('w, unit) prog" where
  "delete_extra ra extraFiles =
     for_each (rev extraFiles) (\<lambda>file.
       bind_st (host_call (lc_Remove (re_calls (ra_file ra)) (joinPath (re_top (ra_file ra)) file))) (\<lambda>_. return_st ()))"

definition finish_restore :: "('w, 's) restore_all \<Rightarrow> restore_options \<Rightarrow> restore_plan \<Rightarrow> ('w, unit) prog" where
  "finish_restore ra ro p =
     bind_st (for_each (rp_hardLinks p) (restore_link ra ro p)) (\<lambda>_.
     bind_st (if ro_DeleteMode ro \<and> ro_Patterns ro = [] then delete_extra ra (rp_extraFiles p) else return_st ()) (\<lambda>_.
       for_each (rp_directoryEntries p) (\<lambda>e. restore_metadata ra (entry_path ra e) None e)))"

section \<open>Restore\<close>

definition restore_setup :: "('w, 's) restore_all \<Rightarrow> ('w, unit) prog" where
  "restore_setup ra =
     (let top = re_top (ra_file ra) in
      bind_st (get_st (hc_Stat (ra_host ra) top)) (\<lambda>r.
      bind_st (if r = Inl ENOENT then must ''RESTORE_MKDIR'' (host_call (hc_Mkdir (ra_host ra) top)) else return_st ()) (\<lambda>_.
      bind_st (host_call (hc_Mkdir (ra_host ra) (joinPath top ''.duplicacy''))) (\<lambda>err.
        case err of
          None \<Rightarrow> return_st ()
        | Some err \<Rightarrow> if IsExist err then return_st () else raise_st (LogError ''RESTORE_MKDIR'')))))"

text \<open>The options as they are used: at least one thread, and in place if the preferences are elsewhere.\<close>

definition used_options :: "('w, 's) restore_all \<Rightarrow> restore_options \<Rightarrow> restore_options" where
  "used_options ra ro = ro\<lparr>ro_Threads := max 1 (ro_Threads ro),
     ro_InPlace := ro_InPlace ro \<or> \<not> HasPrefix (re_preferencePath (ra_file ra)) (re_top (ra_file ra))\<rparr>"

definition with_operator :: "restore_options \<Rightarrow> ('w, 's) restore_all \<Rightarrow> ('w, 's) restore_all" where
  "with_operator ro ra =
     (let re = ra_file ra; de = re_download re in
      ra\<lparr>ra_file := re\<lparr>re_download := de\<lparr>de_threads := ro_Threads ro,
        de_operator := (de_operator de)\<lparr>rewriteChunks := False, allowFailures := ro_AllowFailures ro\<rparr>\<rparr>\<rparr>\<rparr>)"

text \<open>The snapshot manager has an operator of its own, which does not allow failures.\<close>

definition remote_entries ::
  "('w, 's) restore_all \<Rightarrow> string \<Rightarrow> int \<Rightarrow> ('s operator_state, snapshot \<times> entry list) prog" where
  "remote_entries ra snapshotID revision =
     (let env = de_operator (re_download (ra_file ra)); own = env\<lparr>allowFailures := False\<rparr> in
      bind_st (DownloadSnapshot own (ra_codec ra) None snapshotID revision) (\<lambda>s.
      bind_st (DownloadSnapshotSequences own (ra_codec ra) s) (\<lambda>s.
      bind_st (ListRemoteFiles env (ra_values ra) (ra_msgpack ra) s keep_all []) (\<lambda>r.
        case r of None \<Rightarrow> raise_st (Panic ''unreachable'') | Some es \<Rightarrow> return_st (s, es)))))"

text \<open>The phase of the files, with a downloader and a chunk maker of its own.\<close>

definition restore_phase ::
  "('w, 's) restore_all \<Rightarrow> restore_options \<Rightarrow> snapshot \<Rightarrow> entry list \<Rightarrow> (('w, 's) restore_world, restore_counts) prog" where
  "restore_phase ra ro s fs =
     bind_st (lift_res (CreateFileChunkMaker (re_hashes (ra_file ra)) (re_config (ra_file ra)) True)) (\<lambda>mk rw.
       case restore_files ra ro s fs \<lparr>rs_local = rw_local rw, rs_downloader = CreateChunkDownloader (rw_operator rw), rs_maker = mk\<rparr> of
         (r, rs) \<Rightarrow> (r, rw\<lparr>rw_local := rs_local rs, rw_operator := dl_operator (rs_downloader rs)\<rparr>))"

definition Restore ::
  "('w, 's) restore_all \<Rightarrow> restore_options \<Rightarrow> string \<Rightarrow> int \<Rightarrow> (('w, 's) restore_world, int) prog" where
  "Restore ra options snapshotID revision =
     (let ro = used_options ra options; ra = with_operator ro ra in
      bind_st (on_disk (restore_setup ra)) (\<lambda>_.
      bind_st (zoom rw_operator (\<lambda>w rw. rw\<lparr>rw_operator := w\<rparr>) (remote_entries ra snapshotID revision)) (\<lambda>(s, remote).
      bind_st (lift_res (ra_listing ra)) (\<lambda>listing.
      bind_st (plan_restore ra ro listing remote) (\<lambda>p.
      bind_st (lift_res (use_first_chunks s (rp_fileEntries p))) (\<lambda>fs.
      bind_st (restore_phase ra ro s (sort_by_chunk fs)) (\<lambda>(failed, _).
      bind_st (on_disk (finish_restore ra ro p)) (\<lambda>_.
        return_st failed))))))))"

end
