(* ===== verification/Spec2Isabelle.thy ===== *)
theory Spec2Isabelle
  imports Wildcard Entry EntryList ChunkMaker ChunkCodec ChunkOperator PruneExamples BackupSafety ListerOrder RestoreContent Restore
begin

text \<open>
  A verification development for the backup program under \<open>src/\<close>.

  \<^bold>\<open>The program.\<close> A backup lists the local files (\<open>duplicacy_entry.go\<close>), compares the list with that of the
  last snapshot, packs the new and modified files into chunks by their content (\<open>duplicacy_chunkmaker.go\<close>),
  encrypts the chunks (\<open>duplicacy_chunk.go\<close>) and uploads those that the storage does not have
  (\<open>duplicacy_chunkoperator.go\<close>). The list of the files becomes chunks too; their ids are in the snapshot file
  that is written at the end (\<open>duplicacy_backupmanager.go\<close>, \<open>duplicacy_snapshot.go\<close>). A prune
  (\<open>duplicacy_snapshotmanager.go\<close>) deletes snapshots and the chunks that only they reference. It runs
  without locks beside backups from other machines, and so deletes in two steps: a chunk becomes a fossil
  first, and is deleted when every backup that could use it has ended.

  \<^bold>\<open>How it is modelled.\<close> A struct is a record and a Go map an association list with distinct keys. A function
  that fails is a function into a sum: the left side is an exception, which is a \<open>LOG_ERROR\<close>, a runtime panic or
  a failed assertion (theory \<open>Prelude\<close>); a returned \<open>error\<close> is a value. A function that works on the storage
  is a state transformer that keeps the state it has reached when it fails (theory \<open>StateExn\<close>). Code that is
  not in the repository is an argument of the definitions: the hash functions (record \<open>hashes\<close>), ciphers,
  compressors and the Reed-Solomon code (\<open>codecs\<close>), msgpack (\<open>msgpack\<close>), encoding/json (\<open>json_codec\<close>),
  regular expressions (\<open>filter_env\<close>), the system calls of the lister and of the restoring of metadata
  (\<open>lister_env\<close>, \<open>file_calls\<close>), the clock and the time zone, and the order in which a loop visits a map. What
  the proofs need of them are named predicates such as \<open>msgpack_ok\<close>, \<open>codecs_ok\<close> and \<open>hashes_ok\<close>, each with a
  concrete instance that satisfies it.

  \<^bold>\<open>The theories.\<close>
  \<^item> \<open>Prelude\<close>, \<open>StateExn\<close>, \<open>FileSystem\<close>: exceptions, strings and numbers of Go's library; programs with state,
    their sequencing and Hoare triples; a directory tree with the system calls the file storage uses.
  \<^item> \<open>Wildcard\<close>, \<open>Filters\<close> (\<open>duplicacy_utils.go\<close>, \<open>duplicacy_snapshot.go\<close>): \<open>matchPattern\<close> against a reference
    definition of wildcards; reading filter files that include each other, and \<open>MatchPath\<close>.
  \<^item> \<open>PathOrder\<close>, \<open>Entry\<close>, \<open>EntryJson\<close>, \<open>Attributes\<close> (\<open>duplicacy_entry.go\<close>, \<open>duplicacy_xattr_linux.go\<close>):
    \<open>ComparePaths\<close> against the lexicographic order of the components; entries and their two formats;
    extended attributes, flags and \<open>RestoreMetadata\<close>.
  \<^item> \<open>Lister\<close>, \<open>ListerOrder\<close>: \<open>ListDir\<close> and \<open>ListLocalFiles\<close>, and what they produce: an ordered list in which
    every hard link refers to a file before it.
  \<^item> \<open>EntryList\<close> (\<open>duplicacy_entrylist.go\<close>): the list of a backup in memory and on disk.
  \<^item> \<open>Config\<close>, \<open>Chunk\<close>, \<open>ChunkCodec\<close>, \<open>ChunkMaker\<close>: the config, chunks, their encryption and erasure coding, and
    the splitting of files by a rolling hash, against a reference definition on the concatenated contents.
  \<^item> \<open>Storage\<close> (\<open>duplicacy_storage.go\<close>, \<open>duplicacy_filestorage.go\<close>): the interface, whose promises are the locale
    \<open>storage_laws\<close>, and the file storage, on which it is interpreted.
  \<^item> \<open>ChunkOperator\<close>: the tasks on chunks over any storage.
  \<^item> \<open>Snapshot\<close>, \<open>SnapshotManager\<close>, \<open>RemoteListing\<close>: descriptions and sequences of snapshots, the files of the
    storage, and the listing of the files of a snapshot.
  \<^item> \<open>FossilCollection\<close>, \<open>Retention\<close>, \<open>Prune\<close>: what \<open>PruneSnapshots\<close> does; \<open>PruneSafety\<close> and \<open>PruneCollections\<close>
    show that no referenced chunk is lost; \<open>PruneExamples\<close> has the storage on which the theorems are applied.
  \<^item> \<open>BackupCompare\<close>, \<open>BackupUpload\<close>, \<open>Backup\<close>: the comparison with the last snapshot, the encoding of the file
    list, and \<open>Backup\<close> as a whole; \<open>BackupMetadata\<close> and \<open>BackupSafety\<close> show that a snapshot file appears only when
    all its chunks are stored.
  \<^item> \<open>Downloader\<close> (\<open>duplicacy_chunkdownloader.go\<close>): the task list of a restore and the waiting for chunks that
    arrive in any order; its triples \<open>runs\<close> also cover exceptions.
  \<^item> \<open>RestoreFile\<close>, \<open>RestoreSafety\<close>, \<open>RestoreContent\<close>: \<open>RestoreFile\<close> over the calls on local files (\<open>local_calls\<close>),
    whose laws are the locale \<open>local_files\<close>; what it leaves of the files, and what a restored file contains.
  \<^item> \<open>Restore\<close>: \<open>BackupManager.Restore\<close>, from the comparison with the local files to the deletion of extra ones.

  \<^bold>\<open>Fuel.\<close> The loop of \<open>matchPattern\<close> has a fuel that always suffices (\<open>matchPattern_total\<close>); \<open>ListLocalFiles\<close>
  ends with every fuel above the size of the directory tree (\<open>local_files_in_order\<close>); \<open>ListAllFiles\<close> has a bound
  on the number of directories; the loop of \<open>WaitForChunk\<close> has as many rounds as chunks are under way
  (\<open>WaitForChunk_delivers\<close>), and \<open>WaitForCompletion\<close> a bound as an argument. All other loops are recursive functions that terminate; a reader of the chunk
  maker ends since it is a finite list of results.

  \<^bold>\<open>Not modelled.\<close> The goroutines and queues of the chunk operator: a task is performed when it is added. The
  cloud storages, which are clients of services; shadow copies, keyrings and the variants of the metadata
  operations for other systems; the log, statistics and progress; the command line; the operations of the
  snapshot manager that print.
\<close>

end
